(* ===== verification/Prelude.thy ===== *)
theory Prelude
  imports Complex_Main "HOL-Library.AList"
begin

text \<open>
  Shared vocabulary of the development: the fragments of the JavaScript and
  SQLite run-time that the modelled sources use, with the lemmas the component
  theories build on.

  \<^item> Text is \<^typ>\<open>string\<close>: a list of code units in the range U+0000 to U+00FF.  Every
    modelled operation treats a code unit as opaque except for the listed ASCII
    characters, so nothing is lost by this range.
  \<^item> A JavaScript \<^verbatim>\<open>Map\<close> keeps insertion order, so it is an association list:
    \<open>AList.update\<close> overwrites in place or appends, \<open>AList.delete\<close> removes.
  \<^item> A SQLite table is the list of its rows in rowid order.  A conditional
    \<^verbatim>\<open>UPDATE\<close> returns the new rows and the number of changed rows.
  \<^item> Timestamps and authority levels are integers; the few places where a
    fractional, infinite or not-a-number value matters use \<open>jsnum\<close>.
\<close>

named_theorems table_simps \<open>how conditional updates act on keyed lookups\<close>
named_theorems jsmap_simps \<open>laws of insertion-ordered maps\<close>


section \<open>Numbers\<close>

datatype jsnum = JNaN | JPosInf | JNegInf | JFin rat

fun js_lt :: "jsnum \<Rightarrow> jsnum \<Rightarrow> bool" where
  "js_lt (JFin a) (JFin b) = (a < b)"
| "js_lt JNegInf (JFin b) = True"
| "js_lt JNegInf JPosInf = True"
| "js_lt (JFin a) JPosInf = True"
| "js_lt _ _ = False"

fun js_is_finite :: "jsnum \<Rightarrow> bool" where
  "js_is_finite (JFin a) = True"
| "js_is_finite _ = False"

definition digit_char :: "nat \<Rightarrow> char" where
  "digit_char d = char_of (48 + d)"

fun show_nat :: "nat \<Rightarrow> string" where
  "show_nat n = (if n < 10 then [digit_char n] else show_nat (n div 10) @ [digit_char (n mod 10)])"

declare show_nat.simps [simp del]

definition show_int :: "int \<Rightarrow> string" where
  "show_int i = (if i < 0 then CHR ''-'' # show_nat (nat (- i)) else show_nat (nat i))"


section \<open>Strings\<close>

definition js_startsWith :: "string \<Rightarrow> string \<Rightarrow> bool" where
  "js_startsWith s p = (take (length p) s = p)"

fun js_indexOf :: "string \<Rightarrow> string \<Rightarrow> nat option" where
  "js_indexOf [] p = (if p = [] then Some 0 else None)"
| "js_indexOf (c # s) p =
     (if js_startsWith (c # s) p then Some 0 else map_option Suc (js_indexOf s p))"

definition js_includes :: "string \<Rightarrow> string \<Rightarrow> bool" where
  "js_includes s p = (js_indexOf s p \<noteq> None)"

fun js_join :: "string \<Rightarrow> string list \<Rightarrow> string" where
  "js_join sep [] = []"
| "js_join sep [x] = x"
| "js_join sep (x # y # xs) = x @ sep @ js_join sep (y # xs)"

text \<open>The white space \<^verbatim>\<open>String.prototype.trim\<close> removes, within the modelled range.\<close>

definition js_space :: "char \<Rightarrow> bool" where
  "js_space c = (of_char c \<in> {9, 10, 11, 12, 13, 32, 160 :: nat})"

definition js_trim :: "string \<Rightarrow> string" where
  "js_trim s = rev (dropWhile js_space (rev (dropWhile js_space s)))"

text \<open>An absent optional string and the empty string are both falsy.\<close>

definition js_truthy :: "string option \<Rightarrow> bool" where
  "js_truthy s = (case s of None \<Rightarrow> False | Some t \<Rightarrow> t \<noteq> [])"

abbreviation newline :: string where
  "newline \<equiv> [CHR 0x0A]"

text \<open>Text between single quotes, as error messages quote names.\<close>

definition quoted :: "string \<Rightarrow> string" where
  "quoted s = CHR 0x27 # s @ [CHR 0x27]"

lemma js_startsWith_iff: "js_startsWith s p \<longleftrightarrow> (\<exists>t. s = p @ t)"
proof
  assume "js_startsWith s p"
  then have "s = p @ drop (length p) s"
    unfolding js_startsWith_def by (metis append_take_drop_id)
  then show "\<exists>t. s = p @ t" ..
next
  assume "\<exists>t. s = p @ t"
  then show "js_startsWith s p"
    by (auto simp: js_startsWith_def)
qed

lemma js_startsWith_refl [simp]: "js_startsWith s s"
  by (simp add: js_startsWith_def)

lemma js_startsWith_append [simp]: "js_startsWith (p @ t) p"
  by (simp add: js_startsWith_def)

lemma js_indexOf_Some:
  "js_indexOf s p = Some i \<Longrightarrow> \<exists>u v. s = u @ p @ v \<and> length u = i"
proof (induction s arbitrary: i)
  case Nil
  then show ?case by (auto split: if_splits)
next
  case (Cons c s)
  show ?case
  proof (cases "js_startsWith (c # s) p")
    case True
    with Cons.prems show ?thesis by (force simp: js_startsWith_iff)
  next
    case False
    with Cons.prems obtain j where "js_indexOf s p = Some j" and "i = Suc j" by auto
    with Cons.IH obtain u v where "s = u @ p @ v" and "length u = j" by blast
    with \<open>i = Suc j\<close> have "c # s = (c # u) @ p @ v \<and> length (c # u) = i" by simp
    then show ?thesis by blast
  qed
qed

lemma js_indexOf_None: "js_indexOf s p = None \<Longrightarrow> s \<noteq> u @ p @ v"
proof (induction s arbitrary: u)
  case Nil
  then show ?case by (auto split: if_splits)
next
  case (Cons c s)
  then have none: "js_indexOf s p = None" and not: "\<not> js_startsWith (c # s) p"
    by (auto split: if_splits)
  show ?case
  proof (cases u)
    case Nil
    with not show ?thesis by (auto simp: js_startsWith_iff)
  next
    case (Cons d u')
    with Cons.IH [OF none, of u'] show ?thesis by auto
  qed
qed

lemma js_includes_iff: "js_includes s p \<longleftrightarrow> (\<exists>u v. s = u @ p @ v)"
proof (cases "js_indexOf s p")
  case None
  then show ?thesis using js_indexOf_None [OF None] by (simp add: js_includes_def)
next
  case (Some i)
  then show ?thesis using js_indexOf_Some [OF Some] by (auto simp: js_includes_def)
qed

lemma js_includes_append1: "js_includes s p \<Longrightarrow> js_includes (s @ t) p"
  unfolding js_includes_iff by (metis append.assoc)

lemma js_includes_append2: "js_includes t p \<Longrightarrow> js_includes (s @ t) p"
  unfolding js_includes_iff by (metis append.assoc)

lemma js_includes_Cons: "js_includes t p \<Longrightarrow> js_includes (c # t) p"
  using js_includes_append2 [of t p "[c]"] by simp

lemma js_includes_self [simp]: "js_includes p p"
  unfolding js_includes_iff by (metis append_Nil append_Nil2)

lemma js_includes_middle: "js_includes (a @ p @ b) p"
  unfolding js_includes_iff by blast

lemma js_includes_trans: "js_includes s t \<Longrightarrow> js_includes t p \<Longrightarrow> js_includes s p"
  unfolding js_includes_iff by (metis append.assoc)

lemma js_includes_join: "x \<in> set xs \<Longrightarrow> js_includes (js_join sep xs) x"
proof (induction sep xs rule: js_join.induct)
  case (3 sep y z xs)
  show ?case
  proof (cases "x = y")
    case True
    then show ?thesis by (simp add: js_includes_append1)
  next
    case False
    with "3.prems" have "js_includes (js_join sep (z # xs)) x"
      by (intro "3.IH") simp
    then show ?thesis by (simp add: js_includes_append2)
  qed
qed simp_all


section \<open>Lists\<close>

fun find_index :: "('a \<Rightarrow> bool) \<Rightarrow> 'a list \<Rightarrow> nat option" where
  "find_index p [] = None"
| "find_index p (x # xs) = (if p x then Some 0 else map_option Suc (find_index p xs))"

text \<open>\<^verbatim>\<open>[...new Set(xs)]\<close>: duplicates dropped, first occurrence kept.\<close>

definition js_dedupe :: "'a list \<Rightarrow> 'a list" where
  "js_dedupe xs = rev (remdups (rev xs))"

text \<open>
  \<^verbatim>\<open>xs.reduce((a, b) => f(b) > f(a) ? b : a)\<close>: the first element of maximal weight.  It
  raises on an empty array, which the callers exclude.
\<close>

fun reduce_max :: "('a \<Rightarrow> int) \<Rightarrow> 'a \<Rightarrow> 'a list \<Rightarrow> 'a" where
  "reduce_max f a [] = a"
| "reduce_max f a (b # xs) = reduce_max f (if f b > f a then b else a) xs"

lemma set_js_dedupe [simp]: "set (js_dedupe xs) = set xs"
  by (simp add: js_dedupe_def)

lemma distinct_js_dedupe [simp]: "distinct (js_dedupe xs)"
  by (simp add: js_dedupe_def)

lemma js_dedupe_empty [simp]: "js_dedupe xs = [] \<longleftrightarrow> xs = []"
  by (simp add: js_dedupe_def)

lemma find_index_Some:
  "find_index p xs = Some i \<Longrightarrow> i < length xs \<and> p (xs ! i)"
  by (induction xs arbitrary: i) (auto split: if_splits)

lemma find_index_None: "find_index p xs = None \<longleftrightarrow> (\<forall>x \<in> set xs. \<not> p x)"
  by (induction xs) auto

lemma reduce_max_mem: "reduce_max f a xs \<in> insert a (set xs)"
proof (induction xs arbitrary: a)
  case (Cons b xs)
  from Cons.IH [of a] Cons.IH [of b] show ?case by auto
qed simp

lemma reduce_max_ge: "x \<in> insert a (set xs) \<Longrightarrow> f x \<le> f (reduce_max f a xs)"
proof (induction xs arbitrary: a x)
  case Nil
  then show ?case by simp
next
  case (Cons b xs)
  let ?m = "if f b > f a then b else a"
  have "f ?m \<le> f (reduce_max f ?m xs)" by (rule Cons.IH) simp
  moreover have "f a \<le> f ?m" and "f b \<le> f ?m" by simp_all
  moreover have "x \<in> set xs \<Longrightarrow> f x \<le> f (reduce_max f ?m xs)"
    by (rule Cons.IH) simp
  ultimately show ?case using Cons.prems by auto
qed

lemma find_Some_iff_mem: "List.find p xs = Some x \<Longrightarrow> x \<in> set xs \<and> p x"
  by (induction xs) (auto split: if_splits)

lemma find_map_same:
  assumes "\<And>x. p (f x) = p x"
  shows "List.find p (map f xs) = map_option f (List.find p xs)"
  using assms by (induction xs) auto

lemma find_append_Some: "List.find p (xs @ ys) =
    (case List.find p xs of None \<Rightarrow> List.find p ys | Some x \<Rightarrow> Some x)"
  by (induction xs) auto


section \<open>Tables\<close>

text \<open>\<^verbatim>\<open>UPDATE t SET f WHERE p\<close>: the rows afterwards and \<^verbatim>\<open>changes\<close>.\<close>

definition sql_update :: "('r \<Rightarrow> bool) \<Rightarrow> ('r \<Rightarrow> 'r) \<Rightarrow> 'r list \<Rightarrow> 'r list \<times> nat" where
  "sql_update p f rows = (map (\<lambda>r. if p r then f r else r) rows, length (filter p rows))"

text \<open>\<^verbatim>\<open>SELECT * FROM t WHERE key = k\<close>, first row.\<close>

definition sql_get :: "('r \<Rightarrow> 'k) \<Rightarrow> 'k \<Rightarrow> 'r list \<Rightarrow> 'r option" where
  "sql_get key k rows = List.find (\<lambda>r. key r = k) rows"

text \<open>
  \<^verbatim>\<open>SELECT * FROM t WHERE p ORDER BY key DESC\<close>.  SQL leaves the order of equal keys
  open; rowid order is used here and no statement below depends on it.
\<close>

definition sql_select_desc :: "('r \<Rightarrow> bool) \<Rightarrow> ('r \<Rightarrow> int) \<Rightarrow> 'r list \<Rightarrow> 'r list" where
  "sql_select_desc p key rows = sort_key (\<lambda>r. - key r) (filter p rows)"

lemma sql_update_length [simp]: "length (fst (sql_update p f rows)) = length rows"
  by (simp add: sql_update_def)

lemma sql_update_changes [table_simps]: "snd (sql_update p f rows) > 0 \<longleftrightarrow> (\<exists>r \<in> set rows. p r)"
  by (auto simp: sql_update_def filter_empty_conv)

lemma sql_update_none: "snd (sql_update p f rows) = 0 \<Longrightarrow> fst (sql_update p f rows) = rows"
  by (induction rows) (auto simp: sql_update_def split: if_splits)

lemma sql_update_keys [simp]:
  assumes "\<And>r. key (f r) = key r"
  shows "map key (fst (sql_update p f rows)) = map key rows"
  using assms by (induction rows) (auto simp: sql_update_def)

lemma sql_get_update [table_simps]:
  assumes "\<And>r. key (f r) = key r"
  shows "sql_get key k (fst (sql_update p f rows)) =
    map_option (\<lambda>r. if p r then f r else r) (sql_get key k rows)"
  unfolding sql_get_def sql_update_def fst_conv
  by (rule find_map_same) (simp add: assms)

lemma sql_get_key: "sql_get key k rows = Some r \<Longrightarrow> key r = k \<and> r \<in> set rows"
  unfolding sql_get_def using find_Some_iff_mem by fastforce

lemma sql_get_append [table_simps]:
  "sql_get key k (rows @ [r]) =
    (case sql_get key k rows of None \<Rightarrow> (if key r = k then Some r else None) | Some q \<Rightarrow> Some q)"
  by (simp add: sql_get_def find_append_Some split: option.split)

lemma sql_get_mem:
  assumes "distinct (map key rows)" "r \<in> set rows" "key r = k"
  shows "sql_get key k rows = Some r"
  using assms unfolding sql_get_def
  by (induction rows) (auto simp: image_iff)

lemma sql_get_none: "sql_get key k rows = None \<longleftrightarrow> k \<notin> set (map key rows)"
  by (auto simp: sql_get_def find_None_iff)

text \<open>
  The conditional update of one keyed row: with a unique key, the change count says
  exactly whether the row was there and satisfied the guard.
\<close>

lemma sql_update_keyed:
  assumes "distinct (map key rows)"
  shows "snd (sql_update (\<lambda>r. key r = k \<and> p r) f rows) > 0 \<longleftrightarrow>
    (\<exists>r. sql_get key k rows = Some r \<and> p r)"
proof
  assume "snd (sql_update (\<lambda>r. key r = k \<and> p r) f rows) > 0"
  then obtain r where "r \<in> set rows" "key r = k" "p r"
    by (auto simp: sql_update_changes)
  with sql_get_mem [OF assms, of r k] show "\<exists>r. sql_get key k rows = Some r \<and> p r" by blast
next
  assume "\<exists>r. sql_get key k rows = Some r \<and> p r"
  then obtain r where "sql_get key k rows = Some r" and "p r" by blast
  with sql_get_key [of key k rows r] show "snd (sql_update (\<lambda>r. key r = k \<and> p r) f rows) > 0"
    by (auto simp: sql_update_changes)
qed

lemma sql_update_no_key:
  "snd (sql_update (\<lambda>r. key r = k) f rows) = 0 \<longleftrightarrow> k \<notin> set (map key rows)"
  by (auto simp: sql_update_def filter_empty_conv)

lemma sql_get_key_update [table_simps]:
  assumes "\<And>r. key (f r) = key r"
  shows "sql_get key k (fst (sql_update (\<lambda>r. key r = j) f rows)) =
    (if k = j then map_option f (sql_get key k rows) else sql_get key k rows)"
proof (cases "sql_get key k rows")
  case (Some r)
  with sql_get_key [OF Some] show ?thesis by (auto simp: sql_get_update assms)
qed (auto simp: sql_get_update assms)

lemma set_sql_select_desc [simp]: "set (sql_select_desc p key rows) = {r \<in> set rows. p r}"
  by (auto simp: sql_select_desc_def)

lemma sorted_sql_select_desc:
  "sorted_wrt (\<lambda>a b. key a \<ge> key b) (sql_select_desc p key rows)"
proof -
  have "sorted (map (\<lambda>r. - key r) (sql_select_desc p key rows))"
    by (simp add: sql_select_desc_def)
  then show ?thesis by (simp add: sorted_wrt_map)
qed


section \<open>Insertion-ordered maps\<close>

type_synonym ('k, 'v) jsmap = "('k \<times> 'v) list"

abbreviation js_get :: "('k, 'v) jsmap \<Rightarrow> 'k \<Rightarrow> 'v option" where
  "js_get m k \<equiv> map_of m k"

abbreviation js_set :: "'k \<Rightarrow> 'v \<Rightarrow> ('k, 'v) jsmap \<Rightarrow> ('k, 'v) jsmap" where
  "js_set k v m \<equiv> AList.update k v m"

abbreviation js_delete :: "'k \<Rightarrow> ('k, 'v) jsmap \<Rightarrow> ('k, 'v) jsmap" where
  "js_delete k m \<equiv> AList.delete k m"

abbreviation js_has :: "('k, 'v) jsmap \<Rightarrow> 'k \<Rightarrow> bool" where
  "js_has m k \<equiv> js_get m k \<noteq> None"

definition js_map_ok :: "('k, 'v) jsmap \<Rightarrow> bool" where
  "js_map_ok m = distinct (map fst m)"

text \<open>
  What a client may rely on: the keyed-store contract.  The components below state
  their facts about \<^verbatim>\<open>Map\<close> objects through it.
\<close>

locale keyed_store =
  fixes get :: "'m \<Rightarrow> 'k \<Rightarrow> 'v option"
    and set_at :: "'k \<Rightarrow> 'v \<Rightarrow> 'm \<Rightarrow> 'm"
    and remove :: "'k \<Rightarrow> 'm \<Rightarrow> 'm"
    and ok :: "'m \<Rightarrow> bool"
  assumes get_set: "get (set_at k v m) k' = (if k' = k then Some v else get m k')"
    and get_remove: "get (remove k m) k' = (if k' = k then None else get m k')"
    and ok_set: "ok m \<Longrightarrow> ok (set_at k v m)"
    and ok_remove: "ok m \<Longrightarrow> ok (remove k m)"
begin

lemma get_fold_set_other:
  "k \<notin> fst ` set kvs \<Longrightarrow> get (fold (\<lambda>(k, v). set_at k v) kvs m) k = get m k"
  by (induction kvs arbitrary: m) (auto simp: get_set)

lemma get_fold_remove:
  "get (fold remove ks m) k = (if k \<in> set ks then None else get m k)"
  by (induction ks arbitrary: m) (auto simp: get_remove)

lemma ok_fold_remove: "ok m \<Longrightarrow> ok (fold remove ks m)"
  by (induction ks arbitrary: m) (auto simp: ok_remove)

lemma remove_after_set: "get (remove k (set_at k v m)) k' = (if k' = k then None else get m k')"
  by (simp add: get_set get_remove)

end

interpretation jsm: keyed_store map_of AList.update AList.delete js_map_ok
proof unfold_locales
  fix k k' :: 'k and v :: 'v and m :: "('k, 'v) jsmap"
  show "map_of (AList.update k v m) k' = (if k' = k then Some v else map_of m k')"
    by (simp add: update_conv')
  show "map_of (AList.delete k m) k' = (if k' = k then None else map_of m k')"
    by (simp add: delete_conv')
  show "js_map_ok m \<Longrightarrow> js_map_ok (AList.update k v m)"
    by (simp add: js_map_ok_def distinct_update)
  show "js_map_ok m \<Longrightarrow> js_map_ok (AList.delete k m)"
    by (simp add: js_map_ok_def distinct_delete)
qed

lemmas [jsmap_simps] = jsm.get_set jsm.get_remove

lemma js_map_ok_Nil [simp]: "js_map_ok []"
  by (simp add: js_map_ok_def)

lemma js_get_mem: "js_map_ok m \<Longrightarrow> (k, v) \<in> set m \<longleftrightarrow> js_get m k = Some v"
  by (simp add: js_map_ok_def)

lemma js_values_update: "v' \<in> snd ` set (js_set k v m) \<Longrightarrow> v' = v \<or> v' \<in> snd ` set m"
  by (induction m) (auto split: if_splits)

lemma set_js_delete: "set (js_delete k m) = {x \<in> set m. fst x \<noteq> k}"
  by (auto simp: AList.delete_eq)


section \<open>Taking something once\<close>

text \<open>
  The contract behind a conditional update that takes something for good: winning spends it, and it
  stays spent, so that no later attempt wins.
\<close>

fun win_count :: "('o \<Rightarrow> 's \<Rightarrow> 's) \<Rightarrow> ('o \<Rightarrow> 's \<Rightarrow> bool) \<Rightarrow> 'o list \<Rightarrow> 's \<Rightarrow> nat" where
  "win_count nxt wins [] s = 0"
| "win_count nxt wins (x # xs) s = (if wins x s then 1 else 0) + win_count nxt wins xs (nxt x s)"

locale guarded_one_shot =
  fixes nxt :: "'o \<Rightarrow> 's \<Rightarrow> 's" and wins :: "'o \<Rightarrow> 's \<Rightarrow> bool"
    and spent :: "'s \<Rightarrow> bool" and ok :: "'s \<Rightarrow> bool" and legal :: "'o \<Rightarrow> bool"
  assumes ok_nxt: "ok s \<Longrightarrow> legal x \<Longrightarrow> ok (nxt x s)"
    and wins_spends: "ok s \<Longrightarrow> legal x \<Longrightarrow> wins x s \<Longrightarrow> spent (nxt x s)"
    and spent_stays: "ok s \<Longrightarrow> legal x \<Longrightarrow> spent s \<Longrightarrow> spent (nxt x s)"
    and spent_no_win: "ok s \<Longrightarrow> legal x \<Longrightarrow> spent s \<Longrightarrow> \<not> wins x s"
begin

lemma spent_count: "list_all legal xs \<Longrightarrow> ok s \<Longrightarrow> spent s \<Longrightarrow> win_count nxt wins xs s = 0"
  by (induction xs arbitrary: s) (simp_all add: ok_nxt spent_stays spent_no_win)

lemma count_le_1: "list_all legal xs \<Longrightarrow> ok s \<Longrightarrow> win_count nxt wins xs s \<le> 1"
  by (induction xs arbitrary: s) (simp_all add: ok_nxt wins_spends spent_count)

end

text \<open>The same contract where every operation is legal.\<close>

locale one_shot =
  fixes nxt :: "'o \<Rightarrow> 's \<Rightarrow> 's" and wins :: "'o \<Rightarrow> 's \<Rightarrow> bool"
    and spent :: "'s \<Rightarrow> bool" and ok :: "'s \<Rightarrow> bool"
  assumes ok_nxt: "ok s \<Longrightarrow> ok (nxt x s)"
    and wins_spends: "ok s \<Longrightarrow> wins x s \<Longrightarrow> spent (nxt x s)"
    and spent_stays: "ok s \<Longrightarrow> spent s \<Longrightarrow> spent (nxt x s)"
    and spent_no_win: "ok s \<Longrightarrow> spent s \<Longrightarrow> \<not> wins x s"

sublocale one_shot \<subseteq> free: guarded_one_shot nxt wins spent ok "\<lambda>_. True"
  by unfold_locales (simp_all add: ok_nxt wins_spends spent_stays spent_no_win)

context one_shot
begin

lemma spent_count: "ok s \<Longrightarrow> spent s \<Longrightarrow> win_count nxt wins xs s = 0"
  by (rule free.spent_count) (simp_all add: list_all_iff)

lemma count_le_1: "ok s \<Longrightarrow> win_count nxt wins xs s \<le> 1"
  by (rule free.count_le_1) (simp_all add: list_all_iff)

end

end
