(* ===== verification/Roles_Authority.thy ===== *)
theory Roles_Authority
  imports Prelude
begin

text \<open>
  Action categories, their impact and required level, the voice gate, and what a role
  may do: \<^verbatim>\<open>src/roles/authority.ts\<close> and the role record of \<^verbatim>\<open>src/roles/types.ts\<close>.
\<close>

section \<open>Data\<close>

datatype ActionCategory =
    read_data | write_data | delete_data
  | send_message | send_email
  | execute_command | install_software
  | make_payment | modify_settings
  | spawn_agent | terminate_agent
  | access_browser | control_app

datatype Impact = ImpactRead | ImpactWrite | ImpactExternal | ImpactDestructive

fun category_name :: "ActionCategory \<Rightarrow> string" where
  "category_name read_data = ''read_data''"
| "category_name write_data = ''write_data''"
| "category_name delete_data = ''delete_data''"
| "category_name send_message = ''send_message''"
| "category_name send_email = ''send_email''"
| "category_name execute_command = ''execute_command''"
| "category_name install_software = ''install_software''"
| "category_name make_payment = ''make_payment''"
| "category_name modify_settings = ''modify_settings''"
| "category_name spawn_agent = ''spawn_agent''"
| "category_name terminate_agent = ''terminate_agent''"
| "category_name access_browser = ''access_browser''"
| "category_name control_app = ''control_app''"

fun IMPACT_MAP :: "ActionCategory \<Rightarrow> Impact" where
  "IMPACT_MAP read_data = ImpactRead"
| "IMPACT_MAP write_data = ImpactWrite"
| "IMPACT_MAP send_message = ImpactWrite"
| "IMPACT_MAP spawn_agent = ImpactWrite"
| "IMPACT_MAP control_app = ImpactWrite"
| "IMPACT_MAP access_browser = ImpactExternal"
| "IMPACT_MAP send_email = ImpactExternal"
| "IMPACT_MAP execute_command = ImpactDestructive"
| "IMPACT_MAP install_software = ImpactDestructive"
| "IMPACT_MAP make_payment = ImpactDestructive"
| "IMPACT_MAP modify_settings = ImpactDestructive"
| "IMPACT_MAP delete_data = ImpactDestructive"
| "IMPACT_MAP terminate_agent = ImpactDestructive"

definition impactFromCategory :: "ActionCategory \<Rightarrow> Impact" where
  "impactFromCategory category = IMPACT_MAP category"

text \<open>The table in the order of its keys, which \<^verbatim>\<open>Object.keys\<close> preserves.\<close>

definition AUTHORITY_TABLE :: "(ActionCategory \<times> int) list" where
  "AUTHORITY_TABLE =
     [(read_data, 1), (write_data, 3), (send_message, 3), (execute_command, 5),
      (access_browser, 5), (control_app, 5), (spawn_agent, 1), (send_email, 7),
      (install_software, 7), (make_payment, 9), (modify_settings, 9), (delete_data, 9),
      (terminate_agent, 9)]"

fun AUTHORITY_REQUIREMENTS :: "ActionCategory \<Rightarrow> int" where
  "AUTHORITY_REQUIREMENTS read_data = 1"
| "AUTHORITY_REQUIREMENTS write_data = 3"
| "AUTHORITY_REQUIREMENTS send_message = 3"
| "AUTHORITY_REQUIREMENTS execute_command = 5"
| "AUTHORITY_REQUIREMENTS access_browser = 5"
| "AUTHORITY_REQUIREMENTS control_app = 5"
| "AUTHORITY_REQUIREMENTS spawn_agent = 1"
| "AUTHORITY_REQUIREMENTS send_email = 7"
| "AUTHORITY_REQUIREMENTS install_software = 7"
| "AUTHORITY_REQUIREMENTS make_payment = 9"
| "AUTHORITY_REQUIREMENTS modify_settings = 9"
| "AUTHORITY_REQUIREMENTS delete_data = 9"
| "AUTHORITY_REQUIREMENTS terminate_agent = 9"

record KPI =
  kpi_name :: string
  kpi_metric :: string
  kpi_target :: string
  kpi_check_interval :: string

datatype Verbosity = concise | detailed | adaptive_verbosity
datatype Formality = formal | casual | adaptive_formality

record CommunicationStyle =
  cs_tone :: string
  cs_verbosity :: Verbosity
  cs_formality :: Formality

record SubRoleTemplate =
  sr_role_id :: string
  sr_name :: string
  sr_description :: string
  sr_spawned_by :: string
  sr_reports_to :: string
  sr_max_budget_per_task :: int

record RoleDefinition =
  rd_id :: string
  rd_name :: string
  rd_description :: string
  rd_responsibilities :: "string list"
  rd_tools :: "string list"
  rd_authority_level :: int
  rd_autonomous_actions :: "string list option"
  rd_approval_required :: "string list option"
  rd_kpis :: "KPI list option"
  rd_communication_style :: "CommunicationStyle option"
  rd_heartbeat_instructions :: "string option"
  rd_sub_roles :: "SubRoleTemplate list option"

section \<open>The voice gate\<close>

definition VOICE_APPROVAL_CONFIDENCE_FLOOR :: jsnum where
  "VOICE_APPROVAL_CONFIDENCE_FLOOR = JFin (85 / 100)"

datatype ClarifyReason = destructive_impact | low_confidence

datatype VoiceApprovalGateOutcome = Resolve | Clarify ClarifyReason string

definition gateVoiceApprovalResolution ::
    "ActionCategory \<Rightarrow> jsnum \<Rightarrow> VoiceApprovalGateOutcome" where
  "gateVoiceApprovalResolution category confidence =
     (let impact = IMPACT_MAP category in
      if impact = ImpactDestructive then
        Clarify destructive_impact
          ''This action requires dashboard confirmation. Please click the approval card.''
      else if js_lt confidence VOICE_APPROVAL_CONFIDENCE_FLOOR then
        Clarify low_confidence
          (''Couldn'' @ [CHR 0x27] @ ''t confirm clearly. Please repeat, or click the approval card.'')
      else Resolve)"

section \<open>What a role may do\<close>

definition canPerform :: "RoleDefinition \<Rightarrow> ActionCategory \<Rightarrow> bool" where
  "canPerform role action =
     (let requiredLevel = AUTHORITY_REQUIREMENTS action in rd_authority_level role \<ge> requiredLevel)"

definition getRequiredLevel :: "ActionCategory \<Rightarrow> int" where
  "getRequiredLevel action = AUTHORITY_REQUIREMENTS action"

definition listAllowedActions :: "RoleDefinition \<Rightarrow> ActionCategory list" where
  "listAllowedActions role = filter (canPerform role) (map fst AUTHORITY_TABLE)"

definition listDeniedActions :: "RoleDefinition \<Rightarrow> ActionCategory list" where
  "listDeniedActions role = filter (\<lambda>a. \<not> canPerform role a) (map fst AUTHORITY_TABLE)"

definition describeAuthorityLevel :: "int \<Rightarrow> string" where
  "describeAuthorityLevel level =
     (if level < 1 \<or> level > 10 then ''Invalid authority level''
      else if level \<le> 2 then ''Read-only access. Can read data but cannot modify anything.''
      else if level \<le> 4 then ''Read and write access. Can read/write data and send messages.''
      else if level \<le> 6 then
        ''Command execution. Can execute commands, control apps, and access browser.''
      else if level \<le> 8 then
        ''Agent management. Can spawn agents, send emails, and install software.''
      else ''Full access. Can make payments, modify settings, delete data, and terminate agents.'')"

record RolePermissionsSummary =
  ps_level :: int
  ps_description :: string
  ps_allowed :: "ActionCategory list"
  ps_denied :: "ActionCategory list"

definition getRolePermissionsSummary :: "RoleDefinition \<Rightarrow> RolePermissionsSummary" where
  "getRolePermissionsSummary role =
     \<lparr> ps_level = rd_authority_level role,
       ps_description = describeAuthorityLevel (rd_authority_level role),
       ps_allowed = listAllowedActions role,
       ps_denied = listDeniedActions role \<rparr>"

section \<open>Lemmas\<close>

lemma authority_table_requirements: "(c, n) \<in> set AUTHORITY_TABLE \<longleftrightarrow> AUTHORITY_REQUIREMENTS c = n"
  by (cases c) (auto simp: AUTHORITY_TABLE_def)

lemma authority_table_keys: "set (map fst AUTHORITY_TABLE) = UNIV"
proof -
  have "c \<in> set (map fst AUTHORITY_TABLE)" for c
    using authority_table_requirements [of c] by (force simp: image_iff)
  then show ?thesis by blast
qed

lemma authority_table_distinct: "distinct (map fst AUTHORITY_TABLE)"
  by (simp add: AUTHORITY_TABLE_def)

lemma requirement_bounds: "1 \<le> AUTHORITY_REQUIREMENTS c \<and> AUTHORITY_REQUIREMENTS c \<le> 9"
  by (cases c) auto

lemma category_name_inj: "category_name a = category_name b \<longleftrightarrow> a = b"
  by (cases a; cases b; simp)

lemma high_level_is_destructive: "AUTHORITY_REQUIREMENTS c = 9 \<Longrightarrow> IMPACT_MAP c = ImpactDestructive"
  by (cases c) auto

text \<open>a spoken approval resolves exactly the requests whose category is not destructive and
  whose classifier confidence is not below 0.85; in particular no confidence value, not even
  infinity or not-a-number, resolves a category whose required level is 9.\<close>

theorem voice_gate_resolve_iff:
  "gateVoiceApprovalResolution c conf = Resolve \<longleftrightarrow>
     impactFromCategory c \<noteq> ImpactDestructive \<and> \<not> js_lt conf (JFin (85 / 100)) \<and>
     AUTHORITY_REQUIREMENTS c < 9"
proof -
  have "IMPACT_MAP c \<noteq> ImpactDestructive \<Longrightarrow> AUTHORITY_REQUIREMENTS c < 9"
    using high_level_is_destructive [of c] requirement_bounds [of c] by force
  then show ?thesis
    by (auto simp: gateVoiceApprovalResolution_def impactFromCategory_def
        VOICE_APPROVAL_CONFIDENCE_FLOOR_def Let_def)
qed

text \<open>for every role the allowed and the denied actions of its summary split the thirteen
  categories: together they are all of them, no category is in both lists or twice in one, and an
  action is allowed exactly when the role's level reaches the required level.\<close>

theorem role_summary_partition:
  "set (ps_allowed (getRolePermissionsSummary role)) \<union> set (ps_denied (getRolePermissionsSummary role)) = UNIV \<and>
   set (ps_allowed (getRolePermissionsSummary role)) \<inter> set (ps_denied (getRolePermissionsSummary role)) = {} \<and>
   distinct (ps_allowed (getRolePermissionsSummary role) @ ps_denied (getRolePermissionsSummary role)) \<and>
   (\<forall>c. c \<in> set (ps_allowed (getRolePermissionsSummary role)) \<longleftrightarrow>
      getRequiredLevel c \<le> rd_authority_level role)"
  using authority_table_keys authority_table_distinct
  by (auto simp: getRolePermissionsSummary_def listAllowedActions_def listDeniedActions_def
      canPerform_def getRequiredLevel_def Let_def)

end
