(* ===== verification/Authority_Engine.thy ===== *)
theory Authority_Engine
  imports Roles_Authority
begin

text \<open>
  The authority engine, \<^verbatim>\<open>src/authority/engine.ts\<close>: the decision for one action category
  (\<open>checkAuthority\<close>), its tightening by a per-orchestrator profile (\<open>applyProfile\<close>), the fold
  of the decisions of all categories a call reaches (\<open>combineDecisions\<close>), and the operations
  that edit the configuration.  The wall-clock hour that \<^verbatim>\<open>evaluateContextRules\<close> reads is the
  argument \<open>hour\<close>.
\<close>

section \<open>Data\<close>

record PerActionOverride =
  ov_action :: ActionCategory
  ov_role_id :: "string option"
  ov_allowed :: bool
  ov_requires_approval :: bool

datatype RuleCondition = time_range | tool_name | always
datatype RuleEffect = effect_allow | effect_deny | effect_require_approval

text \<open>The parameters a rule's condition reads, with the types the code casts them to.\<close>

record RuleParams =
  rp_start_hour :: "int option"
  rp_end_hour :: "int option"
  rp_tool_name :: "string option"

record ContextRule =
  cr_id :: string
  cr_action :: ActionCategory
  cr_condition :: RuleCondition
  cr_params :: RuleParams
  cr_effect :: RuleEffect
  cr_description :: string

datatype EmergencyState = normal | paused | killed

record AuthorityConfig =
  cfg_default_level :: int
  cfg_governed_categories :: "ActionCategory list"
  cfg_overrides :: "PerActionOverride list"
  cfg_context_rules :: "ContextRule list"
  cfg_learning_enabled :: bool
  cfg_suggest_threshold :: int
  cfg_emergency_state :: EmergencyState

record AuthorityDecision =
  allowed :: bool
  requiresApproval :: bool
  reason :: string
  actionCategory :: ActionCategory
  contextRule :: "string option"
  profileLabel :: "string option"
  deniedByLevel :: bool

record AuthorityProfile =
  pf_label :: "string option"
  pf_level_cap :: "int option"
  pf_governed_categories :: "ActionCategory list option"

type_synonym TemporaryGrants = "(string, ActionCategory list) jsmap"

record AuthorityCheckParams =
  cp_agentId :: string
  cp_agentAuthorityLevel :: int
  cp_agentRoleId :: string
  cp_toolName :: string
  cp_toolCategory :: string
  cp_actionCategory :: ActionCategory
  cp_temporaryGrants :: TemporaryGrants
  cp_profile :: "AuthorityProfile option"

definition mk_decision :: "bool \<Rightarrow> bool \<Rightarrow> string \<Rightarrow> ActionCategory \<Rightarrow> AuthorityDecision" where
  "mk_decision al ap why cat =
     \<lparr> allowed = al, requiresApproval = ap, reason = why, actionCategory = cat,
       contextRule = None, profileLabel = None, deniedByLevel = False \<rparr>"

section \<open>The decision\<close>

definition findOverride :: "AuthorityConfig \<Rightarrow> ActionCategory \<Rightarrow> string \<Rightarrow> PerActionOverride option" where
  "findOverride cfg action roleId =
     (case List.find (\<lambda>o'. ov_action o' = action \<and> ov_role_id o' = Some roleId) (cfg_overrides cfg) of
        Some roleSpecific \<Rightarrow> Some roleSpecific
      | None \<Rightarrow> List.find (\<lambda>o'. ov_action o' = action \<and> \<not> js_truthy (ov_role_id o')) (cfg_overrides cfg))"

definition rule_applies :: "int \<Rightarrow> string \<Rightarrow> ContextRule \<Rightarrow> bool" where
  "rule_applies hour toolName rule =
     (case cr_condition rule of
        time_range \<Rightarrow>
          (let startHour = (case rp_start_hour (cr_params rule) of None \<Rightarrow> 0 | Some h \<Rightarrow> h);
               endHour = (case rp_end_hour (cr_params rule) of None \<Rightarrow> 24 | Some h \<Rightarrow> h)
           in hour \<ge> startHour \<and> hour < endHour)
      | tool_name \<Rightarrow>
          (case rp_tool_name (cr_params rule) of
             None \<Rightarrow> False
           | Some toolPattern \<Rightarrow> toolPattern \<noteq> [] \<and>
               (toolName = toolPattern \<or> js_startsWith toolName toolPattern))
      | always \<Rightarrow> True)"

fun evaluateRules :: "int \<Rightarrow> ActionCategory \<Rightarrow> string \<Rightarrow> ContextRule list \<Rightarrow> ContextRule option" where
  "evaluateRules hour action toolName [] = None"
| "evaluateRules hour action toolName (rule # rules) =
     (if cr_action rule \<noteq> action then evaluateRules hour action toolName rules
      else if rule_applies hour toolName rule then Some rule
      else evaluateRules hour action toolName rules)"

definition evaluateContextRules ::
    "AuthorityConfig \<Rightarrow> int \<Rightarrow> ActionCategory \<Rightarrow> string \<Rightarrow> ContextRule option" where
  "evaluateContextRules cfg hour action toolName =
     evaluateRules hour action toolName (cfg_context_rules cfg)"

definition hasGrant :: "AuthorityCheckParams \<Rightarrow> bool" where
  "hasGrant params =
     (case js_get (cp_temporaryGrants params) (cp_agentId params) of
        None \<Rightarrow> False
      | Some grants \<Rightarrow> cp_actionCategory params \<in> set grants)"

definition overrideDecision :: "AuthorityCheckParams \<Rightarrow> PerActionOverride \<Rightarrow> AuthorityDecision" where
  "overrideDecision params override =
     (let actionCategory = cp_actionCategory params;
          who = (if cp_agentRoleId params = [] then ''global'' else cp_agentRoleId params)
      in if \<not> ov_allowed override then
           mk_decision False False (''Explicitly denied by override for '' @ who) actionCategory
         else if ov_requires_approval override then
           mk_decision True True
             (''Override requires approval for '' @ category_name actionCategory) actionCategory
         else mk_decision True False (''Explicitly allowed by override for '' @ who) actionCategory)"

definition contextDecision :: "AuthorityCheckParams \<Rightarrow> ContextRule \<Rightarrow> AuthorityDecision" where
  "contextDecision params rule =
     (let actionCategory = cp_actionCategory params in
      case cr_effect rule of
        effect_deny \<Rightarrow>
          (mk_decision False False (cr_description rule) actionCategory)\<lparr>contextRule := Some (cr_id rule)\<rparr>
      | effect_require_approval \<Rightarrow>
          (mk_decision True True (cr_description rule) actionCategory)\<lparr>contextRule := Some (cr_id rule)\<rparr>
      | effect_allow \<Rightarrow>
          (mk_decision True False (cr_description rule) actionCategory)\<lparr>contextRule := Some (cr_id rule)\<rparr>)"

definition levelDecision :: "AuthorityConfig \<Rightarrow> AuthorityCheckParams \<Rightarrow> AuthorityDecision" where
  "levelDecision cfg params =
     (let actionCategory = cp_actionCategory params;
          effectiveLevel = max (cp_agentAuthorityLevel params) (cfg_default_level cfg);
          requiredLevel = AUTHORITY_REQUIREMENTS actionCategory
      in if effectiveLevel < requiredLevel then
           (mk_decision False False
              (''Authority level '' @ show_int effectiveLevel @ '' is below required '' @
               show_int requiredLevel @ '' for '' @ category_name actionCategory)
              actionCategory)\<lparr>deniedByLevel := True\<rparr>
         else if actionCategory \<in> set (cfg_governed_categories cfg) then
           mk_decision True True
             (category_name actionCategory @ '' is a governed action requiring user approval'')
             actionCategory
         else mk_decision True False
             (''Authority level '' @ show_int effectiveLevel @ '' meets requirement '' @
              show_int requiredLevel) actionCategory)"

definition baseDecision :: "AuthorityConfig \<Rightarrow> int \<Rightarrow> AuthorityCheckParams \<Rightarrow> AuthorityDecision" where
  "baseDecision cfg hour params =
     (if hasGrant params then
        mk_decision True False ''Temporarily granted by parent agent'' (cp_actionCategory params)
      else case findOverride cfg (cp_actionCategory params) (cp_agentRoleId params) of
        Some override \<Rightarrow> overrideDecision params override
      | None \<Rightarrow>
          (case evaluateContextRules cfg hour (cp_actionCategory params) (cp_toolName params) of
             Some rule \<Rightarrow> contextDecision params rule
           | None \<Rightarrow> levelDecision cfg params))"

text \<open>
  The two ways a profile tightens an allowed decision, in the order the code tries them: the level
  cap denies, then a governed category asks for approval.
\<close>

definition capViolated :: "AuthorityProfile \<Rightarrow> ActionCategory \<Rightarrow> bool" where
  "capViolated profile cat =
     (case pf_level_cap profile of None \<Rightarrow> False | Some cap \<Rightarrow> cap < AUTHORITY_REQUIREMENTS cat)"

definition profileGoverns :: "AuthorityProfile \<Rightarrow> ActionCategory \<Rightarrow> bool" where
  "profileGoverns profile cat =
     (case pf_governed_categories profile of None \<Rightarrow> False | Some g \<Rightarrow> cat \<in> set g)"

definition applyProfile :: "AuthorityDecision \<Rightarrow> AuthorityProfile \<Rightarrow> AuthorityDecision" where
  "applyProfile base profile =
     (if \<not> allowed base then base
      else let label = (case pf_label profile of None \<Rightarrow> ''agent profile'' | Some l \<Rightarrow> l);
               cat = actionCategory base;
               requiredLevel = AUTHORITY_REQUIREMENTS cat
           in if capViolated profile cat then
                (mk_decision False False
                   (label @ '': level cap '' @ show_int (the (pf_level_cap profile)) @
                    '' is below required '' @ show_int requiredLevel @ '' for '' @ category_name cat)
                   cat)\<lparr>profileLabel := Some label\<rparr>
              else if \<not> requiresApproval base \<and> profileGoverns profile cat then
                (mk_decision True True
                   (label @ '': '' @ category_name cat @ '' requires user approval'') cat)
                   \<lparr>contextRule := contextRule base, profileLabel := Some label\<rparr>
              else base)"

definition checkAuthority :: "AuthorityConfig \<Rightarrow> int \<Rightarrow> AuthorityCheckParams \<Rightarrow> AuthorityDecision" where
  "checkAuthority cfg hour params =
     (let base = baseDecision cfg hour params in
      case cp_profile params of Some profile \<Rightarrow> applyProfile base profile | None \<Rightarrow> base)"


section \<open>Folding the decisions of one call\<close>

datatype EngineError = NoDecisions

definition decisionLevel :: "AuthorityDecision \<Rightarrow> int" where
  "decisionLevel d = AUTHORITY_REQUIREMENTS (actionCategory d)"

definition combineDecisions :: "AuthorityDecision list \<Rightarrow> EngineError + AuthorityDecision" where
  "combineDecisions decisions =
     (case decisions of
        [] \<Rightarrow> Inl NoDecisions
      | d0 # ds \<Rightarrow>
          (case filter (\<lambda>d. \<not> allowed d) decisions of
             n0 # ns \<Rightarrow>
               (case List.find (\<lambda>d. \<not> deniedByLevel d) (n0 # ns) of
                  Some hard \<Rightarrow> Inr hard
                | None \<Rightarrow> Inr (reduce_max decisionLevel n0 ns))
           | [] \<Rightarrow>
               (case filter requiresApproval decisions of
                  a0 # as \<Rightarrow> Inr (reduce_max decisionLevel a0 as)
                | [] \<Rightarrow> Inr (reduce_max decisionLevel d0 ds))))"

section \<open>Configuration\<close>

definition removeOverride :: "AuthorityConfig \<Rightarrow> ActionCategory \<Rightarrow> string option \<Rightarrow> AuthorityConfig" where
  "removeOverride cfg action roleId =
     cfg\<lparr>cfg_overrides :=
       filter (\<lambda>o'. \<not> (ov_action o' = action \<and> ov_role_id o' = roleId)) (cfg_overrides cfg)\<rparr>"

definition addOverride :: "AuthorityConfig \<Rightarrow> PerActionOverride \<Rightarrow> AuthorityConfig" where
  "addOverride cfg override =
     (let cfg' = removeOverride cfg (ov_action override) (ov_role_id override)
      in cfg'\<lparr>cfg_overrides := cfg_overrides cfg' @ [override]\<rparr>)"

definition addContextRule :: "AuthorityConfig \<Rightarrow> ContextRule \<Rightarrow> AuthorityConfig" where
  "addContextRule cfg rule = cfg\<lparr>cfg_context_rules := cfg_context_rules cfg @ [rule]\<rparr>"

definition removeContextRule :: "AuthorityConfig \<Rightarrow> string \<Rightarrow> AuthorityConfig" where
  "removeContextRule cfg i =
     cfg\<lparr>cfg_context_rules := filter (\<lambda>r. cr_id r \<noteq> i) (cfg_context_rules cfg)\<rparr>"

definition setGovernedCategories :: "AuthorityConfig \<Rightarrow> ActionCategory list \<Rightarrow> AuthorityConfig" where
  "setGovernedCategories cfg categories = cfg\<lparr>cfg_governed_categories := categories\<rparr>"

definition getConfig :: "AuthorityConfig \<Rightarrow> AuthorityConfig" where
  "getConfig cfg = cfg"

definition updateConfig :: "AuthorityConfig \<Rightarrow> AuthorityConfig \<Rightarrow> AuthorityConfig" where
  "updateConfig cfg config = config"

section \<open>Describing the rules\<close>

definition overrideLine :: "PerActionOverride \<Rightarrow> string" where
  "overrideLine o' =
     (let scope = (if js_truthy (ov_role_id o') then ''['' @ the (ov_role_id o') @ '']'' else ''[global]'');
          status = (if ov_allowed o'
                    then (if ov_requires_approval o' then ''allowed with approval'' else ''always allowed'')
                    else ''denied'')
      in ''  - '' @ category_name (ov_action o') @ '': '' @ status @ '' '' @ scope)"

definition describeRulesForAgent ::
    "AuthorityConfig \<Rightarrow> int \<Rightarrow> string \<Rightarrow> AuthorityProfile option \<Rightarrow> string" where
  "describeRulesForAgent cfg authorityLevel roleId profile =
     (let level0 = max authorityLevel (cfg_default_level cfg);
          effectiveLevel = (case profile of
             Some p \<Rightarrow> (case pf_level_cap p of Some cap \<Rightarrow> min level0 cap | None \<Rightarrow> level0)
           | None \<Rightarrow> level0);
          extra = (case profile of
             Some p \<Rightarrow> (case pf_governed_categories p of Some g \<Rightarrow> g | None \<Rightarrow> [])
           | None \<Rightarrow> []);
          governed = js_dedupe (cfg_governed_categories cfg @ extra);
          roleOverrides = filter (\<lambda>o'. \<not> js_truthy (ov_role_id o') \<or> ov_role_id o' = Some roleId)
                            (cfg_overrides cfg)
      in js_join newline
        ([''Your authority level: '' @ show_int effectiveLevel @ ''/10'', []] @
         (if governed \<noteq> [] then
            [''Actions requiring user approval before execution:''] @
            map (\<lambda>c. ''  - '' @ category_name c) governed @ [[]]
          else []) @
         (if roleOverrides \<noteq> [] then
            [''Special permission overrides:''] @ map overrideLine roleOverrides @ [[]]
          else []) @
         (if cfg_context_rules cfg \<noteq> [] then
            [''Context-based rules:''] @ map (\<lambda>r. ''  - '' @ cr_description r) (cfg_context_rules cfg)
          else [])))"


section \<open>Strictness\<close>

text \<open>How strict a decision is: 0 runs, 1 runs after approval, 2 is refused.\<close>

definition decision_rank :: "AuthorityDecision \<Rightarrow> nat" where
  "decision_rank d = (if \<not> allowed d then 2 else if requiresApproval d then 1 else 0)"

text \<open>
  The contract of a layer on top of the engine: it may raise the rank, never lower it, and it
  leaves the top rank alone.  Any stack of such layers then has the same two properties.
\<close>

locale tightener =
  fixes tighten :: "'d \<Rightarrow> 'p \<Rightarrow> 'd"
    and rank :: "'d \<Rightarrow> nat"
    and top :: nat
  assumes raises: "rank d \<le> rank (tighten d p)"
    and top_fixed: "rank d = top \<Longrightarrow> tighten d p = d"
begin

lemma foldl_raises: "rank d \<le> rank (foldl tighten d ps)"
proof (induction ps arbitrary: d)
  case (Cons p ps)
  have "rank d \<le> rank (tighten d p)" by (rule raises)
  also have "\<dots> \<le> rank (foldl tighten (tighten d p) ps)" by (rule Cons.IH)
  finally show ?case by simp
qed simp

lemma foldl_top_fixed: "rank d = top \<Longrightarrow> foldl tighten d ps = d"
  by (induction ps) (simp_all add: top_fixed)

end

lemma mk_decision_simps [simp]:
  "allowed (mk_decision al ap why cat) = al"
  "requiresApproval (mk_decision al ap why cat) = ap"
  "reason (mk_decision al ap why cat) = why"
  "actionCategory (mk_decision al ap why cat) = cat"
  "contextRule (mk_decision al ap why cat) = None"
  "profileLabel (mk_decision al ap why cat) = None"
  "deniedByLevel (mk_decision al ap why cat) = False"
  by (simp_all add: mk_decision_def)

lemma applyProfile_flags:
  "allowed (applyProfile d pf) \<longleftrightarrow> allowed d \<and> \<not> capViolated pf (actionCategory d)"
  "requiresApproval (applyProfile d pf) \<longleftrightarrow>
     (if allowed d \<and> capViolated pf (actionCategory d) then False
      else requiresApproval d \<or> (allowed d \<and> profileGoverns pf (actionCategory d)))"
  "actionCategory (applyProfile d pf) = actionCategory d"
  by (auto simp: applyProfile_def Let_def)

lemma applyProfile_deniedByLevel: "deniedByLevel (applyProfile d pf) \<Longrightarrow> deniedByLevel d"
  by (simp add: applyProfile_def Let_def split: if_splits)

lemma applyProfile_rank:
  "decision_rank (applyProfile d pf) =
     (if allowed d \<and> capViolated pf (actionCategory d) then 2
      else max (decision_rank d) (if allowed d \<and> profileGoverns pf (actionCategory d) then 1 else 0))"
  by (auto simp: decision_rank_def applyProfile_flags)

interpretation profile_layer: tightener applyProfile decision_rank 2
proof unfold_locales
  fix d pf
  show "decision_rank d \<le> decision_rank (applyProfile d pf)"
    by (simp add: decision_rank_def applyProfile_flags)
  show "decision_rank d = 2 \<Longrightarrow> applyProfile d pf = d"
    by (simp add: decision_rank_def applyProfile_def split: if_splits)
qed

lemma applyProfile_changes:
  "applyProfile d pf = d \<or> (allowed d \<and> decision_rank d < decision_rank (applyProfile d pf))"
proof (cases "allowed d")
  case True
  then show ?thesis
    by (auto simp: applyProfile_def decision_rank_def Let_def)
qed (simp add: applyProfile_def)

lemma baseDecision_category [simp]: "actionCategory (baseDecision cfg hour p) = cp_actionCategory p"
  by (auto simp: baseDecision_def overrideDecision_def contextDecision_def levelDecision_def Let_def
      split: option.split RuleEffect.split)

lemma checkAuthority_category [simp]: "actionCategory (checkAuthority cfg hour p) = cp_actionCategory p"
  by (simp add: checkAuthority_def applyProfile_flags Let_def split: option.split)

lemma evaluateRules_find:
  "evaluateRules hour action toolName rules =
     List.find (\<lambda>r. cr_action r = action \<and> rule_applies hour toolName r) rules"
  by (induction rules) auto

text \<open>Which base decisions run at once.\<close>

lemma base_auto_allow_iff:
  "decision_rank (baseDecision cfg hour p) = 0 \<longleftrightarrow>
     hasGrant p \<or>
     (case findOverride cfg (cp_actionCategory p) (cp_agentRoleId p) of
        Some o' \<Rightarrow> ov_allowed o' \<and> \<not> ov_requires_approval o'
      | None \<Rightarrow>
         (case evaluateContextRules cfg hour (cp_actionCategory p) (cp_toolName p) of
            Some r \<Rightarrow> cr_effect r = effect_allow
          | None \<Rightarrow>
              AUTHORITY_REQUIREMENTS (cp_actionCategory p)
                \<le> max (cp_agentAuthorityLevel p) (cfg_default_level cfg) \<and>
              cp_actionCategory p \<notin> set (cfg_governed_categories cfg)))"
  by (auto simp: decision_rank_def baseDecision_def overrideDecision_def contextDecision_def
      levelDecision_def Let_def split: option.split RuleEffect.split)

lemma base_deniedByLevel_iff:
  "deniedByLevel (baseDecision cfg hour p) \<longleftrightarrow>
     \<not> hasGrant p \<and> findOverride cfg (cp_actionCategory p) (cp_agentRoleId p) = None \<and>
     evaluateContextRules cfg hour (cp_actionCategory p) (cp_toolName p) = None \<and>
     max (cp_agentAuthorityLevel p) (cfg_default_level cfg) < AUTHORITY_REQUIREMENTS (cp_actionCategory p)"
  by (auto simp: baseDecision_def overrideDecision_def contextDecision_def
      levelDecision_def Let_def split: option.split RuleEffect.split)

lemma deniedByLevel_not_allowed: "deniedByLevel (baseDecision cfg hour p) \<Longrightarrow> \<not> allowed (baseDecision cfg hour p)"
  by (auto simp: baseDecision_def overrideDecision_def contextDecision_def
      levelDecision_def Let_def split: option.splits RuleEffect.splits if_splits)

lemma check_rank0_iff:
  "decision_rank (checkAuthority cfg hour p) = 0 \<longleftrightarrow>
     decision_rank (baseDecision cfg hour p) = 0 \<and>
     (case cp_profile p of None \<Rightarrow> True
      | Some pf \<Rightarrow> \<not> capViolated pf (cp_actionCategory p) \<and> \<not> profileGoverns pf (cp_actionCategory p))"
  by (auto simp: checkAuthority_def Let_def decision_rank_def applyProfile_flags
      split: option.split if_splits)

section \<open>When an action runs unasked, written out\<close>

text \<open>
  The first entry of a list that meets a condition exists and has a property, over positions.
\<close>

definition first_such :: "('a \<Rightarrow> bool) \<Rightarrow> ('a \<Rightarrow> bool) \<Rightarrow> 'a list \<Rightarrow> bool" where
  "first_such P Q xs \<longleftrightarrow> (\<exists>i<length xs. P (xs ! i) \<and> Q (xs ! i) \<and> (\<forall>k<i. \<not> P (xs ! k)))"

definition none_such :: "('a \<Rightarrow> bool) \<Rightarrow> 'a list \<Rightarrow> bool" where
  "none_such P xs \<longleftrightarrow> (\<forall>x\<in>set xs. \<not> P x)"

text \<open>
  The condition of a context rule holds: always, or the hour lies in the half-open range whose
  missing ends are 0 and 24, or the tool's name starts with the nonempty name the rule gives.
\<close>

definition rule_condition_met :: "int \<Rightarrow> string \<Rightarrow> ContextRule \<Rightarrow> bool" where
  "rule_condition_met hour tool rule \<longleftrightarrow>
     cr_condition rule = always \<or>
     cr_condition rule = time_range \<and>
       (\<exists>from\<in>set_option (rp_start_hour (cr_params rule)) \<union>
                 (if rp_start_hour (cr_params rule) = None then {0} else {}). from \<le> hour) \<and>
       (\<exists>till\<in>set_option (rp_end_hour (cr_params rule)) \<union>
                 (if rp_end_hour (cr_params rule) = None then {24} else {}). hour < till) \<or>
     cr_condition rule = tool_name \<and>
       (\<exists>name\<in>set_option (rp_tool_name (cr_params rule)).
          name \<noteq> [] \<and> take (length name) tool = name)"

text \<open>
  What lets an action run at once, one line for each of the five layers that can answer; a layer
  answers only where the layers above it are silent.
\<close>

definition runs_unasked :: "AuthorityConfig \<Rightarrow> int \<Rightarrow> AuthorityCheckParams \<Rightarrow> bool" where
  "runs_unasked cfg hour p \<longleftrightarrow>
     (let cat = cp_actionCategory p;
          ours = (\<lambda>e. ov_action e = cat \<and> ov_role_id e = Some (cp_agentRoleId p));
          everybodys = (\<lambda>e. ov_action e = cat \<and> ov_role_id e \<in> {None, Some []});
          permits = (\<lambda>e. ov_allowed e \<and> \<not> ov_requires_approval e);
          speaks = (\<lambda>rule. cr_action rule = cat \<and> rule_condition_met hour (cp_toolName p) rule)
      in (\<exists>grants\<in>set_option (js_get (cp_temporaryGrants p) (cp_agentId p)). cat \<in> set grants) \<or>
         first_such ours permits (cfg_overrides cfg) \<or>
         (none_such ours (cfg_overrides cfg) \<and> first_such everybodys permits (cfg_overrides cfg)) \<or>
         (none_such ours (cfg_overrides cfg) \<and> none_such everybodys (cfg_overrides cfg) \<and>
          first_such speaks (\<lambda>rule. cr_effect rule = effect_allow) (cfg_context_rules cfg)) \<or>
         (none_such ours (cfg_overrides cfg) \<and> none_such everybodys (cfg_overrides cfg) \<and>
          none_such speaks (cfg_context_rules cfg) \<and>
          (AUTHORITY_REQUIREMENTS cat \<le> cp_agentAuthorityLevel p \<or>
           AUTHORITY_REQUIREMENTS cat \<le> cfg_default_level cfg) \<and>
          cat \<notin> set (cfg_governed_categories cfg)))"

text \<open>
  What a profile leaves alone: a category within its level cap, if it has one, that it does not
  govern itself.
\<close>

definition within_profile :: "ActionCategory \<Rightarrow> AuthorityProfile \<Rightarrow> bool" where
  "within_profile cat pf \<longleftrightarrow>
     (\<forall>cap\<in>set_option (pf_level_cap pf). AUTHORITY_REQUIREMENTS cat \<le> cap) \<and>
     (\<forall>governed\<in>set_option (pf_governed_categories pf). cat \<notin> set governed)"

lemma find_first_such:
  "(case List.find P xs of Some x \<Rightarrow> Q x | None \<Rightarrow> R) \<longleftrightarrow>
     first_such P Q xs \<or> (none_such P xs \<and> R)"
proof (cases "List.find P xs")
  case None
  then have "none_such P xs" by (simp add: find_None_iff none_such_def)
  moreover from this have "\<not> first_such P Q xs" by (auto simp: first_such_def none_such_def)
  ultimately show ?thesis using None by simp
next
  case (Some x)
  then obtain i where i: "i < length xs" "P (xs ! i)" "x = xs ! i" "\<forall>j<i. \<not> P (xs ! j)"
    by (auto simp: find_Some_iff)
  then have "first_such P Q xs \<longleftrightarrow> Q x"
    unfolding first_such_def by (metis linorder_neqE_nat)
  moreover have "\<not> none_such P xs" using i by (auto simp: none_such_def)
  ultimately show ?thesis using Some by simp
qed

lemma find_override_first_such:
  "(case findOverride cfg cat role of Some e \<Rightarrow> Q e | None \<Rightarrow> R) \<longleftrightarrow>
     first_such (\<lambda>e. ov_action e = cat \<and> ov_role_id e = Some role) Q (cfg_overrides cfg) \<or>
     (none_such (\<lambda>e. ov_action e = cat \<and> ov_role_id e = Some role) (cfg_overrides cfg) \<and>
      (first_such (\<lambda>e. ov_action e = cat \<and> ov_role_id e \<in> {None, Some []}) Q (cfg_overrides cfg) \<or>
       (none_such (\<lambda>e. ov_action e = cat \<and> ov_role_id e \<in> {None, Some []}) (cfg_overrides cfg) \<and> R)))"
proof -
  have untagged: "(\<lambda>e :: PerActionOverride. ov_action e = cat \<and> \<not> js_truthy (ov_role_id e)) =
      (\<lambda>e. ov_action e = cat \<and> ov_role_id e \<in> {None, Some []})"
  proof (rule ext)
    fix e :: PerActionOverride
    show "(ov_action e = cat \<and> \<not> js_truthy (ov_role_id e)) =
        (ov_action e = cat \<and> ov_role_id e \<in> {None, Some []})"
      by (cases "ov_role_id e") (auto simp: js_truthy_def)
  qed
  have "(case findOverride cfg cat role of Some e \<Rightarrow> Q e | None \<Rightarrow> R) \<longleftrightarrow>
      (case List.find (\<lambda>e. ov_action e = cat \<and> ov_role_id e = Some role) (cfg_overrides cfg) of
         Some e \<Rightarrow> Q e
       | None \<Rightarrow> (case List.find (\<lambda>e. ov_action e = cat \<and> ov_role_id e \<in> {None, Some []})
                     (cfg_overrides cfg) of Some e \<Rightarrow> Q e | None \<Rightarrow> R))"
    unfolding findOverride_def untagged by (simp split: option.split)
  then show ?thesis by (simp only: find_first_such)
qed

lemma rule_applies_met: "rule_applies hour tool rule \<longleftrightarrow> rule_condition_met hour tool rule"
  by (cases "cr_condition rule"; cases "rp_start_hour (cr_params rule)";
      cases "rp_end_hour (cr_params rule)"; cases "rp_tool_name (cr_params rule)")
     (auto simp: rule_applies_def rule_condition_met_def js_startsWith_def)

lemma base_runs_unasked: "decision_rank (baseDecision cfg hour p) = 0 \<longleftrightarrow> runs_unasked cfg hour p"
proof -
  have grant: "hasGrant p \<longleftrightarrow>
      (\<exists>grants\<in>set_option (js_get (cp_temporaryGrants p) (cp_agentId p)).
         cp_actionCategory p \<in> set grants)"
    by (auto simp: hasGrant_def split: option.split)
  show ?thesis
    unfolding base_auto_allow_iff find_override_first_such evaluateContextRules_def
      evaluateRules_find find_first_such rule_applies_met grant le_max_iff_disj
      runs_unasked_def Let_def
    by blast
qed

section \<open>Properties of the decision\<close>

text \<open>C13: an action runs without asking exactly when a temporary grant of the agent names it, or
  else the first override for the action and the agent's role allows it without approval, or else,
  the role having none, the first override for everybody (no role, or an empty one) does, or else
  the first context rule of the action whose condition holds allows it, or else the agent's or the
  default level reaches the required level and the category is not governed; and, in each case, the
  profile in force neither caps the category below its required level nor governs it.  The right
  side reads the grants, the overrides and the rules by their positions and shares no search with
  the engine.\<close>

theorem check_runs_unasked_iff:
  "allowed (checkAuthority cfg hour p) \<and> \<not> requiresApproval (checkAuthority cfg hour p) \<longleftrightarrow>
     runs_unasked cfg hour p \<and>
     (\<forall>pf\<in>set_option (cp_profile p). within_profile (cp_actionCategory p) pf)"
proof -
  have "allowed (checkAuthority cfg hour p) \<and> \<not> requiresApproval (checkAuthority cfg hour p) \<longleftrightarrow>
      decision_rank (checkAuthority cfg hour p) = 0"
    by (simp add: decision_rank_def)
  moreover have "(case cp_profile p of None \<Rightarrow> True
      | Some pf \<Rightarrow> \<not> capViolated pf (cp_actionCategory p) \<and> \<not> profileGoverns pf (cp_actionCategory p))
    \<longleftrightarrow> (\<forall>pf\<in>set_option (cp_profile p). within_profile (cp_actionCategory p) pf)"
    by (auto simp: capViolated_def profileGoverns_def within_profile_def split: option.splits)
  ultimately show ?thesis by (simp only: check_rank0_iff base_runs_unasked)
qed

definition two_overrides :: AuthorityConfig where
  "two_overrides = \<lparr> cfg_default_level = 3, cfg_governed_categories = [],
     cfg_overrides =
       [\<lparr> ov_action = send_email, ov_role_id = None, ov_allowed = False, ov_requires_approval = False \<rparr>,
        \<lparr> ov_action = send_email, ov_role_id = Some ''secretary'', ov_allowed = True,
          ov_requires_approval = False \<rparr>],
     cfg_context_rules =
       [\<lparr> cr_id = ''night'', cr_action = make_payment, cr_condition = time_range,
          cr_params = \<lparr> rp_start_hour = Some 22, rp_end_hour = None, rp_tool_name = None \<rparr>,
          cr_effect = effect_allow, cr_description = ''payments at night'' \<rparr>],
     cfg_learning_enabled = True, cfg_suggest_threshold = 5, cfg_emergency_state = normal \<rparr>"

definition asks :: "string \<Rightarrow> ActionCategory \<Rightarrow> int option \<Rightarrow> AuthorityCheckParams" where
  "asks role cat cap = \<lparr> cp_agentId = ''a'', cp_agentAuthorityLevel = 1, cp_agentRoleId = role,
     cp_toolName = ''tool'', cp_toolCategory = ''general'', cp_actionCategory = cat,
     cp_temporaryGrants = [],
     cp_profile = Some \<lparr> pf_label = None, pf_level_cap = cap, pf_governed_categories = None \<rparr> \<rparr>"

lemma asked_examples:
  "runs_unasked two_overrides 9 (asks ''secretary'' send_email None)"
  "\<not> runs_unasked two_overrides 9 (asks ''intern'' send_email None)"
  "runs_unasked two_overrides 23 (asks ''intern'' make_payment None)"
  "\<not> runs_unasked two_overrides 9 (asks ''intern'' make_payment None)"
  "\<not> within_profile make_payment \<lparr> pf_label = None, pf_level_cap = Some 1, pf_governed_categories = None \<rparr>"
  by code_simp+

theorem check_runs_unasked_iff_witness:
  "allowed (checkAuthority two_overrides 9 (asks ''secretary'' send_email None)) \<and>
   \<not> requiresApproval (checkAuthority two_overrides 9 (asks ''secretary'' send_email None)) \<and>
   \<not> allowed (checkAuthority two_overrides 9 (asks ''intern'' send_email None)) \<and>
   allowed (checkAuthority two_overrides 23 (asks ''intern'' make_payment None)) \<and>
   \<not> (allowed (checkAuthority two_overrides 9 (asks ''intern'' make_payment None)) \<and>
      \<not> requiresApproval (checkAuthority two_overrides 9 (asks ''intern'' make_payment None))) \<and>
   \<not> (allowed (checkAuthority two_overrides 23 (asks ''intern'' make_payment (Some 1))) \<and>
      \<not> requiresApproval (checkAuthority two_overrides 23 (asks ''intern'' make_payment (Some 1))))"
proof -
  have "\<not> requiresApproval (checkAuthority two_overrides 9 (asks ''intern'' send_email None))"
    by code_simp
  then show ?thesis
    using asked_examples
      check_runs_unasked_iff [of two_overrides 9 "asks ''secretary'' send_email None"]
      check_runs_unasked_iff [of two_overrides 9 "asks ''intern'' send_email None"]
      check_runs_unasked_iff [of two_overrides 23 "asks ''intern'' make_payment None"]
      check_runs_unasked_iff [of two_overrides 9 "asks ''intern'' make_payment None"]
      check_runs_unasked_iff [of two_overrides 23 "asks ''intern'' make_payment (Some 1)"]
    by (simp add: asks_def within_profile_def)
qed

text \<open>C38: a profile only tightens.  The decision under a profile is the base decision, or the base
  decision allowed the action and the profile made it strictly stricter; its category is the one
  asked about.\<close>

theorem profile_only_tightens:
  "(checkAuthority cfg hour p = baseDecision cfg hour p \<or>
    (allowed (baseDecision cfg hour p) \<and>
     decision_rank (baseDecision cfg hour p) < decision_rank (checkAuthority cfg hour p))) \<and>
   actionCategory (checkAuthority cfg hour p) = cp_actionCategory p"
proof (cases "cp_profile p")
  case None
  then show ?thesis by (simp add: checkAuthority_def)
next
  case (Some pf)
  then show ?thesis
    using applyProfile_changes [of "baseDecision cfg hour p" pf]
    by (simp add: checkAuthority_def applyProfile_flags)
qed

text \<open>the mark of a pure level shortfall is exact: it is set when no grant, no override and no
  context rule spoke and the effective level is below the required one, and then the action is
  denied; a profile never sets it.\<close>

theorem denied_by_level_exact:
  "deniedByLevel (checkAuthority cfg hour p) \<longleftrightarrow>
     \<not> hasGrant p \<and> findOverride cfg (cp_actionCategory p) (cp_agentRoleId p) = None \<and>
     evaluateContextRules cfg hour (cp_actionCategory p) (cp_toolName p) = None \<and>
     max (cp_agentAuthorityLevel p) (cfg_default_level cfg) < AUTHORITY_REQUIREMENTS (cp_actionCategory p) \<and>
     \<not> allowed (checkAuthority cfg hour p)"
proof (cases "deniedByLevel (baseDecision cfg hour p)")
  case True
  then have "\<not> allowed (baseDecision cfg hour p)" by (rule deniedByLevel_not_allowed)
  then have "checkAuthority cfg hour p = baseDecision cfg hour p"
    by (simp add: checkAuthority_def applyProfile_def Let_def split: option.split)
  with True \<open>\<not> allowed (baseDecision cfg hour p)\<close> show ?thesis
    using base_deniedByLevel_iff [of cfg hour p] by simp
next
  case False
  then have "\<not> deniedByLevel (checkAuthority cfg hour p)"
    by (auto simp: checkAuthority_def Let_def dest: applyProfile_deniedByLevel split: option.splits)
  with False show ?thesis using base_deniedByLevel_iff [of cfg hour p] by blast
qed


section \<open>Properties of the fold\<close>

lemma combineDecisions_total: "(\<exists>d. combineDecisions ds = Inr d) \<longleftrightarrow> ds \<noteq> []"
  by (auto simp: combineDecisions_def split: list.split option.split)

lemma filter_Cons_mem: "filter P xs = y # ys \<Longrightarrow> x \<in> insert y (set ys) \<longleftrightarrow> x \<in> set xs \<and> P x"
proof -
  assume "filter P xs = y # ys"
  then have "set (y # ys) = {x \<in> set xs. P x}" by (metis set_filter)
  then show "x \<in> insert y (set ys) \<longleftrightarrow> x \<in> set xs \<and> P x" by auto
qed

lemma combineDecisions_cases:
  assumes "combineDecisions ds = Inr d"
  obtains
    (hard) "d \<in> set ds" "\<not> allowed d" "\<not> deniedByLevel d"
  | (short) "d \<in> set ds" "\<not> allowed d" "deniedByLevel d"
      "\<forall>x \<in> set ds. \<not> allowed x \<longrightarrow> deniedByLevel x \<and> decisionLevel x \<le> decisionLevel d"
  | (ask) "d \<in> set ds" "allowed d" "requiresApproval d" "\<forall>x \<in> set ds. allowed x"
      "\<forall>x \<in> set ds. requiresApproval x \<longrightarrow> decisionLevel x \<le> decisionLevel d"
  | (run) "d \<in> set ds" "allowed d" "\<not> requiresApproval d"
      "\<forall>x \<in> set ds. allowed x \<and> \<not> requiresApproval x \<and> decisionLevel x \<le> decisionLevel d"
proof (cases "filter (\<lambda>d. \<not> allowed d) ds")
  case (Cons n0 ns)
  note denied = filter_Cons_mem [OF Cons]
  show ?thesis
  proof (cases "List.find (\<lambda>d. \<not> deniedByLevel d) (n0 # ns)")
    case None
    then have soft: "\<forall>x \<in> insert n0 (set ns). deniedByLevel x"
      by (auto simp: find_None_iff split: if_splits)
    have d: "d = reduce_max decisionLevel n0 ns"
      using assms None Cons by (simp add: combineDecisions_def split: list.splits)
    show ?thesis
    proof (rule short)
      show "d \<in> set ds" "\<not> allowed d" "deniedByLevel d"
        using reduce_max_mem [of decisionLevel n0 ns] denied [of d] soft d by auto
      show "\<forall>x \<in> set ds. \<not> allowed x \<longrightarrow> deniedByLevel x \<and> decisionLevel x \<le> decisionLevel d"
        using denied soft reduce_max_ge [of _ n0 ns decisionLevel] d by blast
    qed
  next
    case (Some h)
    from find_Some_iff_mem [OF Some] have "h \<in> insert n0 (set ns)" "\<not> deniedByLevel h" by auto
    moreover have "d = h"
      using assms Some Cons by (simp add: combineDecisions_def split: list.splits)
    ultimately show ?thesis using denied [of h] hard by blast
  qed
next
  case Nil
  then have all: "\<forall>x \<in> set ds. allowed x" by (simp add: filter_empty_conv)
  show ?thesis
  proof (cases "filter requiresApproval ds")
    case (Cons a0 as)
    note asks = filter_Cons_mem [OF Cons]
    have d: "d = reduce_max decisionLevel a0 as"
      using assms Cons \<open>filter (\<lambda>d. \<not> allowed d) ds = []\<close>
      by (simp add: combineDecisions_def split: list.splits)
    then show ?thesis
      using reduce_max_mem [of decisionLevel a0 as] asks reduce_max_ge [of _ a0 as decisionLevel] all ask
      by blast
  next
    case Nil
    then have none: "\<forall>x \<in> set ds. \<not> requiresApproval x" by (simp add: filter_empty_conv)
    from assms obtain d0 ds' where ds: "ds = d0 # ds'"
      by (auto simp: combineDecisions_def split: list.splits)
    have d: "d = reduce_max decisionLevel d0 ds'"
      using assms Nil \<open>filter (\<lambda>d. \<not> allowed d) ds = []\<close> ds
      by (simp add: combineDecisions_def split: list.splits)
    have "d \<in> insert d0 (set ds')" using reduce_max_mem [of decisionLevel d0 ds'] d by simp
    moreover have "\<forall>x \<in> insert d0 (set ds'). decisionLevel x \<le> decisionLevel d"
      using reduce_max_ge [of _ d0 ds' decisionLevel] d by blast
    moreover have "insert d0 (set ds') = set ds" using ds by simp
    ultimately show ?thesis using all none run by blast
  qed
qed

lemma combineDecisions_rank:
  assumes "combineDecisions ds = Inr d"
  shows "d \<in> set ds" and "x \<in> set ds \<Longrightarrow> decision_rank x \<le> decision_rank d"
  using assms by (cases rule: combineDecisions_cases; auto simp: decision_rank_def)+

lemma combine_rank0:
  "combineDecisions ds = Inr d \<Longrightarrow> decision_rank d = 0 \<longleftrightarrow> (\<forall>x \<in> set ds. decision_rank x = 0)"
  using combineDecisions_rank by (metis le_zero_eq)

lemma combine_allowed:
  "combineDecisions ds = Inr d \<Longrightarrow> allowed d \<longleftrightarrow> (\<forall>x \<in> set ds. allowed x)"
  by (erule combineDecisions_cases) (auto simp: decision_rank_def)

text \<open>C35: folding the decisions of every category a call reaches yields one of them, at least as
  strict as each of them; a fold that reports a pure level shortfall means that every denial is
  one; and unless a harder denial decided, the decision kept has the highest required level among
  the equally strict ones.\<close>

theorem combine_is_strictest:
  assumes "combineDecisions ds = Inr d"
  shows "d \<in> set ds \<and> (\<forall>x \<in> set ds. decision_rank x \<le> decision_rank d) \<and>
    (\<not> allowed d \<and> deniedByLevel d \<longrightarrow> (\<forall>x \<in> set ds. allowed x \<or> deniedByLevel x)) \<and>
    (allowed d \<or> deniedByLevel d \<longrightarrow>
       (\<forall>x \<in> set ds. decision_rank x = decision_rank d \<longrightarrow>
          AUTHORITY_REQUIREMENTS (actionCategory x) \<le> AUTHORITY_REQUIREMENTS (actionCategory d)))"
  using assms
  by (cases rule: combineDecisions_cases)
    (auto simp: decision_rank_def decisionLevel_def split: if_splits)

theorem combine_is_strictest_witness:
  "combineDecisions [mk_decision True False ''a'' read_data, mk_decision True True ''b'' send_email]
     = Inr (mk_decision True True ''b'' send_email) \<and>
   decision_rank (mk_decision True False ''a'' read_data)
     \<le> decision_rank (mk_decision True True ''b'' send_email)"
proof -
  let ?ds = "[mk_decision True False ''a'' read_data, mk_decision True True ''b'' send_email]"
  have h: "combineDecisions ?ds = Inr (mk_decision True True ''b'' send_email)"
    by (simp add: combineDecisions_def)
  show ?thesis using h combine_is_strictest [OF h] by simp
qed

section \<open>Properties of the configuration\<close>

definition override_key :: "PerActionOverride \<Rightarrow> ActionCategory \<times> string option" where
  "override_key o' = (ov_action o', ov_role_id o')"

text \<open>At most one override for an action and role.\<close>

definition overrides_ok :: "AuthorityConfig \<Rightarrow> bool" where
  "overrides_ok cfg = distinct (map override_key (cfg_overrides cfg))"

lemma removeOverride_overrides:
  "cfg_overrides (removeOverride cfg a r) = filter (\<lambda>o'. override_key o' \<noteq> (a, r)) (cfg_overrides cfg)"
  by (simp add: removeOverride_def override_key_def)

lemma distinct_map_filter_key: "distinct (map f xs) \<Longrightarrow> distinct (map f (filter P xs))"
  by (induction xs) auto

lemma removeOverride_ok: "overrides_ok cfg \<Longrightarrow> overrides_ok (removeOverride cfg a r)"
  by (simp add: overrides_ok_def removeOverride_overrides distinct_map_filter_key)

lemma addOverride_ok: "overrides_ok cfg \<Longrightarrow> overrides_ok (addOverride cfg o')"
  by (auto simp: overrides_ok_def addOverride_def removeOverride_overrides Let_def
      distinct_map_filter_key override_key_def)

lemma find_filter_other:
  assumes "\<And>x. Q x \<Longrightarrow> P x"
  shows "List.find Q (filter P xs) = List.find Q xs"
  using assms by (induction xs) auto

lemma addOverride_find_role:
  assumes "ov_role_id o' = Some r"
  shows "findOverride (addOverride cfg o') (ov_action o') r = Some o'"
proof -
  have "List.find (\<lambda>q. ov_action q = ov_action o' \<and> ov_role_id q = Some r)
      (cfg_overrides (removeOverride cfg (ov_action o') (ov_role_id o'))) = None"
    using assms by (simp add: removeOverride_def find_None_iff)
  then show ?thesis
    using assms by (simp add: findOverride_def addOverride_def Let_def find_append_Some)
qed

text \<open>setting an override keeps the overrides free of duplicates, is what the next lookup for its
  action and role returns, and leaves the lookups for every other action as they were.\<close>

theorem addOverride_lookup:
  assumes "overrides_ok cfg" "ov_role_id o' = Some r"
  shows "overrides_ok (addOverride cfg o') \<and>
    findOverride (addOverride cfg o') (ov_action o') r = Some o' \<and>
    (\<forall>a q. a \<noteq> ov_action o' \<longrightarrow> findOverride (addOverride cfg o') a q = findOverride cfg a q)"
proof (intro conjI allI impI)
  show "overrides_ok (addOverride cfg o')" using assms(1) by (rule addOverride_ok)
  show "findOverride (addOverride cfg o') (ov_action o') r = Some o'"
    using assms(2) by (rule addOverride_find_role)
next
  fix a q
  assume a: "a \<noteq> ov_action o'"
  have same: "List.find (\<lambda>x. ov_action x = a \<and> R x) (cfg_overrides (addOverride cfg o')) =
      List.find (\<lambda>x. ov_action x = a \<and> R x) (cfg_overrides cfg)" for R
  proof -
    have "List.find (\<lambda>x. ov_action x = a \<and> R x)
        (cfg_overrides (removeOverride cfg (ov_action o') (ov_role_id o'))) =
        List.find (\<lambda>x. ov_action x = a \<and> R x) (cfg_overrides cfg)"
      unfolding removeOverride_overrides
      by (rule find_filter_other) (use a in \<open>simp add: override_key_def\<close>)
    then show ?thesis
      using a by (simp add: addOverride_def Let_def find_append_Some split: option.split)
  qed
  show "findOverride (addOverride cfg o') a q = findOverride cfg a q"
    unfolding findOverride_def same ..
qed

definition example_config :: AuthorityConfig where
  "example_config =
     \<lparr> cfg_default_level = 3, cfg_governed_categories = [send_email, make_payment],
       cfg_overrides = [], cfg_context_rules = [], cfg_learning_enabled = True,
       cfg_suggest_threshold = 5, cfg_emergency_state = normal \<rparr>"

definition example_override :: PerActionOverride where
  "example_override =
     \<lparr> ov_action = execute_command, ov_role_id = Some ''dev'', ov_allowed = True,
       ov_requires_approval = True \<rparr>"

theorem addOverride_lookup_witness:
  "overrides_ok (addOverride example_config example_override) \<and>
   findOverride (addOverride example_config example_override) execute_command ''dev''
     = Some example_override"
proof -
  have 1: "overrides_ok example_config" by (simp add: overrides_ok_def example_config_def)
  have 2: "ov_role_id example_override = Some ''dev''" by (simp add: example_override_def)
  have 3: "ov_action example_override = execute_command" by (simp add: example_override_def)
  show ?thesis using addOverride_lookup [OF 1 2] 3 by simp
qed

end
