(* ===== verification/Json.thy ===== *)
theory Json
  imports Prelude
begin

text \<open>
  \<^verbatim>\<open>JSON.stringify\<close> and \<^verbatim>\<open>JSON.parse\<close>, which the approval code uses for tool arguments and for
  the context of a request.  A number is kept as its lexeme: the modelled code never computes with
  one, and acceptance does not depend on its value.  A \<^verbatim>\<open>\\u\<close> escape of a code unit beyond U+00FF
  stays in its escaped spelling, since text here ranges over U+0000 to U+00FF.  A repeated object key
  keeps its last value, as in JavaScript.

  The parser takes fuel; \<open>parse_fuel_enough\<close> shows that the fuel \<open>JSON_parse\<close> supplies never runs
  out, and \<open>JSON_parse_stringify\<close> is the round trip.
\<close>

datatype json =
    JNull
  | JBool bool
  | JNum string
  | JStr string
  | JArr "json list"
  | JObj "(string \<times> json) list"

definition json_get :: "json \<Rightarrow> string \<Rightarrow> json option" where
  "json_get j k = (case j of JObj kvs \<Rightarrow> map_of kvs k | _ \<Rightarrow> None)"

section \<open>Printing\<close>

abbreviation dquote :: char where "dquote \<equiv> CHR 0x22"
abbreviation bslash :: char where "bslash \<equiv> CHR 0x5C"

definition hex_digit :: "nat \<Rightarrow> char" where
  "hex_digit n = (if n < 10 then char_of (48 + n) else char_of (87 + n))"

definition json_escape :: "char \<Rightarrow> string" where
  "json_escape c =
     (if c = dquote then [bslash, dquote]
      else if c = bslash then [bslash, bslash]
      else if c = CHR 0x08 then [bslash, CHR ''b'']
      else if c = CHR 0x09 then [bslash, CHR ''t'']
      else if c = CHR 0x0A then [bslash, CHR ''n'']
      else if c = CHR 0x0C then [bslash, CHR ''f'']
      else if c = CHR 0x0D then [bslash, CHR ''r'']
      else if of_char c < (32 :: nat) then
        [bslash, CHR ''u'', CHR ''0'', CHR ''0'', hex_digit (of_char c div 16), hex_digit (of_char c mod 16)]
      else [c])"

definition json_quote :: "string \<Rightarrow> string" where
  "json_quote s = dquote # concat (map json_escape s) @ [dquote]"

fun JSON_stringify :: "json \<Rightarrow> string" where
  "JSON_stringify JNull = ''null''"
| "JSON_stringify (JBool b) = (if b then ''true'' else ''false'')"
| "JSON_stringify (JNum n) = n"
| "JSON_stringify (JStr s) = json_quote s"
| "JSON_stringify (JArr xs) = ''['' @ js_join '','' (map JSON_stringify xs) @ '']''"
| "JSON_stringify (JObj kvs) =
     ''{'' @ js_join '','' (map (\<lambda>(k, v). json_quote k @ '':'' @ JSON_stringify v) kvs) @ ''}''"

section \<open>Parsing\<close>

definition json_ws :: "char \<Rightarrow> bool" where
  "json_ws c = (of_char c \<in> {9, 10, 13, 32 :: nat})"

definition skip_ws :: "string \<Rightarrow> string" where
  "skip_ws s = dropWhile json_ws s"

definition hex_value :: "char \<Rightarrow> nat option" where
  "hex_value c =
     (let n = of_char c in
      if 48 \<le> n \<and> n \<le> 57 then Some (n - 48)
      else if 97 \<le> n \<and> n \<le> 102 then Some (n - 87)
      else if 65 \<le> n \<and> n \<le> 70 then Some (n - 55)
      else None)"

definition hex4 :: "char \<Rightarrow> char \<Rightarrow> char \<Rightarrow> char \<Rightarrow> nat option" where
  "hex4 a b c d =
     (case (hex_value a, hex_value b, hex_value c, hex_value d) of
        (Some w, Some x, Some y, Some z) \<Rightarrow> Some (((w * 16 + x) * 16 + y) * 16 + z)
      | _ \<Rightarrow> None)"

definition simple_escape :: "char \<Rightarrow> char option" where
  "simple_escape e =
     (if e = dquote then Some dquote else if e = bslash then Some bslash
      else if e = CHR ''/'' then Some (CHR ''/'')
      else if e = CHR ''b'' then Some (CHR 0x08) else if e = CHR ''t'' then Some (CHR 0x09)
      else if e = CHR ''n'' then Some (CHR 0x0A) else if e = CHR ''f'' then Some (CHR 0x0C)
      else if e = CHR ''r'' then Some (CHR 0x0D) else None)"

text \<open>The rest of a string literal after its opening quote: the value and what follows.\<close>

fun parse_str :: "string \<Rightarrow> (string \<times> string) option" where
  "parse_str [] = None"
| "parse_str (c # s) =
     (if c = dquote then Some ([], s)
      else if c = bslash then
        (case s of
           [] \<Rightarrow> None
         | e # s' \<Rightarrow>
             if e = CHR ''u'' then
               (case s' of
                  w # x # y # z # r \<Rightarrow>
                    (case hex4 w x y z of
                       None \<Rightarrow> None
                     | Some n \<Rightarrow>
                         map_option (map_prod
                           (\<lambda>t. (if n < 256 then [char_of n] else [bslash, CHR ''u'', w, x, y, z]) @ t) id)
                           (parse_str r))
                | _ \<Rightarrow> None)
             else (case simple_escape e of
                     None \<Rightarrow> None
                   | Some d \<Rightarrow> map_option (map_prod (\<lambda>t. d # t) id) (parse_str s')))
      else if of_char c < (32 :: nat) then None
      else map_option (map_prod (\<lambda>t. c # t) id) (parse_str s))"

definition is_dig :: "char \<Rightarrow> bool" where
  "is_dig c = (48 \<le> (of_char c :: nat) \<and> (of_char c :: nat) \<le> 57)"

definition num_int :: "string \<Rightarrow> (string \<times> string) option" where
  "num_int s =
     (case s of
        [] \<Rightarrow> None
      | c # r \<Rightarrow>
          if c = CHR ''0'' then Some ([c], r)
          else if is_dig c then Some (takeWhile is_dig s, dropWhile is_dig s)
          else None)"

definition num_frac :: "string \<Rightarrow> (string \<times> string) option" where
  "num_frac s =
     (case s of
        [] \<Rightarrow> Some ([], s)
      | c # r \<Rightarrow>
          if c = CHR ''.'' then
            (if takeWhile is_dig r = [] then None else Some (c # takeWhile is_dig r, dropWhile is_dig r))
          else Some ([], s))"

definition num_exp :: "string \<Rightarrow> (string \<times> string) option" where
  "num_exp s =
     (case s of
        [] \<Rightarrow> Some ([], s)
      | c # r \<Rightarrow>
          if c = CHR ''e'' \<or> c = CHR ''E'' then
            (case r of
               [] \<Rightarrow> None
             | g # r' \<Rightarrow>
                 if g = CHR ''+'' \<or> g = CHR ''-'' then
                   (if takeWhile is_dig r' = [] then None
                    else Some (c # g # takeWhile is_dig r', dropWhile is_dig r'))
                 else (if takeWhile is_dig r = [] then None
                       else Some (c # takeWhile is_dig r, dropWhile is_dig r)))
          else Some ([], s))"

definition num_unsigned :: "string \<Rightarrow> (string \<times> string) option" where
  "num_unsigned s =
     (case num_int s of
        None \<Rightarrow> None
      | Some (i, r1) \<Rightarrow>
          (case num_frac r1 of
             None \<Rightarrow> None
           | Some (f, r2) \<Rightarrow> map_option (\<lambda>(e, r3). (i @ f @ e, r3)) (num_exp r2)))"

definition parse_num :: "string \<Rightarrow> (string \<times> string) option" where
  "parse_num s =
     (case s of
        [] \<Rightarrow> None
      | c # r \<Rightarrow>
          if c = CHR ''-'' then map_option (\<lambda>(n, r'). (c # n, r')) (num_unsigned r)
          else num_unsigned s)"

definition parse_lit :: "string \<Rightarrow> (json \<times> string) option" where
  "parse_lit s =
     (if js_startsWith s ''null'' then Some (JNull, drop 4 s)
      else if js_startsWith s ''true'' then Some (JBool True, drop 4 s)
      else if js_startsWith s ''false'' then Some (JBool False, drop 5 s)
      else map_option (\<lambda>(n, r). (JNum n, r)) (parse_num s))"

definition js_obj_of :: "(string \<times> json) list \<Rightarrow> (string \<times> json) list" where
  "js_obj_of kvs = fold (\<lambda>(k, v) m. AList.update k v m) kvs []"

fun parse_value :: "nat \<Rightarrow> string \<Rightarrow> (json \<times> string) option"
  and parse_elems :: "nat \<Rightarrow> string \<Rightarrow> (json list \<times> string) option"
  and parse_members :: "nat \<Rightarrow> string \<Rightarrow> ((string \<times> json) list \<times> string) option" where
  "parse_value 0 s = None"
| "parse_value (Suc n) s =
     (case skip_ws s of
        [] \<Rightarrow> None
      | c # r \<Rightarrow>
          if c = dquote then map_option (\<lambda>(t, r'). (JStr t, r')) (parse_str r)
          else if c = CHR ''['' then
            (case skip_ws r of
               [] \<Rightarrow> None
             | d # r' \<Rightarrow>
                 if d = CHR '']'' then Some (JArr [], r')
                 else map_option (\<lambda>(xs, q). (JArr xs, q)) (parse_elems n r))
          else if c = CHR ''{'' then
            (case skip_ws r of
               [] \<Rightarrow> None
             | d # r' \<Rightarrow>
                 if d = CHR ''}'' then Some (JObj [], r')
                 else map_option (\<lambda>(kvs, q). (JObj (js_obj_of kvs), q)) (parse_members n r))
          else parse_lit (c # r))"
| "parse_elems 0 s = None"
| "parse_elems (Suc n) s =
     (case parse_value n s of
        None \<Rightarrow> None
      | Some (x, r) \<Rightarrow>
          (case skip_ws r of
             [] \<Rightarrow> None
           | c # q \<Rightarrow>
               if c = CHR '']'' then Some ([x], q)
               else if c = CHR '','' then map_option (\<lambda>(xs, q'). (x # xs, q')) (parse_elems n q)
               else None))"
| "parse_members 0 s = None"
| "parse_members (Suc n) s =
     (case skip_ws s of
        [] \<Rightarrow> None
      | c # r \<Rightarrow>
          if c \<noteq> dquote then None
          else (case parse_str r of
             None \<Rightarrow> None
           | Some (k, r1) \<Rightarrow>
               (case skip_ws r1 of
                  [] \<Rightarrow> None
                | c1 # r2 \<Rightarrow>
                    if c1 \<noteq> CHR '':'' then None
                    else (case parse_value n r2 of
                       None \<Rightarrow> None
                     | Some (v, r3) \<Rightarrow>
                         (case skip_ws r3 of
                            [] \<Rightarrow> None
                          | c3 # q \<Rightarrow>
                              if c3 = CHR ''}'' then Some ([(k, v)], q)
                              else if c3 = CHR '','' then
                                map_option (\<lambda>(kvs, q'). ((k, v) # kvs, q')) (parse_members n q)
                              else None)))))"

definition JSON_parse :: "string \<Rightarrow> json option" where
  "JSON_parse s =
     (case parse_value (2 * length s + 2) s of
        None \<Rightarrow> None
      | Some (j, r) \<Rightarrow> if skip_ws r = [] then Some j else None)"


section \<open>Every parser consumes input\<close>

lemma skip_ws_length: "length (skip_ws s) \<le> length s"
  by (simp add: skip_ws_def length_dropWhile_le)

lemma skip_ws_Cons_length: "skip_ws s = c # r \<Longrightarrow> length r < length s"
  using skip_ws_length [of s] by simp

lemma parse_str_length: "parse_str s = Some (t, r) \<Longrightarrow> length r < length s"
proof (induction s arbitrary: t r rule: length_induct)
  case (1 s)
  then have IH: "length q < length s \<Longrightarrow> parse_str q = Some (t', r) \<Longrightarrow> length r < length q" for q t'
    by blast
  show ?case
  proof (cases s)
    case (Cons c q)
    with "1.prems" show ?thesis
      by (fastforce split: if_splits list.splits option.splits dest: IH [rotated])
  qed (use "1.prems" in simp)
qed

lemma dropWhile_less: "takeWhile P s \<noteq> [] \<Longrightarrow> length (dropWhile P s) < length s"
  by (cases s) (auto simp: length_dropWhile_le less_Suc_eq_le split: if_splits)

lemma num_int_length: "num_int s = Some (i, r) \<Longrightarrow> length r < length s"
  by (auto simp: num_int_def length_dropWhile_le less_Suc_eq_le split: list.splits if_splits)

lemma num_frac_length: "num_frac s = Some (i, r) \<Longrightarrow> length r \<le> length s"
  by (auto simp: num_frac_def length_dropWhile_le le_SucI split: list.splits if_splits)

lemma num_exp_length: "num_exp s = Some (i, r) \<Longrightarrow> length r \<le> length s"
  by (auto simp: num_exp_def length_dropWhile_le le_SucI split: list.splits if_splits)

lemma num_unsigned_length: "num_unsigned s = Some (i, r) \<Longrightarrow> length r < length s"
  by (fastforce simp: num_unsigned_def split: option.splits
      dest: num_int_length num_frac_length num_exp_length)

lemma parse_num_length: "parse_num s = Some (i, r) \<Longrightarrow> length r < length s"
  by (auto simp: parse_num_def split: list.splits if_splits dest!: num_unsigned_length)

lemma parse_lit_length: "parse_lit s = Some (j, r) \<Longrightarrow> length r < length s"
  by (auto simp: parse_lit_def js_startsWith_iff split: if_splits dest: parse_num_length)

lemma parse_length_all:
  "\<forall>s. (\<forall>j r. parse_value n s = Some (j, r) \<longrightarrow> length r < length s) \<and>
       (\<forall>js r. parse_elems n s = Some (js, r) \<longrightarrow> length r < length s) \<and>
       (\<forall>kvs r. parse_members n s = Some (kvs, r) \<longrightarrow> length r < length s)"
proof (induction n)
  case (Suc n)
  then have V: "\<And>s j r. parse_value n s = Some (j, r) \<Longrightarrow> length r < length s"
    and E: "\<And>s js r. parse_elems n s = Some (js, r) \<Longrightarrow> length r < length s"
    and M: "\<And>s kvs r. parse_members n s = Some (kvs, r) \<Longrightarrow> length r < length s" by blast+
  show ?case
  proof (intro allI conjI impI)
    fix s j r
    assume p: "parse_value (Suc n) s = Some (j, r)"
    then obtain c q where ws: "skip_ws s = c # q" by (auto split: list.splits)
    have le: "length (c # q) \<le> length s" using skip_ws_length [of s] ws by simp
    have "length r < length (c # q)"
      using p ws by (fastforce split: list.splits if_splits
          dest: E M skip_ws_Cons_length parse_str_length parse_lit_length)
    with le show "length r < length s" by simp
  next
    fix s js r
    assume "parse_elems (Suc n) s = Some (js, r)"
    then show "length r < length s"
      by (fastforce split: option.splits list.splits if_splits dest: V E skip_ws_Cons_length)
  next
    fix s kvs r
    assume "parse_members (Suc n) s = Some (kvs, r)"
    then show "length r < length s"
      by (fastforce split: option.splits list.splits if_splits
          dest: V M skip_ws_Cons_length parse_str_length)
  qed
qed simp

lemmas parse_value_length = parse_length_all [rule_format, THEN conjunct1, rule_format]
lemmas parse_elems_length = parse_length_all [rule_format, THEN conjunct2, THEN conjunct1, rule_format]

section \<open>The fuel is enough\<close>

lemma parse_fuel_all:
  "\<forall>s m. n \<le> m \<longrightarrow>
     (2 * length s < n \<longrightarrow> parse_value m s = parse_value n s) \<and>
     (2 * length s + 1 < n \<longrightarrow> parse_elems m s = parse_elems n s) \<and>
     (2 * length s < n \<longrightarrow> parse_members m s = parse_members n s)"
proof (induction n)
  case (Suc n)
  have V: "parse_value m s = parse_value n s" if "n \<le> m" "2 * length s < n" for s m
    using Suc.IH that by blast
  have E: "parse_elems m s = parse_elems n s" if "n \<le> m" "2 * length s + 1 < n" for s m
    using Suc.IH that by blast
  have M: "parse_members m s = parse_members n s" if "n \<le> m" "2 * length s < n" for s m
    using Suc.IH that by blast
  show ?case
  proof (intro allI impI)
    fix s m
    assume "Suc n \<le> m"
    then obtain m' where m: "m = Suc m'" "n \<le> m'" by (cases m) auto
    have 1: "parse_value m s = parse_value (Suc n) s" if b: "2 * length s < Suc n"
    proof (cases "skip_ws s")
      case Nil
      with m show ?thesis by simp
    next
      case (Cons c q)
      then have "2 * length q + 1 < n" using b skip_ws_Cons_length [OF Cons] by simp
      then have "parse_elems m' q = parse_elems n q" "parse_members m' q = parse_members n q"
        using E [of m' q] M [of m' q] m by simp_all
      with Cons m show ?thesis by (simp split: list.split)
    qed
    have 2: "parse_elems m s = parse_elems (Suc n) s" if b: "2 * length s + 1 < Suc n"
    proof (cases "parse_value n s")
      case None
      with m b V [of m' s] show ?thesis by simp
    next
      case (Some xr)
      obtain x r where xr: "xr = (x, r)" by fastforce
      have "length r < length s" using parse_value_length Some xr by blast
      then have "parse_elems m' q = parse_elems n q" if "skip_ws r = d # q" for d q
        using b skip_ws_Cons_length [OF that] E [of m' q] m by simp
      with Some xr m b V [of m' s] show ?thesis by (auto split: list.split)
    qed
    have 3: "parse_members m s = parse_members (Suc n) s" if b: "2 * length s < Suc n"
    proof -
      have step: "parse_value m' r2 = parse_value n r2 \<and>
          (\<forall>v r3 c3 q. parse_value n r2 = Some (v, r3) \<longrightarrow> skip_ws r3 = c3 # q \<longrightarrow>
             parse_members m' q = parse_members n q)"
        if "skip_ws s = c # r" "parse_str r = Some (k, r1)" "skip_ws r1 = c1 # r2" for c r k r1 c1 r2
      proof -
        have l: "2 * length r2 < n"
          using b that skip_ws_Cons_length [OF that(1)] parse_str_length [OF that(2)]
            skip_ws_Cons_length [OF that(3)] by simp
        moreover have "parse_members m' q = parse_members n q"
          if "parse_value n r2 = Some (v, r3)" "skip_ws r3 = c3 # q" for v r3 c3 q
          using l m(2) M [of m' q] parse_value_length [OF that(1)] skip_ws_Cons_length [OF that(2)]
          by simp
        ultimately show ?thesis using V [of m' r2] m(2) by blast
      qed
      show ?thesis
        unfolding m(1) parse_members.simps
        by (auto split: list.split option.split dest: step)
    qed
    show "(2 * length s < Suc n \<longrightarrow> parse_value m s = parse_value (Suc n) s) \<and>
        (2 * length s + 1 < Suc n \<longrightarrow> parse_elems m s = parse_elems (Suc n) s) \<and>
        (2 * length s < Suc n \<longrightarrow> parse_members m s = parse_members (Suc n) s)"
      using 1 2 3 by blast
  qed
qed simp

lemma parse_fuel_enough:
  "2 * length s + 2 \<le> m \<Longrightarrow> parse_value m s = parse_value (2 * length s + 2) s"
  using parse_fuel_all [of "2 * length s + 2"] by simp

section \<open>Round trip\<close>

fun json_ok :: "json \<Rightarrow> bool" where
  "json_ok (JNum n) = (parse_num n = Some (n, []))"
| "json_ok (JArr xs) = list_all json_ok xs"
| "json_ok (JObj kvs) = (distinct (map fst kvs) \<and> list_all (\<lambda>(k, v). json_ok v) kvs)"
| "json_ok _ = True"

text \<open>What may follow a number without being read as part of it.\<close>

definition num_stop :: "string \<Rightarrow> bool" where
  "num_stop s = (case s of [] \<Rightarrow> True
     | c # _ \<Rightarrow> \<not> is_dig c \<and> c \<noteq> CHR ''.'' \<and> c \<noteq> CHR ''e'' \<and> c \<noteq> CHR ''E'')"

lemma hex_value_digit: "n < 16 \<Longrightarrow> hex_value (hex_digit n) = Some n"
  by (auto simp: hex_value_def hex_digit_def Let_def)

lemma hex4_escape: "n < 256 \<Longrightarrow> hex4 (CHR ''0'') (CHR ''0'') (hex_digit (n div 16)) (hex_digit (n mod 16)) = Some n"
  by (simp add: hex4_def hex_value_digit) (simp add: hex_value_def)

lemma parse_str_escape:
  "parse_str (json_escape c @ s) = map_option (map_prod (\<lambda>t. c # t) id) (parse_str s)"
proof (cases "of_char c < (32 :: nat)")
  case False
  then show ?thesis by (auto simp: json_escape_def simple_escape_def)
next
  case True
  then have "(of_char c :: nat) < 256" by simp
  note hex = hex4_escape [OF this]
  have "(@) [c] = (#) c" by auto
  then show ?thesis
    by (auto simp: json_escape_def simple_escape_def hex)
qed

lemma parse_str_quoted: "parse_str (concat (map json_escape t) @ dquote # rest) = Some (t, rest)"
  by (induction t) (simp_all add: parse_str_escape)

lemma takeWhile_stop: "num_stop rest \<Longrightarrow> takeWhile is_dig (s @ rest) = takeWhile is_dig s"
  by (induction s) (auto simp: num_stop_def split: list.splits)

lemma dropWhile_stop: "num_stop rest \<Longrightarrow> dropWhile is_dig (s @ rest) = dropWhile is_dig s @ rest"
  by (induction s) (auto simp: num_stop_def split: list.splits)

lemma num_int_ext: "num_stop rest \<Longrightarrow> num_int s = Some (i, r) \<Longrightarrow> num_int (s @ rest) = Some (i, r @ rest)"
  using takeWhile_stop [of rest s] dropWhile_stop [of rest s]
  by (auto simp: num_int_def split: list.splits if_splits)

lemma num_frac_ext: "num_stop rest \<Longrightarrow> num_frac s = Some (i, r) \<Longrightarrow> num_frac (s @ rest) = Some (i, r @ rest)"
proof (cases s)
  case Nil
  assume "num_stop rest" "num_frac s = Some (i, r)"
  with Nil show ?thesis by (auto simp: num_frac_def num_stop_def split: list.split)
next
  case (Cons c q)
  assume "num_stop rest" "num_frac s = Some (i, r)"
  with Cons show ?thesis
    by (auto simp: num_frac_def takeWhile_stop dropWhile_stop split: if_splits)
qed

lemma num_exp_ext: "num_stop rest \<Longrightarrow> num_exp s = Some (i, r) \<Longrightarrow> num_exp (s @ rest) = Some (i, r @ rest)"
proof (cases s)
  case Nil
  assume "num_stop rest" "num_exp s = Some (i, r)"
  with Nil show ?thesis by (auto simp: num_exp_def num_stop_def split: list.split)
next
  case (Cons c q)
  assume a: "num_stop rest" "num_exp s = Some (i, r)"
  show ?thesis
  proof (cases q)
    case Nil
    with Cons a show ?thesis by (auto simp: num_exp_def split: if_splits)
  next
    case (Cons d q')
    have "takeWhile is_dig (d # q' @ rest) = takeWhile is_dig (d # q')"
      and "dropWhile is_dig (d # q' @ rest) = dropWhile is_dig (d # q') @ rest"
      using takeWhile_stop [OF a(1), of "d # q'"] dropWhile_stop [OF a(1), of "d # q'"] by simp_all
    with Cons \<open>s = c # q\<close> a show ?thesis
      by (auto simp: num_exp_def takeWhile_stop dropWhile_stop simp del: takeWhile.simps dropWhile.simps
          split: if_splits)
  qed
qed

lemma num_unsigned_ext:
  "num_stop rest \<Longrightarrow> num_unsigned s = Some (i, r) \<Longrightarrow> num_unsigned (s @ rest) = Some (i, r @ rest)"
  by (auto simp: num_unsigned_def num_int_ext num_frac_ext num_exp_ext split: option.splits)

lemma parse_num_ext:
  "num_stop rest \<Longrightarrow> parse_num s = Some (i, r) \<Longrightarrow> parse_num (s @ rest) = Some (i, r @ rest)"
proof (cases s)
  case (Cons c q)
  assume "num_stop rest" "parse_num s = Some (i, r)"
  with Cons num_unsigned_ext [of rest s] num_unsigned_ext [of rest q] show ?thesis
    by (auto simp: parse_num_def split: if_splits)
qed (simp add: parse_num_def)

text \<open>The first character of a number.\<close>

lemma parse_num_head: "parse_num s = Some (i, r) \<Longrightarrow> \<exists>c q. s = c # q \<and> (c = CHR ''-'' \<or> is_dig c)"
  by (auto simp: parse_num_def num_unsigned_def num_int_def is_dig_def split: list.splits if_splits option.splits)

lemma number_char:
  assumes "c = CHR ''-'' \<or> is_dig c"
  shows "\<not> json_ws c" "c \<noteq> dquote" "c \<noteq> CHR ''[''" "c \<noteq> CHR ''{''" "c \<noteq> CHR ''n''"
    "c \<noteq> CHR ''t''" "c \<noteq> CHR ''f''"
  using assms by (auto simp: json_ws_def is_dig_def)

lemma skip_ws_Cons [simp]: "skip_ws (c # s) = (if json_ws c then skip_ws s else c # s)"
  by (simp add: skip_ws_def)

lemma json_ws_simps [simp]:
  "\<not> json_ws dquote" "\<not> json_ws (CHR '','')" "\<not> json_ws (CHR '']'')" "\<not> json_ws (CHR ''}'')"
  "\<not> json_ws (CHR ''['')" "\<not> json_ws (CHR ''{'')" "\<not> json_ws (CHR '':'')"
  "\<not> json_ws (CHR ''n'')" "\<not> json_ws (CHR ''t'')" "\<not> json_ws (CHR ''f'')"
  by (simp_all add: json_ws_def)

lemma stringify_head: "json_ok j \<Longrightarrow> \<exists>c q. JSON_stringify j = c # q \<and> \<not> json_ws c \<and> c \<noteq> CHR '']''"
proof (cases j)
  case (JNum n)
  assume "json_ok j"
  with JNum parse_num_head [of n n "[]"] number_char show ?thesis by (fastforce simp: is_dig_def)
qed (auto simp: json_quote_def)


lemma js_obj_of_distinct:
  "distinct (map fst (m @ kvs)) \<Longrightarrow> fold (\<lambda>(k, v) m. AList.update k v m) kvs m = m @ kvs"
proof (induction kvs arbitrary: m)
  case (Cons kv kvs)
  obtain k v where kv: "kv = (k, v)" by fastforce
  have "k \<notin> fst ` set m" using Cons.prems kv by auto
  then have "AList.update k v m = m @ [(k, v)]" by (induction m) auto
  with Cons.IH [of "m @ [kv]"] Cons.prems kv show ?case by simp
qed simp

text \<open>Reading back one printed value, in front of text that does not extend it.\<close>

definition reads_back :: "json \<Rightarrow> bool" where
  "reads_back j = (\<forall>n rest. num_stop rest \<longrightarrow> 2 * length (JSON_stringify j @ rest) < n \<longrightarrow>
     parse_value n (JSON_stringify j @ rest) = Some (j, rest))"

lemma reads_backD:
  "reads_back j \<Longrightarrow> num_stop rest \<Longrightarrow> 2 * length (JSON_stringify j @ rest) < n \<Longrightarrow>
     parse_value n (JSON_stringify j @ rest) = Some (j, rest)"
  by (simp add: reads_back_def)

lemma num_stop_simps [simp]:
  "num_stop (CHR '','' # s)" "num_stop (CHR '']'' # s)" "num_stop (CHR ''}'' # s)" "num_stop []"
  by (simp_all add: num_stop_def is_dig_def)

lemma parse_elems_printed:
  assumes "xs \<noteq> []" "\<And>x. x \<in> set xs \<Longrightarrow> reads_back x"
    and "2 * length (js_join '','' (map JSON_stringify xs) @ CHR '']'' # rest) + 1 < n"
  shows "parse_elems n (js_join '','' (map JSON_stringify xs) @ CHR '']'' # rest) = Some (xs, rest)"
  using assms
proof (induction xs arbitrary: n)
  case (Cons x xs)
  obtain m where n: "n = Suc m" using Cons.prems(3) by (cases n) auto
  have x: "reads_back x" using Cons.prems(2) by simp
  show ?case
  proof (cases xs)
    case Nil
    with Cons.prems(3) n reads_backD [OF x, of "CHR '']'' # rest" m] show ?thesis by simp
  next
    case (Cons y ys)
    let ?tail = "js_join '','' (map JSON_stringify xs) @ CHR '']'' # rest"
    have "parse_value m (JSON_stringify x @ CHR '','' # ?tail) = Some (x, CHR '','' # ?tail)"
      by (rule reads_backD [OF x]) (use Cons.prems(3) n Cons in auto)
    moreover have "parse_elems m ?tail = Some (xs, rest)"
      by (rule Cons.IH) (use Cons.prems n Cons in auto)
    ultimately show ?thesis using n Cons by simp
  qed
qed simp

definition print_member :: "string \<times> json \<Rightarrow> string" where
  "print_member kv = json_quote (fst kv) @ '':'' @ JSON_stringify (snd kv)"

lemma parse_members_printed:
  assumes "kvs \<noteq> []" "\<And>k v. (k, v) \<in> set kvs \<Longrightarrow> reads_back v"
    and "2 * length (js_join '','' (map print_member kvs) @ CHR ''}'' # rest) < n"
  shows "parse_members n (js_join '','' (map print_member kvs) @ CHR ''}'' # rest) = Some (kvs, rest)"
  using assms
proof (induction kvs arbitrary: n)
  case (Cons kv kvs)
  obtain k v where kv: "kv = (k, v)" by fastforce
  obtain m where n: "n = Suc m" using Cons.prems(3) by (cases n) auto
  have v: "reads_back v" by (rule Cons.prems(2) [of k]) (simp add: kv)
  have pm: "print_member kv = dquote # concat (map json_escape k) @ dquote # CHR '':'' # JSON_stringify v"
    by (simp add: kv print_member_def json_quote_def)
  show ?case
  proof (cases kvs)
    case Nil
    have "parse_value m (JSON_stringify v @ CHR ''}'' # rest) = Some (v, CHR ''}'' # rest)"
      by (rule reads_backD [OF v]) (use Cons.prems(3) n Nil pm in auto)
    with n Nil kv pm show ?thesis by (simp add: parse_str_quoted)
  next
    case (Cons y ys)
    let ?tail = "js_join '','' (map print_member kvs) @ CHR ''}'' # rest"
    have "parse_value m (JSON_stringify v @ CHR '','' # ?tail) = Some (v, CHR '','' # ?tail)"
      by (rule reads_backD [OF v]) (use Cons.prems(3) n Cons pm in auto)
    moreover have "parse_members m ?tail = Some (kvs, rest)"
      by (rule Cons.IH) (use Cons.prems n Cons in auto)
    ultimately show ?thesis
      using n Cons kv pm by (simp add: parse_str_quoted)
  qed
qed simp

lemma stringify_object:
  "JSON_stringify (JObj kvs) = ''{'' @ js_join '','' (map print_member kvs) @ ''}''"
proof -
  have "(\<lambda>(k, v). json_quote k @ '':'' @ JSON_stringify v) = print_member"
    by (auto simp: print_member_def)
  then show ?thesis by simp
qed

lemma parse_value_number:
  assumes "parse_num t = Some (t, [])" "num_stop rest"
  shows "parse_value (Suc m) (t @ rest) = Some (JNum t, rest)"
proof -
  obtain c q where t: "t = c # q" and c: "c = CHR ''-'' \<or> is_dig c"
    using parse_num_head [OF assms(1)] by blast
  have "parse_num (c # q @ rest) = Some (c # q, rest)"
    using parse_num_ext [OF assms(2,1)] t by simp
  with number_char [OF c] t show ?thesis by (simp add: parse_lit_def js_startsWith_def)
qed

lemma reads_back_all: "json_ok j \<Longrightarrow> reads_back j"
proof (induction j rule: json.induct)
  case (JNum t)
  then have "parse_num t = Some (t, [])" by simp
  with parse_value_number [of t] show ?case
    unfolding reads_back_def by (metis JSON_stringify.simps(3) gr0_conv_Suc not_less_zero neq0_conv)
next
  case (JStr t)
  show ?case
    unfolding reads_back_def
  proof (intro allI impI)
    fix n rest
    assume "2 * length (JSON_stringify (JStr t) @ rest) < n"
    then obtain m where "n = Suc m" by (cases n) auto
    then show "parse_value n (JSON_stringify (JStr t) @ rest) = Some (JStr t, rest)"
      by (simp add: json_quote_def parse_str_quoted)
  qed
next
  case (JArr xs)
  then have xs: "\<And>x. x \<in> set xs \<Longrightarrow> json_ok x \<and> reads_back x" by (auto simp: list_all_iff)
  show ?case
    unfolding reads_back_def
  proof (intro allI impI)
    fix n rest
    assume b: "2 * length (JSON_stringify (JArr xs) @ rest) < n"
    then obtain m where n: "n = Suc m" by (cases n) auto
    show "parse_value n (JSON_stringify (JArr xs) @ rest) = Some (JArr xs, rest)"
    proof (cases xs)
      case Nil
      with n show ?thesis by simp
    next
      case (Cons y ys)
      let ?body = "js_join '','' (map JSON_stringify xs) @ CHR '']'' # rest"
      have "parse_elems m ?body = Some (xs, rest)"
        by (rule parse_elems_printed) (use xs b n Cons in auto)
      moreover obtain c q where "JSON_stringify y = c # q" "\<not> json_ws c" "c \<noteq> CHR '']''"
        using stringify_head [of y] xs [of y] Cons by auto
      then have "\<exists>q'. ?body = c # q' \<and> \<not> json_ws c \<and> c \<noteq> CHR '']''"
        using Cons by (cases ys) auto
      ultimately show ?thesis using n by auto
    qed
  qed
next
  case (JObj kvs)
  then have kvs: "\<And>k v. (k, v) \<in> set kvs \<Longrightarrow> reads_back v" and d: "distinct (map fst kvs)"
    by (fastforce simp: list_all_iff)+
  show ?case
    unfolding reads_back_def
  proof (intro allI impI)
    fix n rest
    assume b: "2 * length (JSON_stringify (JObj kvs) @ rest) < n"
    then obtain m where n: "n = Suc m" by (cases n) auto
    show "parse_value n (JSON_stringify (JObj kvs) @ rest) = Some (JObj kvs, rest)"
    proof (cases kvs)
      case Nil
      with n show ?thesis by simp
    next
      case (Cons y ys)
      let ?body = "js_join '','' (map print_member kvs) @ CHR ''}'' # rest"
      have "parse_members m ?body = Some (kvs, rest)"
        by (rule parse_members_printed) (use kvs b n Cons in \<open>auto simp: stringify_object simp del: JSON_stringify.simps\<close>)
      moreover have "\<exists>q'. ?body = dquote # q'"
        using Cons by (cases ys) (auto simp: print_member_def json_quote_def)
      moreover have "js_obj_of kvs = kvs"
        using js_obj_of_distinct [of "[]" kvs] d by (simp add: js_obj_of_def)
      ultimately show ?thesis
        using n by (auto simp: stringify_object simp del: JSON_stringify.simps)
    qed
  qed
next
  case JNull
  show ?case
    unfolding reads_back_def
  proof (intro allI impI)
    fix n rest
    assume "2 * length (JSON_stringify JNull @ rest) < n"
    then obtain m where "n = Suc m" by (cases n) auto
    then show "parse_value n (JSON_stringify JNull @ rest) = Some (JNull, rest)"
      by (simp add: parse_lit_def js_startsWith_def)
  qed
next
  case (JBool b)
  show ?case
    unfolding reads_back_def
  proof (intro allI impI)
    fix n rest
    assume "2 * length (JSON_stringify (JBool b) @ rest) < n"
    then obtain m where "n = Suc m" by (cases n) auto
    then show "parse_value n (JSON_stringify (JBool b) @ rest) = Some (JBool b, rest)"
      by (simp add: parse_lit_def js_startsWith_def)
  qed
qed

lemma JSON_parse_printed:
  assumes "json_ok j"
  shows "JSON_parse (JSON_stringify j) = Some j"
proof -
  have "parse_value (2 * length (JSON_stringify j) + 2) (JSON_stringify j @ []) = Some (j, [])"
    by (rule reads_backD [OF reads_back_all [OF assms]]) simp_all
  then show ?thesis by (simp add: JSON_parse_def skip_ws_def)
qed

text \<open>\<^verbatim>\<open>JSON.parse\<close> inverts \<^verbatim>\<open>JSON.stringify\<close> on every well-formed value: numbers are number lexemes
  and the keys of an object are distinct.  Two well-formed values never print alike.\<close>

theorem JSON_parse_stringify:
  assumes "json_ok j"
  shows "JSON_parse (JSON_stringify j) = Some j \<and>
    (\<forall>k. json_ok k \<longrightarrow> JSON_stringify k = JSON_stringify j \<longrightarrow> k = j)"
proof (intro conjI allI impI)
  show "JSON_parse (JSON_stringify j) = Some j" by (rule JSON_parse_printed [OF assms])
  fix k
  assume "json_ok k" and "JSON_stringify k = JSON_stringify j"
  with JSON_parse_printed [OF assms] JSON_parse_printed [of k] have "Some k = Some j" by (simp del: JSON_stringify.simps)
  then show "k = j" by (simp only: option.inject)
qed

theorem JSON_parse_stringify_witness:
  "JSON_parse (JSON_stringify (JObj [(''a'', JArr [JNum ''-1.5e3'', JStr [bslash, CHR 0x01]]), (''b'', JNull)])) =
     Some (JObj [(''a'', JArr [JNum ''-1.5e3'', JStr [bslash, CHR 0x01]]), (''b'', JNull)])"
proof -
  have "json_ok (JObj [(''a'', JArr [JNum ''-1.5e3'', JStr [bslash, CHR 0x01]]), (''b'', JNull)])"
    by (simp add: parse_num_def num_unsigned_def num_int_def num_frac_def num_exp_def is_dig_def)
  from JSON_parse_stringify [OF this] show ?thesis by (rule conjunct1)
qed

end
