(* ===== verification/Authority_Profiles.thy ===== *)
theory Authority_Profiles
  imports Authority_Engine Json
begin

text \<open>
  The profiles layered on the engine and the one-click override: \<^verbatim>\<open>taint-gating.ts\<close>,
  \<^verbatim>\<open>background-profile.ts\<close> and \<^verbatim>\<open>quick-override.ts\<close> of \<^verbatim>\<open>src/authority\<close>.  A configuration section is a
  schemaless JSON row, so its fields are JSON values; the warnings it logs are not modelled.
\<close>

section \<open>Taint gating\<close>

definition TAINT_PROFILE_LABEL :: string where
  "TAINT_PROFILE_LABEL = ''outside content read this turn''"

definition DEFAULT_TAINT_GOVERNED :: "ActionCategory list" where
  "DEFAULT_TAINT_GOVERNED =
     [execute_command, write_data, control_app, delete_data, install_software, modify_settings,
      send_email, send_message, make_payment, spawn_agent]"

definition KNOWN_CATEGORIES :: "ActionCategory list" where
  "KNOWN_CATEGORIES =
     [read_data, write_data, delete_data, send_message, send_email, execute_command, install_software,
      make_payment, modify_settings, spawn_agent, terminate_agent, access_browser, control_app]"

definition category_of_name :: "string \<Rightarrow> ActionCategory option" where
  "category_of_name s = List.find (\<lambda>c. category_name c = s) KNOWN_CATEGORIES"

record TaintGatingConfig =
  tgc_enabled :: "json option"
  tgc_governed_categories :: "json option"

record TaintGating =
  tg_enabled :: bool
  tg_governed_categories :: "ActionCategory list"

text \<open>The loop over a list of category names: unknown entries are dropped.\<close>

fun knownEntries :: "json list \<Rightarrow> ActionCategory list" where
  "knownEntries [] = []"
| "knownEntries (cat # raw) =
     (case cat of
        JStr s \<Rightarrow> (case category_of_name s of Some c \<Rightarrow> c # knownEntries raw | None \<Rightarrow> knownEntries raw)
      | _ \<Rightarrow> knownEntries raw)"

definition parseGoverned :: "ActionCategory list \<Rightarrow> json option \<Rightarrow> ActionCategory list" where
  "parseGoverned defaults raw =
     (case raw of
        None \<Rightarrow> defaults
      | Some JNull \<Rightarrow> defaults
      | Some (JArr xs) \<Rightarrow>
          (let governed = knownEntries xs
           in if xs \<noteq> [] \<and> governed = [] then defaults else governed)
      | Some _ \<Rightarrow> defaults)"

definition buildTaintGating :: "TaintGatingConfig option \<Rightarrow> TaintGating" where
  "buildTaintGating sec =
     (let raw = (case sec of None \<Rightarrow> None | Some s \<Rightarrow> tgc_governed_categories s);
          governed = parseGoverned DEFAULT_TAINT_GOVERNED raw
      in \<lparr> tg_enabled = (case sec of None \<Rightarrow> True | Some s \<Rightarrow> tgc_enabled s \<noteq> Some (JBool False)),
           tg_governed_categories = governed \<rparr>)"

definition taintProfile :: "TaintGating option \<Rightarrow> string list \<Rightarrow> AuthorityProfile option" where
  "taintProfile gating sources =
     (case gating of
        None \<Rightarrow> None
      | Some g \<Rightarrow>
          if \<not> tg_enabled g \<or> sources = [] \<or> tg_governed_categories g = [] then None
          else Some \<lparr> pf_label = Some (TAINT_PROFILE_LABEL @ '' ('' @ js_join '', '' sources @ '')''),
                      pf_level_cap = None,
                      pf_governed_categories = Some (tg_governed_categories g) \<rparr>)"

definition mergeProfiles :: "AuthorityProfile option \<Rightarrow> AuthorityProfile option \<Rightarrow> AuthorityProfile option" where
  "mergeProfiles a b =
     (case a of
        None \<Rightarrow> b
      | Some pa \<Rightarrow>
          (case b of
             None \<Rightarrow> a
           | Some pb \<Rightarrow>
               (let governed = js_dedupe ((case pf_governed_categories pa of None \<Rightarrow> [] | Some g \<Rightarrow> g) @
                                          (case pf_governed_categories pb of None \<Rightarrow> [] | Some g \<Rightarrow> g));
                    caps = List.map_filter id [pf_level_cap pa, pf_level_cap pb];
                    labels = map the (filter js_truthy [pf_label pa, pf_label pb])
                in Some \<lparr> pf_label = Some (js_join ''; '' labels),
                          pf_level_cap = (case caps of [] \<Rightarrow> None | c # cs \<Rightarrow> Some (foldl min c cs)),
                          pf_governed_categories = Some governed \<rparr>)))"

section \<open>The background agent\<close>

definition BACKGROUND_PROFILE_LABEL :: string where
  "BACKGROUND_PROFILE_LABEL = ''background agent''"

definition DEFAULT_BACKGROUND_GOVERNED :: "ActionCategory list" where
  "DEFAULT_BACKGROUND_GOVERNED =
     [execute_command, write_data, control_app, delete_data, install_software, modify_settings,
      send_email, send_message, make_payment]"

text \<open>\<open>bgc_level_cap\<close> is the value when it is a number, and absent when it is anything else.\<close>

record BackgroundAuthorityConfig =
  bgc_governed_categories :: "json option"
  bgc_level_cap :: "jsnum option"

definition clampCap :: "jsnum option \<Rightarrow> int option" where
  "clampCap cap =
     (case cap of Some (JFin q) \<Rightarrow> Some (max 1 (min 10 \<lfloor>q\<rfloor>)) | _ \<Rightarrow> None)"

definition buildBackgroundProfile :: "BackgroundAuthorityConfig option \<Rightarrow> AuthorityProfile" where
  "buildBackgroundProfile sec =
     (let raw = (case sec of None \<Rightarrow> None | Some s \<Rightarrow> bgc_governed_categories s);
          cap = (case sec of None \<Rightarrow> None | Some s \<Rightarrow> bgc_level_cap s)
      in \<lparr> pf_label = Some BACKGROUND_PROFILE_LABEL,
           pf_level_cap = clampCap cap,
           pf_governed_categories = Some (parseGoverned DEFAULT_BACKGROUND_GOVERNED raw) \<rparr>)"

section \<open>The quick override\<close>

record QuickOverrideRequest =
  qo_action :: ActionCategory
  qo_allow :: bool
  qo_role_id :: "string option"

definition applyQuickOverride :: "AuthorityConfig \<Rightarrow> QuickOverrideRequest \<Rightarrow> AuthorityConfig" where
  "applyQuickOverride cfg body =
     (let overrides = cfg_overrides cfg;
          idx = find_index (\<lambda>o'. ov_action o' = qo_action body \<and> ov_role_id o' = qo_role_id body) overrides;
          next = \<lparr> ov_action = qo_action body,
                   ov_role_id = (if js_truthy (qo_role_id body) then qo_role_id body else None),
                   ov_allowed = qo_allow body, ov_requires_approval = False \<rparr>
      in cfg\<lparr>cfg_overrides :=
           (case idx of Some i \<Rightarrow> overrides[i := next] | None \<Rightarrow> overrides @ [next])\<rparr>)"

section \<open>Lemmas\<close>

lemma category_of_name_name [simp]: "category_of_name (category_name c) = Some c"
  by (cases c) (simp_all add: category_of_name_def KNOWN_CATEGORIES_def)

lemma category_of_name_Some: "category_of_name s = Some c \<Longrightarrow> category_name c = s"
  unfolding category_of_name_def by (drule find_Some_iff_mem) simp

lemma capViolated_merge:
  "capViolated (the (mergeProfiles (Some a) (Some b))) c \<longleftrightarrow> capViolated a c \<or> capViolated b c"
  by (auto simp: capViolated_def mergeProfiles_def Let_def List.map_filter_def split: option.split)

lemma profileGoverns_merge:
  "profileGoverns (the (mergeProfiles (Some a) (Some b))) c \<longleftrightarrow> profileGoverns a c \<or> profileGoverns b c"
  by (auto simp: profileGoverns_def mergeProfiles_def Let_def split: option.split)

lemma mergeProfiles_Some: "mergeProfiles (Some a) (Some b) \<noteq> None"
  by (simp add: mergeProfiles_def Let_def)

definition applyOptional :: "AuthorityDecision \<Rightarrow> AuthorityProfile option \<Rightarrow> AuthorityDecision" where
  "applyOptional d pf = (case pf of None \<Rightarrow> d | Some p \<Rightarrow> applyProfile d p)"

interpretation optional_layer: tightener applyOptional decision_rank 2
proof unfold_locales
  fix d :: AuthorityDecision and p
  show "decision_rank d \<le> decision_rank (applyOptional d p)"
    by (simp add: applyOptional_def profile_layer.raises split: option.split)
  show "decision_rank d = 2 \<Longrightarrow> applyOptional d p = d"
    by (simp add: applyOptional_def profile_layer.top_fixed split: option.split)
qed

lemma decision_rank_allowed: "allowed d \<longleftrightarrow> decision_rank d \<noteq> 2"
  by (simp add: decision_rank_def)

lemma applyOptional_rank_merge:
  "decision_rank (applyOptional d (mergeProfiles a b)) = decision_rank (applyOptional (applyOptional d a) b)"
proof (cases a; cases b)
  fix pa pb
  assume ab: "a = Some pa" "b = Some pb"
  obtain m where m: "mergeProfiles (Some pa) (Some pb) = Some m" using mergeProfiles_Some by auto
  have "capViolated m c \<longleftrightarrow> capViolated pa c \<or> capViolated pb c"
    and "profileGoverns m c \<longleftrightarrow> profileGoverns pa c \<or> profileGoverns pb c" for c
    using capViolated_merge [of pa pb c] profileGoverns_merge [of pa pb c] m by simp_all
  then show ?thesis
    by (auto simp: m ab applyOptional_def decision_rank_def applyProfile_flags)
qed (simp_all add: mergeProfiles_def applyOptional_def)

section \<open>Properties\<close>

text \<open>merging two profiles is as strict as applying one after the other, in either order, and so
  is at least as strict as either alone.\<close>

theorem merge_is_sequential:
  "decision_rank (applyOptional d (mergeProfiles a b)) = decision_rank (applyOptional (applyOptional d a) b) \<and>
   decision_rank (applyOptional d (mergeProfiles a b)) = decision_rank (applyOptional d (mergeProfiles b a)) \<and>
   decision_rank (applyOptional d a) \<le> decision_rank (applyOptional d (mergeProfiles a b)) \<and>
   decision_rank (applyOptional d b) \<le> decision_rank (applyOptional d (mergeProfiles a b))"
proof -
  have swap: "decision_rank (applyOptional (applyOptional d a) b) =
      decision_rank (applyOptional (applyOptional d b) a)"
    by (auto simp: applyOptional_def decision_rank_def applyProfile_flags split: option.split)
  show ?thesis
    using swap optional_layer.raises [of "applyOptional d a" b] optional_layer.raises [of "applyOptional d b" a]
    by (simp add: applyOptional_rank_merge)
qed

text \<open>the background profile can only be opened by an explicit empty list.  Whatever the section
  holds, the governed categories are the defaults, or the empty list and the section said exactly
  that, or a non-empty selection of valid names; a level cap is an integer from 1 to 10.\<close>

theorem background_profile_fail_safe:
  "(pf_governed_categories (buildBackgroundProfile sec) = Some DEFAULT_BACKGROUND_GOVERNED \<or>
    (case sec of None \<Rightarrow> False | Some s \<Rightarrow>
      (case bgc_governed_categories s of
         Some (JArr xs) \<Rightarrow>
           pf_governed_categories (buildBackgroundProfile sec) = Some (knownEntries xs) \<and>
           (xs = [] \<or> knownEntries xs \<noteq> []) \<and>
           (\<forall>c \<in> set (knownEntries xs). JStr (category_name c) \<in> set xs)
       | _ \<Rightarrow> False))) \<and>
   (case pf_level_cap (buildBackgroundProfile sec) of None \<Rightarrow> True | Some cap \<Rightarrow> 1 \<le> cap \<and> cap \<le> 10)"
proof -
  have names: "\<forall>c \<in> set (knownEntries xs). JStr (category_name c) \<in> set xs" for xs
    by (induction xs) (auto split: json.splits option.splits dest: category_of_name_Some)
  have cap: "case clampCap c of None \<Rightarrow> True | Some cap \<Rightarrow> 1 \<le> cap \<and> cap \<le> 10" for c
    by (auto simp: clampCap_def split: option.split jsnum.split)
  show ?thesis
    using names cap
    by (auto simp: buildBackgroundProfile_def parseGoverned_def Let_def split: option.split json.split)
qed

theorem background_profile_fail_safe_witness:
  "pf_governed_categories (buildBackgroundProfile
     (Some \<lparr> bgc_governed_categories = Some (JArr [JStr ''exec'']), bgc_level_cap = Some (JFin (12 + 1/2)) \<rparr>))
     = Some DEFAULT_BACKGROUND_GOVERNED"
  using background_profile_fail_safe
    [of "Some \<lparr> bgc_governed_categories = Some (JArr [JStr ''exec'']), bgc_level_cap = Some (JFin (12 + 1/2)) \<rparr>"]
  by (simp add: category_of_name_def KNOWN_CATEGORIES_def)


section \<open>Properties of the quick override\<close>

lemma find_list_update_at:
  "find_index P xs = Some i \<Longrightarrow> P x \<Longrightarrow> List.find P (xs[i := x]) = Some x"
  by (induction xs arbitrary: i) (auto split: if_splits)

lemma find_list_update_other:
  "i < length xs \<Longrightarrow> \<not> P (xs ! i) \<Longrightarrow> \<not> P x \<Longrightarrow> List.find P (xs[i := x]) = List.find P xs"
  by (induction xs arbitrary: i) (auto split: nat.splits)

lemma find_none_index: "find_index P xs = None \<Longrightarrow> List.find P xs = None"
  by (induction xs) (auto split: if_splits)

lemma list_update_index_same:
  "find_index P xs = Some i \<Longrightarrow> P x \<Longrightarrow> find_index P (xs[i := x]) = Some i"
  by (induction xs arbitrary: i) (auto split: if_splits)

lemma find_index_append:
  "find_index P xs = None \<Longrightarrow> P x \<Longrightarrow> find_index P (xs @ [x]) = Some (length xs)"
  by (induction xs) (auto split: if_splits)

text \<open>What the override row is: the role is dropped when it is empty.\<close>

definition quickRow :: "QuickOverrideRequest \<Rightarrow> PerActionOverride" where
  "quickRow body =
     \<lparr> ov_action = qo_action body,
       ov_role_id = (if js_truthy (qo_role_id body) then qo_role_id body else None),
       ov_allowed = qo_allow body, ov_requires_approval = False \<rparr>"

lemma applyQuickOverride_overrides:
  "cfg_overrides (applyQuickOverride cfg body) =
     (case find_index (\<lambda>o'. ov_action o' = qo_action body \<and> ov_role_id o' = qo_role_id body) (cfg_overrides cfg) of
        Some i \<Rightarrow> (cfg_overrides cfg)[i := quickRow body]
      | None \<Rightarrow> cfg_overrides cfg @ [quickRow body])"
  unfolding applyQuickOverride_def quickRow_def Let_def by simp

lemma applyQuickOverride_find:
  assumes "qo_role_id body = Some r" "r \<noteq> []"
  shows "findOverride (applyQuickOverride cfg body) (qo_action body) r = Some (quickRow body)"
proof -
  let ?P = "\<lambda>o'. ov_action o' = qo_action body \<and> ov_role_id o' = Some r"
  have row: "?P (quickRow body)" using assms by (simp add: quickRow_def js_truthy_def)
  show ?thesis
  proof (cases "find_index ?P (cfg_overrides cfg)")
    case None
    with row assms find_none_index [OF None] show ?thesis
      by (simp add: findOverride_def applyQuickOverride_overrides find_append_Some)
  next
    case (Some i)
    with find_list_update_at [OF Some row] assms show ?thesis
      by (simp add: findOverride_def applyQuickOverride_overrides)
  qed
qed

text \<open>a quick override for a named role decides.  For an agent of that role, without a temporary
  grant, the base decision on the action is the override's verdict, with no approval card.\<close>

theorem quick_override_decides:
  assumes "qo_role_id body = Some (cp_agentRoleId p)" "cp_agentRoleId p \<noteq> []"
    and "cp_actionCategory p = qo_action body" "\<not> hasGrant p"
  shows "allowed (baseDecision (applyQuickOverride cfg body) hour p) = qo_allow body \<and>
    \<not> requiresApproval (baseDecision (applyQuickOverride cfg body) hour p)"
proof -
  have "findOverride (applyQuickOverride cfg body) (cp_actionCategory p) (cp_agentRoleId p) = Some (quickRow body)"
    using applyQuickOverride_find [OF assms(1,2)] assms(3) by simp
  then show ?thesis
    using assms(4) by (simp add: baseDecision_def overrideDecision_def quickRow_def Let_def)
qed

definition example_params :: AuthorityCheckParams where
  "example_params =
     \<lparr> cp_agentId = ''a1'', cp_agentAuthorityLevel = 3, cp_agentRoleId = ''dev'', cp_toolName = ''run_command'',
       cp_toolCategory = ''terminal'', cp_actionCategory = execute_command, cp_temporaryGrants = [],
       cp_profile = None \<rparr>"

definition example_quick :: QuickOverrideRequest where
  "example_quick = \<lparr> qo_action = execute_command, qo_allow = True, qo_role_id = Some ''dev'' \<rparr>"

theorem quick_override_decides_witness:
  "allowed (baseDecision (applyQuickOverride example_config example_quick) 9 example_params) \<and>
   \<not> allowed (baseDecision example_config 9 example_params)"
proof -
  have "allowed (baseDecision (applyQuickOverride example_config example_quick) 9 example_params) =
      qo_allow example_quick"
    using quick_override_decides [of example_quick example_params example_config 9]
    by (simp add: example_quick_def example_params_def hasGrant_def)
  moreover have "\<not> allowed (baseDecision example_config 9 example_params)"
    by (simp add: baseDecision_def hasGrant_def findOverride_def evaluateContextRules_def levelDecision_def
        example_params_def example_config_def Let_def)
  ultimately show ?thesis by (simp add: example_quick_def)
qed

text \<open>repeating a quick override changes nothing, unless its role is the empty string; for that
  one role the stored row drops the role, so the second call does not find it and appends a second
  row.\<close>

theorem quick_override_idempotent:
  "(applyQuickOverride (applyQuickOverride cfg body) body = applyQuickOverride cfg body) \<longleftrightarrow>
     qo_role_id body \<noteq> Some []"
proof (cases "qo_role_id body = Some []")
  case True
  let ?P = "\<lambda>o'. ov_action o' = qo_action body \<and> ov_role_id o' = qo_role_id body"
  let ?c1 = "applyQuickOverride cfg body"
  have "\<not> ?P (quickRow body)" using True by (simp add: quickRow_def js_truthy_def)
  have "applyQuickOverride ?c1 body \<noteq> ?c1"
  proof
    assume "applyQuickOverride ?c1 body = ?c1"
    then have eq: "cfg_overrides (applyQuickOverride ?c1 body) = cfg_overrides ?c1" by simp
    show False
    proof (cases "find_index ?P (cfg_overrides ?c1)")
      case None
      with eq show False unfolding applyQuickOverride_overrides [of ?c1] by simp
    next
      case (Some i)
      note at = find_index_Some [OF Some]
      have "(cfg_overrides ?c1)[i := quickRow body] = cfg_overrides ?c1"
        using eq Some unfolding applyQuickOverride_overrides [of ?c1] by simp
      then have "quickRow body = cfg_overrides ?c1 ! i"
        using at nth_list_update_eq by metis
      with at \<open>\<not> ?P (quickRow body)\<close> show False by simp
    qed
  qed
  with True show ?thesis by simp
next
  case False
  let ?P = "\<lambda>o'. ov_action o' = qo_action body \<and> ov_role_id o' = qo_role_id body"
  have row: "?P (quickRow body)"
    using False by (cases "qo_role_id body") (simp_all add: quickRow_def js_truthy_def)
  have "cfg_overrides (applyQuickOverride (applyQuickOverride cfg body) body) =
      cfg_overrides (applyQuickOverride cfg body)"
  proof (cases "find_index ?P (cfg_overrides cfg)")
    case None
    then show ?thesis
      using find_index_append [OF None row] by (simp add: applyQuickOverride_overrides)
  next
    case (Some i)
    then show ?thesis
      using list_update_index_same [OF Some row] by (simp add: applyQuickOverride_overrides)
  qed
  then have "applyQuickOverride (applyQuickOverride cfg body) body = applyQuickOverride cfg body"
    by (simp add: applyQuickOverride_def Let_def)
  with False show ?thesis by simp
qed

end
