(* ===== verification/Tool_Registry.thy ===== *)
theory Tool_Registry
  imports Roles_Authority Json
begin

text \<open>
  Tool definitions and the registry that dispatches them, \<^verbatim>\<open>src/actions/tools/registry.ts\<close>.  A tool's
  body is code the registry only calls: a field that maps the parameters and the world \<open>'w\<close> to a
  result or a thrown error and the world afterwards.  \<open>td_object\<close> is the identity of the JavaScript
  object, which the approval manager compares with \<^verbatim>\<open>!==\<close>.  Parameters are a JSON object; the
  warning about unexpected ones is not modelled.
\<close>

section \<open>Data\<close>

record ToolParameter =
  tp_type :: string
  tp_description :: string
  tp_required :: bool
  tp_enum :: "string list option"

datatype Confirm = confirm_always | confirm_above_level

text \<open>A per-call gate.  Its categories are text until the resolver has checked that it knows them.\<close>

record ToolGate =
  gate_actionCategory :: string
  gate_subject :: "json option"
  gate_actionCategories :: "string list option"
  gate_intent :: string
  gate_confirm :: "Confirm option"

datatype ToolError = ActionOutcomeError string | PlainError string

fun error_message :: "ToolError \<Rightarrow> string" where
  "error_message (ActionOutcomeError m) = m"
| "error_message (PlainError m) = m"

record 'w ToolDefinition =
  td_object :: nat
  td_name :: string
  td_description :: string
  td_category :: string
  td_parameters :: "(string \<times> ToolParameter) list"
  td_execute :: "json \<Rightarrow> 'w \<Rightarrow> (ToolError + json) \<times> 'w"
  td_authorityGate :: "(json \<Rightarrow> string + ToolGate option) option"
  td_captureApprovalGuard :: "(json \<Rightarrow> 'w \<Rightarrow> string + ('w \<Rightarrow> string + bool)) option"

type_synonym 'w ToolRegistry = "(string, 'w ToolDefinition) jsmap"

section \<open>Registration\<close>

text \<open>\<^verbatim>\<open>toLowerCase\<close> on the modelled range.\<close>

definition js_lower_char :: "char \<Rightarrow> char" where
  "js_lower_char c =
     (let n = of_char c in
      if (65 \<le> n \<and> n \<le> 90) \<or> (192 \<le> n \<and> n \<le> 222 \<and> n \<noteq> 215) then char_of (n + 32 :: nat) else c)"

definition js_lower :: "string \<Rightarrow> string" where
  "js_lower s = map js_lower_char s"

definition validateParamDef :: "string \<Rightarrow> string \<times> ToolParameter \<Rightarrow> string option" where
  "validateParamDef tool np =
     (let paramName = fst np; paramDef = snd np;
          pre = ''Parameter '' @ quoted paramName @ '' in tool '' @ quoted tool
      in if tp_type paramDef = [] then Some (pre @ '' must have a type'')
         else if tp_description paramDef = [] then Some (pre @ '' must have a description'')
         else case tp_enum paramDef of
           None \<Rightarrow> None
         | Some vs \<Rightarrow>
             if vs = [] then Some (pre @ '' has an empty enum'')
             else if js_lower (tp_type paramDef) \<noteq> ''string'' then
               Some (pre @ '' declares an enum but is type '' @ quoted (tp_type paramDef) @
                     ''; enums are only enforced for strings'')
             else None)"

fun first_error :: "('a \<Rightarrow> string option) \<Rightarrow> 'a list \<Rightarrow> string option" where
  "first_error f [] = None"
| "first_error f (x # xs) = (case f x of Some e \<Rightarrow> Some e | None \<Rightarrow> first_error f xs)"

definition validateToolDefinition :: "'w ToolDefinition \<Rightarrow> string option" where
  "validateToolDefinition tool =
     (if td_name tool = [] then Some ''Tool must have a valid name''
      else if td_description tool = [] then Some (''Tool '' @ quoted (td_name tool) @ '' must have a description'')
      else if td_category tool = [] then Some (''Tool '' @ quoted (td_name tool) @ '' must have a category'')
      else first_error (validateParamDef (td_name tool)) (td_parameters tool))"

definition reg_register :: "'w ToolRegistry \<Rightarrow> 'w ToolDefinition \<Rightarrow> string + 'w ToolRegistry" where
  "reg_register reg tool =
     (if js_has reg (td_name tool) then
        Inl (''Tool '' @ quoted (td_name tool) @ '' is already registered'')
      else case validateToolDefinition tool of
        Some e \<Rightarrow> Inl e
      | None \<Rightarrow> Inr (js_set (td_name tool) tool reg))"

definition reg_get :: "'w ToolRegistry \<Rightarrow> string \<Rightarrow> 'w ToolDefinition option" where
  "reg_get reg name = js_get reg name"

definition reg_has :: "'w ToolRegistry \<Rightarrow> string \<Rightarrow> bool" where
  "reg_has reg name = js_has reg name"

definition reg_list :: "'w ToolRegistry \<Rightarrow> string option \<Rightarrow> 'w ToolDefinition list" where
  "reg_list reg category =
     (if \<not> js_truthy category then map snd reg
      else filter (\<lambda>t. Some (td_category t) = category) (map snd reg))"

definition reg_unregister :: "'w ToolRegistry \<Rightarrow> string \<Rightarrow> bool \<times> 'w ToolRegistry" where
  "reg_unregister reg name = (js_has reg name, js_delete name reg)"

definition reg_clear :: "'w ToolRegistry \<Rightarrow> 'w ToolRegistry" where
  "reg_clear reg = []"

definition reg_count :: "'w ToolRegistry \<Rightarrow> nat" where
  "reg_count reg = length reg"

section \<open>Parameter validation and dispatch\<close>

fun js_typeof :: "json \<Rightarrow> string" where
  "js_typeof JNull = ''object''"
| "js_typeof (JBool b) = ''boolean''"
| "js_typeof (JNum n) = ''number''"
| "js_typeof (JStr s) = ''string''"
| "js_typeof (JArr xs) = ''object''"
| "js_typeof (JObj kvs) = ''object''"

fun is_array :: "json \<Rightarrow> bool" where
  "is_array (JArr xs) = True"
| "is_array _ = False"

text \<open>The type and enum checks on a value that is present and not null.\<close>

definition validateValue :: "string \<Rightarrow> string \<Rightarrow> ToolParameter \<Rightarrow> json \<Rightarrow> string option" where
  "validateValue tool paramName paramDef v =
     (let actualType = js_typeof v;
          expectedType = js_lower (tp_type paramDef);
          pre = ''Parameter '' @ quoted paramName @ '' for tool '' @ quoted tool
      in if expectedType = ''array'' \<and> \<not> is_array v then
           Some (pre @ '' must be an array, got '' @ actualType)
         else if expectedType = ''object'' \<and> (actualType \<noteq> ''object'' \<or> is_array v) then
           Some (pre @ '' must be an object, got '' @ actualType)
         else if expectedType \<noteq> ''array'' \<and> expectedType \<noteq> ''object'' \<and> actualType \<noteq> expectedType then
           Some (pre @ '' must be '' @ expectedType @ '', got '' @ actualType)
         else case (tp_enum paramDef, v) of
           (Some choices, JStr s) \<Rightarrow>
             if choices \<noteq> [] \<and> \<not> list_ex (\<lambda>c. js_lower c = js_lower s) choices then
               Some (pre @ '' must be one of: '' @ js_join '', '' choices @ '' (got '' @
                     [dquote] @ s @ [dquote] @ '')'')
             else None
         | _ \<Rightarrow> None)"

definition validateParam :: "string \<Rightarrow> json \<Rightarrow> string \<times> ToolParameter \<Rightarrow> string option" where
  "validateParam tool params np =
     (let paramName = fst np; paramDef = snd np in
      case json_get params paramName of
        None \<Rightarrow>
          if tp_required paramDef then
            Some (''Required parameter '' @ quoted paramName @ '' missing for tool '' @ quoted tool)
          else None
      | Some v \<Rightarrow>
          if v = JNull then
            (if tp_required paramDef then
               Some (''Required parameter '' @ quoted paramName @ '' missing for tool '' @ quoted tool)
             else None)
          else validateValue tool paramName paramDef v)"

definition validateParameters :: "'w ToolDefinition \<Rightarrow> json \<Rightarrow> string option" where
  "validateParameters tool params = first_error (validateParam (td_name tool) params) (td_parameters tool)"

text \<open>\<open>fence\<close> is what \<^verbatim>\<open>checkpointExecution\<close> throws when the surrounding execution was cancelled.\<close>

definition reg_execute ::
    "'w ToolRegistry \<Rightarrow> ToolError option \<Rightarrow> string \<Rightarrow> json \<Rightarrow> 'w \<Rightarrow> (ToolError + json) \<times> 'w" where
  "reg_execute reg fence name params w =
     (case js_get reg name of
        None \<Rightarrow> (Inl (PlainError (''Tool '' @ quoted name @ '' not found in registry'')), w)
      | Some tool \<Rightarrow>
          (case validateParameters tool params of
             Some e \<Rightarrow> (Inl (PlainError e), w)
           | None \<Rightarrow>
               (case fence of
                  Some e \<Rightarrow> (Inl e, w)
                | None \<Rightarrow>
                    (case td_execute tool params w of
                       (Inr v, w') \<Rightarrow> (Inr v, w')
                     | (Inl (ActionOutcomeError m), w') \<Rightarrow> (Inl (ActionOutcomeError m), w')
                     | (Inl (PlainError m), w') \<Rightarrow>
                         (Inl (PlainError (''Tool '' @ quoted name @ '' execution failed: '' @ m)), w')))))"

section \<open>Lemmas\<close>

text \<open>Every entry is stored under its own name and passed validation.\<close>

definition registry_ok :: "'w ToolRegistry \<Rightarrow> bool" where
  "registry_ok reg = (js_map_ok reg \<and>
     list_all (\<lambda>(k, t). td_name t = k \<and> validateToolDefinition t = None) reg)"

lemma first_error_None: "first_error f xs = None \<longleftrightarrow> (\<forall>x \<in> set xs. f x = None)"
  by (induction xs) (auto split: option.split)

lemma registry_ok_entry:
  "registry_ok reg \<Longrightarrow> js_get reg k = Some t \<Longrightarrow> td_name t = k \<and> validateToolDefinition t = None"
  by (fastforce simp: registry_ok_def list_all_iff dest: map_of_SomeD)

lemma registry_ok_clear: "registry_ok (reg_clear reg)"
  by (simp add: registry_ok_def reg_clear_def)

lemma registry_ok_unregister: "registry_ok reg \<Longrightarrow> registry_ok (snd (reg_unregister reg k))"
  by (auto simp: registry_ok_def reg_unregister_def jsm.ok_remove list_all_iff set_js_delete)

lemma set_js_set_new: "js_get m k = None \<Longrightarrow> set (js_set k v m) = insert (k, v) (set m)"
  by (induction m) (auto split: if_splits)

lemma registry_ok_register: "registry_ok reg \<Longrightarrow> reg_register reg tool = Inr reg' \<Longrightarrow> registry_ok reg'"
  by (auto simp: registry_ok_def reg_register_def list_all_iff jsm.ok_set set_js_set_new
      split: if_splits option.splits)

text \<open>What parameter validation guarantees about one declared parameter.\<close>

lemma validateParameters_required:
  assumes "validateParameters tool params = None" "(k, d) \<in> set (td_parameters tool)" "tp_required d"
  shows "\<exists>v. json_get params k = Some v \<and> v \<noteq> JNull"
proof -
  have "validateParam (td_name tool) params (k, d) = None"
    using assms(1,2) by (auto simp: validateParameters_def first_error_None)
  then show ?thesis
    using assms(3) by (auto simp: validateParam_def Let_def split: option.splits if_splits)
qed

lemma validateParameters_enum:
  assumes "validateParameters tool params = None" "(k, d) \<in> set (td_parameters tool)"
    and "tp_enum d = Some choices" "choices \<noteq> []" "json_get params k = Some (JStr s)"
  shows "js_lower s \<in> js_lower ` set choices"
proof -
  have "validateParam (td_name tool) params (k, d) = None"
    using assms(1,2) by (auto simp: validateParameters_def first_error_None)
  then show ?thesis
    using assms(3-)
    by (auto simp: validateParam_def validateValue_def Let_def list_ex_iff split: if_splits)
      (metis imageI)
qed

section \<open>Properties\<close>

text \<open>dispatch runs a tool's body exactly when the name is registered, its parameters validate and
  the execution is not cancelled; then every required parameter is present and not null.  In every
  other case the world is unchanged and the caller gets an error.\<close>

theorem registry_dispatch_validated:
  "(\<exists>tool. js_get reg name = Some tool \<and> validateParameters tool params = None \<and> fence = None \<and>
      snd (reg_execute reg fence name params w) = snd (td_execute tool params w) \<and>
      (\<forall>(k, d) \<in> set (td_parameters tool). tp_required d \<longrightarrow>
         (\<exists>v. json_get params k = Some v \<and> v \<noteq> JNull))) \<or>
   (snd (reg_execute reg fence name params w) = w \<and>
    (\<exists>e. fst (reg_execute reg fence name params w) = Inl e))"
proof (cases "js_get reg name")
  case None
  then show ?thesis by (simp add: reg_execute_def)
next
  case (Some tool)
  show ?thesis
  proof (cases "validateParameters tool params = None \<and> fence = None")
    case True
    then have "snd (reg_execute reg fence name params w) = snd (td_execute tool params w)"
      using Some by (simp add: reg_execute_def split: prod.split sum.split ToolError.split)
    moreover have "\<forall>(k, d) \<in> set (td_parameters tool). tp_required d \<longrightarrow>
        (\<exists>v. json_get params k = Some v \<and> v \<noteq> JNull)"
      using True by (auto intro: validateParameters_required)
    ultimately show ?thesis using Some True by blast
  next
    case False
    with Some show ?thesis by (auto simp: reg_execute_def split: option.split)
  qed
qed

definition echo_tool :: "nat ToolDefinition" where
  "echo_tool =
     \<lparr> td_object = 1, td_name = ''echo'', td_description = ''d'', td_category = ''general'',
       td_parameters = [(''text'', \<lparr> tp_type = ''string'', tp_description = ''t'', tp_required = True,
                                     tp_enum = None \<rparr>)],
       td_execute = (\<lambda>p w. (Inr p, w + 1)), td_authorityGate = None, td_captureApprovalGuard = None \<rparr>"

theorem registry_dispatch_validated_witness:
  "snd (reg_execute [(''echo'', echo_tool)] None ''echo'' (JObj []) 7) = 7 \<and>
   snd (reg_execute [(''echo'', echo_tool)] None ''echo'' (JObj [(''text'', JStr ''x'')]) 7) = 8"
proof -
  have "snd (reg_execute [(''echo'', echo_tool)] None ''echo'' (JObj []) 7) = 7"
    using registry_dispatch_validated [of "[(''echo'', echo_tool)]" "''echo''" "JObj []" None 7]
    by (auto simp: echo_tool_def validateParameters_def validateParam_def json_get_def Let_def)
  moreover have "snd (reg_execute [(''echo'', echo_tool)] None ''echo'' (JObj [(''text'', JStr ''x'')]) 7) = 8"
    by (simp add: reg_execute_def echo_tool_def validateParameters_def validateParam_def validateValue_def
        json_get_def js_lower_def js_lower_char_def Let_def)
  ultimately show ?thesis by simp
qed

end
