(* ===== verification/Tool_Gate.thy ===== *)
theory Tool_Gate
  imports Authority_Profiles Tool_Registry
begin

text \<open>
  What one tool call must clear: the static category of a tool and its severity order
  (\<^verbatim>\<open>src/authority/tool-action-map.ts\<close>) and the mandatory review of raw user-interface actions
  (\<open>rawUiGate\<close> of \<^verbatim>\<open>src/authority/ui-intent.ts\<close>).  A call's parameters are a JSON object.
\<close>

section \<open>Raw user-interface actions\<close>

definition REVIEWED_UI_TOOLS :: "string list" where
  "REVIEWED_UI_TOOLS =
     [''browser_navigate'', ''browser_click'', ''browser_type'', ''browser_press_key'',
      ''browser_upload_file'', ''browser_hover'', ''browser_scroll'', ''browser_evaluate'',
      ''desktop_click'', ''desktop_type'', ''desktop_press_keys'', ''desktop_launch_app'',
      ''desktop_focus_window'', ''ui_act'']"

definition rawUiGate :: "string \<Rightarrow> json \<Rightarrow> ToolGate option" where
  "rawUiGate toolName params =
     (if toolName \<notin> set REVIEWED_UI_TOOLS then None
      else if toolName = ''ui_act'' \<and> json_get params ''action'' = Some (JStr ''get_value'') then None
      else let element = (case json_get params ''element_id'' of
                            Some (JNum n) \<Rightarrow> '' on element ['' @ n @ '']'' | _ \<Rightarrow> [])
           in Some \<lparr> gate_actionCategory = ''control_app'',
                     gate_subject = None,
                     gate_actionCategories = None,
                     gate_intent = ''Review '' @ toolName @ element @
                       ''. Business effect unknown: this UI action may send, submit, delete or change data. Check the current screen and the exact arguments before approving; prefer a typed connector for a known business action.'',
                     gate_confirm = Some confirm_always \<rparr>)"

section \<open>The static category of a tool\<close>

definition TOOL_ACTION_MAP :: "(string \<times> ActionCategory) list" where
  "TOOL_ACTION_MAP =
     [(''run_command'', execute_command),
      (''read_file'', read_data), (''write_file'', write_data), (''list_directory'', read_data),
      (''browser_navigate'', access_browser), (''browser_snapshot'', access_browser),
      (''browser_click'', access_browser), (''browser_type'', access_browser),
      (''browser_scroll'', access_browser), (''browser_evaluate'', execute_command),
      (''browser_hover'', access_browser), (''browser_press_key'', access_browser),
      (''browser_screenshot'', access_browser), (''browser_upload_file'', write_data),
      (''desktop_list_windows'', read_data), (''desktop_focus_window'', control_app),
      (''desktop_snapshot'', read_data), (''desktop_find_element'', read_data),
      (''desktop_click'', control_app), (''desktop_type'', control_app),
      (''desktop_press_keys'', control_app), (''desktop_launch_app'', control_app),
      (''desktop_screenshot'', read_data),
      (''ui_snapshot'', read_data), (''ui_act'', control_app),
      (''run_skill'', control_app), (''record_skill'', control_app), (''manage_skills'', read_data),
      (''list_sidecars'', read_data),
      (''get_clipboard'', read_data), (''get_system_info'', read_data), (''capture_screen'', read_data),
      (''set_clipboard'', write_data), (''create_document'', write_data), (''manage_goals'', write_data),
      (''delegate_task'', spawn_agent), (''manage_agents'', spawn_agent),
      (''content_pipeline'', write_data), (''commitments'', write_data), (''research_queue'', read_data),
      (''request_approval'', read_data),
      (''manage_workflow'', write_data),
      (''site_read_file'', read_data), (''site_list_files'', read_data),
      (''site_write_file'', write_data), (''site_git_commit'', write_data),
      (''site_github_push'', write_data), (''site_delete_file'', write_data),
      (''site_create_project'', execute_command), (''site_run_command'', execute_command)]"

definition CATEGORY_ACTION_MAP :: "(string \<times> ActionCategory) list" where
  "CATEGORY_ACTION_MAP =
     [(''terminal'', execute_command), (''file-ops'', write_data), (''browser'', access_browser),
      (''desktop'', control_app), (''delegation'', spawn_agent), (''content'', write_data),
      (''tasks'', write_data), (''productivity'', read_data)]"

definition getActionForTool :: "string \<Rightarrow> string \<Rightarrow> ActionCategory" where
  "getActionForTool toolName toolCategory =
     (case map_of TOOL_ACTION_MAP toolName of
        Some c \<Rightarrow> c
      | None \<Rightarrow>
          (case map_of CATEGORY_ACTION_MAP toolCategory of
             Some c \<Rightarrow> c
           | None \<Rightarrow> execute_command))"

section \<open>Severity\<close>

definition SEVERITY_TIE_ORDER :: "ActionCategory list" where
  "SEVERITY_TIE_ORDER =
     [read_data, spawn_agent, write_data, send_message, access_browser,
      control_app, execute_command, install_software, send_email,
      terminate_agent, modify_settings, delete_data, make_payment]"

definition severityRank :: "ActionCategory \<Rightarrow> int" where
  "severityRank category =
     (let level = AUTHORITY_REQUIREMENTS category;
          tie = (case find_index (\<lambda>c. c = category) SEVERITY_TIE_ORDER of None \<Rightarrow> 0 | Some i \<Rightarrow> int i)
      in level * 100 + tie)"

definition stricterCategory :: "ActionCategory \<Rightarrow> ActionCategory \<Rightarrow> ActionCategory" where
  "stricterCategory a b = (if severityRank b > severityRank a then b else a)"

section \<open>Resolving a call\<close>

record ResolvedToolGate =
  rg_actionCategory :: ActionCategory
  rg_categories :: "ActionCategory list"
  rg_floorCategory :: ActionCategory
  rg_intent :: "string option"
  rg_confirm :: "Confirm option"

text \<open>The tool's own gate: absent, declared, or thrown, which asks for review.\<close>

definition callGate :: "'w ToolDefinition option \<Rightarrow> string \<Rightarrow> json \<Rightarrow> ActionCategory \<Rightarrow> ToolGate option" where
  "callGate tool toolName params floorCategory =
     (case tool of
        None \<Rightarrow> None
      | Some t \<Rightarrow>
          (case td_authorityGate t of
             None \<Rightarrow> None
           | Some g \<Rightarrow>
               (case g params of
                  Inr gate \<Rightarrow> gate
                | Inl err \<Rightarrow>
                    Some \<lparr> gate_actionCategory = category_name floorCategory,
                           gate_subject = None, gate_actionCategories = None,
                           gate_intent = ''Review '' @ toolName @
                             ''. Business effect unknown: its effect classifier failed; no automatic execution is permitted.'',
                           gate_confirm = Some confirm_always \<rparr>)))"

text \<open>The categories a gate declares, unknown names dropped.\<close>

definition declaredCategories :: "ToolGate option \<Rightarrow> ActionCategory list" where
  "declaredCategories g =
     (case g of
        None \<Rightarrow> []
      | Some gate \<Rightarrow>
          List.map_filter category_of_name
            (gate_actionCategory gate #
             (case gate_actionCategories gate of None \<Rightarrow> [] | Some cs \<Rightarrow> cs)))"

definition resolveToolGate :: "'w ToolDefinition option \<Rightarrow> string \<Rightarrow> json \<Rightarrow> ResolvedToolGate" where
  "resolveToolGate tool toolName params =
     (let floorCategory = getActionForTool toolName
            (case tool of None \<Rightarrow> ''unknown'' | Some t \<Rightarrow> td_category t);
          uiGate = rawUiGate toolName params;
          gate = callGate tool toolName params floorCategory
      in if gate = None \<and> uiGate = None then
           \<lparr> rg_actionCategory = floorCategory, rg_categories = [floorCategory],
             rg_floorCategory = floorCategory, rg_intent = None, rg_confirm = None \<rparr>
         else
           let declared = declaredCategories gate @ declaredCategories uiGate;
               categories = sort_key (\<lambda>c. - severityRank c) (js_dedupe (floorCategory # declared))
           in \<lparr> rg_actionCategory = hd categories, rg_categories = categories,
                rg_floorCategory = floorCategory,
                rg_intent = (case gate of Some g \<Rightarrow> Some (gate_intent g)
                             | None \<Rightarrow> map_option gate_intent uiGate),
                rg_confirm = (case uiGate of
                    Some u \<Rightarrow> if gate_confirm u = Some confirm_always then Some confirm_always
                              else (case gate of Some g \<Rightarrow> gate_confirm g | None \<Rightarrow> None)
                  | None \<Rightarrow> (case gate of Some g \<Rightarrow> gate_confirm g | None \<Rightarrow> None)) \<rparr>)"

definition gateContext :: "ResolvedToolGate \<Rightarrow> string \<Rightarrow> json \<Rightarrow> string" where
  "gateContext gate toolName params =
     (if \<not> js_truthy (rg_intent gate) then
        ''Agent attempted: '' @ toolName @ ''('' @ take 200 (JSON_stringify params) @ '')''
      else JSON_stringify (JObj ((''intent'', JStr (the (rg_intent gate))) #
             (if rg_confirm gate = Some confirm_always then [(''confirm'', JStr ''always'')] else []))))"

section \<open>Lemmas\<close>

text \<open>
  A worst case needs a rank that tells any two categories apart; then the most severe element of a
  non-empty collection is unique, and sorting by severity depends on the set alone.
\<close>

locale severity_order =
  fixes rank :: "'c \<Rightarrow> int"
  assumes rank_inj: "rank a = rank b \<Longrightarrow> a = b"
begin

lemma worst_unique:
  assumes "a \<in> S" "\<forall>x \<in> S. rank x \<le> rank a" "b \<in> S" "\<forall>x \<in> S. rank x \<le> rank b"
  shows "a = b"
  using assms by (intro rank_inj) (meson order_antisym)

lemma sorted_desc_determined:
  assumes "set xs = set ys" "distinct xs" "distinct ys"
  shows "sort_key (\<lambda>c. - rank c) xs = sort_key (\<lambda>c. - rank c) ys"
proof (rule map_inj_on [where f = "\<lambda>c. - rank c"])
  have inj: "inj_on (\<lambda>c. - rank c) S" for S by (rule inj_onI) (auto intro: rank_inj)
  then show "inj_on (\<lambda>c. - rank c)
      (set (sort_key (\<lambda>c. - rank c) xs) \<union> set (sort_key (\<lambda>c. - rank c) ys))" .
  have d: "distinct (map (\<lambda>c. - rank c) zs)" if "distinct zs" for zs
    using that inj by (simp add: distinct_map)
  show "map (\<lambda>c. - rank c) (sort_key (\<lambda>c. - rank c) xs) = map (\<lambda>c. - rank c) (sort_key (\<lambda>c. - rank c) ys)"
    by (rule sorted_distinct_set_unique) (use assms d in auto)
qed

lemma hd_sorted_desc:
  assumes "xs \<noteq> []"
  shows "hd (sort_key (\<lambda>c. - rank c) xs) \<in> set xs"
    and "x \<in> set xs \<Longrightarrow> rank x \<le> rank (hd (sort_key (\<lambda>c. - rank c) xs))"
proof -
  let ?s = "sort_key (\<lambda>c. - rank c) xs"
  have ne: "?s \<noteq> []" using assms by (metis set_empty set_sort)
  then show "hd ?s \<in> set xs" using hd_in_set [OF ne] by simp
  have "sorted (map (\<lambda>c. - rank c) ?s)" by simp
  then show "rank x \<le> rank (hd ?s)" if "x \<in> set xs"
  proof -
    obtain y ys where ys: "?s = y # ys" using ne by (cases ?s) auto
    then have "x \<in> set (y # ys)" using that by (metis set_sort)
    with \<open>sorted (map (\<lambda>c. - rank c) ?s)\<close> ys show ?thesis by auto
  qed
qed

end

lemma severityRank_table:
  "severityRank read_data = 100" "severityRank spawn_agent = 101" "severityRank write_data = 302"
  "severityRank send_message = 303" "severityRank access_browser = 504" "severityRank control_app = 505"
  "severityRank execute_command = 506" "severityRank install_software = 707" "severityRank send_email = 708"
  "severityRank terminate_agent = 909" "severityRank modify_settings = 910" "severityRank delete_data = 911"
  "severityRank make_payment = 912"
  by (simp_all add: severityRank_def SEVERITY_TIE_ORDER_def Let_def)

interpretation severity: severity_order severityRank
proof unfold_locales
  fix a b
  show "severityRank a = severityRank b \<Longrightarrow> a = b"
    by (cases a; cases b; simp add: severityRank_table)
qed

lemma severity_refines_level:
  "AUTHORITY_REQUIREMENTS a < AUTHORITY_REQUIREMENTS b \<Longrightarrow> severityRank a < severityRank b"
  by (cases a; cases b; simp add: severityRank_table)


lemma resolve_categories:
  "rg_categories (resolveToolGate tool name params) =
     sort_key (\<lambda>c. - severityRank c)
       (js_dedupe (rg_floorCategory (resolveToolGate tool name params) #
          declaredCategories (callGate tool name params (rg_floorCategory (resolveToolGate tool name params))) @
          declaredCategories (rawUiGate name params)))"
  by (auto simp: resolveToolGate_def declaredCategories_def js_dedupe_def Let_def)

lemma resolve_floor:
  "rg_floorCategory (resolveToolGate tool name params) =
     getActionForTool name (case tool of None \<Rightarrow> ''unknown'' | Some t \<Rightarrow> td_category t)"
  by (simp add: resolveToolGate_def Let_def)

lemma resolve_head:
  "rg_actionCategory (resolveToolGate tool name params) = hd (rg_categories (resolveToolGate tool name params))"
  by (simp add: resolveToolGate_def Let_def)

lemma set_resolve_categories:
  "set (rg_categories (resolveToolGate tool name params)) =
     insert (rg_floorCategory (resolveToolGate tool name params))
       (set (declaredCategories (callGate tool name params (rg_floorCategory (resolveToolGate tool name params)))) \<union>
        set (declaredCategories (rawUiGate name params)))"
  by (subst resolve_categories) simp

lemma resolve_categories_ne: "rg_categories (resolveToolGate tool name params) \<noteq> []"
  using set_resolve_categories [of tool name params] by (metis empty_not_insert set_empty)

lemma resolve_worst:
  "rg_actionCategory (resolveToolGate tool name params) \<in> set (rg_categories (resolveToolGate tool name params))"
  "c \<in> set (rg_categories (resolveToolGate tool name params)) \<Longrightarrow>
     severityRank c \<le> severityRank (rg_actionCategory (resolveToolGate tool name params))"
proof -
  let ?r = "resolveToolGate tool name params"
  let ?xs = "js_dedupe (rg_floorCategory ?r #
      declaredCategories (callGate tool name params (rg_floorCategory ?r)) @ declaredCategories (rawUiGate name params))"
  have cats: "rg_categories ?r = sort_key (\<lambda>c. - severityRank c) ?xs" by (rule resolve_categories)
  have ne: "?xs \<noteq> []" by simp
  show "rg_actionCategory ?r \<in> set (rg_categories ?r)"
    unfolding resolve_head by (rule hd_in_set) (rule resolve_categories_ne)
  show "severityRank c \<le> severityRank (rg_actionCategory ?r)" if "c \<in> set (rg_categories ?r)"
    unfolding resolve_head cats by (rule severity.hd_sorted_desc(2) [OF ne]) (use that cats in simp)
qed

lemma rawUiGate_Some:
  "rawUiGate name params = Some g \<Longrightarrow>
     gate_confirm g = Some confirm_always \<and> declaredCategories (Some g) = [control_app]"
proof -
  have "category_of_name ''control_app'' = Some control_app"
    using category_of_name_name [of control_app] by simp
  then show "rawUiGate name params = Some g \<Longrightarrow> ?thesis"
    by (auto simp: rawUiGate_def declaredCategories_def List.map_filter_def Let_def split: if_splits)
qed

section \<open>Properties\<close>

text \<open>severity is a total order that refines the required level: different categories have different
  ranks, a higher required level is a higher rank, and \<open>stricterCategory\<close> is its maximum, so it is
  commutative and associative.\<close>

theorem severity_total_order:
  "(severityRank a = severityRank b \<longleftrightarrow> a = b) \<and>
   (\<not> AUTHORITY_REQUIREMENTS a < AUTHORITY_REQUIREMENTS b \<or> severityRank a < severityRank b) \<and>
   severityRank (stricterCategory a b) = max (severityRank a) (severityRank b) \<and>
   stricterCategory a b = stricterCategory b a \<and>
   stricterCategory (stricterCategory a b) c = stricterCategory a (stricterCategory b c)"
proof -
  have max: "severityRank (stricterCategory x y) = max (severityRank x) (severityRank y)" for x y
    by (simp add: stricterCategory_def)
  have "stricterCategory a b = stricterCategory b a"
    by (rule severity.rank_inj) (simp add: max max.commute)
  moreover have "stricterCategory (stricterCategory a b) c = stricterCategory a (stricterCategory b c)"
    by (rule severity.rank_inj) (simp add: max max.assoc)
  moreover have "severityRank a = severityRank b \<longleftrightarrow> a = b" using severity.rank_inj by blast
  ultimately show ?thesis using max severity_refines_level [of a b] by blast
qed

theorem severity_total_order_witness:
  "severityRank (stricterCategory read_data make_payment) = 912 \<and>
   stricterCategory (stricterCategory read_data send_email) install_software = send_email"
  using severity_total_order [of read_data make_payment read_data]
    severity_total_order [of read_data send_email install_software]
  by (simp add: severityRank_table stricterCategory_def)

text \<open>resolving a call never goes below the tool's static category and never forgets one.  The
  categories to clear are distinct, contain the floor and every known category a gate declared, are
  headed by the most severe of them, which is the one the card and the audit carry; and that list
  depends only on the set of declared categories, not on their order.\<close>

theorem resolve_never_below_floor:
  fixes tool :: "'w ToolDefinition option" and name :: string and params :: json
  defines "r \<equiv> resolveToolGate tool name params"
  shows "rg_floorCategory r \<in> set (rg_categories r) \<and> distinct (rg_categories r) \<and>
    severityRank (rg_floorCategory r) \<le> severityRank (rg_actionCategory r) \<and>
    rg_actionCategory r = hd (rg_categories r) \<and>
    set (declaredCategories (callGate tool name params (rg_floorCategory r))) \<subseteq> set (rg_categories r) \<and>
    (\<forall>c \<in> set (rg_categories r). severityRank c \<le> severityRank (rg_actionCategory r)) \<and>
    (\<forall>xs. distinct xs \<and> set xs = set (rg_categories r) \<longrightarrow>
       sort_key (\<lambda>c. - severityRank c) xs = rg_categories r)"
proof (intro conjI ballI allI impI)
  let ?xs = "js_dedupe (rg_floorCategory r #
      declaredCategories (callGate tool name params (rg_floorCategory r)) @ declaredCategories (rawUiGate name params))"
  have cats: "rg_categories r = sort_key (\<lambda>c. - severityRank c) ?xs"
    unfolding r_def by (rule resolve_categories)
  show floor: "rg_floorCategory r \<in> set (rg_categories r)" by (subst cats) simp
  show "distinct (rg_categories r)" by (subst cats) simp
  show worst: "severityRank c \<le> severityRank (rg_actionCategory r)" if "c \<in> set (rg_categories r)" for c
    using resolve_worst(2) that unfolding r_def by blast
  show "severityRank (rg_floorCategory r) \<le> severityRank (rg_actionCategory r)" by (rule worst [OF floor])
  show "rg_actionCategory r = hd (rg_categories r)" unfolding r_def by (rule resolve_head)
  show "set (declaredCategories (callGate tool name params (rg_floorCategory r))) \<subseteq> set (rg_categories r)"
    by (subst cats) auto
  show "sort_key (\<lambda>c. - severityRank c) xs = rg_categories r"
    if "distinct xs \<and> set xs = set (rg_categories r)" for xs
    using that severity.sorted_desc_determined [of xs ?xs] cats by simp
qed

theorem resolve_never_below_floor_witness:
  "rg_categories (resolveToolGate (None :: nat ToolDefinition option) ''browser_click'' (JObj []))
     = [control_app, access_browser] \<and>
   sort_key (\<lambda>c. - severityRank c) [access_browser, control_app] = [control_app, access_browser]"
proof -
  let ?r = "resolveToolGate (None :: nat ToolDefinition option) ''browser_click'' (JObj [])"
  have r: "rg_categories ?r = [control_app, access_browser]"
    by (simp add: resolveToolGate_def getActionForTool_def TOOL_ACTION_MAP_def rawUiGate_def
        REVIEWED_UI_TOOLS_def callGate_def declaredCategories_def category_of_name_def KNOWN_CATEGORIES_def
        List.map_filter_def js_dedupe_def severityRank_table Let_def)
  have "sort_key (\<lambda>c. - severityRank c) [access_browser, control_app] = rg_categories ?r"
    using resolve_never_below_floor [of "None :: nat ToolDefinition option" "''browser_click''" "JObj []"] r
    by (metis distinct_length_2_or_more distinct_singleton insert_commute list.set(1) list.simps(15))
  with r show ?thesis by simp
qed

text \<open>raw user-interface actions and broken classifiers always go to review.  For a tool on the
  reviewed list (other than reading a value through \<^verbatim>\<open>ui_act\<close>) the resolved call asks for confirmation
  and has to clear \<open>control_app\<close>, whatever gate the tool declares; and when the declared gate throws
  the call asks for confirmation too.\<close>

theorem raw_ui_always_reviewed:
  assumes "(name \<in> set REVIEWED_UI_TOOLS \<and>
      \<not> (name = ''ui_act'' \<and> json_get params ''action'' = Some (JStr ''get_value''))) \<or>
    (\<exists>t g e. tool = Some t \<and> td_authorityGate t = Some g \<and> g params = Inl e)"
  shows "rg_confirm (resolveToolGate tool name params) = Some confirm_always \<and>
    (name \<notin> set REVIEWED_UI_TOOLS \<or>
     name = ''ui_act'' \<and> json_get params ''action'' = Some (JStr ''get_value'') \<or>
     control_app \<in> set (rg_categories (resolveToolGate tool name params)))"
proof (cases "rawUiGate name params")
  case (Some u)
  note u = rawUiGate_Some [OF Some]
  from u have "control_app \<in> set (declaredCategories (rawUiGate name params))" by (simp add: Some)
  then have "control_app \<in> set (rg_categories (resolveToolGate tool name params))"
    by (simp add: set_resolve_categories)
  with Some u show ?thesis by (auto simp: resolveToolGate_def Let_def)
next
  case None
  then have "name \<notin> set REVIEWED_UI_TOOLS \<or>
      name = ''ui_act'' \<and> json_get params ''action'' = Some (JStr ''get_value'')"
    by (auto simp: rawUiGate_def Let_def split: if_splits)
  moreover from this assms obtain t g e where "tool = Some t" "td_authorityGate t = Some g" "g params = Inl e"
    by blast
  ultimately show ?thesis using None by (auto simp: resolveToolGate_def callGate_def Let_def)
qed

theorem raw_ui_always_reviewed_witness:
  "rg_confirm (resolveToolGate (None :: nat ToolDefinition option) ''desktop_type'' (JObj [])) = Some confirm_always"
  using raw_ui_always_reviewed [of "''desktop_type''" "JObj []" "None :: nat ToolDefinition option"]
  by (simp add: REVIEWED_UI_TOOLS_def)

end
