(* ===== verification/Approval.thy ===== *)
theory Approval
  imports Tool_Gate
begin

text \<open>
  The approval manager, \<^verbatim>\<open>src/authority/approval.ts\<close>: the table of approval requests with its
  conditional updates, and the per-process bindings of reviewed user-interface calls.  Every
  operation takes the clock reading it makes.  A tool registry is a reference (a number) into the
  registries of the process, \<open>regs\<close>; the world \<open>'w\<close> is what a tool's captured guard reads.

  The second half is the life cycle: the steps the operations make, the invariant of every row, the
  claim that at most one executor gets, and what a restart makes of an interrupted execution.
\<close>

section \<open>Data\<close>

datatype ApprovalStatus = pending | approved | denied | expired | executed
datatype ApprovalUrgency = urgent | normal_urgency
datatype ApprovalExecutionMode = inline | deferred | workflow
datatype ApprovalReceiptOutcome = committed | failed | blocked
datatype ApprovalExecutionOutcome = Receipt ApprovalReceiptOutcome | not_started | unknown | closed

record ApprovalRequest =
  ar_id :: string
  ar_agent_id :: string
  ar_agent_name :: string
  ar_tool_name :: string
  ar_tool_arguments :: string
  ar_action_category :: ActionCategory
  ar_urgency :: ApprovalUrgency
  ar_reason :: string
  ar_context :: string
  ar_status :: ApprovalStatus
  ar_execution_mode :: ApprovalExecutionMode
  ar_decided_at :: "int option"
  ar_decided_by :: "string option"
  ar_executed_at :: "int option"
  ar_execution_result :: "string option"
  ar_created_at :: int
  ar_claimed_at :: "int option"
  ar_claimed_by :: "string option"
  ar_boot_id :: "string option"
  ar_outcome :: "ApprovalExecutionOutcome option"
  ar_resolved_at :: "int option"
  ar_resolved_by :: "string option"
  ar_resolution_note :: "string option"

datatype ApprovalExecutionState =
    StPending | StDenied | StExpired | StAwaiting | StInFlight | StOutcome ApprovalExecutionOutcome

definition executionState :: "ApprovalRequest \<Rightarrow> ApprovalExecutionState" where
  "executionState request =
     (case ar_status request of
        executed \<Rightarrow> StOutcome (case ar_outcome request of Some o' \<Rightarrow> o' | None \<Rightarrow> Receipt committed)
      | pending \<Rightarrow> StPending
      | denied \<Rightarrow> StDenied
      | expired \<Rightarrow> StExpired
      | approved \<Rightarrow>
          (case ar_outcome request of
             Some o' \<Rightarrow> StOutcome o'
           | None \<Rightarrow> if ar_claimed_at request \<noteq> None \<and> ar_claimed_at request \<noteq> Some 0
                     then StInFlight else StAwaiting))"

text \<open>Reading the JSON context a gate wrote into the request.\<close>

definition approvalNeedsClick :: "string \<Rightarrow> bool" where
  "approvalNeedsClick raw =
     (if \<not> js_startsWith raw ''{'' then False
      else case JSON_parse raw of
        None \<Rightarrow> False
      | Some parsed \<Rightarrow> json_get parsed ''confirm'' = Some (JStr ''always''))"

definition approvalIntentFromContext :: "string \<Rightarrow> string option" where
  "approvalIntentFromContext raw =
     (if \<not> js_startsWith raw ''{'' then None
      else case JSON_parse raw of
        None \<Rightarrow> None
      | Some parsed \<Rightarrow>
          (case json_get parsed ''intent'' of
             Some (JStr intent) \<Rightarrow> if js_trim intent \<noteq> [] then Some (js_trim intent) else None
           | _ \<Rightarrow> None))"

record 'w UiBinding =
  ub_registry :: nat
  ub_tool :: "'w ToolDefinition"
  ub_arguments :: string
  ub_current :: "'w \<Rightarrow> string + bool"

record 'w ApprovalManager =
  am_bootId :: string
  am_rows :: "ApprovalRequest list"
  am_uiExecutions :: "(string, 'w UiBinding) jsmap"

type_synonym 'w Registries = "nat \<Rightarrow> 'w ToolRegistry"

section \<open>Creating a request\<close>

record CreateParams =
  crp_agentId :: string
  crp_agentName :: string
  crp_toolName :: string
  crp_toolArguments :: json
  crp_actionCategory :: ActionCategory
  crp_urgency :: ApprovalUrgency
  crp_reason :: string
  crp_context :: string
  crp_executionMode :: "ApprovalExecutionMode option"
  crp_toolRegistry :: "nat option"

definition newRequest :: "string \<Rightarrow> int \<Rightarrow> CreateParams \<Rightarrow> ApprovalRequest" where
  "newRequest i now params =
     \<lparr> ar_id = i, ar_agent_id = crp_agentId params, ar_agent_name = crp_agentName params,
       ar_tool_name = crp_toolName params, ar_tool_arguments = JSON_stringify (crp_toolArguments params),
       ar_action_category = crp_actionCategory params, ar_urgency = crp_urgency params,
       ar_reason = crp_reason params, ar_context = crp_context params, ar_status = pending,
       ar_execution_mode = (case crp_executionMode params of None \<Rightarrow> deferred | Some m \<Rightarrow> m),
       ar_decided_at = None, ar_decided_by = None, ar_executed_at = None, ar_execution_result = None,
       ar_created_at = now, ar_claimed_at = None, ar_claimed_by = None, ar_boot_id = None,
       ar_outcome = None, ar_resolved_at = None, ar_resolved_by = None, ar_resolution_note = None \<rparr>"

text \<open>The guard captured for a reviewed user-interface call; a failed capture never lets it run.\<close>

definition captureCurrent :: "'w ToolDefinition \<Rightarrow> string \<Rightarrow> 'w \<Rightarrow> ('w \<Rightarrow> string + bool)" where
  "captureCurrent tool toolArgs w =
     (case td_captureApprovalGuard tool of
        None \<Rightarrow> (\<lambda>_. Inr True)
      | Some capture \<Rightarrow>
          (case JSON_parse toolArgs of
             None \<Rightarrow> (\<lambda>_. Inr False)
           | Some args \<Rightarrow> (case capture args w of Inl e \<Rightarrow> (\<lambda>_. Inr False) | Inr guard \<Rightarrow> guard)))"


datatype ApprovalError = DuplicateId | RequestNotFound string

definition createRequest ::
    "'w Registries \<Rightarrow> 'w \<Rightarrow> string \<Rightarrow> int \<Rightarrow> CreateParams \<Rightarrow> 'w ApprovalManager \<Rightarrow>
     ApprovalError + (ApprovalRequest \<times> 'w ApprovalManager)" where
  "createRequest regs w i now params am =
     (let row = newRequest i now params;
          toolArgs = ar_tool_arguments row;
          binding = (case crp_toolRegistry params of
              None \<Rightarrow> None
            | Some reg \<Rightarrow>
                (case reg_get (regs reg) (crp_toolName params) of
                   None \<Rightarrow> None
                 | Some tool \<Rightarrow>
                     if rawUiGate (crp_toolName params) (crp_toolArguments params) \<noteq> None then
                       Some \<lparr> ub_registry = reg, ub_tool = tool, ub_arguments = toolArgs,
                              ub_current = captureCurrent tool toolArgs w \<rparr>
                     else None))
      in if i \<in> set (map ar_id (am_rows am)) then Inl DuplicateId
         else Inr (row, am\<lparr>am_rows := am_rows am @ [row],
                          am_uiExecutions := (case binding of
                              None \<Rightarrow> am_uiExecutions am
                            | Some b \<Rightarrow> js_set i b (am_uiExecutions am))\<rparr>))"

definition getUiExecutionRegistry ::
    "'w Registries \<Rightarrow> 'w \<Rightarrow> 'w ApprovalManager \<Rightarrow> ApprovalRequest \<Rightarrow> nat option" where
  "getUiExecutionRegistry regs w am request =
     (case js_get (am_uiExecutions am) (ar_id request) of
        None \<Rightarrow> None
      | Some binding \<Rightarrow>
          if ub_arguments binding \<noteq> ar_tool_arguments request \<or>
             map_option td_object (reg_get (regs (ub_registry binding)) (ar_tool_name request))
               \<noteq> Some (td_object (ub_tool binding)) then None
          else (case ub_current binding w of
                  Inr b \<Rightarrow> if b then Some (ub_registry binding) else None
                | Inl e \<Rightarrow> None))"

definition getRequest :: "'w ApprovalManager \<Rightarrow> string \<Rightarrow> ApprovalRequest option" where
  "getRequest am requestId = sql_get ar_id requestId (am_rows am)"

text \<open>\<^verbatim>\<open>LIKE\<close>: \<^verbatim>\<open>%\<close> matches any text, \<^verbatim>\<open>_\<close> any character, ASCII letters match in either case.\<close>

definition ascii_lower :: "char \<Rightarrow> char" where
  "ascii_lower c = (let n = of_char c in if 65 \<le> n \<and> n \<le> 90 then char_of (n + 32 :: nat) else c)"

fun sql_like :: "string \<Rightarrow> string \<Rightarrow> bool" where
  "sql_like [] s = (s = [])"
| "sql_like (p # ps) [] = (p = CHR ''%'' \<and> sql_like ps [])"
| "sql_like (p # ps) (c # s) =
     (if p = CHR ''%'' then sql_like ps (c # s) \<or> sql_like (p # ps) s
      else (p = CHR ''_'' \<or> ascii_lower p = ascii_lower c) \<and> sql_like ps s)"

definition findByShortId :: "'w ApprovalManager \<Rightarrow> string \<Rightarrow> ApprovalRequest option" where
  "findByShortId am shortId =
     List.find (\<lambda>r. sql_like (shortId @ ''%'') (ar_id r) \<and> ar_status r = pending) (am_rows am)"

section \<open>Deciding\<close>

definition withRows :: "'w ApprovalManager \<Rightarrow> ApprovalRequest list \<times> nat \<Rightarrow> 'w ApprovalManager" where
  "withRows am upd = am\<lparr>am_rows := fst upd\<rparr>"

definition dropUi :: "string \<Rightarrow> 'w ApprovalManager \<Rightarrow> 'w ApprovalManager" where
  "dropUi i am = am\<lparr>am_uiExecutions := js_delete i (am_uiExecutions am)\<rparr>"

definition approve :: "string \<Rightarrow> string \<Rightarrow> int \<Rightarrow> 'w ApprovalManager \<Rightarrow>
    ApprovalRequest option \<times> 'w ApprovalManager" where
  "approve requestId decidedBy now am =
     (let result = sql_update (\<lambda>r. ar_id r = requestId \<and> ar_status r = pending)
            (\<lambda>r. r\<lparr>ar_status := approved, ar_decided_at := Some now, ar_decided_by := Some decidedBy\<rparr>)
            (am_rows am);
          am' = withRows am result
      in if snd result = 0 then (None, am') else (getRequest am' requestId, am'))"

definition deny :: "string \<Rightarrow> string \<Rightarrow> int \<Rightarrow> 'w ApprovalManager \<Rightarrow>
    ApprovalRequest option \<times> 'w ApprovalManager" where
  "deny requestId decidedBy now am =
     (let result = sql_update (\<lambda>r. ar_id r = requestId \<and> ar_status r = pending)
            (\<lambda>r. r\<lparr>ar_status := denied, ar_decided_at := Some now, ar_decided_by := Some decidedBy\<rparr>)
            (am_rows am);
          am' = withRows am result
      in if snd result = 0 then (None, am')
         else let am'' = dropUi requestId am' in (getRequest am'' requestId, am''))"

definition demoteToDeferred :: "string \<Rightarrow> 'w ApprovalManager \<Rightarrow> bool \<times> 'w ApprovalManager" where
  "demoteToDeferred requestId am =
     (let result = sql_update
            (\<lambda>r. ar_id r = requestId \<and> ar_status r = pending \<and> ar_execution_mode r = inline)
            (\<lambda>r. r\<lparr>ar_execution_mode := deferred\<rparr>) (am_rows am)
      in (snd result > 0, withRows am result))"

definition demoteAllPendingInline :: "'w ApprovalManager \<Rightarrow> nat \<times> 'w ApprovalManager" where
  "demoteAllPendingInline am =
     (let result = sql_update (\<lambda>r. ar_status r = pending \<and> ar_execution_mode r = inline)
            (\<lambda>r. r\<lparr>ar_execution_mode := deferred\<rparr>) (am_rows am)
      in (snd result, withRows am result))"

section \<open>Executing\<close>

definition claimable :: "ApprovalRequest \<Rightarrow> bool" where
  "claimable r = (ar_status r = approved \<and> ar_claimed_at r = None \<and>
     (ar_outcome r = None \<or> ar_outcome r = Some not_started))"

definition claimExecution :: "string \<Rightarrow> string \<Rightarrow> int \<Rightarrow> 'w ApprovalManager \<Rightarrow> bool \<times> 'w ApprovalManager" where
  "claimExecution requestId claimedBy now am =
     (let result = sql_update (\<lambda>r. ar_id r = requestId \<and> claimable r)
            (\<lambda>r. r\<lparr>ar_claimed_at := Some now, ar_claimed_by := Some claimedBy,
                   ar_boot_id := Some (am_bootId am), ar_outcome := None\<rparr>) (am_rows am)
      in (snd result > 0, withRows am result))"

definition markExecuted :: "string \<Rightarrow> string \<Rightarrow> ApprovalReceiptOutcome \<Rightarrow> int \<Rightarrow> 'w ApprovalManager \<Rightarrow>
    bool \<times> 'w ApprovalManager" where
  "markExecuted requestId executionResult outcome now am =
     (let result = sql_update (\<lambda>r. ar_id r = requestId \<and> ar_status r = approved)
            (\<lambda>r. r\<lparr>ar_status := executed, ar_executed_at := Some now,
                   ar_execution_result := Some executionResult, ar_outcome := Some (Receipt outcome)\<rparr>)
            (am_rows am);
          am' = withRows am result
      in (snd result > 0, if snd result > 0 then dropUi requestId am' else am'))"

definition interruptedRow :: "string \<Rightarrow> ApprovalRequest \<Rightarrow> bool" where
  "interruptedRow boot r = (ar_status r = approved \<and> ar_claimed_at r \<noteq> None \<and> ar_outcome r = None \<and>
     ar_execution_mode r \<noteq> workflow \<and> (ar_boot_id r = None \<or> ar_boot_id r \<noteq> Some boot))"

definition notStartedRow :: "ApprovalRequest \<Rightarrow> bool" where
  "notStartedRow r = (ar_status r = approved \<and> ar_claimed_at r = None \<and> ar_outcome r = None \<and>
     ar_execution_mode r \<noteq> workflow)"

record ReconcileReport =
  demotedInline :: nat
  notStarted :: nat
  interrupted :: nat

definition reconcileAfterRestart :: "'w ApprovalManager \<Rightarrow> ReconcileReport \<times> 'w ApprovalManager" where
  "reconcileAfterRestart am0 =
     (let am1 = am0\<lparr>am_uiExecutions := []\<rparr>;
          (demoted, am2) = demoteAllPendingInline am1;
          r1 = sql_update (interruptedRow (am_bootId am2)) (\<lambda>r. r\<lparr>ar_outcome := Some unknown\<rparr>) (am_rows am2);
          am3 = withRows am2 r1;
          r2 = sql_update notStartedRow (\<lambda>r. r\<lparr>ar_outcome := Some not_started\<rparr>) (am_rows am3);
          am4 = withRows am3 r2
      in (\<lparr> demotedInline = demoted, notStarted = snd r2, interrupted = snd r1 \<rparr>, am4))"

definition unresolvedRow :: "ApprovalRequest \<Rightarrow> bool" where
  "unresolvedRow r = (ar_status r = approved \<and> ar_outcome r \<in> {Some not_started, Some unknown})"

definition getUnresolved :: "'w ApprovalManager \<Rightarrow> ApprovalRequest list" where
  "getUnresolved am =
     sql_select_desc unresolvedRow (\<lambda>r. case ar_decided_at r of None \<Rightarrow> 0 | Some t \<Rightarrow> t)
       (sql_select_desc (\<lambda>_. True) ar_created_at (am_rows am))"

definition closeUnresolved :: "string \<Rightarrow> string \<Rightarrow> string option \<Rightarrow> int \<Rightarrow> 'w ApprovalManager \<Rightarrow>
    bool \<times> 'w ApprovalManager" where
  "closeUnresolved requestId resolvedBy note now am =
     (let result = sql_update (\<lambda>r. ar_id r = requestId \<and> unresolvedRow r)
            (\<lambda>r. r\<lparr>ar_outcome := Some closed, ar_resolved_at := Some now,
                   ar_resolved_by := Some resolvedBy, ar_resolution_note := note\<rparr>) (am_rows am);
          am' = withRows am result
      in (snd result > 0, if snd result > 0 then dropUi requestId am' else am'))"

section \<open>Listing, expiry and waiting\<close>

definition getPending :: "'w ApprovalManager \<Rightarrow> ApprovalRequest list" where
  "getPending am = sql_select_desc (\<lambda>r. ar_status r = pending) ar_created_at (am_rows am)"

record HistoryOpts =
  ho_limit :: "nat option"
  ho_action :: "ActionCategory option"
  ho_agentId :: "string option"
  ho_status :: "ApprovalStatus option"

definition getHistory :: "'w ApprovalManager \<Rightarrow> HistoryOpts \<Rightarrow> ApprovalRequest list" where
  "getHistory am opts =
     take (case ho_limit opts of None \<Rightarrow> 50 | Some n \<Rightarrow> n)
       (sql_select_desc
          (\<lambda>r. (case ho_action opts of None \<Rightarrow> True | Some a \<Rightarrow> ar_action_category r = a) \<and>
               (if js_truthy (ho_agentId opts) then ho_agentId opts = Some (ar_agent_id r) else True) \<and>
               (case ho_status opts of None \<Rightarrow> True | Some st \<Rightarrow> ar_status r = st))
          ar_created_at (am_rows am))"

definition expireOld :: "int \<Rightarrow> int \<Rightarrow> 'w ApprovalManager \<Rightarrow> nat \<times> 'w ApprovalManager" where
  "expireOld maxAgeMs now am =
     (let cutoff = now - maxAgeMs;
          result = sql_update (\<lambda>r. ar_status r = pending \<and> ar_created_at r < cutoff)
            (\<lambda>r. r\<lparr>ar_status := expired\<rparr>) (am_rows am);
          am' = withRows am result
      in (snd result,
          am'\<lparr>am_uiExecutions :=
            filter (\<lambda>(i, b). map_option ar_status (getRequest am' i) \<noteq> Some expired) (am_uiExecutions am')\<rparr>))"

text \<open>
  One turn of the polling loop sees the row, the abort signal and the clock.  The loop runs over the
  observations of its turns; \<open>None\<close> means it is still waiting when they end.
\<close>

record PollObservation =
  po_row :: "ApprovalRequest option"
  po_aborted :: bool
  po_now :: int

fun waitForResolution ::
    "string \<Rightarrow> int \<Rightarrow> int \<Rightarrow> PollObservation list \<Rightarrow> (ApprovalError + ApprovalRequest) option" where
  "waitForResolution requestId timeoutMs start [] = None"
| "waitForResolution requestId timeoutMs start (ob # obs) =
     (case po_row ob of
        None \<Rightarrow> Some (Inl (RequestNotFound requestId))
      | Some current \<Rightarrow>
          if ar_status current \<noteq> pending then Some (Inr current)
          else if po_aborted ob then Some (Inr current)
          else if po_now ob - start \<ge> timeoutMs then Some (Inr current)
          else waitForResolution requestId timeoutMs start obs)"

end
