(* ===== verification/Approval_Lifecycle.thy ===== *)
theory Approval_Lifecycle
  imports Approval
begin

text \<open>
  The life cycle of approval requests.  \<open>applyOp\<close> runs one operation of the manager; \<open>rowStep\<close> is the
  abstract view, what that operation does to one row, and \<open>applyOp_rows\<close> shows that the table
  operations are exactly this row transition applied to every row.  The invariants, the status graph
  and the single claim are then facts about one row.
\<close>

section \<open>Operations as steps\<close>

datatype ApprovalOp =
    OpCreate string int CreateParams
  | OpApprove string string int
  | OpDeny string string int
  | OpDemote string
  | OpDemoteAll
  | OpClaim string string int
  | OpReceipt string string ApprovalReceiptOutcome int
  | OpReconcile
  | OpClose string string "string option" int
  | OpExpire int int
  | OpRestart string

fun applyOp :: "'w Registries \<Rightarrow> 'w \<Rightarrow> ApprovalOp \<Rightarrow> 'w ApprovalManager \<Rightarrow> 'w ApprovalManager" where
  "applyOp regs w (OpCreate i now params) am =
     (case createRequest regs w i now params am of Inl e \<Rightarrow> am | Inr (r, am') \<Rightarrow> am')"
| "applyOp regs w (OpApprove i by now) am = snd (approve i by now am)"
| "applyOp regs w (OpDeny i by now) am = snd (deny i by now am)"
| "applyOp regs w (OpDemote i) am = snd (demoteToDeferred i am)"
| "applyOp regs w OpDemoteAll am = snd (demoteAllPendingInline am)"
| "applyOp regs w (OpClaim i by now) am = snd (claimExecution i by now am)"
| "applyOp regs w (OpReceipt i res out now) am = snd (markExecuted i res out now am)"
| "applyOp regs w OpReconcile am = snd (reconcileAfterRestart am)"
| "applyOp regs w (OpClose i by note now) am = snd (closeUnresolved i by note now am)"
| "applyOp regs w (OpExpire age now) am = snd (expireOld age now am)"
| "applyOp regs w (OpRestart boot) am = am\<lparr>am_bootId := boot, am_uiExecutions := []\<rparr>"

text \<open>What one operation does to one row; \<open>boot\<close> is the process it runs in.\<close>

fun rowStep :: "string \<Rightarrow> ApprovalOp \<Rightarrow> ApprovalRequest \<Rightarrow> ApprovalRequest" where
  "rowStep boot (OpCreate i now params) r = r"
| "rowStep boot (OpApprove i by now) r =
     (if ar_id r = i \<and> ar_status r = pending
      then r\<lparr>ar_status := approved, ar_decided_at := Some now, ar_decided_by := Some by\<rparr> else r)"
| "rowStep boot (OpDeny i by now) r =
     (if ar_id r = i \<and> ar_status r = pending
      then r\<lparr>ar_status := denied, ar_decided_at := Some now, ar_decided_by := Some by\<rparr> else r)"
| "rowStep boot (OpDemote i) r =
     (if ar_id r = i \<and> ar_status r = pending \<and> ar_execution_mode r = inline
      then r\<lparr>ar_execution_mode := deferred\<rparr> else r)"
| "rowStep boot OpDemoteAll r =
     (if ar_status r = pending \<and> ar_execution_mode r = inline then r\<lparr>ar_execution_mode := deferred\<rparr> else r)"
| "rowStep boot (OpClaim i by now) r =
     (if ar_id r = i \<and> claimable r
      then r\<lparr>ar_claimed_at := Some now, ar_claimed_by := Some by, ar_boot_id := Some boot, ar_outcome := None\<rparr>
      else r)"
| "rowStep boot (OpReceipt i res out now) r =
     (if ar_id r = i \<and> ar_status r = approved
      then r\<lparr>ar_status := executed, ar_executed_at := Some now, ar_execution_result := Some res,
             ar_outcome := Some (Receipt out)\<rparr> else r)"
| "rowStep boot OpReconcile r =
     (if ar_status r = pending \<and> ar_execution_mode r = inline then r\<lparr>ar_execution_mode := deferred\<rparr>
      else if interruptedRow boot r then r\<lparr>ar_outcome := Some unknown\<rparr>
      else if notStartedRow r then r\<lparr>ar_outcome := Some not_started\<rparr> else r)"
| "rowStep boot (OpClose i by note now) r =
     (if ar_id r = i \<and> unresolvedRow r
      then r\<lparr>ar_outcome := Some closed, ar_resolved_at := Some now, ar_resolved_by := Some by,
             ar_resolution_note := note\<rparr> else r)"
| "rowStep boot (OpExpire age now) r =
     (if ar_status r = pending \<and> ar_created_at r < now - age then r\<lparr>ar_status := expired\<rparr> else r)"
| "rowStep boot (OpRestart b) r = r"

fun createdRows :: "ApprovalOp \<Rightarrow> 'w ApprovalManager \<Rightarrow> ApprovalRequest list" where
  "createdRows (OpCreate i now params) am =
     (if i \<in> set (map ar_id (am_rows am)) then [] else [newRequest i now params])"
| "createdRows _ am = []"

section \<open>The table refines the row\<close>

lemmas approval_op_defs =
  approve_def deny_def demoteToDeferred_def demoteAllPendingInline_def claimExecution_def
  markExecuted_def closeUnresolved_def expireOld_def withRows_def dropUi_def

lemma rowStep_id [simp]: "ar_id (rowStep boot op r) = ar_id r"
  by (cases op) auto

lemma applyOp_rows:
  "am_rows (applyOp regs w op am) = map (rowStep (am_bootId am) op) (am_rows am) @ createdRows op am"
proof (cases op)
  case (OpCreate i now params)
  then have "map (rowStep b op) rows = rows" for b rows
    by (simp add: map_idI)
  with OpCreate show ?thesis
    by (auto simp: createRequest_def Let_def)
next
  case (OpRestart b)
  then show ?thesis by (simp add: map_idI)
next
  case OpReconcile
  have "map (\<lambda>r. if notStartedRow r then r\<lparr>ar_outcome := Some not_started\<rparr> else r)
     (map (\<lambda>r. if interruptedRow b r then r\<lparr>ar_outcome := Some unknown\<rparr> else r)
       (map (\<lambda>r. if ar_status r = pending \<and> ar_execution_mode r = inline
                 then r\<lparr>ar_execution_mode := deferred\<rparr> else r) rows)) =
      map (rowStep b OpReconcile) rows" for b rows
    by (auto simp: interruptedRow_def notStartedRow_def)
  with OpReconcile show ?thesis
    by (simp add: reconcileAfterRestart_def demoteAllPendingInline_def withRows_def sql_update_def Let_def
        del: map_map)
qed (auto simp: approval_op_defs sql_update_def Let_def)

lemma applyOp_bootId:
  "am_bootId (applyOp regs w op am) = (case op of OpRestart b \<Rightarrow> b | _ \<Rightarrow> am_bootId am)"
  by (cases op) (auto simp: approval_op_defs createRequest_def reconcileAfterRestart_def Let_def
      split: sum.split)

text \<open>The primary key.\<close>

definition ids_unique :: "'w ApprovalManager \<Rightarrow> bool" where
  "ids_unique am = distinct (map ar_id (am_rows am))"

lemma map_ids_rowStep [simp]: "map (ar_id \<circ> rowStep boot op) rows = map ar_id rows"
  by simp

lemma ids_unique_applyOp: "ids_unique am \<Longrightarrow> ids_unique (applyOp regs w op am)"
proof -
  assume uniq: "ids_unique am"
  have "distinct (map ar_id (am_rows am) @ map ar_id (createdRows op am))"
    using uniq by (cases op) (auto simp: ids_unique_def newRequest_def)
  then show ?thesis
    by (simp add: ids_unique_def applyOp_rows)
qed

lemma getRequest_applyOp:
  "getRequest am i = Some r \<Longrightarrow> getRequest (applyOp regs w op am) i = Some (rowStep (am_bootId am) op r)"
proof -
  assume "getRequest am i = Some r"
  moreover have "List.find (\<lambda>r. ar_id r = i) (map (rowStep b op) rows) =
      map_option (rowStep b op) (List.find (\<lambda>r. ar_id r = i) rows)" for b rows
    by (rule find_map_same) simp
  ultimately show ?thesis
    by (simp add: getRequest_def sql_get_def applyOp_rows find_append_Some)
qed

section \<open>The invariant of a row\<close>

definition row_ok :: "ApprovalRequest \<Rightarrow> bool" where
  "row_ok r =
     ((ar_status r \<notin> {pending, denied, expired} \<or>
         ar_claimed_at r = None \<and> ar_outcome r = None \<and> ar_executed_at r = None) \<and>
      (ar_status r \<notin> {approved, denied, executed} \<or> ar_decided_at r \<noteq> None) \<and>
      (ar_status r \<notin> {pending, expired} \<or> ar_decided_at r = None) \<and>
      (ar_status r \<noteq> approved \<or> ar_outcome r \<in> {None, Some not_started, Some unknown, Some closed}) \<and>
      (ar_status r \<noteq> executed \<or> ar_executed_at r \<noteq> None \<and> (\<exists>out. ar_outcome r = Some (Receipt out))) \<and>
      (ar_outcome r \<noteq> Some not_started \<or> ar_claimed_at r = None) \<and>
      (ar_outcome r \<noteq> Some unknown \<or> ar_claimed_at r \<noteq> None))"

lemma row_ok_new: "row_ok (newRequest i now params)"
  by (simp add: row_ok_def newRequest_def)

lemma row_ok_step: "row_ok r \<Longrightarrow> row_ok (rowStep boot op r)"
  by (cases op)
    (auto simp: row_ok_def claimable_def interruptedRow_def notStartedRow_def unresolvedRow_def)

inductive approval_step :: "'w ApprovalManager \<Rightarrow> 'w ApprovalManager \<Rightarrow> bool" where
  step: "approval_step am (applyOp regs w op am)"

inductive approval_reachable :: "'w ApprovalManager \<Rightarrow> bool" where
  fresh: "approval_reachable \<lparr> am_bootId = boot, am_rows = [], am_uiExecutions = [] \<rparr>"
| more: "approval_reachable am \<Longrightarrow> approval_step am am' \<Longrightarrow> approval_reachable am'"

inductive_cases approval_stepE: "approval_step am am'"

lemma approval_reachable_applyOp: "approval_reachable am \<Longrightarrow> approval_reachable (applyOp regs w op am)"
  by (erule approval_reachable.more) (rule approval_step.step)

definition approval_inv :: "'w ApprovalManager \<Rightarrow> bool" where
  "approval_inv am = (ids_unique am \<and> list_all row_ok (am_rows am))"

lemma approval_inv_applyOp: "approval_inv am \<Longrightarrow> approval_inv (applyOp regs w op am)"
proof -
  assume inv: "approval_inv am"
  have "list_all row_ok (createdRows op am)"
    by (cases op) (simp_all add: row_ok_new)
  with inv show ?thesis
    by (auto simp: approval_inv_def ids_unique_applyOp applyOp_rows list_all_iff intro: row_ok_step)
qed

lemma approval_reachable_inv: "approval_reachable am \<Longrightarrow> approval_inv am"
proof (induction rule: approval_reachable.induct)
  case (fresh boot)
  show ?case by (simp add: approval_inv_def ids_unique_def)
next
  case (more am am')
  from more.hyps(2) more.IH show ?case by (auto elim!: approval_stepE intro: approval_inv_applyOp)
qed

lemma approval_reachable_rows: "approval_reachable am \<Longrightarrow> r \<in> set (am_rows am) \<Longrightarrow> row_ok r"
  using approval_reachable_inv by (auto simp: approval_inv_def list_all_iff)

lemma approval_reachable_unique: "approval_reachable am \<Longrightarrow> ids_unique am"
  using approval_reachable_inv by (auto simp: approval_inv_def)

text \<open>C11: in every reachable state, across crashes and restarts, request ids are unique and every row
  is consistent: a request that was not approved has no claim, no receipt and no outcome; an approved
  one has a decision and at most a reconciliation outcome; an executed one carries its receipt; a
  \<open>not_started\<close> row was never claimed and an \<open>unknown\<close> row was.\<close>

theorem approval_invariant:
  assumes "approval_reachable am"
  shows "ids_unique am \<and> (\<forall>r \<in> set (am_rows am). row_ok r)"
  using approval_reachable_inv [OF assms] by (simp add: approval_inv_def list_all_iff)

definition example_create :: CreateParams where
  "example_create =
     \<lparr> crp_agentId = ''a1'', crp_agentName = ''Jarvis'', crp_toolName = ''run_command'',
       crp_toolArguments = JObj [(''command'', JStr ''ls'')], crp_actionCategory = execute_command,
       crp_urgency = normal_urgency, crp_reason = ''r'', crp_context = ''c'', crp_executionMode = None,
       crp_toolRegistry = None \<rparr>"

definition example_manager :: "nat ApprovalManager" where
  "example_manager =
     applyOp (\<lambda>_. []) 0 (OpApprove ''q1'' ''user'' 20)
       (applyOp (\<lambda>_. []) 0 (OpCreate ''q1'' 10 example_create)
         \<lparr> am_bootId = ''b1'', am_rows = [], am_uiExecutions = [] \<rparr>)"

lemma example_manager_rows:
  "am_rows example_manager =
     [(newRequest ''q1'' 10 example_create)\<lparr>ar_status := approved, ar_decided_at := Some 20,
        ar_decided_by := Some ''user''\<rparr>]"
  by (simp add: example_manager_def applyOp_rows newRequest_def del: applyOp.simps)

lemma example_manager_reachable: "approval_reachable example_manager"
  unfolding example_manager_def by (intro approval_reachable_applyOp approval_reachable.fresh)

theorem approval_invariant_witness:
  "ids_unique example_manager \<and> row_ok (hd (am_rows example_manager)) \<and>
   map ar_status (am_rows example_manager) = [approved]"
  using approval_invariant [OF example_manager_reachable] by (simp add: example_manager_rows)


section \<open>One transition that can win once\<close>

text \<open>An operation together with the world it runs in.\<close>

type_synonym 'w WorldOp = "'w Registries \<times> 'w \<times> ApprovalOp"

fun runOp :: "'w WorldOp \<Rightarrow> 'w ApprovalManager \<Rightarrow> 'w ApprovalManager" where
  "runOp (regs, w, op) am = applyOp regs w op am"

text \<open>The attempt to claim \<open>i\<close> that returned true.\<close>

fun claimWins :: "string \<Rightarrow> 'w WorldOp \<Rightarrow> 'w ApprovalManager \<Rightarrow> bool" where
  "claimWins i (regs, w, op) am =
     (case op of OpClaim j by now \<Rightarrow> j = i \<and> fst (claimExecution j by now am) | _ \<Rightarrow> False)"

definition claimSpent :: "string \<Rightarrow> 'w ApprovalManager \<Rightarrow> bool" where
  "claimSpent i am = (\<exists>r. getRequest am i = Some r \<and> ar_claimed_at r \<noteq> None)"

lemma claimExecution_wins:
  assumes "ids_unique am"
  shows "fst (claimExecution i by now am) \<longleftrightarrow> (\<exists>r. getRequest am i = Some r \<and> claimable r)"
  using sql_update_keyed [of ar_id "am_rows am" i claimable] assms
  by (simp add: claimExecution_def getRequest_def ids_unique_def Let_def)

lemma rowStep_keeps_claim: "ar_claimed_at r \<noteq> None \<Longrightarrow> ar_claimed_at (rowStep boot op r) \<noteq> None"
  by (cases op) auto

interpretation claim: one_shot runOp "claimWins i" "claimSpent i" ids_unique for i
proof unfold_locales
  fix am :: "'w ApprovalManager" and x :: "'w WorldOp"
  obtain regs w op where x: "x = (regs, w, op)" by (cases x)
  assume uniq: "ids_unique am"
  show "ids_unique (runOp x am)"
    using uniq by (simp add: x ids_unique_applyOp del: applyOp.simps)
  show "claimSpent i (runOp x am)" if "claimSpent i am"
    using that getRequest_applyOp [of am i _ regs w op] rowStep_keeps_claim
    by (fastforce simp: x claimSpent_def simp del: applyOp.simps)
  show "\<not> claimWins i x am" if "claimSpent i am"
    using that uniq by (cases op) (auto simp: x claimSpent_def claimExecution_wins claimable_def)
  show "claimSpent i (runOp x am)" if wins: "claimWins i x am"
  proof -
    from wins obtain by' now where op: "op = OpClaim i by' now"
      and "fst (claimExecution i by' now am)" by (cases op) (auto simp: x)
    then obtain r where r: "getRequest am i = Some r" "claimable r"
      using claimExecution_wins [OF uniq] by blast
    then have "ar_id r = i" by (auto simp: getRequest_def dest: sql_get_key)
    with getRequest_applyOp [OF r(1), of regs w op] r(2) op show ?thesis
      by (simp add: x claimSpent_def del: applyOp.simps)
  qed
qed

text \<open>C3: at most one executor wins a request, ever.  Along any sequence of operations from a
  reachable state (repeated claims, decisions, receipts, restarts and reconciliations in any order), at
  most one claim of a given request returns true, and a claim of a request that already carries one
  never does.\<close>

theorem at_most_one_claim:
  assumes "approval_reachable am"
  shows "win_count runOp (claimWins i) ops am \<le> 1 \<and>
    (claimSpent i am \<longrightarrow> win_count runOp (claimWins i) ops am = 0)"
  using claim.count_le_1 claim.spent_count approval_reachable_unique [OF assms] by blast

theorem at_most_one_claim_witness:
  "win_count runOp (claimWins ''q1'')
     [((\<lambda>_. []), 0, OpClaim ''q1'' ''chat'' 30), ((\<lambda>_. []), 0, OpRestart ''b2''),
      ((\<lambda>_. []), 0, OpReconcile), ((\<lambda>_. []), 0, OpClaim ''q1'' ''tg'' 40)] example_manager \<le> 1 \<and>
   claimWins ''q1'' ((\<lambda>_. []), 0, OpClaim ''q1'' ''chat'' 30) example_manager"
proof
  show "claimWins ''q1'' ((\<lambda>_. []), 0, OpClaim ''q1'' ''chat'' 30) example_manager"
    by (simp add: claimExecution_def example_manager_rows sql_update_def claimable_def newRequest_def Let_def)
qed (use at_most_one_claim [OF example_manager_reachable] in blast)


section \<open>The status graph\<close>

definition status_edges :: "(ApprovalStatus \<times> ApprovalStatus) set" where
  "status_edges = {(pending, approved), (pending, denied), (pending, expired), (approved, executed)}"

text \<open>What was reviewed: the fields no operation may touch.\<close>

definition reviewed :: "ApprovalRequest \<Rightarrow> string \<times> string \<times> string \<times> string \<times> ActionCategory \<times> string \<times> int" where
  "reviewed r = (ar_id r, ar_agent_id r, ar_tool_name r, ar_tool_arguments r, ar_action_category r,
     ar_context r, ar_created_at r)"

lemma rowStep_status: "ar_status (rowStep boot op r) = ar_status r \<or>
    (ar_status r, ar_status (rowStep boot op r)) \<in> status_edges"
  by (cases op) (auto simp: status_edges_def)

lemma rowStep_reviewed: "reviewed (rowStep boot op r) = reviewed r"
  by (cases op) (auto simp: reviewed_def)

text \<open>A run of operations.\<close>

definition runOps :: "'w WorldOp list \<Rightarrow> 'w ApprovalManager \<Rightarrow> 'w ApprovalManager" where
  "runOps ops am = fold runOp ops am"

lemma runOps_row:
  "getRequest am i = Some r \<Longrightarrow> \<exists>r'. getRequest (runOps ops am) i = Some r' \<and> reviewed r' = reviewed r \<and>
     (ar_status r, ar_status r') \<in> status_edges\<^sup>*"
proof (induction ops arbitrary: am r)
  case (Cons x ops)
  obtain regs w op where x: "x = (regs, w, op)" by (cases x)
  let ?r = "rowStep (am_bootId am) op r"
  from Cons.IH [OF getRequest_applyOp [OF Cons.prems, of regs w op]] obtain r' where
    r': "getRequest (runOps ops (applyOp regs w op am)) i = Some r'" "reviewed r' = reviewed ?r"
      "(ar_status ?r, ar_status r') \<in> status_edges\<^sup>*" by blast
  moreover have "(ar_status r, ar_status ?r) \<in> status_edges\<^sup>*"
    using rowStep_status [of "am_bootId am" op r] by auto
  ultimately show ?case
    by (auto simp: runOps_def x rowStep_reviewed simp del: applyOp.simps dest: rtrancl_trans)
qed (auto simp: runOps_def)

lemma runOps_Nil [simp]: "runOps [] am = am"
  by (simp add: runOps_def)

lemma runOps_Cons [simp]: "runOps (x # xs) am = runOps xs (runOp x am)"
  by (simp add: runOps_def)

lemma runOps_append: "runOps (xs @ ys) am = runOps ys (runOps xs am)"
  by (simp add: runOps_def)

text \<open>Only an approval approves.\<close>

definition approves :: "string \<Rightarrow> 'w WorldOp \<Rightarrow> bool" where
  "approves i x = (case snd (snd x) of OpApprove j who now \<Rightarrow> j = i | _ \<Rightarrow> False)"

lemma rowStep_unapproved:
  "ar_status r \<in> {pending, denied, expired} \<Longrightarrow> ar_status (rowStep boot op r) \<notin> {pending, denied, expired} \<Longrightarrow>
     (\<exists>who now. op = OpApprove (ar_id r) who now)"
  by (cases op) (auto simp: claimable_def interruptedRow_def notStartedRow_def unresolvedRow_def split: if_splits)

lemma runOps_unapproved:
  "getRequest am i = Some r \<Longrightarrow> ar_status r \<in> {pending, denied, expired} \<Longrightarrow>
   \<forall>x \<in> set ops. \<not> approves i x \<Longrightarrow>
   \<exists>r'. getRequest (runOps ops am) i = Some r' \<and> ar_status r' \<in> {pending, denied, expired}"
proof (induction ops arbitrary: am r)
  case (Cons x ops)
  obtain regs w op where x: "x = (regs, w, op)" by (cases x)
  from Cons.prems(1) have "ar_id r = i" by (auto simp: getRequest_def dest: sql_get_key)
  with Cons.prems(3) have "\<nexists>who now. op = OpApprove (ar_id r) who now"
    by (auto simp: x approves_def)
  with rowStep_unapproved [OF Cons.prems(2), of "am_bootId am" op]
  have "ar_status (rowStep (am_bootId am) op r) \<in> {pending, denied, expired}" by blast
  with Cons.IH [OF getRequest_applyOp [OF Cons.prems(1), of regs w op]] Cons.prems(3) show ?case
    by (simp add: x del: applyOp.simps)
qed auto

text \<open>Following the edges: nothing leaves a final status, and only an approved request is executed.\<close>

definition status_after :: "ApprovalStatus \<Rightarrow> ApprovalStatus set" where
  "status_after st = (case st of pending \<Rightarrow> UNIV | approved \<Rightarrow> {approved, executed} | _ \<Rightarrow> {st})"

lemma status_edges_after: "(a, b) \<in> status_edges\<^sup>* \<Longrightarrow> b \<in> status_after a"
  by (induction rule: rtrancl_induct)
    (auto simp: status_edges_def status_after_def split: ApprovalStatus.splits)

text \<open>C14: a request never changes what was reviewed and its status only moves forward.  Over any run of
  operations the row stays, with the same agent, tool, arguments, category and context; a denied,
  expired or executed request stays so, and an approved one can only become executed.\<close>

theorem approval_status_monotone:
  assumes "getRequest am i = Some r"
  shows "\<exists>r'. getRequest (runOps ops am) i = Some r' \<and> reviewed r' = reviewed r \<and>
    ar_status r' \<in> status_after (ar_status r)"
  using runOps_row [OF assms, of ops] status_edges_after by blast

theorem approval_status_monotone_witness:
  "\<exists>r'. getRequest (runOps [((\<lambda>_. []), 0, OpDeny ''q1'' ''user'' 30)] example_manager) ''q1'' = Some r' \<and>
     reviewed r' = reviewed (hd (am_rows example_manager)) \<and> ar_status r' \<in> {approved, executed}"
proof -
  have "getRequest example_manager ''q1'' = Some (hd (am_rows example_manager))"
    by (simp add: getRequest_def sql_get_def example_manager_rows newRequest_def)
  from approval_status_monotone [OF this, of "[((\<lambda>_. []), 0, OpDeny ''q1'' ''user'' 30)]"] show ?thesis
    by (simp add: example_manager_rows status_after_def)
qed

section \<open>Restart\<close>

lemma reconcile_row:
  "getRequest (snd (reconcileAfterRestart am)) i =
     map_option (rowStep (am_bootId am) OpReconcile) (getRequest am i)"
proof -
  have "List.find (\<lambda>r. ar_id r = i) (map (rowStep b op) rows) =
      map_option (rowStep b op) (List.find (\<lambda>r. ar_id r = i) rows)" for b op rows
    by (rule find_map_same) simp
  with applyOp_rows [of undefined undefined OpReconcile am] show ?thesis
    by (simp add: getRequest_def sql_get_def)
qed

lemma reconcile_report:
  "fst (reconcileAfterRestart am) =
     \<lparr> demotedInline = length (filter (\<lambda>r. ar_status r = pending \<and> ar_execution_mode r = inline) (am_rows am)),
       notStarted = length (filter notStartedRow (am_rows am)),
       interrupted = length (filter (interruptedRow (am_bootId am)) (am_rows am)) \<rparr>"
proof -
  let ?f = "\<lambda>r. if ar_status r = pending \<and> ar_execution_mode r = inline then r\<lparr>ar_execution_mode := deferred\<rparr> else r"
  let ?g = "\<lambda>b r. if interruptedRow b r then r\<lparr>ar_outcome := Some unknown\<rparr> else r"
  have f: "interruptedRow b \<circ> ?f = interruptedRow b" for b
    by (rule ext) (simp add: interruptedRow_def)
  have f': "notStartedRow \<circ> ?f = notStartedRow"
    by (rule ext) (simp add: notStartedRow_def)
  have g: "notStartedRow \<circ> ?g b = notStartedRow" for b
    by (rule ext) (simp add: interruptedRow_def notStartedRow_def)
  show ?thesis
    by (simp add: reconcileAfterRestart_def demoteAllPendingInline_def withRows_def sql_update_def Let_def
        filter_map f f' g del: map_map)
qed

lemma reconcile_rows:
  "am_rows (snd (reconcileAfterRestart am)) = map (rowStep (am_bootId am) OpReconcile) (am_rows am)"
  using applyOp_rows [of undefined undefined OpReconcile am] by simp

lemma reconcile_bootId [simp]: "am_bootId (snd (reconcileAfterRestart am)) = am_bootId am"
  using applyOp_bootId [of undefined undefined OpReconcile am] by simp

lemma rowStep_reconcile_settles:
  "\<not> interruptedRow b (rowStep b OpReconcile r)" "\<not> notStartedRow (rowStep b OpReconcile r)"
  "\<not> (ar_status (rowStep b OpReconcile r) = pending \<and> ar_execution_mode (rowStep b OpReconcile r) = inline)"
  by (auto simp: interruptedRow_def notStartedRow_def)

lemma filter_empty_map: "(\<And>x. \<not> p (f x)) \<Longrightarrow> filter p (map f xs) = []"
  by (simp add: filter_empty_conv)

text \<open>What reconciliation makes of an approved request, by who claimed it.\<close>

definition reconciledOutcome :: "string \<Rightarrow> ApprovalRequest \<Rightarrow> ApprovalExecutionOutcome option" where
  "reconciledOutcome boot r =
     (if ar_status r \<noteq> approved \<or> ar_outcome r \<noteq> None \<or> ar_execution_mode r = workflow then ar_outcome r
      else if ar_claimed_at r = None then Some not_started
      else if ar_boot_id r = Some boot then None else Some unknown)"

text \<open>C17: a restart never runs an interrupted execution twice.  After reconciliation an approved request
  that nobody claimed is \<open>not_started\<close> and can be claimed, one claimed by another process is \<open>unknown\<close>
  and cannot, one claimed by this process or owned by a workflow is as before; a pending inline request
  has become deferred.  A second reconciliation finds nothing.\<close>

theorem reconcile_after_restart:
  assumes "getRequest am i = Some r"
  shows "\<exists>r'. getRequest (snd (reconcileAfterRestart am)) i = Some r' \<and>
      ar_outcome r' = reconciledOutcome (am_bootId am) r \<and> claimable r' = claimable r \<and>
      ar_claimed_at r' = ar_claimed_at r \<and> ar_status r' = ar_status r \<and>
      ar_execution_mode r' = (if ar_status r = pending \<and> ar_execution_mode r = inline then deferred
                              else ar_execution_mode r) \<and>
      fst (reconcileAfterRestart (snd (reconcileAfterRestart am))) =
        \<lparr> demotedInline = 0, notStarted = 0, interrupted = 0 \<rparr>"
proof -
  have "fst (reconcileAfterRestart (snd (reconcileAfterRestart am))) =
      \<lparr> demotedInline = 0, notStarted = 0, interrupted = 0 \<rparr>"
    unfolding reconcile_report reconcile_rows reconcile_bootId
    by (simp add: filter_empty_map rowStep_reconcile_settles del: rowStep.simps)
  then show ?thesis
    by (simp add: reconcile_row assms)
      (auto simp: reconciledOutcome_def interruptedRow_def notStartedRow_def claimable_def)
qed

theorem reconcile_after_restart_witness:
  "\<exists>r'. getRequest (snd (reconcileAfterRestart example_manager)) ''q1'' = Some r' \<and>
     ar_outcome r' = Some not_started \<and> claimable r'"
proof -
  have "getRequest example_manager ''q1'' = Some (hd (am_rows example_manager))"
    by (simp add: getRequest_def sql_get_def example_manager_rows newRequest_def)
  from reconcile_after_restart [OF this] show ?thesis
    by (auto simp: example_manager_rows reconciledOutcome_def claimable_def newRequest_def example_create_def)
qed

section \<open>Waiting\<close>

lemma waiting_stops:
  "obs \<noteq> [] \<Longrightarrow> po_now (last obs) - start \<ge> timeoutMs \<Longrightarrow> waitForResolution i timeoutMs start obs \<noteq> None"
  by (induction obs) (auto split: option.splits if_splits)

lemma waiting_result:
  "waitForResolution i timeoutMs start obs = Some res \<Longrightarrow>
     \<exists>ob \<in> set obs. (po_row ob = None \<and> res = Inl (RequestNotFound i)) \<or>
       (\<exists>r. po_row ob = Some r \<and> res = Inr r \<and>
          (ar_status r \<noteq> pending \<or> po_aborted ob \<or> po_now ob - start \<ge> timeoutMs))"
  by (induction obs) (auto split: option.splits if_splits)

text \<open>waiting for a decision ends.  When the turns of the poll lie at least \<open>pollMs\<close> apart, the loop
  returns within \<open>timeoutMs / pollMs\<close> turns and one; and what it returns is the row of one of its turns, which was
  decided then, or the caller had aborted, or the time was up.\<close>

theorem waitForResolution_returns:
  assumes "\<forall>k < length obs. po_now (obs ! k) \<ge> start + int k * pollMs"
    and "obs \<noteq> []" and "int (length obs - 1) * pollMs \<ge> timeoutMs"
  shows "\<exists>res. waitForResolution i timeoutMs start obs = Some res \<and>
    (\<exists>ob \<in> set obs. (po_row ob = None \<and> res = Inl (RequestNotFound i)) \<or>
       (\<exists>r. po_row ob = Some r \<and> res = Inr r \<and>
          (ar_status r \<noteq> pending \<or> po_aborted ob \<or> po_now ob - start \<ge> timeoutMs)))"
proof -
  have "po_now (last obs) \<ge> start + int (length obs - 1) * pollMs"
    using assms(1,2) by (simp add: last_conv_nth)
  with assms(3) have "po_now (last obs) - start \<ge> timeoutMs" by linarith
  from waiting_stops [OF assms(2) this, of i] obtain res where
    "waitForResolution i timeoutMs start obs = Some res" by blast
  with waiting_result [OF this] show ?thesis by blast
qed

theorem waitForResolution_returns_witness:
  "waitForResolution ''q1'' 500 0
     [\<lparr>po_row = Some (newRequest ''q1'' 0 example_create), po_aborted = False, po_now = 0\<rparr>,
      \<lparr>po_row = Some (newRequest ''q1'' 0 example_create), po_aborted = False, po_now = 600\<rparr>] \<noteq> None"
  using waitForResolution_returns [where obs = "[\<lparr>po_row = Some (newRequest ''q1'' 0 example_create),
      po_aborted = False, po_now = 0\<rparr>, \<lparr>po_row = Some (newRequest ''q1'' 0 example_create),
      po_aborted = False, po_now = 600\<rparr>]" and start = 0 and pollMs = 500 and timeoutMs = 500 and i = "''q1''"]
  by (auto simp: less_Suc_eq nth_Cons split: nat.split)

section \<open>The click\<close>

text \<open>a gate's demand for an explicit click reaches the surfaces that decide.  Reading back the
  context a gate writes, the request needs a click exactly when the gate says \<open>confirm: always\<close> and has an
  intent to show, and the intent shown is the gate's, trimmed; without an intent neither is set.\<close>

theorem gate_context_roundtrip:
  "approvalNeedsClick (gateContext gate toolName params) =
      (js_truthy (rg_intent gate) \<and> rg_confirm gate = Some confirm_always) \<and>
    approvalIntentFromContext (gateContext gate toolName params) =
      (if js_truthy (rg_intent gate) \<and> js_trim (the (rg_intent gate)) \<noteq> []
       then Some (js_trim (the (rg_intent gate))) else None)"
proof (cases "js_truthy (rg_intent gate)")
  case False
  then have "\<not> js_startsWith (gateContext gate toolName params) ''{''"
    by (simp add: gateContext_def js_startsWith_def)
  with False show ?thesis
    by (simp add: approvalNeedsClick_def approvalIntentFromContext_def)
next
  case True
  define kvs where "kvs = (''intent'', JStr (the (rg_intent gate))) #
      (if rg_confirm gate = Some confirm_always then [(''confirm'', JStr ''always'')] else [])"
  have ctx: "gateContext gate toolName params = JSON_stringify (JObj kvs)"
    using True by (simp add: gateContext_def kvs_def)
  have "js_startsWith (JSON_stringify (JObj kvs)) ''{''" by (simp add: js_startsWith_def)
  moreover have "JSON_parse (JSON_stringify (JObj kvs)) = Some (JObj kvs)"
    by (rule JSON_parse_printed) (simp add: kvs_def)
  moreover have "json_get (JObj kvs) ''intent'' = Some (JStr (the (rg_intent gate)))"
    "json_get (JObj kvs) ''confirm'' =
       (if rg_confirm gate = Some confirm_always then Some (JStr ''always'') else None)"
    by (simp_all add: json_get_def kvs_def)
  ultimately show ?thesis
    using True by (simp add: ctx approvalNeedsClick_def approvalIntentFromContext_def del: JSON_stringify.simps)
qed

end
