(* ===== verification/Emergency.thy ===== *)
theory Emergency
  imports Authority_Engine
begin

text \<open>
  The pause and kill switch, \<^verbatim>\<open>src/authority/emergency.ts\<close>.  The state-change callback is
  the value each operation reports; \<open>None\<close> means it was not called.
\<close>

section \<open>Operations\<close>

definition pause :: "EmergencyState \<Rightarrow> EmergencyState option \<times> EmergencyState" where
  "pause st = (if st = killed then (None, st) else (Some paused, paused))"

definition resume :: "EmergencyState \<Rightarrow> EmergencyState option \<times> EmergencyState" where
  "resume st = (if st \<noteq> paused then (None, st) else (Some normal, normal))"

definition kill :: "EmergencyState \<Rightarrow> EmergencyState option \<times> EmergencyState" where
  "kill st = (Some killed, killed)"

definition reset :: "EmergencyState \<Rightarrow> EmergencyState option \<times> EmergencyState" where
  "reset st = (if st \<noteq> killed then (None, st) else (Some normal, normal))"

definition canExecute :: "EmergencyState \<Rightarrow> bool" where
  "canExecute st = (st = normal)"

text \<open>\<^verbatim>\<open>state.toUpperCase()\<close> and the state's name.\<close>

fun emergency_name :: "EmergencyState \<Rightarrow> string" where
  "emergency_name normal = ''normal''"
| "emergency_name paused = ''paused''"
| "emergency_name killed = ''killed''"

fun emergency_upper :: "EmergencyState \<Rightarrow> string" where
  "emergency_upper normal = ''NORMAL''"
| "emergency_upper paused = ''PAUSED''"
| "emergency_upper killed = ''KILLED''"

datatype EmergencyOp = OpPause | OpResume | OpKill | OpReset

fun emergencyStep :: "EmergencyOp \<Rightarrow> EmergencyState \<Rightarrow> EmergencyState option \<times> EmergencyState" where
  "emergencyStep OpPause st = pause st"
| "emergencyStep OpResume st = resume st"
| "emergencyStep OpKill st = kill st"
| "emergencyStep OpReset st = reset st"

text \<open>The state after a run of operations, and the states the callback saw.\<close>

fun emergencyRun :: "EmergencyOp list \<Rightarrow> EmergencyState \<Rightarrow> EmergencyState list \<times> EmergencyState" where
  "emergencyRun [] st = ([], st)"
| "emergencyRun (x # xs) st =
     (let (told, st') = emergencyStep x st; (told', st'') = emergencyRun xs st'
      in (case told of None \<Rightarrow> told' | Some t \<Rightarrow> t # told', st''))"

lemmas emergency_defs = pause_def resume_def kill_def reset_def canExecute_def

lemma emergency_killed_stays:
  "OpReset \<notin> set xs \<Longrightarrow> snd (emergencyRun xs killed) = killed"
  by (induction xs) (auto simp: emergency_defs split: prod.split, case_tac a, auto simp: emergency_defs)

lemma emergency_told_last:
  "(if fst (emergencyRun xs st) = [] then snd (emergencyRun xs st) = st
    else last (fst (emergencyRun xs st)) = snd (emergencyRun xs st))"
proof (induction xs arbitrary: st)
  case (Cons x xs)
  have "fst (emergencyStep x st) = None \<Longrightarrow> snd (emergencyStep x st) = st"
    "fst (emergencyStep x st) = Some t \<Longrightarrow> snd (emergencyStep x st) = t" for t
    by (cases x; auto simp: emergency_defs split: if_splits)+
  with Cons.IH [of "snd (emergencyStep x st)"] show ?case
    by (auto simp: Let_def split: prod.splits option.splits if_splits)
qed simp

text \<open>the kill switch holds.  Once killed, no run of pauses, resumes and kills lets a tool execute
  again: only an explicit reset does; and the observer of state changes always knows the current state.\<close>

theorem kill_needs_reset:
  "(canExecute (snd (emergencyRun xs (snd (kill st)))) \<longrightarrow> OpReset \<in> set xs) \<and>
   (if fst (emergencyRun xs st) = [] then snd (emergencyRun xs st) = st
    else last (fst (emergencyRun xs st)) = snd (emergencyRun xs st))"
proof
  show "canExecute (snd (emergencyRun xs (snd (kill st)))) \<longrightarrow> OpReset \<in> set xs"
    using emergency_killed_stays [of xs] by (cases "OpReset \<in> set xs") (simp_all add: kill_def canExecute_def)
qed (rule emergency_told_last)

theorem kill_needs_reset_witness:
  "\<not> canExecute (snd (emergencyRun [OpPause, OpResume] (snd (kill normal))))"
  using kill_needs_reset [of "[OpPause, OpResume]" normal] by auto

end
