(* ===== verification/Learning.thy ===== *)
theory Learning
  imports Authority_Engine
begin

text \<open>
  The approval learner, \<^verbatim>\<open>src/authority/learning.ts\<close>: a table of patterns with the number of
  consecutive approvals.  The lemmas refine the table to a count over the history of decisions.
\<close>

section \<open>Data and operations\<close>

record ApprovalPattern =
  ap_id :: string
  ap_action_category :: ActionCategory
  ap_tool_name :: string
  ap_consecutive_approvals :: int
  ap_last_approval_at :: "int option"
  ap_suggestion_sent :: bool

definition DEFAULT_SUGGEST_THRESHOLD :: int where
  "DEFAULT_SUGGEST_THRESHOLD = 5"

definition pattern_key :: "ApprovalPattern \<Rightarrow> ActionCategory \<times> string" where
  "pattern_key r = (ap_action_category r, ap_tool_name r)"

definition recordDecision ::
    "string \<Rightarrow> int \<Rightarrow> ActionCategory \<Rightarrow> string \<Rightarrow> bool \<Rightarrow> ApprovalPattern list \<Rightarrow> ApprovalPattern list" where
  "recordDecision newId now act toolName isApproved rows =
     (if isApproved then
        (let result = sql_update (\<lambda>r. pattern_key r = (act, toolName))
               (\<lambda>r. r\<lparr>ap_consecutive_approvals := ap_consecutive_approvals r + 1,
                      ap_last_approval_at := Some now\<rparr>) rows
         in if snd result = 0 then
              fst result @ [\<lparr> ap_id = newId, ap_action_category = act, ap_tool_name = toolName,
                             ap_consecutive_approvals = 1, ap_last_approval_at = Some now,
                             ap_suggestion_sent = False \<rparr>]
            else fst result)
      else fst (sql_update (\<lambda>r. pattern_key r = (act, toolName))
             (\<lambda>r. r\<lparr>ap_consecutive_approvals := 0, ap_suggestion_sent := False\<rparr>) rows))"

record LearnerSuggestion =
  sg_actionCategory :: ActionCategory
  sg_toolName :: string
  sg_consecutiveApprovals :: int
  sg_suggestedRule :: PerActionOverride

definition suggestionOf :: "ApprovalPattern \<Rightarrow> LearnerSuggestion" where
  "suggestionOf row =
     \<lparr> sg_actionCategory = ap_action_category row, sg_toolName = ap_tool_name row,
       sg_consecutiveApprovals = ap_consecutive_approvals row,
       sg_suggestedRule = \<lparr> ov_action = ap_action_category row, ov_role_id = None,
                            ov_allowed = True, ov_requires_approval = False \<rparr> \<rparr>"

definition getSuggestions :: "int \<Rightarrow> ApprovalPattern list \<Rightarrow> LearnerSuggestion list" where
  "getSuggestions threshold rows =
     map suggestionOf
       (sql_select_desc (\<lambda>r. ap_consecutive_approvals r \<ge> threshold \<and> \<not> ap_suggestion_sent r)
          ap_consecutive_approvals rows)"

definition markSuggestionSent :: "ActionCategory \<Rightarrow> string \<Rightarrow> ApprovalPattern list \<Rightarrow> ApprovalPattern list" where
  "markSuggestionSent act toolName rows =
     fst (sql_update (\<lambda>r. pattern_key r = (act, toolName))
       (\<lambda>r. r\<lparr>ap_suggestion_sent := True\<rparr>) rows)"

definition resetPattern :: "ActionCategory \<Rightarrow> string \<Rightarrow> ApprovalPattern list \<Rightarrow> ApprovalPattern list" where
  "resetPattern act toolName rows =
     fst (sql_update (\<lambda>r. pattern_key r = (act, toolName))
       (\<lambda>r. r\<lparr>ap_consecutive_approvals := 0, ap_suggestion_sent := False\<rparr>) rows)"

section \<open>The history\<close>

datatype LearnOp =
    Decide string int ActionCategory string bool
  | SentOp ActionCategory string
  | ResetOp ActionCategory string

fun learnStep :: "LearnOp \<Rightarrow> ApprovalPattern list \<Rightarrow> ApprovalPattern list" where
  "learnStep (Decide i now c t ok) rows = recordDecision i now c t ok rows"
| "learnStep (SentOp c t) rows = markSuggestionSent c t rows"
| "learnStep (ResetOp c t) rows = resetPattern c t rows"

text \<open>
  What the history says about one pattern: nothing yet, or the approvals since the last denial or
  reset and whether the suggestion went out since then.
\<close>

fun learnSpec :: "ActionCategory \<times> string \<Rightarrow> LearnOp \<Rightarrow> (int \<times> bool) option \<Rightarrow> (int \<times> bool) option" where
  "learnSpec k (Decide i now c t ok) v =
     (if (c, t) \<noteq> k then v
      else if ok then (case v of None \<Rightarrow> Some (1, False) | Some (n, sent) \<Rightarrow> Some (n + 1, sent))
      else map_option (\<lambda>_. (0, False)) v)"
| "learnSpec k (SentOp c t) v = (if (c, t) \<noteq> k then v else map_option (\<lambda>(n, sent). (n, True)) v)"
| "learnSpec k (ResetOp c t) v = (if (c, t) \<noteq> k then v else map_option (\<lambda>_. (0, False)) v)"

definition learnAbs :: "ApprovalPattern list \<Rightarrow> ActionCategory \<times> string \<Rightarrow> (int \<times> bool) option" where
  "learnAbs rows k =
     map_option (\<lambda>r. (ap_consecutive_approvals r, ap_suggestion_sent r)) (sql_get pattern_key k rows)"

definition learn_ok :: "ApprovalPattern list \<Rightarrow> bool" where
  "learn_ok rows = distinct (map pattern_key rows)"

lemma pattern_key_update [simp]:
  "pattern_key (r\<lparr>ap_consecutive_approvals := n\<rparr>) = pattern_key r"
  "pattern_key (r\<lparr>ap_last_approval_at := x\<rparr>) = pattern_key r"
  "pattern_key (r\<lparr>ap_suggestion_sent := b\<rparr>) = pattern_key r"
  by (simp_all add: pattern_key_def)

lemma learn_ok_step: "learn_ok rows \<Longrightarrow> learn_ok (learnStep op rows)"
proof (cases op)
  case (Decide i now c t ok)
  assume "learn_ok rows"
  then show ?thesis
    using sql_update_no_key [of pattern_key "(c, t)" _ rows]
    by (simp add: Decide learn_ok_def recordDecision_def Let_def) (simp add: pattern_key_def)
qed (auto simp: learn_ok_def markSuggestionSent_def resetPattern_def)

lemma learnAbs_record:
  "learnAbs (recordDecision i now c t ok rows) k = learnSpec k (Decide i now c t ok) (learnAbs rows k)"
proof (cases "sql_get pattern_key (c, t) rows")
  case None
  then have "snd (sql_update (\<lambda>r. pattern_key r = (c, t)) f rows) = 0" for f
    by (simp add: sql_update_no_key sql_get_none)
  with None show ?thesis
    by (auto simp: learnAbs_def recordDecision_def sql_update_none sql_get_append pattern_key_def
        Let_def split: option.split)
next
  case (Some r)
  then have hit: "(snd (sql_update (\<lambda>r. pattern_key r = (c, t)) f rows) = 0) = False" for f
    by (metis sql_update_no_key sql_get_none option.distinct(1))
  from Some show ?thesis
    by (auto simp: hit learnAbs_def recordDecision_def sql_get_key_update Let_def)
qed

lemma learnAbs_step: "learnAbs (learnStep op rows) k = learnSpec k op (learnAbs rows k)"
proof (cases op)
  case (Decide i now c t ok)
  then show ?thesis by (simp add: learnAbs_record del: learnSpec.simps)
qed (auto simp: learnAbs_def markSuggestionSent_def resetPattern_def sql_get_key_update
      option.map_comp comp_def)

definition learnRun :: "LearnOp list \<Rightarrow> ApprovalPattern list" where
  "learnRun ops = fold learnStep ops []"

lemma learn_ok_run: "learn_ok (learnRun ops)"
proof -
  have "learn_ok rows \<Longrightarrow> learn_ok (fold learnStep ops rows)" for rows
    by (induction ops arbitrary: rows) (simp_all add: learn_ok_step del: learnStep.simps)
  then show ?thesis by (simp add: learnRun_def learn_ok_def)
qed

lemma learnAbs_run: "learnAbs (learnRun ops) k = fold (learnSpec k) ops None"
proof -
  have "learnAbs (fold learnStep ops rows) k = fold (learnSpec k) ops (learnAbs rows k)" for rows
    by (induction ops arbitrary: rows) (simp_all add: learnAbs_step del: learnStep.simps learnSpec.simps)
  then show ?thesis by (simp add: learnRun_def learnAbs_def sql_get_def)
qed

lemma suggestion_mem:
  "s \<in> set (getSuggestions n rows) \<longleftrightarrow>
     (\<exists>r \<in> set rows. s = suggestionOf r \<and> n \<le> ap_consecutive_approvals r \<and> \<not> ap_suggestion_sent r)"
  by (auto simp: getSuggestions_def)

text \<open>a suggestion needs an unbroken run of approvals.  After any history, an auto-approval of category
  \<open>c\<close> is suggested on account of tool \<open>t\<close> exactly when the history of that pair since its last denial or
  reset holds at least the threshold of approvals and no suggestion was sent; the rule it suggests is always
  the unconditional, global override of the category.\<close>

theorem suggestion_iff_streak:
  "((\<exists>s \<in> set (getSuggestions n (learnRun ops)). sg_actionCategory s = c \<and> sg_toolName s = t) \<longleftrightarrow>
      (\<exists>m. fold (learnSpec (c, t)) ops None = Some (m, False) \<and> n \<le> m)) \<and>
   (\<forall>s \<in> set (getSuggestions n (learnRun ops)).
      sg_suggestedRule s = \<lparr> ov_action = sg_actionCategory s, ov_role_id = None, ov_allowed = True,
                             ov_requires_approval = False \<rparr>)"
proof
  have "(\<exists>r \<in> set rows. pattern_key r = (c, t) \<and> n \<le> ap_consecutive_approvals r \<and> \<not> ap_suggestion_sent r) \<longleftrightarrow>
      (\<exists>m. learnAbs rows (c, t) = Some (m, False) \<and> n \<le> m)" if "learn_ok rows" for rows
    using that sql_get_mem [of pattern_key rows] sql_get_key [of pattern_key "(c, t)" rows]
    by (fastforce simp: learn_ok_def learnAbs_def)
  from this [OF learn_ok_run [of ops]]
  show "(\<exists>s \<in> set (getSuggestions n (learnRun ops)). sg_actionCategory s = c \<and> sg_toolName s = t) \<longleftrightarrow>
      (\<exists>m. fold (learnSpec (c, t)) ops None = Some (m, False) \<and> n \<le> m)"
    by (auto simp: Bex_def suggestion_mem suggestionOf_def pattern_key_def learnAbs_run)
qed (auto simp: suggestion_mem suggestionOf_def)

theorem suggestion_iff_streak_witness:
  "\<exists>s \<in> set (getSuggestions 2 (learnRun [Decide ''p1'' 1 write_data ''write_file'' True,
       Decide ''p2'' 2 write_data ''write_file'' True])).
     sg_actionCategory s = write_data \<and> sg_toolName s = ''write_file''"
  using suggestion_iff_streak [of 2 "[Decide ''p1'' 1 write_data ''write_file'' True,
       Decide ''p2'' 2 write_data ''write_file'' True]" write_data "''write_file''"] by simp

end
