(* ===== verification/Audit_Trail.thy ===== *)
theory Audit_Trail
  imports Authority_Engine
begin

text \<open>
  The audit trail, \<^verbatim>\<open>src/authority/audit.ts\<close>: an append-only table with filtered queries and
  aggregate statistics.
\<close>

section \<open>Data and operations\<close>

datatype AuthorityDecisionType = d_allowed | d_denied | d_approval_required
datatype ResolutionChannel = click | voice | system_channel

record AuditEntry =
  ae_id :: string
  ae_agent_id :: string
  ae_agent_name :: string
  ae_tool_name :: string
  ae_action_category :: ActionCategory
  ae_authority_decision :: AuthorityDecisionType
  ae_approval_id :: "string option"
  ae_executed :: nat
  ae_execution_time_ms :: "int option"
  ae_created_at :: int
  ae_channel :: "ResolutionChannel option"

record LogEntry =
  le_agent_id :: string
  le_agent_name :: string
  le_tool_name :: string
  le_action_category :: ActionCategory
  le_authority_decision :: AuthorityDecisionType
  le_approval_id :: "string option"
  le_executed :: bool
  le_execution_time_ms :: "int option"
  le_channel :: "ResolutionChannel option"

definition auditRow :: "string \<Rightarrow> int \<Rightarrow> LogEntry \<Rightarrow> AuditEntry" where
  "auditRow i now entry =
     \<lparr> ae_id = i, ae_agent_id = le_agent_id entry, ae_agent_name = le_agent_name entry,
       ae_tool_name = le_tool_name entry, ae_action_category = le_action_category entry,
       ae_authority_decision = le_authority_decision entry, ae_approval_id = le_approval_id entry,
       ae_executed = (if le_executed entry then 1 else 0),
       ae_execution_time_ms = le_execution_time_ms entry, ae_created_at = now,
       ae_channel = le_channel entry \<rparr>"

definition audit_log :: "string \<Rightarrow> int \<Rightarrow> LogEntry \<Rightarrow> AuditEntry list \<Rightarrow> AuditEntry \<times> AuditEntry list" where
  "audit_log i now entry trail = (auditRow i now entry, trail @ [auditRow i now entry])"

record AuditFilters =
  af_agentId :: "string option"
  af_action :: "ActionCategory option"
  af_tool :: "string option"
  af_decision :: "AuthorityDecisionType option"
  af_since :: "int option"
  af_limit :: "nat option"

text \<open>An absent \<^verbatim>\<open>since\<close> and zero are both falsy.\<close>

definition sinceTest :: "int option \<Rightarrow> AuditEntry \<Rightarrow> bool" where
  "sinceTest since r = (case since of None \<Rightarrow> True | Some t \<Rightarrow> t = 0 \<or> ae_created_at r \<ge> t)"

definition auditMatches :: "AuditFilters \<Rightarrow> AuditEntry \<Rightarrow> bool" where
  "auditMatches filters r =
     ((if js_truthy (af_agentId filters) then af_agentId filters = Some (ae_agent_id r) else True) \<and>
      (case af_action filters of None \<Rightarrow> True | Some a \<Rightarrow> ae_action_category r = a) \<and>
      (if js_truthy (af_tool filters) then af_tool filters = Some (ae_tool_name r) else True) \<and>
      (case af_decision filters of None \<Rightarrow> True | Some d \<Rightarrow> ae_authority_decision r = d) \<and>
      sinceTest (af_since filters) r)"

definition audit_query :: "AuditFilters \<Rightarrow> AuditEntry list \<Rightarrow> AuditEntry list" where
  "audit_query filters trail =
     take (case af_limit filters of None \<Rightarrow> 100 | Some n \<Rightarrow> n)
       (sql_select_desc (auditMatches filters) ae_created_at trail)"

record AuditStats =
  st_total :: nat
  st_allowed :: nat
  st_denied :: nat
  st_approvalRequired :: nat
  st_byCategory :: "(ActionCategory \<times> nat) list"

text \<open>\<^verbatim>\<open>SELECT key, COUNT(*) ... GROUP BY key\<close>.\<close>

definition sql_group_count :: "('r \<Rightarrow> 'k) \<Rightarrow> 'r list \<Rightarrow> ('k \<times> nat) list" where
  "sql_group_count key rows =
     map (\<lambda>k. (k, length (filter (\<lambda>r. key r = k) rows))) (js_dedupe (map key rows))"

definition addTotal :: "AuthorityDecisionType \<times> nat \<Rightarrow> AuditStats \<Rightarrow> AuditStats" where
  "addTotal row stats =
     (let s = stats\<lparr>st_total := st_total stats + snd row\<rparr> in
      case fst row of
        d_allowed \<Rightarrow> s\<lparr>st_allowed := snd row\<rparr>
      | d_denied \<Rightarrow> s\<lparr>st_denied := snd row\<rparr>
      | d_approval_required \<Rightarrow> s\<lparr>st_approvalRequired := snd row\<rparr>)"

definition getStats :: "int option \<Rightarrow> AuditEntry list \<Rightarrow> AuditStats" where
  "getStats since trail =
     (let rows = filter (sinceTest since) trail;
          totals = sql_group_count ae_authority_decision rows;
          categories = sql_group_count ae_action_category rows;
          stats = fold addTotal totals
            \<lparr> st_total = 0, st_allowed = 0, st_denied = 0, st_approvalRequired = 0, st_byCategory = [] \<rparr>
      in stats\<lparr>st_byCategory := fold (\<lambda>(c, n) m. js_set c n m) categories []\<rparr>)"

section \<open>Lemmas\<close>

lemma sum_group_count: "sum_list (map snd (sql_group_count key rows)) = length rows"
proof -
  have "sum_list (map snd (sql_group_count key rows)) =
      (\<Sum>k \<in> key ` set rows. length (filter (\<lambda>r. key r = k) rows))"
    by (simp add: sql_group_count_def comp_def sum_list_distinct_conv_sum_set)
  also have "\<dots> = length rows"
  proof (induction rows)
    case (Cons r rows)
    have "(\<Sum>k \<in> insert (key r) (key ` set rows). length (filter (\<lambda>r. key r = k) rows)) =
        (\<Sum>k \<in> key ` set rows. length (filter (\<lambda>r. key r = k) rows))"
      by (rule sum.mono_neutral_right) (auto simp: filter_empty_conv)
    moreover have "length (filter (\<lambda>q. key q = k) (r # rows)) =
        (if key r = k then 1 else 0) + length (filter (\<lambda>q. key q = k) rows)" for k
      by simp
    moreover have "(\<Sum>k \<in> insert (key r) (key ` set rows). if key r = k then 1 else (0::nat)) = 1"
      by (subst sum.delta') simp_all
    ultimately show ?case
      using Cons by (simp only: sum.distrib list.set image_insert) simp
  qed simp
  finally show ?thesis .
qed

lemma addTotal_fields:
  "st_total (addTotal r st) = st_total st + snd r"
  "st_allowed (addTotal r st) = (if fst r = d_allowed then snd r else st_allowed st)"
  "st_denied (addTotal r st) = (if fst r = d_denied then snd r else st_denied st)"
  "st_approvalRequired (addTotal r st) = (if fst r = d_approval_required then snd r else st_approvalRequired st)"
  by (simp_all add: addTotal_def Let_def split: AuthorityDecisionType.split)

lemma fold_addTotal:
  "distinct (map fst rows) \<Longrightarrow>
   st_total (fold addTotal rows st) = st_total st + sum_list (map snd rows) \<and>
   st_allowed (fold addTotal rows st) = (case map_of rows d_allowed of Some n \<Rightarrow> n | None \<Rightarrow> st_allowed st) \<and>
   st_denied (fold addTotal rows st) = (case map_of rows d_denied of Some n \<Rightarrow> n | None \<Rightarrow> st_denied st) \<and>
   st_approvalRequired (fold addTotal rows st) =
     (case map_of rows d_approval_required of Some n \<Rightarrow> n | None \<Rightarrow> st_approvalRequired st)"
proof (induction rows arbitrary: st)
  case (Cons r rows)
  obtain d n where r: "r = (d, n)" by (cases r)
  from Cons.prems r have "map_of rows d = None" by (auto simp: map_of_eq_None_iff)
  with Cons.IH [of "addTotal r st"] Cons.prems r show ?case
    by (cases d) (simp_all add: addTotal_fields split: option.splits)
qed simp

lemma group_count_keys: "map fst (sql_group_count key rows) = js_dedupe (map key rows)"
  by (simp add: sql_group_count_def comp_def)

lemma group_count_lookup:
  "(case map_of (sql_group_count key rows) k of Some n \<Rightarrow> n | None \<Rightarrow> 0) = length (filter (\<lambda>r. key r = k) rows)"
proof (cases "k \<in> key ` set rows")
  case True
  then show ?thesis by (simp add: sql_group_count_def map_of_map_restrict restrict_map_def)
next
  case False
  then have "filter (\<lambda>r. key r = k) rows = []" by (auto simp: filter_empty_conv)
  with False show ?thesis by (simp add: sql_group_count_def map_of_map_restrict restrict_map_def)
qed

lemma fold_set_categories:
  "distinct (map fst rows) \<Longrightarrow> distinct (map fst (m @ rows)) \<Longrightarrow>
   fold (\<lambda>(c, n) m. js_set c n m) rows m = m @ rows"
proof (induction rows arbitrary: m)
  case (Cons r rows)
  obtain c n where r: "r = (c, n)" by (cases r)
  have "c \<notin> set (map fst m) \<Longrightarrow> js_set c n m = m @ [(c, n)]" by (induction m) auto
  with Cons r show ?case by auto
qed simp

definition decisionCount :: "AuthorityDecisionType \<Rightarrow> AuditEntry list \<Rightarrow> nat" where
  "decisionCount d rows = length (filter (\<lambda>r. ae_authority_decision r = d) rows)"

lemma stats_fields:
  assumes "rows = filter (sinceTest since) trail"
  shows "st_total (getStats since trail) = length rows"
    and "st_allowed (getStats since trail) = decisionCount d_allowed rows"
    and "st_denied (getStats since trail) = decisionCount d_denied rows"
    and "st_approvalRequired (getStats since trail) = decisionCount d_approval_required rows"
    and "st_byCategory (getStats since trail) = sql_group_count ae_action_category rows"
proof -
  let ?st = "\<lparr> st_total = 0, st_allowed = 0, st_denied = 0, st_approvalRequired = 0, st_byCategory = [] \<rparr>"
  have d: "distinct (map fst (sql_group_count key rs))" for key :: "AuditEntry \<Rightarrow> 'k" and rs
    by (simp add: group_count_keys)
  note totals = fold_addTotal [OF d [of ae_authority_decision rows], of ?st, simplified]
  note counts = group_count_lookup [of ae_authority_decision rows, folded decisionCount_def]
  have stats: "getStats since trail = (fold addTotal (sql_group_count ae_authority_decision rows) ?st)
      \<lparr>st_byCategory := sql_group_count ae_action_category rows\<rparr>"
    using fold_set_categories [of "sql_group_count ae_action_category rows" "[]"] d [of ae_action_category rows]
    by (simp add: getStats_def Let_def assms)
  show "st_total (getStats since trail) = length rows"
    and "st_allowed (getStats since trail) = decisionCount d_allowed rows"
    and "st_denied (getStats since trail) = decisionCount d_denied rows"
    and "st_approvalRequired (getStats since trail) = decisionCount d_approval_required rows"
    and "st_byCategory (getStats since trail) = sql_group_count ae_action_category rows"
    by (simp_all add: stats totals sum_group_count counts [symmetric] split: option.split)
qed

lemma decision_split:
  "decisionCount d_allowed rows + decisionCount d_denied rows + decisionCount d_approval_required rows = length rows"
proof (induction rows)
  case (Cons r rows)
  then show ?case by (cases "ae_authority_decision r") (simp_all add: decisionCount_def)
qed (simp add: decisionCount_def)

text \<open>the statistics account for every row once.  Over the rows since a given time, the three decision
  counts add up to the total, and so do the counts of the categories; logging an entry later adds one to the
  total and to its own decision.\<close>

theorem audit_stats_account:
  "st_allowed (getStats since trail) + st_denied (getStats since trail) + st_approvalRequired (getStats since trail)
     = st_total (getStats since trail) \<and>
   sum_list (map snd (st_byCategory (getStats since trail))) = st_total (getStats since trail) \<and>
   st_total (getStats since trail) = length (filter (sinceTest since) trail) \<and>
   st_total (getStats since (snd (audit_log i now entry trail))) =
     st_total (getStats since trail) + (if sinceTest since (auditRow i now entry) then 1 else 0) \<and>
   st_denied (getStats since (snd (audit_log i now entry trail))) =
     st_denied (getStats since trail) +
       (if sinceTest since (auditRow i now entry) \<and> le_authority_decision entry = d_denied then 1 else 0)"
  by (simp add: stats_fields decision_split sum_group_count audit_log_def)
    (simp add: decisionCount_def auditRow_def)

end
