(* ===== verification/Deferred_Executor.thy ===== *)
theory Deferred_Executor
  imports Approval_Lifecycle Emergency Learning Audit_Trail
begin

text \<open>
  The executor of approved requests, \<^verbatim>\<open>src/authority/deferred-executor.ts\<close>, and the message that asks
  for a decision, \<^verbatim>\<open>src/authority/approval-delivery.ts\<close>.  One call is one transition of the state it
  shares with the rest of the process.  While the tool runs the event loop serves others: the
  operations they make on the approvals are the list \<open>et_meanwhile\<close>.  A failing database or a throwing
  result callback is not modelled.
\<close>

section \<open>State and wiring\<close>

definition ABOVE_LEVEL_SUBSTITUTION :: string where
  "ABOVE_LEVEL_SUBSTITUTION = ''is above this agent'' @ [CHR 0x27] @ ''s authority level''"

record 'w ExecutorState =
  es_manager :: "'w ApprovalManager"
  es_audit :: "AuditEntry list"
  es_patterns :: "ApprovalPattern list"
  es_emergency :: EmergencyState
  es_world :: 'w
  es_results :: "(string \<times> string) list"

record Executor =
  ex_toolRegistry :: "nat option"
  ex_learner :: bool
  ex_emergencyController :: bool
  ex_onResult :: bool

definition newExecutor :: Executor where
  "newExecutor = \<lparr> ex_toolRegistry = None, ex_learner = False, ex_emergencyController = False,
     ex_onResult = False \<rparr>"

definition setToolRegistry :: "nat \<Rightarrow> Executor \<Rightarrow> Executor" where
  "setToolRegistry registry ex = ex\<lparr>ex_toolRegistry := Some registry\<rparr>"

definition setLearner :: "Executor \<Rightarrow> Executor" where
  "setLearner ex = ex\<lparr>ex_learner := True\<rparr>"

definition setEmergencyController :: "Executor \<Rightarrow> Executor" where
  "setEmergencyController ex = ex\<lparr>ex_emergencyController := True\<rparr>"

definition setResultCallback :: "Executor \<Rightarrow> Executor" where
  "setResultCallback ex = ex\<lparr>ex_onResult := True\<rparr>"

text \<open>
  What one call reads besides the state: clocks, fresh ids, the text of the engine's syntax error, the
  cancellation fence of the dispatch, and what the others do while the tool runs.
\<close>

record 'w ExecTurn =
  et_claimAt :: int
  et_doneAt :: int
  et_elapsed :: int
  et_auditId :: string
  et_patternId :: string
  et_syntaxError :: string
  et_fence :: "ToolError option"
  et_meanwhile :: "'w WorldOp list"

section \<open>Text\<close>

fun outcome_name :: "ApprovalExecutionOutcome \<Rightarrow> string" where
  "outcome_name (Receipt committed) = ''committed''"
| "outcome_name (Receipt failed) = ''failed''"
| "outcome_name (Receipt blocked) = ''blocked''"
| "outcome_name not_started = ''not_started''"
| "outcome_name unknown = ''unknown''"
| "outcome_name closed = ''closed''"

fun state_name :: "ApprovalExecutionState \<Rightarrow> string" where
  "state_name StPending = ''pending''"
| "state_name StDenied = ''denied''"
| "state_name StExpired = ''expired''"
| "state_name StAwaiting = ''awaiting_execution''"
| "state_name StInFlight = ''in_flight''"
| "state_name (StOutcome o') = outcome_name o'"

text \<open>\<^verbatim>\<open>typeof raw === 'string' ? raw : JSON.stringify(raw)\<close>.\<close>

fun result_text :: "json \<Rightarrow> string" where
  "result_text (JStr s) = s"
| "result_text v = JSON_stringify v"

section \<open>Executing\<close>

text \<open>\<^verbatim>\<open>markExecuted\<close> followed by the result callback.\<close>

definition closeOut ::
    "Executor \<Rightarrow> string \<Rightarrow> string \<Rightarrow> string \<Rightarrow> ApprovalReceiptOutcome \<Rightarrow> int \<Rightarrow> 'w ExecutorState \<Rightarrow> 'w ExecutorState" where
  "closeOut ex requestId receipt shown outcome now st =
     st\<lparr>es_manager := snd (markExecuted requestId receipt outcome now (es_manager st)),
        es_results := (if ex_onResult ex then es_results st @ [(requestId, shown)] else es_results st)\<rparr>"

definition learnable :: "string \<Rightarrow> bool" where
  "learnable why = (\<not> js_includes why TAINT_PROFILE_LABEL \<and> \<not> js_includes why ABOVE_LEVEL_SUBSTITUTION)"

definition executionEntry :: "ApprovalRequest \<Rightarrow> string \<Rightarrow> int \<Rightarrow> LogEntry" where
  "executionEntry request requestId elapsed =
     \<lparr> le_agent_id = ar_agent_id request, le_agent_name = ar_agent_name request,
       le_tool_name = ar_tool_name request, le_action_category = ar_action_category request,
       le_authority_decision = d_approval_required, le_approval_id = Some requestId, le_executed = True,
       le_execution_time_ms = Some elapsed, le_channel = None \<rparr>"

text \<open>The dispatch and what follows it: receipt, audit row, learning, callback; or the failed receipt.\<close>

definition dispatchApproved ::
    "'w Registries \<Rightarrow> Executor \<Rightarrow> 'w ExecTurn \<Rightarrow> string \<Rightarrow> ApprovalRequest \<Rightarrow> nat \<Rightarrow> json \<Rightarrow>
     'w ExecutorState \<Rightarrow> string \<times> 'w ExecutorState" where
  "dispatchApproved regs ex turn requestId request registry args st =
     (let (out, w') = reg_execute (regs registry) (et_fence turn) (ar_tool_name request) args (es_world st);
          st1 = st\<lparr>es_world := w', es_manager := runOps (et_meanwhile turn) (es_manager st)\<rparr>
      in case out of
        Inl err \<Rightarrow>
          (let errorStr = ''Error executing '' @ ar_tool_name request @ '': '' @ error_message err
           in (errorStr, closeOut ex requestId errorStr errorStr failed (et_doneAt turn) st1))
      | Inr raw \<Rightarrow>
          (let result = result_text raw;
               st2 = st1\<lparr>es_manager :=
                 snd (markExecuted requestId (take 2000 result) committed (et_doneAt turn) (es_manager st1))\<rparr>;
               st3 = st2\<lparr>es_audit := snd (audit_log (et_auditId turn) (et_doneAt turn)
                 (executionEntry request requestId (et_elapsed turn)) (es_audit st2))\<rparr>;
               st4 = (if learnable (ar_reason request) \<and> ex_learner ex then
                   st3\<lparr>es_patterns := recordDecision (et_patternId turn) (et_doneAt turn)
                     (ar_action_category request) (ar_tool_name request) True (es_patterns st3)\<rparr>
                 else st3)
           in (result, st4\<lparr>es_results :=
                 (if ex_onResult ex then es_results st4 @ [(requestId, result)] else es_results st4)\<rparr>)))"

text \<open>The body of the \<^verbatim>\<open>try\<close>: the checks between the claim and the dispatch.\<close>

definition runClaimed ::
    "'w Registries \<Rightarrow> Executor \<Rightarrow> 'w ExecTurn \<Rightarrow> string \<Rightarrow> ApprovalRequest \<Rightarrow> nat \<Rightarrow>
     'w ExecutorState \<Rightarrow> string \<times> 'w ExecutorState" where
  "runClaimed regs ex turn requestId request toolRegistry st =
     (case JSON_parse (ar_tool_arguments request) of
        None \<Rightarrow>
          (let errorStr = ''Error executing '' @ ar_tool_name request @ '': '' @ et_syntaxError turn
           in (errorStr, closeOut ex requestId errorStr errorStr failed (et_doneAt turn) st))
      | Some args \<Rightarrow>
          (let uiCall = rawUiGate (ar_tool_name request) args \<noteq> None;
               registry = (if uiCall then getUiExecutionRegistry regs (es_world st) (es_manager st) request
                           else Some toolRegistry);
               tool = (case registry of None \<Rightarrow> None | Some rg \<Rightarrow> reg_get (regs rg) (ar_tool_name request));
               gate = resolveToolGate tool (ar_tool_name request) args
           in if rg_confirm gate = Some confirm_always \<and> \<not> approvalNeedsClick (ar_context request) then
                (let msg = ''Approved action '' @ ar_tool_name request @
                   '' was NOT executed: this approval predates the required UI review. Request a fresh dashboard review.''
                 in (msg, closeOut ex requestId msg msg blocked (et_doneAt turn) st))
              else case registry of
                None \<Rightarrow>
                  (let msg = ''Approved action '' @ ar_tool_name request @
                     '' was NOT executed: its original UI session or reviewed subject is no longer available. Take a fresh snapshot and request a fresh review.''
                   in (msg, closeOut ex requestId msg msg blocked (et_doneAt turn) st))
              | Some rg \<Rightarrow> dispatchApproved regs ex turn requestId request rg args st))"

definition executeApprovedWithReceipt ::
    "'w Registries \<Rightarrow> Executor \<Rightarrow> 'w ExecTurn \<Rightarrow> string \<Rightarrow> string \<Rightarrow> 'w ExecutorState \<Rightarrow>
     (bool \<times> string) \<times> 'w ExecutorState" where
  "executeApprovedWithReceipt regs ex turn requestId claimedBy st =
     (case getRequest (es_manager st) requestId of
        None \<Rightarrow> ((False, ''Error: Request '' @ requestId @ '' not found or not in approved state''), st)
      | Some request \<Rightarrow>
          if ar_status request \<noteq> approved then
            ((False, ''Error: Request '' @ requestId @ '' not found or not in approved state''), st)
          else if ar_execution_mode request = workflow then
            ((False, ''Workflow-owned approval: execution must resume through its recorded effect boundary''), st)
          else (case ex_toolRegistry ex of
            None \<Rightarrow> ((False, ''Error: No tool registry configured''), st)
          | Some toolRegistry \<Rightarrow>
              (let (won, am') = claimExecution requestId claimedBy (et_claimAt turn) (es_manager st);
                   st1 = st\<lparr>es_manager := am'\<rparr>
               in if \<not> won then
                    ((False, ''Error: Request '' @ requestId @ '' was already taken for execution ('' @
                        (case getRequest am' requestId of Some current \<Rightarrow> state_name (executionState current)
                         | None \<Rightarrow> ''missing'') @
                        ''); check its receipt before deciding on another run''), st1)
                  else if ex_emergencyController ex \<and> \<not> canExecute (es_emergency st1) then
                    (let msg = ''[SYSTEM '' @ emergency_upper (es_emergency st1) @ ''] Approved action '' @
                       ar_tool_name request @
                       '' was NOT executed: all tool execution is suspended because the user has '' @
                       emergency_name (es_emergency st1) @ '' the system.''
                     in ((True, msg), closeOut ex requestId msg msg blocked (et_claimAt turn) st1))
                  else (let (result, st2) = runClaimed regs ex turn requestId request toolRegistry st1
                        in ((True, result), st2)))))"

definition executeApproved ::
    "'w Registries \<Rightarrow> Executor \<Rightarrow> 'w ExecTurn \<Rightarrow> string \<Rightarrow> string \<Rightarrow> 'w ExecutorState \<Rightarrow>
     string \<times> 'w ExecutorState" where
  "executeApproved regs ex turn requestId claimedBy st =
     (let (r, st') = executeApprovedWithReceipt regs ex turn requestId claimedBy st in (snd r, st'))"

definition recordDenial :: "Executor \<Rightarrow> string \<Rightarrow> int \<Rightarrow> ApprovalRequest \<Rightarrow> 'w ExecutorState \<Rightarrow> 'w ExecutorState" where
  "recordDenial ex newId now request st =
     (if ex_learner ex then
        st\<lparr>es_patterns := recordDecision newId now (ar_action_category request) (ar_tool_name request) False
             (es_patterns st)\<rparr>
      else st)"

section \<open>Delivery\<close>

text \<open>The dashboard gets the request, the channels the message; a failing channel is only logged.\<close>

definition formatApprovalMessage :: "ApprovalRequest \<Rightarrow> string" where
  "formatApprovalMessage request =
     (let shortId = take 8 (ar_id request) in
      js_join newline
        [''[APPROVAL NEEDED]'',
         ''Action: '' @ ar_tool_name request @ '' ('' @ category_name (ar_action_category request) @ '')'',
         ''Agent: '' @ ar_agent_name request,
         ''Reason: '' @ ar_reason request,
         [],
         ''Reply with:'',
         ''  approve '' @ shortId,
         ''  deny '' @ shortId])"

definition deliver :: "bool \<Rightarrow> bool \<Rightarrow> ApprovalRequest \<Rightarrow> ApprovalRequest option \<times> string option" where
  "deliver broadcaster channelSender request =
     (if broadcaster then Some request else None,
      if channelSender then Some (formatApprovalMessage request) else None)"


section \<open>Lemmas\<close>

text \<open>Every operation the executor makes on the approvals is an operation of the manager.\<close>

lemma claim_as_op:
  "snd (claimExecution i by now am) = applyOp regs w (OpClaim i by now) am"
  by simp

lemma receipt_as_op:
  "snd (markExecuted i res out now am) = applyOp regs w (OpReceipt i res out now) am"
  by simp

lemma runOps_reachable: "approval_reachable am \<Longrightarrow> approval_reachable (runOps ops am)"
proof (induction ops arbitrary: am)
  case (Cons x ops)
  obtain regs w op where x: "x = (regs, w, op)" by (cases x)
  from Cons.IH [OF approval_reachable_applyOp [OF Cons.prems, of regs w op]] show ?case
    by (simp add: runOps_def x del: applyOp.simps)
qed (simp add: runOps_def)

definition receiptAfter :: "string \<Rightarrow> 'w ApprovalManager \<Rightarrow> 'w ApprovalManager \<Rightarrow> bool" where
  "receiptAfter i am am' = (\<exists>ops res out now. am' = snd (markExecuted i res out now (runOps ops am)))"

lemma receiptAfter_now: "receiptAfter i am (snd (markExecuted i res out now am))"
  unfolding receiptAfter_def by (rule exI [of _ "[]"]) (auto simp: runOps_def)

lemma closeOut_receipt: "receiptAfter i (es_manager st) (es_manager (closeOut ex i res shown out now st))"
  by (simp add: closeOut_def receiptAfter_now)

lemma dispatch_receipt:
  "receiptAfter i (es_manager st) (es_manager (snd (dispatchApproved regs ex turn i request rg args st)))"
  by (auto simp: dispatchApproved_def closeOut_def receiptAfter_def Let_def split: prod.split sum.split)

lemma runClaimed_receipt:
  "receiptAfter i (es_manager st) (es_manager (snd (runClaimed regs ex turn i request rg st)))"
  by (auto simp: runClaimed_def Let_def closeOut_receipt dispatch_receipt split: option.split)

lemma receiptAfter_executed:
  assumes "receiptAfter i am am'" "getRequest am i = Some r" "ar_status r = approved"
  shows "\<exists>r'. getRequest am' i = Some r' \<and> reviewed r' = reviewed r \<and> ar_status r' = executed"
proof -
  from assms(1) obtain ops res out now where am': "am' = snd (markExecuted i res out now (runOps ops am))"
    by (auto simp: receiptAfter_def)
  from runOps_row [OF assms(2), of ops] obtain q where q: "getRequest (runOps ops am) i = Some q"
    "reviewed q = reviewed r" "ar_status q \<in> {approved, executed}"
    using status_edges_after assms(3) by (fastforce simp: status_after_def)
  then have "ar_id q = i" by (auto simp: getRequest_def dest: sql_get_key)
  with getRequest_applyOp [OF q(1), of undefined undefined "OpReceipt i res out now"] q(2,3)
  show ?thesis by (auto simp: am' reviewed_def)
qed

lemma receiptAfter_reachable:
  "receiptAfter i am am' \<Longrightarrow> approval_reachable am \<Longrightarrow> approval_reachable am'"
  using approval_reachable_applyOp [OF runOps_reachable, where regs = undefined and w = undefined
      and op = "OpReceipt i _ _ _"]
  by (auto simp: receiptAfter_def)

text \<open>An execution either loses (and touches neither world nor trail) or claims and leaves a receipt.\<close>

lemma execute_cases:
  assumes "ids_unique (es_manager st)"
  shows "(\<not> fst (fst (executeApprovedWithReceipt regs ex turn i who st)) \<and>
      snd (executeApprovedWithReceipt regs ex turn i who st) = st) \<or>
    (\<exists>r. getRequest (es_manager st) i = Some r \<and> claimable r \<and> ar_execution_mode r \<noteq> workflow \<and>
      fst (fst (executeApprovedWithReceipt regs ex turn i who st)) \<and>
      receiptAfter i (applyOp regs w (OpClaim i who (et_claimAt turn)) (es_manager st))
        (es_manager (snd (executeApprovedWithReceipt regs ex turn i who st))))"
proof -
  have lost: "\<not> fst (claimExecution i who now (es_manager st)) \<Longrightarrow> snd (claimExecution i who now (es_manager st)) = es_manager st" for now
    by (simp add: claimExecution_def withRows_def sql_update_none Let_def)
  note won = claimExecution_wins [OF assms, of i who "et_claimAt turn"]
  obtain b am' where claim: "claimExecution i who (et_claimAt turn) (es_manager st) = (b, am')"
    by (cases "claimExecution i who (et_claimAt turn) (es_manager st)")
  have run: "runClaimed regs ex turn i r rg st' = (res, st'') \<Longrightarrow>
      receiptAfter i (es_manager st') (es_manager st'')" for r rg st' res st''
    using runClaimed_receipt [of i st' regs ex turn r rg] by simp
  show ?thesis
    using lost [of "et_claimAt turn"] won run [of _ _ "st\<lparr>es_manager := am'\<rparr>"]
      closeOut_receipt [of i "st\<lparr>es_manager := am'\<rparr>"]
    by (auto simp: executeApprovedWithReceipt_def claim Let_def split: option.split prod.split)
qed


lemma executed_stays_lost:
  assumes "getRequest (es_manager st) i = Some r" "ar_status r \<noteq> approved"
  shows "snd (executeApprovedWithReceipt regs ex turn i who st) = st \<and>
    \<not> fst (fst (executeApprovedWithReceipt regs ex turn i who st))"
  using assms by (simp add: executeApprovedWithReceipt_def)

lemma claim_row:
  assumes "getRequest am i = Some r" "claimable r"
  shows "\<exists>r'. getRequest (applyOp regs w (OpClaim i who now) am) i = Some r' \<and> ar_status r' = approved \<and>
    reviewed r' = reviewed r"
proof -
  from assms(1) have "ar_id r = i" by (auto simp: getRequest_def dest: sql_get_key)
  with getRequest_applyOp [OF assms(1), of regs w "OpClaim i who now"] assms(2) show ?thesis
    by (auto simp: claimable_def reviewed_def simp del: applyOp.simps)
qed

section \<open>Properties\<close>

text \<open>C12: a claim always ends in a receipt, and a second execution does nothing.  From a reachable state,
  whatever other operations run while the tool does, an execution that took the claim leaves the request
  executed with a recorded outcome and the reviewed fields unchanged; executing it again, from any surface and
  with any wiring, claims nothing and changes no state at all.\<close>

theorem executor_leaves_receipt:
  assumes "approval_reachable (es_manager st)"
    and "fst (fst (executeApprovedWithReceipt regs ex turn i who st))"
    and "getRequest (es_manager st) i = Some r"
    and "st' = snd (executeApprovedWithReceipt regs ex turn i who st)"
  shows "(\<exists>r'. getRequest (es_manager st') i = Some r' \<and> ar_status r' = executed \<and>
       (\<exists>out. ar_outcome r' = Some (Receipt out)) \<and> reviewed r' = reviewed r) \<and>
     snd (executeApprovedWithReceipt regs' ex' turn' i who' st') = st' \<and>
     \<not> fst (fst (executeApprovedWithReceipt regs' ex' turn' i who' st'))"
proof -
  let ?am = "applyOp regs (es_world st) (OpClaim i who (et_claimAt turn)) (es_manager st)"
  from execute_cases [OF approval_reachable_unique [OF assms(1)], where regs = regs and ex = ex
      and turn = turn and i = i and who = who and w = "es_world st"]
    assms(2-4) have "claimable r" and after: "receiptAfter i ?am (es_manager st')"
    by (auto simp del: applyOp.simps)
  from claim_row [OF assms(3) \<open>claimable r\<close>] receiptAfter_executed [OF after] obtain r' where
    r': "getRequest (es_manager st') i = Some r'" "ar_status r' = executed" "reviewed r' = reviewed r"
    by (fastforce simp del: applyOp.simps)
  have "approval_reachable (es_manager st')"
    by (rule receiptAfter_reachable [OF after approval_reachable_applyOp [OF assms(1)]])
  then have "row_ok r'"
    using r'(1) sql_get_key [of ar_id i] approval_reachable_rows by (fastforce simp: getRequest_def)
  with r' executed_stays_lost [OF r'(1)] show ?thesis by (auto simp: row_ok_def)
qed


definition count_tool :: "nat ToolDefinition" where
  "count_tool =
     \<lparr> td_object = 1, td_name = ''run_command'', td_description = ''d'', td_category = ''terminal'',
       td_parameters = [], td_execute = (\<lambda>args w. (Inr (JStr ''ok''), w + 1)), td_authorityGate = None,
       td_captureApprovalGuard = None \<rparr>"

definition example_regs :: "nat Registries" where
  "example_regs = (\<lambda>_. [(''run_command'', count_tool)])"

definition example_executor :: Executor where
  "example_executor = \<lparr> ex_toolRegistry = Some 0, ex_learner = True, ex_emergencyController = True,
     ex_onResult = True \<rparr>"

definition example_turn :: "nat ExecTurn" where
  "example_turn = \<lparr> et_claimAt = 30, et_doneAt = 40, et_elapsed = 10, et_auditId = ''u1'', et_patternId = ''p1'',
     et_syntaxError = [], et_fence = None, et_meanwhile = [] \<rparr>"

definition example_state :: "nat ExecutorState" where
  "example_state = \<lparr> es_manager = example_manager, es_audit = [], es_patterns = [], es_emergency = normal,
     es_world = 7, es_results = [] \<rparr>"

lemma example_request:
  "getRequest example_manager ''q1'' = Some (hd (am_rows example_manager))"
  by (simp add: getRequest_def sql_get_def example_manager_rows newRequest_def)

lemma example_claim:
  "claimExecution ''q1'' who now example_manager =
     (True, example_manager\<lparr>am_rows := [(hd (am_rows example_manager))\<lparr>ar_claimed_at := Some now,
        ar_claimed_by := Some who, ar_boot_id := Some ''b1'', ar_outcome := None\<rparr>]\<rparr>)"
proof -
  have "am_bootId example_manager = ''b1''"
    by (simp add: example_manager_def applyOp_bootId del: applyOp.simps)
  then show ?thesis
    by (simp add: claimExecution_def withRows_def sql_update_def example_manager_rows claimable_def newRequest_def)
qed

lemma example_args: "JSON_parse (ar_tool_arguments (hd (am_rows example_manager))) =
    Some (JObj [(''command'', JStr ''ls'')])"
proof -
  have "ar_tool_arguments (hd (am_rows example_manager)) = JSON_stringify (JObj [(''command'', JStr ''ls'')])"
    by (simp add: example_manager_rows newRequest_def example_create_def del: JSON_stringify.simps)
  then show ?thesis by (simp add: JSON_parse_printed del: JSON_stringify.simps)
qed

lemma example_execution:
  "fst (executeApprovedWithReceipt example_regs example_executor example_turn ''q1'' ''chat'' example_state) =
     (True, ''ok'')"
  "es_world (snd (executeApprovedWithReceipt example_regs example_executor example_turn ''q1'' ''chat'' example_state)) = 8"
proof -
  define r where "r = hd (am_rows example_manager)"
  have r: "ar_status r = approved" "ar_execution_mode r = deferred" "ar_tool_name r = ''run_command''"
    by (simp_all add: r_def example_manager_rows newRequest_def example_create_def)
  have args: "JSON_parse (ar_tool_arguments r) = Some (JObj [(''command'', JStr ''ls'')])"
    by (simp add: r_def example_args)
  have "runClaimed example_regs example_executor example_turn ''q1'' r 0 st =
      dispatchApproved example_regs example_executor example_turn ''q1'' r 0 (JObj [(''command'', JStr ''ls'')]) st" for st
    by (simp add: runClaimed_def args r rawUiGate_def REVIEWED_UI_TOOLS_def resolveToolGate_def callGate_def
        example_regs_def reg_get_def count_tool_def Let_def)
  then show "fst (executeApprovedWithReceipt example_regs example_executor example_turn ''q1'' ''chat'' example_state) =
     (True, ''ok'')"
    and "es_world (snd (executeApprovedWithReceipt example_regs example_executor example_turn ''q1'' ''chat'' example_state)) = 8"
    by (simp_all add: executeApprovedWithReceipt_def example_state_def example_request example_claim r
        r_def [symmetric] example_executor_def canExecute_def dispatchApproved_def example_turn_def
        reg_execute_def example_regs_def count_tool_def validateParameters_def Let_def split: prod.split)
qed

theorem executor_leaves_receipt_witness:
  "\<exists>r'. getRequest (es_manager (snd (executeApprovedWithReceipt example_regs example_executor example_turn
       ''q1'' ''chat'' example_state))) ''q1'' = Some r' \<and> ar_status r' = executed"
proof -
  have "approval_reachable (es_manager example_state)"
    by (simp add: example_state_def example_manager_reachable)
  moreover have "getRequest (es_manager example_state) ''q1'' = Some (hd (am_rows example_manager))"
    by (simp add: example_state_def example_request)
  ultimately show ?thesis
    using executor_leaves_receipt [of example_state example_regs example_executor example_turn "''q1''" "''chat''",
        OF _ _ _ refl] example_execution(1)
    by (metis fst_conv)
qed

lemma dispatch_world:
  "es_world (snd (dispatchApproved regs ex turn i r rg args st)) =
     snd (reg_execute (regs rg) (et_fence turn) (ar_tool_name r) args (es_world st))"
  by (auto simp: dispatchApproved_def closeOut_def Let_def split: prod.split sum.split)

lemma closeOut_world [simp]: "es_world (closeOut ex i res shown out now st) = es_world st"
  "es_patterns (closeOut ex i res shown out now st) = es_patterns st"
  "es_audit (closeOut ex i res shown out now st) = es_audit st"
  by (simp_all add: closeOut_def)

lemma reg_execute_world:
  "snd (reg_execute reg fence name args w) \<noteq> w \<Longrightarrow>
     \<exists>tool. reg_get reg name = Some tool \<and> validateParameters tool args = None \<and> fence = None"
  by (auto simp: reg_execute_def reg_get_def split: option.splits)

lemma resolveToolGate_ui:
  "rawUiGate name args \<noteq> None \<Longrightarrow> rg_confirm (resolveToolGate tool name args) = Some confirm_always"
  by (auto simp: resolveToolGate_def rawUiGate_def Let_def split: if_splits)

text \<open>When the claimed run may touch the world: the reviewed call, dispatched where it was reviewed.\<close>

definition dispatchable :: "'w Registries \<Rightarrow> nat \<Rightarrow> ApprovalRequest \<Rightarrow> 'w ExecutorState \<Rightarrow> bool" where
  "dispatchable regs toolRegistry r st =
     (case JSON_parse (ar_tool_arguments r) of
        None \<Rightarrow> False
      | Some args \<Rightarrow>
          \<exists>rg tool. reg_get (regs rg) (ar_tool_name r) = Some tool \<and> validateParameters tool args = None \<and>
            (if rawUiGate (ar_tool_name r) args \<noteq> None
             then approvalNeedsClick (ar_context r) \<and>
               getUiExecutionRegistry regs (es_world st) (es_manager st) r = Some rg
             else rg = toolRegistry))"

lemma runClaimed_world:
  assumes "es_world (snd (runClaimed regs ex turn i r toolRegistry st)) \<noteq> es_world st"
  shows "dispatchable regs toolRegistry r st"
proof (cases "JSON_parse (ar_tool_arguments r)")
  case None
  with assms show ?thesis by (simp add: runClaimed_def Let_def)
next
  case (Some args)
  define registry where "registry = (if rawUiGate (ar_tool_name r) args \<noteq> None
      then getUiExecutionRegistry regs (es_world st) (es_manager st) r else Some toolRegistry)"
  define gate where "gate = resolveToolGate (case registry of None \<Rightarrow> None
      | Some rg \<Rightarrow> reg_get (regs rg) (ar_tool_name r)) (ar_tool_name r) args"
  let ?refused = "rg_confirm gate = Some confirm_always \<and> \<not> approvalNeedsClick (ar_context r)"
  have run: "\<not> ?refused \<Longrightarrow> registry = Some rg \<Longrightarrow> runClaimed regs ex turn i r toolRegistry st =
      dispatchApproved regs ex turn i r rg args st" for rg
    by (auto simp: runClaimed_def Some registry_def gate_def Let_def)
  have kept: "?refused \<or> registry = None \<Longrightarrow> es_world (snd (runClaimed regs ex turn i r toolRegistry st)) = es_world st"
    by (auto simp: runClaimed_def Some registry_def gate_def Let_def split: option.split)
  from assms kept have ok: "\<not> ?refused" by blast
  from assms kept obtain rg where rg: "registry = Some rg" by (cases registry) auto
  from assms run [OF ok rg] have "es_world (snd (dispatchApproved regs ex turn i r rg args st)) \<noteq> es_world st"
    by simp
  then obtain tool where "reg_get (regs rg) (ar_tool_name r) = Some tool" "validateParameters tool args = None"
    using reg_execute_world [of "regs rg" "et_fence turn" "ar_tool_name r" args "es_world st"]
    by (auto simp: dispatch_world)
  moreover have "rawUiGate (ar_tool_name r) args \<noteq> None \<Longrightarrow> approvalNeedsClick (ar_context r)"
    using ok resolveToolGate_ui by (auto simp: gate_def)
  ultimately show ?thesis
    using rg unfolding dispatchable_def Some option.case registry_def
    by (intro exI [of _ rg] exI [of _ tool]) (simp split: if_splits)
qed

lemma execute_effect:
  assumes "ids_unique (es_manager st)"
    and "es_world (snd (executeApprovedWithReceipt regs ex turn i who st)) \<noteq> es_world st"
  shows "\<exists>r toolRegistry. getRequest (es_manager st) i = Some r \<and> ar_status r = approved \<and>
    ar_claimed_at r = None \<and> ar_execution_mode r \<noteq> workflow \<and> ex_toolRegistry ex = Some toolRegistry \<and>
    (ex_emergencyController ex \<longrightarrow> es_emergency st = normal) \<and>
    dispatchable regs toolRegistry r
      (st\<lparr>es_manager := snd (claimExecution i who (et_claimAt turn) (es_manager st))\<rparr>)"
proof -
  obtain b am' where claim: "claimExecution i who (et_claimAt turn) (es_manager st) = (b, am')"
    by (cases "claimExecution i who (et_claimAt turn) (es_manager st)")
  have run: "runClaimed regs ex turn i r rg st' = (res, st'') \<Longrightarrow> es_world st'' \<noteq> es_world st' \<Longrightarrow>
      dispatchable regs rg r st'" for r rg st' res st''
    using runClaimed_world [of regs ex turn i r rg st'] by simp
  show ?thesis
    using assms(2) claimExecution_wins [OF assms(1), of i who "et_claimAt turn"]
    by (auto simp: executeApprovedWithReceipt_def claim Let_def claimable_def canExecute_def
        split: option.splits prod.splits if_splits dest!: run)
qed

text \<open>C2: nothing runs without an approval that is still good.  If an execution changes the world the tools act
  on, then the request was approved, unclaimed and not owned by a workflow, the system was in normal state if an
  emergency controller is wired, the tool is registered and its recorded arguments validate, and a
  raw user-interface action carries a click-only review and runs in the session it was reviewed in.\<close>

theorem executor_effect_needs_approval:
  assumes "ids_unique (es_manager st)"
    and "es_world (snd (executeApprovedWithReceipt regs ex turn i who st)) \<noteq> es_world st"
  shows "\<exists>r toolRegistry. getRequest (es_manager st) i = Some r \<and> ar_status r = approved \<and>
    ar_claimed_at r = None \<and> ar_execution_mode r \<noteq> workflow \<and> ex_toolRegistry ex = Some toolRegistry \<and>
    (ex_emergencyController ex \<longrightarrow> es_emergency st = normal) \<and>
    dispatchable regs toolRegistry r
      (st\<lparr>es_manager := snd (claimExecution i who (et_claimAt turn) (es_manager st))\<rparr>)"
  by (rule execute_effect [OF assms])

theorem executor_effect_needs_approval_witness:
  "\<exists>r. getRequest example_manager ''q1'' = Some r \<and> ar_status r = approved \<and> ar_claimed_at r = None"
proof -
  have "ids_unique (es_manager example_state)"
    by (simp add: example_state_def approval_reachable_unique example_manager_reachable)
  moreover have "es_world example_state = 7" "es_manager example_state = example_manager"
    by (simp_all add: example_state_def)
  ultimately show ?thesis
    using executor_effect_needs_approval [of example_state example_regs example_executor example_turn "''q1''" "''chat''"]
      example_execution(2)
    by auto
qed

text \<open>approvals that say nothing about the category are not learned from.  When the recorded reason names
  the taint gate or an above-level substitution, an execution leaves the learner's table alone; in any case it
  adds at most one row to the audit trail, for this request and marked as executed.\<close>

theorem executor_learns_only_plain:
  assumes "getRequest (es_manager st) i = Some r"
  shows "(js_includes (ar_reason r) TAINT_PROFILE_LABEL \<or> js_includes (ar_reason r) ABOVE_LEVEL_SUBSTITUTION \<longrightarrow>
       es_patterns (snd (executeApprovedWithReceipt regs ex turn i who st)) = es_patterns st) \<and>
    (es_audit (snd (executeApprovedWithReceipt regs ex turn i who st)) = es_audit st \<or>
     es_audit (snd (executeApprovedWithReceipt regs ex turn i who st)) =
       es_audit st @ [auditRow (et_auditId turn) (et_doneAt turn) (executionEntry r i (et_elapsed turn))])"
proof -
  have d: "dispatchApproved regs ex turn i r rg args st0 = (res, st') \<Longrightarrow>
      (\<not> learnable (ar_reason r) \<longrightarrow> es_patterns st' = es_patterns st0) \<and>
      (es_audit st' = es_audit st0 \<or>
       es_audit st' = es_audit st0 @ [auditRow (et_auditId turn) (et_doneAt turn) (executionEntry r i (et_elapsed turn))])"
    for rg args st0 res st'
    by (auto simp: dispatchApproved_def audit_log_def Let_def split: prod.splits sum.splits if_splits)
  have c: "runClaimed regs ex turn i r rg st0 = (res, st') \<Longrightarrow>
      (\<not> learnable (ar_reason r) \<longrightarrow> es_patterns st' = es_patterns st0) \<and>
      (es_audit st' = es_audit st0 \<or>
       es_audit st' = es_audit st0 @ [auditRow (et_auditId turn) (et_doneAt turn) (executionEntry r i (et_elapsed turn))])"
    for rg st0 res st'
    using d by (fastforce simp: runClaimed_def Let_def split: option.splits if_splits)
  show ?thesis
    using assms
    by (auto simp: executeApprovedWithReceipt_def Let_def learnable_def split: option.split prod.split dest!: c)
qed

theorem executor_learns_only_plain_witness:
  "es_audit (snd (executeApprovedWithReceipt example_regs example_executor example_turn ''q1'' ''chat'' example_state))
     \<in> {[], [auditRow ''u1'' 40 (executionEntry (hd (am_rows example_manager)) ''q1'' 10)]}"
proof -
  have "getRequest (es_manager example_state) ''q1'' = Some (hd (am_rows example_manager))"
    by (simp add: example_state_def example_request)
  from executor_learns_only_plain [OF this, of example_regs example_executor example_turn "''chat''"] show ?thesis
    by (auto simp: example_state_def example_turn_def)
qed

end
