(* ===== verification/Orchestrator_Gate.thy ===== *)
theory Orchestrator_Gate
  imports Deferred_Executor Untrusted
begin

text \<open>
  The authority gate of the orchestrator, \<^verbatim>\<open>src/agents/orchestrator.ts\<close>: temporary grants, turn taint,
  \<open>executeToolInner\<close> (the gate in front of every tool call of a text turn) and
  \<open>executeRealtimeToolCallInner\<close> (the gate of a realtime voice session, which approves by itself).

  The turn's taint set is threaded through the state; console output and the warning about a
  missing engine are not modelled.  Waiting for a decision runs over the turns of the poll, each with the
  operations others made before it.
\<close>

section \<open>State and wiring\<close>

record PrimaryAgent =
  pa_id :: string
  pa_max_authority_level :: int
  pa_role_id :: string
  pa_role_name :: string

record 'w OrchState =
  os_exec :: "'w ExecutorState"
  os_taint :: "string list"
  os_grants :: TemporaryGrants

record Orchestrator =
  or_toolRegistry :: "nat option"
  or_emergencyController :: bool
  or_primary :: "PrimaryAgent option"
  or_authorityEngine :: "AuthorityConfig option"
  or_approvalManager :: bool
  or_deferredExecutor :: "Executor option"
  or_auditTrail :: bool
  or_authorityProfile :: "AuthorityProfile option"
  or_taintGating :: "TaintGating option"

text \<open>What a call reads from its surroundings: the hour, clocks, fresh ids, the turns of the wait.\<close>

record 'w WaitTurn =
  wt_ops :: "'w WorldOp list"
  wt_aborted :: bool
  wt_now :: int

record 'w OrchTurn =
  ot_hour :: int
  ot_now :: int
  ot_auditId :: string
  ot_requestId :: string
  ot_fence :: "ToolError option"
  ot_wait :: "'w WaitTurn list"
  ot_exec :: "'w ExecTurn"

datatype ToolOutput = OutText string | OutBlocks "ContentBlock list"
datatype ToolReply = Reply ToolOutput | Waiting | Threw string

section \<open>Grants and taint\<close>

definition grantTemporary :: "string \<Rightarrow> ActionCategory \<Rightarrow> TemporaryGrants \<Rightarrow> TemporaryGrants" where
  "grantTemporary agentId action grants =
     (let existing = (case js_get grants agentId of None \<Rightarrow> [] | Some g \<Rightarrow> g)
      in if action \<notin> set existing then js_set agentId (existing @ [action]) grants else grants)"

definition revokeTemporary :: "string \<Rightarrow> ActionCategory \<Rightarrow> TemporaryGrants \<Rightarrow> TemporaryGrants" where
  "revokeTemporary agentId action grants =
     (case js_get grants agentId of
        None \<Rightarrow> grants
      | Some existing \<Rightarrow> js_set agentId (filter (\<lambda>a. a \<noteq> action) existing) grants)"

definition clearTemporaryGrants :: "string \<Rightarrow> TemporaryGrants \<Rightarrow> TemporaryGrants" where
  "clearTemporaryGrants agentId grants = js_delete agentId grants"

definition addTaint :: "string \<Rightarrow> string list \<Rightarrow> string list" where
  "addTaint name taint = (if name \<in> set taint then taint else taint @ [name])"

definition noteTaint :: "string \<Rightarrow> string option \<Rightarrow> 'w OrchState \<Rightarrow> 'w OrchState" where
  "noteTaint toolName category st =
     (if isTaintSourceTool toolName category then st\<lparr>os_taint := addTaint toolName (os_taint st)\<rparr> else st)"

definition resetRealtimeTaint :: "'w OrchState \<Rightarrow> 'w OrchState" where
  "resetRealtimeTaint st = st\<lparr>os_taint := []\<rparr>"

text \<open>The tool calls of earlier assistant messages, by name.\<close>

definition seedTaintFromHistory :: "string list list \<Rightarrow> string list \<Rightarrow> 'w ToolRegistry option \<Rightarrow> string list" where
  "seedTaintFromHistory history taint registry =
     fold (\<lambda>calls t. fold (\<lambda>name t.
         if isTaintSourceTool name
              (case registry of None \<Rightarrow> None | Some reg \<Rightarrow> map_option td_category (reg_get reg name))
         then addTaint name t else t) calls t) history taint"

definition getEffectiveProfile :: "Orchestrator \<Rightarrow> string list \<Rightarrow> AuthorityProfile option" where
  "getEffectiveProfile orch taint =
     mergeProfiles (or_authorityProfile orch) (taintProfile (or_taintGating orch) taint)"

definition auditAgentName :: "Orchestrator \<Rightarrow> string \<Rightarrow> string" where
  "auditAgentName orch roleName =
     (case or_authorityProfile orch of
        None \<Rightarrow> roleName
      | Some p \<Rightarrow> if js_truthy (pf_label p) then roleName @ '' ('' @ the (pf_label p) @ '')'' else roleName)"

definition determineUrgency :: "ActionCategory \<Rightarrow> ApprovalUrgency" where
  "determineUrgency category = (if category = make_payment then urgent else normal_urgency)"

section \<open>The decision on one call\<close>

definition toolCheck ::
    "AuthorityConfig \<Rightarrow> int \<Rightarrow> Orchestrator \<Rightarrow> PrimaryAgent \<Rightarrow> 'w OrchState \<Rightarrow> string \<Rightarrow> string \<Rightarrow>
     ActionCategory \<Rightarrow> AuthorityDecision" where
  "toolCheck cfg hour orch primary st name toolCategory category =
     checkAuthority cfg hour
       \<lparr> cp_agentId = pa_id primary, cp_agentAuthorityLevel = pa_max_authority_level primary,
         cp_agentRoleId = pa_role_id primary, cp_toolName = name, cp_toolCategory = toolCategory,
         cp_actionCategory = category, cp_temporaryGrants = os_grants st,
         cp_profile = getEffectiveProfile orch (os_taint st) \<rparr>"

text \<open>The substitution of an approval for a pure level denial, then the mandatory confirmation.\<close>

definition substituteAboveLevel ::
    "(ActionCategory \<Rightarrow> AuthorityDecision) \<Rightarrow> ResolvedToolGate \<Rightarrow> AuthorityDecision \<Rightarrow> AuthorityDecision" where
  "substituteAboveLevel check gate decision =
     (if rg_confirm gate \<noteq> None \<and> \<not> allowed decision \<and> deniedByLevel decision \<and>
         actionCategory decision \<noteq> rg_floorCategory gate then
        (let floor = check (rg_floorCategory gate) in
         if allowed floor then
           floor\<lparr>allowed := True, requiresApproval := True, actionCategory := actionCategory decision,
             reason := category_name (actionCategory decision) @ '' '' @ ABOVE_LEVEL_SUBSTITUTION @
               (if js_truthy (profileLabel floor) then '' ('' @ the (profileLabel floor) @ '')'' else []) @
               '' and requires user approval''\<rparr>
         else decision)
      else decision)"

definition confirmAlways :: "string \<Rightarrow> ResolvedToolGate \<Rightarrow> AuthorityDecision \<Rightarrow> AuthorityDecision" where
  "confirmAlways name gate decision =
     (if rg_confirm gate = Some confirm_always \<and> allowed decision \<and> \<not> requiresApproval decision
      then decision\<lparr>requiresApproval := True, reason := name @ '' requires user approval''\<rparr>
      else decision)"

definition gateDecision ::
    "(ActionCategory \<Rightarrow> AuthorityDecision) \<Rightarrow> string \<Rightarrow> ResolvedToolGate \<Rightarrow> EngineError + AuthorityDecision" where
  "gateDecision check name gate =
     (case combineDecisions (map check (rg_categories gate)) of
        Inl e \<Rightarrow> Inl e
      | Inr decision \<Rightarrow> Inr (confirmAlways name gate (substituteAboveLevel check gate decision)))"

section \<open>Dispatch and framing\<close>

definition MAX_TOOL_RESULT_CHARS :: nat where
  "MAX_TOOL_RESULT_CHARS = 6000"

definition APPROVAL_WAIT_TIMEOUT_MS :: int where
  "APPROVAL_WAIT_TIMEOUT_MS = 2 * 60 * 1000"

text \<open>\<open>isToolResult\<close>: an object with an array of content blocks; a block that is not text is an image.\<close>

definition json_string :: "json option \<Rightarrow> string" where
  "json_string j = (case j of Some (JStr s) \<Rightarrow> s | _ \<Rightarrow> [])"

definition block_of_json :: "json \<Rightarrow> ContentBlock" where
  "block_of_json b =
     (if json_get b ''type'' = Some (JStr ''text'') then TextBlock (json_string (json_get b ''text''))
      else let src = (case json_get b ''source'' of None \<Rightarrow> JNull | Some s \<Rightarrow> s)
           in ImageBlock \<lparr> img_media_type = json_string (json_get src ''media_type''),
                           img_data = json_string (json_get src ''data'') \<rparr>)"

definition isToolResult :: "json \<Rightarrow> ContentBlock list option" where
  "isToolResult raw =
     (case json_get raw ''content'' of Some (JArr xs) \<Rightarrow> Some (map block_of_json xs) | _ \<Rightarrow> None)"

definition execWorld :: "'w \<Rightarrow> 'w OrchState \<Rightarrow> 'w OrchState" where
  "execWorld w' st = st\<lparr>os_exec := (os_exec st)\<lparr>es_world := w'\<rparr>\<rparr>"

text \<open>Normal execution: dispatch, note the taint, cap and frame.\<close>

definition runTool ::
    "'w Registries \<Rightarrow> nat \<Rightarrow> ToolError option \<Rightarrow> string \<Rightarrow> json \<Rightarrow> 'w OrchState \<Rightarrow> ToolOutput \<times> 'w OrchState" where
  "runTool regs registry fence name args st =
     (let (out, w') = reg_execute (regs registry) fence name args (es_world (os_exec st));
          category = map_option td_category (reg_get (regs registry) name);
          st1 = execWorld w' st
      in case out of
        Inr raw \<Rightarrow>
          (let st2 = noteTaint name category st1 in
           case isToolResult raw of
             Some blocks \<Rightarrow> (OutBlocks (markUntrustedToolBlocks name category (map guardImageSize blocks)), st2)
           | None \<Rightarrow>
               (OutText (markUntrustedToolResult name category (capResult MAX_TOOL_RESULT_CHARS (result_text raw))), st2))
      | Inl (ActionOutcomeError m) \<Rightarrow>
          (OutText (markUntrustedToolFailure name category m MAX_TOOL_RESULT_CHARS), noteTaint name category st1)
      | Inl (PlainError m) \<Rightarrow> (OutText (''Error executing '' @ name @ '': '' @ m), st1))"

section \<open>Waiting for the decision\<close>

text \<open>The poll of the wait over the manager itself; the result and the manager it left.\<close>

fun waitInline ::
    "string \<Rightarrow> int \<Rightarrow> int \<Rightarrow> 'w WaitTurn list \<Rightarrow> 'w ApprovalManager \<Rightarrow>
     (ApprovalError + ApprovalRequest) option \<times> 'w ApprovalManager" where
  "waitInline requestId timeoutMs start [] am = (None, am)"
| "waitInline requestId timeoutMs start (t # ts) am =
     (let am1 = runOps (wt_ops t) am in
      case getRequest am1 requestId of
        None \<Rightarrow> (Some (Inl (RequestNotFound requestId)), am1)
      | Some current \<Rightarrow>
          if ar_status current \<noteq> pending then (Some (Inr current), am1)
          else if wt_aborted t then (Some (Inr current), am1)
          else if wt_now t - start \<ge> timeoutMs then (Some (Inr current), am1)
          else waitInline requestId timeoutMs start ts am1)"

text \<open>What the turns of the poll see, for the reading of the wait over observations.\<close>

fun pollObservations :: "string \<Rightarrow> 'w WaitTurn list \<Rightarrow> 'w ApprovalManager \<Rightarrow> PollObservation list" where
  "pollObservations requestId [] am = []"
| "pollObservations requestId (t # ts) am =
     (let am1 = runOps (wt_ops t) am
      in \<lparr> po_row = getRequest am1 requestId, po_aborted = wt_aborted t, po_now = wt_now t \<rparr> #
         pollObservations requestId ts am1)"

lemma waitInline_observes:
  "fst (waitInline i timeoutMs start ts am) = waitForResolution i timeoutMs start (pollObservations i ts am)"
  by (induction ts arbitrary: am) (auto simp: Let_def split: option.split)


section \<open>The gate of a text turn\<close>

definition logDecision ::
    "Orchestrator \<Rightarrow> 'w OrchTurn \<Rightarrow> LogEntry \<Rightarrow> 'w OrchState \<Rightarrow> 'w OrchState" where
  "logDecision orch turn entry st =
     (if or_auditTrail orch then
        st\<lparr>os_exec := (os_exec st)\<lparr>es_audit :=
          snd (audit_log (ot_auditId turn) (ot_now turn) entry (es_audit (os_exec st)))\<rparr>\<rparr>
      else st)"

definition gateEntry ::
    "PrimaryAgent \<Rightarrow> string \<Rightarrow> string \<Rightarrow> ActionCategory \<Rightarrow> AuthorityDecisionType \<Rightarrow> bool \<Rightarrow>
     ResolutionChannel option \<Rightarrow> LogEntry" where
  "gateEntry primary agentName name category d didRun channel =
     \<lparr> le_agent_id = pa_id primary, le_agent_name = agentName, le_tool_name = name,
       le_action_category = category, le_authority_decision = d, le_approval_id = None, le_executed = didRun,
       le_execution_time_ms = None, le_channel = channel \<rparr>"

definition decisionType :: "AuthorityDecision \<Rightarrow> AuthorityDecisionType" where
  "decisionType d = (if allowed d then (if requiresApproval d then d_approval_required else d_allowed) else d_denied)"

definition deniedText :: "string \<Rightarrow> string" where
  "deniedText name = ''[APPROVAL DENIED] The user denied permission to execute '' @ name @
     ''. Do not retry the action. Briefly tell the user it was not performed.''"

definition executedText :: "string \<Rightarrow> string option \<Rightarrow> string" where
  "executedText name result = (case result of Some t \<Rightarrow> t | None \<Rightarrow> ''[EXECUTED] '' @ name @ '' completed.'')"

definition awaitingText :: "string \<Rightarrow> string \<Rightarrow> AuthorityDecision \<Rightarrow> string \<Rightarrow> string" where
  "awaitingText requestId name decision rest =
     ''[AWAITING_APPROVAL] Request #'' @ take 8 requestId @ '' submitted. Action: '' @ name @ '' ('' @
     category_name (actionCategory decision) @ ''). Reason: '' @ reason decision @ ''. '' @ rest"

text \<open>Running the approved request inline, or surfacing a result another path recorded.\<close>

definition frameResult :: "string \<Rightarrow> string option \<Rightarrow> string \<Rightarrow> 'w OrchState \<Rightarrow> ToolReply \<times> 'w OrchState" where
  "frameResult name category t st =
     (Reply (OutText (markUntrustedToolResult name category t)), noteTaint name category st)"

definition runInline ::
    "'w Registries \<Rightarrow> Executor \<Rightarrow> 'w OrchTurn \<Rightarrow> string \<Rightarrow> string option \<Rightarrow> 'w OrchState \<Rightarrow>
     ToolReply \<times> 'w OrchState" where
  "runInline regs ex turn name category st =
     (let (t, exec') = executeApproved regs ex (ot_exec turn) (ot_requestId turn) ''inline-gate'' (os_exec st)
      in frameResult name category t (st\<lparr>os_exec := exec'\<rparr>))"

definition withManager :: "'w ApprovalManager \<Rightarrow> 'w OrchState \<Rightarrow> 'w OrchState" where
  "withManager am st = st\<lparr>os_exec := (os_exec st)\<lparr>es_manager := am\<rparr>\<rparr>"

text \<open>What follows the wait, by the status it returned.\<close>

definition afterWait ::
    "'w Registries \<Rightarrow> Executor \<Rightarrow> 'w OrchTurn \<Rightarrow> string \<Rightarrow> string option \<Rightarrow> AuthorityDecision \<Rightarrow>
     ApprovalRequest \<Rightarrow> 'w OrchState \<Rightarrow> ToolReply \<times> 'w OrchState" where
  "afterWait regs ex turn name category decision resolved st =
     (let i = ot_requestId turn;
          awaiting = Reply (OutText (awaitingText i name decision
            ''The user has not responded yet. They can still approve or deny it later; if approved later, it will be executed and the user will be notified.''))
      in case ar_status resolved of
        approved \<Rightarrow> runInline regs ex turn name category st
      | executed \<Rightarrow> frameResult name category (executedText name (ar_execution_result resolved)) st
      | denied \<Rightarrow> (Reply (OutText (deniedText name)), st)
      | expired \<Rightarrow>
          (Reply (OutText (''[APPROVAL EXPIRED] The approval request for '' @ name @
             '' expired before the user decided. Ask the user whether they still want this done.'')), st)
      | pending \<Rightarrow>
          (let (demoted, am') = demoteToDeferred i (es_manager (os_exec st));
               st' = withManager am' st
           in if demoted then (awaiting, st')
              else (case getRequest am' i of
                None \<Rightarrow> (awaiting, st')
              | Some recheck \<Rightarrow>
                  (case ar_status recheck of
                     approved \<Rightarrow> runInline regs ex turn name category st'
                   | executed \<Rightarrow> frameResult name category (executedText name (ar_execution_result recheck)) st'
                   | denied \<Rightarrow> (Reply (OutText (deniedText name)), st')
                   | _ \<Rightarrow> (awaiting, st')))))"

text \<open>The approval branch: create the request, then defer it or wait for it.\<close>

definition askApproval ::
    "'w Registries \<Rightarrow> Orchestrator \<Rightarrow> 'w OrchTurn \<Rightarrow> PrimaryAgent \<Rightarrow> nat \<Rightarrow> string \<Rightarrow> json \<Rightarrow> ResolvedToolGate \<Rightarrow>
     AuthorityDecision \<Rightarrow> 'w OrchState \<Rightarrow> ToolReply \<times> 'w OrchState" where
  "askApproval regs orch turn primary registry name args gate decision st =
     (let category = map_option td_category (reg_get (regs registry) name);
          params = \<lparr> crp_agentId = pa_id primary, crp_agentName = auditAgentName orch (pa_role_name primary),
            crp_toolName = name, crp_toolArguments = args, crp_actionCategory = actionCategory decision,
            crp_urgency = determineUrgency (actionCategory decision), crp_reason = reason decision,
            crp_context = gateContext gate name args,
            crp_executionMode = Some (if or_deferredExecutor orch \<noteq> None then inline else deferred),
            crp_toolRegistry = Some registry \<rparr>
      in case createRequest regs (es_world (os_exec st)) (ot_requestId turn) (ot_now turn) params (es_manager (os_exec st)) of
        Inl e \<Rightarrow> (Threw ''UNIQUE constraint failed: approval_requests.id'', st)
      | Inr (request, am1) \<Rightarrow>
          (case or_deferredExecutor orch of
             None \<Rightarrow> (Reply (OutText (awaitingText (ot_requestId turn) name decision
                 ''The user will be notified and can approve or deny this action.'')), withManager am1 st)
           | Some ex \<Rightarrow>
               (let (res, am2) = waitInline (ot_requestId turn) APPROVAL_WAIT_TIMEOUT_MS (ot_now turn) (ot_wait turn) am1;
                    st2 = withManager am2 st
                in case res of
                  None \<Rightarrow> (Waiting, st2)
                | Some (Inl e) \<Rightarrow> (Threw (''Approval request '' @ ot_requestId turn @ '' not found''), st2)
                | Some (Inr resolved) \<Rightarrow> afterWait regs ex turn name category decision resolved st2)))"

definition executeToolInner ::
    "'w Registries \<Rightarrow> Orchestrator \<Rightarrow> 'w OrchTurn \<Rightarrow> string \<Rightarrow> json \<Rightarrow> 'w OrchState \<Rightarrow> ToolReply \<times> 'w OrchState" where
  "executeToolInner regs orch turn name args st =
     (case or_toolRegistry orch of
        None \<Rightarrow> (Reply (OutText ''Error: No tool registry configured''), st)
      | Some registry \<Rightarrow>
          if or_emergencyController orch \<and> \<not> canExecute (es_emergency (os_exec st)) then
            (Reply (OutText (''[SYSTEM '' @ emergency_upper (es_emergency (os_exec st)) @
               ''] All tool execution is currently suspended. The user has '' @
               emergency_name (es_emergency (os_exec st)) @ '' the system.'')), st)
          else if name = ''request_approval'' then
            (let (out, w') = reg_execute (regs registry) (ot_fence turn) name args (es_world (os_exec st))
             in (case out of
                   Inr raw \<Rightarrow>
                     (case isToolResult raw of
                        Some blocks \<Rightarrow> Reply (OutBlocks (map guardImageSize blocks))
                      | None \<Rightarrow> Reply (OutText (result_text raw)))
                 | Inl e \<Rightarrow> Reply (OutText (''Error executing request_approval: '' @ error_message e)),
                 execWorld w' st))
          else if or_authorityEngine orch \<noteq> None \<and> or_primary orch = None then
            (Reply (OutText (''[AUTHORITY DENIED] Cannot execute '' @ name @ '': no primary agent is active.'')), st)
          else if \<not> reg_has (regs registry) name then
            (Reply (OutText (''Error: no tool named '' @ [dquote] @ name @ [dquote] @
               '' is available. Call discover_tools to see what is.'')), st)
          else (case (or_authorityEngine orch, or_primary orch) of
            (Some cfg, Some primary) \<Rightarrow>
              (let tool = reg_get (regs registry) name;
                   gate = resolveToolGate tool name args;
                   check = toolCheck cfg (ot_hour turn) orch primary st name
                     (case tool of None \<Rightarrow> ''unknown'' | Some t \<Rightarrow> td_category t)
               in case gateDecision check name gate of
                 Inl e \<Rightarrow> (Threw ''combineDecisions: no decisions'', st)
               | Inr decision \<Rightarrow>
                   (let agentName = auditAgentName orch (pa_role_name primary);
                        st1 = logDecision orch turn (gateEntry primary agentName name (actionCategory decision)
                          (decisionType decision) (allowed decision \<and> \<not> requiresApproval decision) None) st
                    in if \<not> allowed decision then
                         (Reply (OutText (''[AUTHORITY DENIED] Cannot execute '' @ name @ '': '' @ reason decision @
                            ''. Your authority level is insufficient for '' @ category_name (actionCategory decision) @
                            '' actions.'')), st1)
                       else if requiresApproval decision \<and> or_approvalManager orch then
                         askApproval regs orch turn primary registry name args gate decision st1
                       else if requiresApproval decision then
                         (Reply (OutText (''[APPROVAL UNAVAILABLE] '' @ name @ '' ('' @
                            category_name (actionCategory decision) @
                            '') requires user approval but no approval channel is configured. The action was not performed; tell the user what you wanted to do.'')),
                          logDecision orch turn (gateEntry primary agentName name (actionCategory decision)
                            d_approval_required False None) st1)
                       else (let (out, st2) = runTool regs registry (ot_fence turn) name args st1
                             in (Reply out, st2))))
          | _ \<Rightarrow> (let (out, st2) = runTool regs registry (ot_fence turn) name args st in (Reply out, st2))))"

text \<open>\<open>executeTool\<close> enters the turn's taint set for the duration of the call.\<close>

definition executeTool ::
    "'w Registries \<Rightarrow> Orchestrator \<Rightarrow> 'w OrchTurn \<Rightarrow> string \<Rightarrow> json \<Rightarrow> string list option \<Rightarrow> 'w OrchState \<Rightarrow>
     ToolReply \<times> string list \<times> 'w OrchState" where
  "executeTool regs orch turn name args taint st =
     (let (reply, st') = executeToolInner regs orch turn name args
            (st\<lparr>os_taint := (case taint of None \<Rightarrow> [] | Some t \<Rightarrow> t)\<rparr>)
      in (reply, os_taint st', st'\<lparr>os_taint := os_taint st\<rparr>))"

section \<open>The gate of a realtime voice session\<close>

definition flatBlocks :: "ContentBlock list \<Rightarrow> string" where
  "flatBlocks blocks = js_join newline (map (\<lambda>c. case c of TextBlock t \<Rightarrow> t | ImageBlock _ \<Rightarrow> ''[image]'') blocks)"

definition runRealtime ::
    "'w Registries \<Rightarrow> nat \<Rightarrow> ToolError option \<Rightarrow> string \<Rightarrow> json \<Rightarrow> 'w OrchState \<Rightarrow> string \<times> 'w OrchState" where
  "runRealtime regs registry fence name args st =
     (let category = map_option td_category (reg_get (regs registry) name);
          (out, w') = reg_execute (regs registry) fence name args (es_world (os_exec st));
          st1 = execWorld w' st
      in case out of
        Inr raw \<Rightarrow>
          (case isToolResult raw of
             Some blocks \<Rightarrow> (markUntrustedToolResult name category (flatBlocks blocks), noteTaint name category st1)
           | None \<Rightarrow> (markUntrustedToolResult name category (capResult MAX_TOOL_RESULT_CHARS (result_text raw)),
                      noteTaint name category st1))
      | Inl (ActionOutcomeError m) \<Rightarrow>
          (markUntrustedToolFailure name category m MAX_TOOL_RESULT_CHARS, noteTaint name category st1)
      | Inl (PlainError m) \<Rightarrow> (''Error executing '' @ name @ '': '' @ m, st1))"

definition executeRealtimeToolCall ::
    "'w Registries \<Rightarrow> Orchestrator \<Rightarrow> 'w OrchTurn \<Rightarrow> string \<Rightarrow> json \<Rightarrow> string list \<Rightarrow> 'w OrchState \<Rightarrow>
     string \<times> 'w OrchState" where
  "executeRealtimeToolCall regs orch turn name args blockedCategories st =
     (case or_toolRegistry orch of
        None \<Rightarrow> (''Error: No tool registry configured'', st)
      | Some registry \<Rightarrow>
          if or_emergencyController orch \<and> \<not> canExecute (es_emergency (os_exec st)) then
            (''[SYSTEM '' @ emergency_upper (es_emergency (os_exec st)) @ ''] Tool execution is currently suspended.'', st)
          else if \<not> reg_has (regs registry) name then
            (''Error: no tool named '' @ [dquote] @ name @ [dquote] @ '' is available.'', st)
          else
            (let tool = reg_get (regs registry) name;
                 gate = resolveToolGate tool name args;
                 category = rg_actionCategory gate;
                 logAudit = (\<lambda>d didRun. case or_primary orch of
                     None \<Rightarrow> st
                   | Some primary \<Rightarrow>
                       logDecision orch turn (gateEntry primary (pa_role_name primary) name category d didRun (Some voice)) st)
             in case List.find (\<lambda>c. category_name c \<in> set blockedCategories) (rg_categories gate) of
               Some b \<Rightarrow>
                 (''[BLOCKED] '' @ name @ '' ('' @ category_name b @
                  '') is in the realtime blocked-categories list and was not executed.'', logAudit d_denied False)
             | None \<Rightarrow>
                 if rg_confirm gate = Some confirm_always then
                   (''[BLOCKED] '' @ name @ '' needs the user'' @ [CHR 0x27] @
                    ''s confirmation in the dashboard and cannot be started from a voice session. Tell the user what you wanted to do and ask them to confirm it there.'',
                    logAudit d_denied False)
                 else (case (or_authorityEngine orch, or_primary orch) of
                   (Some cfg, Some primary) \<Rightarrow>
                     (case combineDecisions (map (toolCheck cfg (ot_hour turn) orch primary st name
                         (case tool of None \<Rightarrow> ''unknown'' | Some t \<Rightarrow> td_category t)) (rg_categories gate)) of
                        Inl e \<Rightarrow> (''combineDecisions: no decisions'', st)
                      | Inr decision \<Rightarrow>
                          if \<not> allowed decision then
                            (''[AUTHORITY DENIED] Cannot execute '' @ name @ '': '' @ reason decision @ ''.'',
                             logAudit d_denied False)
                          else if requiresApproval decision \<and>
                              (case profileLabel decision of None \<Rightarrow> False | Some l \<Rightarrow> js_includes l TAINT_PROFILE_LABEL) then
                            (''[BLOCKED] '' @ name @ '' ('' @ category_name category @
                             '') was not run: this session read outside content ('' @ js_join '', '' (os_taint st) @
                             '') and voice cannot approve it. Tell the user what you wanted to do and ask them to say it again as a fresh request.'',
                             logAudit d_denied False)
                          else runRealtime regs registry (ot_fence turn) name args
                                 (logAudit (if requiresApproval decision then d_approval_required else d_allowed) True))
                 | _ \<Rightarrow> runRealtime regs registry (ot_fence turn) name args st)))"


section \<open>The decision\<close>

lemma toolCheck_category [simp]: "actionCategory (toolCheck cfg hour orch pr st name tc c) = c"
  by (simp add: toolCheck_def)

lemma combine_hard:
  assumes "combineDecisions ds = Inr d" "\<not> allowed d"
  shows "deniedByLevel d \<longleftrightarrow> (\<forall>x \<in> set ds. allowed x \<or> deniedByLevel x)"
  using assms by (cases rule: combineDecisions_cases) auto

lemma gateDecision_total:
  "\<exists>d. gateDecision check name (resolveToolGate tool name args) = Inr d"
  using combineDecisions_total [of "map check (rg_categories (resolveToolGate tool name args))"]
    resolve_categories_ne [of tool name args]
  by (auto simp: gateDecision_def)

lemma confirmAlways_flags:
  "allowed (confirmAlways name gate d) = allowed d"
  "requiresApproval (confirmAlways name gate d) \<longleftrightarrow>
     requiresApproval d \<or> (rg_confirm gate = Some confirm_always \<and> allowed d)"
  by (auto simp: confirmAlways_def)

text \<open>A pure level shortfall that the gate may turn into a question.\<close>

definition substitutable :: "(ActionCategory \<Rightarrow> AuthorityDecision) \<Rightarrow> ResolvedToolGate \<Rightarrow> bool" where
  "substitutable check gate =
     (rg_confirm gate \<noteq> None \<and> allowed (check (rg_floorCategory gate)) \<and>
      list_all (\<lambda>c. allowed (check c) \<or> deniedByLevel (check c)) (rg_categories gate))"

lemma substitute_flags:
  assumes comb: "combineDecisions (map check (rg_categories gate)) = Inr d0"
    and cat: "\<And>c. actionCategory (check c) = c"
  shows "allowed (substituteAboveLevel check gate d0) \<longleftrightarrow> allowed d0 \<or> substitutable check gate"
    and "decision_rank (substituteAboveLevel check gate d0) = 0 \<longleftrightarrow> decision_rank d0 = 0"
proof -
  obtain c where c: "d0 = check c" "c \<in> set (rg_categories gate)"
    using combineDecisions_rank(1) [OF comb] by auto
  have lvl: "\<not> allowed d0 \<Longrightarrow> deniedByLevel d0 \<longleftrightarrow>
      (\<forall>c \<in> set (rg_categories gate). allowed (check c) \<or> deniedByLevel (check c))"
    using combine_hard [OF comb] by auto
  have "\<not> allowed d0 \<Longrightarrow> allowed (check (rg_floorCategory gate)) \<Longrightarrow> actionCategory d0 \<noteq> rg_floorCategory gate"
    using c cat by auto
  with lvl show "allowed (substituteAboveLevel check gate d0) \<longleftrightarrow> allowed d0 \<or> substitutable check gate"
    by (auto simp: substituteAboveLevel_def substitutable_def list_all_iff Let_def)
  show "decision_rank (substituteAboveLevel check gate d0) = 0 \<longleftrightarrow> decision_rank d0 = 0"
    by (auto simp: substituteAboveLevel_def decision_rank_def Let_def)
qed

lemma gateDecision_flags:
  assumes "gateDecision check name gate = Inr d" and cat: "\<And>c. actionCategory (check c) = c"
  shows "decision_rank d = 0 \<longleftrightarrow>
      (\<forall>c \<in> set (rg_categories gate). decision_rank (check c) = 0) \<and> rg_confirm gate \<noteq> Some confirm_always"
    and "allowed d \<longleftrightarrow> (\<forall>c \<in> set (rg_categories gate). allowed (check c)) \<or> substitutable check gate"
proof -
  from assms(1) obtain d0 where d0: "combineDecisions (map check (rg_categories gate)) = Inr d0"
    and d: "d = confirmAlways name gate (substituteAboveLevel check gate d0)"
    by (auto simp: gateDecision_def split: sum.splits)
  note sub = substitute_flags [OF d0 cat]
  have rank: "decision_rank x = 0 \<longleftrightarrow> allowed x \<and> \<not> requiresApproval x" for x
    by (simp add: decision_rank_def)
  have "decision_rank d = 0 \<longleftrightarrow> decision_rank (substituteAboveLevel check gate d0) = 0 \<and>
      rg_confirm gate \<noteq> Some confirm_always"
    unfolding rank d confirmAlways_flags by blast
  then show "decision_rank d = 0 \<longleftrightarrow>
      (\<forall>c \<in> set (rg_categories gate). decision_rank (check c) = 0) \<and> rg_confirm gate \<noteq> Some confirm_always"
    using sub(2) combine_rank0 [OF d0] by simp
  show "allowed d \<longleftrightarrow> (\<forall>c \<in> set (rg_categories gate). allowed (check c)) \<or> substitutable check gate"
    using sub(1) combine_allowed [OF d0] by (simp add: d confirmAlways_flags)
qed

text \<open>C6: the gate of one call.  Its decision always exists; the call runs unasked exactly when every category it
  reaches runs unasked and no confirmation is demanded; and it is refused exactly when some category is
  refused, except that a gated call whose refusals are all level shortfalls, above a floor the agent
  clears, becomes a question.  A substitution never makes a call run by itself.\<close>

theorem gate_decision_exact:
  fixes tool :: "'w ToolDefinition option" and name toolCategory :: string and args :: json
    and cfg :: AuthorityConfig and hour :: int and orch :: Orchestrator and primary :: PrimaryAgent
    and st :: "'v OrchState"
  defines "gate \<equiv> resolveToolGate tool name args"
  defines "check \<equiv> toolCheck cfg hour orch primary st name toolCategory"
  shows "\<exists>d. gateDecision check name gate = Inr d \<and>
    (decision_rank d = 0 \<longleftrightarrow>
       (\<forall>c \<in> set (rg_categories gate). decision_rank (check c) = 0) \<and> rg_confirm gate \<noteq> Some confirm_always) \<and>
    (decision_rank d = 2 \<longleftrightarrow>
       (\<exists>c \<in> set (rg_categories gate). \<not> allowed (check c)) \<and> \<not> substitutable check gate)"
proof -
  obtain d where d: "gateDecision check name gate = Inr d"
    using gateDecision_total [of check name tool args] by (auto simp: gate_def)
  have cat: "actionCategory (check c) = c" for c by (simp add: check_def)
  have "decision_rank d = 2 \<longleftrightarrow> \<not> allowed d" by (simp add: decision_rank_def)
  with d gateDecision_flags [OF d cat] show ?thesis by (intro exI [of _ d]) auto
qed

definition example_orch :: Orchestrator where
  "example_orch = \<lparr> or_toolRegistry = Some 0, or_emergencyController = True,
     or_primary = Some \<lparr> pa_id = ''a1'', pa_max_authority_level = 3, pa_role_id = ''r1'', pa_role_name = ''Jarvis'' \<rparr>,
     or_authorityEngine = Some example_config, or_approvalManager = True,
     or_deferredExecutor = Some example_executor, or_auditTrail = True, or_authorityProfile = None,
     or_taintGating = None \<rparr>"

definition example_orch_state :: "nat OrchState" where
  "example_orch_state = \<lparr> os_exec = example_state, os_taint = [], os_grants = [] \<rparr>"

lemma example_gate:
  "resolveToolGate (Some count_tool) ''run_command'' args =
     \<lparr> rg_actionCategory = execute_command, rg_categories = [execute_command],
       rg_floorCategory = execute_command, rg_intent = None, rg_confirm = None \<rparr>"
  by (simp add: resolveToolGate_def callGate_def count_tool_def rawUiGate_def REVIEWED_UI_TOOLS_def
      getActionForTool_def TOOL_ACTION_MAP_def Let_def)

theorem gate_decision_exact_witness:
  "\<exists>d. gateDecision (toolCheck example_config 9 example_orch (the (or_primary example_orch)) example_orch_state
      ''run_command'' ''terminal'') ''run_command'' (resolveToolGate (Some count_tool) ''run_command'' (JObj [])) = Inr d \<and>
    (decision_rank d = 2 \<longleftrightarrow> \<not> allowed (toolCheck example_config 9 example_orch (the (or_primary example_orch))
      example_orch_state ''run_command'' ''terminal'' execute_command))"
  using gate_decision_exact [where cfg = example_config and hour = 9 and orch = example_orch
      and primary = "the (or_primary example_orch)" and st = example_orch_state and name = "''run_command''"
      and toolCategory = "''terminal''" and tool = "Some count_tool" and args = "JObj []"]
  by (auto simp: example_gate substitutable_def)

section \<open>Consent\<close>

lemma waitInline_manager:
  "\<exists>k. snd (waitInline i timeoutMs start ts am) = runOps (concat (map wt_ops (take k ts))) am"
proof (induction ts arbitrary: am)
  case (Cons t ts)
  from Cons.IH [of "runOps (wt_ops t) am"] obtain k where
    k: "snd (waitInline i timeoutMs start ts (runOps (wt_ops t) am)) =
      runOps (concat (map wt_ops (take k ts))) (runOps (wt_ops t) am)" by blast
  have "snd (waitInline i timeoutMs start (t # ts) am) \<in>
      {runOps (wt_ops t) am, snd (waitInline i timeoutMs start ts (runOps (wt_ops t) am))}"
    by (auto simp: Let_def split: option.split)
  with k have "snd (waitInline i timeoutMs start (t # ts) am) = runOps (concat (map wt_ops (take 1 (t # ts)))) am \<or>
      snd (waitInline i timeoutMs start (t # ts) am) = runOps (concat (map wt_ops (take (Suc k) (t # ts)))) am"
    by (simp add: runOps_append)
  then show ?case by blast
qed simp

lemma runOps_unique: "ids_unique am \<Longrightarrow> ids_unique (runOps ops am)"
proof (induction ops arbitrary: am)
  case (Cons x ops)
  obtain regs w op where x: "x = (regs, w, op)" by (cases x)
  from Cons.IH [OF ids_unique_applyOp [OF Cons.prems, of regs w op]] show ?case by (simp add: x del: applyOp.simps)
qed simp

lemma create_new:
  assumes "createRequest regs w i now params am = Inr (r, am')"
  shows "r = newRequest i now params" and "getRequest am' i = Some r" and "ids_unique am \<Longrightarrow> ids_unique am'"
proof -
  from assms have new: "i \<notin> set (map ar_id (am_rows am))" "r = newRequest i now params"
    "am_rows am' = am_rows am @ [newRequest i now params]"
    by (auto simp: createRequest_def Let_def split: if_splits)
  then show "r = newRequest i now params" by simp
  show "getRequest am' i = Some r"
    using new by (simp add: getRequest_def sql_get_append newRequest_def) (simp add: sql_get_none [THEN iffD2])
  show "ids_unique am \<Longrightarrow> ids_unique am'"
    using new by (auto simp: ids_unique_def newRequest_def)
qed

definition userApproves :: "string \<Rightarrow> 'w WaitTurn list \<Rightarrow> bool" where
  "userApproves i ts = list_ex (\<lambda>t. list_ex (approves i) (wt_ops t)) ts"

lemma wait_unapproved:
  assumes "getRequest am i = Some r" "ar_status r = pending" "\<not> userApproves i ts"
  shows "\<exists>r'. getRequest (snd (waitInline i timeoutMs start ts am)) i = Some r' \<and>
    ar_status r' \<in> {pending, denied, expired}"
proof -
  obtain k where k: "snd (waitInline i timeoutMs start ts am) = runOps (concat (map wt_ops (take k ts))) am"
    using waitInline_manager by blast
  have "\<forall>x \<in> set (concat (map wt_ops (take k ts))). \<not> approves i x"
    using assms(3) by (auto simp: userApproves_def list_ex_iff dest: in_set_takeD)
  with runOps_unapproved [OF assms(1)] assms(2) k show ?thesis by simp
qed

lemma runInline_world:
  assumes "getRequest (es_manager (os_exec st)) (ot_requestId turn) = Some r" "ar_status r \<noteq> approved"
  shows "es_world (os_exec (snd (runInline regs ex turn name category st))) = es_world (os_exec st)"
  using executed_stays_lost [OF assms, of regs ex "ot_exec turn" "''inline-gate''"]
  by (auto simp: runInline_def executeApproved_def frameResult_def noteTaint_def split: prod.split)

lemma withManager_simps [simp]:
  "es_manager (os_exec (withManager am st)) = am"
  "es_world (os_exec (withManager am st)) = es_world (os_exec st)"
  by (simp_all add: withManager_def)

lemma frameResult_world [simp]:
  "es_world (os_exec (snd (frameResult name category t st))) = es_world (os_exec st)"
  by (simp add: frameResult_def noteTaint_def)

lemma demote_row:
  "getRequest am i = Some r \<Longrightarrow> \<exists>r'. getRequest (snd (demoteToDeferred i am)) i = Some r' \<and> ar_status r' = ar_status r"
  using getRequest_applyOp [of am i r undefined undefined "OpDemote i"] by auto

lemma afterWait_world:
  assumes "getRequest (es_manager (os_exec st)) (ot_requestId turn) = Some r" "ar_status r \<noteq> approved"
  shows "es_world (os_exec (snd (afterWait regs ex turn name category decision resolved st))) = es_world (os_exec st)"
proof -
  obtain b am' where demote: "demoteToDeferred (ot_requestId turn) (es_manager (os_exec st)) = (b, am')"
    by (cases "demoteToDeferred (ot_requestId turn) (es_manager (os_exec st))")
  from demote_row [OF assms(1)] demote assms(2) obtain r' where
    r': "getRequest am' (ot_requestId turn) = Some r'" "ar_status r' \<noteq> approved" by auto
  then have "es_world (os_exec (snd (runInline regs ex turn name category (withManager am' st)))) = es_world (os_exec st)"
    using runInline_world [of "withManager am' st" turn r'] by simp
  with r' demote runInline_world [OF assms] show ?thesis
    by (auto simp: afterWait_def Let_def split: ApprovalStatus.split option.split)
qed

text \<open>Without an approval among the operations of the wait, asking changes nothing in the world.\<close>

lemma askApproval_world:
  assumes "\<not> (or_deferredExecutor orch \<noteq> None \<and> userApproves (ot_requestId turn) (ot_wait turn))"
  shows "es_world (os_exec (snd (askApproval regs orch turn primary registry name args gate decision st))) =
    es_world (os_exec st)"
proof -
  define params where "params = \<lparr> crp_agentId = pa_id primary, crp_agentName = auditAgentName orch (pa_role_name primary),
            crp_toolName = name, crp_toolArguments = args, crp_actionCategory = actionCategory decision,
            crp_urgency = determineUrgency (actionCategory decision), crp_reason = reason decision,
            crp_context = gateContext gate name args,
            crp_executionMode = Some (if or_deferredExecutor orch \<noteq> None then inline else deferred),
            crp_toolRegistry = Some registry \<rparr>"
  show ?thesis
  proof (cases "createRequest regs (es_world (os_exec st)) (ot_requestId turn) (ot_now turn) params (es_manager (os_exec st))")
    case (Inl e)
    then show ?thesis by (simp add: askApproval_def params_def)
  next
    case (Inr p)
    obtain r am1 where p: "p = (r, am1)" by (cases p)
    note new = create_new [OF Inr [unfolded p]]
    show ?thesis
    proof (cases "or_deferredExecutor orch")
      case None
      with Inr p show ?thesis by (simp add: askApproval_def params_def)
    next
      case (Some ex)
      obtain res am2 where w: "waitInline (ot_requestId turn) APPROVAL_WAIT_TIMEOUT_MS (ot_now turn) (ot_wait turn) am1 = (res, am2)"
        by (cases "waitInline (ot_requestId turn) APPROVAL_WAIT_TIMEOUT_MS (ot_now turn) (ot_wait turn) am1")
      have "ar_status r = pending" by (simp add: new(1) newRequest_def)
      from wait_unapproved [OF new(2) this] assms Some w obtain r' where
        "getRequest am2 (ot_requestId turn) = Some r'" "ar_status r' \<noteq> approved"
        by (metis (no_types, lifting) ApprovalStatus.distinct(1,9,11) empty_iff insert_iff option.distinct(1) snd_conv)
      with afterWait_world [of "withManager am2 st" turn r'] Inr p Some w show ?thesis
        by (auto simp: askApproval_def params_def Let_def split: option.split sum.split)
    qed
  qed
qed

lemma logDecision_simps [simp]:
  "es_world (os_exec (logDecision orch turn entry st)) = es_world (os_exec st)"
  "es_manager (os_exec (logDecision orch turn entry st)) = es_manager (os_exec st)"
  "os_taint (logDecision orch turn entry st) = os_taint st"
  by (simp_all add: logDecision_def)

lemma execWorld_world [simp]: "es_world (os_exec (execWorld w st)) = w"
  by (simp add: execWorld_def)

lemma noteTaint_world [simp]: "es_world (os_exec (noteTaint name category st)) = es_world (os_exec st)"
  by (simp add: noteTaint_def)

lemma runTool_world:
  "es_world (os_exec (snd (runTool regs registry fence name args st))) =
     snd (reg_execute (regs registry) fence name args (es_world (os_exec st)))"
  by (auto simp: runTool_def Let_def split: prod.split sum.split ToolError.split option.split)

lemma runRealtime_world:
  "es_world (os_exec (snd (runRealtime regs registry fence name args st))) =
     snd (reg_execute (regs registry) fence name args (es_world (os_exec st)))"
  by (auto simp: runRealtime_def Let_def split: prod.split sum.split ToolError.split option.split)

text \<open>C1: no effect without consent.  With an engine and a primary agent, a call (other than the intent tool itself)
  that changes the world runs in normal emergency state, names a registered tool, and either every category it
  reaches runs unasked and no confirmation is demanded, or an executor is wired, nothing denied the call for good, and
  among the operations made while the gate waited is an approval of this very request.\<close>

theorem no_effect_without_consent:
  assumes "or_authorityEngine orch = Some cfg" "or_primary orch = Some primary" "name \<noteq> ''request_approval''"
    and "es_world (os_exec (snd (executeToolInner regs orch turn name args st))) \<noteq> es_world (os_exec st)"
  shows "(or_emergencyController orch \<longrightarrow> es_emergency (os_exec st) = normal) \<and>
    (\<exists>registry tool. or_toolRegistry orch = Some registry \<and> reg_get (regs registry) name = Some tool \<and>
      (let gate = resolveToolGate (Some tool) name args;
           check = toolCheck cfg (ot_hour turn) orch primary st name (td_category tool)
       in (\<forall>c \<in> set (rg_categories gate). decision_rank (check c) = 0) \<and> rg_confirm gate \<noteq> Some confirm_always \<or>
          ((\<forall>c \<in> set (rg_categories gate). allowed (check c)) \<or> substitutable check gate) \<and>
          or_approvalManager orch \<and> or_deferredExecutor orch \<noteq> None \<and>
          userApproves (ot_requestId turn) (ot_wait turn)))"
proof -
  from assms(3,4) obtain registry where reg: "or_toolRegistry orch = Some registry"
    by (cases "or_toolRegistry orch") (auto simp: executeToolInner_def)
  have emergency: "or_emergencyController orch \<longrightarrow> es_emergency (os_exec st) = normal"
    using assms(4) by (auto simp: executeToolInner_def reg canExecute_def split: if_splits)
  have "reg_has (regs registry) name"
    using assms emergency by (auto simp: executeToolInner_def reg canExecute_def split: if_splits)
  then obtain tool where tool: "reg_get (regs registry) name = Some tool"
    by (auto simp: reg_has_def reg_get_def)
  define gate where "gate = resolveToolGate (Some tool) name args"
  define check where "check = toolCheck cfg (ot_hour turn) orch primary st name (td_category tool)"
  obtain d where d: "gateDecision check name gate = Inr d"
    using gateDecision_total [of check name "Some tool" args] by (auto simp: gate_def)
  note flags = gateDecision_flags [OF d, unfolded check_def, OF toolCheck_category, folded check_def]
  define agentName where "agentName = auditAgentName orch (pa_role_name primary)"
  define st1 where "st1 = logDecision orch turn (gateEntry primary agentName name (actionCategory d)
      (decisionType d) (allowed d \<and> \<not> requiresApproval d) None) st"
  have run: "es_world (os_exec (snd (executeToolInner regs orch turn name args st))) =
      (if \<not> allowed d then es_world (os_exec st)
       else if requiresApproval d \<and> or_approvalManager orch then
         es_world (os_exec (snd (askApproval regs orch turn primary registry name args gate d st1)))
       else if requiresApproval d then es_world (os_exec st)
       else es_world (os_exec (snd (runTool regs registry (ot_fence turn) name args st1))))"
    using assms(1-3) emergency \<open>reg_has (regs registry) name\<close> d
    by (auto simp: executeToolInner_def reg canExecute_def tool gate_def check_def st1_def agentName_def Let_def
        split: prod.split)
  have st1: "es_world (os_exec st1) = es_world (os_exec st)" by (simp add: st1_def)
  show ?thesis
  proof (cases "decision_rank d = 0")
    case True
    with flags(1) emergency reg tool show ?thesis by (simp add: gate_def check_def Let_def)
  next
    case False
    with run assms(4) have ask: "allowed d" "or_approvalManager orch"
      and "es_world (os_exec (snd (askApproval regs orch turn primary registry name args gate d st1))) \<noteq> es_world (os_exec st1)"
      by (auto simp: decision_rank_def st1 split: if_splits)
    with askApproval_world have "or_deferredExecutor orch \<noteq> None" "userApproves (ot_requestId turn) (ot_wait turn)"
      by blast+
    with ask flags(2) emergency reg tool show ?thesis by (simp add: gate_def check_def Let_def)
  qed
qed


definition example_primary :: PrimaryAgent where
  "example_primary = \<lparr> pa_id = ''a1'', pa_max_authority_level = 10, pa_role_id = ''r1'', pa_role_name = ''Jarvis'' \<rparr>"

definition strong_orch :: Orchestrator where
  "strong_orch = example_orch\<lparr>or_primary := Some example_primary\<rparr>"

definition example_orch_turn :: "nat OrchTurn" where
  "example_orch_turn = \<lparr> ot_hour = 9, ot_now = 1, ot_auditId = ''u1'', ot_requestId = ''q2'', ot_fence = None,
     ot_wait = [], ot_exec = example_turn \<rparr>"

lemma strong_check:
  "toolCheck example_config 9 strong_orch example_primary example_orch_state ''run_command'' ''terminal'' execute_command =
     mk_decision True False (''Authority level '' @ show_int 10 @ '' meets requirement '' @ show_int 5) execute_command"
  by (simp add: toolCheck_def checkAuthority_def baseDecision_def hasGrant_def findOverride_def evaluateContextRules_def
      levelDecision_def getEffectiveProfile_def mergeProfiles_def taintProfile_def strong_orch_def example_orch_def
      example_primary_def example_orch_state_def example_config_def Let_def)

lemma strong_run:
  "es_world (os_exec (snd (executeToolInner example_regs strong_orch example_orch_turn ''run_command'' (JObj [])
     example_orch_state))) = 8"
proof -
  have "gateDecision (toolCheck example_config 9 strong_orch example_primary example_orch_state ''run_command'' ''terminal'')
      ''run_command'' (resolveToolGate (Some count_tool) ''run_command'' (JObj [])) =
      Inr (mk_decision True False (''Authority level '' @ show_int 10 @ '' meets requirement '' @ show_int 5) execute_command)"
    by (simp add: gateDecision_def example_gate strong_check combineDecisions_def confirmAlways_def substituteAboveLevel_def)
  moreover have "reg_get (example_regs 0) ''run_command'' = Some count_tool" "reg_has (example_regs 0) ''run_command''"
    by (simp_all add: example_regs_def reg_get_def reg_has_def)
  moreover have "or_authorityEngine strong_orch = Some example_config" "or_primary strong_orch = Some example_primary"
    "or_toolRegistry strong_orch = Some 0" "ot_hour example_orch_turn = 9"
    "es_emergency (os_exec example_orch_state) = normal" "es_world (os_exec example_orch_state) = 7"
    "td_category count_tool = ''terminal''"
    by (simp_all add: strong_orch_def example_orch_def example_orch_turn_def example_orch_state_def example_state_def
        count_tool_def)
  moreover have "snd (reg_execute (example_regs 0) (ot_fence example_orch_turn) ''run_command'' (JObj []) 7) = 8"
    by (simp add: reg_execute_def example_regs_def count_tool_def validateParameters_def example_orch_turn_def)
  ultimately show ?thesis
    by (simp add: executeToolInner_def canExecute_def Let_def runTool_world split: prod.split)
      (metis runTool_world snd_conv logDecision_simps(1))
qed

theorem no_effect_without_consent_witness:
  "es_world (os_exec (snd (executeToolInner example_regs strong_orch example_orch_turn ''run_command'' (JObj [])
     example_orch_state))) = 8 \<and> es_emergency (os_exec example_orch_state) = normal"
proof
  show "es_emergency (os_exec example_orch_state) = normal"
    using no_effect_without_consent [of strong_orch example_config example_primary "''run_command''" example_regs
        example_orch_turn "JObj []" example_orch_state] strong_run
    by (simp add: strong_orch_def example_orch_def) (simp add: example_orch_state_def example_state_def)
qed (rule strong_run)

section \<open>The voice session\<close>

text \<open>C15: what a voice session still enforces.  A realtime call that changes the world runs in normal emergency
  state, reaches no blocked category, demands no confirmation, and, with an engine and a primary agent, no
  category it reaches is refused.\<close>

theorem realtime_enforces:
  assumes "es_world (os_exec (snd (executeRealtimeToolCall regs orch turn name args blockedCategories st)))
      \<noteq> es_world (os_exec st)"
  shows "(or_emergencyController orch \<longrightarrow> es_emergency (os_exec st) = normal) \<and>
    (\<exists>registry tool. or_toolRegistry orch = Some registry \<and> reg_get (regs registry) name = Some tool \<and>
      (let gate = resolveToolGate (Some tool) name args
       in list_all (\<lambda>c. category_name c \<notin> set blockedCategories) (rg_categories gate) \<and>
          rg_confirm gate \<noteq> Some confirm_always \<and>
          (\<forall>cfg primary. or_authorityEngine orch = Some cfg \<and> or_primary orch = Some primary \<longrightarrow>
             (\<forall>c \<in> set (rg_categories gate).
                allowed (toolCheck cfg (ot_hour turn) orch primary st name (td_category tool) c)))))"
proof -
  from assms obtain registry where reg: "or_toolRegistry orch = Some registry"
    by (cases "or_toolRegistry orch") (auto simp: executeRealtimeToolCall_def)
  have emergency: "or_emergencyController orch \<longrightarrow> es_emergency (os_exec st) = normal"
    using assms by (auto simp: executeRealtimeToolCall_def reg canExecute_def split: if_splits)
  have "reg_has (regs registry) name"
    using assms by (auto simp: executeRealtimeToolCall_def reg split: if_splits)
  then obtain tool where tool: "reg_get (regs registry) name = Some tool"
    by (auto simp: reg_has_def reg_get_def)
  define gate where "gate = resolveToolGate (Some tool) name args"
  have log: "es_world (os_exec (case or_primary orch of None \<Rightarrow> st
      | Some primary \<Rightarrow> logDecision orch turn (e primary) st)) = es_world (os_exec st)" for e
    by (simp split: option.split)
  have blocked: "List.find (\<lambda>c. category_name c \<in> set blockedCategories) (rg_categories gate) = None"
    using assms reg tool log
    by (auto simp: executeRealtimeToolCall_def gate_def Let_def split: if_splits option.splits)
  have confirm: "rg_confirm gate \<noteq> Some confirm_always"
    using assms reg tool log blocked
    by (auto simp: executeRealtimeToolCall_def gate_def Let_def split: if_splits option.splits)
  have ok: "allowed (toolCheck cfg (ot_hour turn) orch primary st name (td_category tool) c)"
    if w: "or_authorityEngine orch = Some cfg" "or_primary orch = Some primary" and c: "c \<in> set (rg_categories gate)"
    for cfg primary c
  proof (rule ccontr)
    assume no: "\<not> ?thesis"
    let ?check = "toolCheck cfg (ot_hour turn) orch primary st name (td_category tool)"
    show False
    proof (cases "combineDecisions (map ?check (rg_categories gate))")
      case (Inl e)
      with assms reg tool w blocked confirm show False
        by (auto simp: executeRealtimeToolCall_def gate_def Let_def split: if_splits)
    next
      case (Inr d)
      with no c combine_allowed [OF Inr] have "\<not> allowed d" by auto
      with Inr assms reg tool w blocked confirm show False
        by (auto simp: executeRealtimeToolCall_def gate_def Let_def split: if_splits)
    qed
  qed
  show ?thesis
    using emergency reg tool blocked confirm ok
    by (auto simp: gate_def Let_def find_None_iff list_all_iff)
qed


lemma baseDecision_profile: "baseDecision cfg hour (p\<lparr>cp_profile := x\<rparr>) = baseDecision cfg hour p"
proof -
  have "hasGrant (p\<lparr>cp_profile := x\<rparr>) = hasGrant p" by (simp add: hasGrant_def split: option.split)
  moreover have "overrideDecision (p\<lparr>cp_profile := x\<rparr>) = overrideDecision p"
    by (rule ext) (simp add: overrideDecision_def)
  moreover have "contextDecision (p\<lparr>cp_profile := x\<rparr>) = contextDecision p"
    by (rule ext) (simp add: contextDecision_def split: RuleEffect.split)
  moreover have "levelDecision cfg (p\<lparr>cp_profile := x\<rparr>) = levelDecision cfg p"
    by (simp add: levelDecision_def)
  ultimately show ?thesis by (simp add: baseDecision_def split: option.split)
qed

lemma base_no_label: "profileLabel (baseDecision cfg hour p) = None"
  by (auto simp: baseDecision_def overrideDecision_def contextDecision_def levelDecision_def Let_def
      split: option.split RuleEffect.split)

text \<open>What the same check says when the session has read nothing.\<close>

definition untaintedCheck ::
    "AuthorityConfig \<Rightarrow> int \<Rightarrow> Orchestrator \<Rightarrow> PrimaryAgent \<Rightarrow> 'w OrchState \<Rightarrow> string \<Rightarrow> string \<Rightarrow>
     ActionCategory \<Rightarrow> AuthorityDecision" where
  "untaintedCheck cfg hour orch primary st name tc c =
     toolCheck cfg hour orch primary (st\<lparr>os_taint := []\<rparr>) name tc c"

lemma tainted_check:
  assumes "or_authorityProfile orch = None" "or_taintGating orch = Some g" "tg_enabled g"
    "c \<in> set (tg_governed_categories g)" "os_taint st \<noteq> []"
  shows "toolCheck cfg hour orch primary st name tc c =
      (let b = untaintedCheck cfg hour orch primary st name tc c in
       if decision_rank b = 0
       then (mk_decision True True (TAINT_PROFILE_LABEL @ '' ('' @ js_join '', '' (os_taint st) @ '')'' @ '': '' @
              category_name c @ '' requires user approval'') c)
              \<lparr>contextRule := contextRule b, profileLabel := Some (TAINT_PROFILE_LABEL @ '' ('' @ js_join '', '' (os_taint st) @ '')'')\<rparr>
       else b)"
    and "profileLabel (untaintedCheck cfg hour orch primary st name tc c) = None"
proof -
  define p where "p = \<lparr> cp_agentId = pa_id primary, cp_agentAuthorityLevel = pa_max_authority_level primary,
         cp_agentRoleId = pa_role_id primary, cp_toolName = name, cp_toolCategory = tc,
         cp_actionCategory = c, cp_temporaryGrants = os_grants st, cp_profile = None \<rparr>"
  define b where "b = baseDecision cfg hour p"
  have plain: "untaintedCheck cfg hour orch primary st name tc c = b"
    using assms by (simp add: untaintedCheck_def toolCheck_def getEffectiveProfile_def mergeProfiles_def taintProfile_def
        checkAuthority_def b_def p_def)
  define pf where "pf = \<lparr> pf_label = Some (TAINT_PROFILE_LABEL @ '' ('' @ js_join '', '' (os_taint st) @ '')''),
                      pf_level_cap = None, pf_governed_categories = Some (tg_governed_categories g) \<rparr>"
  have "tg_governed_categories g \<noteq> []" using assms(4) by auto
  then have "getEffectiveProfile orch (os_taint st) = Some pf"
    using assms by (simp add: getEffectiveProfile_def mergeProfiles_def taintProfile_def pf_def)
  then have "toolCheck cfg hour orch primary st name tc c = checkAuthority cfg hour (p\<lparr>cp_profile := Some pf\<rparr>)"
    by (simp add: toolCheck_def p_def)
  then have tainted: "toolCheck cfg hour orch primary st name tc c = applyProfile b pf"
    by (simp add: checkAuthority_def baseDecision_profile b_def)
  have "actionCategory b = c" by (simp add: b_def p_def)
  with tainted plain assms(4) show "toolCheck cfg hour orch primary st name tc c =
      (let b = untaintedCheck cfg hour orch primary st name tc c in
       if decision_rank b = 0
       then (mk_decision True True (TAINT_PROFILE_LABEL @ '' ('' @ js_join '', '' (os_taint st) @ '')'' @ '': '' @
              category_name c @ '' requires user approval'') c)
              \<lparr>contextRule := contextRule b, profileLabel := Some (TAINT_PROFILE_LABEL @ '' ('' @ js_join '', '' (os_taint st) @ '')'')\<rparr>
       else b)"
    by (auto simp: applyProfile_def pf_def capViolated_def profileGoverns_def decision_rank_def Let_def)
  show "profileLabel (untaintedCheck cfg hour orch primary st name tc c) = None"
    by (simp add: plain b_def base_no_label)
qed

text \<open>C16: in a tainted voice session the taint gate stops only calls the engine would have run unasked.  For a call
  with one category that the taint gate governs: if the engine alone would run it, the session refuses it; but if the
  engine alone already asks for approval, the profile leaves the decision unlabelled, the session does not see the
  taint, and it runs the tool with nobody asked.  Governing a category thereby opens the gate that taint closes.\<close>

theorem realtime_taint_gap:
  assumes "or_toolRegistry orch = Some registry" "reg_get (regs registry) name = Some tool"
    and "or_emergencyController orch \<longrightarrow> es_emergency (os_exec st) = normal"
    and "or_authorityEngine orch = Some cfg" "or_primary orch = Some primary"
    and "rg_categories (resolveToolGate (Some tool) name args) = [c]"
    and "rg_confirm (resolveToolGate (Some tool) name args) \<noteq> Some confirm_always"
    and "category_name c \<notin> set blockedCategories"
    and "or_authorityProfile orch = None" "or_taintGating orch = Some g" "tg_enabled g"
    and "c \<in> set (tg_governed_categories g)" "os_taint st \<noteq> []"
    and "b = untaintedCheck cfg (ot_hour turn) orch primary st name (td_category tool) c"
    and "w' = es_world (os_exec (snd (executeRealtimeToolCall regs orch turn name args blockedCategories st)))"
  shows "(decision_rank b = 0 \<longrightarrow> w' = es_world (os_exec st)) \<and>
    (decision_rank b = 1 \<longrightarrow>
       w' = snd (reg_execute (regs registry) (ot_fence turn) name args (es_world (os_exec st))))"
proof -
  note check = tainted_check [OF assms(9-13), of cfg "ot_hour turn" primary name "td_category tool", folded assms(14)]
  have has: "reg_has (regs registry) name" using assms(2) by (simp add: reg_has_def reg_get_def)
  have label: "js_includes (TAINT_PROFILE_LABEL @ t) TAINT_PROFILE_LABEL" for t
    by (simp add: js_includes_append1)
  have one: "combineDecisions [d] = Inr d" for d
    by (simp add: combineDecisions_def)
  have rank: "decision_rank x = Suc 0 \<longleftrightarrow> allowed x \<and> requiresApproval x"
    "decision_rank x = 0 \<longleftrightarrow> allowed x \<and> \<not> requiresApproval x" for x
    by (simp_all add: decision_rank_def)
  show ?thesis
    using assms(1-8) has check
    by (auto simp: assms(15) executeRealtimeToolCall_def canExecute_def one rank label runRealtime_world Let_def
        append.assoc [symmetric] simp del: append.assoc)
qed


definition governing_config :: AuthorityConfig where
  "governing_config = setGovernedCategories example_config [execute_command]"

definition tainted_orch :: Orchestrator where
  "tainted_orch = strong_orch\<lparr>or_authorityEngine := Some governing_config,
     or_taintGating := Some (buildTaintGating None)\<rparr>"

definition tainted_state :: "nat OrchState" where
  "tainted_state = example_orch_state\<lparr>os_taint := [''browser_navigate'']\<rparr>"

lemma tainted_untainted_check:
  "decision_rank (untaintedCheck governing_config 9 tainted_orch example_primary tainted_state ''run_command''
     ''terminal'' execute_command) = 1"
  by (simp add: untaintedCheck_def toolCheck_def checkAuthority_def baseDecision_def hasGrant_def findOverride_def
      evaluateContextRules_def levelDecision_def getEffectiveProfile_def mergeProfiles_def taintProfile_def
      tainted_orch_def strong_orch_def example_orch_def example_primary_def tainted_state_def example_orch_state_def
      governing_config_def example_config_def setGovernedCategories_def decision_rank_def Let_def)

theorem realtime_taint_gap_witness:
  "es_world (os_exec (snd (executeRealtimeToolCall example_regs tainted_orch example_orch_turn ''run_command'' (JObj [])
     [] tainted_state))) = 8 \<and> es_world (os_exec tainted_state) = 7 \<and> os_taint tainted_state \<noteq> []"
proof -
  have g: "or_taintGating tainted_orch = Some (buildTaintGating None)" "tg_enabled (buildTaintGating None)"
    "execute_command \<in> set (tg_governed_categories (buildTaintGating None))"
    by (simp_all add: tainted_orch_def buildTaintGating_def parseGoverned_def DEFAULT_TAINT_GOVERNED_def)
  have o: "or_toolRegistry tainted_orch = Some 0" "or_authorityEngine tainted_orch = Some governing_config"
    "or_primary tainted_orch = Some example_primary" "or_authorityProfile tainted_orch = None"
    by (simp_all add: tainted_orch_def strong_orch_def example_orch_def)
  have s: "es_emergency (os_exec tainted_state) = normal" "os_taint tainted_state \<noteq> []"
    "es_world (os_exec tainted_state) = 7" "ot_hour example_orch_turn = 9" "ot_fence example_orch_turn = None"
    by (simp_all add: tainted_state_def example_orch_state_def example_state_def example_orch_turn_def)
  have t: "reg_get (example_regs 0) ''run_command'' = Some count_tool" "td_category count_tool = ''terminal''"
    by (simp_all add: example_regs_def reg_get_def count_tool_def)
  have "es_world (os_exec (snd (executeRealtimeToolCall example_regs tainted_orch example_orch_turn ''run_command''
      (JObj []) [] tainted_state))) = snd (reg_execute (example_regs 0) None ''run_command'' (JObj []) 7)"
    using realtime_taint_gap [where args = "JObj []" and c = execute_command and blockedCategories = "[]"
        and turn = example_orch_turn and regs = example_regs and name = "''run_command''" and st = tainted_state
        and orch = tainted_orch and registry = 0 and tool = count_tool and cfg = governing_config
        and primary = example_primary and g = "buildTaintGating None", OF _ _ _ _ _ _ _ _ _ _ _ _ _ refl refl]
      tainted_untainted_check
    by (simp only: example_gate s t o g) simp
  then show ?thesis
    by (simp add: reg_execute_def example_regs_def count_tool_def validateParameters_def tainted_state_def
        example_orch_state_def example_state_def)
qed

theorem realtime_enforces_witness:
  "es_emergency (os_exec example_orch_state) = normal"
proof -
  have "executeRealtimeToolCall example_regs (strong_orch\<lparr>or_primary := None\<rparr>) example_orch_turn ''run_command''
      (JObj []) [] example_orch_state = runRealtime example_regs 0 None ''run_command'' (JObj []) example_orch_state"
    by (simp add: executeRealtimeToolCall_def strong_orch_def example_orch_def canExecute_def example_orch_state_def
        example_state_def reg_has_def reg_get_def example_regs_def example_gate example_orch_turn_def Let_def)
  moreover have "snd (reg_execute (example_regs 0) None ''run_command'' (JObj []) 7) = 8"
    by (simp add: reg_execute_def example_regs_def count_tool_def validateParameters_def)
  ultimately have "es_world (os_exec (snd (executeRealtimeToolCall example_regs (strong_orch\<lparr>or_primary := None\<rparr>)
      example_orch_turn ''run_command'' (JObj []) [] example_orch_state))) \<noteq> es_world (os_exec example_orch_state)"
    by (simp add: runRealtime_world) (simp add: example_orch_state_def example_state_def)
  from realtime_enforces [OF this] show ?thesis
    by (simp add: strong_orch_def example_orch_def)
qed

end
