(* ===== verification/LLM_History.thy ===== *)
theory LLM_History
  imports Untrusted
begin

text \<open>
  The compaction of a message history (\<^verbatim>\<open>src/llm/history.ts\<close>), with the message types of
  \<^verbatim>\<open>src/llm/provider.ts\<close>.  Sizes are integers.  The eviction page is the integer part of
  \<^verbatim>\<open>budget * 0.35\<close>, computed exactly; the facts about the pos hold for every positive page.
\<close>

datatype LLMRole = role_system | role_user | role_assistant | role_tool

datatype MessageContent = TextContent string | BlockContent "ContentBlock list"

record LLMToolCall =
  tc_id :: string
  tc_name :: string
  tc_arguments :: json

record LLMMessage =
  lm_role :: LLMRole
  lm_content :: MessageContent
  lm_tool_calls :: "LLMToolCall list option"
  lm_tool_call_id :: "string option"
  lm_cache :: "bool option"

definition SYSTEM_RESERVE :: int where
  "SYSTEM_RESERVE = 500"

text \<open>\<^verbatim>\<open>Math.ceil(n / d)\<close> for a positive \<open>d\<close>.\<close>

definition ceil_div :: "int \<Rightarrow> int \<Rightarrow> int" where
  "ceil_div n d = - ((- n) div d)"

definition contentText :: "MessageContent \<Rightarrow> string" where
  "contentText c = (case c of TextContent t \<Rightarrow> t
     | BlockContent bs \<Rightarrow> js_join newline (map (\<lambda>b. case b of TextBlock t \<Rightarrow> t | ImageBlock _ \<Rightarrow> ''[image]'') bs))"

definition measureToolCall :: "LLMToolCall \<Rightarrow> int" where
  "measureToolCall tc = ceil_div (int (length (JSON_stringify (tc_arguments tc)))) 4 + 5"

definition measureMessage :: "LLMMessage \<Rightarrow> int" where
  "measureMessage m = ceil_div (int (length (contentText (lm_content m)))) 4 + 10 +
     (case lm_tool_calls m of None \<Rightarrow> 0 | Some tcs \<Rightarrow> sum_list (map measureToolCall tcs))"

definition measureChunk :: "LLMMessage list \<Rightarrow> int" where
  "measureChunk ms = sum_list (map measureMessage ms)"

definition startsExchange :: "LLMMessage \<Rightarrow> bool" where
  "startsExchange m = (lm_role m = role_assistant \<and>
     (case lm_tool_calls m of None \<Rightarrow> False | Some tcs \<Rightarrow> tcs \<noteq> []))"

definition isTool :: "LLMMessage \<Rightarrow> bool" where
  "isTool m = (lm_role m = role_tool)"

function chunkMessages :: "LLMMessage list \<Rightarrow> LLMMessage list list" where
  "chunkMessages [] = []"
| "chunkMessages (m # ms) =
     (if startsExchange m then (m # takeWhile isTool ms) # chunkMessages (dropWhile isTool ms)
      else [m] # chunkMessages ms)"
  by pat_completeness auto
termination
  by (relation "measure length") (auto simp: less_Suc_eq_le length_dropWhile_le)

text \<open>
  The two loops over \<open>cut\<close> and \<open>dropped\<close>: step past the next chunk while the guard holds of what was
  dropped so far, but never past the newest chunk.  The list is that of the chunks not yet passed.
\<close>

fun advanceCut :: "(int \<Rightarrow> bool) \<Rightarrow> int list \<Rightarrow> nat \<Rightarrow> int \<Rightarrow> nat \<times> int" where
  "advanceCut again (s # s' # sizes) pos dropped =
     (if again dropped then advanceCut again (s' # sizes) (Suc pos) (dropped + s) else (pos, dropped))"
| "advanceCut again _ pos dropped = (pos, dropped)"

definition historyPage :: "int \<Rightarrow> int" where
  "historyPage budget = max 1 (budget * 35 div 100)"

definition chooseCut :: "int \<Rightarrow> int \<Rightarrow> int \<Rightarrow> int list \<Rightarrow> nat \<times> int" where
  "chooseCut page budget systemSize sizes =
     (case advanceCut (\<lambda>dropped. systemSize + (sum_list sizes - dropped) > budget) sizes 0 0 of
        (pos, dropped) \<Rightarrow>
          advanceCut (\<lambda>d. d < ceil_div dropped page * page) (drop pos sizes) pos dropped)"

definition compactHistory :: "LLMMessage list \<Rightarrow> int \<Rightarrow> LLMMessage list" where
  "compactHistory messages budgetTokens =
     (if length messages \<le> 1 then messages
      else (let systemMessages = takeWhile (\<lambda>m. lm_role m = role_system) messages;
                rest = dropWhile (\<lambda>m. lm_role m = role_system) messages;
                budget = budgetTokens - SYSTEM_RESERVE;
                systemSize = sum_list (map measureMessage systemMessages);
                chunks = chunkMessages rest;
                chunkSizes = map measureChunk chunks;
                chunkTotal = sum_list chunkSizes
            in if systemSize + chunkTotal \<le> budget then systemMessages @ rest
               else systemMessages @
                 concat (drop (fst (chooseCut (historyPage budget) budget systemSize chunkSizes)) chunks)))"

definition calculateHistoryBudget :: "int \<Rightarrow> int \<Rightarrow> int \<Rightarrow> int" where
  "calculateHistoryBudget requestTokenLimit systemPromptTokens responseReserve =
     max (requestTokenLimit - systemPromptTokens - responseReserve) 0"


section \<open>Chunks\<close>

lemma concat_chunkMessages [simp]: "concat (chunkMessages ms) = ms"
  by (induction ms rule: chunkMessages.induct) auto

lemma chunkMessages_ne: "c \<in> set (chunkMessages ms) \<Longrightarrow> c \<noteq> []"
  by (induction ms rule: chunkMessages.induct) (auto split: if_splits)

lemma chunkMessages_empty [simp]: "chunkMessages ms = [] \<longleftrightarrow> ms = []"
  by (cases ms) auto

lemma chunkMessages_tools: "list_all isTool ts \<Longrightarrow> takeWhile isTool ts = ts \<and> dropWhile isTool ts = []"
  by (induction ts) auto

lemma chunkMessages_chunk: "c \<in> set (chunkMessages ms) \<Longrightarrow> chunkMessages c = [c]"
proof (induction ms rule: chunkMessages.induct)
  case (2 m ms)
  have "list_all isTool (takeWhile isTool ms)" by (induction ms) auto
  with 2 show ?case by (auto simp: chunkMessages_tools split: if_splits)
qed simp

text \<open>
  Whether a prefix of the history ends inside a tool exchange: after an assistant message with calls,
  with nothing but tool results since.
\<close>

fun insideExchange :: "bool \<Rightarrow> LLMMessage list \<Rightarrow> bool" where
  "insideExchange inside [] = inside"
| "insideExchange inside (m # ms) = insideExchange (startsExchange m \<or> inside \<and> isTool m) ms"

lemma insideExchange_append: "insideExchange b (xs @ ys) = insideExchange (insideExchange b xs) ys"
  by (induction xs arbitrary: b) auto

lemma insideExchange_fresh: "xs \<noteq> [] \<Longrightarrow> \<not> isTool (hd xs) \<Longrightarrow> insideExchange b xs = insideExchange False xs"
  by (cases xs) auto

lemma starts_not_tool: "startsExchange m \<Longrightarrow> \<not> isTool m"
  by (simp add: startsExchange_def isTool_def)

lemma cut_outside_exchange:
  "pos < length (chunkMessages ms) \<Longrightarrow> isTool (hd (concat (drop pos (chunkMessages ms)))) \<Longrightarrow>
     \<not> insideExchange False (concat (take pos (chunkMessages ms)))"
proof (induction ms arbitrary: pos rule: chunkMessages.induct)
  case (2 m ms)
  show ?case
  proof (cases pos)
    case (Suc c)
    show ?thesis
    proof (cases "startsExchange m")
      case True
      let ?rest = "dropWhile isTool ms"
      from True Suc "2.prems" have c: "c < length (chunkMessages ?rest)"
        "isTool (hd (concat (drop c (chunkMessages ?rest))))" by auto
      then have ne: "?rest \<noteq> []" by (metis chunkMessages.simps(1) list.size(3) not_less0)
      then have hd: "\<not> isTool (hd ?rest)" by (rule hd_dropWhile)
      have "c \<noteq> 0" using c(2) hd by (metis concat_chunkMessages drop0)
      then obtain ch chs where chs: "chunkMessages ?rest = ch # chs" "c = Suc (c - 1)" using ne
        by (cases "chunkMessages ?rest") auto
      moreover have "ch \<noteq> []" using chunkMessages_ne [of ch ?rest] chs(1) by simp
      moreover have "hd ?rest = hd ch"
        using arg_cong [OF chs(1), of "\<lambda>x. hd (concat x)"] \<open>ch \<noteq> []\<close> by simp
      moreover have "concat (take c (chunkMessages ?rest)) = ch @ concat (take (c - 1) chs)"
        unfolding chs(1) by (subst chs(2)) simp
      ultimately have pre: "concat (take c (chunkMessages ?rest)) \<noteq> []"
        "hd (concat (take c (chunkMessages ?rest))) = hd ?rest" by auto
      have "\<not> insideExchange False (concat (take c (chunkMessages ?rest)))"
        using "2.IH"(1) [OF True] c by simp
      moreover have "insideExchange b (concat (take c (chunkMessages ?rest))) =
          insideExchange False (concat (take c (chunkMessages ?rest)))" for b
        by (rule insideExchange_fresh [OF pre(1)]) (simp add: pre(2) hd)
      ultimately have "\<not> insideExchange b (concat (take c (chunkMessages ?rest)))" for b by blast
      then show ?thesis using True Suc
        by (simp add: insideExchange_append del: concat_chunkMessages)
    next
      case False
      with Suc "2.prems" "2.IH"(2) [OF False, of c] show ?thesis by simp
    qed
  qed simp
qed simp


section \<open>The pos\<close>

lemma advanceCut_spec:
  "advanceCut again sizes c0 d0 = (c, d) \<Longrightarrow>
     \<exists>k. c = c0 + k \<and> k \<le> length sizes - 1 \<and> d = d0 + sum_list (take k sizes) \<and>
       (\<forall>j < k. again (d0 + sum_list (take j sizes))) \<and> (\<not> again d \<or> k = length sizes - 1)"
proof (induction again sizes c0 d0 rule: advanceCut.induct)
  case (1 again s s' sizes pos dropped)
  show ?case
  proof (cases "again dropped")
    case True
    with 1 obtain k where k: "c = Suc pos + k" "k \<le> length (s' # sizes) - 1"
      "d = dropped + s + sum_list (take k (s' # sizes))"
      "\<forall>j < k. again (dropped + s + sum_list (take j (s' # sizes)))" "\<not> again d \<or> k = length (s' # sizes) - 1"
      by auto
    have "again (dropped + sum_list (take j (s # s' # sizes)))" if "j < Suc k" for j
      using k(4) that True by (cases j) (auto simp: add.assoc)
    with k show ?thesis by (intro exI [of _ "Suc k"]) (auto simp: add.assoc)
  next
    case False
    with 1 show ?thesis by (intro exI [of _ 0]) auto
  qed
qed auto

lemma advanceCut_start:
  assumes "advanceCut again sizes 0 0 = (c, d)"
  shows "c \<le> length sizes - 1" and "d = sum_list (take c sizes)"
    and "\<forall>j < c. again (sum_list (take j sizes))" and "\<not> again d \<or> c = length sizes - 1"
proof -
  obtain k where "c = 0 + k" "k \<le> length sizes - 1" "d = 0 + sum_list (take k sizes)"
    "\<forall>j < k. again (0 + sum_list (take j sizes))" "\<not> again d \<or> k = length sizes - 1"
    using advanceCut_spec [OF assms] by (elim exE conjE)
  then show "c \<le> length sizes - 1" and "d = sum_list (take c sizes)"
    and "\<forall>j < c. again (sum_list (take j sizes))" and "\<not> again d \<or> c = length sizes - 1" by simp_all
qed

lemma ceil_div_bounds:
  assumes "0 < page"
  shows "n \<le> ceil_div n page * page" "ceil_div n page * page < n + page"
proof -
  have "ceil_div n page * page = - ((- n) div page * page)" by (simp add: ceil_div_def)
  also have "\<dots> = n + (- n) mod page" by (simp flip: minus_mod_eq_div_mult)
  finally show "n \<le> ceil_div n page * page" "ceil_div n page * page < n + page"
    using assms by simp_all
qed


text \<open>
  The choice of the cut, in terms of what the prefixes of the chunk sizes add up to: the first loop
  stops at \<open>c1\<close>, and the result is the first prefix that reaches the next page boundary.
\<close>

definition minimalDrop :: "int \<Rightarrow> int \<Rightarrow> int list \<Rightarrow> int" where
  "minimalDrop budget system sizes =
     snd (advanceCut (\<lambda>d. system + (sum_list sizes - d) > budget) sizes 0 0)"

definition pageTarget :: "int \<Rightarrow> int \<Rightarrow> int \<Rightarrow> int list \<Rightarrow> int" where
  "pageTarget page budget system sizes = ceil_div (minimalDrop budget system sizes) page * page"

lemma prefix_mono:
  assumes "\<forall>x \<in> set sizes. (0 :: int) < x" "i \<le> j"
  shows "sum_list (take i sizes) \<le> sum_list (take j sizes)"
proof -
  have "sum_list (take j sizes) = sum_list (take i sizes) + sum_list (take (j - i) (drop i sizes))"
    using assms(2) by (metis le_add_diff_inverse sum_list.append take_add)
  moreover have "0 \<le> sum_list (take (j - i) (drop i sizes))"
    using assms(1) by (intro sum_list_nonneg) (auto dest!: in_set_takeD in_set_dropD)
  ultimately show ?thesis by simp
qed

lemma prefix_strict:
  assumes "\<forall>x \<in> set sizes. (0 :: int) < x" "i < j" "i < length sizes"
  shows "sum_list (take i sizes) < sum_list (take j sizes)"
proof -
  have "sum_list (take (Suc i) sizes) = sum_list (take i sizes) + sizes ! i"
    using assms(3) by (simp add: take_Suc_conv_app_nth)
  moreover have "0 < sizes ! i" using assms by simp
  moreover have "sum_list (take (Suc i) sizes) \<le> sum_list (take j sizes)"
    using assms by (intro prefix_mono) auto
  ultimately show ?thesis by simp
qed

lemma chooseCut_spec:
  assumes choose: "chooseCut page budget system sizes = (c, d)" and pos: "\<forall>x \<in> set sizes. 0 < x" and page: "0 < page"
  shows "c \<le> length sizes - 1" and "d = sum_list (take c sizes)"
    and "system + (sum_list sizes - d) \<le> budget \<or> c = length sizes - 1"
    and "\<And>j. j < c \<Longrightarrow> sum_list (take j sizes) < pageTarget page budget system sizes"
    and "pageTarget page budget system sizes \<le> d \<or> c = length sizes - 1"
proof -
  obtain c1 d1 where first: "advanceCut (\<lambda>d. system + (sum_list sizes - d) > budget) sizes 0 0 = (c1, d1)"
    by (cases "advanceCut (\<lambda>d. system + (sum_list sizes - d) > budget) sizes 0 0")
  then have target: "pageTarget page budget system sizes = ceil_div d1 page * page"
    by (simp add: pageTarget_def minimalDrop_def)
  from first choose have second: "advanceCut (\<lambda>d. d < ceil_div d1 page * page) (drop c1 sizes) c1 d1 = (c, d)"
    by (simp add: chooseCut_def)
  note f = advanceCut_start(1,2,4) [OF first, unfolded not_less]
  from advanceCut_spec [OF second, unfolded not_less] obtain k where k: "c = c1 + k" "k \<le> length (drop c1 sizes) - 1"
    "d = d1 + sum_list (take k (drop c1 sizes))"
    "\<forall>j < k. d1 + sum_list (take j (drop c1 sizes)) < ceil_div d1 page * page"
    "ceil_div d1 page * page \<le> d \<or> k = length (drop c1 sizes) - 1" by (elim exE conjE)
  show d: "d = sum_list (take c sizes)" by (simp add: k(1,3) f(2) take_add)
  show len: "c \<le> length sizes - 1" using k(1,2) f(1) by auto
  have "d1 \<le> d" unfolding d f(2) using pos k(1) by (intro prefix_mono) auto
  then show "system + (sum_list sizes - d) \<le> budget \<or> c = length sizes - 1" using f len k(1) by auto
  show "sum_list (take j sizes) < pageTarget page budget system sizes" if "j < c" for j
  proof (cases "j < c1")
    case True
    then have "sum_list (take j sizes) < d1" unfolding f(2) using pos f(1) by (intro prefix_strict) auto
    with ceil_div_bounds(1) [OF page, of d1] show ?thesis by (simp add: target)
  next
    case False
    then have "sum_list (take j sizes) = d1 + sum_list (take (j - c1) (drop c1 sizes))"
      unfolding f(2) by (metis le_add_diff_inverse not_less sum_list.append take_add)
    with k(1,4) that False show ?thesis by (simp add: target)
  qed
  show "pageTarget page budget system sizes \<le> d \<or> c = length sizes - 1"
    using k(1,5) f(1) len by (auto simp: target)
qed

lemma minimalDrop_mono:
  assumes pos: "\<forall>x \<in> set (sizes @ newer). 0 < x" and ne: "sizes \<noteq> []"
  shows "minimalDrop budget system sizes \<le> minimalDrop budget system (sizes @ newer)"
proof -
  let ?g = "\<lambda>sizes d. system + (sum_list sizes - d) > budget"
  obtain c1 d1 where a: "advanceCut (?g sizes) sizes 0 0 = (c1, d1)"
    by (cases "advanceCut (?g sizes) sizes 0 0")
  obtain c2 d2 where b: "advanceCut (?g (sizes @ newer)) (sizes @ newer) 0 0 = (c2, d2)"
    by (cases "advanceCut (?g (sizes @ newer)) (sizes @ newer) 0 0")
  note fa = advanceCut_start(1-3) [OF a] and fb = advanceCut_start(2,4) [OF b]
  have more: "0 \<le> sum_list newer" using pos by (intro sum_list_nonneg) (auto intro: less_imp_le)
  have "c1 \<le> c2"
  proof (rule ccontr)
    assume "\<not> c1 \<le> c2"
    then have "c2 < c1" "c2 < length sizes" using fa(1) ne by (auto simp: not_le)
    then have "?g sizes (sum_list (take c2 sizes))" using fa(3) by blast
    moreover have tk: "take c2 (sizes @ newer) = take c2 sizes" using \<open>c2 < length sizes\<close> by simp
    ultimately have "?g (sizes @ newer) d2" unfolding fb(1) tk using more by simp
    with fb(2) \<open>c2 < c1\<close> fa(1) show False by auto
  qed
  then have "sum_list (take c1 (sizes @ newer)) \<le> d2" unfolding fb(1) using pos by (intro prefix_mono) auto
  moreover have tk: "take c1 (sizes @ newer) = take c1 sizes" using fa(1) by simp
  moreover have "minimalDrop budget system sizes = d1" "minimalDrop budget system (sizes @ newer) = d2"
    by (simp_all only: minimalDrop_def a b snd_conv)
  ultimately show ?thesis by (simp only: tk fa(2))
qed

lemma ceil_div_same:
  assumes "0 < page" "a \<le> b" "b \<le> ceil_div a page * page"
  shows "ceil_div b page = ceil_div a page"
proof -
  have "ceil_div b page * page < ceil_div a page * page + page"
    using ceil_div_bounds(2) [OF assms(1), of b] assms(3) by linarith
  then have "ceil_div b page * page < (ceil_div a page + 1) * page" by (simp add: distrib_right)
  then have "ceil_div b page \<le> ceil_div a page" using assms(1) by simp
  moreover have "ceil_div a page * page < ceil_div b page * page + page"
    using ceil_div_bounds [OF assms(1), of a] ceil_div_bounds(1) [OF assms(1), of b] assms(2) by linarith
  then have "ceil_div a page * page < (ceil_div b page + 1) * page" by (simp add: distrib_right)
  then have "ceil_div a page \<le> ceil_div b page" using assms(1) by simp
  ultimately show ?thesis by simp
qed

lemma chooseCut_stable:
  assumes pos: "\<forall>x \<in> set (sizes @ newer). 0 < x" and page: "0 < page"
    and first: "chooseCut page budget system sizes = (c, d)" and inner: "Suc c < length sizes"
    and small: "minimalDrop budget system (sizes @ newer) \<le> pageTarget page budget system sizes"
  shows "chooseCut page budget system (sizes @ newer) = (c, d)"
proof -
  have ne: "sizes \<noteq> []" using inner by auto
  have pos1: "\<forall>x \<in> set sizes. 0 < x" using pos by simp
  obtain c' d' where second: "chooseCut page budget system (sizes @ newer) = (c', d')"
    by (cases "chooseCut page budget system (sizes @ newer)")
  have target: "pageTarget page budget system (sizes @ newer) = pageTarget page budget system sizes"
    using ceil_div_same [OF page minimalDrop_mono [OF pos ne, of budget system]] small
    by (simp add: pageTarget_def)
  note f = chooseCut_spec [OF first pos1 page] and f' = chooseCut_spec [OF second pos page, unfolded target]
  have reach: "pageTarget page budget system sizes \<le> sum_list (take c sizes)" using f(2,5) inner by auto
  have takes: "take j (sizes @ newer) = take j sizes" if "j \<le> c" for j using that inner by simp
  have "c' \<le> c"
  proof (rule ccontr)
    assume "\<not> c' \<le> c"
    then have "sum_list (take c (sizes @ newer)) < pageTarget page budget system sizes" by (intro f'(4)) simp
    with reach show False unfolding takes [OF order_refl] by linarith
  qed
  moreover have "\<not> c' < c"
  proof
    assume "c' < c"
    with f(4) have "sum_list (take c' sizes) < pageTarget page budget system sizes" by blast
    moreover from \<open>c' < c\<close> have "c' \<noteq> length (sizes @ newer) - 1" "take c' (sizes @ newer) = take c' sizes"
      using inner by auto
    ultimately show False using f'(2,5) by auto
  qed
  ultimately have "c' = c" by simp
  moreover from this have "d' = d" unfolding f(2) f'(2) by (simp only: takes [OF order_refl])
  ultimately show ?thesis using second by simp
qed


section \<open>Compaction\<close>

abbreviation isSystem :: "LLMMessage \<Rightarrow> bool" where
  "isSystem m \<equiv> lm_role m = role_system"

definition historySize :: "LLMMessage list \<Rightarrow> int" where
  "historySize ms = sum_list (map measureMessage ms)"

lemma ceil_div_nonneg: "0 \<le> n \<Longrightarrow> 0 \<le> ceil_div n 4"
  by (simp add: ceil_div_def div_nonpos_pos_le0)

lemma measureMessage_pos: "10 \<le> measureMessage m"
proof -
  have "0 \<le> sum_list (map measureToolCall tcs)" for tcs
    by (rule sum_list_nonneg) (use ceil_div_nonneg in \<open>force simp: measureToolCall_def\<close>)
  then show ?thesis using ceil_div_nonneg by (auto simp: measureMessage_def split: option.split intro: add_nonneg_nonneg)
qed

lemma historySize_append [simp]: "historySize (xs @ ys) = historySize xs + historySize ys"
  by (simp add: historySize_def)

lemma historySize_concat: "historySize (concat cs) = sum_list (map measureChunk cs)"
  by (induction cs) (auto simp: historySize_def measureChunk_def)

lemma measureChunk_pos: "c \<noteq> [] \<Longrightarrow> 0 < measureChunk c"
proof (induction c)
  case (Cons m c)
  then show ?case using measureMessage_pos [of m] by (cases c) (auto simp: measureChunk_def)
qed simp

lemma chunk_sizes_pos: "\<forall>x \<in> set (map measureChunk (chunkMessages ms)). 0 < x"
  using chunkMessages_ne measureChunk_pos by auto

lemma historyPage_pos: "0 < historyPage b"
  by (simp add: historyPage_def)

text \<open>Compaction of a history split into its leading system messages and the rest.\<close>

lemma compactHistory_split:
  assumes "list_all isSystem sys" "rest = [] \<or> \<not> isSystem (hd rest)"
  shows "compactHistory (sys @ rest) b =
    (if length (sys @ rest) \<le> 1 \<or> historySize (sys @ rest) \<le> b - SYSTEM_RESERVE then sys @ rest
     else sys @ concat (drop (fst (chooseCut (historyPage (b - SYSTEM_RESERVE)) (b - SYSTEM_RESERVE) (historySize sys)
       (map measureChunk (chunkMessages rest)))) (chunkMessages rest)))"
proof -
  have "takeWhile isSystem (sys @ rest) = sys" "dropWhile isSystem (sys @ rest) = rest"
  proof -
    have "takeWhile isSystem rest = []" "dropWhile isSystem rest = rest"
      using assms(2) by (cases rest; simp)+
    with assms(1) show "takeWhile isSystem (sys @ rest) = sys" "dropWhile isSystem (sys @ rest) = rest"
      by (induction sys) auto
  qed
  then show ?thesis
    by (simp add: compactHistory_def Let_def historySize_concat [symmetric] flip: historySize_def)
qed

lemma history_split:
  obtains sys rest where "messages = sys @ rest" "list_all isSystem sys" "rest = [] \<or> \<not> isSystem (hd rest)"
proof
  show "messages = takeWhile isSystem messages @ dropWhile isSystem messages" by simp
  show "list_all isSystem (takeWhile isSystem messages)" by (induction messages) auto
  show "dropWhile isSystem messages = [] \<or> \<not> isSystem (hd (dropWhile isSystem messages))"
    using hd_dropWhile [of isSystem messages] by blast
qed

lemma compact_shape:
  "\<exists>sys dropped kept. messages = sys @ dropped @ kept \<and> compactHistory messages b = sys @ kept \<and>
    list_all isSystem sys \<and>
    (dropped = [] \<or> kept \<noteq> []) \<and>
    (historySize (sys @ kept) \<le> b - SYSTEM_RESERVE \<or> length (chunkMessages kept) \<le> 1) \<and>
    (kept = [] \<or> \<not> isTool (hd kept) \<or> \<not> insideExchange False dropped)"
proof -
  obtain sys rest where split: "messages = sys @ rest" "list_all isSystem sys" "rest = [] \<or> \<not> isSystem (hd rest)"
    by (rule history_split)
  let ?b = "b - SYSTEM_RESERVE"
  let ?chunks = "chunkMessages rest"
  let ?sizes = "map measureChunk ?chunks"
  show ?thesis
  proof (cases "length (sys @ rest) \<le> 1 \<or> historySize (sys @ rest) \<le> ?b")
    case True
    have "length (chunkMessages rest) \<le> 1" if "length rest \<le> 1"
      using that by (cases rest) auto
    with True have "historySize (sys @ rest) \<le> ?b \<or> length (chunkMessages rest) \<le> 1" by auto
    with True split show ?thesis
      by (intro exI [of _ sys] exI [of _ "[]"] exI [of _ rest]) (auto simp: compactHistory_split)
  next
    case False
    obtain c d where choose: "chooseCut (historyPage ?b) ?b (historySize sys) ?sizes = (c, d)"
      by (cases "chooseCut (historyPage ?b) ?b (historySize sys) ?sizes")
    note spec = chooseCut_spec [OF choose chunk_sizes_pos historyPage_pos]
    let ?d = "concat (take c ?chunks)" and ?k = "concat (drop c ?chunks)"
    have rest: "rest = ?d @ ?k" by (simp flip: concat_append)
    have "compactHistory messages b = sys @ ?k"
      using False choose by (simp add: split(1) compactHistory_split [OF split(2,3)])
    moreover have "?d = [] \<or> ?k \<noteq> []"
    proof (cases "rest = []")
      case False
      then have "?chunks \<noteq> []" by simp
      then have "c < length ?chunks" using spec(1) by (cases ?chunks) auto
      then obtain x xs where "drop c ?chunks = x # xs" "x \<in> set ?chunks"
        by (metis Cons_nth_drop_Suc nth_mem)
      then show ?thesis using chunkMessages_ne by auto
    qed simp
    moreover have "historySize (sys @ ?k) \<le> ?b \<or> length (chunkMessages ?k) \<le> 1"
    proof (cases "c = length ?sizes - 1")
      case True
      show ?thesis
      proof (cases "drop c ?chunks")
        case (Cons x xs)
        moreover have "length (drop c ?chunks) \<le> 1" by (simp add: True)
        ultimately have "xs = []" by simp
        with Cons have "chunkMessages ?k = [x]"
          using chunkMessages_chunk [of x rest] by (metis append_Nil2 concat.simps in_set_dropD list.set_intros(1))
        then show ?thesis by simp
      qed simp
    next
      case False
      have "sum_list ?sizes = sum_list (take c ?sizes) + sum_list (drop c ?sizes)"
        by (metis append_take_drop_id sum_list.append)
      then have "historySize ?k = sum_list ?sizes - d"
        by (simp add: historySize_concat spec(2) drop_map)
      with spec(3) False show ?thesis by simp
    qed
    moreover have "?k = [] \<or> \<not> isTool (hd ?k) \<or> \<not> insideExchange False ?d"
      using cut_outside_exchange [of c rest] by (cases "c < length ?chunks") auto
    moreover have "messages = sys @ ?d @ ?k" using split(1) by (simp flip: concat_append)
    ultimately show ?thesis using split(2)
      by (intro exI [of _ sys] exI [of _ ?d] exI [of _ ?k] conjI)
  qed
qed


lemma chunks_dropWhile_system:
  "length (chunkMessages ms) \<le> 1 \<Longrightarrow> length (chunkMessages (dropWhile isSystem ms)) \<le> 1"
  by (cases ms) (auto simp: startsExchange_def split: if_splits)

lemma single_chunk_kept:
  assumes "length (chunkMessages ms) \<le> 1"
  shows "concat (drop (fst (chooseCut p b n (map measureChunk (chunkMessages ms)))) (chunkMessages ms)) = ms"
proof -
  have "chunkMessages ms = [] \<or> (\<exists>c. chunkMessages ms = [c])"
    using assms by (cases "chunkMessages ms") auto
  then have "fst (chooseCut p b n (map measureChunk (chunkMessages ms))) = 0"
    by (auto simp: chooseCut_def)
  then show ?thesis by simp
qed

lemma compact_fixpoint:
  assumes "list_all isSystem sys"
    and "historySize (sys @ kept) \<le> b - SYSTEM_RESERVE \<or> length (chunkMessages kept) \<le> 1"
  shows "compactHistory (sys @ kept) b = sys @ kept"
proof -
  let ?s = "sys @ takeWhile isSystem kept" and ?r = "dropWhile isSystem kept"
  have "list_all isSystem ?s" using assms(1) by (auto simp: list_all_iff dest: set_takeWhileD)
  moreover have "?r = [] \<or> \<not> isSystem (hd ?r)" using hd_dropWhile [of isSystem kept] by blast
  moreover have "sys @ kept = ?s @ ?r" by simp
  ultimately show ?thesis
    using assms(2) compactHistory_split [of ?s ?r b] single_chunk_kept [OF chunks_dropWhile_system]
    by (auto simp del: append_assoc)
qed

text \<open>what compaction keeps.  The result is the leading system messages and an end of the rest; it
  fits the budget, unless all that is left of the rest is its newest exchange; the newest message is kept; and the cut
  never falls inside a tool exchange, so no result is kept whose call was dropped.\<close>

theorem compaction_keeps:
  "(\<exists>sys dropped kept. messages = sys @ dropped @ kept \<and> compactHistory messages b = sys @ kept \<and>
    list_all isSystem sys \<and>
    (dropped = [] \<or> kept \<noteq> []) \<and>
    (historySize (sys @ kept) \<le> b - SYSTEM_RESERVE \<or> length (chunkMessages kept) \<le> 1) \<and>
    (kept = [] \<or> \<not> isTool (hd kept) \<or> \<not> insideExchange False dropped)) \<and>
   compactHistory (compactHistory messages b) b = compactHistory messages b"
proof -
  obtain sys dropped kept where shape: "messages = sys @ dropped @ kept" "compactHistory messages b = sys @ kept"
    "list_all isSystem sys" "dropped = [] \<or> kept \<noteq> []"
    "historySize (sys @ kept) \<le> b - SYSTEM_RESERVE \<or> length (chunkMessages kept) \<le> 1"
    "kept = [] \<or> \<not> isTool (hd kept) \<or> \<not> insideExchange False dropped"
    using compact_shape [of messages b] by (elim exE conjE)
  from compact_fixpoint [OF shape(3,5)] shape(2)
  have "compactHistory (compactHistory messages b) b = compactHistory messages b" by simp
  with shape show ?thesis by blast
qed

definition example_message :: LLMMessage where
  "example_message = \<lparr> lm_role = role_user, lm_content = TextContent [], lm_tool_calls = None,
     lm_tool_call_id = None, lm_cache = None \<rparr>"

theorem compaction_keeps_witness:
  "compactHistory (compactHistory (replicate 11 example_message) 600) 600 =
   compactHistory (replicate 11 example_message) 600"
  using compaction_keeps [of "replicate 11 example_message" 600] by blast

lemma chunkMessages_append:
  "newer = [] \<or> \<not> isTool (hd newer) \<Longrightarrow> chunkMessages (ms @ newer) = chunkMessages ms @ chunkMessages newer"
proof (induction ms rule: chunkMessages.induct)
  case (2 m ms)
  have "takeWhile isTool newer = []" "dropWhile isTool newer = newer"
    using "2.prems" by (cases newer; simp)+
  then have "takeWhile isTool (ms @ newer) = takeWhile isTool ms"
    "dropWhile isTool (ms @ newer) = dropWhile isTool ms @ newer" by (induction ms) auto
  with 2 show ?case by auto
qed simp

text \<open>the cut stays put while the history grows.  For an over-long history whose cut lies before its newest exchange,
  new messages that open with no tool result are simply appended to what was sent before, as long as the least
  that must be dropped now stays below the page boundary the cut was extended to: what was sent is then a prefix of
  what is sent next.\<close>

theorem compaction_prefix_stable:
  assumes "list_all isSystem sys" "rest \<noteq> []" "\<not> isSystem (hd rest)" "newer = [] \<or> \<not> isTool (hd newer)"
    and "budget = b - SYSTEM_RESERVE" "budget < historySize (sys @ rest)"
    and "sizes = map measureChunk (chunkMessages rest)"
    and "Suc (fst (chooseCut (historyPage budget) budget (historySize sys) sizes)) < length sizes"
    and "minimalDrop budget (historySize sys) (sizes @ map measureChunk (chunkMessages newer))
      \<le> pageTarget (historyPage budget) budget (historySize sys) sizes"
  shows "compactHistory (sys @ rest @ newer) b = compactHistory (sys @ rest) b @ newer"
proof -
  let ?newer = "map measureChunk (chunkMessages newer)"
  obtain c d where choose: "chooseCut (historyPage budget) budget (historySize sys) sizes = (c, d)"
    by (cases "chooseCut (historyPage budget) budget (historySize sys) sizes")
  have chunks: "chunkMessages (rest @ newer) = chunkMessages rest @ chunkMessages newer"
    using assms(4) by (rule chunkMessages_append)
  have pos: "\<forall>x \<in> set (sizes @ ?newer). 0 < x"
    using chunk_sizes_pos [of "rest @ newer"] by (simp add: chunks assms(7))
  have same: "chooseCut (historyPage budget) budget (historySize sys) (sizes @ ?newer) = (c, d)"
    using assms(8,9) choose by (intro chooseCut_stable [OF pos historyPage_pos]) auto
  have c: "c \<le> length (chunkMessages rest)" using assms(7,8) choose by simp
  have "0 \<le> historySize newer"
    unfolding historySize_def
    by (rule sum_list_nonneg) (auto intro: order_trans [OF _ measureMessage_pos])
  then have over: "\<not> historySize (sys @ rest @ newer) \<le> budget" "\<not> historySize (sys @ rest) \<le> budget"
    using assms(6) by auto
  have "length rest > 1"
    using assms(7,8) by (cases rest rule: list.exhaust) (auto split: if_splits)
  then have len: "\<not> length (sys @ rest @ newer) \<le> 1" "\<not> length (sys @ rest) \<le> 1" by auto
  have "compactHistory (sys @ rest @ newer) b = sys @ concat (drop c (chunkMessages rest @ chunkMessages newer))"
    using compactHistory_split [OF assms(1), of "rest @ newer" b] assms(2,3) over(1) len(1) same
    by (simp add: chunks flip: assms(5) assms(7))
  also have "\<dots> = (sys @ concat (drop c (chunkMessages rest))) @ newer" using c by simp
  also have "sys @ concat (drop c (chunkMessages rest)) = compactHistory (sys @ rest) b"
    using compactHistory_split [OF assms(1), of rest b] assms(3) over(2) len(2) choose
    by (simp flip: assms(5) assms(7))
  finally show ?thesis by simp
qed

theorem compaction_prefix_stable_witness:
  "compactHistory (replicate 11 example_message @ [example_message]) 600 =
   compactHistory (replicate 11 example_message) 600 @ [example_message]"
proof -
  have [simp]: "measureMessage example_message = 10" "\<not> startsExchange example_message" "\<not> isTool example_message"
    "lm_role example_message = role_user"
    by (simp_all add: measureMessage_def example_message_def contentText_def ceil_div_def startsExchange_def isTool_def)
  let ?old = "replicate 11 example_message"
  have sizes: "map measureChunk (chunkMessages ?old) = replicate 11 10"
    "map measureChunk (chunkMessages [example_message]) = [10]"
    by (simp_all add: numeral_eq_Suc measureChunk_def)
  have over: "historySize ([] @ ?old) = 110" by (simp add: historySize_def numeral_eq_Suc)
  have drop1: "minimalDrop 100 0 (replicate 11 10) = 10" "minimalDrop 100 0 (replicate 11 10 @ [10]) = 20"
    "fst (chooseCut (historyPage 100) 100 0 (replicate 11 10)) = 4"
    by (simp_all add: minimalDrop_def chooseCut_def historyPage_def ceil_div_def numeral_eq_Suc)
  then have drop2: "pageTarget (historyPage 100) 100 0 (replicate 11 10) = 35"
    by (simp add: pageTarget_def historyPage_def ceil_div_def)
  have none: "historySize [] = 0" by (simp add: historySize_def)
  show ?thesis
    using compaction_prefix_stable [of "[]" ?old "[example_message]" 100 600, OF _ _ _ _ _ _ refl]
    by (simp only: sizes over none drop1 drop2) (simp add: SYSTEM_RESERVE_def drop1 drop2)
qed

end
