(* ===== verification/Agents.thy ===== *)
theory Agents
  imports LLM_History Roles_Authority
begin

text \<open>
  Agents (\<^verbatim>\<open>src/agents/agent.ts\<close>), their messages (\<^verbatim>\<open>messaging.ts\<close>) and delegation between them
  (\<^verbatim>\<open>delegation.ts\<close>, with \<^verbatim>\<open>createCommitment\<close> of \<^verbatim>\<open>src/vault/commitments.ts\<close>).  An instance is a
  record, mutated by its owner; the two tables are the lists of their rows; generated ids and the time are
  arguments.
\<close>


section \<open>Agents\<close>

datatype AgentStatus = agent_active | agent_idle | agent_terminated

record AuthorityBounds =
  ab_max_authority_level :: int
  ab_allowed_tools :: "string list"
  ab_denied_tools :: "string list"
  ab_max_token_budget :: int
  ab_can_spawn_children :: bool

record AuthorityPatch =
  ap_max_authority_level :: "int option"
  ap_allowed_tools :: "string list option"
  ap_denied_tools :: "string list option"
  ap_max_token_budget :: "int option"
  ap_can_spawn_children :: "bool option"

record Agent =
  ag_id :: string
  ag_role :: RoleDefinition
  ag_parent_id :: "string option"
  ag_status :: AgentStatus
  ag_session_id :: string
  ag_current_task :: "string option"
  ag_authority :: AuthorityBounds
  ag_memory_scope :: "string list"
  ag_created_at :: int

record AgentInstance =
  ai_agent :: Agent
  ai_messageHistory :: "LLMMessage list"
  ai_historyTokenEstimate :: int

definition HISTORY_RETENTION_TOKENS :: int where
  "HISTORY_RETENTION_TOKENS = 200000"

text \<open>\<^verbatim>\<open>200_000 * 1.1\<close> as a bound on integers.\<close>

definition HISTORY_COMPACT_TRIGGER :: int where
  "HISTORY_COMPACT_TRIGGER = HISTORY_RETENTION_TOKENS * 11 div 10"

definition or_else :: "'a option \<Rightarrow> 'a \<Rightarrow> 'a" where
  "or_else x d = (case x of None \<Rightarrow> d | Some v \<Rightarrow> v)"

definition canSpawnChildren :: "RoleDefinition \<Rightarrow> bool" where
  "canSpawnChildren role = (''delegation'' \<in> set (rd_tools role) \<or> length (or_else (rd_sub_roles role) []) > 0)"

definition getDefaultAuthority :: "RoleDefinition \<Rightarrow> AuthorityBounds" where
  "getDefaultAuthority role = \<lparr> ab_max_authority_level = rd_authority_level role, ab_allowed_tools = rd_tools role,
     ab_denied_tools = [], ab_max_token_budget = 100000, ab_can_spawn_children = canSpawnChildren role \<rparr>"

definition mergeAuthority :: "AuthorityBounds \<Rightarrow> AuthorityPatch option \<Rightarrow> AuthorityBounds" where
  "mergeAuthority defaultAuth custom =
     (case custom of None \<Rightarrow> defaultAuth
      | Some c \<Rightarrow> \<lparr>
          ab_max_authority_level = or_else (ap_max_authority_level c) (ab_max_authority_level defaultAuth),
          ab_allowed_tools = or_else (ap_allowed_tools c) (ab_allowed_tools defaultAuth),
          ab_denied_tools = or_else (ap_denied_tools c) (ab_denied_tools defaultAuth),
          ab_max_token_budget = or_else (ap_max_token_budget c) (ab_max_token_budget defaultAuth),
          ab_can_spawn_children = or_else (ap_can_spawn_children c) (ab_can_spawn_children defaultAuth) \<rparr>)"

definition newAgent :: "string \<Rightarrow> string \<Rightarrow> int \<Rightarrow> RoleDefinition \<Rightarrow> string option \<Rightarrow> AuthorityPatch option \<Rightarrow>
    string list option \<Rightarrow> AgentInstance" where
  "newAgent agentId sessionId now role parent_id custom memory_scope =
     \<lparr> ai_agent = \<lparr> ag_id = agentId, ag_role = role, ag_parent_id = parent_id, ag_status = agent_active,
         ag_session_id = sessionId, ag_current_task = None,
         ag_authority = mergeAuthority (getDefaultAuthority role) custom,
         ag_memory_scope = or_else memory_scope [], ag_created_at = now \<rparr>,
       ai_messageHistory = [], ai_historyTokenEstimate = 0 \<rparr>"

abbreviation ai_id :: "AgentInstance \<Rightarrow> string" where
  "ai_id a \<equiv> ag_id (ai_agent a)"

abbreviation ai_status :: "AgentInstance \<Rightarrow> AgentStatus" where
  "ai_status a \<equiv> ag_status (ai_agent a)"

definition setTask :: "string \<Rightarrow> AgentInstance \<Rightarrow> AgentInstance" where
  "setTask taskDescription a = a\<lparr>ai_agent := (ai_agent a)\<lparr>ag_current_task := Some taskDescription\<rparr>\<rparr>"

definition clearTask :: "AgentInstance \<Rightarrow> AgentInstance" where
  "clearTask a = a\<lparr>ai_agent := (ai_agent a)\<lparr>ag_current_task := None\<rparr>\<rparr>"

text \<open>The em dash of the placeholder text is the one code unit U+0097 here.\<close>

definition RELEASED_IMAGE :: string where
  "RELEASED_IMAGE = ''[screenshot from an earlier turn '' @ [CHR 0x97] @ '' no longer available]''"

definition releaseBlock :: "ContentBlock \<Rightarrow> ContentBlock" where
  "releaseBlock b = (case b of ImageBlock _ \<Rightarrow> TextBlock RELEASED_IMAGE | TextBlock _ \<Rightarrow> b)"

definition isImage :: "ContentBlock \<Rightarrow> bool" where
  "isImage b = (case b of ImageBlock _ \<Rightarrow> True | TextBlock _ \<Rightarrow> False)"

definition releaseEntry :: "LLMMessage \<Rightarrow> LLMMessage" where
  "releaseEntry entry =
     (case lm_content entry of
        TextContent _ \<Rightarrow> entry
      | BlockContent bs \<Rightarrow>
          if \<not> list_ex isImage bs then entry
          else entry\<lparr>lm_content := BlockContent (map releaseBlock bs)\<rparr>)"

definition releaseImagePayloads :: "AgentInstance \<Rightarrow> AgentInstance" where
  "releaseImagePayloads a = a\<lparr>ai_messageHistory := map releaseEntry (ai_messageHistory a)\<rparr>"

definition addMessage :: "LLMRole \<Rightarrow> MessageContent \<Rightarrow> AgentInstance \<Rightarrow> AgentInstance" where
  "addMessage role content a0 =
     (let a = (if role = role_assistant then releaseImagePayloads a0 else a0);
          message = \<lparr> lm_role = role, lm_content = content, lm_tool_calls = None, lm_tool_call_id = None,
                      lm_cache = None \<rparr>;
          a1 = a\<lparr>ai_messageHistory := ai_messageHistory a @ [message],
                 ai_historyTokenEstimate := ai_historyTokenEstimate a + measureMessage message\<rparr>
      in if ai_historyTokenEstimate a1 > HISTORY_COMPACT_TRIGGER
         then (let kept = compactHistory (ai_messageHistory a1) HISTORY_RETENTION_TOKENS
               in a1\<lparr>ai_messageHistory := kept,
                     ai_historyTokenEstimate := sum_list (map measureMessage kept)\<rparr>)
         else a1)"

definition agentMessages :: "AgentInstance \<Rightarrow> LLMMessage list" where
  "agentMessages a = ai_messageHistory a"

definition terminate :: "AgentInstance \<Rightarrow> AgentInstance" where
  "terminate a = clearTask (a\<lparr>ai_agent := (ai_agent a)\<lparr>ag_status := agent_terminated\<rparr>\<rparr>)"

definition activate :: "AgentInstance \<Rightarrow> AgentInstance" where
  "activate a = (if ai_status a \<noteq> agent_terminated
     then a\<lparr>ai_agent := (ai_agent a)\<lparr>ag_status := agent_active\<rparr>\<rparr> else a)"

definition idle :: "AgentInstance \<Rightarrow> AgentInstance" where
  "idle a = (if ai_status a \<noteq> agent_terminated
     then clearTask (a\<lparr>ai_agent := (ai_agent a)\<lparr>ag_status := agent_idle\<rparr>\<rparr>) else a)"


section \<open>Messages between agents\<close>

datatype MessageType = msg_task | msg_report | msg_question | msg_escalation

datatype MessagePriority = pr_low | pr_normal | pr_high | pr_urgent

record AgentMessage =
  am_msg_id :: string
  am_from_agent :: string
  am_to_agent :: string
  am_type :: MessageType
  am_content :: string
  am_priority :: MessagePriority
  am_requires_response :: bool
  am_deadline :: "int option"
  am_created_at :: int

datatype CommitmentPriority = cp_low | cp_normal | cp_high | cp_critical

datatype CommitmentStatus = cs_pending | cs_active | cs_completed | cs_failed | cs_escalated

record Commitment =
  co_id :: string
  co_what :: string
  co_when_due :: "int option"
  co_context :: "string option"
  co_priority :: CommitmentPriority
  co_status :: CommitmentStatus
  co_created_from :: "string option"
  co_assigned_to :: "string option"
  co_created_at :: int
  co_completed_at :: "int option"
  co_result :: "string option"

record AgentDb =
  db_messages :: "AgentMessage list"
  db_commitments :: "Commitment list"

definition sendMessage :: "string \<Rightarrow> int \<Rightarrow> string \<Rightarrow> string \<Rightarrow> MessageType \<Rightarrow> string \<Rightarrow> MessagePriority option \<Rightarrow>
    bool option \<Rightarrow> int option \<Rightarrow> AgentDb \<Rightarrow> AgentMessage \<times> AgentDb" where
  "sendMessage i now src dst type content priority requires_response deadline db =
     (let row = \<lparr> am_msg_id = i, am_from_agent = src, am_to_agent = dst, am_type = type, am_content = content,
                  am_priority = or_else priority pr_normal, am_requires_response = or_else requires_response False,
                  am_deadline = deadline, am_created_at = now \<rparr>
      in (row, db\<lparr>db_messages := db_messages db @ [row]\<rparr>))"

definition getMessages :: "string \<Rightarrow> MessageType option \<Rightarrow> int option \<Rightarrow> AgentDb \<Rightarrow> AgentMessage list" where
  "getMessages agentId type limit db =
     (let rows = sql_select_desc (\<lambda>r. am_to_agent r = agentId \<and> (case type of None \<Rightarrow> True | Some t \<Rightarrow> am_type r = t))
                   am_created_at (db_messages db)
      in case limit of None \<Rightarrow> rows | Some n \<Rightarrow> if n \<le> 0 then rows else take (nat n) rows)"

definition getPendingMessages :: "string \<Rightarrow> AgentDb \<Rightarrow> AgentMessage list" where
  "getPendingMessages agentId db = getMessages agentId None None db"

definition createCommitment :: "string \<Rightarrow> int \<Rightarrow> string \<Rightarrow> int option \<Rightarrow> string option \<Rightarrow> CommitmentPriority option \<Rightarrow>
    string option \<Rightarrow> string option \<Rightarrow> AgentDb \<Rightarrow> Commitment \<times> AgentDb" where
  "createCommitment i now what when_due ctx priority created_from assigned_to db =
     (let row = \<lparr> co_id = i, co_what = what, co_when_due = when_due, co_context = ctx,
                  co_priority = or_else priority cp_normal, co_status = cs_pending, co_created_from = created_from,
                  co_assigned_to = assigned_to, co_created_at = now, co_completed_at = None, co_result = None \<rparr>
      in (row, db\<lparr>db_commitments := db_commitments db @ [row]\<rparr>))"


section \<open>Delegation\<close>

record DelegationResult =
  dr_success :: bool
  dr_agent_id :: string
  dr_commitment_id :: string
  dr_message :: string

record DelegatedTask =
  dt_what :: string
  dt_context :: string
  dt_priority :: "CommitmentPriority option"
  dt_deadline :: "int option"

fun messagePriority :: "CommitmentPriority option \<Rightarrow> MessagePriority" where
  "messagePriority (Some cp_critical) = pr_urgent"
| "messagePriority (Some cp_high) = pr_high"
| "messagePriority (Some cp_low) = pr_low"
| "messagePriority (Some cp_normal) = pr_normal"
| "messagePriority None = pr_normal"

definition delegateTask :: "string \<Rightarrow> string \<Rightarrow> int \<Rightarrow> AgentInstance \<Rightarrow> AgentInstance \<Rightarrow> DelegatedTask \<Rightarrow>
    AgentDb \<Rightarrow> DelegationResult \<times> AgentInstance \<times> AgentDb" where
  "delegateTask commitmentId messageId now parent child task db =
     (if ag_parent_id (ai_agent child) \<noteq> Some (ai_id parent) then
        (\<lparr> dr_success = False, dr_agent_id = ai_id child, dr_commitment_id = [],
           dr_message = ''Agent is not a child of the parent agent'' \<rparr>, child, db)
      else if \<not> ab_can_spawn_children (ag_authority (ai_agent parent)) then
        (\<lparr> dr_success = False, dr_agent_id = ai_id child, dr_commitment_id = [],
           dr_message = ''Parent agent does not have authority to delegate tasks'' \<rparr>, child, db)
      else
        (let (commitment, db1) = createCommitment commitmentId now (dt_what task) (dt_deadline task)
               (Some (dt_context task)) (Some (or_else (dt_priority task) cp_normal)) (Some (ai_id parent))
               (Some (ai_id child)) db;
             (message, db2) = sendMessage messageId now (ai_id parent) (ai_id child) msg_task (dt_what task)
               (Some (messagePriority (dt_priority task))) (Some True) (dt_deadline task) db1
         in (\<lparr> dr_success = True, dr_agent_id = ai_id child, dr_commitment_id = co_id commitment,
               dr_message = ''Task delegated successfully (message: '' @ am_msg_id message @ '')'' \<rparr>,
             setTask (dt_what task) child, db2)))"

record CompletionReport =
  cr_success :: bool
  cr_summary :: string
  cr_details :: "string option"

definition reportContent :: "AgentInstance \<Rightarrow> CompletionReport \<Rightarrow> string" where
  "reportContent child result = JSON_stringify (JObj (
     [(''task'', case ag_current_task (ai_agent child) of None \<Rightarrow> JNull | Some t \<Rightarrow> JStr t),
      (''success'', JBool (cr_success result)), (''summary'', JStr (cr_summary result))] @
     (case cr_details result of None \<Rightarrow> [] | Some d \<Rightarrow> [(''details'', JStr d)])))"

text \<open>\<open>Inl\<close> is the error thrown, before anything was written.\<close>

definition reportCompletion :: "string \<Rightarrow> int \<Rightarrow> AgentInstance \<Rightarrow> AgentInstance \<Rightarrow> CompletionReport \<Rightarrow>
    AgentDb \<Rightarrow> string + AgentInstance \<times> AgentDb" where
  "reportCompletion messageId now child parent result db =
     (if ag_parent_id (ai_agent child) \<noteq> Some (ai_id parent)
      then Inl ''Agent is not a child of the specified parent''
      else Inr (idle (clearTask child),
        snd (sendMessage messageId now (ai_id child) (ai_id parent) msg_report (reportContent child result)
          (Some (if cr_success result then pr_normal else pr_high)) (Some False) None db)))"


section \<open>The history an agent keeps\<close>

lemma ceil_div_mono: "m \<le> n \<Longrightarrow> ceil_div m 4 \<le> ceil_div n 4"
  by (simp add: ceil_div_def zdiv_mono1)

lemma length_js_join_mono:
  "list_all2 (\<lambda>x y. length x \<le> length y) xs ys \<Longrightarrow> length (js_join sep xs) \<le> length (js_join sep ys)"
proof (induction sep xs arbitrary: ys rule: js_join.induct)
  case (3 sep x y xs)
  then obtain x' y' xs' where ys: "ys = x' # y' # xs'" "length x \<le> length x'"
    "list_all2 (\<lambda>x y. length x \<le> length y) (y # xs) (y' # xs')"
    by (auto simp: list_all2_Cons1)
  from "3.IH" [OF ys(3)] ys(1,2) show ?case by simp
qed (auto simp: list_all2_Cons1)

lemma measure_releaseEntry: "measureMessage m \<le> measureMessage (releaseEntry m)"
proof (cases "lm_content m")
  case (BlockContent bs)
  let ?text = "\<lambda>b. case b of TextBlock t \<Rightarrow> t | ImageBlock _ \<Rightarrow> ''[image]''"
  have "list_all2 (\<lambda>x y. length x \<le> length y) (map ?text bs) (map ?text (map releaseBlock bs))"
    by (auto simp: list_all2_conv_all_nth releaseBlock_def RELEASED_IMAGE_def split: ContentBlock.split)
  from length_js_join_mono [OF this, of newline] BlockContent show ?thesis
    by (auto simp: measureMessage_def releaseEntry_def contentText_def intro!: add_mono ceil_div_mono)
qed (simp add: releaseEntry_def)

definition hasImage :: "MessageContent \<Rightarrow> bool" where
  "hasImage c = (case c of TextContent _ \<Rightarrow> False | BlockContent bs \<Rightarrow> list_ex isImage bs)"

lemma releaseEntry_plain: "\<not> hasImage (lm_content m) \<Longrightarrow> releaseEntry m = m"
  by (auto simp: hasImage_def releaseEntry_def split: MessageContent.split)

lemma historySize_release: "historySize ms \<le> historySize (map releaseEntry ms)"
  by (induction ms) (auto simp: historySize_def intro: add_mono measure_releaseEntry)

text \<open>What an agent's history is like: no tool exchanges, and an estimate that never exceeds its size.\<close>

definition history_ok :: "AgentInstance \<Rightarrow> bool" where
  "history_ok a = (list_all (\<lambda>m. lm_tool_calls m = None) (ai_messageHistory a) \<and>
     ai_historyTokenEstimate a \<le> historySize (ai_messageHistory a) \<and>
     (ai_historyTokenEstimate a \<le> HISTORY_COMPACT_TRIGGER \<or>
      (\<exists>sys kept. ai_messageHistory a = sys @ kept \<and> list_all isSystem sys \<and> length kept \<le> 1)))"

lemma chunks_of_plain: "list_all (\<lambda>m. lm_tool_calls m = None) ms \<Longrightarrow> chunkMessages ms = map (\<lambda>m. [m]) ms"
  by (induction ms) (auto simp: startsExchange_def)

lemma history_ok_release:
  "history_ok a \<Longrightarrow> list_all (\<lambda>m. lm_tool_calls m = None) (ai_messageHistory (releaseImagePayloads a)) \<and>
     ai_historyTokenEstimate (releaseImagePayloads a) \<le> historySize (ai_messageHistory (releaseImagePayloads a))"
  using historySize_release [of "ai_messageHistory a"]
  by (auto simp: history_ok_def releaseImagePayloads_def list_all_iff releaseEntry_def split: MessageContent.split)

lemma history_ok_addMessage:
  assumes "history_ok a0"
  shows "history_ok (addMessage role content a0)"
proof -
  define a where "a = (if role = role_assistant then releaseImagePayloads a0 else a0)"
  define m where "m = \<lparr> lm_role = role, lm_content = content, lm_tool_calls = None, lm_tool_call_id = None,
                      lm_cache = None \<rparr>"
  let ?ms = "ai_messageHistory a @ [m]" and ?n = "ai_historyTokenEstimate a + measureMessage m"
  have a: "list_all (\<lambda>m. lm_tool_calls m = None) ?ms" "?n \<le> historySize ?ms"
    using assms history_ok_release [OF assms] by (auto simp: a_def m_def history_ok_def historySize_def)
  show ?thesis
  proof (cases "?n > HISTORY_COMPACT_TRIGGER")
    case False
    with a show ?thesis by (simp add: history_ok_def addMessage_def Let_def a_def m_def)
  next
    case True
    let ?kept = "compactHistory ?ms HISTORY_RETENTION_TOKENS"
    obtain sys dropped kept where c: "?ms = sys @ dropped @ kept" "?kept = sys @ kept" "list_all isSystem sys"
      "historySize (sys @ kept) \<le> HISTORY_RETENTION_TOKENS - SYSTEM_RESERVE \<or> length (chunkMessages kept) \<le> 1"
      using compact_shape [of ?ms HISTORY_RETENTION_TOKENS] by (elim exE conjE)
    have plain: "list_all (\<lambda>m. lm_tool_calls m = None) (sys @ kept)" using a(1) unfolding c(1) by simp
    then have "length (chunkMessages kept) = length kept" by (simp add: chunks_of_plain)
    with c(3,4) have "historySize (sys @ kept) \<le> HISTORY_COMPACT_TRIGGER \<or>
        (\<exists>s k. sys @ kept = s @ k \<and> list_all isSystem s \<and> length k \<le> 1)"
      by (auto simp: HISTORY_COMPACT_TRIGGER_def HISTORY_RETENTION_TOKENS_def SYSTEM_RESERVE_def)
    moreover have "addMessage role content a0 =
        a\<lparr>ai_messageHistory := sys @ kept, ai_historyTokenEstimate := historySize (sys @ kept)\<rparr>"
      using True c(2) by (simp add: addMessage_def Let_def a_def m_def historySize_def)
    ultimately show ?thesis using plain by (simp add: history_ok_def)
  qed
qed

definition addMessages :: "(LLMRole \<times> MessageContent) list \<Rightarrow> AgentInstance \<Rightarrow> AgentInstance" where
  "addMessages ms a = fold (\<lambda>(role, content). addMessage role content) ms a"

lemma history_ok_addMessages: "history_ok a \<Longrightarrow> history_ok (addMessages ms a)"
  unfolding addMessages_def by (induction ms arbitrary: a) (auto simp: history_ok_addMessage)

lemma addMessage_exact:
  assumes "\<not> hasImage content" "list_all (\<lambda>m. \<not> hasImage (lm_content m)) (ai_messageHistory a)"
    "ai_historyTokenEstimate a = historySize (ai_messageHistory a)"
  shows "list_all (\<lambda>m. \<not> hasImage (lm_content m)) (ai_messageHistory (addMessage role content a)) \<and>
    ai_historyTokenEstimate (addMessage role content a) = historySize (ai_messageHistory (addMessage role content a))"
proof -
  have "map releaseEntry (ai_messageHistory a) = ai_messageHistory a"
    using assms(2) by (simp add: list_all_iff releaseEntry_plain map_idI)
  then have release: "(if role = role_assistant then releaseImagePayloads a else a) = a"
    by (simp add: releaseImagePayloads_def)
  have sub: "set (compactHistory ms b) \<subseteq> set ms" for ms b
    using compact_shape [of ms b] by auto
  show ?thesis using assms
    by (auto simp: addMessage_def release Let_def historySize_def list_all_iff dest!: subsetD [OF sub])
qed

lemma addMessages_exact:
  assumes "\<forall>(r, c) \<in> set ms. \<not> hasImage c" "list_all (\<lambda>m. \<not> hasImage (lm_content m)) (ai_messageHistory a)"
    "ai_historyTokenEstimate a = historySize (ai_messageHistory a)"
  shows "ai_historyTokenEstimate (addMessages ms a) = historySize (ai_messageHistory (addMessages ms a))"
  using assms unfolding addMessages_def
proof (induction ms arbitrary: a)
  case (Cons x ms)
  then show ?case using addMessage_exact [of "snd x" a "fst x"] by (cases x) simp
qed simp

lemma history_ok_new [simp]: "history_ok (newAgent i s now role parent custom scope)"
  by (simp add: history_ok_def newAgent_def historySize_def HISTORY_COMPACT_TRIGGER_def HISTORY_RETENTION_TOKENS_def)

text \<open>an agent's history stays bounded.  After any sequence of messages the running estimate is at most the size
  of the history, and equal to it when no message carried an image; and it is at most 220000, unless all that
  is left besides the leading system messages is a single message.\<close>

theorem agent_history_bounded:
  assumes "a = addMessages ms (newAgent i s now role parent custom scope)"
  shows "ai_historyTokenEstimate a \<le> historySize (ai_messageHistory a) \<and>
    ((\<forall>(r, c) \<in> set ms. \<not> hasImage c) \<longrightarrow> ai_historyTokenEstimate a = historySize (ai_messageHistory a)) \<and>
    (ai_historyTokenEstimate a \<le> 220000 \<or>
      (\<exists>sys kept. ai_messageHistory a = sys @ kept \<and> list_all isSystem sys \<and> length kept \<le> 1))"
proof -
  have "history_ok a" unfolding assms by (rule history_ok_addMessages) simp
  moreover have "ai_historyTokenEstimate a = historySize (ai_messageHistory a)" if "\<forall>(r, c) \<in> set ms. \<not> hasImage c"
    unfolding assms by (rule addMessages_exact [OF that]) (simp_all add: newAgent_def historySize_def)
  ultimately show ?thesis
    by (auto simp: history_ok_def HISTORY_COMPACT_TRIGGER_def HISTORY_RETENTION_TOKENS_def)
qed

definition example_role :: RoleDefinition where
  "example_role = \<lparr> rd_id = ''r1'', rd_name = ''Jarvis'', rd_description = [], rd_responsibilities = [],
     rd_tools = [''delegation''], rd_authority_level = 5, rd_autonomous_actions = None, rd_approval_required = None,
     rd_kpis = None, rd_communication_style = None, rd_heartbeat_instructions = None, rd_sub_roles = None \<rparr>"

definition example_agent :: "string \<Rightarrow> string option \<Rightarrow> AgentInstance" where
  "example_agent i parent = newAgent i ''s'' 0 example_role parent None None"

theorem agent_history_bounded_witness:
  "ai_historyTokenEstimate (addMessages [(role_user, TextContent ''hi''), (role_assistant, TextContent ''hello'')]
     (example_agent ''a'' None)) =
   historySize (ai_messageHistory (addMessages [(role_user, TextContent ''hi''), (role_assistant, TextContent ''hello'')]
     (example_agent ''a'' None)))"
  using agent_history_bounded [OF refl, of "[(role_user, TextContent ''hi''), (role_assistant, TextContent ''hello'')]"
      "''a''" "''s''" 0 example_role None None None]
  by (simp add: example_agent_def hasImage_def)

text \<open>
  The estimate does not follow the images that an assistant message releases: their placeholder is
  longer than what was counted for them.
\<close>

definition imageMessages :: "nat \<Rightarrow> (LLMRole \<times> MessageContent) list" where
  "imageMessages n = replicate n (role_user, BlockContent [ImageBlock \<lparr> img_media_type = ''image/png'', img_data = [] \<rparr>])"

lemma measure_image:
  "measureMessage \<lparr> lm_role = role_user, lm_content = BlockContent [ImageBlock img], lm_tool_calls = None,
     lm_tool_call_id = None, lm_cache = None \<rparr> = 12"
  by (simp add: measureMessage_def contentText_def ceil_div_def)

lemma imageMessages_run:
  assumes "12 * int n \<le> HISTORY_COMPACT_TRIGGER"
  shows "addMessages (imageMessages n) (newAgent i s now role parent custom scope) =
    (newAgent i s now role parent custom scope)\<lparr>
       ai_messageHistory := replicate n \<lparr> lm_role = role_user,
         lm_content = BlockContent [ImageBlock \<lparr> img_media_type = ''image/png'', img_data = [] \<rparr>],
         lm_tool_calls = None, lm_tool_call_id = None, lm_cache = None \<rparr>,
       ai_historyTokenEstimate := 12 * int n\<rparr>"
  using assms
proof (induction n)
  case 0
  then show ?case by (simp add: addMessages_def imageMessages_def newAgent_def)
next
  case (Suc n)
  have "addMessages (imageMessages (Suc n)) a = addMessage role_user
      (BlockContent [ImageBlock \<lparr> img_media_type = ''image/png'', img_data = [] \<rparr>]) (addMessages (imageMessages n) a)" for a
    by (simp add: addMessages_def imageMessages_def replicate_append_same [symmetric] del: replicate_Suc)
  with Suc show ?case
    by (simp add: addMessage_def Let_def measure_image replicate_append_same newAgent_def algebra_simps)
qed

text \<open>the running estimate falls behind when images are released.  After \<open>n\<close> image messages that fit the budget
  and one assistant message the estimate counts 12 for each of them, while their placeholders measure 24: the
  history can hold about twice its budget before the next compaction is considered.\<close>

theorem image_release_drift:
  assumes "12 * int n + 10 \<le> HISTORY_COMPACT_TRIGGER"
    and "a = addMessages (imageMessages n @ [(role_assistant, TextContent [])]) (newAgent i s now role parent custom scope)"
  shows "ai_historyTokenEstimate a = 12 * int n + 10 \<and> historySize (ai_messageHistory a) = 24 * int n + 10"
proof -
  have run: "a = addMessage role_assistant (TextContent [])
      (addMessages (imageMessages n) (newAgent i s now role parent custom scope))"
    by (simp add: assms(2) addMessages_def)
  have "measureMessage (releaseEntry \<lparr> lm_role = role_user,
      lm_content = BlockContent [ImageBlock \<lparr> img_media_type = ''image/png'', img_data = [] \<rparr>],
      lm_tool_calls = None, lm_tool_call_id = None, lm_cache = None \<rparr>) = 24"
    by (simp add: releaseEntry_def isImage_def releaseBlock_def RELEASED_IMAGE_def measureMessage_def contentText_def
        ceil_div_def)
  moreover have "measureMessage \<lparr> lm_role = role_assistant, lm_content = TextContent [], lm_tool_calls = None,
      lm_tool_call_id = None, lm_cache = None \<rparr> = 10"
    by (simp add: measureMessage_def contentText_def ceil_div_def)
  ultimately show ?thesis
    using assms(1) imageMessages_run [of n i s now role parent custom scope] unfolding run
    by (simp add: addMessage_def Let_def releaseImagePayloads_def historySize_def sum_list_replicate)
qed

theorem image_release_drift_witness:
  "historySize (ai_messageHistory (addMessages (imageMessages 10000 @ [(role_assistant, TextContent [])])
     (example_agent ''a'' None))) = 240010"
  using image_release_drift [of 10000 _ "''a''" "''s''" 0 example_role None None None, OF _ refl]
  by (simp add: HISTORY_COMPACT_TRIGGER_def HISTORY_RETENTION_TOKENS_def example_agent_def)


section \<open>The life of an agent\<close>

datatype AgentOp = SetTask string | ClearTask | Terminate | Activate | Idle | AddMessage LLMRole MessageContent

fun agentOp :: "AgentOp \<Rightarrow> AgentInstance \<Rightarrow> AgentInstance" where
  "agentOp (SetTask t) a = setTask t a"
| "agentOp ClearTask a = clearTask a"
| "agentOp Terminate a = terminate a"
| "agentOp Activate a = activate a"
| "agentOp Idle a = idle a"
| "agentOp (AddMessage role content) a = addMessage role content a"

lemmas agent_op_defs = setTask_def clearTask_def terminate_def activate_def idle_def

lemma addMessage_agent [simp]: "ai_agent (addMessage role content a) = ai_agent a"
  by (simp add: addMessage_def Let_def releaseImagePayloads_def)

lemma agentOp_frame:
  "ai_id (agentOp op a) = ai_id a \<and> ag_role (ai_agent (agentOp op a)) = ag_role (ai_agent a) \<and>
   ag_parent_id (ai_agent (agentOp op a)) = ag_parent_id (ai_agent a) \<and>
   ag_authority (ai_agent (agentOp op a)) = ag_authority (ai_agent a)"
  by (cases op) (simp_all add: agent_op_defs)

lemma agentOp_terminated: "ai_status a = agent_terminated \<Longrightarrow> ai_status (agentOp op a) = agent_terminated"
  by (cases op) (simp_all add: agent_op_defs)

text \<open>termination is final, and nobody raises an agent's authority.  Over any run of operations a terminated
  agent stays terminated; and identity, role, parent and authority bounds are those the agent was made with.\<close>

theorem agent_terminated_final:
  "(ai_status a = agent_terminated \<longrightarrow> ai_status (fold agentOp ops a) = agent_terminated) \<and>
   ai_id (fold agentOp ops a) = ai_id a \<and> ag_role (ai_agent (fold agentOp ops a)) = ag_role (ai_agent a) \<and>
   ag_parent_id (ai_agent (fold agentOp ops a)) = ag_parent_id (ai_agent a) \<and>
   ag_authority (ai_agent (fold agentOp ops a)) = ag_authority (ai_agent a)"
proof (induction ops arbitrary: a)
  case (Cons op ops)
  from Cons.IH [of "agentOp op a"] agentOp_frame [of op a] agentOp_terminated [of a op] show ?case by simp
qed simp

theorem agent_terminated_final_witness:
  "ai_status (fold agentOp [Activate, SetTask ''t'', Idle] (terminate (example_agent ''a'' None))) = agent_terminated"
  using agent_terminated_final [of "terminate (example_agent ''a'' None)" "[Activate, SetTask ''t'', Idle]"]
  by (simp add: terminate_def clearTask_def)


section \<open>Delegating\<close>

text \<open>delegation needs the parent's consent and leaves a trail.  It succeeds exactly when the child names the parent
  and the parent may delegate; then there is one new commitment, assigned to the child and
  created by the parent, one new task message to the child as urgent as the commitment, and the child works on
  the task.  Otherwise nothing changes at all.\<close>

theorem delegation_exact:
  assumes "delegateTask commitmentId messageId now parent child task db = (res, child', db')"
  shows "(dr_success res \<longleftrightarrow> ag_parent_id (ai_agent child) = Some (ai_id parent) \<and>
      ab_can_spawn_children (ag_authority (ai_agent parent))) \<and>
    (if dr_success res then
       (\<exists>co msg. db_commitments db' = db_commitments db @ [co] \<and> db_messages db' = db_messages db @ [msg] \<and>
          co_id co = dr_commitment_id res \<and> co_assigned_to co = Some (ai_id child) \<and> co_status co = cs_pending \<and>
          co_created_from co = Some (ai_id parent) \<and> am_to_agent msg = ai_id child \<and> am_type msg = msg_task \<and>
          am_requires_response msg \<and> (am_priority msg = pr_urgent \<longleftrightarrow> co_priority co = cp_critical)) \<and>
       ag_current_task (ai_agent child') = Some (dt_what task) \<and> ai_status child' = ai_status child
     else child' = child \<and> db' = db)"
  using assms
  by (cases "dt_priority task" rule: messagePriority.cases)
    (auto simp: delegateTask_def createCommitment_def sendMessage_def setTask_def or_else_def Let_def split: if_splits)

theorem delegation_exact_witness:
  "dr_success (fst (delegateTask ''c1'' ''m1'' 5 (example_agent ''a'' None) (example_agent ''b'' (Some ''a''))
     \<lparr> dt_what = ''x'', dt_context = ''y'', dt_priority = Some cp_critical, dt_deadline = None \<rparr>
     \<lparr> db_messages = [], db_commitments = [] \<rparr>))"
proof -
  let ?r = "delegateTask ''c1'' ''m1'' 5 (example_agent ''a'' None) (example_agent ''b'' (Some ''a''))
     \<lparr> dt_what = ''x'', dt_context = ''y'', dt_priority = Some cp_critical, dt_deadline = None \<rparr>
     \<lparr> db_messages = [], db_commitments = [] \<rparr>"
  have "ag_parent_id (ai_agent (example_agent ''b'' (Some ''a''))) = Some (ai_id (example_agent ''a'' None))"
    "ab_can_spawn_children (ag_authority (ai_agent (example_agent ''a'' None)))"
    by (simp_all add: example_agent_def newAgent_def mergeAuthority_def getDefaultAuthority_def canSpawnChildren_def
        example_role_def)
  with delegation_exact [of "''c1''" "''m1''" 5 _ _ _ _ "fst ?r" "fst (snd ?r)" "snd (snd ?r)"] show ?thesis by simp
qed

end
