(* ===== verification/Agent_Hierarchy.thy ===== *)
theory Agent_Hierarchy
  imports Agents
begin

text \<open>
  The tree of agents (\<^verbatim>\<open>src/agents/hierarchy.ts\<close>).  A \<^verbatim>\<open>Set\<close> is the list of its elements in insertion
  order.  The two recursive operations follow parent links the caller supplied, so they may not end;
  they take a depth bound, and \<open>None\<close> is the call stack running out.
\<close>

record AgentHierarchy =
  ah_agents :: "(string, AgentInstance) jsmap"
  ah_children :: "(string, string list) jsmap"

definition newHierarchy :: AgentHierarchy where
  "newHierarchy = \<lparr> ah_agents = [], ah_children = [] \<rparr>"

definition set_add :: "'a \<Rightarrow> 'a list \<Rightarrow> 'a list" where
  "set_add x xs = (if x \<in> set xs then xs else xs @ [x])"

definition parentOf :: "AgentInstance \<Rightarrow> string option" where
  "parentOf a = (case ag_parent_id (ai_agent a) of Some p \<Rightarrow> if p = [] then None else Some p | None \<Rightarrow> None)"

definition childSet :: "AgentHierarchy \<Rightarrow> string \<Rightarrow> string list" where
  "childSet h p = (case js_get (ah_children h) p of None \<Rightarrow> [] | Some cs \<Rightarrow> cs)"

definition addAgent :: "AgentInstance \<Rightarrow> AgentHierarchy \<Rightarrow> AgentHierarchy" where
  "addAgent agent h0 =
     (let h = h0\<lparr>ah_agents := js_set (ai_id agent) agent (ah_agents h0)\<rparr>
      in case parentOf agent of
           None \<Rightarrow> h
         | Some parentId \<Rightarrow>
             h\<lparr>ah_children := js_set parentId (set_add (ai_id agent) (childSet h parentId)) (ah_children h)\<rparr>)"

definition detach :: "string \<Rightarrow> AgentInstance \<Rightarrow> AgentHierarchy \<Rightarrow> AgentHierarchy" where
  "detach agentId agent h =
     (let h1 = (case parentOf agent of
                  None \<Rightarrow> h
                | Some parentId \<Rightarrow>
                    (case js_get (ah_children h) parentId of
                       None \<Rightarrow> h
                     | Some siblings \<Rightarrow>
                         h\<lparr>ah_children := js_set parentId (removeAll agentId siblings) (ah_children h)\<rparr>))
      in h1\<lparr>ah_agents := js_delete agentId (ah_agents h1)\<rparr>)"

fun removeAgent :: "nat \<Rightarrow> string \<Rightarrow> AgentHierarchy \<Rightarrow> AgentHierarchy option"
  and removeEach :: "nat \<Rightarrow> string list \<Rightarrow> AgentHierarchy \<Rightarrow> AgentHierarchy option" where
  "removeAgent 0 agentId h = None"
| "removeAgent (Suc n) agentId h =
     (case js_get (ah_agents h) agentId of
        None \<Rightarrow> Some h
      | Some agent \<Rightarrow>
          (case js_get (ah_children h) agentId of
             None \<Rightarrow> Some (detach agentId agent h)
           | Some childIds \<Rightarrow>
               (case removeEach n childIds h of
                  None \<Rightarrow> None
                | Some h1 \<Rightarrow> Some (detach agentId agent (h1\<lparr>ah_children := js_delete agentId (ah_children h1)\<rparr>)))))"
| "removeEach n [] h = Some h"
| "removeEach n (c # cs) h =
     (case removeAgent n c h of None \<Rightarrow> None | Some h1 \<Rightarrow> removeEach n cs h1)"

definition getAgent :: "string \<Rightarrow> AgentHierarchy \<Rightarrow> AgentInstance option" where
  "getAgent agentId h = js_get (ah_agents h) agentId"

definition getChildren :: "string \<Rightarrow> AgentHierarchy \<Rightarrow> AgentInstance list" where
  "getChildren agentId h = List.map_filter (\<lambda>i. js_get (ah_agents h) i) (childSet h agentId)"

definition getParent :: "string \<Rightarrow> AgentHierarchy \<Rightarrow> AgentInstance option" where
  "getParent agentId h =
     (case js_get (ah_agents h) agentId of None \<Rightarrow> None
      | Some agent \<Rightarrow> (case parentOf agent of None \<Rightarrow> None | Some p \<Rightarrow> js_get (ah_agents h) p))"

definition getAllAgents :: "AgentHierarchy \<Rightarrow> AgentInstance list" where
  "getAllAgents h = map snd (ah_agents h)"

definition getPrimary :: "AgentHierarchy \<Rightarrow> AgentInstance option" where
  "getPrimary h = List.find (\<lambda>a. ag_parent_id (ai_agent a) = None) (getAllAgents h)"

definition getActiveAgents :: "AgentHierarchy \<Rightarrow> AgentInstance list" where
  "getActiveAgents h = filter (\<lambda>a. ai_status a = agent_active) (getAllAgents h)"

datatype AgentTreeNode = AgentTreeNode AgentInstance "AgentTreeNode list"

fun buildTreeNode :: "nat \<Rightarrow> AgentHierarchy \<Rightarrow> AgentInstance \<Rightarrow> AgentTreeNode option"
  and buildEach :: "nat \<Rightarrow> AgentHierarchy \<Rightarrow> AgentInstance list \<Rightarrow> AgentTreeNode list option" where
  "buildTreeNode 0 h agent = None"
| "buildTreeNode (Suc n) h agent =
     map_option (AgentTreeNode agent) (buildEach n h (getChildren (ai_id agent) h))"
| "buildEach n h [] = Some []"
| "buildEach n h (c # cs) =
     (case buildTreeNode n h c of None \<Rightarrow> None
      | Some t \<Rightarrow> map_option ((#) t) (buildEach n h cs))"

text \<open>\<open>Inl\<close> is the error thrown.\<close>

definition getTree :: "nat \<Rightarrow> AgentHierarchy \<Rightarrow> (string + AgentTreeNode) option" where
  "getTree n h = (case getPrimary h of
     None \<Rightarrow> Some (Inl ''No primary agent found in hierarchy'')
   | Some primary \<Rightarrow> map_option Inr (buildTreeNode n h primary))"


section \<open>The invariant\<close>

text \<open>
  Agents are added descends fresh ids, below parents that are there: then the order in which the map
  holds them puts every parent before its children, which bounds both recursions.
\<close>

definition linked :: "AgentHierarchy \<Rightarrow> string \<Rightarrow> string \<Rightarrow> bool" where
  "linked h p c = (\<exists>a. js_get (ah_agents h) c = Some a \<and> parentOf a = Some p)"

fun parents_first :: "(string \<times> AgentInstance) list \<Rightarrow> bool" where
  "parents_first [] = True"
| "parents_first ((c, a) # rest) =
     ((\<forall>x \<in> set ((c, a) # rest). parentOf a \<noteq> Some (fst x)) \<and> parents_first rest)"

definition hierarchy_ok :: "AgentHierarchy \<Rightarrow> bool" where
  "hierarchy_ok h = (js_map_ok (ah_agents h) \<and> (\<forall>(i, a) \<in> set (ah_agents h). ai_id a = i) \<and>
     parents_first (ah_agents h) \<and>
     (\<forall>p c. linked h p c \<longrightarrow> js_has (ah_agents h) p) \<and>
     (\<forall>p. distinct (childSet h p)) \<and> (\<forall>p c. c \<in> set (childSet h p) \<longleftrightarrow> linked h p c))"

inductive descends :: "AgentHierarchy \<Rightarrow> string \<Rightarrow> string \<Rightarrow> bool" for h where
  descends_self: "js_has (ah_agents h) p \<Longrightarrow> descends h p p"
| descends_step: "descends h p q \<Longrightarrow> linked h q c \<Longrightarrow> descends h p c"

inductive_cases descendsE: "descends h p c"

text \<open>How late in the map an agent comes, counted from the end: children are smaller.\<close>

fun lateness :: "(string \<times> AgentInstance) list \<Rightarrow> string \<Rightarrow> nat" where
  "lateness [] i = 0"
| "lateness (x # xs) i = (if fst x = i then Suc (length xs) else lateness xs i)"

lemma lateness_le: "lateness xs i \<le> length xs"
  by (induction xs) auto

lemma lateness_pos: "js_has xs i \<Longrightarrow> 0 < lateness xs i"
  by (induction xs) auto

lemma lateness_child:
  "parents_first xs \<Longrightarrow> js_get xs c = Some a \<Longrightarrow> parentOf a = Some p \<Longrightarrow> js_has xs p \<Longrightarrow>
     lateness xs c < lateness xs p"
proof (induction xs)
  case (Cons x xs)
  obtain i b where x: "x = (i, b)" by (cases x)
  show ?case
  proof (cases "i = c")
    case True
    with Cons.prems x have "b = a" by simp
    with Cons.prems(1,3) x True have "p \<notin> fst ` set (x # xs)" by auto
    moreover from Cons.prems(4) have "p \<in> fst ` set (x # xs)"
      by (metis option.distinct(1) map_of_eq_None_iff)
    ultimately show ?thesis by blast
  next
    case c: False
    show ?thesis
    proof (cases "i = p")
      case True
      with c x lateness_le [of xs c] show ?thesis by (simp add: less_Suc_eq_le)
    next
      case False
      with c x Cons show ?thesis by simp
    qed
  qed
qed simp

lemma linked_lateness:
  assumes "hierarchy_ok h" "linked h p c" "js_has (ah_agents h) p"
  shows "lateness (ah_agents h) c < lateness (ah_agents h) p"
  using assms lateness_child by (fastforce simp: hierarchy_ok_def linked_def)

lemma linked_here: "linked h p c \<Longrightarrow> js_has (ah_agents h) c"
  by (auto simp: linked_def)

lemma descends_here: "descends h p c \<Longrightarrow> js_has (ah_agents h) c"
  by (induction rule: descends.induct) (auto simp: linked_here)

lemma descends_root: "descends h p c \<Longrightarrow> js_has (ah_agents h) p"
  by (induction rule: descends.induct) auto

lemma descends_lateness:
  "descends h p c \<Longrightarrow> hierarchy_ok h \<Longrightarrow> c = p \<or> lateness (ah_agents h) c < lateness (ah_agents h) p"
proof (induction rule: descends.induct)
  case (descends_step p q c)
  with linked_lateness [of h q c] descends_here [of h p q] show ?case by auto
qed simp

lemma descends_trans: "descends h q c \<Longrightarrow> descends h p q \<Longrightarrow> descends h p c"
  by (induction rule: descends.induct) (auto intro: descends.descends_step)

lemma descends_unfold:
  assumes "js_has (ah_agents h) p"
  shows "descends h p x \<longleftrightarrow> x = p \<or> (\<exists>c. linked h p c \<and> descends h c x)"
proof
  assume "descends h p x"
  then show "x = p \<or> (\<exists>c. linked h p c \<and> descends h c x)"
  proof (induction rule: descends.induct)
    case (descends_step p q c)
    then show ?case using linked_here [of h q c] by (auto intro: descends.intros)
  qed simp
next
  assume "x = p \<or> (\<exists>c. linked h p c \<and> descends h c x)"
  then show "descends h p x"
    using assms by (auto intro: descends_self descends_trans [OF _ descends.descends_step [OF descends_self [OF assms]]])
qed


lemma linked_unique: "linked h p c \<Longrightarrow> linked h q c \<Longrightarrow> p = q"
  by (auto simp: linked_def)

lemma descends_linear: "descends h c x \<Longrightarrow> descends h d x \<Longrightarrow> descends h c d \<or> descends h d c"
proof (induction rule: descends.induct)
  case (descends_step p q x)
  from \<open>descends h d x\<close> show ?case
  proof (cases rule: descends.cases)
    case descends_self
    with descends_step(1,2) show ?thesis by (auto intro: descends.descends_step)
  next
    case (descends_step r)
    with \<open>linked h q x\<close> have "r = q" by (auto dest: linked_unique)
    with descends_step \<open>descends h d q \<Longrightarrow> descends h p d \<or> descends h d p\<close> show ?thesis by blast
  qed
qed simp

lemma siblings_not_descends:
  assumes "hierarchy_ok h" "linked h p c" "linked h p d" "descends h c d"
  shows "c = d"
proof (rule ccontr)
  assume "c \<noteq> d"
  with assms(4) obtain q where "descends h c q" "linked h q d" by (auto elim: descendsE)
  with assms(3) have "descends h c p" by (auto dest: linked_unique)
  with descends_lateness [OF this assms(1)] linked_lateness [OF assms(1,2)] descends_here [of h c p] show False
    by auto
qed

lemma siblings_disjoint:
  assumes "hierarchy_ok h" "linked h p c" "linked h p d" "descends h c x" "descends h d x"
  shows "c = d"
  using descends_linear [OF assms(4,5)] siblings_not_descends [OF assms(1,2,3)] siblings_not_descends [OF assms(1,3,2)] by blast


section \<open>Removing agents\<close>

text \<open>The hierarchy after a set of agents left it.\<close>

definition pruned :: "AgentHierarchy \<Rightarrow> AgentHierarchy \<Rightarrow> string set \<Rightarrow> bool" where
  "pruned h h' S = (hierarchy_ok h' \<and> ah_agents h' = filter (\<lambda>x. fst x \<notin> S) (ah_agents h))"

lemma map_of_filter_keys: "map_of (filter (\<lambda>x. fst x \<notin> S) xs) k = (if k \<in> S then None else map_of xs k)"
  by (induction xs) auto

lemma pruned_get:
  "pruned h h' S \<Longrightarrow> js_get (ah_agents h') i = (if i \<in> S then None else js_get (ah_agents h) i)"
  unfolding pruned_def by (simp only: map_of_filter_keys)

lemma pruned_linked: "pruned h h' S \<Longrightarrow> linked h' p c \<longleftrightarrow> linked h p c \<and> c \<notin> S"
  by (auto simp: pruned_def linked_def map_of_filter_keys)

lemma pruned_has: "pruned h h' S \<Longrightarrow> js_has (ah_agents h') i \<longleftrightarrow> js_has (ah_agents h) i \<and> i \<notin> S"
  by (auto simp: pruned_def map_of_filter_keys)

lemma parents_first_filter: "parents_first xs \<Longrightarrow> parents_first (filter P xs)"
  by (induction xs rule: parents_first.induct) auto

lemma lateness_filter: "lateness (filter (\<lambda>x. fst x \<notin> S) xs) i \<le> lateness xs i"
  by (induction xs) (auto intro: le_SucI order_trans [OF lateness_le length_filter_le])

lemma pruned_descends:
  assumes pr: "pruned h h' S" and apart: "\<And>x. descends h d x \<Longrightarrow> x \<notin> S"
  shows "descends h' d x \<longleftrightarrow> descends h d x"
proof
  assume "descends h' d x"
  then show "descends h d x"
  proof (induction rule: descends.induct)
    case (descends_self p)
    with pruned_has [OF pr, of p] show ?case by (blast intro: descends.intros)
  next
    case (descends_step p q c)
    with pruned_linked [OF pr, of q c] show ?case by (blast intro: descends.intros)
  qed
next
  assume "descends h d x"
  then show "descends h' d x"
    using apart
  proof (induction rule: descends.induct)
    case (descends_self d)
    then show ?case using pruned_has [OF pr, of d] by (blast intro: descends.intros)
  next
    case (descends_step d q x)
    then show ?case using pruned_linked [OF pr, of q x] by (blast intro: descends.intros)
  qed
qed

lemma childSet_detach:
  "childSet (detach i agent h) p =
     (if parentOf agent = Some p then removeAll i (childSet h p) else childSet h p)"
  by (auto simp: detach_def childSet_def jsmap_simps Let_def split: option.split)

lemma agents_detach: "ah_agents (detach i agent h) = filter (\<lambda>x. fst x \<notin> {i}) (ah_agents h)"
  by (auto simp: detach_def Let_def AList.delete_eq split: option.split intro: filter_cong)

lemma hierarchy_ok_filter:
  assumes ok: "hierarchy_ok h" and agents: "ah_agents h' = filter (\<lambda>x. fst x \<notin> S) (ah_agents h)"
    and closed: "\<And>p c. linked h p c \<Longrightarrow> p \<in> S \<Longrightarrow> c \<in> S"
    and dist: "\<And>p. distinct (childSet h' p)"
    and children: "\<And>p c. c \<in> set (childSet h' p) \<longleftrightarrow> linked h p c \<and> c \<notin> S"
  shows "hierarchy_ok h'"
proof -
  have linked: "linked h' p c \<longleftrightarrow> linked h p c \<and> c \<notin> S" for p c
    by (auto simp: linked_def agents map_of_filter_keys)
  have "js_map_ok (ah_agents h')" using ok by (auto simp: hierarchy_ok_def js_map_ok_def agents intro: distinct_map_filter)
  moreover have "\<forall>(i, a) \<in> set (ah_agents h'). ai_id a = i" using ok by (auto simp: hierarchy_ok_def agents)
  moreover have "parents_first (ah_agents h')" using ok by (auto simp: hierarchy_ok_def agents parents_first_filter)
  moreover have "js_has (ah_agents h') p" if "linked h' p c" for p c
    using that closed [of p c] ok by (auto simp: linked hierarchy_ok_def agents map_of_filter_keys)
  ultimately show ?thesis using dist children by (simp add: hierarchy_ok_def linked)
qed

lemma detach_leaf:
  assumes ok: "hierarchy_ok h" and agent: "js_get (ah_agents h) i = Some agent"
    and leaf: "\<And>c. \<not> linked h i c"
    and agents: "ah_agents h1 = ah_agents h" and same: "\<And>p. childSet h1 p = childSet h p"
  shows "pruned h (detach i agent h1) {i}"
proof -
  have "ah_agents (detach i agent h1) = filter (\<lambda>x. fst x \<notin> {i}) (ah_agents h)"
    by (simp add: agents_detach agents)
  moreover from this have "hierarchy_ok (detach i agent h1)"
  proof (rule hierarchy_ok_filter [OF ok])
    show "distinct (childSet (detach i agent h1) p)" for p
      using ok by (auto simp: childSet_detach same hierarchy_ok_def distinct_removeAll)
    show "c \<in> set (childSet (detach i agent h1) p) \<longleftrightarrow> linked h p c \<and> c \<notin> {i}" for p c
      using ok agent by (auto simp: childSet_detach same hierarchy_ok_def linked_def)
  qed (use leaf in auto)
  ultimately show ?thesis by (simp add: pruned_def)
qed

lemma pruned_trans:
  assumes "pruned h h1 S" "pruned h1 h2 T" "S \<union> T = U"
  shows "pruned h h2 U"
  using assms by (auto simp: pruned_def intro: filter_cong)

lemma remove_pruned:
  shows "hierarchy_ok h \<Longrightarrow> lateness (ah_agents h) i < n \<Longrightarrow>
      \<exists>h'. removeAgent n i h = Some h' \<and> pruned h h' {x. descends h i x}"
    and "hierarchy_ok h \<Longrightarrow> distinct cs \<Longrightarrow> \<forall>c \<in> set cs. linked h p c \<Longrightarrow> lateness (ah_agents h) p \<le> n \<Longrightarrow>
      \<exists>h'. removeEach n cs h = Some h' \<and> pruned h h' {x. \<exists>c \<in> set cs. descends h c x}"
proof (induction n i h and n cs h arbitrary: and p rule: removeAgent_removeEach.induct)
  case (2 n i h)
  show ?case
  proof (cases "js_get (ah_agents h) i")
    case None
    then have "\<not> descends h i x" for x using descends_root [of h i x] by auto
    with None 2 show ?thesis by (simp add: pruned_def)
  next
    case (Some agent)
    then have here: "js_has (ah_agents h) i" by simp
    have children: "set (childSet h i) = {c. linked h i c}" using "2.prems"(1) by (auto simp: hierarchy_ok_def)
    show ?thesis
    proof (cases "js_get (ah_children h) i")
      case None
      then have leaf: "\<not> linked h i c" for c using children by (auto simp: childSet_def)
      then have "{x. descends h i x} = {i}" using descends_unfold [OF here] by auto
      with detach_leaf [OF "2.prems"(1) Some leaf refl refl] Some None show ?thesis by simp
    next
      case childIds: (Some cs)
      then have cs: "set cs = {c. linked h i c}" "distinct cs"
        using children "2.prems"(1) by (auto simp: childSet_def hierarchy_ok_def dest: spec [where x = i])
      from "2.IH" [OF Some childIds "2.prems"(1) cs(2), of i] cs(1) "2.prems"(2)
      obtain h1 where h1: "removeEach n cs h = Some h1" "pruned h h1 {x. \<exists>c \<in> set cs. descends h c x}" by auto
      have apart: "i \<notin> {x. \<exists>c \<in> set cs. descends h c x}"
      proof
        assume "i \<in> {x. \<exists>c \<in> set cs. descends h c x}"
        then obtain c where "linked h i c" "descends h c i" using cs(1) by auto
        then show False
          using descends_lateness [of h c i] linked_lateness [OF "2.prems"(1) _ here, of c] "2.prems"(1) by auto
      qed
      have ok1: "hierarchy_ok h1" using h1(2) by (simp add: pruned_def)
      have agent1: "js_get (ah_agents h1) i = Some agent"
        unfolding pruned_get [OF h1(2)] using apart Some by simp
      have leaf1: "\<not> linked h1 i c" for c
        using pruned_linked [OF h1(2), of i c] cs(1) descends_self [of h c] linked_here [of h i c] by auto
      have "childSet h1 i = []"
      proof -
        have "c \<notin> set (childSet h1 i)" for c using ok1 leaf1 [of c] by (simp add: hierarchy_ok_def)
        then show ?thesis by (cases "childSet h1 i") auto
      qed
      then have "childSet (h1\<lparr>ah_children := js_delete i (ah_children h1)\<rparr>) p = childSet h1 p" for p
        by (auto simp: childSet_def jsmap_simps)
      from detach_leaf [OF ok1 agent1 leaf1 _ this]
      have "pruned h1 (detach i agent (h1\<lparr>ah_children := js_delete i (ah_children h1)\<rparr>)) {i}" by simp
      moreover have "{x. \<exists>c \<in> set cs. descends h c x} \<union> {i} = {x. descends h i x}"
        using descends_unfold [OF here] cs(1) by auto
      ultimately show ?thesis
        using pruned_trans [OF h1(2)] Some childIds h1(1) by auto
    qed
  qed
next
  case (3 n h)
  then show ?case by (simp add: pruned_def)
next
  case (4 n c cs h)
  have c: "linked h p c" using "4.prems"(3) by simp
  have p: "js_has (ah_agents h) p" using "4.prems"(1) c by (auto simp: hierarchy_ok_def)
  have "lateness (ah_agents h) c < n" using linked_lateness [OF "4.prems"(1) c p] "4.prems"(4) by simp
  from "4.IH"(1) [OF "4.prems"(1) this]
  obtain h1 where h1: "removeAgent n c h = Some h1" "pruned h h1 {x. descends h c x}" by auto
  have apart: "x \<notin> {x. descends h c x}" if "d \<in> set cs" "descends h d x" for d x
    using siblings_disjoint [OF "4.prems"(1) c, of d x] that "4.prems"(2,3) by auto
  have "hierarchy_ok h1" using h1(2) by (simp add: pruned_def)
  moreover have "\<forall>d \<in> set cs. linked h1 p d"
  proof
    fix d assume "d \<in> set cs"
    with "4.prems"(3) have "linked h p d" by simp
    with apart [OF \<open>d \<in> set cs\<close> descends_self [OF linked_here]] pruned_linked [OF h1(2), of p d]
    show "linked h1 p d" by blast
  qed
  moreover have "lateness (ah_agents h1) p \<le> n"
    using h1(2) lateness_filter [of "{x. descends h c x}" "ah_agents h" p] "4.prems"(4) by (simp add: pruned_def)
  ultimately obtain h2 where h2: "removeEach n cs h1 = Some h2" "pruned h1 h2 {x. \<exists>d \<in> set cs. descends h1 d x}"
    using "4.IH"(2) [OF h1(1)] "4.prems"(2) by auto
  have "descends h1 d x \<longleftrightarrow> descends h d x" if "d \<in> set cs" for d x
    by (rule pruned_descends [OF h1(2)]) (rule apart [OF that])
  then have "{x. descends h c x} \<union> {x. \<exists>d \<in> set cs. descends h1 d x} = {x. \<exists>d \<in> set (c # cs). descends h d x}" by auto
  from pruned_trans [OF h1(2) h2(2) this] h1(1) h2(1) show ?case by simp
qed simp


section \<open>Adding agents\<close>

lemma parents_first_snoc:
  "parents_first xs \<Longrightarrow> \<forall>(c, a) \<in> set xs. parentOf a \<noteq> Some i \<Longrightarrow> parentOf b \<noteq> Some i \<Longrightarrow> parents_first (xs @ [(i, b)])"
  by (induction xs rule: parents_first.induct) auto

lemma js_set_fresh: "js_get m k = None \<Longrightarrow> js_set k v m = m @ [(k, v)]"
  by (induction m) (auto split: if_splits)

lemma childSet_addAgent:
  "childSet (addAgent agent h) p =
     (if parentOf agent = Some p then set_add (ai_id agent) (childSet h p) else childSet h p)"
  by (auto simp: addAgent_def childSet_def jsmap_simps Let_def split: option.split)

lemma agents_addAgent: "ah_agents (addAgent agent h) = js_set (ai_id agent) agent (ah_agents h)"
  by (simp add: addAgent_def Let_def split: option.split)

lemma addAgent_ok:
  assumes ok: "hierarchy_ok h" and fresh: "js_get (ah_agents h) (ai_id agent) = None"
    and parent: "case parentOf agent of None \<Rightarrow> True | Some p \<Rightarrow> js_has (ah_agents h) p"
  shows "hierarchy_ok (addAgent agent h)"
proof -
  let ?h = "addAgent agent h" and ?i = "ai_id agent"
  have agents: "ah_agents ?h = ah_agents h @ [(?i, agent)]"
    using fresh by (simp add: agents_addAgent js_set_fresh)
  have ne: "parentOf agent \<noteq> Some ?i" using parent fresh by (auto split: option.splits)
  have orphan: "\<not> linked h ?i c" for c using ok fresh by (auto simp: hierarchy_ok_def)
  have not_here: "\<not> linked h p ?i" for p using fresh by (simp add: linked_def)
  have linked: "linked ?h p c \<longleftrightarrow> linked h p c \<or> (c = ?i \<and> parentOf agent = Some p)" for p c
    using fresh by (auto simp: linked_def agents_addAgent jsmap_simps)
  have "js_map_ok (ah_agents ?h)" using ok by (simp add: hierarchy_ok_def agents_addAgent jsm.ok_set)
  moreover have "\<forall>(i, a) \<in> set (ah_agents ?h). ai_id a = i" using ok by (auto simp: hierarchy_ok_def agents)
  moreover have "parents_first (ah_agents ?h)"
    unfolding agents
  proof (rule parents_first_snoc)
    show "\<forall>(c, a) \<in> set (ah_agents h). parentOf a \<noteq> Some ?i"
      using ok orphan js_get_mem [of "ah_agents h"] by (fastforce simp: hierarchy_ok_def linked_def)
  qed (use ok ne in \<open>auto simp: hierarchy_ok_def\<close>)
  moreover have "js_has (ah_agents ?h) p" if "linked ?h p c" for p c
    using that ok parent by (auto simp: linked hierarchy_ok_def agents_addAgent jsmap_simps split: option.splits)
  moreover have "distinct (childSet ?h p)" for p
    using ok by (auto simp: childSet_addAgent set_add_def hierarchy_ok_def)
  moreover have "c \<in> set (childSet ?h p) \<longleftrightarrow> linked ?h p c" for p c
    using ok not_here by (auto simp: childSet_addAgent set_add_def hierarchy_ok_def linked)
  ultimately show ?thesis by (simp add: hierarchy_ok_def)
qed

lemma hierarchy_ok_new [simp]: "hierarchy_ok newHierarchy"
  by (simp add: hierarchy_ok_def newHierarchy_def childSet_def linked_def)

text \<open>A hierarchy built by spawning below agents that are there, and by removing subtrees.\<close>

inductive hierarchy_built :: "AgentHierarchy \<Rightarrow> bool" where
  built_new: "hierarchy_built newHierarchy"
| built_add: "hierarchy_built h \<Longrightarrow> js_get (ah_agents h) (ai_id agent) = None \<Longrightarrow>
    case parentOf agent of None \<Rightarrow> True | Some p \<Rightarrow> js_has (ah_agents h) p \<Longrightarrow> hierarchy_built (addAgent agent h)"
| built_remove: "hierarchy_built h \<Longrightarrow> removeAgent n i h = Some h' \<Longrightarrow> n > length (ah_agents h) \<Longrightarrow> hierarchy_built h'"

lemma hierarchy_built_ok: "hierarchy_built h \<Longrightarrow> hierarchy_ok h"
proof (induction rule: hierarchy_built.induct)
  case (built_remove h n i h')
  then show ?case
    using remove_pruned(1) [of h i n] le_less_trans [OF lateness_le] by (fastforce simp: pruned_def)
qed (simp_all add: addAgent_ok)

text \<open>removing an agent ends and removes exactly its subtree.  In a hierarchy built by spawning under fresh ids
  below present agents, a call depth of one more than the number of agents is enough; the agents left are those
  that do not descend from the one removed, in the same order; and they still form a consistent hierarchy.\<close>

theorem remove_exact:
  assumes "hierarchy_built h" "length (ah_agents h) < n"
  shows "\<exists>h'. removeAgent n i h = Some h' \<and> hierarchy_ok h' \<and>
    ah_agents h' = filter (\<lambda>x. \<not> descends h i (fst x)) (ah_agents h)"
proof -
  have "lateness (ah_agents h) i < n" using lateness_le [of "ah_agents h" i] assms(2) by simp
  from remove_pruned(1) [OF hierarchy_built_ok [OF assms(1)] this] show ?thesis by (auto simp: pruned_def)
qed

definition family :: AgentHierarchy where
  "family = addAgent (example_agent ''c'' (Some ''b'')) (addAgent (example_agent ''b'' (Some ''a''))
     (addAgent (example_agent ''a'' None) newHierarchy))"

lemma example_agent_simps [simp]:
  "ai_id (example_agent i p) = i" "ag_parent_id (ai_agent (example_agent i p)) = p"
  by (simp_all add: example_agent_def newAgent_def)

lemma family_built: "hierarchy_built family"
  unfolding family_def
  by (intro built_add built_new) (simp_all add: agents_addAgent newHierarchy_def parentOf_def)

theorem remove_exact_witness:
  "\<exists>h'. removeAgent 4 ''b'' family = Some h' \<and> hierarchy_ok h' \<and>
     ah_agents h' = filter (\<lambda>x. \<not> descends family ''b'' (fst x)) (ah_agents family)"
  by (rule remove_exact [OF family_built]) (simp add: family_def agents_addAgent newHierarchy_def)


section \<open>The tree\<close>

fun treeIds :: "AgentTreeNode \<Rightarrow> string list" where
  "treeIds (AgentTreeNode a ts) = ai_id a # concat (map treeIds ts)"

lemma getChildren_ids:
  assumes "hierarchy_ok h"
  shows "ai_id ` set (getChildren p h) = {c. linked h p c}"
    and "a \<in> set (getChildren p h) \<Longrightarrow> js_get (ah_agents h) (ai_id a) = Some a"
proof -
  have ids: "ai_id a = i" if "js_get (ah_agents h) i = Some a" for i a
    using assms map_of_SomeD [OF that] by (auto simp: hierarchy_ok_def)
  show "a \<in> set (getChildren p h) \<Longrightarrow> js_get (ah_agents h) (ai_id a) = Some a"
    using ids by (auto simp: getChildren_def map_filter_def)
  have "set (childSet h p) = {c. linked h p c}" using assms by (auto simp: hierarchy_ok_def)
  then have children: "set (getChildren p h) = {a. \<exists>i. linked h p i \<and> js_get (ah_agents h) i = Some a}"
    by (force simp: getChildren_def map_filter_def)
  show "ai_id ` set (getChildren p h) = {c. linked h p c}"
  proof
    show "ai_id ` set (getChildren p h) \<subseteq> {c. linked h p c}" using ids by (auto simp: children)
    show "{c. linked h p c} \<subseteq> ai_id ` set (getChildren p h)"
    proof
      fix c assume "c \<in> {c. linked h p c}"
      then obtain a where "linked h p c" "js_get (ah_agents h) c = Some a" by (auto simp: linked_def)
      with ids show "c \<in> ai_id ` set (getChildren p h)" by (force simp: children)
    qed
  qed
qed

lemma build_total:
  shows "hierarchy_ok h \<Longrightarrow> js_get (ah_agents h) (ai_id a) = Some a \<Longrightarrow> lateness (ah_agents h) (ai_id a) < n \<Longrightarrow>
      \<exists>t. buildTreeNode n h a = Some t \<and> set (treeIds t) = {x. descends h (ai_id a) x}"
    and "hierarchy_ok h \<Longrightarrow> \<forall>a \<in> set as. js_get (ah_agents h) (ai_id a) = Some a \<and> lateness (ah_agents h) (ai_id a) < n \<Longrightarrow>
      \<exists>ts. buildEach n h as = Some ts \<and> set (concat (map treeIds ts)) = {x. \<exists>a \<in> set as. descends h (ai_id a) x}"
proof (induction n h a and n h as rule: buildTreeNode_buildEach.induct)
  case (2 n h a)
  have here: "js_has (ah_agents h) (ai_id a)" using "2.prems"(2) by simp
  have "lateness (ah_agents h) (ai_id c) < n" if "c \<in> set (getChildren (ai_id a) h)" for c
  proof -
    have "linked h (ai_id a) (ai_id c)" using getChildren_ids(1) [OF "2.prems"(1), of "ai_id a"] that by auto
    from linked_lateness [OF "2.prems"(1) this here] "2.prems"(3) show ?thesis by simp
  qed
  with "2.IH" [OF "2.prems"(1)] getChildren_ids(2) [OF "2.prems"(1)] obtain ts where
    ts: "buildEach n h (getChildren (ai_id a) h) = Some ts"
    "set (concat (map treeIds ts)) = {x. \<exists>c \<in> set (getChildren (ai_id a) h). descends h (ai_id c) x}" by blast
  have "{x. \<exists>c \<in> set (getChildren (ai_id a) h). descends h (ai_id c) x} = {x. \<exists>i. linked h (ai_id a) i \<and> descends h i x}"
  proof -
    have "linked h (ai_id a) i \<longleftrightarrow> i \<in> ai_id ` set (getChildren (ai_id a) h)" for i
      unfolding getChildren_ids(1) [OF "2.prems"(1)] by simp
    then show ?thesis by (simp add: bex_simps(7) image_iff) blast
  qed
  with ts descends_unfold [OF here] show ?case by auto
next
  case (4 n h a as)
  then obtain t ts where "buildTreeNode n h a = Some t" "set (treeIds t) = {x. descends h (ai_id a) x}"
    "buildEach n h as = Some ts" "set (concat (map treeIds ts)) = {x. \<exists>a \<in> set as. descends h (ai_id a) x}" by auto
  then show ?case by auto
qed simp_all

text \<open>the tree is total and complete.  In a hierarchy built that way, with a call depth of one more than the
  number of agents, \<open>getTree\<close> returns; without a parentless agent it is the error; otherwise it is the tree of the first of
  them, whose nodes are exactly the agents that descend from it.\<close>

theorem tree_total:
  assumes "hierarchy_built h" "length (ah_agents h) < n"
  shows "case getPrimary h of
      None \<Rightarrow> getTree n h = Some (Inl ''No primary agent found in hierarchy'')
    | Some a \<Rightarrow> (\<exists>t. getTree n h = Some (Inr t) \<and> set (treeIds t) = {x. descends h (ai_id a) x})"
proof (cases "getPrimary h")
  case None
  then show ?thesis by (simp add: getTree_def)
next
  case (Some a)
  have ok: "hierarchy_ok h" using assms(1) by (rule hierarchy_built_ok)
  from Some have "a \<in> set (getAllAgents h)" unfolding getPrimary_def using find_Some_iff_mem by fastforce
  then obtain i where i: "(i, a) \<in> set (ah_agents h)" by (auto simp: getAllAgents_def)
  with ok have "js_get (ah_agents h) (ai_id a) = Some a"
    using js_get_mem [of "ah_agents h" i a] by (auto simp: hierarchy_ok_def)
  moreover have "lateness (ah_agents h) (ai_id a) < n" using lateness_le [of "ah_agents h" "ai_id a"] assms(2) by simp
  ultimately show ?thesis using build_total(1) [OF ok] Some by (auto simp: getTree_def)
qed

theorem tree_total_witness:
  "\<exists>t. getTree 4 family = Some (Inr t) \<and> set (treeIds t) = {x. descends family ''a'' x}"
proof -
  have "getPrimary family = Some (example_agent ''a'' None)" "length (ah_agents family) < 4"
    by (simp_all add: family_def agents_addAgent newHierarchy_def getPrimary_def getAllAgents_def)
  with tree_total [OF family_built, of 4] show ?thesis by simp
qed

end
