(* ===== verification/Task_Manager.thy ===== *)
theory Task_Manager
  imports Agents
begin

text \<open>
  The background task manager (\<^verbatim>\<open>src/agents/task-manager.ts\<close>).  The sub-agent run of a task is code of the
  caller; its promise settles once, so a task in \<open>tm_inflight\<close> is one whose promise is open, with its
  completion callback.  A callback belongs to the caller and may throw: \<open>Some e\<close> is the message of what
  it throws.  What the lifecycle listeners are told is appended to \<open>tm_events\<close>; their errors are caught.
\<close>

datatype AsyncTaskStatus = task_running | task_completed | task_failed

datatype TerminationReason = reason_completed | reason_max_iterations | reason_error | reason_paused

record SubAgentResult =
  sa_success :: bool
  sa_response :: string
  sa_toolsUsed :: "string list"
  sa_tokensUsed :: "nat \<times> nat"
  sa_terminationReason :: TerminationReason
  sa_messages :: "LLMMessage list"

record AsyncTask =
  at_id :: string
  at_agentId :: string
  at_agentName :: string
  at_specialistId :: string
  at_task :: string
  at_status :: AsyncTaskStatus
  at_startedAt :: int
  at_completedAt :: "int option"
  at_result :: "SubAgentResult option"
  at_summary :: "string option"

datatype TaskLifecycleEvent = ev_launch | ev_complete | ev_fail

type_synonym CompleteCallback = "AsyncTask \<Rightarrow> string option"

record AgentTaskManager =
  tm_tasks :: "(string, AsyncTask) jsmap"
  tm_listeners :: "nat list"
  tm_inflight :: "(string, CompleteCallback option) jsmap"
  tm_events :: "(nat \<times> TaskLifecycleEvent \<times> AsyncTask) list"

definition newTaskManager :: AgentTaskManager where
  "newTaskManager = \<lparr> tm_tasks = [], tm_listeners = [], tm_inflight = [], tm_events = [] \<rparr>"

definition MAX_RUNNING_TASKS :: nat where
  "MAX_RUNNING_TASKS = 5"

definition TaskCapacityError :: string where
  "TaskCapacityError = show_nat MAX_RUNNING_TASKS @ '' agent tasks are already running. Wait for one to finish.''"

definition runningCount :: "AgentTaskManager \<Rightarrow> nat" where
  "runningCount tm = length (filter (\<lambda>x. at_status (snd x) = task_running) (tm_tasks tm))"

definition canLaunch :: "AgentTaskManager \<Rightarrow> bool" where
  "canLaunch tm = (runningCount tm < MAX_RUNNING_TASKS)"

definition subscribeLifecycle :: "nat \<Rightarrow> AgentTaskManager \<Rightarrow> AgentTaskManager" where
  "subscribeLifecycle l tm = tm\<lparr>tm_listeners := (if l \<in> set (tm_listeners tm) then tm_listeners tm else tm_listeners tm @ [l])\<rparr>"

definition unsubscribeLifecycle :: "nat \<Rightarrow> AgentTaskManager \<Rightarrow> AgentTaskManager" where
  "unsubscribeLifecycle l tm = tm\<lparr>tm_listeners := removeAll l (tm_listeners tm)\<rparr>"

definition emitTask :: "TaskLifecycleEvent \<Rightarrow> AsyncTask \<Rightarrow> AgentTaskManager \<Rightarrow> AgentTaskManager" where
  "emitTask ev task tm = tm\<lparr>tm_events := tm_events tm @ map (\<lambda>l. (l, ev, task)) (tm_listeners tm)\<rparr>"

definition putTask :: "AsyncTask \<Rightarrow> AgentTaskManager \<Rightarrow> AgentTaskManager" where
  "putTask task tm = tm\<lparr>tm_tasks := js_set (at_id task) task (tm_tasks tm)\<rparr>"

definition launch :: "string \<Rightarrow> int \<Rightarrow> AgentInstance \<Rightarrow> string \<Rightarrow> CompleteCallback option \<Rightarrow> AgentTaskManager \<Rightarrow>
    (string + string) \<times> AgentTaskManager" where
  "launch taskId now agent task onComplete tm =
     (if \<not> canLaunch tm then (Inl TaskCapacityError, tm)
      else (let asyncTask = \<lparr> at_id = taskId, at_agentId = ai_id agent, at_agentName = rd_name (ag_role (ai_agent agent)),
                  at_specialistId = rd_id (ag_role (ai_agent agent)), at_task = task, at_status = task_running,
                  at_startedAt = now, at_completedAt = None, at_result = None, at_summary = None \<rparr>;
                tm1 = emitTask ev_launch asyncTask (putTask asyncTask tm)
            in (Inr taskId, tm1\<lparr>tm_inflight := js_set taskId onComplete (tm_inflight tm1)\<rparr>)))"

definition completedTask :: "int \<Rightarrow> SubAgentResult \<Rightarrow> AsyncTask \<Rightarrow> AsyncTask" where
  "completedTask now result t = t\<lparr>at_status := task_completed, at_completedAt := Some now, at_result := Some result\<rparr>"

definition failedTask :: "int \<Rightarrow> string \<Rightarrow> AsyncTask \<Rightarrow> AsyncTask" where
  "failedTask now err t = t\<lparr>at_status := task_failed, at_completedAt := Some now,
     at_result := Some \<lparr> sa_success = False, sa_response = ''Task failed: '' @ err, sa_toolsUsed = [],
       sa_tokensUsed = (0, 0), sa_terminationReason = reason_error, sa_messages = [] \<rparr>\<rparr>"

text \<open>
  The rejection handler; an error its callback throws is an unhandled rejection, which changes nothing here.
  The resolution handler; an error its callback throws reaches the rejection handler.
\<close>

definition onRejected :: "int \<Rightarrow> string \<Rightarrow> AsyncTask \<Rightarrow> AgentTaskManager \<Rightarrow> AgentTaskManager" where
  "onRejected now err t tm = (let t1 = failedTask now err t in emitTask ev_fail t1 (putTask t1 tm))"

definition onResolved :: "int \<Rightarrow> SubAgentResult \<Rightarrow> CompleteCallback option \<Rightarrow> AsyncTask \<Rightarrow> AgentTaskManager \<Rightarrow> AgentTaskManager" where
  "onResolved now result onComplete t tm =
     (let t1 = completedTask now result t;
          tm1 = emitTask ev_complete t1 (putTask t1 tm)
      in case onComplete of
           None \<Rightarrow> tm1
         | Some callback \<Rightarrow> (case callback t1 of None \<Rightarrow> tm1 | Some err \<Rightarrow> onRejected now err t1 tm1))"

text \<open>The run's promise settles: \<open>Inr\<close> with a result, \<open>Inl\<close> with an error.\<close>

definition settleRun :: "string \<Rightarrow> int \<Rightarrow> string + SubAgentResult \<Rightarrow> AgentTaskManager \<Rightarrow> AgentTaskManager" where
  "settleRun taskId now outcome tm =
     (case (js_get (tm_inflight tm) taskId, js_get (tm_tasks tm) taskId) of
        (Some onComplete, Some t) \<Rightarrow>
          (let tm1 = tm\<lparr>tm_inflight := js_delete taskId (tm_inflight tm)\<rparr>
           in case outcome of
                Inr result \<Rightarrow> onResolved now result onComplete t tm1
              | Inl err \<Rightarrow> onRejected now err t tm1)
      | _ \<Rightarrow> tm)"

definition getTask :: "string \<Rightarrow> AgentTaskManager \<Rightarrow> AsyncTask option" where
  "getTask taskId tm = js_get (tm_tasks tm) taskId"

definition setSummary :: "string \<Rightarrow> string \<Rightarrow> AgentTaskManager \<Rightarrow> AgentTaskManager" where
  "setSummary taskId summary tm =
     (case js_get (tm_tasks tm) taskId of None \<Rightarrow> tm
      | Some t \<Rightarrow> tm\<lparr>tm_tasks := js_set taskId (t\<lparr>at_summary := Some summary\<rparr>) (tm_tasks tm)\<rparr>)"

fun latestTask :: "string \<Rightarrow> AsyncTask option \<Rightarrow> AsyncTask list \<Rightarrow> AsyncTask option" where
  "latestTask agentId latest [] = latest"
| "latestTask agentId latest (t # ts) =
     (if at_agentId t = agentId \<and> (case latest of None \<Rightarrow> True | Some l \<Rightarrow> at_startedAt t > at_startedAt l)
      then latestTask agentId (Some t) ts else latestTask agentId latest ts)"

definition getAgentTask :: "string \<Rightarrow> AgentTaskManager \<Rightarrow> AsyncTask option" where
  "getAgentTask agentId tm = latestTask agentId None (map snd (tm_tasks tm))"

definition isAgentBusy :: "string \<Rightarrow> AgentTaskManager \<Rightarrow> bool" where
  "isAgentBusy agentId tm = list_ex (\<lambda>x. at_agentId (snd x) = agentId \<and> at_status (snd x) = task_running) (tm_tasks tm)"

definition listTasks :: "AsyncTaskStatus option \<Rightarrow> AgentTaskManager \<Rightarrow> AsyncTask list" where
  "listTasks status tm = (case status of None \<Rightarrow> map snd (tm_tasks tm)
     | Some st \<Rightarrow> filter (\<lambda>t. at_status t = st) (map snd (tm_tasks tm)))"

definition expired :: "int \<Rightarrow> int \<Rightarrow> AsyncTask \<Rightarrow> bool" where
  "expired now maxAgeMs t = (at_status t \<noteq> task_running \<and>
     (case at_completedAt t of None \<Rightarrow> False | Some c \<Rightarrow> c \<noteq> 0 \<and> now - c > maxAgeMs))"

definition cleanup :: "int \<Rightarrow> int \<Rightarrow> AgentTaskManager \<Rightarrow> nat \<times> AgentTaskManager" where
  "cleanup now maxAgeMs tm =
     (let kept = filter (\<lambda>x. \<not> expired now maxAgeMs (snd x)) (tm_tasks tm)
      in (length (tm_tasks tm) - length kept, tm\<lparr>tm_tasks := kept\<rparr>))"


section \<open>The invariant\<close>

definition task_ok :: "AgentTaskManager \<Rightarrow> string \<Rightarrow> AsyncTask \<Rightarrow> bool" where
  "task_ok tm i t = (at_id t = i \<and>
     (if js_has (tm_inflight tm) i then at_status t = task_running \<and> at_completedAt t = None \<and> at_result t = None
      else at_status t \<noteq> task_running \<and> at_completedAt t \<noteq> None \<and> at_result t \<noteq> None))"

definition tasks_ok :: "AgentTaskManager \<Rightarrow> bool" where
  "tasks_ok tm = (js_map_ok (tm_tasks tm) \<and> js_map_ok (tm_inflight tm) \<and>
     (\<forall>i. js_has (tm_inflight tm) i \<longrightarrow> js_has (tm_tasks tm) i) \<and>
     (\<forall>i t. js_get (tm_tasks tm) i = Some t \<longrightarrow> task_ok tm i t) \<and> runningCount tm \<le> MAX_RUNNING_TASKS)"

datatype TaskOp =
    TSubscribe nat
  | TUnsubscribe nat
  | TLaunch string int AgentInstance string "CompleteCallback option"
  | TSettle string int "string + SubAgentResult"
  | TSummary string string
  | TCleanup int int

text \<open>A launch draws a random id; the runs considered draw one that no task has.\<close>

fun taskOp :: "TaskOp \<Rightarrow> AgentTaskManager \<Rightarrow> AgentTaskManager" where
  "taskOp (TSubscribe l) tm = subscribeLifecycle l tm"
| "taskOp (TUnsubscribe l) tm = unsubscribeLifecycle l tm"
| "taskOp (TLaunch i now agent task onComplete) tm =
     (if js_has (tm_tasks tm) i then tm else snd (launch i now agent task onComplete tm))"
| "taskOp (TSettle i now outcome) tm = settleRun i now outcome tm"
| "taskOp (TSummary i summary) tm = setSummary i summary tm"
| "taskOp (TCleanup now maxAgeMs) tm = snd (cleanup now maxAgeMs tm)"

definition countRunning :: "(string, AsyncTask) jsmap \<Rightarrow> nat" where
  "countRunning m = length (filter (\<lambda>x. at_status (snd x) = task_running) m)"

lemma countRunning_set:
  "countRunning (js_set i t m) \<le> countRunning m + (if at_status t = task_running then 1 else 0)"
  by (induction m) (auto simp: countRunning_def)

lemma countRunning_Suc: "countRunning (js_set i t m) \<le> Suc (countRunning m)"
  using countRunning_set [of i t m] by (auto split: if_splits)

lemma countRunning_replace:
  "js_get m i = Some t0 \<Longrightarrow> at_status t = task_running \<longrightarrow> at_status t0 = task_running \<Longrightarrow>
     countRunning (js_set i t m) \<le> countRunning m"
  by (induction m) (auto simp: countRunning_def split: if_splits)

lemma putTask_simps [simp]:
  "tm_inflight (putTask t tm) = tm_inflight tm" "tm_events (putTask t tm) = tm_events tm"
  "tm_listeners (putTask t tm) = tm_listeners tm" "tm_tasks (putTask t tm) = js_set (at_id t) t (tm_tasks tm)"
  by (simp_all add: putTask_def)

lemma emitTask_simps [simp]:
  "tm_inflight (emitTask ev t tm) = tm_inflight tm" "tm_tasks (emitTask ev t tm) = tm_tasks tm"
  "tm_listeners (emitTask ev t tm) = tm_listeners tm"
  "tm_events (emitTask ev t tm) = tm_events tm @ map (\<lambda>l. (l, ev, t)) (tm_listeners tm)"
  by (simp_all add: emitTask_def)

text \<open>A step that touches one task only needs to be looked at there.\<close>

lemma tasks_ok_local:
  assumes ok: "tasks_ok tm" and maps: "js_map_ok (tm_tasks tm')" "js_map_ok (tm_inflight tm')"
    and others: "\<And>j. j \<noteq> i \<Longrightarrow> js_get (tm_tasks tm') j = js_get (tm_tasks tm) j \<and>
      js_get (tm_inflight tm') j = js_get (tm_inflight tm) j"
    and count: "runningCount tm' \<le> MAX_RUNNING_TASKS"
    and here: "js_has (tm_inflight tm') i \<Longrightarrow> js_has (tm_tasks tm') i"
      "\<And>t. js_get (tm_tasks tm') i = Some t \<Longrightarrow> task_ok tm' i t"
  shows "tasks_ok tm'"
proof -
  have "task_ok tm' j t" if "js_get (tm_tasks tm') j = Some t" for j t
  proof (cases "j = i")
    case False
    with that others [OF False] ok have "task_ok tm j t" by (simp add: tasks_ok_def)
    with others [OF False] show ?thesis by (simp add: task_ok_def)
  qed (use that here(2) in simp)
  moreover have "js_has (tm_tasks tm') j" if "js_has (tm_inflight tm') j" for j
  proof (cases "j = i")
    case False
    with that others [OF False] ok show ?thesis by (simp add: tasks_ok_def)
  qed (use that here(1) in simp)
  ultimately show ?thesis using maps count by (simp add: tasks_ok_def)
qed

lemma launch_ok:
  assumes ok: "tasks_ok tm" and fresh: "js_get (tm_tasks tm) i = None"
  shows "tasks_ok (snd (launch i now agent task onComplete tm))"
proof (cases "canLaunch tm")
  case True
  have "runningCount (snd (launch i now agent task onComplete tm)) \<le> Suc (runningCount tm)"
    using True by (simp add: launch_def Let_def runningCount_def countRunning_Suc flip: countRunning_def)
  then have "runningCount (snd (launch i now agent task onComplete tm)) \<le> MAX_RUNNING_TASKS"
    using True by (simp add: canLaunch_def)
  then show ?thesis using ok True
    by (intro tasks_ok_local [OF ok, where i = i])
      (auto simp: launch_def Let_def jsmap_simps jsm.ok_set task_ok_def tasks_ok_def)
qed (simp add: launch_def ok)

text \<open>Recording the end of a task, with its promise closed.\<close>

definition ended :: "AsyncTask \<Rightarrow> bool" where
  "ended t = (at_status t \<noteq> task_running \<and> at_completedAt t \<noteq> None \<and> at_result t \<noteq> None)"

lemma ended_done [simp]: "ended (completedTask now res t)" "ended (failedTask now err t)"
  by (simp_all add: ended_def completedTask_def failedTask_def)

lemma done_id [simp]: "at_id (completedTask now res t) = at_id t" "at_id (failedTask now err t) = at_id t"
  by (simp_all add: completedTask_def failedTask_def)

lemma tasks_ok_end:
  assumes "tasks_ok tm" "js_get (tm_tasks tm) i = Some t0" "ended t" "at_id t = i"
    and "tm_tasks tm' = js_set i t (tm_tasks tm)" "tm_inflight tm' = js_delete i (tm_inflight tm)"
  shows "tasks_ok tm'"
proof -
  have "countRunning (tm_tasks tm') \<le> countRunning (tm_tasks tm)"
    unfolding assms(5) by (rule countRunning_replace [OF assms(2)]) (use assms(3) in \<open>simp add: ended_def\<close>)
  then have "runningCount tm' \<le> MAX_RUNNING_TASKS"
    using assms(1) by (simp add: tasks_ok_def runningCount_def flip: countRunning_def)
  with assms show ?thesis
    by (intro tasks_ok_local [OF assms(1), where i = i])
      (auto simp: jsmap_simps jsm.ok_set jsm.ok_remove task_ok_def ended_def tasks_ok_def)
qed

lemma js_delete_absent: "js_get m i = None \<Longrightarrow> js_delete i m = m"
  by (induction m) (auto split: if_splits)

lemma onRejected_ok:
  assumes "tasks_ok tm" "js_get (tm_tasks tm) (at_id t) \<noteq> None" "js_get (tm_inflight tm) (at_id t) = None"
  shows "tasks_ok (onRejected now err t tm)"
proof -
  from assms(2) obtain t0 where "js_get (tm_tasks tm) (at_id t) = Some t0" by blast
  from tasks_ok_end [OF assms(1) this, of "failedTask now err t"] assms(3) show ?thesis
    by (simp add: onRejected_def Let_def js_delete_absent)
qed

lemma settle_ok:
  assumes ok: "tasks_ok tm"
  shows "tasks_ok (settleRun i now outcome tm)"
proof (cases "js_get (tm_inflight tm) i")
  case (Some onComplete)
  with ok obtain t where t: "js_get (tm_tasks tm) i = Some t" "at_id t = i"
    by (fastforce simp: tasks_ok_def task_ok_def)
  let ?tm = "tm\<lparr>tm_inflight := js_delete i (tm_inflight tm)\<rparr>"
  show ?thesis
  proof (cases outcome)
    case (Inl err)
    have "tasks_ok (onRejected now err t ?tm)"
      by (rule tasks_ok_end [OF ok t(1), of "failedTask now err t"]) (simp_all add: onRejected_def Let_def t(2))
    with Some t Inl show ?thesis by (simp add: settleRun_def)
  next
    case (Inr res)
    let ?t = "completedTask now res t"
    let ?tm1 = "emitTask ev_complete ?t (putTask ?t ?tm)"
    have ok1: "tasks_ok ?tm1"
      by (rule tasks_ok_end [OF ok t(1), of ?t]) (simp_all add: t(2))
    have "tasks_ok (onRejected now err ?t ?tm1)" for err
      by (rule onRejected_ok [OF ok1]) (simp_all add: jsmap_simps t(2))
    with ok1 Some t Inr show ?thesis
      by (simp add: settleRun_def onResolved_def Let_def split: option.split)
  qed
qed (simp add: settleRun_def ok)

lemma tasks_ok_taskOp: "tasks_ok tm \<Longrightarrow> tasks_ok (taskOp op tm)"
proof (cases op)
  case (TLaunch i now agent task onComplete)
  assume "tasks_ok tm"
  with TLaunch show ?thesis by (simp add: launch_ok)
next
  case (TSettle i now outcome)
  assume "tasks_ok tm"
  with TSettle show ?thesis by (simp add: settle_ok)
next
  case (TSummary i summary)
  assume ok: "tasks_ok tm"
  show ?thesis
  proof (cases "js_get (tm_tasks tm) i")
    case (Some t)
    have "countRunning (js_set i (t\<lparr>at_summary := Some summary\<rparr>) (tm_tasks tm)) \<le> countRunning (tm_tasks tm)"
      by (rule countRunning_replace [OF Some]) simp
    with ok Some TSummary show ?thesis
      by (auto simp: setSummary_def tasks_ok_def runningCount_def jsmap_simps jsm.ok_set task_ok_def
          simp flip: countRunning_def)
  qed (simp add: TSummary setSummary_def ok)
next
  case (TCleanup now maxAgeMs)
  assume ok: "tasks_ok tm"
  let ?kept = "filter (\<lambda>x. \<not> expired now maxAgeMs (snd x)) (tm_tasks tm)"
  have dist: "js_map_ok (tm_tasks tm)" using ok by (simp add: tasks_ok_def)
  then have map: "js_map_ok ?kept" by (auto simp: js_map_ok_def intro: distinct_map_filter)
  have get: "js_get ?kept i = Some t \<longleftrightarrow> js_get (tm_tasks tm) i = Some t \<and> \<not> expired now maxAgeMs t" for i t
    using js_get_mem [OF map, of i t] js_get_mem [OF dist, of i t] by auto
  have "js_has ?kept i" if infl: "js_has (tm_inflight tm) i" for i
  proof -
    from infl ok obtain t where "js_get (tm_tasks tm) i = Some t" "at_status t = task_running"
      by (fastforce simp: tasks_ok_def task_ok_def)
    then show ?thesis using get [of i t] by (simp add: expired_def)
  qed
  moreover have "runningCount (tm\<lparr>tm_tasks := ?kept\<rparr>) \<le> runningCount tm"
  proof -
    have "length (filter Q (filter P xs)) \<le> length (filter Q xs)" for P Q and xs :: "(string \<times> AsyncTask) list"
      by (induction xs) auto
    then show ?thesis by (simp add: runningCount_def del: filter_filter)
  qed
  moreover have "task_ok (tm\<lparr>tm_tasks := ?kept\<rparr>) i t" if "js_get ?kept i = Some t" for i t
  proof -
    from that get ok have "task_ok tm i t" by (simp add: tasks_ok_def)
    then show ?thesis by (simp add: task_ok_def)
  qed
  ultimately have "tasks_ok (tm\<lparr>tm_tasks := ?kept\<rparr>)" using ok map by (simp add: tasks_ok_def)
  then show ?thesis by (simp add: TCleanup cleanup_def Let_def)
qed (simp_all add: subscribeLifecycle_def unsubscribeLifecycle_def tasks_ok_def runningCount_def task_ok_def)

lemma tasks_ok_new [simp]: "tasks_ok newTaskManager"
  by (simp add: tasks_ok_def newTaskManager_def runningCount_def)

lemma tasks_ok_run: "tasks_ok tm \<Longrightarrow> tasks_ok (fold taskOp ops tm)"
  by (induction ops arbitrary: tm) (simp_all add: tasks_ok_taskOp del: taskOp.simps)

text \<open>C40: at most five tasks run, and the manager knows which.  After any run of launches, settlements, cleanups and
  subscriptions the tasks shown as running are exactly those whose promise is open, they are at most five, and
  a launch is refused exactly when there are five, with nothing recorded.\<close>

theorem task_capacity:
  assumes "tm = fold taskOp ops newTaskManager"
  shows "runningCount tm \<le> 5 \<and>
    (\<forall>i. js_has (tm_inflight tm) i \<longleftrightarrow> (\<exists>t. getTask i tm = Some t \<and> at_status t = task_running)) \<and>
    (runningCount tm = 5 \<longleftrightarrow> launch i now agent task onComplete tm = (Inl TaskCapacityError, tm))"
proof -
  have ok: "tasks_ok tm" unfolding assms by (rule tasks_ok_run) simp
  have "runningCount tm = 5 \<longleftrightarrow> \<not> canLaunch tm" using ok by (auto simp: tasks_ok_def canLaunch_def MAX_RUNNING_TASKS_def)
  moreover have "\<not> canLaunch tm \<longleftrightarrow> launch i now agent task onComplete tm = (Inl TaskCapacityError, tm)"
    by (simp add: launch_def Let_def)
  moreover have "js_has (tm_inflight tm) i \<longleftrightarrow> (\<exists>t. getTask i tm = Some t \<and> at_status t = task_running)" for i
  proof
    assume infl: "js_has (tm_inflight tm) i"
    with ok obtain t where "js_get (tm_tasks tm) i = Some t" by (fastforce simp: tasks_ok_def)
    moreover from this ok have "task_ok tm i t" by (simp add: tasks_ok_def)
    ultimately show "\<exists>t. getTask i tm = Some t \<and> at_status t = task_running"
      using infl by (simp add: task_ok_def getTask_def)
  next
    assume "\<exists>t. getTask i tm = Some t \<and> at_status t = task_running"
    then obtain t where "js_get (tm_tasks tm) i = Some t" "at_status t = task_running" by (auto simp: getTask_def)
    moreover from this ok have "task_ok tm i t" by (simp add: tasks_ok_def)
    ultimately show "js_has (tm_inflight tm) i" by (auto simp: task_ok_def split: if_splits)
  qed
  ultimately show ?thesis using ok by (simp add: tasks_ok_def MAX_RUNNING_TASKS_def)
qed

theorem task_capacity_witness:
  "runningCount (fold taskOp [TLaunch ''t1'' 0 (example_agent ''a'' None) ''x'' None] newTaskManager) \<le> 5"
  using task_capacity [OF refl, of "[TLaunch ''t1'' 0 (example_agent ''a'' None) ''x'' None]"] by blast

text \<open>how a task ends.  When its promise settles with an error, or with a result whose callback throws, the task is
  failed, with the message of the error as its response; otherwise it is completed with that result.  A task
  whose callback throws is announced twice, as completed and then as failed, and its result is lost; no later
  settlement touches it again.\<close>

theorem task_settles:
  assumes "tasks_ok tm" "js_get (tm_inflight tm) i = Some onComplete" "getTask i tm = Some t"
    and "tm' = settleRun i now outcome tm"
  shows "(case outcome of
      Inl err \<Rightarrow> getTask i tm' = Some (failedTask now err t) \<and>
        tm_events tm' = tm_events tm @ map (\<lambda>l. (l, ev_fail, failedTask now err t)) (tm_listeners tm)
    | Inr res \<Rightarrow>
        (case or_else onComplete (\<lambda>_. None) (completedTask now res t) of
           None \<Rightarrow> getTask i tm' = Some (completedTask now res t) \<and>
             tm_events tm' = tm_events tm @ map (\<lambda>l. (l, ev_complete, completedTask now res t)) (tm_listeners tm)
         | Some err \<Rightarrow> getTask i tm' = Some (failedTask now err t) \<and>
             tm_events tm' = tm_events tm @ map (\<lambda>l. (l, ev_complete, completedTask now res t)) (tm_listeners tm) @
               map (\<lambda>l. (l, ev_fail, failedTask now err t)) (tm_listeners tm))) \<and>
    settleRun i later outcome' tm' = tm'"
proof -
  have id: "at_id t = i" using assms(1,3) by (auto simp: tasks_ok_def task_ok_def getTask_def)
  have twice: "failedTask now err (completedTask now res t) = failedTask now err t" for err res
    by (simp add: failedTask_def completedTask_def)
  have "js_get (tm_inflight tm') i = None"
    using assms(2-4) by (auto simp: settleRun_def onResolved_def onRejected_def getTask_def Let_def jsmap_simps
        split: sum.split option.split)
  then have "settleRun i later outcome' tm' = tm'" by (simp add: settleRun_def)
  with assms(2-4) id twice show ?thesis
    by (auto simp: settleRun_def onResolved_def onRejected_def getTask_def Let_def jsmap_simps or_else_def
        split: sum.split option.split)
qed

definition example_result :: SubAgentResult where
  "example_result = \<lparr> sa_success = True, sa_response = ''done'', sa_toolsUsed = [], sa_tokensUsed = (1, 1),
     sa_terminationReason = reason_completed, sa_messages = [] \<rparr>"

definition one_task :: AgentTaskManager where
  "one_task = fold taskOp [TLaunch ''t1'' 0 (example_agent ''a'' None) ''x'' (Some (\<lambda>_. Some ''boom''))] newTaskManager"

theorem task_settles_witness:
  "map_option at_status (getTask ''t1'' (settleRun ''t1'' 9 (Inr example_result) one_task)) = Some task_failed"
proof -
  have "tasks_ok one_task" unfolding one_task_def by (rule tasks_ok_run) simp
  moreover have "js_get (tm_inflight one_task) ''t1'' = Some (Some (\<lambda>_. Some ''boom''))"
    "getTask ''t1'' one_task \<noteq> None"
    by (simp_all add: one_task_def newTaskManager_def launch_def canLaunch_def runningCount_def MAX_RUNNING_TASKS_def
        Let_def getTask_def)
  ultimately show ?thesis
    using task_settles [of one_task "''t1''" "Some (\<lambda>_. Some ''boom'')" _ _ 9 "Inr example_result", OF _ _ _ refl]
    by (auto simp: or_else_def failedTask_def)
qed

end
