(* ===== verification/Sidecar_Scheduler.thy ===== *)
theory Sidecar_Scheduler
  imports Prelude Json "HOL-Library.Multiset"
begin

text \<open>
  The event scheduler of the brain (\<^verbatim>\<open>src/sidecar/scheduler.ts\<close>) and the event types of
  \<^verbatim>\<open>src/sidecar/protocol.ts\<close>.  A scheduler is the record \<open>EventScheduler\<close>, one queue per sidecar.
  A handler is a value of an arbitrary type, run by the parameter \<open>run\<close> on the world \<open>'w\<close>; it may
  throw or reject, which is logged.  Console lines are appended to \<open>sc_console\<close>.  What happens while
  \<open>drain\<close> awaits a handler is a list of scheduler operations, one list per awaited event.
\<close>


section \<open>Events\<close>

datatype EventPriority = critical_priority | high_priority | normal_priority | low_priority

datatype BinaryData = BinaryDataInline string string | BinaryDataRef string string int

datatype SidecarEventKind = rpc_result_kind | rpc_progress_kind | sidecar_event_kind

record SidecarEvent =
  se_type :: SidecarEventKind
  event_type :: string
  se_timestamp :: int
  se_payload :: json
  se_priority :: "EventPriority option"
  se_binary :: "BinaryData option"

record QueuedEvent =
  qe_sidecarId :: string
  qe_event :: SidecarEvent
  qe_priority :: EventPriority
  qe_enqueuedAt :: int

fun priorityWeight :: "EventPriority \<Rightarrow> nat" where
  "priorityWeight critical_priority = 0"
| "priorityWeight high_priority = 1"
| "priorityWeight normal_priority = 2"
| "priorityWeight low_priority = 3"

definition MAX_QUEUE_PER_SIDECAR :: nat where
  "MAX_QUEUE_PER_SIDECAR = 500"

definition DRAIN_BATCH_PER_TICK :: nat where
  "DRAIN_BATCH_PER_TICK = 10"

definition UNDROPPABLE_TYPES :: "string list" where
  "UNDROPPABLE_TYPES = [''rpc_result'', ''rpc_progress'']"

definition DROP_LOG_INTERVAL_MS :: int where
  "DROP_LOG_INTERVAL_MS = 5000"


section \<open>The scheduler\<close>

datatype SchedLine =
    DirectHandlerError string string
  | HandlerError string string
  | QueueFull string string EventPriority string nat

record 'h EventScheduler =
  sc_queues :: "(string, QueuedEvent list) jsmap"
  sc_sidecarIds :: "string list"
  sc_roundRobinIndex :: nat
  sc_handlers :: "(string, 'h list) jsmap"
  sc_directTypes :: "string list"
  sc_running :: bool
  sc_processing :: bool
  sc_drainTimer :: bool
  sc_droppedCount :: nat
  sc_droppedLastAt :: int
  sc_droppedBySidecar :: "(string, nat) jsmap"
  sc_dropLogLastAt :: "(string, int) jsmap"
  sc_dropLogSuppressed :: "(string, nat) jsmap"
  sc_console :: "SchedLine list"

definition newScheduler :: "'h EventScheduler" where
  "newScheduler = \<lparr> sc_queues = [], sc_sidecarIds = [], sc_roundRobinIndex = 0, sc_handlers = [],
     sc_directTypes = [], sc_running = False, sc_processing = False, sc_drainTimer = False,
     sc_droppedCount = 0, sc_droppedLastAt = 0, sc_droppedBySidecar = [], sc_dropLogLastAt = [],
     sc_dropLogSuppressed = [], sc_console = [] \<rparr>"

text \<open>\<^verbatim>\<open>map.get(k) ?? d\<close>.\<close>

definition js_get_or :: "'v \<Rightarrow> ('k, 'v) jsmap \<Rightarrow> 'k \<Rightarrow> 'v" where
  "js_get_or d m k = (case js_get m k of None \<Rightarrow> d | Some v \<Rightarrow> v)"

definition sched_on :: "string \<Rightarrow> 'h \<Rightarrow> 'h EventScheduler \<Rightarrow> 'h EventScheduler" where
  "sched_on eventType handler s = s\<lparr>sc_handlers :=
     js_set eventType (js_get_or [] (sc_handlers s) eventType @ [handler]) (sc_handlers s)\<rparr>"

definition setDirectTypes :: "string list \<Rightarrow> 'h EventScheduler \<Rightarrow> 'h EventScheduler" where
  "setDirectTypes types s = s\<lparr>sc_directTypes := js_dedupe (sc_directTypes s @ types)\<rparr>"

definition handlersFor :: "string \<Rightarrow> 'h EventScheduler \<Rightarrow> 'h list" where
  "handlersFor eventType s = js_get_or [] (sc_handlers s) eventType @ js_get_or [] (sc_handlers s) ''*''"

text \<open>Every handler of the list is called, whatever the ones before it did.\<close>

fun runHandlers :: "('h \<Rightarrow> string \<Rightarrow> SidecarEvent \<Rightarrow> 'w \<Rightarrow> string option \<times> 'w) \<Rightarrow>
    (string \<Rightarrow> string \<Rightarrow> SchedLine) \<Rightarrow> 'h list \<Rightarrow> string \<Rightarrow> SidecarEvent \<Rightarrow> 'w \<Rightarrow> SchedLine list \<times> 'w" where
  "runHandlers run line [] sidecarId ev w = ([], w)"
| "runHandlers run line (h # hs) sidecarId ev w =
     (case run h sidecarId ev w of (err, w1) \<Rightarrow>
      case runHandlers run line hs sidecarId ev w1 of (lines, w2) \<Rightarrow>
        ((case err of None \<Rightarrow> [] | Some e \<Rightarrow> [line (event_type ev) e]) @ lines, w2))"

definition recordDrop :: "int \<Rightarrow> string \<Rightarrow> EventPriority \<Rightarrow> string \<Rightarrow> string \<Rightarrow> 'h EventScheduler \<Rightarrow> 'h EventScheduler" where
  "recordDrop now sidecarId priority eventType which s =
     (let s1 = s\<lparr>sc_droppedCount := sc_droppedCount s + 1, sc_droppedLastAt := now,
                 sc_droppedBySidecar :=
                   js_set sidecarId (js_get_or 0 (sc_droppedBySidecar s) sidecarId + 1) (sc_droppedBySidecar s)\<rparr>;
          lastLog = js_get_or 0 (sc_dropLogLastAt s1) sidecarId;
          suppressed = js_get_or 0 (sc_dropLogSuppressed s1) sidecarId
      in if now - lastLog < DROP_LOG_INTERVAL_MS
         then s1\<lparr>sc_dropLogSuppressed := js_set sidecarId (suppressed + 1) (sc_dropLogSuppressed s1)\<rparr>
         else s1\<lparr>sc_dropLogLastAt := js_set sidecarId now (sc_dropLogLastAt s1),
                 sc_dropLogSuppressed := js_set sidecarId 0 (sc_dropLogSuppressed s1),
                 sc_console := sc_console s1 @ [QueueFull sidecarId which priority eventType suppressed]\<rparr>)"

definition undroppable :: "QueuedEvent \<Rightarrow> bool" where
  "undroppable q = (event_type (qe_event q) \<in> set UNDROPPABLE_TYPES)"

definition weightOf :: "QueuedEvent \<Rightarrow> nat" where
  "weightOf q = priorityWeight (qe_priority q)"

text \<open>
  The insertion loop: from the end, step left over heavier items.  \<^verbatim>\<open>splice\<close> at the
  index found, and \<^verbatim>\<open>splice(indexOf(victim), 1)\<close> for the first item that qualifies.
\<close>

fun insertAt :: "('a \<Rightarrow> nat) \<Rightarrow> nat \<Rightarrow> 'a list \<Rightarrow> nat \<Rightarrow> nat" where
  "insertAt wt weight queue 0 = 0"
| "insertAt wt weight queue (Suc n) =
     (if wt (queue ! n) > weight then insertAt wt weight queue n else Suc n)"

definition splice_in :: "nat \<Rightarrow> 'a \<Rightarrow> 'a list \<Rightarrow> 'a list" where
  "splice_in i x xs = take i xs @ x # drop i xs"

fun remove_first :: "('a \<Rightarrow> bool) \<Rightarrow> 'a list \<Rightarrow> 'a list" where
  "remove_first p [] = []"
| "remove_first p (x # xs) = (if p x then xs else x # remove_first p xs)"

definition insertByPriority :: "QueuedEvent \<Rightarrow> QueuedEvent list \<Rightarrow> QueuedEvent list" where
  "insertByPriority item queue =
     splice_in (insertAt weightOf (weightOf item) queue (length queue)) item queue"

text \<open>
  The overflow policy: what becomes of a full queue when an item arrives.  \<open>Inl q\<close>: the
  incoming item is dropped in favour of the queue \<open>q\<close>; \<open>Inr\<close>: the queue to insert into, with the victim.
\<close>

definition makeRoom :: "QueuedEvent \<Rightarrow> QueuedEvent list \<Rightarrow> (QueuedEvent list + QueuedEvent list \<times> QueuedEvent option)" where
  "makeRoom item queue =
     (if length queue \<ge> MAX_QUEUE_PER_SIDECAR then
        (let droppable = filter (\<lambda>q. \<not> undroppable q) queue
         in if droppable = [] then
              (if \<not> undroppable item then Inl queue else Inr (queue, None))
            else
              (let tailWeight = weightOf (last droppable);
                   victim = (\<lambda>q. \<not> undroppable q \<and> weightOf q = tailWeight)
               in if weightOf item > tailWeight \<and> \<not> undroppable item then Inl queue
                  else Inr (remove_first victim queue, List.find victim queue)))
      else Inr (queue, None))"

definition newItem :: "int \<Rightarrow> string \<Rightarrow> SidecarEvent \<Rightarrow> EventPriority option \<Rightarrow> QueuedEvent" where
  "newItem now sidecarId ev priority = \<lparr> qe_sidecarId = sidecarId, qe_event = ev,
     qe_priority = (case priority of Some p \<Rightarrow> p
                    | None \<Rightarrow> (case se_priority ev of Some p \<Rightarrow> p | None \<Rightarrow> normal_priority)),
     qe_enqueuedAt = now \<rparr>"

definition ensureQueue :: "string \<Rightarrow> 'h EventScheduler \<Rightarrow> 'h EventScheduler" where
  "ensureQueue sidecarId s =
     (if js_has (sc_queues s) sidecarId then s
      else s\<lparr>sc_queues := js_set sidecarId [] (sc_queues s), sc_sidecarIds := sc_sidecarIds s @ [sidecarId]\<rparr>)"

definition enqueueItem :: "int \<Rightarrow> QueuedEvent \<Rightarrow> 'h EventScheduler \<Rightarrow> 'h EventScheduler" where
  "enqueueItem now item s0 =
     (let sidecarId = qe_sidecarId item;
          s = ensureQueue sidecarId s0;
          queue = js_get_or [] (sc_queues s) sidecarId
      in case makeRoom item queue of
           Inl _ \<Rightarrow> recordDrop now sidecarId (qe_priority item) (event_type (qe_event item)) ''incoming'' s
         | Inr (queue', victim) \<Rightarrow>
             (let s' = (case victim of None \<Rightarrow> s
                        | Some v \<Rightarrow> recordDrop now sidecarId (qe_priority v) (event_type (qe_event v)) ''queued'' s)
              in s'\<lparr>sc_queues := js_set sidecarId (insertByPriority item queue') (sc_queues s')\<rparr>))"

definition enqueue :: "('h \<Rightarrow> string \<Rightarrow> SidecarEvent \<Rightarrow> 'w \<Rightarrow> string option \<times> 'w) \<Rightarrow> int \<Rightarrow> string \<Rightarrow>
    SidecarEvent \<Rightarrow> EventPriority option \<Rightarrow> 'h EventScheduler \<times> 'w \<Rightarrow> 'h EventScheduler \<times> 'w" where
  "enqueue run now sidecarId ev priority sw =
     (case sw of (s, w) \<Rightarrow>
        if event_type ev \<in> set (sc_directTypes s) then
          (case runHandlers run DirectHandlerError (handlersFor (event_type ev) s) sidecarId ev w of
             (lines, w') \<Rightarrow> (s\<lparr>sc_console := sc_console s @ lines\<rparr>, w'))
        else (enqueueItem now (newItem now sidecarId ev priority) s, w))"

definition dropped :: "'h EventScheduler \<Rightarrow> nat \<times> int \<times> (string, nat) jsmap" where
  "dropped s = (sc_droppedCount s, sc_droppedLastAt s, sc_droppedBySidecar s)"

definition removeSidecar :: "string \<Rightarrow> 'h EventScheduler \<Rightarrow> 'h EventScheduler" where
  "removeSidecar sidecarId s =
     (let ids = filter (\<lambda>i. i \<noteq> sidecarId) (sc_sidecarIds s)
      in s\<lparr>sc_dropLogLastAt := js_delete sidecarId (sc_dropLogLastAt s),
           sc_dropLogSuppressed := js_delete sidecarId (sc_dropLogSuppressed s),
           sc_queues := js_delete sidecarId (sc_queues s),
           sc_sidecarIds := ids,
           sc_roundRobinIndex := (if sc_roundRobinIndex s \<ge> length ids then 0 else sc_roundRobinIndex s)\<rparr>)"

definition sched_start :: "'h EventScheduler \<Rightarrow> 'h EventScheduler" where
  "sched_start s = (if sc_running s then s else s\<lparr>sc_running := True, sc_drainTimer := True\<rparr>)"

definition sched_stop :: "'h EventScheduler \<Rightarrow> 'h EventScheduler" where
  "sched_stop s = s\<lparr>sc_running := False, sc_drainTimer := False\<rparr>"

text \<open>The loop of \<^verbatim>\<open>nextItem\<close>: the offsets \<open>i, i + 1, ..., count - 1\<close>.\<close>

fun scanQueues :: "'h EventScheduler \<Rightarrow> nat list \<Rightarrow> QueuedEvent option \<times> 'h EventScheduler" where
  "scanQueues s [] = (None, s)"
| "scanQueues s (i # is) =
     (let count = length (sc_sidecarIds s);
          idx = (sc_roundRobinIndex s + i) mod count;
          sid = sc_sidecarIds s ! idx
      in case js_get (sc_queues s) sid of
           Some (item # queue) \<Rightarrow>
             (Some item, s\<lparr>sc_roundRobinIndex := (idx + 1) mod count, sc_queues := js_set sid queue (sc_queues s)\<rparr>)
         | _ \<Rightarrow> scanQueues s is)"

definition nextItem :: "'h EventScheduler \<Rightarrow> QueuedEvent option \<times> 'h EventScheduler" where
  "nextItem s = scanQueues s [0..<length (sc_sidecarIds s)]"

definition sched_dispatch :: "('h \<Rightarrow> string \<Rightarrow> SidecarEvent \<Rightarrow> 'w \<Rightarrow> string option \<times> 'w) \<Rightarrow> QueuedEvent \<Rightarrow>
    'h EventScheduler \<times> 'w \<Rightarrow> 'h EventScheduler \<times> 'w" where
  "sched_dispatch run item sw =
     (case sw of (s, w) \<Rightarrow>
      case runHandlers run HandlerError (handlersFor (event_type (qe_event item)) s)
             (qe_sidecarId item) (qe_event item) w of
        (lines, w') \<Rightarrow> (s\<lparr>sc_console := sc_console s @ lines\<rparr>, w'))"

datatype 'h SchedOp =
    SOn string 'h
  | SDirect "string list"
  | SEnqueue int string SidecarEvent "EventPriority option"
  | SRemove string
  | SStart
  | SStop

fun schedOp :: "('h \<Rightarrow> string \<Rightarrow> SidecarEvent \<Rightarrow> 'w \<Rightarrow> string option \<times> 'w) \<Rightarrow> 'h SchedOp \<Rightarrow>
    'h EventScheduler \<times> 'w \<Rightarrow> 'h EventScheduler \<times> 'w" where
  "schedOp run (SOn t h) sw = (sched_on t h (fst sw), snd sw)"
| "schedOp run (SDirect ts) sw = (setDirectTypes ts (fst sw), snd sw)"
| "schedOp run (SEnqueue now sidecarId ev priority) sw = enqueue run now sidecarId ev priority sw"
| "schedOp run (SRemove sidecarId) sw = (removeSidecar sidecarId (fst sw), snd sw)"
| "schedOp run SStart sw = (sched_start (fst sw), snd sw)"
| "schedOp run SStop sw = (sched_stop (fst sw), snd sw)"

text \<open>
  The batch loop of \<^verbatim>\<open>drain\<close>: at most \<open>n\<close> events; while the \<open>k\<close>-th is awaited the operations
  \<open>turns ! k\<close> run (none when the list is exhausted).  A tick that fires meanwhile finds
  \<open>sc_processing\<close> set and returns.
\<close>

fun drainLoop :: "('h \<Rightarrow> string \<Rightarrow> SidecarEvent \<Rightarrow> 'w \<Rightarrow> string option \<times> 'w) \<Rightarrow> nat \<Rightarrow> 'h SchedOp list list \<Rightarrow>
    'h EventScheduler \<times> 'w \<Rightarrow> QueuedEvent list \<times> 'h EventScheduler \<times> 'w" where
  "drainLoop run 0 turns sw = ([], sw)"
| "drainLoop run (Suc n) turns sw =
     (case nextItem (fst sw) of
        (None, s) \<Rightarrow> ([], (s, snd sw))
      | (Some item, s) \<Rightarrow>
          (let sw1 = sched_dispatch run item (s, snd sw);
               sw2 = fold (schedOp run) (case turns of [] \<Rightarrow> [] | ops # _ \<Rightarrow> ops) sw1
           in case drainLoop run n (tl turns) sw2 of (items, sw3) \<Rightarrow> (item # items, sw3)))"

definition drain :: "('h \<Rightarrow> string \<Rightarrow> SidecarEvent \<Rightarrow> 'w \<Rightarrow> string option \<times> 'w) \<Rightarrow> 'h SchedOp list list \<Rightarrow>
    'h EventScheduler \<times> 'w \<Rightarrow> QueuedEvent list \<times> 'h EventScheduler \<times> 'w" where
  "drain run turns sw =
     (if sc_processing (fst sw) \<or> sc_sidecarIds (fst sw) = [] then ([], sw)
      else (case drainLoop run DRAIN_BATCH_PER_TICK turns ((fst sw)\<lparr>sc_processing := True\<rparr>, snd sw) of
              (items, (s, w)) \<Rightarrow> (items, (s\<lparr>sc_processing := False\<rparr>, w))))"


section \<open>Insertion and eviction\<close>

lemma insertAt_takeWhile:
  "sorted (map wt q) \<Longrightarrow> n \<le> length q \<Longrightarrow>
    insertAt wt weight q n = length (takeWhile (\<lambda>y. wt y \<le> weight) (take n q))"
proof (induction n)
  case (Suc n)
  then have snoc: "take (Suc n) q = take n q @ [q ! n]" by (simp add: take_Suc_conv_app_nth)
  have below: "wt y \<le> wt (q ! n)" if "y \<in> set (take n q)" for y
  proof -
    from that obtain i where "i < n" "y = q ! i"
      by (auto simp: in_set_conv_nth)
    with Suc.prems show ?thesis using sorted_nth_mono [of "map wt q" i n] by simp
  qed
  show ?case
  proof (cases "wt (q ! n) \<le> weight")
    case True
    then have "\<forall>y \<in> set (take (Suc n) q). wt y \<le> weight"
      using below by (fastforce simp: snoc)
    then have "takeWhile (\<lambda>y. wt y \<le> weight) (take (Suc n) q) = take (Suc n) q"
      by (simp only: takeWhile_eq_all_conv)
    with True Suc.prems(2) show ?thesis by (simp only: insertAt.simps length_take) simp
  next
    case False
    then show ?thesis using Suc by (simp add: snoc takeWhile_tail)
  qed
qed simp

lemma splice_insert:
  assumes "sorted (map wt q)"
  shows "splice_in (insertAt wt weight q (length q)) x q =
    takeWhile (\<lambda>y. wt y \<le> weight) q @ x # dropWhile (\<lambda>y. wt y \<le> weight) q"
  using insertAt_takeWhile [OF assms, of "length q" weight]
  by (simp add: splice_in_def takeWhile_eq_take [symmetric] dropWhile_eq_drop [symmetric])

text \<open>
  Any list kept ordered by a weight, with insertion behind the items of the same weight: the
  contract the scheduler's queues rely on.
\<close>

locale stable_priority =
  fixes wt :: "'a \<Rightarrow> nat" and ins :: "'a \<Rightarrow> 'a list \<Rightarrow> 'a list"
  assumes ins_behind: "sorted (map wt q) \<Longrightarrow>
    ins x q = takeWhile (\<lambda>y. wt y \<le> wt x) q @ x # dropWhile (\<lambda>y. wt y \<le> wt x) q"
begin

lemma mset_ins: "sorted (map wt q) \<Longrightarrow> mset (ins x q) = add_mset x (mset q)"
proof -
  assume "sorted (map wt q)"
  have "mset (takeWhile P q) + mset (dropWhile P q) = mset q" for P
    by (simp flip: mset_append)
  with \<open>sorted (map wt q)\<close> show ?thesis by (simp add: ins_behind)
qed

lemma length_ins: "sorted (map wt q) \<Longrightarrow> length (ins x q) = Suc (length q)"
  using mset_ins [of q x] by (metis size_add_mset size_mset)

lemma set_ins: "sorted (map wt q) \<Longrightarrow> set (ins x q) = insert x (set q)"
  using mset_ins [of q x] by (metis set_mset_add_mset_insert set_mset_mset)

lemma above: "sorted (map wt q) \<Longrightarrow> y \<in> set (dropWhile (\<lambda>y. wt y \<le> k) q) \<Longrightarrow> k < wt y"
  by (induction q) (auto split: if_splits)

lemma sorted_ins: "sorted (map wt q) \<Longrightarrow> sorted (map wt (ins x q))"
proof -
  assume srt: "sorted (map wt q)"
  have "sorted (map wt (takeWhile (\<lambda>y. wt y \<le> wt x) q @ dropWhile (\<lambda>y. wt y \<le> wt x) q))"
    using srt by simp
  then have "sorted (map wt (takeWhile (\<lambda>y. wt y \<le> wt x) q))" "sorted (map wt (dropWhile (\<lambda>y. wt y \<le> wt x) q))"
    by (simp_all only: map_append sorted_append)
  moreover have "wt y \<le> wt x" if "y \<in> set (takeWhile (\<lambda>y. wt y \<le> wt x) q)" for y
    using set_takeWhileD [OF that] by simp
  moreover note above [OF srt, of _ "wt x"]
  ultimately show ?thesis
    by (fastforce simp: ins_behind [OF srt] sorted_append)
qed

lemma class_ins:
  assumes "sorted (map wt q)"
  shows "filter (\<lambda>y. wt y = k) (ins x q) = filter (\<lambda>y. wt y = k) q @ (if wt x = k then [x] else [])"
proof -
  let ?t = "takeWhile (\<lambda>y. wt y \<le> wt x) q" and ?d = "dropWhile (\<lambda>y. wt y \<le> wt x) q"
  have "filter (\<lambda>y. wt y = k) q = filter (\<lambda>y. wt y = k) ?t @ filter (\<lambda>y. wt y = k) ?d"
    by (metis filter_append takeWhile_dropWhile_id)
  moreover have "filter (\<lambda>y. wt y = k) ?d = []" if "wt x = k"
    using above [OF assms, of _ "wt x"] that by (fastforce simp: filter_empty_conv)
  ultimately show ?thesis by (simp add: ins_behind [OF assms])
qed

end

interpretation pq: stable_priority weightOf insertByPriority
  by unfold_locales (simp add: insertByPriority_def splice_insert)

lemma mset_remove_first:
  "List.find p xs = Some x \<Longrightarrow> mset xs = add_mset x (mset (remove_first p xs))"
  by (induction xs) (auto split: if_splits)

lemma length_remove_first: "List.find p xs = Some x \<Longrightarrow> length xs = Suc (length (remove_first p xs))"
  by (induction xs) (auto split: if_splits)

lemma set_remove_first: "set (remove_first p xs) \<subseteq> set xs"
  by (induction xs) auto

lemma sorted_remove_first: "sorted (map f xs) \<Longrightarrow> sorted (map f (remove_first p xs))"
proof (induction xs)
  case (Cons a xs)
  then show ?case using set_remove_first [of p xs] by auto
qed simp

lemma filter_remove_first:
  "(\<And>x. p x \<Longrightarrow> \<not> P x) \<Longrightarrow> filter P (remove_first p xs) = filter P xs"
  by (induction xs) auto

lemma find_split:
  "List.find p q = Some v \<Longrightarrow>
     \<exists>pre post. q = pre @ v # post \<and> (\<forall>x \<in> set pre. \<not> p x) \<and> remove_first p q = pre @ post"
proof (induction q)
  case (Cons x q)
  show ?case
  proof (cases "p x")
    case True
    with Cons.prems show ?thesis by (intro exI [of _ "[]"] exI [of _ q]) auto
  next
    case False
    with Cons obtain pre post where "q = pre @ v # post" "\<forall>x \<in> set pre. \<not> p x" "remove_first p q = pre @ post"
      by auto
    with False show ?thesis by (intro exI [of _ "x # pre"] exI [of _ post]) simp
  qed
qed simp

lemma find_exists: "x \<in> set xs \<Longrightarrow> p x \<Longrightarrow> \<exists>y. List.find p xs = Some y \<and> p y \<and> y \<in> set xs"
  by (induction xs) auto

lemma last_is_max: "sorted (map wt xs) \<Longrightarrow> x \<in> set xs \<Longrightarrow> wt x \<le> wt (last xs)"
  by (induction xs) auto

lemma sorted_filter_map: "sorted (map f xs) \<Longrightarrow> sorted (map f (filter P xs))"
  by (induction xs) auto

text \<open>
  What the overflow policy does: it makes room only in a full queue, and then gives up either the
  incoming item, which is droppable and weighs more than every droppable item queued, or the
  first item of the heaviest droppable class.
\<close>

lemma makeRoom_cases:
  assumes "sorted (map weightOf q)"
  obtains (room) "length q < MAX_QUEUE_PER_SIDECAR" "makeRoom item q = Inr (q, None)"
  | (overflow) "length q \<ge> MAX_QUEUE_PER_SIDECAR" "\<forall>x \<in> set q. undroppable x" "undroppable item"
      "makeRoom item q = Inr (q, None)"
  | (refused) "length q \<ge> MAX_QUEUE_PER_SIDECAR" "\<not> undroppable item" "makeRoom item q = Inl q"
      "\<forall>x \<in> set q. undroppable x \<or> weightOf x < weightOf item"
  | (evicted) p v where "length q \<ge> MAX_QUEUE_PER_SIDECAR" "makeRoom item q = Inr (remove_first p q, Some v)"
      "List.find p q = Some v" "p v" "v \<in> set q" "\<And>x. p x \<longleftrightarrow> \<not> undroppable x \<and> weightOf x = weightOf v"
      "\<not> undroppable v" "\<forall>x \<in> set q. undroppable x \<or> weightOf x \<le> weightOf v"
      "undroppable item \<or> weightOf item \<le> weightOf v"
proof (cases "length q < MAX_QUEUE_PER_SIDECAR")
  case True
  then show thesis using room by (simp add: makeRoom_def)
next
  case full: False
  define droppable where "droppable = filter (\<lambda>q. \<not> undroppable q) q"
  show thesis
  proof (cases "droppable = []")
    case True
    then have "\<forall>x \<in> set q. undroppable x" by (auto simp: droppable_def filter_empty_conv)
    with True full show thesis using overflow refused
      by (cases "undroppable item") (auto simp: makeRoom_def droppable_def)
  next
    case False
    define p where "p = (\<lambda>q. \<not> undroppable q \<and> weightOf q = weightOf (last droppable))"
    have top: "last droppable \<in> set droppable" using False by simp
    then have "last droppable \<in> set q" "p (last droppable)"
      by (auto simp: droppable_def p_def)
    then obtain v where v: "List.find p q = Some v" "p v" "v \<in> set q" using find_exists [of _ q p] by blast
    have le: "undroppable x \<or> weightOf x \<le> weightOf (last droppable)" if "x \<in> set q" for x
      using last_is_max [of weightOf droppable x] sorted_filter_map [OF assms] that
      by (auto simp: droppable_def)
    show thesis
    proof (cases "weightOf item > weightOf (last droppable) \<and> \<not> undroppable item")
      case True
      with full False have "makeRoom item q = Inl q" by (simp add: makeRoom_def droppable_def Let_def)
      moreover have "\<forall>x \<in> set q. undroppable x \<or> weightOf x < weightOf item"
        using le True by (meson order_le_less_trans)
      ultimately show thesis using refused full True by simp
    next
      case keep: False
      with full False have "makeRoom item q = Inr (remove_first p q, Some v)"
        using v(1) by (simp add: makeRoom_def droppable_def p_def Let_def)
      moreover have "weightOf v = weightOf (last droppable)" "\<not> undroppable v" using v(2) by (auto simp: p_def)
      ultimately show thesis using full v le keep by (intro evicted [of p v]) (auto simp: p_def)
    qed
  qed
qed


section \<open>The invariant\<close>

definition queue_ok :: "string \<Rightarrow> QueuedEvent list \<Rightarrow> bool" where
  "queue_ok sid q = (sorted (map weightOf q) \<and> (\<forall>x \<in> set q. qe_sidecarId x = sid) \<and>
     (length q \<le> MAX_QUEUE_PER_SIDECAR \<or> (\<forall>x \<in> set q. undroppable x)))"

definition sched_ok :: "'h EventScheduler \<Rightarrow> bool" where
  "sched_ok s = (js_map_ok (sc_queues s) \<and> distinct (sc_sidecarIds s) \<and>
     (\<forall>sid. sid \<in> set (sc_sidecarIds s) \<longleftrightarrow> js_has (sc_queues s) sid) \<and>
     (\<forall>sid q. js_get (sc_queues s) sid = Some q \<longrightarrow> queue_ok sid q) \<and>
     sc_roundRobinIndex s < max 1 (length (sc_sidecarIds s)))"

definition queueOf :: "string \<Rightarrow> 'h EventScheduler \<Rightarrow> QueuedEvent list" where
  "queueOf sid s = js_get_or [] (sc_queues s) sid"

lemma recordDrop_simps [simp]:
  "sc_queues (recordDrop now sid pr t which s) = sc_queues s"
  "sc_sidecarIds (recordDrop now sid pr t which s) = sc_sidecarIds s"
  "sc_roundRobinIndex (recordDrop now sid pr t which s) = sc_roundRobinIndex s"
  "sc_directTypes (recordDrop now sid pr t which s) = sc_directTypes s"
  "sc_handlers (recordDrop now sid pr t which s) = sc_handlers s"
  "sc_processing (recordDrop now sid pr t which s) = sc_processing s"
  "js_get_or 0 (sc_droppedBySidecar (recordDrop now sid pr t which s)) sid' =
     js_get_or 0 (sc_droppedBySidecar s) sid' + (if sid' = sid then 1 else 0)"
  by (simp_all add: recordDrop_def Let_def js_get_or_def jsmap_simps)

lemma ensureQueue_simps [simp]:
  "queueOf sid' (ensureQueue sid s) = queueOf sid' s"
  "sc_directTypes (ensureQueue sid s) = sc_directTypes s"
  "sc_handlers (ensureQueue sid s) = sc_handlers s"
  "sc_processing (ensureQueue sid s) = sc_processing s"
  "sc_droppedBySidecar (ensureQueue sid s) = sc_droppedBySidecar s"
  by (auto simp: ensureQueue_def queueOf_def js_get_or_def jsmap_simps split: option.split)

lemma queue_ok_Nil [simp]: "queue_ok sid []"
  by (simp add: queue_ok_def)

lemma sched_ok_new [simp]: "sched_ok newScheduler"
  by (simp add: sched_ok_def newScheduler_def)

lemma sched_ok_ensure: "sched_ok s \<Longrightarrow> sched_ok (ensureQueue sid s) \<and> js_has (sc_queues (ensureQueue sid s)) sid"
  by (auto simp: sched_ok_def ensureQueue_def jsmap_simps jsm.ok_set less_Suc_eq)

lemma queueOf_ok: "sched_ok s \<Longrightarrow> queue_ok sid (queueOf sid s)"
  by (auto simp: sched_ok_def queueOf_def js_get_or_def split: option.split)

lemma sched_ok_put:
  assumes "sched_ok s" "js_has (sc_queues s) sid" "queue_ok sid q"
  shows "sched_ok (s\<lparr>sc_queues := js_set sid q (sc_queues s)\<rparr>)"
  using assms by (auto simp: sched_ok_def jsmap_simps jsm.ok_set)

lemma sched_ok_cong:
  assumes "sched_ok s" "sc_queues s' = sc_queues s" "sc_sidecarIds s' = sc_sidecarIds s"
    "sc_roundRobinIndex s' = sc_roundRobinIndex s"
  shows "sched_ok s'"
  using assms by (simp add: sched_ok_def)

text \<open>The queue after an item was offered, in terms of the queue before.\<close>

definition offer :: "QueuedEvent \<Rightarrow> QueuedEvent list \<Rightarrow> QueuedEvent list" where
  "offer item q = (case makeRoom item q of Inl q' \<Rightarrow> q' | Inr (q', _) \<Rightarrow> insertByPriority item q')"

definition drops :: "QueuedEvent \<Rightarrow> QueuedEvent list \<Rightarrow> nat" where
  "drops item q = (case makeRoom item q of Inl _ \<Rightarrow> 1 | Inr (_, None) \<Rightarrow> 0 | Inr (_, Some _) \<Rightarrow> 1)"

lemma enqueueItem_queues:
  "sc_queues (enqueueItem now item s) =
     (case makeRoom item (queueOf (qe_sidecarId item) s) of
        Inl _ \<Rightarrow> sc_queues (ensureQueue (qe_sidecarId item) s)
      | Inr (q, _) \<Rightarrow> js_set (qe_sidecarId item) (insertByPriority item q)
                      (sc_queues (ensureQueue (qe_sidecarId item) s)))"
  using ensureQueue_simps(1) [of "qe_sidecarId item" "qe_sidecarId item" s, unfolded queueOf_def]
  by (simp add: enqueueItem_def Let_def queueOf_def split: sum.split prod.split option.split)

lemma enqueueItem_simps [simp]:
  "sc_sidecarIds (enqueueItem now item s) = sc_sidecarIds (ensureQueue (qe_sidecarId item) s)"
  "sc_roundRobinIndex (enqueueItem now item s) = sc_roundRobinIndex (ensureQueue (qe_sidecarId item) s)"
  "sc_directTypes (enqueueItem now item s) = sc_directTypes s"
  "sc_handlers (enqueueItem now item s) = sc_handlers s"
  "sc_processing (enqueueItem now item s) = sc_processing s"
  by (simp_all add: enqueueItem_def Let_def split: sum.split prod.split option.split)

lemma makeRoom_Inl: "makeRoom item q = Inl q' \<Longrightarrow> q' = q"
  by (auto simp: makeRoom_def Let_def split: if_splits)

lemma enqueueItem_queueOf:
  "queueOf sid (enqueueItem now item s) =
     (if sid = qe_sidecarId item then offer item (queueOf sid s) else queueOf sid s)"
  using makeRoom_Inl [of item "queueOf sid s"]
  by (auto simp: queueOf_def [of _ "enqueueItem now item s"] enqueueItem_queues offer_def js_get_or_def jsmap_simps
      simp flip: queueOf_def split: sum.split)
     (auto simp: queueOf_def js_get_or_def jsmap_simps ensureQueue_def split: option.split)

lemma enqueueItem_drops:
  "js_get_or 0 (sc_droppedBySidecar (enqueueItem now item s)) sid =
     js_get_or 0 (sc_droppedBySidecar s) sid + (if sid = qe_sidecarId item then drops item (queueOf sid s) else 0)"
  using ensureQueue_simps(1) [of "qe_sidecarId item" "qe_sidecarId item" s, unfolded queueOf_def]
  by (auto simp: enqueueItem_def drops_def Let_def queueOf_def split: sum.split prod.split option.split)

lemma offer_ok:
  assumes "queue_ok sid q" "qe_sidecarId item = sid"
  shows "queue_ok sid (offer item q)"
proof -
  have srt: "sorted (map weightOf q)" using assms(1) by (simp add: queue_ok_def)
  then show ?thesis
  proof (cases rule: makeRoom_cases [of q item])
    case room
    with assms srt show ?thesis
      by (auto simp: offer_def queue_ok_def pq.sorted_ins pq.set_ins pq.length_ins)
  next
    case overflow
    with assms srt show ?thesis
      by (auto simp: offer_def queue_ok_def pq.sorted_ins pq.set_ins)
  next
    case refused
    with assms show ?thesis by (simp add: offer_def)
  next
    case (evicted p v)
    let ?r = "remove_first p q"
    have "sorted (map weightOf ?r)" using srt by (rule sorted_remove_first)
    moreover have "length q = Suc (length ?r)" using evicted(3) by (rule length_remove_first)
    moreover have "length q \<le> MAX_QUEUE_PER_SIDECAR" using assms(1) evicted(5,7) by (auto simp: queue_ok_def)
    moreover have "\<forall>x \<in> set ?r. qe_sidecarId x = sid"
      using assms(1) set_remove_first [of p q] by (auto simp: queue_ok_def)
    ultimately show ?thesis using assms(2) evicted(2)
      by (auto simp: offer_def queue_ok_def pq.sorted_ins pq.set_ins pq.length_ins)
  qed
qed

lemma sched_ok_enqueueItem:
  assumes "sched_ok s"
  shows "sched_ok (enqueueItem now item s)"
proof (cases "makeRoom item (queueOf (qe_sidecarId item) s)")
  case (Inl q)
  with assms show ?thesis
    by (intro sched_ok_cong [OF conjunct1 [OF sched_ok_ensure [OF assms, of "qe_sidecarId item"]]])
       (simp_all add: enqueueItem_queues)
next
  case (Inr qv)
  obtain q v where "qv = (q, v)" by (cases qv)
  with Inr have "queue_ok (qe_sidecarId item) (insertByPriority item q)"
    using offer_ok [OF queueOf_ok [OF assms, of "qe_sidecarId item"] refl] by (simp add: offer_def)
  with sched_ok_ensure [OF assms, of "qe_sidecarId item"] have
    "sched_ok ((ensureQueue (qe_sidecarId item) s)\<lparr>sc_queues :=
       js_set (qe_sidecarId item) (insertByPriority item q) (sc_queues (ensureQueue (qe_sidecarId item) s))\<rparr>)"
    by (blast intro: sched_ok_put)
  then show ?thesis by (rule sched_ok_cong) (simp_all add: enqueueItem_queues Inr \<open>qv = (q, v)\<close>)
qed

lemma sched_ok_remove: "sched_ok s \<Longrightarrow> sched_ok (removeSidecar sid s)"
  by (auto simp: sched_ok_def removeSidecar_def Let_def jsmap_simps jsm.ok_remove not_le)

lemma sched_ok_schedOp: "sched_ok (fst sw) \<Longrightarrow> sched_ok (fst (schedOp run op sw))"
  by (cases op; cases sw)
     (auto simp: sched_on_def setDirectTypes_def sched_start_def sched_stop_def enqueue_def sched_ok_enqueueItem
       sched_ok_remove split: prod.split intro: sched_ok_cong)


section \<open>Taking items\<close>

definition sidAt :: "'h EventScheduler \<Rightarrow> nat \<Rightarrow> string" where
  "sidAt s i = sc_sidecarIds s ! ((sc_roundRobinIndex s + i) mod length (sc_sidecarIds s))"

definition serveAt :: "'h EventScheduler \<Rightarrow> nat \<Rightarrow> 'h EventScheduler" where
  "serveAt s i = s\<lparr>sc_roundRobinIndex :=
       ((sc_roundRobinIndex s + i) mod length (sc_sidecarIds s) + 1) mod length (sc_sidecarIds s),
     sc_queues := js_set (sidAt s i) (tl (queueOf (sidAt s i) s)) (sc_queues s)\<rparr>"

lemma queueOf_Cons: "queueOf sid s = x # q \<longleftrightarrow> js_get (sc_queues s) sid = Some (x # q)"
  by (auto simp: queueOf_def js_get_or_def split: option.splits)

lemma scanQueues_find:
  "scanQueues s is = (case List.find (\<lambda>i. queueOf (sidAt s i) s \<noteq> []) is of
     None \<Rightarrow> (None, s) | Some i \<Rightarrow> (Some (hd (queueOf (sidAt s i) s)), serveAt s i))"
proof (induction "is")
  case (Cons i "is")
  show ?case
  proof (cases "queueOf (sidAt s i) s")
    case Nil
    then have "js_get (sc_queues s) (sidAt s i) = None \<or> js_get (sc_queues s) (sidAt s i) = Some []"
      by (auto simp: queueOf_def js_get_or_def split: option.splits)
    with Nil Cons.IH show ?thesis by (auto simp: Let_def simp flip: sidAt_def)
  next
    case (Cons item q)
    then have "js_get (sc_queues s) (sidAt s i) = Some (item # q)" by (simp add: queueOf_Cons)
    with Cons show ?thesis by (simp add: Let_def serveAt_def flip: sidAt_def)
  qed
qed simp

text \<open>
  What a pick does: it finds the first non-empty queue at or behind the round-robin index, takes
  its first item and moves the index behind it; it finds nothing only when every queue is empty.
\<close>

lemma nextItem_cases:
  obtains (none) "nextItem s = (None, s)"
      "\<And>i. i < length (sc_sidecarIds s) \<Longrightarrow> queueOf (sidAt s i) s = []"
  | (some) i item q where "nextItem s = (Some item, serveAt s i)" "i < length (sc_sidecarIds s)"
      "queueOf (sidAt s i) s = item # q" "\<And>j. j < i \<Longrightarrow> queueOf (sidAt s j) s = []"
proof (cases "List.find (\<lambda>i. queueOf (sidAt s i) s \<noteq> []) [0..<length (sc_sidecarIds s)]")
  case None
  then have "nextItem s = (None, s)" by (simp add: nextItem_def scanQueues_find)
  with None show thesis by (intro none) (auto simp: find_None_iff)
next
  case (Some i)
  from Some have i: "i < length (sc_sidecarIds s)" "queueOf (sidAt s i) s \<noteq> []"
    "\<And>j. j < i \<Longrightarrow> queueOf (sidAt s j) s = []"
    by (auto simp: find_Some_iff)
  then obtain item q where "queueOf (sidAt s i) s = item # q" by (cases "queueOf (sidAt s i) s") auto
  with Some i show thesis by (intro some [of item i q]) (auto simp: nextItem_def scanQueues_find)
qed

lemma sidAt_mem: "i < length (sc_sidecarIds s) \<Longrightarrow> sidAt s i \<in> set (sc_sidecarIds s)"
  unfolding sidAt_def by (intro nth_mem mod_less_divisor) auto

lemma serveAt_queueOf:
  "queueOf sid (serveAt s i) = (if sid = sidAt s i then tl (queueOf sid s) else queueOf sid s)"
  by (auto simp: serveAt_def queueOf_def js_get_or_def jsmap_simps)

lemma serveAt_simps [simp]:
  "sc_sidecarIds (serveAt s i) = sc_sidecarIds s"
  "sc_directTypes (serveAt s i) = sc_directTypes s"
  "sc_handlers (serveAt s i) = sc_handlers s"
  "sc_processing (serveAt s i) = sc_processing s"
  "sc_droppedBySidecar (serveAt s i) = sc_droppedBySidecar s"
  by (simp_all add: serveAt_def)

lemma queue_ok_tl: "queue_ok sid q \<Longrightarrow> queue_ok sid (tl q)"
proof (cases q)
  case (Cons x xs)
  moreover assume "queue_ok sid q"
  ultimately show ?thesis unfolding queue_ok_def by (elim conjE disjE) simp_all
qed simp

lemma sched_ok_nextItem: "sched_ok s \<Longrightarrow> sched_ok (snd (nextItem s))"
proof (cases rule: nextItem_cases [of s])
  case (some i item q)
  assume ok: "sched_ok s"
  from some(2,3) have "queue_ok (sidAt s i) (tl (queueOf (sidAt s i) s))"
    using queueOf_ok [OF ok] queue_ok_tl by blast
  with ok sidAt_mem [OF some(2)] have "sched_ok (s\<lparr>sc_queues :=
      js_set (sidAt s i) (tl (queueOf (sidAt s i) s)) (sc_queues s)\<rparr>)"
    by (intro sched_ok_put) (auto simp: sched_ok_def)
  moreover from some(2) have "n mod length (sc_sidecarIds s) < max 1 (length (sc_sidecarIds s))" for n
    by (intro less_max_iff_disj [THEN iffD2] disjI2 mod_less_divisor) auto
  ultimately show ?thesis by (simp add: some(1) sched_ok_def serveAt_def)
qed simp

lemma sched_dispatch_simps [simp]:
  "sc_queues (fst (sched_dispatch run item sw)) = sc_queues (fst sw)"
  "sc_sidecarIds (fst (sched_dispatch run item sw)) = sc_sidecarIds (fst sw)"
  "sc_roundRobinIndex (fst (sched_dispatch run item sw)) = sc_roundRobinIndex (fst sw)"
  "sc_directTypes (fst (sched_dispatch run item sw)) = sc_directTypes (fst sw)"
  "sc_processing (fst (sched_dispatch run item sw)) = sc_processing (fst sw)"
  "sc_droppedBySidecar (fst (sched_dispatch run item sw)) = sc_droppedBySidecar (fst sw)"
  by (simp_all add: sched_dispatch_def split: prod.split)

lemma sched_dispatch_queueOf [simp]: "queueOf sid (fst (sched_dispatch run item sw)) = queueOf sid (fst sw)"
  by (simp add: queueOf_def)


section \<open>Runs\<close>

text \<open>
  A run is a sequence of operations and of picks, each pick dispatching what it finds; \<open>drain\<close> is
  such a run (\<open>drain_run\<close> below).  \<open>schedRun\<close> also gives the items picked, in order.
\<close>

datatype 'h SchedStep = SOp "'h SchedOp" | STake

fun schedStep :: "('h \<Rightarrow> string \<Rightarrow> SidecarEvent \<Rightarrow> 'w \<Rightarrow> string option \<times> 'w) \<Rightarrow> 'h SchedStep \<Rightarrow>
    'h EventScheduler \<times> 'w \<Rightarrow> QueuedEvent list \<times> 'h EventScheduler \<times> 'w" where
  "schedStep run (SOp op) sw = ([], schedOp run op sw)"
| "schedStep run STake sw =
     (case nextItem (fst sw) of
        (None, s) \<Rightarrow> ([], (s, snd sw))
      | (Some item, s) \<Rightarrow> ([item], sched_dispatch run item (s, snd sw)))"

fun schedRun :: "('h \<Rightarrow> string \<Rightarrow> SidecarEvent \<Rightarrow> 'w \<Rightarrow> string option \<times> 'w) \<Rightarrow> 'h SchedStep list \<Rightarrow>
    'h EventScheduler \<times> 'w \<Rightarrow> QueuedEvent list \<times> 'h EventScheduler \<times> 'w" where
  "schedRun run [] sw = ([], sw)"
| "schedRun run (x # xs) sw =
     (case schedStep run x sw of (a, sw1) \<Rightarrow> case schedRun run xs sw1 of (b, sw2) \<Rightarrow> (a @ b, sw2))"

lemma schedRun_append:
  "schedRun run (xs @ ys) sw =
     (case schedRun run xs sw of (a, sw1) \<Rightarrow> case schedRun run ys sw1 of (b, sw2) \<Rightarrow> (a @ b, sw2))"
  by (induction xs arbitrary: sw) (auto split: prod.splits)

lemma schedRun_ops: "schedRun run (map SOp ops) sw = ([], fold (schedOp run) ops sw)"
  by (induction ops arbitrary: sw) auto

lemma sched_ok_schedStep: "sched_ok (fst sw) \<Longrightarrow> sched_ok (fst (snd (schedStep run x sw)))"
proof (cases x)
  case STake
  assume "sched_ok (fst sw)"
  then have "sched_ok (snd (nextItem (fst sw)))" by (rule sched_ok_nextItem)
  with STake show ?thesis
    by (auto split: prod.split option.split intro: sched_ok_cong)
qed (simp add: sched_ok_schedOp)

lemma sched_ok_schedRun: "sched_ok (fst sw) \<Longrightarrow> sched_ok (fst (snd (schedRun run xs sw)))"
proof (induction xs arbitrary: sw)
  case (Cons x xs)
  then show ?case using sched_ok_schedStep [of sw run x] by (auto split: prod.split) (metis fst_conv snd_conv)
qed simp

fun drainSteps :: "nat \<Rightarrow> 'h SchedOp list list \<Rightarrow> 'h SchedStep list" where
  "drainSteps 0 turns = []"
| "drainSteps (Suc n) turns = STake # map SOp (case turns of [] \<Rightarrow> [] | ops # _ \<Rightarrow> ops) @ drainSteps n (tl turns)"

lemma drainLoop_run:
  "drainLoop run n turns sw = (items, sw') \<Longrightarrow>
     length items \<le> n \<and> schedRun run (drainSteps (length items) turns) sw = (items, sw')"
proof (induction n arbitrary: turns sw items)
  case (Suc n)
  show ?case
  proof (cases rule: nextItem_cases [of "fst sw"])
    case none
    with Suc.prems show ?thesis by auto
  next
    case (some i item q)
    with Suc.prems obtain rest where
      "drainLoop run n (tl turns) (fold (schedOp run) (case turns of [] \<Rightarrow> [] | ops # _ \<Rightarrow> ops)
         (sched_dispatch run item (serveAt (fst sw) i, snd sw))) = (rest, sw')" "items = item # rest"
      by (auto simp: Let_def split: prod.splits)
    with Suc.IH [OF this(1)] some(1) show ?thesis
      by (simp add: schedRun_append schedRun_ops)
  qed
qed simp


section \<open>Properties\<close>

text \<open>C33: the scheduler's queues stay ordered and bounded.  After any run of operations and picks, the ids are
  distinct and are the sidecars with a queue, the round-robin index is in range, and every queue is ordered by
  priority, holds only its own sidecar's events and at most 500 of them, unless all of them are
  responses to calls.\<close>

theorem scheduler_invariant:
  "sched_ok (fst (snd (schedRun run steps (newScheduler, w))))"
  by (rule sched_ok_schedRun) simp

text \<open>what happens to a queue when an event arrives.  With room, the event goes behind the queued events of
  its priority and every other class is as it was.  A full queue gives up one droppable event: the first
  of the lightest-priority droppable class, so no queued response to a call is ever lost; or the new event itself,
  which then is droppable and of lower priority than every droppable event queued.\<close>

theorem offer_exact:
  assumes "queue_ok sid q"
  shows "(length q < MAX_QUEUE_PER_SIDECAR \<or> (undroppable item \<and> Ball (set q) undroppable) \<longrightarrow>
      filter (\<lambda>x. weightOf x = k) (offer item q) =
        filter (\<lambda>x. weightOf x = k) q @ (if weightOf item = k then [item] else [])) \<and>
    (length q \<ge> MAX_QUEUE_PER_SIDECAR \<and> \<not> (undroppable item \<and> Ball (set q) undroppable) \<longrightarrow>
      (offer item q = q \<and> \<not> undroppable item \<and> (\<forall>x \<in> set q. undroppable x \<or> weightOf x < weightOf item)) \<or>
      (\<exists>pre v post. q = pre @ v # post \<and> \<not> undroppable v \<and>
         (\<forall>x \<in> set q. undroppable x \<or> weightOf x \<le> weightOf v) \<and>
         (\<forall>x \<in> set pre. undroppable x \<or> weightOf x \<noteq> weightOf v) \<and>
         (undroppable item \<or> weightOf item \<le> weightOf v) \<and>
         offer item q = insertByPriority item (pre @ post)))"
proof -
  have srt: "sorted (map weightOf q)" using assms by (simp add: queue_ok_def)
  then show ?thesis
  proof (cases rule: makeRoom_cases [of q item])
    case room
    then show ?thesis using pq.class_ins [OF srt] by (simp add: offer_def)
  next
    case overflow
    then show ?thesis using pq.class_ins [OF srt] by (simp add: offer_def)
  next
    case refused
    then show ?thesis by (simp add: offer_def)
  next
    case (evicted p v)
    from find_split [OF evicted(3)] obtain pre post where split: "q = pre @ v # post" "\<forall>x \<in> set pre. \<not> p x"
      "remove_first p q = pre @ post" by blast
    then have "offer item q = insertByPriority item (pre @ post)"
      using evicted(2) by (simp add: offer_def)
    moreover have "\<not> (undroppable item \<and> Ball (set q) undroppable)" "\<not> length q < MAX_QUEUE_PER_SIDECAR"
      using evicted(1,5,7) by auto
    moreover have "\<forall>x \<in> set pre. undroppable x \<or> weightOf x \<noteq> weightOf v"
      using split(2) evicted(6) by blast
    ultimately show ?thesis using split(1) evicted(7-9) by blast
  qed
qed

definition busy_item :: QueuedEvent where
  "busy_item = QueuedEvent.make ''a'' (SidecarEvent.make sidecar_event_kind ''y'' 0 JNull None None) critical_priority 1"

definition late_item :: QueuedEvent where
  "late_item = QueuedEvent.make ''a'' (SidecarEvent.make sidecar_event_kind ''x'' 0 JNull None None) low_priority 9"

lemma example_items:
  "qe_sidecarId busy_item = ''a''" "weightOf busy_item = 0" "weightOf late_item = 3"
  "\<not> undroppable busy_item" "\<not> undroppable late_item"
  by (simp_all add: busy_item_def late_item_def QueuedEvent.make_def SidecarEvent.make_def weightOf_def undroppable_def
      UNDROPPABLE_TYPES_def)

theorem offer_exact_witness:
  "offer late_item (replicate 500 busy_item) = replicate 500 busy_item"
proof -
  have "queue_ok ''a'' (replicate 500 busy_item)"
    by (simp add: queue_ok_def example_items MAX_QUEUE_PER_SIDECAR_def sorted_replicate)
  note exact = offer_exact [OF this, of late_item 0]
  have full: "length (replicate 500 busy_item) \<ge> MAX_QUEUE_PER_SIDECAR" by (simp add: MAX_QUEUE_PER_SIDECAR_def)
  have "weightOf late_item > weightOf v" if "replicate 500 busy_item = pre @ v # post" for pre v post
  proof -
    have "v \<in> set (replicate 500 busy_item)" unfolding that by simp
    then show ?thesis by (simp add: example_items)
  qed
  then show ?thesis using exact full example_items(5) by (meson leD)
qed


section \<open>Fairness\<close>

text \<open>
  \<open>near sid n s\<close>: the queue of \<open>sid\<close> is among the next \<open>n\<close> the pick looks at.  A step that keeps the
  sidecars and the index keeps it, and a pick serves \<open>sid\<close> or brings it one nearer.
\<close>

definition near :: "string \<Rightarrow> nat \<Rightarrow> 'h EventScheduler \<Rightarrow> bool" where
  "near sid n s = (\<exists>d < n. d < length (sc_sidecarIds s) \<and> sidAt s d = sid)"

definition steadyStep :: "string set \<Rightarrow> 'h SchedStep \<Rightarrow> bool" where
  "steadyStep ids x = (case x of SOp (SRemove _) \<Rightarrow> False
     | SOp (SEnqueue _ sid _ _) \<Rightarrow> sid \<in> ids | _ \<Rightarrow> True)"

lemma near_mono: "near sid m s \<Longrightarrow> m \<le> n \<Longrightarrow> near sid n s"
  unfolding near_def by (elim exE conjE) (intro exI conjI, auto)

lemma near_initial:
  assumes "sched_ok s" "sid \<in> set (sc_sidecarIds s)"
  shows "near sid (length (sc_sidecarIds s)) s"
proof -
  let ?n = "length (sc_sidecarIds s)" and ?r = "sc_roundRobinIndex s"
  from assms(2) obtain p where p: "p < ?n" "sc_sidecarIds s ! p = sid" by (auto simp: in_set_conv_nth)
  then have r: "?r < ?n" using assms(1) by (auto simp: sched_ok_def)
  define d where "d = (if ?r \<le> p then p - ?r else p + ?n - ?r)"
  have "d < ?n" "(?r + d) mod ?n = p" using p(1) r by (auto simp: d_def)
  with p(2) show ?thesis by (auto simp: near_def sidAt_def)
qed

lemma near_serve:
  assumes "near sid (Suc n) s" "i < length (sc_sidecarIds s)" "sidAt s i \<noteq> sid"
    "\<And>j. j < i \<Longrightarrow> sidAt s j \<noteq> sid"
  shows "near sid n (serveAt s i)"
proof -
  let ?n = "length (sc_sidecarIds s)" and ?r = "sc_roundRobinIndex s"
  from assms(1) obtain d where d: "d < Suc n" "d < ?n" "sidAt s d = sid" by (auto simp: near_def)
  have "i < d" using assms(3,4) d(3) by (metis linorder_neqE_nat)
  have "(((?r + i) mod ?n + 1) mod ?n + (d - Suc i)) mod ?n = (?r + i + 1 + (d - Suc i)) mod ?n"
    by (metis mod_add_left_eq)
  also have "?r + i + 1 + (d - Suc i) = ?r + d" using \<open>i < d\<close> by simp
  finally have "sidAt (serveAt s i) (d - Suc i) = sidAt s d"
    by (simp add: sidAt_def serveAt_def)
  with d \<open>i < d\<close> show ?thesis
    by (auto simp: near_def intro!: exI [of _ "d - Suc i"])
qed

lemma steady_op:
  assumes "steadyStep (set (sc_sidecarIds (fst sw))) (SOp op)" "sched_ok (fst sw)"
  shows "sc_sidecarIds (fst (schedOp run op sw)) = sc_sidecarIds (fst sw) \<and>
    sc_roundRobinIndex (fst (schedOp run op sw)) = sc_roundRobinIndex (fst sw)"
  using assms
  by (cases op; cases sw)
     (auto simp: steadyStep_def sched_on_def setDirectTypes_def sched_start_def sched_stop_def enqueue_def
       ensureQueue_def newItem_def sched_ok_def split: prod.split)

lemma offer_nonempty: "queue_ok sid q \<Longrightarrow> q \<noteq> [] \<Longrightarrow> offer item q \<noteq> []"
proof -
  assume "queue_ok sid q" "q \<noteq> []"
  then have srt: "sorted (map weightOf q)" by (simp add: queue_ok_def)
  then show ?thesis
  proof (cases rule: makeRoom_cases [of q item])
    case (evicted p v)
    from sorted_remove_first [OF srt, of p] have "length (insertByPriority item (remove_first p q)) > 0"
      by (simp add: pq.length_ins)
    with evicted(2) show ?thesis by (auto simp: offer_def)
  qed (use \<open>q \<noteq> []\<close> pq.length_ins [OF srt, of item] in \<open>auto simp: offer_def\<close>)
qed

lemma queueOf_console [simp]: "queueOf sid (s\<lparr>sc_console := c\<rparr>) = queueOf sid s"
  by (simp add: queueOf_def)

lemma newItem_sidecar [simp]: "qe_sidecarId (newItem now sid ev pr) = sid"
  by (simp add: newItem_def)

lemma queueOf_schedOp:
  "queueOf sid (fst (schedOp run op sw)) =
     (case op of
        SEnqueue now sid' ev pr \<Rightarrow>
          if sid' = sid \<and> event_type ev \<notin> set (sc_directTypes (fst sw))
          then offer (newItem now sid' ev pr) (queueOf sid (fst sw)) else queueOf sid (fst sw)
      | SRemove sid' \<Rightarrow> if sid' = sid then [] else queueOf sid (fst sw)
      | _ \<Rightarrow> queueOf sid (fst sw))"
proof (cases op)
  case (SEnqueue now sid' ev pr)
  then show ?thesis
    by (cases sw) (auto simp: enqueue_def enqueueItem_queueOf split: prod.split)
qed (auto simp: sched_on_def setDirectTypes_def sched_start_def sched_stop_def queueOf_def js_get_or_def
       removeSidecar_def Let_def jsmap_simps split: option.split)

lemma steady_nonempty:
  assumes "sched_ok (fst sw)" "steadyStep ids (SOp op)" "queueOf sid (fst sw) \<noteq> []"
  shows "queueOf sid (fst (schedOp run op sw)) \<noteq> []"
  using assms offer_nonempty [OF queueOf_ok [OF assms(1)] assms(3)]
  by (cases op) (auto simp: queueOf_schedOp steadyStep_def simp del: schedOp.simps split: if_splits)

lemma fair_run:
  assumes "sched_ok (fst sw)" "near sid (length (filter (\<lambda>x. x = STake) steps)) (fst sw)"
    "queueOf sid (fst sw) \<noteq> []" "\<forall>x \<in> set steps. steadyStep (set (sc_sidecarIds (fst sw))) x"
  shows "sid \<in> qe_sidecarId ` set (fst (schedRun run steps sw))"
  using assms
proof (induction steps arbitrary: sw)
  case Nil
  then show ?case by (auto simp: near_def)
next
  case (Cons x steps)
  show ?case
  proof (cases x)
    case (SOp op)
    let ?sw = "schedOp run op sw"
    have keep: "sc_sidecarIds (fst ?sw) = sc_sidecarIds (fst sw)"
      "sc_roundRobinIndex (fst ?sw) = sc_roundRobinIndex (fst sw)"
      using steady_op [of sw op run] Cons.prems(1,4) SOp by auto
    have "sid \<in> qe_sidecarId ` set (fst (schedRun run steps ?sw))"
    proof (rule Cons.IH)
      show "sched_ok (fst ?sw)" using Cons.prems(1) by (rule sched_ok_schedOp)
      show "near sid (length (filter (\<lambda>x. x = STake) steps)) (fst ?sw)"
        using Cons.prems(2) by (simp add: SOp near_def sidAt_def keep)
      show "queueOf sid (fst ?sw) \<noteq> []"
        using steady_nonempty [OF Cons.prems(1) _ Cons.prems(3), of _ op] Cons.prems(4) by (auto simp: SOp)
      show "\<forall>x \<in> set steps. steadyStep (set (sc_sidecarIds (fst ?sw))) x"
        using Cons.prems(4) by (simp add: keep)
    qed
    then show ?thesis by (auto simp: SOp split: prod.split)
  next
    case STake
    show ?thesis
    proof (cases rule: nextItem_cases [of "fst sw"])
      case none
      with Cons.prems(2,3) show ?thesis by (auto simp: near_def)
    next
      case (some i item q)
      let ?sw = "sched_dispatch run item (serveAt (fst sw) i, snd sw)"
      have item: "qe_sidecarId item = sidAt (fst sw) i"
        using queueOf_ok [OF Cons.prems(1), of "sidAt (fst sw) i"] by (simp add: some(3) queue_ok_def)
      show ?thesis
      proof (cases "sidAt (fst sw) i = sid")
        case True
        with item some(1) show ?thesis by (auto simp: STake split: prod.split)
      next
        case False
        have "sid \<in> qe_sidecarId ` set (fst (schedRun run steps ?sw))"
        proof (rule Cons.IH)
          have "sched_ok (serveAt (fst sw) i)" using sched_ok_nextItem [OF Cons.prems(1)] some(1) by simp
          then show "sched_ok (fst ?sw)" by (rule sched_ok_cong) simp_all
          have "near sid (length (filter (\<lambda>x. x = STake) steps)) (serveAt (fst sw) i)"
            using Cons.prems(2,3) some(2,4) False by (intro near_serve) (auto simp: STake)
          then show "near sid (length (filter (\<lambda>x. x = STake) steps)) (fst ?sw)"
            by (simp add: near_def sidAt_def)
          show "queueOf sid (fst ?sw) \<noteq> []" using Cons.prems(3) False by (simp add: serveAt_queueOf)
          show "\<forall>x \<in> set steps. steadyStep (set (sc_sidecarIds (fst ?sw))) x" using Cons.prems(4) by simp
        qed
        with some(1) show ?thesis by (auto simp: STake split: prod.split)
      qed
    qed
  qed
qed


definition quiet :: "nat \<Rightarrow> string \<Rightarrow> SidecarEvent \<Rightarrow> nat \<Rightarrow> string option \<times> nat" where
  "quiet h sid ev w = ((if h = 0 then Some ''boom'' else None), Suc w)"

definition example_event :: "string \<Rightarrow> SidecarEvent" where
  "example_event t = \<lparr> se_type = sidecar_event_kind, event_type = t, se_timestamp = 0, se_payload = JNull,
     se_priority = None, se_binary = None \<rparr>"

definition two_sidecars :: "nat EventScheduler" where
  "two_sidecars = fst (fold (schedOp quiet)
     [SOn ''capture'' 0, SOn ''*'' 1, SEnqueue 1 ''a'' (example_event ''capture'') None,
      SEnqueue 2 ''a'' (example_event ''capture'') None, SEnqueue 3 ''b'' (example_event ''rpc_result'') None]
     (newScheduler, 0))"

lemma sched_ok_fold: "sched_ok (fst sw) \<Longrightarrow> sched_ok (fst (fold (schedOp run) ops sw))"
  using sched_ok_schedRun [of sw run "map SOp ops"] by (simp add: schedRun_ops)

lemma two_sidecars_ok: "sched_ok two_sidecars"
  unfolding two_sidecars_def by (rule sched_ok_fold) simp

lemma two_sidecars_state:
  "sc_sidecarIds two_sidecars = [''a'', ''b''] \<and> map qe_enqueuedAt (queueOf ''a'' two_sidecars) = [1, 2] \<and>
   map qe_enqueuedAt (queueOf ''b'' two_sidecars) = [3]"
  by (simp add: two_sidecars_def sched_on_def enqueue_def newScheduler_def enqueueItem_def Let_def ensureQueue_def
      makeRoom_def MAX_QUEUE_PER_SIDECAR_def newItem_def example_event_def js_get_or_def insertByPriority_def
      splice_in_def weightOf_def queueOf_def)

text \<open>C32: no sidecar starves.  From a consistent scheduler, a sidecar with a queued event is served within as
  many picks as there are sidecars, whatever the others enqueue meanwhile, as long as no sidecar joins or
  leaves.\<close>

theorem scheduler_fair:
  assumes "sched_ok s" "queueOf sid s \<noteq> []"
    and "\<forall>x \<in> set steps. steadyStep (set (sc_sidecarIds s)) x"
    and "length (filter (\<lambda>x. x = STake) steps) \<ge> length (sc_sidecarIds s)"
  shows "sid \<in> qe_sidecarId ` set (fst (schedRun run steps (s, w)))"
proof (rule fair_run)
  have "sid \<in> set (sc_sidecarIds s)"
    using assms(1,2) by (auto simp: sched_ok_def queueOf_def js_get_or_def split: option.splits)
  from near_initial [OF assms(1) this] assms(4)
  show "near sid (length (filter (\<lambda>x. x = STake) steps)) (fst (s, w))"
    by (simp add: near_mono)
qed (use assms in simp_all)

theorem scheduler_fair_witness:
  "''b'' \<in> qe_sidecarId ` set (fst (schedRun quiet
     [STake, SOp (SEnqueue 9 ''a'' (example_event ''capture'') (Some critical_priority)), STake] (two_sidecars, 0)))"
  using scheduler_fair [OF two_sidecars_ok, of "''b''"
      "[STake, SOp (SEnqueue 9 ''a'' (example_event ''capture'') (Some critical_priority)), STake]"]
    two_sidecars_state by (auto simp: steadyStep_def)


section \<open>Accounting\<close>

text \<open>The items a step offers to the queue of \<open>sid\<close>, given the direct types.\<close>

definition offeredBy :: "string \<Rightarrow> string list \<Rightarrow> 'h SchedStep \<Rightarrow> QueuedEvent list" where
  "offeredBy sid direct x = (case x of
     SOp (SEnqueue now sid' ev pr) \<Rightarrow>
       if sid' = sid \<and> event_type ev \<notin> set direct then [newItem now sid' ev pr] else []
   | _ \<Rightarrow> [])"

definition keepsLane :: "string \<Rightarrow> 'h SchedStep \<Rightarrow> bool" where
  "keepsLane sid x = (case x of SOp (SRemove sid') \<Rightarrow> sid' \<noteq> sid | SOp (SDirect _) \<Rightarrow> False | _ \<Rightarrow> True)"

definition droppedFor :: "string \<Rightarrow> 'h EventScheduler \<Rightarrow> nat" where
  "droppedFor sid s = js_get_or 0 (sc_droppedBySidecar s) sid"

lemma filter_insertByPriority:
  "sorted (map weightOf q) \<Longrightarrow>
     mset (filter P (insertByPriority item q)) = mset (filter P q) + mset (filter P [item])"
  by (simp add: pq.mset_ins)

lemma offer_account:
  assumes "queue_ok sid q"
  shows "length (offer item q) + drops item q = Suc (length q) \<and>
    mset (filter undroppable (offer item q)) =
      mset (filter undroppable q) + mset (filter undroppable [item])"
proof -
  have srt: "sorted (map weightOf q)" using assms by (simp add: queue_ok_def)
  then show ?thesis
  proof (cases rule: makeRoom_cases [of q item])
    case room
    then show ?thesis
      by (simp add: offer_def drops_def pq.length_ins [OF srt] filter_insertByPriority [OF srt] del: mset_filter filter.simps)
  next
    case overflow
    then show ?thesis
      by (simp add: offer_def drops_def pq.length_ins [OF srt] filter_insertByPriority [OF srt] del: mset_filter filter.simps)
  next
    case refused
    then show ?thesis by (simp add: offer_def drops_def)
  next
    case (evicted p v)
    have s2: "sorted (map weightOf (remove_first p q))" using srt by (rule sorted_remove_first)
    have "filter undroppable (remove_first p q) = filter undroppable q"
      by (rule filter_remove_first) (simp add: evicted(6))
    with evicted(2) length_remove_first [OF evicted(3)] show ?thesis
      by (simp add: offer_def drops_def pq.length_ins [OF s2] filter_insertByPriority [OF s2] del: mset_filter filter.simps)
  qed
qed


lemma account_op:
  assumes "sched_ok (fst sw)" "keepsLane sid (SOp op)"
    and s_def: "s = fst sw" and s'_def: "s' = fst (schedOp run op sw)"
    and items_def: "items = offeredBy sid (sc_directTypes (fst sw)) (SOp op)"
  shows "length (queueOf sid s') + droppedFor sid s' = length (queueOf sid s) + length items + droppedFor sid s \<and>
    mset (filter undroppable (queueOf sid s')) =
      mset (filter undroppable (queueOf sid s)) + mset (filter undroppable items) \<and>
    sc_directTypes s' = sc_directTypes s"
proof (cases "\<exists>now ev pr. op = SEnqueue now sid ev pr \<and> event_type ev \<notin> set (sc_directTypes s)")
  case True
  then obtain now ev pr where op: "op = SEnqueue now sid ev pr" "event_type ev \<notin> set (sc_directTypes s)" by blast
  let ?item = "newItem now sid ev pr"
  have s': "s' = enqueueItem now ?item s" using op by (cases sw) (simp add: s'_def s_def enqueue_def)
  have items: "items = [?item]" using op by (simp add: items_def offeredBy_def s_def)
  from offer_account [OF queueOf_ok [OF assms(1)], of ?item sid] show ?thesis
    by (simp add: s' items droppedFor_def enqueueItem_queueOf enqueueItem_drops s_def del: mset_filter filter.simps)
next
  case False
  with assms(2) have "items = [] \<and> queueOf sid s' = queueOf sid s \<and> droppedFor sid s' = droppedFor sid s \<and>
      sc_directTypes s' = sc_directTypes s"
    unfolding items_def s'_def s_def queueOf_schedOp
    by (cases op; cases sw)
       (auto simp: offeredBy_def keepsLane_def droppedFor_def sched_on_def sched_start_def sched_stop_def enqueue_def
         removeSidecar_def Let_def enqueueItem_drops split: prod.split)
  then show ?thesis by simp
qed

lemma account_take:
  assumes "sched_ok (fst sw)"
    and s_def: "s = fst sw" and s'_def: "s' = fst (snd (schedStep run STake sw))"
    and items_def: "items = filter (\<lambda>x. qe_sidecarId x = sid) (fst (schedStep run STake sw))"
  shows "queueOf sid s = items @ queueOf sid s' \<and> droppedFor sid s' = droppedFor sid s \<and>
    sc_directTypes s' = sc_directTypes s"
proof (cases rule: nextItem_cases [of s])
  case none
  then show ?thesis by (simp add: s'_def items_def s_def)
next
  case (some i item q)
  have "qe_sidecarId item = sidAt s i"
    using queueOf_ok [OF assms(1), of "sidAt s i"] some(3) by (simp add: queue_ok_def s_def)
  with some show ?thesis
    by (auto simp: s'_def items_def s_def serveAt_queueOf droppedFor_def split: prod.split)
qed

text \<open>C31: every event is accounted for, and no response to a call is ever lost.  Over any run that does not
  remove the sidecar or change the direct types, the events offered to its queue, with those queued before, are
  those picked, those still queued and those the drop counter counts; and the responses to calls among the
  offered and queued are exactly those picked or still queued, as often as they were sent.\<close>

theorem scheduler_accounts:
  assumes "sched_ok (fst sw)" "list_all (keepsLane sid) steps"
    and "schedRun run steps sw = (picked, sw')"
    and "mine = filter (\<lambda>x. qe_sidecarId x = sid) picked"
    and "offered = concat (map (offeredBy sid (sc_directTypes (fst sw))) steps)"
  shows "length (queueOf sid (fst sw)) + length offered + droppedFor sid (fst sw) =
      length mine + length (queueOf sid (fst sw')) + droppedFor sid (fst sw') \<and>
    mset (filter undroppable (queueOf sid (fst sw))) + mset (filter undroppable offered) =
      mset (filter undroppable mine) + mset (filter undroppable (queueOf sid (fst sw')))"
  using assms
proof (induction steps arbitrary: sw picked mine offered)
  case Nil
  then show ?case by simp
next
  case (Cons x steps)
  obtain a sw1 where step: "schedStep run x sw = (a, sw1)" by (cases "schedStep run x sw")
  obtain b where rest: "schedRun run steps sw1 = (b, sw')" and picked: "picked = a @ b"
    using Cons.prems(3) step by (auto split: prod.splits)
  have ok: "sched_ok (fst sw1)" using sched_ok_schedStep [OF Cons.prems(1), of run x] step by simp
  have keep: "keepsLane sid x" "list_all (keepsLane sid) steps" using Cons.prems(2) by simp_all
  note ih = Cons.IH [OF ok keep(2) rest refl refl]
  show ?case
  proof (cases x)
    case (SOp op)
    with step account_op [OF Cons.prems(1) keep(1) [unfolded SOp] refl refl refl, where run = run] ih Cons.prems(4,5) picked show ?thesis
      by (simp add: ac_simps del: schedOp.simps)
  next
    case STake
    with step account_take [OF Cons.prems(1) refl refl refl, where run = run and sid = sid] ih Cons.prems(4,5) picked show ?thesis
      by (simp add: offeredBy_def del: schedStep.simps)
  qed
qed


theorem scheduler_accounts_witness:
  "length (filter (\<lambda>x. qe_sidecarId x = ''a'') (fst (schedRun quiet
     [SOp (SEnqueue 9 ''a'' (example_event ''rpc_result'') None), STake] (newScheduler, 0)))) +
   length (queueOf ''a'' (fst (snd (schedRun quiet
     [SOp (SEnqueue 9 ''a'' (example_event ''rpc_result'') None), STake] (newScheduler, 0))))) +
   droppedFor ''a'' (fst (snd (schedRun quiet
     [SOp (SEnqueue 9 ''a'' (example_event ''rpc_result'') None), STake] (newScheduler, 0)))) = 1"
proof -
  let ?steps = "[SOp (SEnqueue 9 ''a'' (example_event ''rpc_result'') None), STake] :: nat SchedStep list"
  obtain picked sw' where run: "schedRun quiet ?steps (newScheduler, 0) = (picked, sw')"
    by (cases "schedRun quiet ?steps (newScheduler, 0)")
  have "queueOf ''a'' (newScheduler :: nat EventScheduler) = []" "droppedFor ''a'' (newScheduler :: nat EventScheduler) = 0"
    "sc_directTypes (newScheduler :: nat EventScheduler) = []"
    by (simp_all add: newScheduler_def queueOf_def droppedFor_def js_get_or_def)
  with scheduler_accounts [OF _ _ run refl refl, where sid = "''a''"] run show ?thesis
    by (simp add: keepsLane_def offeredBy_def del: schedRun.simps)
qed


section \<open>The drain tick\<close>

lemma schedStep_processing [simp]: "sc_processing (fst (snd (schedStep run x sw))) = sc_processing (fst sw)"
proof (cases x)
  case (SOp op)
  then show ?thesis
    by (cases op; cases sw)
       (auto simp: sched_on_def setDirectTypes_def sched_start_def sched_stop_def enqueue_def removeSidecar_def Let_def
         split: prod.split)
next
  case STake
  then show ?thesis by (cases rule: nextItem_cases [of "fst sw"]) auto
qed

lemma nextItem_None:
  assumes "sched_ok s" "fst (nextItem s) = None"
  shows "queueOf sid s = []"
proof (cases rule: nextItem_cases [of s])
  case none
  show ?thesis
  proof (cases "sid \<in> set (sc_sidecarIds s)")
    case True
    from near_initial [OF assms(1) True] none(2) show ?thesis by (auto simp: near_def)
  next
    case False
    with assms(1) show ?thesis by (auto simp: sched_ok_def queueOf_def js_get_or_def)
  qed
qed (use assms in simp)

lemma drainLoop_short:
  "sched_ok (fst sw) \<Longrightarrow> drainLoop run n turns sw = (items, sw') \<Longrightarrow> length items < n \<Longrightarrow>
     queueOf sid (fst sw') = []"
proof (induction n arbitrary: turns sw items)
  case (Suc n)
  show ?case
  proof (cases rule: nextItem_cases [of "fst sw"])
    case none
    with Suc.prems nextItem_None [OF Suc.prems(1), of sid] show ?thesis by auto
  next
    case (some i item q)
    let ?ops = "case turns of [] \<Rightarrow> [] | ops # _ \<Rightarrow> ops"
    let ?sw = "sched_dispatch run item (serveAt (fst sw) i, snd sw)"
    from Suc.prems(2) some(1) obtain rest where
      "drainLoop run n (tl turns) (fold (schedOp run) ?ops ?sw) = (rest, sw')" "items = item # rest"
      by (auto simp: Let_def split: prod.splits)
    moreover have "sched_ok (fst ?sw)"
      using sched_ok_schedStep [OF Suc.prems(1), of run STake] some(1) by simp
    ultimately show ?thesis using Suc.IH [OF sched_ok_fold] Suc.prems(3) by simp
  qed
qed simp

text \<open>a drain tick is bounded and never leaves work behind without reason.  A tick that finds another in
  progress does nothing.  Otherwise it is a run of at most ten picks, each followed by whatever happens while the
  handlers are awaited; it stops before ten only with every queue empty, and it always lets the next tick in.\<close>

theorem drain_tick:
  assumes "sched_ok (fst sw)" "drain run turns sw = (items, sw')"
  shows "(sc_processing (fst sw) \<longrightarrow> items = [] \<and> sw' = sw) \<and>
    (\<not> sc_processing (fst sw) \<longrightarrow>
       length items \<le> 10 \<and> \<not> sc_processing (fst sw') \<and>
       (length items < 10 \<longrightarrow> (\<forall>sid. queueOf sid (fst sw') = [])) \<and>
       (\<exists>st. schedRun run (drainSteps (length items) turns) ((fst sw)\<lparr>sc_processing := True\<rparr>, snd sw) = (items, st) \<and>
             sw' = ((fst st)\<lparr>sc_processing := False\<rparr>, snd st)))"
proof (cases "sc_processing (fst sw)")
  case True
  with assms(2) show ?thesis by (simp add: drain_def)
next
  case idle: False
  let ?s = "(fst sw)\<lparr>sc_processing := True\<rparr>"
  have ok: "sched_ok ?s" using assms(1) by (rule sched_ok_cong) simp_all
  show ?thesis
  proof (cases "sc_sidecarIds (fst sw) = []")
    case True
    then have "queueOf sid (fst sw) = []" for sid
      using assms(1) by (auto simp: sched_ok_def queueOf_def js_get_or_def)
    moreover have "sw' = sw" "items = []" using True idle assms(2) by (simp_all add: drain_def)
    moreover have "((fst sw)\<lparr>sc_processing := False\<rparr>, snd sw) = sw" using idle by (cases sw; cases "fst sw") simp
    ultimately show ?thesis using idle by (auto intro!: exI [of _ "(fst sw)\<lparr>sc_processing := True\<rparr>"])
  next
    case False
    obtain st where loop: "drainLoop run DRAIN_BATCH_PER_TICK turns (?s, snd sw) = (items, st)"
      and sw': "sw' = ((fst st)\<lparr>sc_processing := False\<rparr>, snd st)"
      using assms(2) idle False by (auto simp: drain_def split: prod.splits)
    have "queueOf sid (fst sw') = []" if "length items < 10" for sid
      using drainLoop_short [OF _ loop, of sid] ok that by (simp add: sw' DRAIN_BATCH_PER_TICK_def queueOf_def)
    with drainLoop_run [OF loop] idle sw' show ?thesis by (auto simp: DRAIN_BATCH_PER_TICK_def)
  qed
qed

theorem drain_tick_witness:
  "length (fst (drain quiet [] (two_sidecars, 0))) \<le> 10 \<and>
   \<not> sc_processing (fst (snd (drain quiet [] (two_sidecars, 0))))"
proof -
  have "\<not> sc_processing two_sidecars"
    by (simp add: two_sidecars_def sched_on_def enqueue_def newScheduler_def)
  then show ?thesis
    using drain_tick [of "(two_sidecars, 0)" quiet "[]" "fst (drain quiet [] (two_sidecars, 0))"
        "snd (drain quiet [] (two_sidecars, 0))"] two_sidecars_ok by simp
qed

end
