(* ===== verification/Sidecar_Rpc.thy ===== *)
theory Sidecar_Rpc
  imports Prelude
begin

text \<open>
  The RPC tracker (\<^verbatim>\<open>src/sidecar/rpc.ts\<close>): calls to a sidecar with a fast and a long timeout.
  An entry is an object shared by the map and by the closures of its timers, so entries live in a heap
  (\<open>rt_entries\<close>) and a handle is an index into it.  \<open>rt_timers\<close> are the armed timers; what the
  callers observe (promises settled, callback calls) is appended to \<open>rt_out\<close>.  The callback belongs to the
  caller and may throw: \<open>raises\<close> says when.
\<close>

datatype RPCState = rpc_pending | rpc_detached | rpc_completed | rpc_failed | rpc_timed_out | rpc_cancelled

record PendingRPC =
  pr_id :: string
  pr_sidecarId :: string
  pr_method :: string
  pr_state :: RPCState
  pr_createdAt :: int
  pr_initialTimer :: bool
  pr_maxTimer :: bool

datatype RpcError = SidecarRPCError string string | SidecarDisconnected string

datatype 'v Reply = DetachedReply | ResultReply 'v

datatype 'v RpcOut =
    Resolved nat "'v Reply"
  | Rejected nat RpcError
  | DetachedComplete nat string "'v option" "RpcError option"

datatype TimerKind = InitialTimer | MaxTimer

record 'v RPCTracker =
  rt_pending :: "(string, nat) jsmap"
  rt_entries :: "PendingRPC list"
  rt_timers :: "(nat \<times> TimerKind) list"
  rt_detachedCallback :: bool
  rt_out :: "'v RpcOut list"

definition newTracker :: "'v RPCTracker" where
  "newTracker = \<lparr> rt_pending = [], rt_entries = [], rt_timers = [], rt_detachedCallback = False, rt_out = [] \<rparr>"

definition onDetachedComplete :: "'v RPCTracker \<Rightarrow> 'v RPCTracker" where
  "onDetachedComplete t = t\<lparr>rt_detachedCallback := True\<rparr>"

definition emit :: "'v RpcOut \<Rightarrow> 'v RPCTracker \<Rightarrow> 'v RPCTracker" where
  "emit e t = t\<lparr>rt_out := rt_out t @ [e]\<rparr>"

definition updEntry :: "nat \<Rightarrow> (PendingRPC \<Rightarrow> PendingRPC) \<Rightarrow> 'v RPCTracker \<Rightarrow> 'v RPCTracker" where
  "updEntry h f t = t\<lparr>rt_entries := (rt_entries t)[h := f (rt_entries t ! h)]\<rparr>"

definition rpc_dispatch :: "string \<Rightarrow> string \<Rightarrow> string \<Rightarrow> int \<Rightarrow> 'v RPCTracker \<Rightarrow> 'v RPCTracker" where
  "rpc_dispatch rpcId sidecarId mname now t =
     (let h = length (rt_entries t);
          entry = \<lparr> pr_id = rpcId, pr_sidecarId = sidecarId, pr_method = mname, pr_state = rpc_pending,
                    pr_createdAt = now, pr_initialTimer = True, pr_maxTimer = False \<rparr>
      in t\<lparr>rt_entries := rt_entries t @ [entry], rt_timers := rt_timers t @ [(h, InitialTimer)],
           rt_pending := js_set rpcId h (rt_pending t)\<rparr>)"

text \<open>A timer fires once; firing one that is not armed cannot happen and changes nothing.\<close>

definition fireInitial :: "nat \<Rightarrow> 'v RPCTracker \<Rightarrow> 'v RPCTracker" where
  "fireInitial h t =
     (if (h, InitialTimer) \<notin> set (rt_timers t) then t
      else (let t1 = t\<lparr>rt_timers := removeAll (h, InitialTimer) (rt_timers t)\<rparr>
            in if pr_state (rt_entries t1 ! h) \<noteq> rpc_pending then t1
               else (let t2 = emit (Resolved h DetachedReply)
                       (updEntry h (\<lambda>e. e\<lparr>pr_state := rpc_detached, pr_initialTimer := False\<rparr>) t1)
                     in updEntry h (\<lambda>e. e\<lparr>pr_maxTimer := True\<rparr>)
                          (t2\<lparr>rt_timers := rt_timers t2 @ [(h, MaxTimer)]\<rparr>))))"

definition fireMax :: "nat \<Rightarrow> 'v RPCTracker \<Rightarrow> 'v RPCTracker" where
  "fireMax h t =
     (if (h, MaxTimer) \<notin> set (rt_timers t) then t
      else (let t1 = t\<lparr>rt_timers := removeAll (h, MaxTimer) (rt_timers t)\<rparr>
            in if pr_state (rt_entries t1 ! h) \<noteq> rpc_detached then t1
               else (let t2 = updEntry h (\<lambda>e. e\<lparr>pr_state := rpc_timed_out\<rparr>) t1
                     in t2\<lparr>rt_pending := js_delete (pr_id (rt_entries t ! h)) (rt_pending t2)\<rparr>)))"

definition clearTimers :: "nat \<Rightarrow> 'v RPCTracker \<Rightarrow> 'v RPCTracker" where
  "clearTimers h t =
     (let t1 = (if pr_initialTimer (rt_entries t ! h)
                then updEntry h (\<lambda>e. e\<lparr>pr_initialTimer := False\<rparr>)
                       (t\<lparr>rt_timers := removeAll (h, InitialTimer) (rt_timers t)\<rparr>)
                else t)
      in if pr_maxTimer (rt_entries t1 ! h)
         then updEntry h (\<lambda>e. e\<lparr>pr_maxTimer := False\<rparr>)
                (t1\<lparr>rt_timers := removeAll (h, MaxTimer) (rt_timers t1)\<rparr>)
         else t1)"

text \<open>
  The branch on the state: a pending entry settles its promise, a detached one calls the callback,
  any other does nothing.  The result says whether the callback threw.
\<close>

definition settleEntry :: "('v RpcOut \<Rightarrow> bool) \<Rightarrow> nat \<Rightarrow> RPCState \<Rightarrow> 'v RpcOut \<Rightarrow> 'v RpcOut \<Rightarrow>
    'v RPCTracker \<Rightarrow> bool \<times> 'v RPCTracker" where
  "settleEntry raises h final promise callback t =
     (if pr_state (rt_entries t ! h) = rpc_pending then
        (False, emit promise (updEntry h (\<lambda>e. e\<lparr>pr_state := final\<rparr>) t))
      else if pr_state (rt_entries t ! h) = rpc_detached then
        (let t1 = updEntry h (\<lambda>e. e\<lparr>pr_state := final\<rparr>) t
         in if rt_detachedCallback t then (raises callback, emit callback t1) else (False, t1))
      else (False, t))"

definition finishCall :: "('v RpcOut \<Rightarrow> bool) \<Rightarrow> string \<Rightarrow> nat \<Rightarrow> RPCState \<Rightarrow> 'v RpcOut \<Rightarrow> 'v RpcOut \<Rightarrow>
    'v RPCTracker \<Rightarrow> bool \<times> 'v RPCTracker" where
  "finishCall raises rpcId h final promise callback t =
     (case settleEntry raises h final promise callback (clearTimers h t) of
        (True, t1) \<Rightarrow> (True, t1)
      | (False, t1) \<Rightarrow> (False, t1\<lparr>rt_pending := js_delete rpcId (rt_pending t1)\<rparr>))"

definition rpc_resolve :: "('v RpcOut \<Rightarrow> bool) \<Rightarrow> string \<Rightarrow> 'v \<Rightarrow> 'v RPCTracker \<Rightarrow> bool \<times> 'v RPCTracker" where
  "rpc_resolve raises rpcId v t =
     (case js_get (rt_pending t) rpcId of
        None \<Rightarrow> (False, t)
      | Some h \<Rightarrow> finishCall raises rpcId h rpc_completed (Resolved h (ResultReply v))
                   (DetachedComplete h rpcId (Some v) None) t)"

definition rpc_fail :: "('v RpcOut \<Rightarrow> bool) \<Rightarrow> string \<Rightarrow> RpcError \<Rightarrow> 'v RPCTracker \<Rightarrow> bool \<times> 'v RPCTracker" where
  "rpc_fail raises rpcId err t =
     (case js_get (rt_pending t) rpcId of
        None \<Rightarrow> (False, t)
      | Some h \<Rightarrow> finishCall raises rpcId h rpc_failed (Rejected h err) (DetachedComplete h rpcId None (Some err)) t)"

text \<open>The loop over the map; a callback that throws ends it.\<close>

fun failEach :: "('v RpcOut \<Rightarrow> bool) \<Rightarrow> string \<Rightarrow> string \<Rightarrow> (string \<times> nat) list \<Rightarrow> 'v RPCTracker \<Rightarrow> bool \<times> 'v RPCTracker" where
  "failEach raises sidecarId reason [] t = (False, t)"
| "failEach raises sidecarId reason ((rpcId, h) # rest) t =
     (if pr_sidecarId (rt_entries t ! h) \<noteq> sidecarId then failEach raises sidecarId reason rest t
      else (case finishCall raises rpcId h rpc_failed (Rejected h (SidecarDisconnected reason))
                   (DetachedComplete h rpcId None (Some (SidecarDisconnected reason))) t of
              (True, t1) \<Rightarrow> (True, t1)
            | (False, t1) \<Rightarrow> failEach raises sidecarId reason rest t1))"

definition rpc_failAll :: "('v RpcOut \<Rightarrow> bool) \<Rightarrow> string \<Rightarrow> string \<Rightarrow> 'v RPCTracker \<Rightarrow> bool \<times> 'v RPCTracker" where
  "rpc_failAll raises sidecarId reason t = failEach raises sidecarId reason (rt_pending t) t"

definition rpc_get :: "string \<Rightarrow> 'v RPCTracker \<Rightarrow> PendingRPC option" where
  "rpc_get rpcId t = map_option (\<lambda>h. rt_entries t ! h) (js_get (rt_pending t) rpcId)"

definition rpc_size :: "'v RPCTracker \<Rightarrow> nat" where
  "rpc_size t = length (rt_pending t)"

datatype 'v RpcOp =
    RpcListen
  | RpcDispatch string string string int
  | RpcResolve string 'v
  | RpcFail string RpcError
  | RpcFailAll string string
  | RpcInitial nat
  | RpcMax nat

fun rpcOp :: "('v RpcOut \<Rightarrow> bool) \<Rightarrow> 'v RpcOp \<Rightarrow> 'v RPCTracker \<Rightarrow> 'v RPCTracker" where
  "rpcOp raises RpcListen t = onDetachedComplete t"
| "rpcOp raises (RpcDispatch rpcId sidecarId mname now) t = rpc_dispatch rpcId sidecarId mname now t"
| "rpcOp raises (RpcResolve rpcId v) t = snd (rpc_resolve raises rpcId v t)"
| "rpcOp raises (RpcFail rpcId err) t = snd (rpc_fail raises rpcId err t)"
| "rpcOp raises (RpcFailAll sidecarId reason) t = snd (rpc_failAll raises sidecarId reason t)"
| "rpcOp raises (RpcInitial h) t = fireInitial h t"
| "rpcOp raises (RpcMax h) t = fireMax h t"


definition rpcRun :: "('v RpcOut \<Rightarrow> bool) \<Rightarrow> 'v RpcOp list \<Rightarrow> 'v RPCTracker \<Rightarrow> 'v RPCTracker" where
  "rpcRun raises ops t = fold (rpcOp raises) ops t"


section \<open>One entry at a time\<close>

fun outHandle :: "'v RpcOut \<Rightarrow> nat" where
  "outHandle (Resolved h _) = h"
| "outHandle (Rejected h _) = h"
| "outHandle (DetachedComplete h _ _ _) = h"

definition outsOf :: "nat \<Rightarrow> 'v RPCTracker \<Rightarrow> 'v RpcOut list" where
  "outsOf h t = filter (\<lambda>x. outHandle x = h) (rt_out t)"

text \<open>What the owner of a finished call has observed.\<close>

definition finished_outs :: "nat \<Rightarrow> 'v RpcOut list \<Rightarrow> bool" where
  "finished_outs h outs = ((\<exists>v. outs = [Resolved h (ResultReply v)]) \<or> (\<exists>e. outs = [Rejected h e]) \<or>
     outs = [Resolved h DetachedReply] \<or>
     (\<exists>i v e. outs = [Resolved h DetachedReply, DetachedComplete h i v e]))"

definition view_ok :: "nat \<Rightarrow> PendingRPC \<Rightarrow> 'v RpcOut list \<Rightarrow> bool \<Rightarrow> bool \<Rightarrow> bool" where
  "view_ok h e outs initial maxi =
     (case pr_state e of
        rpc_pending \<Rightarrow> outs = [] \<and> initial \<and> pr_initialTimer e \<and> \<not> pr_maxTimer e \<and> \<not> maxi
      | rpc_detached \<Rightarrow> outs = [Resolved h DetachedReply] \<and> maxi \<and> pr_maxTimer e \<and> \<not> pr_initialTimer e \<and> \<not> initial
      | rpc_completed \<Rightarrow> finished_outs h outs \<and> \<not> initial \<and> \<not> maxi
      | rpc_failed \<Rightarrow> finished_outs h outs \<and> \<not> initial \<and> \<not> maxi
      | rpc_timed_out \<Rightarrow> outs = [Resolved h DetachedReply] \<and> \<not> initial \<and> \<not> maxi
      | rpc_cancelled \<Rightarrow> False)"

definition entry_ok :: "nat \<Rightarrow> 'v RPCTracker \<Rightarrow> bool" where
  "entry_ok h t = view_ok h (rt_entries t ! h) (outsOf h t)
     ((h, InitialTimer) \<in> set (rt_timers t)) ((h, MaxTimer) \<in> set (rt_timers t))"

definition rpc_ok :: "'v RPCTracker \<Rightarrow> bool" where
  "rpc_ok t = ((\<forall>h < length (rt_entries t). entry_ok h t) \<and> js_map_ok (rt_pending t) \<and>
     (\<forall>(k, h) \<in> set (rt_pending t). h < length (rt_entries t) \<and> pr_id (rt_entries t ! h) = k) \<and>
     (\<forall>x \<in> set (rt_out t). outHandle x < length (rt_entries t)) \<and>
     (\<forall>(h, k) \<in> set (rt_timers t). h < length (rt_entries t)))"

lemma updEntry_simps [simp]:
  "length (rt_entries (updEntry h f t)) = length (rt_entries t)"
  "rt_out (updEntry h f t) = rt_out t"
  "rt_timers (updEntry h f t) = rt_timers t"
  "rt_pending (updEntry h f t) = rt_pending t"
  "rt_detachedCallback (updEntry h f t) = rt_detachedCallback t"
  "outsOf k (updEntry h f t) = outsOf k t"
  "h < length (rt_entries t) \<Longrightarrow>
     rt_entries (updEntry h f t) ! k = (if k = h then f (rt_entries t ! h) else rt_entries t ! k)"
  by (auto simp: updEntry_def outsOf_def nth_list_update)

lemma emit_simps [simp]:
  "rt_entries (emit x t) = rt_entries t"
  "rt_timers (emit x t) = rt_timers t"
  "rt_pending (emit x t) = rt_pending t"
  "rt_detachedCallback (emit x t) = rt_detachedCallback t"
  "rt_out (emit x t) = rt_out t @ [x]"
  "outsOf k (emit x t) = outsOf k t @ (if outHandle x = k then [x] else [])"
  by (auto simp: emit_def outsOf_def)

lemma clearTimers_simps [simp]:
  "length (rt_entries (clearTimers h t)) = length (rt_entries t)"
  "rt_out (clearTimers h t) = rt_out t"
  "rt_pending (clearTimers h t) = rt_pending t"
  "rt_detachedCallback (clearTimers h t) = rt_detachedCallback t"
  "outsOf k (clearTimers h t) = outsOf k t"
  by (auto simp: clearTimers_def Let_def outsOf_def)

lemma outsOf_pending [simp]: "outsOf k (t\<lparr>rt_pending := p\<rparr>) = outsOf k t"
  and outsOf_timers [simp]: "outsOf k (t\<lparr>rt_timers := ts\<rparr>) = outsOf k t"
  by (simp_all add: outsOf_def)

lemma clearTimers_entries:
  assumes "h < length (rt_entries t)"
  shows "rt_entries (clearTimers h t) ! k =
      (if k = h then (rt_entries t ! h)\<lparr>pr_initialTimer := False, pr_maxTimer := False\<rparr> else rt_entries t ! k)"
    and "set (rt_timers (clearTimers h t)) = set (rt_timers t) -
      ((if pr_initialTimer (rt_entries t ! h) then {(h, InitialTimer)} else {}) \<union>
       (if pr_maxTimer (rt_entries t ! h) then {(h, MaxTimer)} else {}))"
proof -
  show "rt_entries (clearTimers h t) ! k =
      (if k = h then (rt_entries t ! h)\<lparr>pr_initialTimer := False, pr_maxTimer := False\<rparr> else rt_entries t ! k)"
    using assms by (cases "rt_entries t ! h") (auto simp: clearTimers_def Let_def)
  show "set (rt_timers (clearTimers h t)) = set (rt_timers t) -
      ((if pr_initialTimer (rt_entries t ! h) then {(h, InitialTimer)} else {}) \<union>
       (if pr_maxTimer (rt_entries t ! h) then {(h, MaxTimer)} else {}))"
    using assms by (auto simp: clearTimers_def Let_def)
qed


text \<open>A step that touches one entry only needs to be looked at there.\<close>

lemma rpc_ok_local:
  assumes ok: "rpc_ok t" and h: "h < length (rt_entries t)"
    and len: "length (rt_entries t') = length (rt_entries t)"
    and others: "\<And>k. k \<noteq> h \<Longrightarrow> rt_entries t' ! k = rt_entries t ! k \<and> outsOf k t' = outsOf k t \<and>
      (\<forall>x. (k, x) \<in> set (rt_timers t') \<longleftrightarrow> (k, x) \<in> set (rt_timers t))"
    and ident: "pr_id (rt_entries t' ! h) = pr_id (rt_entries t ! h)"
    and here: "entry_ok h t'"
    and map: "js_map_ok (rt_pending t')" "set (rt_pending t') \<subseteq> set (rt_pending t)"
    and outs: "\<And>x. x \<in> set (rt_out t') \<Longrightarrow> x \<in> set (rt_out t) \<or> outHandle x = h"
  shows "rpc_ok t'"
proof -
  have "entry_ok k t'" if "k < length (rt_entries t)" for k
  proof (cases "k = h")
    case False
    from ok that have "entry_ok k t" by (simp add: rpc_ok_def)
    with others [OF False] show ?thesis by (simp add: entry_ok_def)
  qed (use here in simp)
  moreover have "k < length (rt_entries t)" if "(k, x) \<in> set (rt_timers t')" for k x
    using that others [of k] h ok by (cases "k = h") (auto simp: rpc_ok_def)
  moreover have "pr_id (rt_entries t' ! k) = pr_id (rt_entries t ! k)" for k
    using others [of k] ident by (cases "k = h") auto
  ultimately show ?thesis using ok h map outs by (fastforce simp: rpc_ok_def len)
qed

lemma finishCall_simps:
  assumes "h < length (rt_entries t)"
    and t'_def: "t' = snd (finishCall raises rpcId h final promise callback t)"
  shows "length (rt_entries t') = length (rt_entries t)"
    and "k \<noteq> h \<Longrightarrow> rt_entries t' ! k = rt_entries t ! k"
    and "pr_id (rt_entries t' ! h) = pr_id (rt_entries t ! h)"
    and "pr_state (rt_entries t' ! h) =
      (if pr_state (rt_entries t ! h) \<in> {rpc_pending, rpc_detached} then final else pr_state (rt_entries t ! h))"
    and "rt_timers t' = rt_timers (clearTimers h t)"
    and "rt_out t' = rt_out t @
      (if pr_state (rt_entries t ! h) = rpc_pending then [promise]
       else if pr_state (rt_entries t ! h) = rpc_detached \<and> rt_detachedCallback t then [callback] else [])"
    and "rt_pending t' = rt_pending t \<or> rt_pending t' = js_delete rpcId (rt_pending t)"
  using assms
  by (auto simp: t'_def finishCall_def settleEntry_def Let_def clearTimers_entries split: prod.split bool.split)

lemma outsOf_append: "rt_out t' = rt_out t @ xs \<Longrightarrow> outsOf k t' = outsOf k t @ filter (\<lambda>x. outHandle x = k) xs"
  by (simp add: outsOf_def)

lemma rpc_ok_finish:
  assumes ok: "rpc_ok t" and h: "h < length (rt_entries t)"
    and final: "final \<in> {rpc_completed, rpc_failed}"
    and promise: "(\<exists>v. promise = Resolved h (ResultReply v)) \<or> (\<exists>e. promise = Rejected h e)"
    and callback: "callback = DetachedComplete h i v e"
  shows "rpc_ok (snd (finishCall raises rpcId h final promise callback t))"
proof (rule rpc_ok_local [OF ok h])
  let ?t = "snd (finishCall raises rpcId h final promise callback t)"
  note eff = finishCall_simps [OF h refl, where raises = raises and rpcId = rpcId and final = final and promise = promise
      and callback = callback]
  note outs = outsOf_append [OF eff(6)]
  have handles: "outHandle promise = h" "outHandle callback = h" using promise callback by auto
  show "length (rt_entries ?t) = length (rt_entries t)" "pr_id (rt_entries ?t ! h) = pr_id (rt_entries t ! h)"
    by (rule eff)+
  show "rt_entries ?t ! k = rt_entries t ! k \<and> outsOf k ?t = outsOf k t \<and>
      (\<forall>x. (k, x) \<in> set (rt_timers ?t) \<longleftrightarrow> (k, x) \<in> set (rt_timers t))" if "k \<noteq> h" for k
    using eff(2) [OF that] eff(5) that handles clearTimers_entries(2) [OF h]
    by (auto simp: outs)
  show "js_map_ok (rt_pending ?t)" "set (rt_pending ?t) \<subseteq> set (rt_pending t)"
    using eff(7) ok by (auto simp: rpc_ok_def jsm.ok_remove set_js_delete)
  show "x \<in> set (rt_out t) \<or> outHandle x = h" if "x \<in> set (rt_out ?t)" for x
    using that handles by (auto simp: eff(6) split: if_splits)
  have here: "entry_ok h t" using ok h by (simp add: rpc_ok_def)
  have timers: "(h, InitialTimer) \<notin> set (rt_timers ?t)" "(h, MaxTimer) \<notin> set (rt_timers ?t)"
    using here clearTimers_entries(2) [OF h] by (auto simp: eff(5) entry_ok_def view_ok_def Let_def split: RPCState.splits)
  show "entry_ok h ?t"
  proof (cases "pr_state (rt_entries t ! h) \<in> {rpc_pending, rpc_detached}")
    case True
    then have state: "pr_state (rt_entries ?t ! h) = final" by (simp add: eff(4))
    have "outsOf h ?t = outsOf h t @
        (if pr_state (rt_entries t ! h) = rpc_pending then [promise]
         else if pr_state (rt_entries t ! h) = rpc_detached \<and> rt_detachedCallback t then [callback] else [])"
      by (simp add: outs handles)
    then have "finished_outs h (outsOf h ?t)"
      using True here promise callback
      by (auto simp: entry_ok_def view_ok_def finished_outs_def)
    with state final timers show ?thesis by (auto simp: entry_ok_def view_ok_def Let_def)
  next
    case False
    then have "pr_state (rt_entries ?t ! h) = pr_state (rt_entries t ! h)" "outsOf h ?t = outsOf h t"
      by (auto simp: eff(4) outs)
    with False here timers show ?thesis
      by (auto simp: entry_ok_def view_ok_def Let_def split: RPCState.splits)
  qed
qed

lemma finishCall_length:
  "h < length (rt_entries t) \<Longrightarrow>
     length (rt_entries (snd (finishCall raises rpcId h final promise callback t))) = length (rt_entries t)"
  by (rule finishCall_simps(1) [OF _ refl])

lemma rpc_ok_pending: "rpc_ok t \<Longrightarrow> js_get (rt_pending t) rpcId = Some h \<Longrightarrow> h < length (rt_entries t)"
  by (auto simp: rpc_ok_def dest!: map_of_SomeD)

lemma rpc_ok_resolve: "rpc_ok t \<Longrightarrow> rpc_ok (snd (rpc_resolve raises rpcId v t))"
  by (auto simp: rpc_resolve_def split: option.split intro!: rpc_ok_finish dest: rpc_ok_pending)

lemma rpc_ok_fail: "rpc_ok t \<Longrightarrow> rpc_ok (snd (rpc_fail raises rpcId err t))"
  by (auto simp: rpc_fail_def split: option.split intro!: rpc_ok_finish dest: rpc_ok_pending)

lemma rpc_ok_failEach:
  "rpc_ok t \<Longrightarrow> \<forall>x \<in> set xs. snd x < length (rt_entries t) \<Longrightarrow> rpc_ok (snd (failEach raises sidecarId reason xs t))"
proof (induction xs arbitrary: t)
  case (Cons x xs)
  obtain rpcId h where x: "x = (rpcId, h)" by (cases x)
  let ?r = "finishCall raises rpcId h rpc_failed (Rejected h (SidecarDisconnected reason))
                   (DetachedComplete h rpcId None (Some (SidecarDisconnected reason))) t"
  from Cons.prems x have h: "h < length (rt_entries t)" by simp
  have ok: "rpc_ok (snd ?r)" by (rule rpc_ok_finish [OF Cons.prems(1) h]) auto
  moreover have "length (rt_entries (snd ?r)) = length (rt_entries t)" using h by (rule finishCall_length)
  ultimately have "rpc_ok (snd (failEach raises sidecarId reason xs (snd ?r)))" using Cons by auto
  with ok Cons x show ?case by (auto split: prod.split bool.split)
qed simp

lemma rpc_ok_dispatch:
  assumes "rpc_ok t"
  shows "rpc_ok (rpc_dispatch rpcId sidecarId mname now t)"
proof -
  let ?h = "length (rt_entries t)" and ?t = "rpc_dispatch rpcId sidecarId mname now t"
  have "entry_ok k ?t" if "k < Suc ?h" for k
  proof (cases "k = ?h")
    case True
    have "outsOf ?h t = []" "(?h, x) \<notin> set (rt_timers t)" for x
      using assms by (fastforce simp: rpc_ok_def outsOf_def filter_empty_conv)+
    then show ?thesis by (simp add: True entry_ok_def view_ok_def rpc_dispatch_def Let_def outsOf_def)
  next
    case False
    with that assms have "k < ?h" "entry_ok k t" by (auto simp: rpc_ok_def)
    then show ?thesis by (simp add: entry_ok_def rpc_dispatch_def Let_def outsOf_def nth_append)
  qed
  moreover have "set (rt_pending ?t) \<subseteq> insert (rpcId, ?h) (set (rt_pending t))"
  proof -
    have "set (js_set rpcId ?h m) \<subseteq> insert (rpcId, ?h) (set m)" for m :: "(string \<times> nat) list"
      by (induction m) auto
    then show ?thesis by (simp add: rpc_dispatch_def Let_def)
  qed
  ultimately show ?thesis using assms
    by (fastforce simp: rpc_ok_def rpc_dispatch_def Let_def jsm.ok_set nth_append)
qed

lemma rpc_ok_fireInitial: "rpc_ok t \<Longrightarrow> rpc_ok (fireInitial h t)"
proof (cases "(h, InitialTimer) \<in> set (rt_timers t)")
  case True
  assume ok: "rpc_ok t"
  with True have h: "h < length (rt_entries t)" and here: "entry_ok h t" by (auto simp: rpc_ok_def)
  with True have state: "pr_state (rt_entries t ! h) = rpc_pending"
    by (auto simp: entry_ok_def view_ok_def Let_def split: RPCState.splits)
  show ?thesis
  proof (rule rpc_ok_local [OF ok h])
    show "entry_ok h (fireInitial h t)"
      using here True h state by (auto simp: fireInitial_def Let_def entry_ok_def view_ok_def)
  qed (use True h ok state in \<open>auto simp: fireInitial_def Let_def rpc_ok_def\<close>)
qed (simp add: fireInitial_def)

lemma rpc_ok_fireMax: "rpc_ok t \<Longrightarrow> rpc_ok (fireMax h t)"
proof (cases "(h, MaxTimer) \<in> set (rt_timers t)")
  case True
  assume ok: "rpc_ok t"
  with True have h: "h < length (rt_entries t)" and here: "entry_ok h t" by (auto simp: rpc_ok_def)
  with True have state: "pr_state (rt_entries t ! h) = rpc_detached"
    by (auto simp: entry_ok_def view_ok_def Let_def split: RPCState.splits)
  show ?thesis
  proof (rule rpc_ok_local [OF ok h])
    show "entry_ok h (fireMax h t)"
      using here True h state by (auto simp: fireMax_def Let_def entry_ok_def view_ok_def)
  qed (use True h ok state in \<open>auto simp: fireMax_def Let_def rpc_ok_def jsm.ok_remove set_js_delete\<close>)
qed (simp add: fireMax_def)

lemma rpc_ok_op: "rpc_ok t \<Longrightarrow> rpc_ok (rpcOp raises op t)"
proof (cases op)
  case RpcListen
  assume "rpc_ok t"
  with RpcListen show ?thesis by (simp add: rpc_ok_def onDetachedComplete_def entry_ok_def outsOf_def)
next
  case (RpcFailAll sidecarId reason)
  assume "rpc_ok t"
  with RpcFailAll show ?thesis
    by (auto simp: rpc_failAll_def rpc_ok_def [of t] intro!: rpc_ok_failEach)
qed (simp_all add: rpc_ok_dispatch rpc_ok_resolve rpc_ok_fail rpc_ok_fireInitial rpc_ok_fireMax)

lemma rpc_ok_run: "rpc_ok t \<Longrightarrow> rpc_ok (rpcRun raises ops t)"
  unfolding rpcRun_def by (induction ops arbitrary: t) (auto simp: rpc_ok_op simp del: rpcOp.simps)

lemma rpc_ok_new [simp]: "rpc_ok newTracker"
  by (simp add: rpc_ok_def newTracker_def)


section \<open>The life of a call\<close>

text \<open>C34: a call is answered once.  After any run, the owner of a call has seen nothing while it is pending, and
  then its timer is armed; only the detached answer while it is detached, and then its long timer is armed; and
  afterwards either one result, or one error, or the detached answer followed by at most one completion.\<close>

theorem rpc_answered_once:
  assumes "h < length (rt_entries (rpcRun raises ops newTracker))"
  shows "let t = rpcRun raises ops newTracker; e = rt_entries t ! h in
    (pr_state e = rpc_pending \<longrightarrow> outsOf h t = [] \<and> (h, InitialTimer) \<in> set (rt_timers t)) \<and>
    (pr_state e = rpc_detached \<longrightarrow> outsOf h t = [Resolved h DetachedReply] \<and> (h, MaxTimer) \<in> set (rt_timers t)) \<and>
    (pr_state e \<notin> {rpc_pending, rpc_detached} \<longrightarrow> finished_outs h (outsOf h t))"
proof -
  have "rpc_ok (rpcRun raises ops newTracker)" by (rule rpc_ok_run) simp
  with assms have "entry_ok h (rpcRun raises ops newTracker)" by (simp add: rpc_ok_def)
  then show ?thesis
    by (auto simp: entry_ok_def view_ok_def Let_def finished_outs_def split: RPCState.splits)
qed

theorem rpc_answered_once_witness:
  "outsOf 0 (rpcRun (\<lambda>_. False) [RpcDispatch ''r'' ''s'' ''m'' 0 :: nat RpcOp] newTracker) = []"
proof -
  let ?t = "rpcRun (\<lambda>_. False) [RpcDispatch ''r'' ''s'' ''m'' 0 :: nat RpcOp] newTracker"
  have "length (rt_entries ?t) = 1" "pr_state (rt_entries ?t ! 0) = rpc_pending"
    by (simp_all add: rpcRun_def rpc_dispatch_def newTracker_def)
  with rpc_answered_once [of 0 "\<lambda>_. False" "[RpcDispatch ''r'' ''s'' ''m'' 0 :: nat RpcOp]"]
  show ?thesis by (simp add: Let_def)
qed

text \<open>
  Calls under fresh ids, with a callback that does not throw: the map holds exactly the calls that are still
  open, so nothing leaks.
\<close>

definition freshOp :: "'v RpcOp \<Rightarrow> 'v RPCTracker \<Rightarrow> bool" where
  "freshOp op t = (case op of RpcDispatch rpcId _ _ _ \<Rightarrow> \<forall>e \<in> set (rt_entries t). pr_id e \<noteq> rpcId | _ \<Rightarrow> True)"

fun freshRun :: "('v RpcOut \<Rightarrow> bool) \<Rightarrow> 'v RpcOp list \<Rightarrow> 'v RPCTracker \<Rightarrow> bool" where
  "freshRun raises [] t = True"
| "freshRun raises (op # ops) t = (freshOp op t \<and> freshRun raises ops (rpcOp raises op t))"

definition open_state :: "RPCState \<Rightarrow> bool" where
  "open_state st = (st = rpc_pending \<or> st = rpc_detached)"

definition map_exact :: "'v RPCTracker \<Rightarrow> bool" where
  "map_exact t = (distinct (map pr_id (rt_entries t)) \<and>
     (\<forall>h < length (rt_entries t). open_state (pr_state (rt_entries t ! h)) \<longleftrightarrow>
        js_get (rt_pending t) (pr_id (rt_entries t ! h)) = Some h))"

lemma map_exact_close:
  assumes ok: "rpc_ok t" and ex: "map_exact t" and h: "h < length (rt_entries t)"
    and id: "pr_id (rt_entries t ! h) = rpcId"
    and len: "length (rt_entries t') = length (rt_entries t)"
    and others: "\<And>k. k \<noteq> h \<Longrightarrow> rt_entries t' ! k = rt_entries t ! k"
    and here: "pr_id (rt_entries t' ! h) = rpcId" "\<not> open_state (pr_state (rt_entries t' ! h))"
    and map: "rt_pending t' = js_delete rpcId (rt_pending t)"
  shows "map_exact t'"
proof -
  have ids: "map pr_id (rt_entries t') = map pr_id (rt_entries t)"
  proof (rule nth_equalityI)
    fix k assume "k < length (map pr_id (rt_entries t'))"
    then show "map pr_id (rt_entries t') ! k = map pr_id (rt_entries t) ! k"
      using others [of k] here(1) id len by (cases "k = h") auto
  qed (simp add: len)
  have "pr_id (rt_entries t ! k) \<noteq> rpcId" if "k < length (rt_entries t)" "k \<noteq> h" for k
    using ex that h id nth_eq_iff_index_eq [of "map pr_id (rt_entries t)" k h] by (auto simp: map_exact_def)
  with ex others here show ?thesis
    unfolding map_exact_def ids len map
    by (metis (no_types, lifting) jsm.get_remove option.distinct(1))
qed

lemma map_exact_finish:
  assumes ok: "rpc_ok t" and ex: "map_exact t" and get: "js_get (rt_pending t) rpcId = Some h"
    and final: "final \<in> {rpc_completed, rpc_failed}" and raises: "raises = (\<lambda>_. False)"
  shows "map_exact (snd (finishCall raises rpcId h final promise callback t))"
proof -
  from ok get have h: "h < length (rt_entries t)" "pr_id (rt_entries t ! h) = rpcId"
    by (auto simp: rpc_ok_def dest!: map_of_SomeD)
  note eff = finishCall_simps [OF h(1) refl, where raises = raises and rpcId = rpcId and final = final
      and promise = promise and callback = callback]
  have "rt_pending (snd (finishCall raises rpcId h final promise callback t)) = js_delete rpcId (rt_pending t)"
    using raises by (auto simp: finishCall_def settleEntry_def Let_def split: prod.split bool.split)
  moreover have "open_state (pr_state (rt_entries t ! h))"
    using ex h get by (auto simp: map_exact_def)
  ultimately show ?thesis using h final
    by (intro map_exact_close [OF ok ex h]) (auto simp: eff(1,2,3,4) open_state_def)
qed


lemma map_exact_failEach:
  assumes "rpc_ok t" "map_exact t" "raises = (\<lambda>_. False)" "distinct (map fst xs)"
    "\<forall>(k, h) \<in> set xs. js_get (rt_pending t) k = Some h"
  shows "map_exact (snd (failEach raises sidecarId reason xs t))"
  using assms
proof (induction xs arbitrary: t)
  case (Cons x xs)
  obtain rpcId h where x: "x = (rpcId, h)" by (cases x)
  let ?r = "finishCall raises rpcId h rpc_failed (Rejected h (SidecarDisconnected reason))
                   (DetachedComplete h rpcId None (Some (SidecarDisconnected reason))) t"
  from Cons.prems x have get: "js_get (rt_pending t) rpcId = Some h" by simp
  then have h: "h < length (rt_entries t)" using Cons.prems(1) by (rule rpc_ok_pending [rotated])
  have "fst ?r = False" using Cons.prems(3)
    by (auto simp: finishCall_def settleEntry_def Let_def split: prod.split bool.split)
  moreover have "map_exact (snd (failEach raises sidecarId reason xs (snd ?r)))"
  proof (rule Cons.IH)
    show "rpc_ok (snd ?r)" by (rule rpc_ok_finish [OF Cons.prems(1) h]) auto
    show "map_exact (snd ?r)" using Cons.prems get by (intro map_exact_finish) auto
    have "rt_pending (snd ?r) = js_delete rpcId (rt_pending t)"
      using Cons.prems(3) by (auto simp: finishCall_def settleEntry_def Let_def split: prod.split bool.split)
    then show "\<forall>(k, h) \<in> set xs. js_get (rt_pending (snd ?r)) k = Some h"
      using Cons.prems(4,5) x by (force simp: jsmap_simps)
  qed (use Cons.prems in auto)
  moreover have "map_exact (snd (failEach raises sidecarId reason xs t))"
    by (rule Cons.IH) (use Cons.prems in auto)
  ultimately show ?case by (cases ?r) (auto simp: x)
qed simp

lemma map_exact_dispatch:
  assumes ok: "rpc_ok t" and ex: "map_exact t" and fresh: "\<forall>e \<in> set (rt_entries t). pr_id e \<noteq> rpcId"
  shows "map_exact (rpc_dispatch rpcId sidecarId mname now t)"
  using assms
  by (auto simp: map_exact_def rpc_dispatch_def Let_def open_state_def nth_append jsmap_simps less_Suc_eq
      dest: nth_mem)

lemma map_exact_fireInitial:
  assumes "rpc_ok t" "map_exact t"
  shows "map_exact (fireInitial h t)"
proof (cases "(h, InitialTimer) \<in> set (rt_timers t)")
  case True
  with assms have h: "h < length (rt_entries t)" and "entry_ok h t" by (auto simp: rpc_ok_def)
  with True have state: "pr_state (rt_entries t ! h) = rpc_pending"
    by (auto simp: entry_ok_def view_ok_def split: RPCState.splits)
  let ?t = "fireInitial h t"
  have e: "rt_entries ?t ! k = (if k = h then (rt_entries t ! h)\<lparr>pr_state := rpc_detached,
      pr_initialTimer := False, pr_maxTimer := True\<rparr> else rt_entries t ! k)" for k
    using True h state by (auto simp: fireInitial_def Let_def)
  have l: "length (rt_entries ?t) = length (rt_entries t)" "rt_pending ?t = rt_pending t"
    using True h state by (auto simp: fireInitial_def Let_def)
  have "map pr_id (rt_entries ?t) = map pr_id (rt_entries t)"
    by (rule nth_equalityI) (auto simp: l e)
  with assms(2) state h show ?thesis
    by (auto simp: map_exact_def l e open_state_def)
qed (simp add: fireInitial_def assms)

lemma map_exact_fireMax:
  assumes "rpc_ok t" "map_exact t"
  shows "map_exact (fireMax h t)"
proof (cases "(h, MaxTimer) \<in> set (rt_timers t)")
  case True
  with assms have h: "h < length (rt_entries t)" and "entry_ok h t" by (auto simp: rpc_ok_def)
  with True have state: "pr_state (rt_entries t ! h) = rpc_detached"
    by (auto simp: entry_ok_def view_ok_def split: RPCState.splits)
  show ?thesis
    by (rule map_exact_close [OF assms h refl])
      (use True h state in \<open>auto simp: fireMax_def Let_def open_state_def\<close>)
qed (simp add: fireMax_def assms)

lemma map_exact_op:
  assumes ok: "rpc_ok t" and ex: "map_exact t" and fresh: "freshOp op t" and raises: "raises = (\<lambda>_. False)"
  shows "map_exact (rpcOp raises op t)"
proof (cases op)
  case RpcListen
  with ex show ?thesis by (simp add: map_exact_def onDetachedComplete_def)
next
  case (RpcDispatch rpcId sidecarId mname now)
  with map_exact_dispatch [OF ok ex] fresh show ?thesis by (simp add: freshOp_def)
next
  case (RpcResolve rpcId v)
  with map_exact_finish [OF ok ex _ _ raises] ex show ?thesis
    by (auto simp: rpc_resolve_def split: option.split)
next
  case (RpcFail rpcId err)
  with map_exact_finish [OF ok ex _ _ raises] ex show ?thesis
    by (auto simp: rpc_fail_def split: option.split)
next
  case (RpcFailAll sidecarId reason)
  have "distinct (map fst (rt_pending t))" "\<forall>(k, h) \<in> set (rt_pending t). js_get (rt_pending t) k = Some h"
    using ok by (auto simp: rpc_ok_def js_map_ok_def)
  with map_exact_failEach [OF ok ex raises] RpcFailAll show ?thesis by (simp add: rpc_failAll_def)
qed (simp_all add: map_exact_fireInitial [OF ok ex] map_exact_fireMax [OF ok ex])

lemma map_exact_run:
  assumes "rpc_ok t" "map_exact t" "freshRun raises ops t" "raises = (\<lambda>_. False)"
  shows "map_exact (rpcRun raises ops t)"
  using assms
proof (induction ops arbitrary: t)
  case (Cons op ops)
  then have "map_exact (rpcOp raises op t)" "rpc_ok (rpcOp raises op t)"
    using map_exact_op [of t op raises] rpc_ok_op [of t raises op] by auto
  with Cons show ?case by (simp add: rpcRun_def)
qed (simp add: rpcRun_def)

text \<open>no call leaks and none is forgotten.  As long as ids are fresh and the callback does not throw, after any
  run the map finds exactly the calls that are still open, under their own id; so when every timer has fired
  nothing is left.\<close>

theorem rpc_map_exact:
  assumes "freshRun (\<lambda>_. False) ops newTracker"
  shows "let t = rpcRun (\<lambda>_. False) ops newTracker in
    (\<forall>h < length (rt_entries t). open_state (pr_state (rt_entries t ! h)) \<longleftrightarrow>
        js_get (rt_pending t) (pr_id (rt_entries t ! h)) = Some h) \<and>
    (rt_timers t = [] \<longrightarrow> rpc_size t = 0)"
proof -
  let ?t = "rpcRun (\<lambda>_. False) ops newTracker"
  have ok: "rpc_ok ?t" by (rule rpc_ok_run) simp
  have ex: "map_exact ?t" by (rule map_exact_run [OF _ _ assms refl]) (simp, simp add: map_exact_def newTracker_def)
  have "rt_pending ?t = []" if none: "rt_timers ?t = []"
  proof (rule ccontr)
    assume "rt_pending ?t \<noteq> []"
    then obtain k h rest where "rt_pending ?t = (k, h) # rest" by (cases "rt_pending ?t") auto
    then have get: "js_get (rt_pending ?t) k = Some h" and mem: "(k, h) \<in> set (rt_pending ?t)" by simp_all
    from ok mem have h: "h < length (rt_entries ?t)" "pr_id (rt_entries ?t ! h) = k" by (auto simp: rpc_ok_def)
    with ex get have "open_state (pr_state (rt_entries ?t ! h))" by (auto simp: map_exact_def)
    moreover have "entry_ok h ?t" using ok h by (simp add: rpc_ok_def)
    ultimately show False using none by (auto simp: open_state_def entry_ok_def view_ok_def)
  qed
  with ex show ?thesis by (simp add: Let_def map_exact_def rpc_size_def)
qed

theorem rpc_map_exact_witness:
  "rpc_size (rpcRun (\<lambda>_. False) [RpcDispatch ''r'' ''s'' ''m'' 0, RpcInitial 0, RpcMax 0 :: nat RpcOp] newTracker) = 0"
proof -
  let ?ops = "[RpcDispatch ''r'' ''s'' ''m'' 0, RpcInitial 0, RpcMax 0 :: nat RpcOp]"
  have "rt_timers (rpcRun (\<lambda>_. False) ?ops newTracker) = []"
    by (simp add: rpcRun_def rpc_dispatch_def newTracker_def fireInitial_def fireMax_def updEntry_def emit_def Let_def)
  with rpc_map_exact [of ?ops] show ?thesis
    by (simp add: freshOp_def newTracker_def Let_def)
qed

text \<open>a callback that throws leaks its call.  When the completion of a detached call reaches a callback that throws, the
  error leaves \<open>resolve\<close> before the entry is removed: the call is completed, yet the map keeps it with no timer
  armed, and no later result or failure calls the callback for it again.\<close>

theorem rpc_callback_throw_leaks:
  assumes "rpc_ok t" "js_get (rt_pending t) rpcId = Some h" "pr_state (rt_entries t ! h) = rpc_detached"
    and "rt_detachedCallback t" "raises (DetachedComplete h rpcId (Some v) None)"
    and "t' = snd (rpc_resolve raises rpcId v t)"
  shows "fst (rpc_resolve raises rpcId v t) \<and> pr_state (rt_entries t' ! h) = rpc_completed \<and>
    js_get (rt_pending t') rpcId = Some h \<and> (h, InitialTimer) \<notin> set (rt_timers t') \<and> (h, MaxTimer) \<notin> set (rt_timers t')"
proof -
  have h: "h < length (rt_entries t)" using assms(1,2) by (rule rpc_ok_pending)
  have ok: "rpc_ok t'" unfolding assms(6) by (rule rpc_ok_resolve [OF assms(1)])
  note eff = finishCall_simps [OF h refl, where raises = raises and rpcId = rpcId and final = rpc_completed
      and promise = "Resolved h (ResultReply v)" and callback = "DetachedComplete h rpcId (Some v) None"]
  have t': "t' = snd (finishCall raises rpcId h rpc_completed (Resolved h (ResultReply v))
      (DetachedComplete h rpcId (Some v) None) t)" using assms(2,6) by (simp add: rpc_resolve_def)
  have st: "pr_state (rt_entries t' ! h) = rpc_completed" "length (rt_entries t') = length (rt_entries t)"
    unfolding t' eff(1) eff(4) using assms(3) by simp_all
  have "entry_ok h t'" using ok h st(2) by (simp add: rpc_ok_def)
  with st have "(h, InitialTimer) \<notin> set (rt_timers t')" "(h, MaxTimer) \<notin> set (rt_timers t')"
    by (simp_all add: entry_ok_def view_ok_def)
  moreover have finish: "finishCall raises rpcId h rpc_completed (Resolved h (ResultReply v))
      (DetachedComplete h rpcId (Some v) None) t =
      (True, emit (DetachedComplete h rpcId (Some v) None)
         (updEntry h (\<lambda>e. e\<lparr>pr_state := rpc_completed\<rparr>) (clearTimers h t)))"
    using assms(3-5) h by (simp add: finishCall_def settleEntry_def clearTimers_entries)
  moreover have "fst (rpc_resolve raises rpcId v t) \<and> js_get (rt_pending t') rpcId = Some h"
    using assms(2,6) by (simp add: rpc_resolve_def finish)
  ultimately show ?thesis using st by simp
qed

definition detached_call :: "nat RPCTracker" where
  "detached_call = rpcRun (\<lambda>_. True) [RpcListen, RpcDispatch ''r'' ''s'' ''m'' 0, RpcInitial 0] newTracker"

theorem rpc_callback_throw_leaks_witness:
  "js_get (rt_pending (snd (rpc_resolve (\<lambda>_. True) ''r'' 5 detached_call))) ''r'' = Some 0"
proof -
  have "rpc_ok detached_call" unfolding detached_call_def by (rule rpc_ok_run) simp
  moreover have "js_get (rt_pending detached_call) ''r'' = Some 0" "rt_detachedCallback detached_call"
    "pr_state (rt_entries detached_call ! 0) = rpc_detached"
    by (simp_all add: detached_call_def rpcRun_def rpc_dispatch_def newTracker_def fireInitial_def updEntry_def emit_def
        onDetachedComplete_def Let_def)
  ultimately show ?thesis
    using rpc_callback_throw_leaks [of detached_call "''r''" 0 "\<lambda>_. True" 5] by simp
qed

end
