(* ===== verification/Workflow_Db.thy ===== *)
theory Workflow_Db
  imports Json "HOL-Library.Char_ord" "HOL-Library.List_Lexorder" "HOL-Library.Product_Lexorder"
begin

text \<open>
  The tables the workflow runtime shares: flow runs (\<^verbatim>\<open>src/workflows/db/repos/flow-run.ts\<close>), queue jobs
  (row type of \<^verbatim>\<open>job-queue.ts\<close>), waitpoints (\<^verbatim>\<open>waitpoint.ts\<close>), cancellations (\<^verbatim>\<open>run-cancellation.ts\<close>,
  \<^verbatim>\<open>runtime/cancellation.ts\<close>) and the delegation logs a cancellation drops.  The database is the record
  \<open>WorkflowDb\<close>, a table the list of its rows in rowid order.  Fresh ids and the clock are arguments; an
  \<^verbatim>\<open>INSERT\<close> under a taken primary key raises.  Columns that hold JSON the code itself serialised are kept
  as the value, except the payload of a job, whose text the code also expects to be malformed.  The
  runs announced on the cancellation bus are appended to \<open>wd_signals\<close>.
\<close>


section \<open>Rows\<close>

datatype FlowRunStatus =
    run_queued | run_running | run_succeeded | run_failed | run_paused | run_timeout | run_internal_error
  | run_quota_exceeded | run_stopped | run_memory_limit_exceeded | run_schedule_failure

fun run_status_name :: "FlowRunStatus \<Rightarrow> string" where
  "run_status_name run_queued = ''QUEUED''"
| "run_status_name run_running = ''RUNNING''"
| "run_status_name run_succeeded = ''SUCCEEDED''"
| "run_status_name run_failed = ''FAILED''"
| "run_status_name run_paused = ''PAUSED''"
| "run_status_name run_timeout = ''TIMEOUT''"
| "run_status_name run_internal_error = ''INTERNAL_ERROR''"
| "run_status_name run_quota_exceeded = ''QUOTA_EXCEEDED''"
| "run_status_name run_stopped = ''STOPPED''"
| "run_status_name run_memory_limit_exceeded = ''MEMORY_LIMIT_EXCEEDED''"
| "run_status_name run_schedule_failure = ''SCHEDULE_FAILURE''"

text \<open>The statuses every guarded write of a run looks for: \<^verbatim>\<open>('QUEUED', 'RUNNING', 'PAUSED')\<close>.\<close>

definition run_open :: "FlowRunStatus \<Rightarrow> bool" where
  "run_open s = (s \<in> {run_queued, run_running, run_paused})"

datatype RunEnvironment = env_production | env_testing

record FailedStep =
  fs_name :: string
  fs_displayName :: string
  fs_errorMessage :: "string option"

type_synonym json_object = "(string, json) jsmap"

record FlowRunRow =
  fr_id :: string
  fr_flow_id :: string
  fr_flow_version_id :: string
  fr_project_id :: string
  fr_parent_run_id :: "string option"
  fr_fail_parent_on_failure :: bool
  fr_triggered_by :: "string option"
  fr_status :: FlowRunStatus
  fr_environment :: RunEnvironment
  fr_steps :: "json_object option"
  fr_failed_step :: "FailedStep option"
  fr_step_name_to_test :: "string option"
  fr_execution_config :: "json option"
  fr_start_time :: "int option"
  fr_finish_time :: "int option"
  fr_archived_at :: "int option"
  fr_steps_count :: "nat option"
  fr_logs_file_id :: "string option"
  fr_tags :: "string list option"
  fr_created :: int
  fr_updated :: int

datatype JobStatus = job_queued | job_running | job_succeeded | job_failed | job_canceled

definition job_active :: "JobStatus \<Rightarrow> bool" where
  "job_active s = (s \<in> {job_queued, job_running})"

record JobRow =
  jr_id :: string
  jr_job_type :: string
  jr_flow_run_id :: "string option"
  jr_flow_id :: "string option"
  jr_flow_version_id :: "string option"
  jr_payload :: string
  jr_priority :: int
  jr_status :: JobStatus
  jr_attempt :: nat
  jr_max_attempts :: nat
  jr_locked_until :: "int option"
  jr_scheduled_at :: int
  jr_last_error :: "string option"
  jr_created :: int
  jr_updated :: int

datatype WaitpointType = wp_webhook | wp_timer | wp_manual

record Waitpoint =
  wp_id :: string
  wp_flow_run_id :: string
  wp_project_id :: string
  wp_step_name :: string
  wp_type :: WaitpointType
  wp_version :: string
  wp_resume_date_time :: "string option"
  wp_response_to_send :: "json option"
  wp_worker_handler_id :: "string option"
  wp_http_request_id :: "string option"
  wp_created :: int
  wp_resumed_at :: "int option"

record RunCancellation =
  rc_runId :: string
  rc_acknowledgedAt :: int
  rc_statusAtRequest :: FlowRunStatus
  rc_inFlightMayHaveCompleted :: bool

record DelegationRow =
  dg_id :: string
  dg_run_id :: string

record WorkflowDb =
  wd_runs :: "FlowRunRow list"
  wd_jobs :: "JobRow list"
  wd_waitpoints :: "Waitpoint list"
  wd_cancellations :: "RunCancellation list"
  wd_delegations :: "DelegationRow list"
  wd_signals :: "string list"

definition emptyDb :: WorkflowDb where
  "emptyDb = \<lparr> wd_runs = [], wd_jobs = [], wd_waitpoints = [], wd_cancellations = [], wd_delegations = [],
     wd_signals = [] \<rparr>"

datatype WfError = UniqueFailed string | WfThrew string


section \<open>Flow runs\<close>

definition getRunCancellation :: "WorkflowDb \<Rightarrow> string \<Rightarrow> RunCancellation option" where
  "getRunCancellation db runId = sql_get rc_runId runId (wd_cancellations db)"

definition getFlowRun :: "WorkflowDb \<Rightarrow> string \<Rightarrow> FlowRunRow option" where
  "getFlowRun db runId = sql_get fr_id runId (wd_runs db)"

record CreateFlowRunInput =
  cri_flowId :: string
  cri_flowVersionId :: string
  cri_projectId :: "string option"
  cri_parentRunId :: "string option"
  cri_failParentOnFailure :: bool
  cri_triggeredBy :: "string option"
  cri_environment :: "RunEnvironment option"
  cri_status :: "FlowRunStatus option"
  cri_startTime :: "int option"
  cri_stepNameToTest :: "string option"
  cri_tags :: "string list option"

definition DEFAULT_PROJECT :: string where
  "DEFAULT_PROJECT = ''jrv_proj_default''"

definition js_or :: "'a option \<Rightarrow> 'a \<Rightarrow> 'a" where
  "js_or x d = (case x of None \<Rightarrow> d | Some v \<Rightarrow> v)"

definition createFlowRun :: "string \<Rightarrow> int \<Rightarrow> CreateFlowRunInput \<Rightarrow> WorkflowDb \<Rightarrow> (WfError + FlowRunRow) \<times> WorkflowDb" where
  "createFlowRun runId ts input db =
     (if getFlowRun db runId \<noteq> None then (Inl (UniqueFailed ''flow_run.id''), db)
      else let row = \<lparr> fr_id = runId, fr_flow_id = cri_flowId input, fr_flow_version_id = cri_flowVersionId input,
                fr_project_id = js_or (cri_projectId input) DEFAULT_PROJECT,
                fr_parent_run_id = cri_parentRunId input,
                fr_fail_parent_on_failure = cri_failParentOnFailure input, fr_triggered_by = cri_triggeredBy input,
                fr_status = js_or (cri_status input) run_queued,
                fr_environment = js_or (cri_environment input) env_production,
                fr_steps = None, fr_failed_step = None, fr_step_name_to_test = cri_stepNameToTest input,
                fr_execution_config = None, fr_start_time = cri_startTime input, fr_finish_time = None,
                fr_archived_at = None, fr_steps_count = None, fr_logs_file_id = None, fr_tags = cri_tags input,
                fr_created = ts, fr_updated = ts \<rparr>
           in (Inr row, db\<lparr>wd_runs := wd_runs db @ [row]\<rparr>))"

text \<open>An absent field of a patch is \<open>None\<close>, an explicit \<^verbatim>\<open>null\<close> is \<open>Some None\<close>.\<close>

record UpdateRunInput =
  up_status :: "FlowRunStatus option"
  up_steps :: "json_object option option"
  up_failedStep :: "FailedStep option option"
  up_finishTime :: "int option option"
  up_startTime :: "int option"
  up_stepsCount :: "nat option"
  up_logsFileId :: "string option option"

definition noPatch :: UpdateRunInput where
  "noPatch = \<lparr> up_status = None, up_steps = None, up_failedStep = None, up_finishTime = None, up_startTime = None,
     up_stepsCount = None, up_logsFileId = None \<rparr>"

definition js_spread :: "('k, 'v) jsmap \<Rightarrow> ('k, 'v) jsmap \<Rightarrow> ('k, 'v) jsmap" where
  "js_spread a b = fold (\<lambda>(k, v). js_set k v) b a"

text \<open>A late write on a canceled run keeps the stop decision and the recorded outputs.\<close>

definition fencePatch :: "RunCancellation \<Rightarrow> FlowRunRow \<Rightarrow> UpdateRunInput \<Rightarrow> UpdateRunInput" where
  "fencePatch c existing patch =
     (let steps = js_spread (js_or (fr_steps existing) []) (js_or (js_or (up_steps patch) None) [])
      in patch\<lparr>up_status := Some run_stopped, up_finishTime := Some (Some (rc_acknowledgedAt c)),
           up_steps := Some (Some steps),
           up_stepsCount := Some (max (max (js_or (fr_steps_count existing) 0) (js_or (up_stepsCount patch) 0))
                                      (length steps))\<rparr>)"

definition applyPatch :: "int \<Rightarrow> UpdateRunInput \<Rightarrow> FlowRunRow \<Rightarrow> FlowRunRow" where
  "applyPatch now patch r = r\<lparr>
     fr_status := js_or (up_status patch) (fr_status r),
     fr_steps := js_or (up_steps patch) (fr_steps r),
     fr_failed_step := js_or (up_failedStep patch) (fr_failed_step r),
     fr_finish_time := js_or (up_finishTime patch) (fr_finish_time r),
     fr_start_time := (case up_startTime patch of None \<Rightarrow> fr_start_time r | Some t \<Rightarrow> Some t),
     fr_steps_count := (case up_stepsCount patch of None \<Rightarrow> fr_steps_count r | Some n \<Rightarrow> Some n),
     fr_logs_file_id := js_or (up_logsFileId patch) (fr_logs_file_id r),
     fr_updated := now\<rparr>"

definition mapRuns :: "(FlowRunRow \<Rightarrow> FlowRunRow) \<Rightarrow> WorkflowDb \<Rightarrow> WorkflowDb" where
  "mapRuns f db = db\<lparr>wd_runs := map f (wd_runs db)\<rparr>"

definition updateRun :: "int \<Rightarrow> string \<Rightarrow> UpdateRunInput \<Rightarrow> WorkflowDb \<Rightarrow> (WfError + FlowRunRow) \<times> WorkflowDb" where
  "updateRun now runId patch db =
     (case getFlowRun db runId of
        None \<Rightarrow> (Inl (WfThrew (''updateRun: not found (id='' @ runId @ '')'')), db)
      | Some existing \<Rightarrow>
          (let patch' = (case getRunCancellation db runId of
                           None \<Rightarrow> patch | Some c \<Rightarrow> fencePatch c existing patch);
               next' = applyPatch now patch' existing
           in (Inr next', mapRuns (\<lambda>r. if fr_id r = runId then next' else r) db)))"

definition listRuns :: "string option \<Rightarrow> FlowRunStatus option \<Rightarrow> nat option \<Rightarrow> nat option \<Rightarrow> WorkflowDb \<Rightarrow> FlowRunRow list" where
  "listRuns flowId status limit offset db =
     take (js_or limit 50) (drop (js_or offset 0)
       (sql_select_desc (\<lambda>r. (case flowId of None \<Rightarrow> True | Some f \<Rightarrow> fr_flow_id r = f) \<and>
                             (case status of None \<Rightarrow> True | Some s \<Rightarrow> fr_status r = s)) fr_created (wd_runs db)))"


section \<open>Cancellation\<close>

definition RUN_FLOW :: string where
  "RUN_FLOW = ''RUN_FLOW''"

text \<open>
  \<^verbatim>\<open>json_extract(payload, '$.k')\<close> where the payload is valid JSON; only a text value equals a text.  The
  run a job belongs to is its column or, when that is null, the run its payload names.
\<close>

definition payload_text :: "string \<Rightarrow> string \<Rightarrow> string option" where
  "payload_text k payload =
     (case JSON_parse payload of
        None \<Rightarrow> None
      | Some j \<Rightarrow> (case json_get j k of Some (JStr s) \<Rightarrow> Some s | _ \<Rightarrow> None))"

definition jobOfRun :: "string \<Rightarrow> JobRow \<Rightarrow> bool" where
  "jobOfRun runId j = (jr_flow_run_id j = Some runId \<or>
     (jr_flow_run_id j = None \<and> payload_text ''runId'' (jr_payload j) = Some runId))"

record CancelResult =
  cr_accepted :: bool
  cr_jobCanceled :: bool
  cr_cancellation :: "RunCancellation option"

definition deleteDelegations :: "string \<Rightarrow> WorkflowDb \<Rightarrow> WorkflowDb" where
  "deleteDelegations runId db = db\<lparr>wd_delegations := filter (\<lambda>d. dg_run_id d \<noteq> runId) (wd_delegations db)\<rparr>"

definition cancelFlowRun :: "int \<Rightarrow> string \<Rightarrow> WorkflowDb \<Rightarrow> (WfError + CancelResult) \<times> WorkflowDb" where
  "cancelFlowRun ts runId db =
     (case getFlowRun db runId of
        None \<Rightarrow> (Inl (WfThrew (''run not found: '' @ runId)), db)
      | Some run \<Rightarrow>
          if getRunCancellation db runId = None \<and> \<not> run_open (fr_status run) then
            (Inr \<lparr> cr_accepted = False, cr_jobCanceled = False, cr_cancellation = None \<rparr>, db)
          else
            (let c = (case getRunCancellation db runId of
                        Some c \<Rightarrow> c
                      | None \<Rightarrow> \<lparr> rc_runId = runId, rc_acknowledgedAt = ts, rc_statusAtRequest = fr_status run,
                          rc_inFlightMayHaveCompleted = (fr_status run = run_running \<or> fr_start_time run \<noteq> None) \<rparr>);
                 db1 = (if getRunCancellation db runId = None
                        then db\<lparr>wd_cancellations := wd_cancellations db @ [c]\<rparr> else db);
                 jobs = sql_update (\<lambda>j. jr_job_type j = RUN_FLOW \<and> job_active (jr_status j) \<and> jobOfRun runId j)
                          (\<lambda>j. j\<lparr>jr_status := job_canceled, jr_locked_until := None, jr_updated := ts\<rparr>) (wd_jobs db1);
                 db2 = mapRuns (\<lambda>r. if fr_id r = runId then r\<lparr>fr_status := run_stopped,
                           fr_finish_time := Some (rc_acknowledgedAt c), fr_updated := ts\<rparr> else r)
                         (db1\<lparr>wd_jobs := fst jobs\<rparr>);
                 db3 = deleteDelegations runId db2
             in (Inr \<lparr> cr_accepted = True, cr_jobCanceled = (snd jobs > 0), cr_cancellation = Some c \<rparr>,
                 db3\<lparr>wd_signals := wd_signals db3 @ [runId]\<rparr>)))"

text \<open>The latest workflow job of a run: \<^verbatim>\<open>ORDER BY created DESC, rowid DESC LIMIT 1\<close>.\<close>

definition latestJobStatus :: "string \<Rightarrow> JobRow list \<Rightarrow> JobStatus option" where
  "latestJobStatus runId jobs =
     (case rev (sort_key jr_created (filter (\<lambda>j. jr_job_type j = RUN_FLOW \<and> jobOfRun runId j) jobs)) of
        [] \<Rightarrow> None | j # _ \<Rightarrow> Some (jr_status j))"

definition recoverCanceledRuns :: "int \<Rightarrow> WorkflowDb \<Rightarrow> WorkflowDb" where
  "recoverCanceledRuns ts db =
     fold (\<lambda>r d. snd (cancelFlowRun ts (fr_id r) d))
       (filter (\<lambda>r. run_open (fr_status r) \<and>
           (getRunCancellation db (fr_id r) \<noteq> None \<or>
            latestJobStatus (fr_id r) (wd_jobs db) = Some job_canceled)) (wd_runs db)) db"

text \<open>\<^verbatim>\<open>assertRunNotCanceled\<close> throws exactly when the run is canceled or gone.\<close>

definition runDead :: "WorkflowDb \<Rightarrow> string \<Rightarrow> bool" where
  "runDead db runId = (getRunCancellation db runId \<noteq> None \<or> getFlowRun db runId = None)"

text \<open>Deleting a flow cascades to its runs and to what refers to them; jobs have no foreign key.\<close>

definition deleteFlow :: "string \<Rightarrow> WorkflowDb \<Rightarrow> WorkflowDb" where
  "deleteFlow flowId db =
     (let gone = fr_id ` {r \<in> set (wd_runs db). fr_flow_id r = flowId}
      in db\<lparr>wd_runs := filter (\<lambda>r. fr_id r \<notin> gone) (wd_runs db),
            wd_waitpoints := filter (\<lambda>w. wp_flow_run_id w \<notin> gone) (wd_waitpoints db),
            wd_cancellations := filter (\<lambda>c. rc_runId c \<notin> gone) (wd_cancellations db),
            wd_delegations := filter (\<lambda>d. dg_run_id d \<notin> gone) (wd_delegations db)\<rparr>)"


section \<open>Waitpoints\<close>

record CreateWaitpointInput =
  cwi_flowRunId :: string
  cwi_projectId :: string
  cwi_stepName :: string
  cwi_type :: WaitpointType
  cwi_version :: "string option"
  cwi_resumeDateTime :: "string option"
  cwi_responseToSend :: "json option"
  cwi_workerHandlerId :: "string option"
  cwi_httpRequestId :: "string option"

definition canceledMessage :: "string \<Rightarrow> string" where
  "canceledMessage runId = ''Workflow '' @ runId @
     '' was canceled or deleted; no new actions may start. Previously dispatched effects may have completed.''"

definition getWaitpoint :: "WorkflowDb \<Rightarrow> string \<Rightarrow> Waitpoint option" where
  "getWaitpoint db wpId = sql_get wp_id wpId (wd_waitpoints db)"

definition createWaitpoint :: "string \<Rightarrow> int \<Rightarrow> CreateWaitpointInput \<Rightarrow> WorkflowDb \<Rightarrow> (WfError + Waitpoint) \<times> WorkflowDb" where
  "createWaitpoint wpId now input db =
     (if runDead db (cwi_flowRunId input) then (Inl (WfThrew (canceledMessage (cwi_flowRunId input))), db)
      else if getWaitpoint db wpId \<noteq> None then (Inl (UniqueFailed ''waitpoint.id''), db)
      else let w = \<lparr> wp_id = wpId, wp_flow_run_id = cwi_flowRunId input, wp_project_id = cwi_projectId input,
                wp_step_name = cwi_stepName input, wp_type = cwi_type input,
                wp_version = js_or (cwi_version input) ''V1'', wp_resume_date_time = cwi_resumeDateTime input,
                wp_response_to_send = cwi_responseToSend input, wp_worker_handler_id = cwi_workerHandlerId input,
                wp_http_request_id = cwi_httpRequestId input, wp_created = now, wp_resumed_at = None \<rparr>
           in (Inr w, db\<lparr>wd_waitpoints := wd_waitpoints db @ [w]\<rparr>))"

definition listWaitpointsByFlowRun :: "string \<Rightarrow> bool option \<Rightarrow> WorkflowDb \<Rightarrow> Waitpoint list" where
  "listWaitpointsByFlowRun runId resumed db =
     sql_select_desc (\<lambda>w. wp_flow_run_id w = runId \<and>
       (case resumed of None \<Rightarrow> True | Some b \<Rightarrow> (wp_resumed_at w \<noteq> None) = b)) wp_created (wd_waitpoints db)"

text \<open>Text is compared byte by byte, as the default collation does.\<close>

definition timerDue :: "string \<Rightarrow> Waitpoint \<Rightarrow> bool" where
  "timerDue nowIso w = (wp_type w = wp_timer \<and> wp_resumed_at w = None \<and>
     (case wp_resume_date_time w of None \<Rightarrow> False | Some t \<Rightarrow> t \<le> nowIso))"

definition runBusy :: "WorkflowDb \<Rightarrow> string \<Rightarrow> bool" where
  "runBusy db runId = (\<exists>r \<in> set (wd_runs db). fr_id r = runId \<and> fr_status r \<in> {run_queued, run_running})"

definition listDueTimerWaitpoints :: "string \<Rightarrow> nat \<Rightarrow> WorkflowDb \<Rightarrow> Waitpoint list" where
  "listDueTimerWaitpoints nowIso limit db =
     take limit (sort_key (\<lambda>w. js_or (wp_resume_date_time w) [])
       (filter (\<lambda>w. timerDue nowIso w \<and> \<not> runBusy db (wp_flow_run_id w)) (wd_waitpoints db)))"

definition markWaitpointResumed :: "int \<Rightarrow> string \<Rightarrow> WorkflowDb \<Rightarrow> bool \<times> WorkflowDb" where
  "markWaitpointResumed now wpId db =
     (let r = sql_update (\<lambda>w. wp_id w = wpId \<and> wp_resumed_at w = None) (\<lambda>w. w\<lparr>wp_resumed_at := Some now\<rparr>)
                (wd_waitpoints db)
      in (snd r > 0, db\<lparr>wd_waitpoints := fst r\<rparr>))"

end
