(* ===== verification/Job_Queue.thy ===== *)
theory Job_Queue
  imports Workflow_Db
begin

text \<open>
  The job queue of the workflow runtime, \<^verbatim>\<open>src/workflows/db/repos/job-queue.ts\<close>, with its retry policy
  (\<^verbatim>\<open>src/workflows/queue/retry-policy.ts\<close>), over the tables of \<open>Workflow_Db\<close>.  An operation that throws
  inside a transaction leaves the database as it was.  SQL leaves the order of equal sort keys open; rowid
  order is used.  The run execution snapshot of \<^verbatim>\<open>flow-run.ts\<close> is here too, since it reads the queue.
\<close>


section \<open>Retry policy\<close>

definition WORKFLOW_RUN_MAX_ATTEMPTS :: nat where
  "WORKFLOW_RUN_MAX_ATTEMPTS = 1"

definition maxAttemptsForJob :: "string \<Rightarrow> nat \<Rightarrow> nat" where
  "maxAttemptsForJob jobType requested = (if jobType = RUN_FLOW then WORKFLOW_RUN_MAX_ATTEMPTS else requested)"

definition WORKFLOW_RETRY_GUIDANCE :: string where
  "WORKFLOW_RETRY_GUIDANCE = ''Automatic retry is disabled. Check completed effects and reconcile uncertain outcomes before deciding to start a new run.''"

definition workflowFailureMessage :: "string \<Rightarrow> string" where
  "workflowFailureMessage err =
     (if js_includes err WORKFLOW_RETRY_GUIDANCE then err else err @ newline @ WORKFLOW_RETRY_GUIDANCE)"


section \<open>Operations\<close>

record Job =
  jb_id :: string
  jb_jobType :: string
  jb_flowRunId :: "string option"
  jb_flowId :: "string option"
  jb_flowVersionId :: "string option"
  jb_payload :: json
  jb_priority :: int
  jb_status :: JobStatus
  jb_attempt :: nat
  jb_maxAttempts :: nat
  jb_lockedUntil :: "int option"
  jb_scheduledAt :: int
  jb_lastError :: "string option"
  jb_created :: int
  jb_updated :: int

text \<open>\<open>None\<close> is the \<^verbatim>\<open>SyntaxError\<close> of \<^verbatim>\<open>JSON.parse\<close> on a malformed payload.\<close>

definition rowToJob :: "JobRow \<Rightarrow> Job option" where
  "rowToJob row = map_option (\<lambda>p. \<lparr> jb_id = jr_id row, jb_jobType = jr_job_type row,
     jb_flowRunId = jr_flow_run_id row, jb_flowId = jr_flow_id row, jb_flowVersionId = jr_flow_version_id row,
     jb_payload = p, jb_priority = jr_priority row, jb_status = jr_status row, jb_attempt = jr_attempt row,
     jb_maxAttempts = jr_max_attempts row, jb_lockedUntil = jr_locked_until row,
     jb_scheduledAt = jr_scheduled_at row, jb_lastError = jr_last_error row, jb_created = jr_created row,
     jb_updated = jr_updated row \<rparr>) (JSON_parse (jr_payload row))"

definition jobRow :: "WorkflowDb \<Rightarrow> string \<Rightarrow> JobRow option" where
  "jobRow db jobId = sql_get jr_id jobId (wd_jobs db)"

definition getJob :: "WorkflowDb \<Rightarrow> string \<Rightarrow> WfError + Job option" where
  "getJob db jobId =
     (case jobRow db jobId of
        None \<Rightarrow> Inr None
      | Some row \<Rightarrow> (case rowToJob row of None \<Rightarrow> Inl (WfThrew ''SyntaxError'') | Some j \<Rightarrow> Inr (Some j)))"

definition countQueued :: "WorkflowDb \<Rightarrow> nat" where
  "countQueued db = length (filter (\<lambda>j. jr_status j = job_queued) (wd_jobs db))"

record EnqueueInput =
  ei_jobType :: string
  ei_payload :: json
  ei_flowRunId :: "string option"
  ei_flowId :: "string option"
  ei_flowVersionId :: "string option"
  ei_priority :: "int option"
  ei_scheduledAt :: "int option"
  ei_maxAttempts :: "nat option"

text \<open>\<^verbatim>\<open>input.flowRunId ?? input.payload?.runId\<close>; a run id is text, as its type says.\<close>

definition enqueueRunId :: "EnqueueInput \<Rightarrow> string option" where
  "enqueueRunId input =
     (case ei_flowRunId input of
        Some r \<Rightarrow> Some r
      | None \<Rightarrow> (case json_get (ei_payload input) ''runId'' of Some (JStr s) \<Rightarrow> Some s | _ \<Rightarrow> None))"

definition newJobRow :: "string \<Rightarrow> int \<Rightarrow> EnqueueInput \<Rightarrow> JobRow" where
  "newJobRow jobId ts input =
     \<lparr> jr_id = jobId, jr_job_type = ei_jobType input, jr_flow_run_id = ei_flowRunId input,
       jr_flow_id = ei_flowId input, jr_flow_version_id = ei_flowVersionId input,
       jr_payload = JSON_stringify (ei_payload input), jr_priority = js_or (ei_priority input) 0,
       jr_status = job_queued, jr_attempt = 0,
       jr_max_attempts = maxAttemptsForJob (ei_jobType input) (js_or (ei_maxAttempts input) 3),
       jr_locked_until = None, jr_scheduled_at = js_or (ei_scheduledAt input) ts, jr_last_error = None,
       jr_created = ts, jr_updated = ts \<rparr>"

definition enqueueJob :: "string \<Rightarrow> int \<Rightarrow> EnqueueInput \<Rightarrow> WorkflowDb \<Rightarrow> (WfError + Job) \<times> WorkflowDb" where
  "enqueueJob jobId ts input db =
     (if ei_jobType input = RUN_FLOW \<and> js_truthy (enqueueRunId input) \<and>
         getRunCancellation db (the (enqueueRunId input)) \<noteq> None then
        (Inl (WfThrew (''Cannot enqueue canceled workflow run '' @ the (enqueueRunId input))), db)
      else if jobRow db jobId \<noteq> None then (Inl (UniqueFailed ''workflow_job.id''), db)
      else let row = newJobRow jobId ts input
           in (case rowToJob row of None \<Rightarrow> Inl (WfThrew ''SyntaxError'') | Some j \<Rightarrow> Inr j,
               db\<lparr>wd_jobs := wd_jobs db @ [row]\<rparr>))"

definition setJobs :: "(JobRow \<Rightarrow> bool) \<Rightarrow> (JobRow \<Rightarrow> JobRow) \<Rightarrow> WorkflowDb \<Rightarrow> WorkflowDb" where
  "setJobs p f db = db\<lparr>wd_jobs := fst (sql_update p f (wd_jobs db))\<rparr>"


section \<open>Retiring interrupted workflow jobs\<close>

text \<open>
  A fresh continuation of a paused run: a queued, never attempted workflow job that resumes it and does
  not name another run, flow or version.
\<close>

definition matches_or_null :: "string option \<Rightarrow> string \<Rightarrow> bool" where
  "matches_or_null c v = (c = None \<or> c = Some v)"

definition continuationOf :: "FlowRunRow \<Rightarrow> JobRow \<Rightarrow> bool" where
  "continuationOf r j =
     (jr_job_type j = RUN_FLOW \<and> jr_status j = job_queued \<and> jr_attempt j = 0 \<and>
      matches_or_null (jr_flow_run_id j) (fr_id r) \<and> matches_or_null (jr_flow_id j) (fr_flow_id r) \<and>
      matches_or_null (jr_flow_version_id j) (fr_flow_version_id r) \<and>
      payload_text ''runId'' (jr_payload j) = Some (fr_id r) \<and>
      payload_text ''executionType'' (jr_payload j) = Some ''RESUME'')"

definition openWaitpoint :: "WorkflowDb \<Rightarrow> string \<Rightarrow> bool" where
  "openWaitpoint db runId = (\<exists>w \<in> set (wd_waitpoints db). wp_flow_run_id w = runId \<and> wp_resumed_at w = None)"

definition retireRun :: "int \<Rightarrow> string \<Rightarrow> FailedStep \<Rightarrow> WorkflowDb \<Rightarrow> WorkflowDb" where
  "retireRun ts runId step db =
     mapRuns (\<lambda>r. if fr_id r = runId \<and> run_open (fr_status r) \<and>
           (fr_status r \<noteq> run_paused \<or>
             (\<not> openWaitpoint db runId \<and> \<not> (\<exists>j \<in> set (wd_jobs db). continuationOf r j)))
         then r\<lparr>fr_status := run_failed, fr_failed_step := Some step, fr_finish_time := Some ts, fr_updated := ts\<rparr>
         else r) db"

definition retireReason :: "JobRow \<Rightarrow> string" where
  "retireReason job =
     (if jr_status job = job_running
      then ''Workflow execution was interrupted before its queue result was recorded. Effects may already have completed.''
      else ''A previously attempted workflow job was queued for replay; automatic replay was stopped.'')"

definition retireMessage :: "JobRow \<Rightarrow> string" where
  "retireMessage job =
     workflowFailureMessage (js_join newline (retireReason job #
       (if js_truthy (jr_last_error job) then [the (jr_last_error job)] else [])))"

definition jobRunId :: "JobRow \<Rightarrow> string option" where
  "jobRunId job = (if js_truthy (jr_flow_run_id job) then jr_flow_run_id job
                   else payload_text ''runId'' (jr_payload job))"

definition retireJob :: "int \<Rightarrow> JobRow \<Rightarrow> WorkflowDb \<Rightarrow> WorkflowDb" where
  "retireJob ts job db =
     (let message = retireMessage job;
          db1 = setJobs (\<lambda>j. jr_id j = jr_id job)
            (\<lambda>j. j\<lparr>jr_status := job_failed, jr_last_error := Some message, jr_locked_until := None, jr_updated := ts\<rparr>) db
      in if js_truthy (jobRunId job) then
           retireRun ts (the (jobRunId job))
             \<lparr> fs_name = ''<queue>'', fs_displayName = ''Interrupted execution'', fs_errorMessage = Some message \<rparr> db1
         else db1)"

definition mustRetire :: "bool \<Rightarrow> JobRow \<Rightarrow> bool" where
  "mustRetire atBoot j = (jr_job_type j = RUN_FLOW \<and>
     ((jr_status j = job_queued \<and> jr_attempt j > 0) \<or> (atBoot \<and> jr_status j = job_running)))"

definition retireWorkflowRetries :: "int \<Rightarrow> bool \<Rightarrow> WorkflowDb \<Rightarrow> WorkflowDb" where
  "retireWorkflowRetries ts atBoot db =
     (let db1 = setJobs (\<lambda>j. jr_job_type j = RUN_FLOW \<and> job_active (jr_status j) \<and> jr_max_attempts j \<noteq> 1)
                  (\<lambda>j. j\<lparr>jr_max_attempts := 1, jr_updated := ts\<rparr>) db
      in fold (retireJob ts) (filter (mustRetire atBoot) (wd_jobs db1)) db1)"


section \<open>Claiming, completing, failing\<close>

definition DEFAULT_LEASE_MS :: int where
  "DEFAULT_LEASE_MS = 5 * 60000"

definition DEFAULT_BACKOFF_MS :: int where
  "DEFAULT_BACKOFF_MS = 1000"

definition DEFAULT_MAX_BACKOFF_MS :: int where
  "DEFAULT_MAX_BACKOFF_MS = 5 * 60000"

definition jobReady :: "int \<Rightarrow> JobRow \<Rightarrow> bool" where
  "jobReady now j =
     ((jr_status j = job_queued \<and> jr_scheduled_at j \<le> now) \<or>
      (jr_status j = job_running \<and> (case jr_locked_until j of None \<Rightarrow> False | Some t \<Rightarrow> t \<le> now) \<and>
       jr_job_type j \<noteq> RUN_FLOW))"

definition claimKey :: "JobRow \<Rightarrow> int \<times> int \<times> int" where
  "claimKey j = (- jr_priority j, jr_scheduled_at j, jr_created j)"

definition nextReady :: "int \<Rightarrow> JobRow list \<Rightarrow> JobRow option" where
  "nextReady now jobs = (case sort_key claimKey (filter (jobReady now) jobs) of [] \<Rightarrow> None | j # _ \<Rightarrow> Some j)"

definition claimRow :: "int \<Rightarrow> int \<Rightarrow> JobRow \<Rightarrow> JobRow" where
  "claimRow now leaseUntil j =
     j\<lparr>jr_status := job_running, jr_attempt := jr_attempt j + 1, jr_locked_until := Some leaseUntil, jr_updated := now\<rparr>"

definition claimNextJob :: "int \<Rightarrow> int option \<Rightarrow> WorkflowDb \<Rightarrow> (WfError + Job option) \<times> WorkflowDb" where
  "claimNextJob now leaseMs db =
     (let leaseUntil = now + js_or leaseMs DEFAULT_LEASE_MS;
          db1 = retireWorkflowRetries now False db
      in case nextReady now (wd_jobs db1) of
           None \<Rightarrow> (Inr None, db1)
         | Some j \<Rightarrow>
             (case rowToJob (claimRow now leaseUntil j) of
                None \<Rightarrow> (Inl (WfThrew ''SyntaxError''), db)
              | Some job \<Rightarrow>
                  (Inr (Some job), setJobs (\<lambda>x. jr_id x = jr_id j) (claimRow now leaseUntil) db1)))"

definition completeJob :: "int \<Rightarrow> string \<Rightarrow> WorkflowDb \<Rightarrow> WfError option \<times> WorkflowDb" where
  "completeJob ts jobId db =
     (let res = sql_update (\<lambda>j. jr_id j = jobId \<and> jr_status j = job_running)
            (\<lambda>j. j\<lparr>jr_status := job_succeeded, jr_last_error := None, jr_locked_until := None, jr_updated := ts\<rparr>)
            (wd_jobs db)
      in (if snd res = 0 then Some (WfThrew (''completeJob: job not found or not RUNNING (id='' @ jobId @ '')''))
          else None,
          db\<lparr>wd_jobs := fst res\<rparr>))"

record FailJobOptions =
  fo_backoffMs :: "int option"
  fo_maxBackoffMs :: "int option"

definition failDelay :: "FailJobOptions \<Rightarrow> nat \<Rightarrow> int" where
  "failDelay opts attempt =
     min (js_or (fo_maxBackoffMs opts) DEFAULT_MAX_BACKOFF_MS)
         (js_or (fo_backoffMs opts) DEFAULT_BACKOFF_MS * 4 ^ (attempt - 1))"

definition failJob :: "int \<Rightarrow> string \<Rightarrow> string \<Rightarrow> FailJobOptions \<Rightarrow> WorkflowDb \<Rightarrow> (WfError + bool) \<times> WorkflowDb" where
  "failJob ts jobId err opts db =
     (case getJob db jobId of
        Inl e \<Rightarrow> (Inl e, db)
      | Inr None \<Rightarrow> (Inl (WfThrew (''failJob: not found (id='' @ jobId @ '')'')), db)
      | Inr (Some job) \<Rightarrow>
          if jb_status job \<noteq> job_running then (Inl (WfThrew ''failJob: expected RUNNING''), db)
          else if jb_attempt job \<ge> maxAttemptsForJob (jb_jobType job) (jb_maxAttempts job) then
            (Inr False, setJobs (\<lambda>j. jr_id j = jobId)
              (\<lambda>j. j\<lparr>jr_status := job_failed,
                     jr_last_error := Some (if jb_jobType job = RUN_FLOW then workflowFailureMessage err else err),
                     jr_locked_until := None, jr_updated := ts\<rparr>) db)
          else
            (Inr True, setJobs (\<lambda>j. jr_id j = jobId)
              (\<lambda>j. j\<lparr>jr_status := job_queued, jr_last_error := Some err, jr_locked_until := None,
                     jr_scheduled_at := ts + failDelay opts (jb_attempt job), jr_updated := ts\<rparr>) db))"

definition cancelJob :: "int \<Rightarrow> string \<Rightarrow> WorkflowDb \<Rightarrow> WfError option \<times> WorkflowDb" where
  "cancelJob ts jobId db =
     (case getJob db jobId of
        Inl e \<Rightarrow> (Some e, db)
      | Inr job \<Rightarrow>
          (let runId = (case job of None \<Rightarrow> None
                 | Some j \<Rightarrow> (case jb_flowRunId j of
                     Some r \<Rightarrow> Some r
                   | None \<Rightarrow> (case json_get (jb_payload j) ''runId'' of Some (JStr s) \<Rightarrow> Some s | _ \<Rightarrow> None)));
               owned = (case job of None \<Rightarrow> False
                 | Some j \<Rightarrow> jb_jobType j = RUN_FLOW \<and> js_truthy runId \<and> job_active (jb_status j))
           in if owned \<and> getFlowRun db (the runId) \<noteq> None then (None, snd (cancelFlowRun ts (the runId) db))
              else (None, setJobs (\<lambda>j. jr_id j = jobId \<and> job_active (jr_status j))
                     (\<lambda>j. j\<lparr>jr_status := job_canceled, jr_locked_until := None, jr_updated := ts\<rparr>) db)))"


section \<open>Recovery at boot\<close>

definition orphanMessage :: string where
  "orphanMessage = ''orphaned: max attempts exhausted''"

text \<open>A run stranded by older recovery code, which no open waitpoint and no active job can move.\<close>

definition strandedRun :: "WorkflowDb \<Rightarrow> FlowRunRow \<Rightarrow> bool" where
  "strandedRun db r =
     (run_open (fr_status r) \<and>
      (\<exists>j \<in> set (wd_jobs db). jr_flow_run_id j = Some (fr_id r) \<and> jr_job_type j = RUN_FLOW \<and>
         jr_status j = job_failed \<and> jr_last_error j = Some orphanMessage \<and>
         (fr_status r \<noteq> run_paused \<or> payload_text ''executionType'' (jr_payload j) = Some ''RESUME'')) \<and>
      (fr_status r \<noteq> run_paused \<or> \<not> openWaitpoint db (fr_id r)) \<and>
      \<not> (\<exists>j \<in> set (wd_jobs db). jr_flow_run_id j = Some (fr_id r) \<and> job_active (jr_status j)))"

definition recoveryStep :: FailedStep where
  "recoveryStep = \<lparr> fs_name = ''<recovery>'', fs_displayName = ''Recovery'',
     fs_errorMessage = Some ''Execution was interrupted and exhausted its attempts. Its outcome is unknown; inspect partial results before proposing another run.'' \<rparr>"

definition recoverOrphanedJobs :: "int \<Rightarrow> WorkflowDb \<Rightarrow> nat \<times> WorkflowDb" where
  "recoverOrphanedJobs ts db =
     (let db1 = retireWorkflowRetries ts True (recoverCanceledRuns ts db);
          db2 = setJobs (\<lambda>j. jr_status j = job_running \<and> jr_attempt j \<ge> jr_max_attempts j)
            (\<lambda>j. j\<lparr>jr_status := job_failed, jr_last_error := Some orphanMessage, jr_locked_until := None,
                   jr_updated := ts\<rparr>) db1;
          res = sql_update (\<lambda>j. jr_status j = job_running \<and> jr_attempt j < jr_max_attempts j)
            (\<lambda>j. j\<lparr>jr_status := job_queued, jr_locked_until := None, jr_scheduled_at := ts, jr_updated := ts\<rparr>)
            (wd_jobs db2);
          db3 = db2\<lparr>wd_jobs := fst res\<rparr>
      in (snd res, mapRuns (\<lambda>r. if strandedRun db3 r
            then r\<lparr>fr_status := run_failed, fr_failed_step := Some recoveryStep, fr_finish_time := Some ts,
                   fr_updated := ts\<rparr> else r) db3))"


section \<open>Queries\<close>

definition findActiveJobForRun :: "string \<Rightarrow> WorkflowDb \<Rightarrow> WfError + Job option" where
  "findActiveJobForRun runId db =
     (case sql_select_desc (\<lambda>j. jr_flow_run_id j = Some runId \<and> job_active (jr_status j)) jr_created (wd_jobs db) of
        [] \<Rightarrow> Inr None
      | j # _ \<Rightarrow> (case rowToJob j of None \<Rightarrow> Inl (WfThrew ''SyntaxError'') | Some job \<Rightarrow> Inr (Some job)))"

record QueueStats =
  qs_queued :: nat
  qs_running :: nat
  qs_succeeded :: nat
  qs_failed :: nat
  qs_canceled :: nat

definition countStatus :: "JobStatus \<Rightarrow> WorkflowDb \<Rightarrow> nat" where
  "countStatus s db = length (filter (\<lambda>j. jr_status j = s) (wd_jobs db))"

definition queueStats :: "WorkflowDb \<Rightarrow> QueueStats" where
  "queueStats db = \<lparr> qs_queued = countStatus job_queued db, qs_running = countStatus job_running db,
     qs_succeeded = countStatus job_succeeded db, qs_failed = countStatus job_failed db,
     qs_canceled = countStatus job_canceled db \<rparr>"


section \<open>The execution snapshot of a run\<close>

record RunExecutionConfig =
  ec_stepNameToTest :: "string option"
  ec_sampleData :: "json option"
  ec_sampleInputOverride :: "json option"

definition json_truthy :: "json option \<Rightarrow> bool" where
  "json_truthy j = (case j of
      None \<Rightarrow> False | Some JNull \<Rightarrow> False | Some (JBool b) \<Rightarrow> b | Some (JStr s) \<Rightarrow> s \<noteq> []
    | Some (JNum n) \<Rightarrow> n \<noteq> ''0'' | Some _ \<Rightarrow> True)"

definition configOfJson :: "json \<Rightarrow> RunExecutionConfig" where
  "configOfJson j = \<lparr> ec_stepNameToTest = (case json_get j ''stepNameToTest'' of Some (JStr s) \<Rightarrow> Some s | _ \<Rightarrow> None),
     ec_sampleData = json_get j ''sampleData'', ec_sampleInputOverride = json_get j ''sampleInputOverride'' \<rparr>"

definition configToJson :: "RunExecutionConfig \<Rightarrow> json" where
  "configToJson c = JObj
     ((if js_truthy (ec_stepNameToTest c) then [(''stepNameToTest'', JStr (the (ec_stepNameToTest c)))] else []) @
      (if json_truthy (ec_sampleData c) then [(''sampleData'', the (ec_sampleData c))] else []) @
      (if json_truthy (ec_sampleInputOverride c) then [(''sampleInputOverride'', the (ec_sampleInputOverride c))] else []))"

text \<open>The payload of the job that began the run: \<^verbatim>\<open>COALESCE(executionType, 'BEGIN') = 'BEGIN'\<close>, oldest first.\<close>

definition beginPayload :: "string \<Rightarrow> WorkflowDb \<Rightarrow> string option" where
  "beginPayload runId db =
     (case sort_key (\<lambda>j. (jr_created j, jr_id j))
         (filter (\<lambda>j. jr_flow_run_id j = Some runId \<and> jr_job_type j = RUN_FLOW \<and>
            (case JSON_parse (jr_payload j) of None \<Rightarrow> False
             | Some p \<Rightarrow> (case json_get p ''executionType'' of None \<Rightarrow> True | Some JNull \<Rightarrow> True
                          | Some (JStr s) \<Rightarrow> s = ''BEGIN'' | _ \<Rightarrow> False))) (wd_jobs db)) of
        [] \<Rightarrow> None | j # _ \<Rightarrow> Some (jr_payload j))"

definition ensureRunExecutionConfig :: "string \<Rightarrow> RunExecutionConfig option \<Rightarrow> WorkflowDb \<Rightarrow>
    (WfError + RunExecutionConfig) \<times> WorkflowDb" where
  "ensureRunExecutionConfig runId initial db =
     (case getFlowRun db runId of
        None \<Rightarrow> (Inl (WfThrew (''Run '' @ runId @ '' not found'')), db)
      | Some row \<Rightarrow>
          (case fr_execution_config row of
             Some j \<Rightarrow> (Inr (configOfJson j), db)
           | None \<Rightarrow>
               (case (case initial of Some c \<Rightarrow> Some c
                      | None \<Rightarrow> map_option configOfJson (Option.bind (beginPayload runId db) JSON_parse)) of
                  None \<Rightarrow> (Inl (WfThrew ''Original run configuration unavailable; start a new run to preserve preview scope''), db)
                | Some source \<Rightarrow>
                    if js_truthy (fr_step_name_to_test row) \<and> js_truthy (ec_stepNameToTest source) \<and>
                       fr_step_name_to_test row \<noteq> ec_stepNameToTest source then
                      (Inl (WfThrew ''Run preview scope does not match the original job''), db)
                    else
                      (let step = (case fr_step_name_to_test row of None \<Rightarrow> ec_stepNameToTest source | Some s \<Rightarrow> Some s);
                           config = configToJson (source\<lparr>ec_stepNameToTest := step\<rparr>)
                       in (Inr (configOfJson config),
                           mapRuns (\<lambda>r. if fr_id r = runId then r\<lparr>fr_execution_config := Some config,
                                      fr_step_name_to_test := step\<rparr> else r) db)))))"

end
