(* ===== verification/Queue_Invariant.thy ===== *)
theory Queue_Invariant
  imports Job_Queue
begin

text \<open>
  What the operations of the workflow tables keep.  \<open>WfOp\<close> names every operation that writes the tables
  of \<open>Workflow_Db\<close>; \<open>wfOp\<close> runs one and \<open>wfRun\<close> a sequence, whatever it returned or threw.  The relation
  \<open>jobs_le\<close> says how the job table may move: rows stay, keep what they are, never lose an attempt, and a
  settled row is never written again.  The invariant \<open>wf_ok\<close> ties cancellations to runs and jobs.
\<close>


section \<open>Operations\<close>

datatype WfOp =
    OpCreateRun string int CreateFlowRunInput
  | OpUpdateRun int string UpdateRunInput
  | OpCancelRun int string
  | OpDeleteFlow string
  | OpEnqueue string int EnqueueInput
  | OpClaim int "int option"
  | OpComplete int string
  | OpFail int string string FailJobOptions
  | OpCancelJob int string
  | OpRecover int
  | OpCreateWaitpoint string int CreateWaitpointInput
  | OpResumeWaitpoint int string
  | OpEnsureConfig string "RunExecutionConfig option"

fun wfOp :: "WfOp \<Rightarrow> WorkflowDb \<Rightarrow> WorkflowDb" where
  "wfOp (OpCreateRun i ts input) db = snd (createFlowRun i ts input db)"
| "wfOp (OpUpdateRun now i patch) db = snd (updateRun now i patch db)"
| "wfOp (OpCancelRun ts i) db = snd (cancelFlowRun ts i db)"
| "wfOp (OpDeleteFlow f) db = deleteFlow f db"
| "wfOp (OpEnqueue i ts input) db = snd (enqueueJob i ts input db)"
| "wfOp (OpClaim now lease) db = snd (claimNextJob now lease db)"
| "wfOp (OpComplete ts i) db = snd (completeJob ts i db)"
| "wfOp (OpFail ts i err opts) db = snd (failJob ts i err opts db)"
| "wfOp (OpCancelJob ts i) db = snd (cancelJob ts i db)"
| "wfOp (OpRecover ts) db = snd (recoverOrphanedJobs ts db)"
| "wfOp (OpCreateWaitpoint i now input) db = snd (createWaitpoint i now input db)"
| "wfOp (OpResumeWaitpoint now i) db = snd (markWaitpointResumed now i db)"
| "wfOp (OpEnsureConfig i initial) db = snd (ensureRunExecutionConfig i initial db)"

abbreviation wfRun :: "WfOp list \<Rightarrow> WorkflowDb \<Rightarrow> WorkflowDb" where
  "wfRun ops db \<equiv> fold wfOp ops db"


section \<open>The job table\<close>

definition job_le :: "JobRow \<Rightarrow> JobRow \<Rightarrow> bool" where
  "job_le j j' = (jr_id j' = jr_id j \<and> jr_job_type j' = jr_job_type j \<and> jr_flow_run_id j' = jr_flow_run_id j \<and>
     jr_flow_id j' = jr_flow_id j \<and> jr_flow_version_id j' = jr_flow_version_id j \<and> jr_payload j' = jr_payload j \<and>
     jr_created j' = jr_created j \<and> jr_attempt j \<le> jr_attempt j' \<and> (\<not> job_active (jr_status j) \<longrightarrow> j' = j))"

text \<open>The rows of a table moved in place; and the same with new rows behind them under fresh ids.\<close>

abbreviation job_moves :: "JobRow list \<Rightarrow> JobRow list \<Rightarrow> bool" where
  "job_moves \<equiv> list_all2 job_le"

definition jobs_le :: "JobRow list \<Rightarrow> JobRow list \<Rightarrow> bool" where
  "jobs_le js js' = (\<exists>moved new. js' = moved @ new \<and> job_moves js moved \<and>
     (distinct (map jr_id js) \<longrightarrow> distinct (map jr_id js')))"

lemma job_le_refl [simp]: "job_le j j"
  by (simp add: job_le_def)

lemma job_le_trans: "job_le a b \<Longrightarrow> job_le b c \<Longrightarrow> job_le a c"
  unfolding job_le_def by (metis order_trans)

lemma job_moves_refl [simp]: "job_moves js js"
  by (simp add: list_all2_refl)

lemma job_moves_trans: "job_moves a b \<Longrightarrow> job_moves b c \<Longrightarrow> job_moves a c"
  using list_all2_trans [of job_le job_le job_le] job_le_trans by blast

lemma job_moves_ids: "job_moves js js' \<Longrightarrow> map jr_id js' = map jr_id js"
  by (induction rule: list_all2_induct) (simp_all add: job_le_def)

lemma job_moves_map: "(\<And>j. j \<in> set js \<Longrightarrow> job_le j (f j)) \<Longrightarrow> job_moves js (map f js)"
  by (simp add: list_all2_conv_all_nth)

lemma job_moves_mem: "job_moves js js' \<Longrightarrow> j' \<in> set js' \<Longrightarrow> \<exists>j \<in> set js. job_le j j'"
  by (induction rule: list_all2_induct) auto

lemma jobs_le_moves: "job_moves js js' \<Longrightarrow> jobs_le js js'"
  unfolding jobs_le_def using job_moves_ids by (metis append_Nil2)

lemma jobs_le_refl [simp]: "jobs_le js js"
  by (rule jobs_le_moves) simp

lemma jobs_le_append: "jr_id j \<notin> jr_id ` set js \<Longrightarrow> jobs_le js (js @ [j])"
  unfolding jobs_le_def by (rule exI [of _ js], rule exI [of _ "[j]"]) auto

lemma jobs_le_trans:
  assumes "jobs_le a b" "jobs_le b c"
  shows "jobs_le a c"
proof -
  from assms(1) obtain m n where b: "b = m @ n" "job_moves a m"
    "distinct (map jr_id a) \<longrightarrow> distinct (map jr_id b)" unfolding jobs_le_def by blast
  from assms(2) obtain m' n' where c: "c = m' @ n'" "job_moves b m'"
    "distinct (map jr_id b) \<longrightarrow> distinct (map jr_id c)" unfolding jobs_le_def by blast
  from b(1) c(2) obtain u v where m': "m' = u @ v" "job_moves m u"
    by (auto simp: list_all2_append1)
  from job_moves_trans [OF b(2) m'(2)] show ?thesis unfolding jobs_le_def
    using b(3) c(1,3) m'(1) by (intro exI [of _ u] exI [of _ "v @ n'"]) simp
qed

lemma jobs_le_distinct: "jobs_le js js' \<Longrightarrow> distinct (map jr_id js) \<Longrightarrow> distinct (map jr_id js')"
  by (auto simp: jobs_le_def)

lemma jobs_le_get:
  assumes "jobs_le js js'" "sql_get jr_id i js = Some j"
  shows "\<exists>j'. sql_get jr_id i js' = Some j' \<and> job_le j j'"
proof -
  from assms(1) obtain m n where js': "js' = m @ n" and le: "job_moves js m" unfolding jobs_le_def by blast
  from le assms(2) have "\<exists>j'. sql_get jr_id i m = Some j' \<and> job_le j j'"
    by (induction rule: list_all2_induct) (auto simp: sql_get_def job_le_def split: if_splits)
  then show ?thesis unfolding js' by (auto simp: sql_get_def find_append_Some)
qed

lemma setJobs_jobs [simp]: "wd_jobs (setJobs p f db) = map (\<lambda>j. if p j then f j else j) (wd_jobs db)"
  by (simp add: setJobs_def sql_update_def)

lemma setJobs_other [simp]:
  "wd_runs (setJobs p f db) = wd_runs db" "wd_waitpoints (setJobs p f db) = wd_waitpoints db"
  "wd_cancellations (setJobs p f db) = wd_cancellations db" "wd_delegations (setJobs p f db) = wd_delegations db"
  "wd_signals (setJobs p f db) = wd_signals db"
  by (simp_all add: setJobs_def)

lemma mapRuns_simps [simp]:
  "wd_jobs (mapRuns f db) = wd_jobs db" "wd_waitpoints (mapRuns f db) = wd_waitpoints db"
  "wd_cancellations (mapRuns f db) = wd_cancellations db" "wd_runs (mapRuns f db) = map f (wd_runs db)"
  "wd_signals (mapRuns f db) = wd_signals db"
  by (simp_all add: mapRuns_def)

lemma deleteDelegations_simps [simp]:
  "wd_jobs (deleteDelegations i db) = wd_jobs db" "wd_waitpoints (deleteDelegations i db) = wd_waitpoints db"
  "wd_cancellations (deleteDelegations i db) = wd_cancellations db" "wd_runs (deleteDelegations i db) = wd_runs db"
  "wd_signals (deleteDelegations i db) = wd_signals db"
  by (simp_all add: deleteDelegations_def)

lemma same_row:
  assumes "distinct (map jr_id js)" "a \<in> set js" "b \<in> set js" "jr_id a = jr_id b"
  shows "a = b"
  using assms by (simp add: distinct_map inj_on_def)

text \<open>A write on the row with a given id, when that row is active.\<close>

lemma job_moves_at:
  assumes ids: "distinct (map jr_id (wd_jobs db))" and j: "j \<in> set (wd_jobs db)" and f: "job_le j (f j)"
  shows "job_moves (wd_jobs db) (wd_jobs (setJobs (\<lambda>x. jr_id x = jr_id j) f db))"
  unfolding setJobs_jobs
proof (rule job_moves_map)
  fix x assume "x \<in> set (wd_jobs db)"
  then show "job_le x (if jr_id x = jr_id j then f x else x)"
    using same_row [OF ids _ j, of x] f by auto
qed


section \<open>Retirement, row by row\<close>

definition cappedRow :: "int \<Rightarrow> JobRow \<Rightarrow> JobRow" where
  "cappedRow ts j = (if jr_job_type j = RUN_FLOW \<and> job_active (jr_status j) \<and> jr_max_attempts j \<noteq> 1
     then j\<lparr>jr_max_attempts := 1, jr_updated := ts\<rparr> else j)"

definition failedRow :: "int \<Rightarrow> JobRow \<Rightarrow> JobRow \<Rightarrow> JobRow" where
  "failedRow ts job j = j\<lparr>jr_status := job_failed, jr_last_error := Some (retireMessage job), jr_locked_until := None,
     jr_updated := ts\<rparr>"

definition retireRow :: "int \<Rightarrow> bool \<Rightarrow> JobRow \<Rightarrow> JobRow" where
  "retireRow ts atBoot j =
     (if mustRetire atBoot j then failedRow ts (cappedRow ts j) (cappedRow ts j) else cappedRow ts j)"

lemma cappedRow_simps [simp]:
  "jr_id (cappedRow ts j) = jr_id j" "jr_status (cappedRow ts j) = jr_status j"
  "jr_attempt (cappedRow ts j) = jr_attempt j" "jr_job_type (cappedRow ts j) = jr_job_type j"
  "mustRetire b (cappedRow ts j) = mustRetire b j"
  by (simp_all add: cappedRow_def mustRetire_def)

lemma retireRun_jobs [simp]: "wd_jobs (retireRun ts i s db) = wd_jobs db"
  by (simp add: retireRun_def)

lemma retireJob_jobs:
  "wd_jobs (retireJob ts job db) = map (\<lambda>j. if jr_id j = jr_id job then failedRow ts job j else j) (wd_jobs db)"
  by (simp add: retireJob_def Let_def failedRow_def)

lemma fold_retire_jobs:
  "wd_jobs (fold (retireJob ts) L db) =
     map (fold (\<lambda>job j. if jr_id j = jr_id job then failedRow ts job j else j) L) (wd_jobs db)"
proof (induction L arbitrary: db)
  case (Cons job L)
  have "wd_jobs (fold (retireJob ts) (job # L) db) = wd_jobs (fold (retireJob ts) L (retireJob ts job db))" by simp
  then show ?case by (simp only: Cons.IH retireJob_jobs) simp
qed simp

lemma fold_failed_other:
  "jr_id j \<notin> jr_id ` set L \<Longrightarrow>
     fold (\<lambda>job j. if jr_id j = jr_id job then failedRow ts job j else j) L j = j"
  by (induction L) auto

lemma fold_failed_one:
  assumes "distinct (map jr_id L)" "j \<in> set L"
  shows "fold (\<lambda>job j. if jr_id j = jr_id job then failedRow ts job j else j) L j = failedRow ts j j"
  using assms
proof (induction L)
  case (Cons a L)
  show ?case
  proof (cases "j = a")
    case True
    have id: "jr_id (failedRow ts a a) = jr_id a" by (simp add: failedRow_def)
    with Cons.prems(1) have "jr_id (failedRow ts a a) \<notin> jr_id ` set L" by simp
    from fold_failed_other [OF this] True show ?thesis by simp
  next
    case False
    with Cons.prems have "j \<in> set L" "jr_id j \<noteq> jr_id a" by (auto simp: image_iff)
    with Cons show ?thesis by simp
  qed
qed simp

lemma retire_jobs:
  assumes "distinct (map jr_id (wd_jobs db))"
  shows "wd_jobs (retireWorkflowRetries ts atBoot db) = map (retireRow ts atBoot) (wd_jobs db)"
proof -
  let ?c = "map (cappedRow ts) (wd_jobs db)" and ?L = "filter (mustRetire atBoot) (map (cappedRow ts) (wd_jobs db))"
  have c: "wd_jobs (setJobs (\<lambda>j. jr_job_type j = RUN_FLOW \<and> job_active (jr_status j) \<and> jr_max_attempts j \<noteq> 1)
      (\<lambda>j. j\<lparr>jr_max_attempts := 1, jr_updated := ts\<rparr>) db) = ?c"
    unfolding setJobs_jobs cappedRow_def ..
  have ids: "distinct (map jr_id ?c)" using assms by (simp add: comp_def)
  then have idL: "distinct (map jr_id ?L)" by (rule distinct_map_filter)
  have "fold (\<lambda>job j. if jr_id j = jr_id job then failedRow ts job j else j) ?L (cappedRow ts j) =
      retireRow ts atBoot j" if j: "j \<in> set (wd_jobs db)" for j
  proof (cases "mustRetire atBoot j")
    case True
    with j have "cappedRow ts j \<in> set ?L" by simp
    from fold_failed_one [OF idL this] True show ?thesis by (simp add: retireRow_def)
  next
    case False
    have "jr_id (cappedRow ts j) \<notin> jr_id ` set ?L"
    proof
      assume "jr_id (cappedRow ts j) \<in> jr_id ` set ?L"
      then obtain x where "x \<in> set ?L" "jr_id x = jr_id (cappedRow ts j)" by (metis imageE)
      then have "x \<in> set ?c" "mustRetire atBoot x" "jr_id x = jr_id (cappedRow ts j)" by auto
      with same_row [OF ids, of x "cappedRow ts j"] j have "x = cappedRow ts j" by simp
      with \<open>mustRetire atBoot x\<close> False show False by simp
    qed
    from fold_failed_other [OF this] False show ?thesis by (simp add: retireRow_def)
  qed
  then show ?thesis unfolding retireWorkflowRetries_def Let_def fold_retire_jobs c map_map comp_def
    by (intro map_cong refl)
qed

lemma retireRow_le: "job_le j (retireRow ts atBoot j)"
  by (auto simp: job_le_def retireRow_def cappedRow_def failedRow_def mustRetire_def job_active_def)

lemma retireRow_queued:
  "jr_status (retireRow ts b j) = job_queued \<Longrightarrow> jr_job_type j = RUN_FLOW \<Longrightarrow> jr_attempt j = 0"
  by (auto simp: retireRow_def failedRow_def mustRetire_def split: if_splits)

lemma retireRow_attempt [simp]: "jr_attempt (retireRow ts b j) = jr_attempt j"
  by (simp add: retireRow_def failedRow_def)

lemma retireRow_type [simp]: "jr_job_type (retireRow ts b j) = jr_job_type j" "jr_id (retireRow ts b j) = jr_id j"
  by (simp_all add: retireRow_def failedRow_def)

lemma retire_moves:
  "distinct (map jr_id (wd_jobs db)) \<Longrightarrow> job_moves (wd_jobs db) (wd_jobs (retireWorkflowRetries ts b db))"
  by (simp add: retire_jobs job_moves_map retireRow_le)


section \<open>Cancellation, row by row\<close>

definition cancelable :: "WorkflowDb \<Rightarrow> string \<Rightarrow> bool" where
  "cancelable db i = (case getFlowRun db i of None \<Rightarrow> False
     | Some r \<Rightarrow> getRunCancellation db i \<noteq> None \<or> run_open (fr_status r))"

definition cancelRow :: "int \<Rightarrow> string \<Rightarrow> JobRow \<Rightarrow> JobRow" where
  "cancelRow ts i j = (if jr_job_type j = RUN_FLOW \<and> job_active (jr_status j) \<and> jobOfRun i j
     then j\<lparr>jr_status := job_canceled, jr_locked_until := None, jr_updated := ts\<rparr> else j)"

definition cancellationOf :: "int \<Rightarrow> string \<Rightarrow> WorkflowDb \<Rightarrow> RunCancellation" where
  "cancellationOf ts i db = (case getRunCancellation db i of Some c \<Rightarrow> c
     | None \<Rightarrow> \<lparr> rc_runId = i, rc_acknowledgedAt = ts, rc_statusAtRequest = fr_status (the (getFlowRun db i)),
         rc_inFlightMayHaveCompleted = (fr_status (the (getFlowRun db i)) = run_running \<or>
           fr_start_time (the (getFlowRun db i)) \<noteq> None) \<rparr>)"

definition stopRow :: "int \<Rightarrow> RunCancellation \<Rightarrow> FlowRunRow \<Rightarrow> FlowRunRow" where
  "stopRow ts c r = r\<lparr>fr_status := run_stopped, fr_finish_time := Some (rc_acknowledgedAt c), fr_updated := ts\<rparr>"

lemma cancelRow_le: "job_le j (cancelRow ts i j)"
  by (simp add: job_le_def cancelRow_def)

lemma cancel_effect:
  assumes "cancelable db i"
  shows "wd_jobs (snd (cancelFlowRun ts i db)) = map (cancelRow ts i) (wd_jobs db)"
    and "wd_runs (snd (cancelFlowRun ts i db)) =
      map (\<lambda>r. if fr_id r = i then stopRow ts (cancellationOf ts i db) r else r) (wd_runs db)"
    and "wd_cancellations (snd (cancelFlowRun ts i db)) =
      wd_cancellations db @ (if getRunCancellation db i = None then [cancellationOf ts i db] else [])"
    and "wd_waitpoints (snd (cancelFlowRun ts i db)) = wd_waitpoints db"
    and "wd_signals (snd (cancelFlowRun ts i db)) = wd_signals db @ [i]"
    and "\<exists>res. fst (cancelFlowRun ts i db) = Inr res \<and> cr_accepted res \<and> cr_cancellation res = Some (cancellationOf ts i db)"
  using assms
  by (auto simp: cancelable_def cancelFlowRun_def Let_def sql_update_def cancelRow_def stopRow_def cancellationOf_def
      split: option.splits)

lemma cancel_refused: "\<not> cancelable db i \<Longrightarrow> snd (cancelFlowRun ts i db) = db"
  by (auto simp: cancelable_def cancelFlowRun_def split: option.splits)

lemma cancel_moves: "job_moves (wd_jobs db) (wd_jobs (snd (cancelFlowRun ts i db)))"
  by (cases "cancelable db i") (simp_all add: cancel_effect cancel_refused job_moves_map cancelRow_le)

lemma fold_moves:
  assumes "\<And>x d. job_moves (wd_jobs d) (wd_jobs (f x d))"
  shows "job_moves (wd_jobs db) (wd_jobs (fold f xs db))"
proof (induction xs arbitrary: db)
  case (Cons x xs)
  from job_moves_trans [OF assms Cons.IH [of "f x db"]] show ?case by simp
qed simp

lemma recoverCanceled_moves: "job_moves (wd_jobs db) (wd_jobs (recoverCanceledRuns ts db))"
  unfolding recoverCanceledRuns_def by (rule fold_moves) (rule cancel_moves)

lemma job_moves_distinct: "job_moves js js' \<Longrightarrow> distinct (map jr_id js') = distinct (map jr_id js)"
  by (simp add: job_moves_ids)

lemma sort_head_mem: "sort_key k xs = y # ys \<Longrightarrow> y \<in> set xs"
  by (metis list.set_intros(1) set_sort)

lemma claim_moves:
  assumes "distinct (map jr_id (wd_jobs db))"
  shows "job_moves (wd_jobs db) (wd_jobs (snd (claimNextJob now lease db)))"
proof -
  let ?d = "retireWorkflowRetries now False db"
  note retire = retire_moves [OF assms, of now False]
  then have ids: "distinct (map jr_id (wd_jobs ?d))" using assms by (simp add: job_moves_distinct)
  show ?thesis
  proof (cases "nextReady now (wd_jobs ?d)")
    case None
    then show ?thesis using retire by (simp add: claimNextJob_def Let_def)
  next
    case (Some j)
    then have mem: "j \<in> set (filter (jobReady now) (wd_jobs ?d))"
      by (auto simp: nextReady_def dest: sort_head_mem split: list.splits)
    then have "job_le j (claimRow now l j)" for l
      by (auto simp: job_le_def claimRow_def jobReady_def job_active_def)
    then have "job_moves (wd_jobs ?d) (wd_jobs (setJobs (\<lambda>x. jr_id x = jr_id j) (claimRow now l) ?d))" for l
      using job_moves_at [OF ids] mem by simp
    then show ?thesis using Some job_moves_trans [OF retire]
      by (simp add: claimNextJob_def Let_def del: setJobs_jobs split: option.split)
  qed
qed

lemma complete_moves: "job_moves (wd_jobs db) (wd_jobs (snd (completeJob ts i db)))"
  by (simp add: completeJob_def Let_def sql_update_def job_moves_map job_le_def job_active_def)

lemma jobRow_mem: "jobRow db i = Some j \<Longrightarrow> j \<in> set (wd_jobs db) \<and> jr_id j = i"
  unfolding jobRow_def using sql_get_key by fastforce

lemma getJob_row: "getJob db i = Inr (Some job) \<Longrightarrow> \<exists>j. jobRow db i = Some j \<and> rowToJob j = Some job"
  by (auto simp: getJob_def split: option.splits)

lemma rowToJob_simps:
  "rowToJob j = Some job \<Longrightarrow> jb_id job = jr_id j \<and> jb_status job = jr_status j \<and> jb_attempt job = jr_attempt j \<and>
     jb_jobType job = jr_job_type j \<and> jb_maxAttempts job = jr_max_attempts j \<and> jb_flowRunId job = jr_flow_run_id j \<and>
     JSON_parse (jr_payload j) = Some (jb_payload job)"
  by (auto simp: rowToJob_def)

lemma fail_moves:
  assumes ids: "distinct (map jr_id (wd_jobs db))"
  shows "job_moves (wd_jobs db) (wd_jobs (snd (failJob ts i err opts db)))"
proof (cases "\<exists>job. getJob db i = Inr (Some job) \<and> jb_status job = job_running")
  case True
  then obtain job j where j: "getJob db i = Inr (Some job)" "jb_status job = job_running"
    "jobRow db i = Some j" "rowToJob j = Some job" using getJob_row by blast
  from jobRow_mem [OF j(3)] rowToJob_simps [OF j(4)] j(2)
  have mem: "j \<in> set (wd_jobs db)" "jr_id j = i" "jr_status j = job_running" by auto
  have "job_moves (wd_jobs db) (wd_jobs (setJobs (\<lambda>x. jr_id x = i) f db))" if "job_le j (f j)" for f
    using job_moves_at [OF ids mem(1), of f] that mem(2) by simp
  then show ?thesis using j(1,2) mem(3)
    by (simp add: failJob_def job_le_def job_active_def del: setJobs_jobs)
next
  case False
  then have "snd (failJob ts i err opts db) = db"
    by (auto simp: failJob_def split: sum.split option.split)
  then show ?thesis by simp
qed

lemma cancelJob_moves: "job_moves (wd_jobs db) (wd_jobs (snd (cancelJob ts i db)))"
  by (auto simp: cancelJob_def Let_def cancel_moves job_moves_map job_le_def split: sum.split)

lemma recover_moves:
  assumes "distinct (map jr_id (wd_jobs db))"
  shows "job_moves (wd_jobs db) (wd_jobs (snd (recoverOrphanedJobs ts db)))"
proof -
  let ?c = "recoverCanceledRuns ts db"
  have "distinct (map jr_id (wd_jobs ?c))"
    using job_moves_distinct [OF recoverCanceled_moves] assms by simp
  from job_moves_trans [OF recoverCanceled_moves retire_moves [OF this]]
  have "job_moves (wd_jobs db) (wd_jobs (retireWorkflowRetries ts True ?c))" .
  moreover have "job_moves js (map g (map f js))"
    if "\<And>j. job_le j (f j)" "\<And>j. job_le j (g j)" for js f g
    by (rule job_moves_trans) (rule job_moves_map, rule that)+
  ultimately show ?thesis
    by (auto simp: recoverOrphanedJobs_def Let_def sql_update_def job_le_def job_active_def elim!: job_moves_trans
        intro!: job_moves_map)
qed

lemma enqueue_effect:
  "(\<exists>e. enqueueJob i ts input db = (Inl e, db)) \<or>
   (jobRow db i = None \<and> snd (enqueueJob i ts input db) = db\<lparr>wd_jobs := wd_jobs db @ [newJobRow i ts input]\<rparr> \<and>
    \<not> (ei_jobType input = RUN_FLOW \<and> js_truthy (enqueueRunId input) \<and>
         getRunCancellation db (the (enqueueRunId input)) \<noteq> None))"
  by (auto simp: enqueueJob_def Let_def)

lemma jobRow_None: "jobRow db i = None \<longleftrightarrow> i \<notin> jr_id ` set (wd_jobs db)"
  by (simp add: jobRow_def sql_get_none)

lemma ensure_jobs [simp]: "wd_jobs (snd (ensureRunExecutionConfig i initial db)) = wd_jobs db"
  by (auto simp: ensureRunExecutionConfig_def Let_def split: option.splits)

lemma other_jobs [simp]:
  "wd_jobs (snd (createFlowRun i ts cinput db)) = wd_jobs db"
  "wd_jobs (snd (updateRun now i patch db)) = wd_jobs db"
  "wd_jobs (deleteFlow f db) = wd_jobs db"
  "wd_jobs (snd (createWaitpoint i now winput db)) = wd_jobs db"
  "wd_jobs (snd (markWaitpointResumed now i db)) = wd_jobs db"
  by (simp_all add: createFlowRun_def updateRun_def deleteFlow_def createWaitpoint_def markWaitpointResumed_def Let_def
      split: option.split)

fun enqueues :: "WfOp \<Rightarrow> bool" where
  "enqueues (OpEnqueue _ _ _) = True"
| "enqueues _ = False"

lemma wfOp_moves:
  "distinct (map jr_id (wd_jobs db)) \<Longrightarrow> \<not> enqueues op \<Longrightarrow> job_moves (wd_jobs db) (wd_jobs (wfOp op db))"
  by (cases op) (simp_all add: cancel_moves claim_moves complete_moves fail_moves cancelJob_moves recover_moves)

lemma wfOp_jobs_le:
  assumes "distinct (map jr_id (wd_jobs db))"
  shows "jobs_le (wd_jobs db) (wd_jobs (wfOp op db))"
proof (cases "enqueues op")
  case True
  then obtain i ts input where op: "op = OpEnqueue i ts input" by (cases op) auto
  from enqueue_effect [of i ts input db] show ?thesis
  proof
    assume "jobRow db i = None \<and> snd (enqueueJob i ts input db) = db\<lparr>wd_jobs := wd_jobs db @ [newJobRow i ts input]\<rparr> \<and>
      \<not> (ei_jobType input = RUN_FLOW \<and> js_truthy (enqueueRunId input) \<and>
         getRunCancellation db (the (enqueueRunId input)) \<noteq> None)"
    then show ?thesis unfolding op by (simp add: jobs_le_append jobRow_None newJobRow_def)
  qed (auto simp: op)
qed (use assms in \<open>simp add: jobs_le_moves wfOp_moves\<close>)

lemma wfRun_jobs_le:
  assumes "distinct (map jr_id (wd_jobs db))"
  shows "jobs_le (wd_jobs db) (wd_jobs (wfRun ops db))"
  using assms
proof (induction ops arbitrary: db)
  case (Cons op ops)
  note step = wfOp_jobs_le [OF Cons.prems, of op]
  from jobs_le_trans [OF step Cons.IH [OF jobs_le_distinct [OF step Cons.prems]]] show ?case by simp
qed simp

lemma wfRun_distinct: "distinct (map jr_id (wd_jobs db)) \<Longrightarrow> distinct (map jr_id (wd_jobs (wfRun ops db)))"
  using wfRun_jobs_le jobs_le_distinct by blast

end
