(* ===== verification/Workflow_Queue.thy ===== *)
theory Workflow_Queue
  imports Queue_Invariant
begin

text \<open>
  What the job queue promises: which job a claim hands out, that a workflow job is handed out at most once
  whatever happens in between, what a failure and a restart do to a job.  The invariant \<open>wf_ok\<close> and the
  finality of a stop decision are in \<open>Run_Fence\<close>.
\<close>


section \<open>Claims\<close>

definition claimableJob :: "int \<Rightarrow> JobRow \<Rightarrow> bool" where
  "claimableJob now j = (jobReady now j \<and> \<not> mustRetire False j)"

lemma retireRow_ready: "jobReady now (retireRow ts False j) \<longleftrightarrow> claimableJob now j"
  by (auto simp: claimableJob_def jobReady_def retireRow_def failedRow_def mustRetire_def cappedRow_def)

lemma retireRow_claimable:
  "claimableJob now j \<Longrightarrow> retireRow ts False j = cappedRow ts j"
  by (simp add: claimableJob_def retireRow_def)

lemma cappedRow_keeps [simp]:
  "claimKey (cappedRow ts j) = claimKey j" "jr_payload (cappedRow ts j) = jr_payload j"
  "jr_priority (cappedRow ts j) = jr_priority j"
  by (simp_all add: cappedRow_def claimKey_def)

lemma sort_head_least: "sort_key k xs = y # ys \<Longrightarrow> x \<in> set xs \<Longrightarrow> k y \<le> k x"
  by (metis set_ConsD set_sort sorted_sort_key list.simps(9) order_refl sorted_simps(2) image_eqI list.set_map)

lemma filter_map_retire:
  "filter (jobReady now) (map (retireRow ts False) js) = map (cappedRow ts) (filter (claimableJob now) js)"
  by (induction js) (simp_all add: retireRow_ready retireRow_claimable)

text \<open>The claim, read off the table as it was before the call.\<close>

lemma claim_cases:
  assumes ids: "distinct (map jr_id (wd_jobs db))"
  obtains (none) "\<forall>j \<in> set (wd_jobs db). \<not> claimableJob now j"
      "claimNextJob now lease db = (Inr None, retireWorkflowRetries now False db)"
  | (some) j where "j \<in> set (wd_jobs db)" "claimableJob now j"
      "\<forall>x \<in> set (wd_jobs db). claimableJob now x \<longrightarrow> claimKey j \<le> claimKey x"
      "claimNextJob now lease db =
        (case rowToJob (claimRow now (now + js_or lease DEFAULT_LEASE_MS) (cappedRow now j)) of
           None \<Rightarrow> (Inl (WfThrew ''SyntaxError''), db)
         | Some job \<Rightarrow> (Inr (Some job), setJobs (\<lambda>x. jr_id x = jr_id j)
             (claimRow now (now + js_or lease DEFAULT_LEASE_MS)) (retireWorkflowRetries now False db)))"
proof -
  let ?d = "retireWorkflowRetries now False db"
  have ready: "filter (jobReady now) (wd_jobs ?d) = map (cappedRow now) (filter (claimableJob now) (wd_jobs db))"
    by (simp add: retire_jobs [OF ids] filter_map_retire)
  show thesis
  proof (cases "sort_key claimKey (filter (jobReady now) (wd_jobs ?d))")
    case Nil
    then have "filter (jobReady now) (wd_jobs ?d) = []" by (metis set_empty set_sort)
    then have "\<forall>j \<in> set (wd_jobs db). \<not> claimableJob now j" unfolding ready by (simp add: filter_empty_conv)
    moreover have "claimNextJob now lease db = (Inr None, ?d)"
      using Nil by (simp add: claimNextJob_def Let_def nextReady_def)
    ultimately show thesis by (rule none)
  next
    case (Cons r rs)
    from sort_head_mem [OF Cons] have "r \<in> set (map (cappedRow now) (filter (claimableJob now) (wd_jobs db)))"
      unfolding ready .
    then obtain j where j: "r = cappedRow now j" "j \<in> set (wd_jobs db)" "claimableJob now j" by auto
    have least: "\<forall>x \<in> set (wd_jobs db). claimableJob now x \<longrightarrow> claimKey j \<le> claimKey x"
    proof (intro ballI impI)
      fix x assume "x \<in> set (wd_jobs db)" "claimableJob now x"
      then have "cappedRow now x \<in> set (filter (jobReady now) (wd_jobs ?d))" unfolding ready by auto
      from sort_head_least [OF Cons this] j(1) show "claimKey j \<le> claimKey x" by simp
    qed
    have "claimNextJob now lease db =
        (case rowToJob (claimRow now (now + js_or lease DEFAULT_LEASE_MS) (cappedRow now j)) of
           None \<Rightarrow> (Inl (WfThrew ''SyntaxError''), db)
         | Some job \<Rightarrow> (Inr (Some job), setJobs (\<lambda>x. jr_id x = jr_id j)
             (claimRow now (now + js_or lease DEFAULT_LEASE_MS)) ?d))"
      using Cons j(1) by (simp add: claimNextJob_def Let_def nextReady_def split: option.split)
    from some [OF j(2,3) least this] show thesis .
  qed
qed

lemma claimRow_simps [simp]:
  "jr_id (claimRow now l j) = jr_id j" "jr_attempt (claimRow now l j) = Suc (jr_attempt j)"
  "jr_job_type (claimRow now l j) = jr_job_type j" "jr_status (claimRow now l j) = job_running"
  "jr_locked_until (claimRow now l j) = Some l" "jr_payload (claimRow now l j) = jr_payload j"
  by (simp_all add: claimRow_def)

lemma claimable_workflow: "claimableJob now j \<Longrightarrow> jr_job_type j = RUN_FLOW \<Longrightarrow> jr_status j = job_queued \<and> jr_attempt j = 0"
  by (auto simp: claimableJob_def jobReady_def mustRetire_def)

text \<open>The row a successful claim hands out, before and after.\<close>

lemma job_claim_row:
  assumes ids: "distinct (map jr_id (wd_jobs db))"
    and claim: "claimNextJob now lease db = (Inr (Some job), db')"
  obtains j j' where "jobRow db (jb_id job) = Some j" "claimableJob now j" "jb_attempt job = Suc (jr_attempt j)"
    "jb_jobType job = jr_job_type j" "jobRow db' (jb_id job) = Some j'" "rowToJob j' = Some job"
  using ids
proof (cases rule: claim_cases [where now = now and lease = lease])
  case none
  with claim show thesis by simp
next
  case (some j)
  let ?l = "now + js_or lease DEFAULT_LEASE_MS" and ?d = "retireWorkflowRetries now False db"
  note least = some(3) and eq = some(4)
  from eq claim have job: "rowToJob (claimRow now ?l (cappedRow now j)) = Some job"
    and db': "db' = setJobs (\<lambda>x. jr_id x = jr_id j) (claimRow now ?l) ?d"
    by (auto split: option.splits)
  from rowToJob_simps [OF job] have jb: "jb_id job = jr_id j" "jb_attempt job = Suc (jr_attempt j)"
    "jb_jobType job = jr_job_type j" by simp_all
  have row: "jobRow db (jb_id job) = Some j"
    unfolding jobRow_def jb(1) by (rule sql_get_mem [OF ids some(1)]) simp
  have "distinct (map jr_id (wd_jobs db'))"
    using claim_moves [OF ids, of now lease] claim ids by (simp add: job_moves_distinct)
  moreover have "claimRow now ?l (cappedRow now j) \<in> set (wd_jobs db')"
    using some(1,2) by (force simp: db' retire_jobs [OF ids] retireRow_claimable)
  ultimately have "jobRow db' (jb_id job) = Some (claimRow now ?l (cappedRow now j))"
    unfolding jobRow_def jb(1) by (rule sql_get_mem) simp
  with that row some(2) jb job show thesis by blast
qed

text \<open>Handing out a workflow job spends it.\<close>

definition claimsWorkflowJob :: "string \<Rightarrow> WfOp \<Rightarrow> WorkflowDb \<Rightarrow> bool" where
  "claimsWorkflowJob i op db = (case op of
     OpClaim now lease \<Rightarrow>
       (case fst (claimNextJob now lease db) of
          Inr (Some job) \<Rightarrow> jb_id job = i \<and> jb_jobType job = RUN_FLOW | _ \<Rightarrow> False)
   | _ \<Rightarrow> False)"

definition attemptedJob :: "string \<Rightarrow> WorkflowDb \<Rightarrow> bool" where
  "attemptedJob i db = (\<exists>j. jobRow db i = Some j \<and> (jr_attempt j > 0 \<or> jr_job_type j \<noteq> RUN_FLOW))"

lemma claimsWorkflowJob_cases:
  assumes "claimsWorkflowJob i op db"
  obtains now lease job where "op = OpClaim now lease" "claimNextJob now lease db = (Inr (Some job), wfOp op db)"
    "jb_id job = i" "jb_jobType job = RUN_FLOW"
proof (cases op)
  case (OpClaim now lease)
  with assms obtain job where "fst (claimNextJob now lease db) = Inr (Some job)" "jb_id job = i" "jb_jobType job = RUN_FLOW"
    by (auto simp: claimsWorkflowJob_def split: sum.splits option.splits)
  with OpClaim that show thesis by (metis prod.collapse wfOp.simps(6))
qed (use assms in \<open>simp_all add: claimsWorkflowJob_def\<close>)

interpretation jobClaim: one_shot wfOp "claimsWorkflowJob i" "attemptedJob i"
    "\<lambda>db :: WorkflowDb. distinct (map jr_id (wd_jobs db))"
  for i
proof unfold_locales
  fix db :: WorkflowDb and op :: WfOp
  assume ids: "distinct (map jr_id (wd_jobs db))"
  show "distinct (map jr_id (wd_jobs (wfOp op db)))" by (rule jobs_le_distinct [OF wfOp_jobs_le [OF ids] ids])
  show "attemptedJob i (wfOp op db)" if "attemptedJob i db"
  proof -
    from that obtain j where j: "jobRow db i = Some j" "jr_attempt j > 0 \<or> jr_job_type j \<noteq> RUN_FLOW"
      by (auto simp: attemptedJob_def)
    from jobs_le_get [OF wfOp_jobs_le [OF ids] j(1) [unfolded jobRow_def]] obtain j' where
      "jobRow (wfOp op db) i = Some j'" "job_le j j'" unfolding jobRow_def by blast
    with j(2) show ?thesis by (auto simp: attemptedJob_def job_le_def)
  qed
  show "attemptedJob i (wfOp op db)" if "claimsWorkflowJob i op db"
    using that
  proof (rule claimsWorkflowJob_cases)
    fix now lease job
    assume c: "claimNextJob now lease db = (Inr (Some job), wfOp op db)" and i: "jb_id job = i"
    obtain j j' where j: "jobRow db (jb_id job) = Some j" "claimableJob now j" "jb_attempt job = Suc (jr_attempt j)"
      "jb_jobType job = jr_job_type j" "jobRow (wfOp op db) (jb_id job) = Some j'" "rowToJob j' = Some job"
      by (rule job_claim_row [OF ids c])
    from j(3) rowToJob_simps [OF j(6)] have "jr_attempt j' > 0" by simp
    with j(5) show ?thesis unfolding attemptedJob_def i by blast
  qed
  show "\<not> claimsWorkflowJob i op db" if spent: "attemptedJob i db"
  proof
    assume "claimsWorkflowJob i op db"
    then show False
    proof (rule claimsWorkflowJob_cases)
      fix now lease job
      assume "claimNextJob now lease db = (Inr (Some job), wfOp op db)" "jb_id job = i" "jb_jobType job = RUN_FLOW"
      note c = this
      obtain j j' where j: "jobRow db (jb_id job) = Some j" "claimableJob now j" "jb_attempt job = Suc (jr_attempt j)"
        "jb_jobType job = jr_job_type j" "jobRow (wfOp op db) (jb_id job) = Some j'" "rowToJob j' = Some job"
        by (rule job_claim_row [OF ids c(1)])
      from claimable_workflow [OF j(2)] j(4) c(3) have "jr_attempt j = 0" by simp
      with spent j(1,4) c(2,3) show False by (auto simp: attemptedJob_def)
    qed
  qed
qed

text \<open>a workflow job is handed out at most once.\<close>

theorem workflow_job_claimed_once:
  assumes "distinct (map jr_id (wd_jobs db))"
  shows "win_count wfOp (claimsWorkflowJob i) ops db \<le> 1"
  by (rule jobClaim.count_le_1 [OF assms])

definition resend_job :: EnqueueInput where
  "resend_job = \<lparr> ei_jobType = RUN_FLOW, ei_payload = JObj [], ei_flowRunId = None,
     ei_flowId = None, ei_flowVersionId = None, ei_priority = None, ei_scheduledAt = None, ei_maxAttempts = Some 5 \<rparr>"

theorem workflow_job_claimed_once_witness:
  "win_count wfOp (claimsWorkflowJob ''j'')
     [OpEnqueue ''j'' 0 resend_job, OpClaim 1 (Some 10), OpClaim 20 None, OpRecover 30, OpClaim 40 None] emptyDb = 1"
proof -
  have "win_count wfOp (claimsWorkflowJob ''j'')
     [OpEnqueue ''j'' 0 resend_job, OpClaim 1 (Some 10), OpClaim 20 None, OpRecover 30, OpClaim 40 None] emptyDb \<le> 1"
    by (rule workflow_job_claimed_once) (simp add: emptyDb_def)
  moreover have "claimsWorkflowJob ''j'' (OpClaim 1 (Some 10)) (wfOp (OpEnqueue ''j'' 0 resend_job) emptyDb)"
    by code_simp
  ultimately show ?thesis by simp
qed

end
