(* ===== verification/Run_Fence.thy ===== *)
theory Run_Fence
  imports Workflow_Queue
begin

text \<open>
  The stop decision on a workflow run.  \<open>wf_ok\<close> is the invariant of the workflow tables: a canceled run is
  \<^verbatim>\<open>STOPPED\<close> at the time of the acknowledgement, no workflow job of it is active, job ids are unique and
  every payload parses.  Each operation keeps it, and none takes a stop decision back; a run is canceled
  until its flow is deleted.
\<close>


section \<open>Lookups\<close>

lemma getFlowRun_mapRuns:
  "(\<And>r. fr_id (f r) = fr_id r) \<Longrightarrow> getFlowRun (mapRuns f db) i = map_option f (getFlowRun db i)"
  unfolding getFlowRun_def mapRuns_simps sql_get_def by (rule find_map_same) simp

lemma sql_get_filter_key:
  "sql_get key k (filter (\<lambda>r. key r \<notin> A) rows) = (if k \<in> A then None else sql_get key k rows)"
  by (induction rows) (auto simp: sql_get_def)

lemma getFlowRun_id: "getFlowRun db i = Some r \<Longrightarrow> fr_id r = i"
  unfolding getFlowRun_def using sql_get_key by fastforce

lemma getRunCancellation_id: "getRunCancellation db i = Some c \<Longrightarrow> rc_runId c = i"
  unfolding getRunCancellation_def using sql_get_key by fastforce

lemma same_tables:
  "wd_runs db' = wd_runs db \<Longrightarrow> getFlowRun db' = getFlowRun db"
  "wd_cancellations db' = wd_cancellations db \<Longrightarrow> getRunCancellation db' = getRunCancellation db"
  by (simp_all add: getFlowRun_def getRunCancellation_def fun_eq_iff)


section \<open>Closed runs are left alone\<close>

definition closed_kept :: "WorkflowDb \<Rightarrow> WorkflowDb \<Rightarrow> bool" where
  "closed_kept db db' = (wd_cancellations db' = wd_cancellations db \<and>
     (\<forall>i. getFlowRun db i = None \<longrightarrow> getFlowRun db' i = None) \<and>
     (\<forall>i r. getFlowRun db i = Some r \<longrightarrow>
        (\<exists>r'. getFlowRun db' i = Some r' \<and> (\<not> run_open (fr_status r) \<longrightarrow> r' = r))))"

lemma closed_kept_refl [simp]: "closed_kept db db"
  by (simp add: closed_kept_def)

lemma closed_kept_trans:
  assumes "closed_kept a b" "closed_kept b c"
  shows "closed_kept a c"
proof -
  have "\<exists>r''. getFlowRun c i = Some r'' \<and> (\<not> run_open (fr_status r) \<longrightarrow> r'' = r)"
    if "getFlowRun a i = Some r" for i r
  proof -
    from assms(1) that obtain r' where r': "getFlowRun b i = Some r'" "\<not> run_open (fr_status r) \<longrightarrow> r' = r"
      unfolding closed_kept_def by blast
    with assms(2) obtain r'' where "getFlowRun c i = Some r''" "\<not> run_open (fr_status r') \<longrightarrow> r'' = r'"
      unfolding closed_kept_def by blast
    with r'(2) show ?thesis by auto
  qed
  with assms show ?thesis unfolding closed_kept_def by metis
qed

lemma closed_kept_tables:
  "wd_runs db' = wd_runs db \<Longrightarrow> wd_cancellations db' = wd_cancellations db \<Longrightarrow> closed_kept db db'"
  unfolding closed_kept_def getFlowRun_def by auto

lemma closed_kept_mapRuns:
  assumes "\<And>r. fr_id (f r) = fr_id r" "\<And>r. \<not> run_open (fr_status r) \<Longrightarrow> f r = r"
  shows "closed_kept db (mapRuns f db)"
  using assms(2) by (auto simp: closed_kept_def getFlowRun_mapRuns [OF assms(1)])

lemma closed_kept_fold: "(\<And>x d. closed_kept d (f x d)) \<Longrightarrow> closed_kept db (fold f xs db)"
proof (induction xs arbitrary: db)
  case (Cons x xs)
  from closed_kept_trans [OF Cons.prems Cons.IH [OF Cons.prems]] show ?case by simp
qed simp

lemma closed_kept_setJobs [simp]: "closed_kept db (setJobs p f db)"
  by (rule closed_kept_tables) simp_all

lemma closed_kept_retireRun: "closed_kept db (retireRun ts i s db)"
  unfolding retireRun_def by (rule closed_kept_mapRuns) auto

lemma closed_kept_retireJob: "closed_kept db (retireJob ts job db)"
  unfolding retireJob_def Let_def
  using closed_kept_trans [OF closed_kept_setJobs closed_kept_retireRun] by auto

lemma closed_kept_retire: "closed_kept db (retireWorkflowRetries ts b db)"
  unfolding retireWorkflowRetries_def Let_def
  by (rule closed_kept_trans [OF closed_kept_setJobs]) (rule closed_kept_fold, rule closed_kept_retireJob)

lemma closed_kept_claim: "closed_kept db (snd (claimNextJob now lease db))"
  using closed_kept_trans [OF closed_kept_retire closed_kept_setJobs]
  by (auto simp: claimNextJob_def Let_def closed_kept_retire split: option.split)

lemma closed_kept_complete: "closed_kept db (snd (completeJob ts i db))"
  by (rule closed_kept_tables) (simp_all add: completeJob_def Let_def)

lemma closed_kept_fail: "closed_kept db (snd (failJob ts i err opts db))"
  by (auto simp: failJob_def split: sum.split option.split)

lemma closed_kept_enqueue: "closed_kept db (snd (enqueueJob i ts input db))"
  by (rule closed_kept_tables) (simp_all add: enqueueJob_def Let_def)

lemma closed_kept_waitpoint:
  "closed_kept db (snd (createWaitpoint i now input db))" "closed_kept db (snd (markWaitpointResumed now i db))"
  by (rule closed_kept_tables, simp_all add: createWaitpoint_def markWaitpointResumed_def Let_def)+


section \<open>The invariant\<close>

definition stoppedRun :: "WorkflowDb \<Rightarrow> string \<Rightarrow> RunCancellation \<Rightarrow> bool" where
  "stoppedRun db i c = (\<exists>r. getFlowRun db i = Some r \<and> fr_status r = run_stopped \<and>
     fr_finish_time r = Some (rc_acknowledgedAt c))"

definition jobFreeOf :: "JobRow list \<Rightarrow> string \<Rightarrow> bool" where
  "jobFreeOf jobs i = (\<forall>j \<in> set jobs. jr_job_type j = RUN_FLOW \<longrightarrow> job_active (jr_status j) \<longrightarrow> \<not> jobOfRun i j)"

definition wf_ok :: "WorkflowDb \<Rightarrow> bool" where
  "wf_ok db = (distinct (map jr_id (wd_jobs db)) \<and> getFlowRun db [] = None \<and>
     (\<forall>j \<in> set (wd_jobs db). JSON_parse (jr_payload j) \<noteq> None) \<and>
     (\<forall>i c. getRunCancellation db i = Some c \<longrightarrow> stoppedRun db i c \<and> jobFreeOf (wd_jobs db) i))"

definition validOp :: "WfOp \<Rightarrow> bool" where
  "validOp op = (case op of OpCreateRun i _ _ \<Rightarrow> i \<noteq> [] | OpEnqueue _ _ input \<Rightarrow> json_ok (ei_payload input)
     | _ \<Rightarrow> True)"

lemma job_le_active: "job_le j j' \<Longrightarrow> job_active (jr_status j') \<Longrightarrow> job_active (jr_status j)"
  by (auto simp: job_le_def)

lemma jobFree_moves:
  assumes "job_moves js js'" "jobFreeOf js i"
  shows "jobFreeOf js' i"
  unfolding jobFreeOf_def
proof (intro ballI impI)
  fix j' assume "j' \<in> set js'" and j': "jr_job_type j' = RUN_FLOW" "job_active (jr_status j')"
  with job_moves_mem [OF assms(1)] obtain j where j: "j \<in> set js" "job_le j j'" by blast
  with j' assms(2) job_le_active [OF j(2)] have "\<not> jobOfRun i j" by (auto simp: jobFreeOf_def job_le_def)
  with j(2) show "\<not> jobOfRun i j'" by (simp add: job_le_def jobOfRun_def)
qed

lemma payload_moves:
  "job_moves js js' \<Longrightarrow> \<forall>j \<in> set js. JSON_parse (jr_payload j) \<noteq> None \<Longrightarrow>
     \<forall>j \<in> set js'. JSON_parse (jr_payload j) \<noteq> None"
  unfolding job_le_def [abs_def] by (induction rule: list_all2_induct) simp_all

lemma wf_ok_frame:
  assumes ok: "wf_ok db" and moves: "job_moves (wd_jobs db) (wd_jobs db')"
    and canc: "wd_cancellations db' = wd_cancellations db"
    and stop: "\<And>i c. getRunCancellation db i = Some c \<Longrightarrow> stoppedRun db i c \<Longrightarrow> stoppedRun db' i c"
    and none: "getFlowRun db' [] = None"
  shows "wf_ok db'"
  using ok none payload_moves [OF moves] jobFree_moves [OF moves] stop
  unfolding wf_ok_def job_moves_distinct [OF moves] same_tables(2) [OF canc] by blast

lemma closed_kept_stopped:
  assumes "closed_kept db db'" "stoppedRun db i c"
  shows "stoppedRun db' i c"
proof -
  from assms(2) obtain r where r: "getFlowRun db i = Some r" "fr_status r = run_stopped"
    "fr_finish_time r = Some (rc_acknowledgedAt c)" unfolding stoppedRun_def by blast
  from assms(1) r(1) obtain r' where "getFlowRun db' i = Some r'" "\<not> run_open (fr_status r) \<longrightarrow> r' = r"
    unfolding closed_kept_def by blast
  with r(2) have "getFlowRun db' i = Some r" by (simp add: run_open_def)
  with r show ?thesis by (simp add: stoppedRun_def)
qed

lemma wf_ok_closed:
  assumes "wf_ok db" "job_moves (wd_jobs db) (wd_jobs db')" "closed_kept db db'"
  shows "wf_ok db'"
  using assms(1,2)
proof (rule wf_ok_frame)
  show "wd_cancellations db' = wd_cancellations db" using assms(3) by (simp add: closed_kept_def)
  show "getFlowRun db' [] = None"
    using assms(1,3) by (simp add: closed_kept_def wf_ok_def)
qed (rule closed_kept_stopped [OF assms(3)])


lemma wf_ok_canceled:
  assumes "wf_ok db" "getRunCancellation db i = Some c"
  obtains r where "getFlowRun db i = Some r" "fr_status r = run_stopped" "fr_finish_time r = Some (rc_acknowledgedAt c)"
    "jobFreeOf (wd_jobs db) i" "i \<noteq> []"
  using assms unfolding wf_ok_def stoppedRun_def by (metis option.distinct(1))


section \<open>Cancellation keeps it\<close>

lemma getRunCancellation_cancel:
  assumes "cancelable db i"
  shows "getRunCancellation (snd (cancelFlowRun ts i db)) k =
    (if k = i then Some (cancellationOf ts i db) else getRunCancellation db k)"
  unfolding getRunCancellation_def cancel_effect(3) [OF assms]
  by (auto simp: sql_get_append cancellationOf_def getRunCancellation_def [symmetric] split: option.splits)

lemma getFlowRun_cancel:
  assumes "cancelable db i"
  shows "getFlowRun (snd (cancelFlowRun ts i db)) k =
    map_option (\<lambda>r. if k = i then stopRow ts (cancellationOf ts i db) r else r) (getFlowRun db k)"
proof -
  let ?f = "\<lambda>r. if fr_id r = i then stopRow ts (cancellationOf ts i db) r else r"
  have "getFlowRun (snd (cancelFlowRun ts i db)) k = map_option ?f (getFlowRun db k)"
    unfolding getFlowRun_def cancel_effect(2) [OF assms] sql_get_def
    by (rule find_map_same) (simp add: stopRow_def)
  then show ?thesis using getFlowRun_id [of db k] by (cases "getFlowRun db k") auto
qed

lemma jobFree_cancelRow: "jobFreeOf (map (cancelRow ts i) js) i"
  by (auto simp: jobFreeOf_def cancelRow_def job_active_def jobOfRun_def)

lemma wf_ok_cancel:
  assumes ok: "wf_ok db"
  shows "wf_ok (snd (cancelFlowRun ts i db))"
proof (cases "cancelable db i")
  case True
  let ?d = "snd (cancelFlowRun ts i db)"
  note eff = cancel_effect [OF True, of ts] and moves = cancel_moves [of db ts i]
  from True obtain r where r: "getFlowRun db i = Some r" by (auto simp: cancelable_def split: option.splits)
  have "stoppedRun ?d k c \<and> jobFreeOf (wd_jobs ?d) k" if "getRunCancellation ?d k = Some c" for k c
  proof (cases "k = i")
    case True
    with that r show ?thesis
      by (simp add: getRunCancellation_cancel [OF \<open>cancelable db i\<close>] getFlowRun_cancel [OF \<open>cancelable db i\<close>]
          stoppedRun_def stopRow_def eff(1) jobFree_cancelRow)
  next
    case False
    with that have "getRunCancellation db k = Some c" by (simp add: getRunCancellation_cancel [OF \<open>cancelable db i\<close>])
    with ok False jobFree_moves [OF moves] show ?thesis
      by (auto simp: wf_ok_def stoppedRun_def getFlowRun_cancel [OF \<open>cancelable db i\<close>])
  qed
  moreover have "getFlowRun ?d [] = None" using ok by (simp add: getFlowRun_cancel [OF True] wf_ok_def)
  ultimately show ?thesis
    using ok payload_moves [OF moves] unfolding wf_ok_def job_moves_distinct [OF moves] by blast
qed (simp add: cancel_refused ok)

lemma wf_ok_recoverCanceled: "wf_ok db \<Longrightarrow> wf_ok (recoverCanceledRuns ts db)"
proof -
  have "wf_ok d \<Longrightarrow> wf_ok (fold (\<lambda>r d. snd (cancelFlowRun ts (fr_id r) d)) rs d)" for rs d
    by (induction rs arbitrary: d) (simp_all add: wf_ok_cancel)
  then show "wf_ok db \<Longrightarrow> ?thesis" unfolding recoverCanceledRuns_def by blast
qed

lemma wf_ok_recover:
  assumes "wf_ok db"
  shows "wf_ok (snd (recoverOrphanedJobs ts db))"
proof -
  let ?c = "recoverCanceledRuns ts db"
  let ?r = "retireWorkflowRetries ts True ?c"
  from wf_ok_recoverCanceled [OF assms] have c: "wf_ok ?c" .
  then have r: "wf_ok ?r"
    by (rule wf_ok_closed) (use c in \<open>simp_all add: retire_moves wf_ok_def closed_kept_retire\<close>)
  have "job_moves (wd_jobs d) (wd_jobs (setJobs p f d)) \<Longrightarrow> wf_ok d \<Longrightarrow> wf_ok (setJobs p f d)" for p f d
    using wf_ok_closed [OF _ _ closed_kept_setJobs] .
  note sj = this
  have run: "wf_ok (mapRuns f d)" if "wf_ok d" "\<And>r. fr_id (f r) = fr_id r" "\<And>r. \<not> run_open (fr_status r) \<Longrightarrow> f r = r" for f d
    using that by (intro wf_ok_closed [OF that(1)] closed_kept_mapRuns) simp_all
  define d2 where "d2 = setJobs (\<lambda>j. jr_status j = job_running \<and> jr_attempt j \<ge> jr_max_attempts j)
            (\<lambda>j. j\<lparr>jr_status := job_failed, jr_last_error := Some orphanMessage, jr_locked_until := None,
                   jr_updated := ts\<rparr>) ?r"
  define d3 where "d3 = setJobs (\<lambda>j. jr_status j = job_running \<and> jr_attempt j < jr_max_attempts j)
            (\<lambda>j. j\<lparr>jr_status := job_queued, jr_locked_until := None, jr_scheduled_at := ts, jr_updated := ts\<rparr>) d2"
  have d2: "wf_ok d2" unfolding d2_def
    by (rule sj [OF _ r]) (auto simp: job_moves_map job_le_def job_active_def)
  have d3: "wf_ok d3" unfolding d3_def
    by (rule sj [OF _ d2]) (auto simp: job_moves_map job_le_def job_active_def)
  have "snd (recoverOrphanedJobs ts db) = mapRuns (\<lambda>r. if strandedRun d3 r
            then r\<lparr>fr_status := run_failed, fr_failed_step := Some recoveryStep, fr_finish_time := Some ts,
                   fr_updated := ts\<rparr> else r) d3"
    by (simp add: recoverOrphanedJobs_def Let_def d2_def d3_def setJobs_def)
  also have "wf_ok \<dots>" by (rule run [OF d3]) (simp_all add: strandedRun_def)
  finally show ?thesis .
qed


section \<open>Every operation keeps it\<close>

lemma wf_ok_createRun:
  assumes ok: "wf_ok db" and i: "i \<noteq> []"
  shows "wf_ok (snd (createFlowRun i ts input db))"
  using ok
proof (rule wf_ok_frame)
  show "wd_cancellations (snd (createFlowRun i ts input db)) = wd_cancellations db"
    by (simp add: createFlowRun_def Let_def)
  show "getFlowRun (snd (createFlowRun i ts input db)) [] = None"
    using ok i by (auto simp: createFlowRun_def Let_def wf_ok_def getFlowRun_def sql_get_append)
  show "stoppedRun (snd (createFlowRun i ts input db)) k c" if "stoppedRun db k c" for k c
    using that by (auto simp: createFlowRun_def Let_def stoppedRun_def getFlowRun_def sql_get_append)
qed simp

lemma getFlowRun_update:
  assumes "getFlowRun db i = Some r"
  shows "getFlowRun (snd (updateRun now i patch db)) k =
    map_option (\<lambda>x. if k = i then applyPatch now (case getRunCancellation db i of None \<Rightarrow> patch
        | Some c \<Rightarrow> fencePatch c r patch) r else x) (getFlowRun db k)"
proof -
  have id: "fr_id (applyPatch now p r) = i" for p using getFlowRun_id [OF assms] by (simp add: applyPatch_def)
  show ?thesis using assms getFlowRun_id [of db k]
    by (cases "getFlowRun db k") (auto simp: updateRun_def Let_def getFlowRun_mapRuns id split: option.splits)
qed

lemma updateRun_missing: "getFlowRun db i = None \<Longrightarrow> snd (updateRun now i patch db) = db"
  by (simp add: updateRun_def)

lemma update_cancellations: "wd_cancellations (snd (updateRun now i patch db)) = wd_cancellations db"
  by (simp add: updateRun_def Let_def split: option.split)

lemma wf_ok_update:
  assumes ok: "wf_ok db"
  shows "wf_ok (snd (updateRun now i patch db))"
proof (cases "getFlowRun db i")
  case (Some r)
  show ?thesis using ok
  proof (rule wf_ok_frame)
    show "getFlowRun (snd (updateRun now i patch db)) [] = None"
      using ok by (simp add: getFlowRun_update [OF Some] wf_ok_def)
    fix k c assume "getRunCancellation db k = Some c" "stoppedRun db k c"
    then show "stoppedRun (snd (updateRun now i patch db)) k c"
      by (cases "k = i") (auto simp: getFlowRun_update [OF Some] stoppedRun_def applyPatch_def fencePatch_def Let_def
          js_or_def)
  qed (simp_all add: update_cancellations)
qed (simp add: updateRun_missing ok)

lemma delete_lookups:
  "getFlowRun (deleteFlow f db) i =
     (if i \<in> fr_id ` {r \<in> set (wd_runs db). fr_flow_id r = f} then None else getFlowRun db i)"
  "getRunCancellation (deleteFlow f db) i =
     (if i \<in> fr_id ` {r \<in> set (wd_runs db). fr_flow_id r = f} then None else getRunCancellation db i)"
  by (simp_all add: deleteFlow_def Let_def getFlowRun_def getRunCancellation_def sql_get_filter_key)

lemma wf_ok_delete:
  assumes ok: "wf_ok db"
  shows "wf_ok (deleteFlow f db)"
  using ok unfolding wf_ok_def stoppedRun_def delete_lookups other_jobs by (auto split: if_splits)

lemma wf_ok_enqueue:
  assumes ok: "wf_ok db" and payload: "json_ok (ei_payload input)"
  shows "wf_ok (snd (enqueueJob i ts input db))"
  using enqueue_effect [of i ts input db]
proof
  assume "\<exists>e. enqueueJob i ts input db = (Inl e, db)"
  then show ?thesis using ok by auto
next
  let ?row = "newJobRow i ts input"
  assume "jobRow db i = None \<and> snd (enqueueJob i ts input db) = db\<lparr>wd_jobs := wd_jobs db @ [?row]\<rparr> \<and>
    \<not> (ei_jobType input = RUN_FLOW \<and> js_truthy (enqueueRunId input) \<and>
         getRunCancellation db (the (enqueueRunId input)) \<noteq> None)"
  then have fresh: "jobRow db i = None" and eq: "snd (enqueueJob i ts input db) = db\<lparr>wd_jobs := wd_jobs db @ [?row]\<rparr>"
    and live: "ei_jobType input = RUN_FLOW \<Longrightarrow> js_truthy (enqueueRunId input) \<Longrightarrow>
      getRunCancellation db (the (enqueueRunId input)) = None" by blast+
  have parse: "JSON_parse (jr_payload ?row) = Some (ei_payload input)"
    by (simp add: newJobRow_def JSON_parse_printed [OF payload] del: JSON_stringify.simps)
  have owner: "enqueueRunId input = Some k" if "jobOfRun k ?row" for k
    using that parse
    by (auto simp: jobOfRun_def enqueueRunId_def newJobRow_def payload_text_def split: option.splits json.splits)
  have "\<not> jobOfRun k ?row" if "getRunCancellation db k = Some c" "jr_job_type ?row = RUN_FLOW" for k c
  proof
    assume "jobOfRun k ?row"
    from owner [OF this] have "enqueueRunId input = Some k" .
    moreover have "k \<noteq> []" using wf_ok_canceled [OF ok that(1)] .
    ultimately show False using live that by (simp add: newJobRow_def js_truthy_def)
  qed
  moreover have "distinct (map jr_id (wd_jobs db @ [?row]))"
    using ok fresh by (auto simp: wf_ok_def jobRow_None newJobRow_def)
  ultimately show ?thesis using ok parse unfolding eq
    by (auto simp: wf_ok_def stoppedRun_def getFlowRun_def getRunCancellation_def jobFreeOf_def)
qed

lemma wf_ok_ensure:
  assumes ok: "wf_ok db"
  shows "wf_ok (snd (ensureRunExecutionConfig i initial db))"
proof -
  have "wf_ok (mapRuns (\<lambda>r. if fr_id r = i then r\<lparr>fr_execution_config := c, fr_step_name_to_test := s\<rparr> else r) db)" for c s
    using ok
  proof (rule wf_ok_frame)
    fix k ca assume "getRunCancellation db k = Some ca"
    from wf_ok_canceled [OF ok this] obtain r where "getFlowRun db k = Some r" "fr_status r = run_stopped"
      "fr_finish_time r = Some (rc_acknowledgedAt ca)" .
    then show "stoppedRun (mapRuns (\<lambda>r. if fr_id r = i
        then r\<lparr>fr_execution_config := c, fr_step_name_to_test := s\<rparr> else r) db) k ca"
      by (simp add: stoppedRun_def getFlowRun_mapRuns)
  qed (use ok in \<open>simp_all add: getFlowRun_mapRuns wf_ok_def\<close>)
  with ok show ?thesis by (auto simp: ensureRunExecutionConfig_def Let_def split: option.splits)
qed

lemma wf_ok_cancelJob:
  assumes ok: "wf_ok db"
  shows "wf_ok (snd (cancelJob ts i db))"
proof -
  have "wf_ok (setJobs (\<lambda>j. jr_id j = i \<and> job_active (jr_status j))
     (\<lambda>j. j\<lparr>jr_status := job_canceled, jr_locked_until := None, jr_updated := ts\<rparr>) db)"
    using ok by (rule wf_ok_closed) (auto simp: job_moves_map job_le_def)
  with ok wf_ok_cancel [OF ok] show ?thesis by (auto simp: cancelJob_def Let_def split: sum.split)
qed

lemma wf_ok_wfOp:
  assumes ok: "wf_ok db" and valid: "validOp op"
  shows "wf_ok (wfOp op db)"
proof -
  have ids: "distinct (map jr_id (wd_jobs db))" using ok by (simp add: wf_ok_def)
  note closed = wf_ok_closed [OF ok]
  show ?thesis
  proof (cases op)
    case (OpClaim now lease)
    then show ?thesis using closed [OF claim_moves [OF ids] closed_kept_claim] by simp
  next
    case (OpComplete ts i)
    then show ?thesis using closed [OF complete_moves closed_kept_complete] by simp
  next
    case (OpFail ts i err opts)
    then show ?thesis using closed [OF fail_moves [OF ids] closed_kept_fail] by simp
  next
    case (OpCreateWaitpoint i now input)
    then show ?thesis using closed [OF _ closed_kept_waitpoint(1)] by simp
  next
    case (OpResumeWaitpoint now i)
    then show ?thesis using closed [OF _ closed_kept_waitpoint(2)] by simp
  qed (use valid ok in \<open>simp_all add: validOp_def wf_ok_createRun wf_ok_update wf_ok_cancel wf_ok_delete wf_ok_enqueue
      wf_ok_cancelJob wf_ok_recover wf_ok_ensure\<close>)
qed

lemma wf_ok_wfRun: "wf_ok db \<Longrightarrow> list_all validOp ops \<Longrightarrow> wf_ok (wfRun ops db)"
  by (induction ops arbitrary: db) (simp_all add: wf_ok_wfOp)

lemma wf_ok_emptyDb [simp]: "wf_ok emptyDb"
  by (simp add: wf_ok_def emptyDb_def getFlowRun_def getRunCancellation_def sql_get_def)


section \<open>Stop decisions stay\<close>

definition stops_kept :: "WorkflowDb \<Rightarrow> WorkflowDb \<Rightarrow> bool" where
  "stops_kept db db' = (\<forall>i. (\<forall>c. getRunCancellation db i = Some c \<longrightarrow> getRunCancellation db' i = Some c) \<and>
     (getFlowRun db i = None \<longrightarrow> getFlowRun db' i = None \<and> getRunCancellation db' i = getRunCancellation db i))"

lemma stops_kept_trans: "stops_kept a b \<Longrightarrow> stops_kept b c \<Longrightarrow> stops_kept a c"
  unfolding stops_kept_def by metis

lemma stops_kept_closed: "closed_kept db db' \<Longrightarrow> stops_kept db db'"
  by (simp add: closed_kept_def stops_kept_def getRunCancellation_def)

lemma stops_kept_refl [simp]: "stops_kept db db"
  by (simp add: stops_kept_def)

lemma stops_kept_cancel: "stops_kept db (snd (cancelFlowRun ts i db))"
proof (cases "cancelable db i")
  case True
  then obtain r where "getFlowRun db i = Some r" by (auto simp: cancelable_def split: option.splits)
  then show ?thesis
    by (auto simp: stops_kept_def getRunCancellation_cancel [OF True] getFlowRun_cancel [OF True] cancellationOf_def)
qed (simp add: cancel_refused)

lemma stops_kept_recoverCanceled: "stops_kept db (recoverCanceledRuns ts db)"
proof -
  have "stops_kept d (fold (\<lambda>r d. snd (cancelFlowRun ts (fr_id r) d)) rs d)" for rs d
  proof (induction rs arbitrary: d)
    case (Cons r rs)
    from stops_kept_trans [OF stops_kept_cancel Cons.IH] show ?case by simp
  qed simp
  then show ?thesis by (simp add: recoverCanceledRuns_def)
qed

lemma stops_kept_recover: "stops_kept db (snd (recoverOrphanedJobs ts db))"
proof -
  let ?r = "retireWorkflowRetries ts True (recoverCanceledRuns ts db)"
  have "closed_kept ?r (snd (recoverOrphanedJobs ts db))"
    unfolding recoverOrphanedJobs_def Let_def snd_conv
    by (rule closed_kept_trans [OF closed_kept_tables closed_kept_mapRuns]) (simp_all add: strandedRun_def)
  then show ?thesis
    using stops_kept_trans [OF stops_kept_trans [OF stops_kept_recoverCanceled
          stops_kept_closed [OF closed_kept_retire]] stops_kept_closed] by blast
qed

lemma stops_kept_cancelJob: "stops_kept db (snd (cancelJob ts i db))"
  using stops_kept_cancel stops_kept_closed [OF closed_kept_setJobs]
  by (auto simp: cancelJob_def Let_def split: sum.split)

lemma stops_kept_runs:
  assumes "wd_cancellations db' = wd_cancellations db" "\<And>i. getFlowRun db i = None \<Longrightarrow> getFlowRun db' i = None"
  shows "stops_kept db db'"
  using assms by (simp add: stops_kept_def getRunCancellation_def)

fun createsRun :: "string \<Rightarrow> WfOp \<Rightarrow> bool" where
  "createsRun i (OpCreateRun k _ _) = (k = i)"
| "createsRun i _ = False"

fun deletes :: "WfOp \<Rightarrow> bool" where
  "deletes (OpDeleteFlow _) = True"
| "deletes _ = False"

lemma wfOp_stops_kept:
  assumes "\<not> deletes op" "\<forall>k. \<not> createsRun k op"
  shows "stops_kept db (wfOp op db)"
proof (cases op)
  case (OpUpdateRun now i patch)
  show ?thesis unfolding OpUpdateRun wfOp.simps
    by (rule stops_kept_runs, rule update_cancellations)
      (cases "getFlowRun db i", simp_all add: updateRun_missing getFlowRun_update)
next
  case (OpEnsureConfig i initial)
  have "getFlowRun (mapRuns (\<lambda>r. if fr_id r = i then r\<lparr>fr_execution_config := c, fr_step_name_to_test := s\<rparr> else r) db) k = None"
    if "getFlowRun db k = None" for c s k using that by (simp add: getFlowRun_mapRuns)
  then show ?thesis unfolding OpEnsureConfig wfOp.simps
    by (auto simp: ensureRunExecutionConfig_def Let_def intro!: stops_kept_runs split: option.splits)
next
  case (OpCreateRun i ts input)
  with assms(2) show ?thesis by simp
next
  case (OpDeleteFlow f)
  with assms(1) show ?thesis by simp
qed (simp_all add: stops_kept_cancel stops_kept_closed closed_kept_enqueue closed_kept_claim closed_kept_complete
    closed_kept_fail stops_kept_cancelJob stops_kept_recover closed_kept_waitpoint)

lemma cancellation_persists:
  assumes ok: "wf_ok db" and c: "getRunCancellation db i = Some c"
  shows "getRunCancellation (wfOp op db) i = Some c \<or>
    getRunCancellation (wfOp op db) i = None \<and> getFlowRun (wfOp op db) i = None"
proof (cases op)
  case (OpDeleteFlow f)
  with c show ?thesis by (simp add: delete_lookups)
next
  case (OpCreateRun k ts input)
  with c show ?thesis by (simp add: createFlowRun_def Let_def getRunCancellation_def)
qed (use wfOp_stops_kept [of op db] c in \<open>simp_all add: stops_kept_def\<close>)

lemma gone_stays:
  assumes "getFlowRun db i = None" "getRunCancellation db i = None" "\<not> createsRun i op"
  shows "getFlowRun (wfOp op db) i = None \<and> getRunCancellation (wfOp op db) i = None"
proof (cases op)
  case (OpDeleteFlow f)
  with assms show ?thesis by (simp add: delete_lookups)
next
  case (OpCreateRun k ts input)
  with assms show ?thesis
    by (auto simp: createFlowRun_def Let_def getRunCancellation_def getFlowRun_def sql_get_append)
qed (use wfOp_stops_kept [of op db] assms in \<open>simp_all add: stops_kept_def\<close>)

text \<open>A claim never hands out a workflow job of a canceled run.\<close>

lemma claim_not_canceled:
  assumes ok: "wf_ok db" and c: "getRunCancellation db i = Some c"
    and claim: "claimNextJob now lease db = (Inr (Some job), db')" and type: "jb_jobType job = RUN_FLOW"
  shows "\<exists>j. jobRow db (jb_id job) = Some j \<and> \<not> jobOfRun i j"
proof -
  have ids: "distinct (map jr_id (wd_jobs db))" using ok by (simp add: wf_ok_def)
  obtain j j' where j: "jobRow db (jb_id job) = Some j" "claimableJob now j" "jb_attempt job = Suc (jr_attempt j)"
    "jb_jobType job = jr_job_type j" "jobRow db' (jb_id job) = Some j'" "rowToJob j' = Some job"
    by (rule job_claim_row [OF ids claim])
  from claimable_workflow [OF j(2)] j(4) type have "job_active (jr_status j)" by (simp add: job_active_def)
  with wf_ok_canceled [OF ok c] jobRow_mem [OF j(1)] j(4) type have "\<not> jobOfRun i j"
    by (metis jobFreeOf_def)
  with j(1) show ?thesis by blast
qed

text \<open>C8: a stop decision is final.  Once a run is canceled, whatever the queue, the engine or a restart do
  afterwards, the run stays \<^verbatim>\<open>STOPPED\<close> with the time of the acknowledgement, the cancellation stays as it was
  written, no workflow job of the run is queued or running and no claim hands one out, until the flow is deleted;
  and then the run is gone for good.\<close>

theorem stop_is_final:
  assumes "wf_ok db" "list_all validOp ops" "list_all (\<lambda>op. \<not> createsRun i op) ops"
    and "getRunCancellation db i = Some c"
  shows "(getRunCancellation (wfRun ops db) i = Some c \<and> stoppedRun (wfRun ops db) i c \<and>
      jobFreeOf (wd_jobs (wfRun ops db)) i \<and>
      (\<forall>now lease. case fst (claimNextJob now lease (wfRun ops db)) of
          Inr (Some job) \<Rightarrow> jb_jobType job \<noteq> RUN_FLOW \<or>
            (\<exists>j. jobRow (wfRun ops db) (jb_id job) = Some j \<and> \<not> jobOfRun i j)
        | _ \<Rightarrow> True)) \<or>
    (getFlowRun (wfRun ops db) i = None \<and> getRunCancellation (wfRun ops db) i = None)"
proof -
  have "getRunCancellation (wfRun ops db) i = Some c \<or>
      getFlowRun (wfRun ops db) i = None \<and> getRunCancellation (wfRun ops db) i = None"
    if "wf_ok db" "list_all validOp ops" "list_all (\<lambda>op. \<not> createsRun i op) ops"
      "getRunCancellation db i = Some c \<or> getFlowRun db i = None \<and> getRunCancellation db i = None" for ops db
    using that
  proof (induction ops arbitrary: db)
    case (Cons op ops)
    from Cons.prems have "getRunCancellation (wfOp op db) i = Some c \<or>
        getFlowRun (wfOp op db) i = None \<and> getRunCancellation (wfOp op db) i = None"
      using cancellation_persists [of db i c op] gone_stays [of db i op] by auto
    with Cons.IH [of "wfOp op db"] Cons.prems show ?case by (simp add: wf_ok_wfOp)
  qed auto
  with assms have end_state: "getRunCancellation (wfRun ops db) i = Some c \<or>
      getFlowRun (wfRun ops db) i = None \<and> getRunCancellation (wfRun ops db) i = None" by blast
  have ok: "wf_ok (wfRun ops db)" using assms(1,2) by (rule wf_ok_wfRun)
  show ?thesis
  proof (cases "getRunCancellation (wfRun ops db) i = Some c")
    case True
    have "case fst (claimNextJob now lease (wfRun ops db)) of
          Inr (Some job) \<Rightarrow> jb_jobType job \<noteq> RUN_FLOW \<or>
            (\<exists>j. jobRow (wfRun ops db) (jb_id job) = Some j \<and> \<not> jobOfRun i j)
        | _ \<Rightarrow> True" for now lease
      using claim_not_canceled [OF ok True, of now lease]
      by (cases "claimNextJob now lease (wfRun ops db)") (auto split: sum.split option.split)
    with True ok show ?thesis by (simp add: wf_ok_def)
  qed (use end_state in simp)
qed

text \<open>A run is started, its job claimed, and the user stops it; then the engine reports success and the daemon restarts.\<close>

definition plain_run :: CreateFlowRunInput where
  "plain_run = \<lparr> cri_flowId = ''f'', cri_flowVersionId = ''v'', cri_projectId = None, cri_parentRunId = None,
     cri_failParentOnFailure = False, cri_triggeredBy = None, cri_environment = None, cri_status = None,
     cri_startTime = None, cri_stepNameToTest = None, cri_tags = None \<rparr>"

definition run_job :: EnqueueInput where
  "run_job = \<lparr> ei_jobType = RUN_FLOW, ei_payload = JObj [(''runId'', JStr ''r'')], ei_flowRunId = Some ''r'',
     ei_flowId = None, ei_flowVersionId = None, ei_priority = None, ei_scheduledAt = None, ei_maxAttempts = None \<rparr>"

definition started :: "WfOp list" where
  "started = [OpCreateRun ''r'' 1 plain_run, OpEnqueue ''j'' 2 run_job, OpClaim 3 None]"

definition afterStop :: "WfOp list" where
  "afterStop = [OpUpdateRun 5 ''r'' (noPatch\<lparr>up_status := Some run_succeeded\<rparr>), OpEnqueue ''k'' 6 run_job, OpRecover 7]"

lemma started_valid: "list_all validOp started" "list_all validOp afterStop"
  "list_all (\<lambda>op. \<not> createsRun ''r'' op) afterStop"
  by (simp_all add: started_def afterStop_def validOp_def run_job_def)

lemma stopped_db:
  "getRunCancellation (wfRun (started @ [OpCancelRun 4 ''r'']) emptyDb) ''r'' =
     Some \<lparr> rc_runId = ''r'', rc_acknowledgedAt = 4, rc_statusAtRequest = run_queued, rc_inFlightMayHaveCompleted = False \<rparr>"
  by code_simp

lemma run_survives: "getFlowRun (wfRun afterStop (wfRun (started @ [OpCancelRun 4 ''r'']) emptyDb)) ''r'' \<noteq> None"
  by code_simp

theorem stop_is_final_witness:
  "stoppedRun (wfRun afterStop (wfRun (started @ [OpCancelRun 4 ''r'']) emptyDb)) ''r''
     \<lparr> rc_runId = ''r'', rc_acknowledgedAt = 4, rc_statusAtRequest = run_queued, rc_inFlightMayHaveCompleted = False \<rparr>"
proof -
  have "wf_ok (wfRun (started @ [OpCancelRun 4 ''r'']) emptyDb)"
    using started_valid(1) by (intro wf_ok_wfRun wf_ok_emptyDb) (simp add: validOp_def)
  from stop_is_final [OF this started_valid(2,3) stopped_db] run_survives show ?thesis by blast
qed

end
