(* ===== verification/Queue_Laws.thy ===== *)
theory Queue_Laws
  imports Run_Fence
begin

text \<open>
  The functional laws of the job queue: which job a claim hands out, what a failure does to a job, what a
  restart leaves of the queue, and the attempt budget that a lease takeover does not look at.
\<close>


section \<open>Claim\<close>

lemma rowToJob_Some:
  "JSON_parse (jr_payload j) \<noteq> None \<Longrightarrow> \<exists>job. rowToJob j = Some job"
  by (simp add: rowToJob_def split: option.split)

lemma rowToJob_locked: "rowToJob j = Some job \<Longrightarrow> jb_lockedUntil job = jr_locked_until j"
  by (auto simp: rowToJob_def)

lemma claim_result:
  assumes "wf_ok db"
  shows "if \<exists>j \<in> set (wd_jobs db). claimableJob now j
    then \<exists>j \<in> set (wd_jobs db). \<exists>job. claimableJob now j \<and>
        (\<forall>x \<in> set (wd_jobs db). claimableJob now x \<longrightarrow> claimKey j \<le> claimKey x) \<and>
        fst (claimNextJob now lease db) = Inr (Some job) \<and> jb_id job = jr_id j \<and> jb_status job = job_running \<and>
        jb_attempt job = Suc (jr_attempt j) \<and> jb_lockedUntil job = Some (now + js_or lease DEFAULT_LEASE_MS) \<and>
        (jr_job_type j = RUN_FLOW \<longrightarrow> jr_status j = job_queued \<and> jb_attempt job = 1)
    else fst (claimNextJob now lease db) = Inr None"
proof -
  have ids: "distinct (map jr_id (wd_jobs db))" using assms by (simp add: wf_ok_def)
  then show ?thesis
  proof (cases rule: claim_cases [where now = now and lease = lease])
    case none
    then show ?thesis by auto
  next
    case (some j)
    let ?r = "claimRow now (now + js_or lease DEFAULT_LEASE_MS) (cappedRow now j)"
    have "JSON_parse (jr_payload ?r) \<noteq> None" using assms some(1) by (simp add: wf_ok_def)
    from rowToJob_Some [OF this] obtain job where job: "rowToJob ?r = Some job" ..
    from rowToJob_simps [OF job] rowToJob_locked [OF job] have
      "jb_id job = jr_id j \<and> jb_status job = job_running \<and> jb_attempt job = Suc (jr_attempt j) \<and>
       jb_lockedUntil job = Some (now + js_or lease DEFAULT_LEASE_MS)" by simp
    moreover have "fst (claimNextJob now lease db) = Inr (Some job)" using some(4) job by simp
    moreover have "jr_job_type j = RUN_FLOW \<longrightarrow> jr_status j = job_queued \<and> jr_attempt j = 0"
      using claimable_workflow [OF some(2)] by simp
    ultimately have "\<exists>job. claimableJob now j \<and>
        (\<forall>x \<in> set (wd_jobs db). claimableJob now x \<longrightarrow> claimKey j \<le> claimKey x) \<and>
        fst (claimNextJob now lease db) = Inr (Some job) \<and> jb_id job = jr_id j \<and> jb_status job = job_running \<and>
        jb_attempt job = Suc (jr_attempt j) \<and> jb_lockedUntil job = Some (now + js_or lease DEFAULT_LEASE_MS) \<and>
        (jr_job_type j = RUN_FLOW \<longrightarrow> jr_status j = job_queued \<and> jb_attempt job = 1)"
      using some(2,3) by (intro exI [of _ job]) simp
    then show ?thesis using some(1,2) by auto
  qed
qed

text \<open>
  The order in which due jobs are served, spelled out: the larger priority number first, then the earlier
  schedule, then the older job.
\<close>

definition served_no_later :: "JobRow \<Rightarrow> JobRow \<Rightarrow> bool" where
  "served_no_later j x \<longleftrightarrow>
     jr_priority x < jr_priority j \<or>
     jr_priority x = jr_priority j \<and>
       (jr_scheduled_at j < jr_scheduled_at x \<or>
        jr_scheduled_at j = jr_scheduled_at x \<and> jr_created j \<le> jr_created x)"

lemma claimKey_served: "claimKey j \<le> claimKey x \<longleftrightarrow> served_no_later j x"
  by (auto simp: claimKey_def served_no_later_def less_eq_prod_def)

text \<open>C30: which job a claim hands out.  It hands out nothing exactly when no job is due; otherwise a due job
  that no due job goes before, the larger priority number first, then the earlier schedule, then the older job,
  as running, with one attempt more and the lease asked for; a workflow job only if it was queued and never
  attempted.\<close>

theorem claim_exact:
  assumes "wf_ok db"
  shows "if \<exists>j \<in> set (wd_jobs db). claimableJob now j
    then \<exists>j \<in> set (wd_jobs db). \<exists>job. claimableJob now j \<and>
        (\<forall>x \<in> set (wd_jobs db). claimableJob now x \<longrightarrow>
           jr_priority x < jr_priority j \<or>
           jr_priority x = jr_priority j \<and>
             (jr_scheduled_at j < jr_scheduled_at x \<or>
              jr_scheduled_at j = jr_scheduled_at x \<and> jr_created j \<le> jr_created x)) \<and>
        fst (claimNextJob now lease db) = Inr (Some job) \<and> jb_id job = jr_id j \<and> jb_status job = job_running \<and>
        jb_attempt job = Suc (jr_attempt j) \<and> jb_lockedUntil job = Some (now + js_or lease DEFAULT_LEASE_MS) \<and>
        (jr_job_type j = RUN_FLOW \<longrightarrow> jr_status j = job_queued \<and> jb_attempt job = 1)
    else fst (claimNextJob now lease db) = Inr None"
  by (rule claim_result [OF assms, unfolded claimKey_served served_no_later_def])

definition plain_job :: "int \<Rightarrow> int option \<Rightarrow> nat \<Rightarrow> EnqueueInput" where
  "plain_job prio due budget = \<lparr> ei_jobType = ''RENEW'', ei_payload = JObj [], ei_flowRunId = None, ei_flowId = None,
     ei_flowVersionId = None, ei_priority = Some prio, ei_scheduledAt = due, ei_maxAttempts = Some budget \<rparr>"

definition two_jobs :: "WfOp list" where
  "two_jobs = [OpEnqueue ''a'' 0 (plain_job 1 None 1), OpEnqueue ''b'' 1 (plain_job 2 (Some 50) 1)]"

lemma two_jobs_ok: "wf_ok (wfRun two_jobs emptyDb)"
  by (rule wf_ok_wfRun) (simp_all add: two_jobs_def validOp_def plain_job_def)

lemma two_jobs_due:
  "map (\<lambda>j. (jr_id j, claimableJob 10 j)) (wd_jobs (wfRun two_jobs emptyDb)) = [(''a'', True), (''b'', False)]"
  by code_simp

lemma two_jobs_due_later:
  "map (\<lambda>j. (jr_id j, claimableJob 60 j, jr_priority j)) (wd_jobs (wfRun two_jobs emptyDb)) =
     [(''a'', True, 1), (''b'', True, 2)]"
  by code_simp

text \<open>
  The second job is younger and was due later, but its priority number is larger: once both are due it is the
  one handed out.
\<close>

theorem claim_exact_witness:
  "(\<exists>job. fst (claimNextJob 10 (Some 5) (wfRun two_jobs emptyDb)) = Inr (Some job) \<and> jb_id job = ''a'' \<and>
      jb_lockedUntil job = Some 15) \<and>
   (\<exists>job. fst (claimNextJob 60 (Some 5) (wfRun two_jobs emptyDb)) = Inr (Some job) \<and> jb_id job = ''b'')"
proof
  have due: "\<forall>j \<in> set (wd_jobs (wfRun two_jobs emptyDb)). claimableJob 10 j \<longrightarrow> jr_id j = ''a''"
    "\<exists>j \<in> set (wd_jobs (wfRun two_jobs emptyDb)). claimableJob 10 j"
    using two_jobs_due by (auto simp: map_eq_Cons_conv)
  from claim_exact [OF two_jobs_ok, of 10 "Some 5"] due
  show "\<exists>job. fst (claimNextJob 10 (Some 5) (wfRun two_jobs emptyDb)) = Inr (Some job) \<and> jb_id job = ''a'' \<and>
      jb_lockedUntil job = Some 15" by (auto simp: js_or_def)
next
  obtain a b where jobs: "wd_jobs (wfRun two_jobs emptyDb) = [a, b]" "jr_id b = ''b''"
      "claimableJob 60 a" "claimableJob 60 b" "jr_priority a = 1" "jr_priority b = 2"
    using two_jobs_due_later by (auto simp: map_eq_Cons_conv)
  from claim_exact [OF two_jobs_ok, of 60 "Some 5"] jobs
  show "\<exists>job. fst (claimNextJob 60 (Some 5) (wfRun two_jobs emptyDb)) = Inr (Some job) \<and> jb_id job = ''b''"
    by auto
qed


section \<open>Failure\<close>

lemma failDelay_bounds:
  "failDelay opts n \<le> js_or (fo_maxBackoffMs opts) DEFAULT_MAX_BACKOFF_MS"
  "0 \<le> js_or (fo_backoffMs opts) DEFAULT_BACKOFF_MS \<Longrightarrow> m \<le> n \<Longrightarrow> failDelay opts m \<le> failDelay opts n"
  unfolding failDelay_def
  by (simp, intro min.mono order_refl mult_left_mono power_increasing) auto

text \<open>what a failure does to a job, on every branch.  A job that is not running is refused and nothing changes.
  A running job whose attempts are used up ends as failed; a workflow job is used up by its first attempt.
  Any other goes back to the queue after a delay that quadruples with each attempt up to its cap.  No
  other job is touched.\<close>

theorem fail_exact:
  assumes "wf_ok db" "jobRow db i = Some j"
  shows "if jr_status j \<noteq> job_running
    then (\<exists>e. failJob ts i err opts db = (Inl e, db))
    else \<exists>j'. jobRow (snd (failJob ts i err opts db)) i = Some j' \<and> job_le j j' \<and> jr_attempt j' = jr_attempt j \<and>
        (if jr_attempt j \<ge> (if jr_job_type j = RUN_FLOW then 1 else jr_max_attempts j)
         then fst (failJob ts i err opts db) = Inr False \<and> jr_status j' = job_failed
         else fst (failJob ts i err opts db) = Inr True \<and> jr_status j' = job_queued \<and>
           jr_scheduled_at j' = ts + min (js_or (fo_maxBackoffMs opts) 300000)
             (js_or (fo_backoffMs opts) 1000 * 4 ^ (jr_attempt j - 1))) \<and>
        (\<forall>k. k \<noteq> i \<longrightarrow> jobRow (snd (failJob ts i err opts db)) k = jobRow db k)"
proof -
  from jobRow_mem [OF assms(2)] assms(1) have "JSON_parse (jr_payload j) \<noteq> None" by (auto simp: wf_ok_def)
  from rowToJob_Some [OF this] obtain job where job: "rowToJob j = Some job" ..
  then have get: "getJob db i = Inr (Some job)" by (simp add: getJob_def assms(2))
  note jb = rowToJob_simps [OF job]
  have upd: "jobRow (setJobs (\<lambda>x. jr_id x = i) f db) k = (if k = i then Some (f j) else jobRow db k)"
    if "\<And>x. jr_id (f x) = jr_id x" for f k
  proof -
    have "jobRow (setJobs (\<lambda>x. jr_id x = i) f db) k =
        (if k = i then map_option f (jobRow db k) else jobRow db k)"
      unfolding jobRow_def setJobs_def by (simp add: sql_get_key_update [of jr_id f, OF that])
    with assms(2) show ?thesis by simp
  qed
  show ?thesis
  proof (cases "jr_status j = job_running")
    case False
    with get jb show ?thesis by (simp add: failJob_def)
  next
    case True
    with get jb show ?thesis
      by (auto simp: failJob_def upd maxAttemptsForJob_def WORKFLOW_RUN_MAX_ATTEMPTS_def failDelay_def
          DEFAULT_MAX_BACKOFF_MS_def DEFAULT_BACKOFF_MS_def job_le_def job_active_def)
  qed
qed

definition failing :: "WfOp list" where
  "failing = [OpEnqueue ''a'' 0 (plain_job 1 None 9), OpClaim 5 None, OpFail 6 ''a'' ''boom'' \<lparr> fo_backoffMs = None, fo_maxBackoffMs = None \<rparr>,
     OpClaim 2000 None]"

lemma failing_ok: "wf_ok (wfRun failing emptyDb)"
  by (rule wf_ok_wfRun) (simp_all add: failing_def validOp_def plain_job_def)

lemma failing_row: "map_option (\<lambda>j. (jr_status j, jr_attempt j, jr_job_type j, jr_max_attempts j)) (jobRow (wfRun failing emptyDb) ''a'')
    = Some (job_running, 2, ''RENEW'', 9)"
  by code_simp

theorem fail_exact_witness:
  "\<exists>j'. jobRow (snd (failJob 2001 ''a'' ''boom'' \<lparr> fo_backoffMs = None, fo_maxBackoffMs = None \<rparr> (wfRun failing emptyDb))) ''a'' = Some j' \<and>
     jr_status j' = job_queued \<and> jr_scheduled_at j' = 6001"
proof -
  from failing_row obtain j where j: "jobRow (wfRun failing emptyDb) ''a'' = Some j" "jr_status j = job_running"
    "jr_attempt j = 2" "jr_job_type j = ''RENEW''" "jr_max_attempts j = 9" by auto
  from fail_exact [OF failing_ok j(1), of 2001 "''boom''" "\<lparr> fo_backoffMs = None, fo_maxBackoffMs = None \<rparr>"] j(2-5)
  show ?thesis by (auto simp: js_or_def RUN_FLOW_def)
qed



section \<open>Restart\<close>

text \<open>What a restart makes of the status of a job, and what it says of a job it puts back.\<close>

definition recoveredStatus :: "JobRow \<Rightarrow> JobStatus" where
  "recoveredStatus j =
     (if \<not> job_active (jr_status j) then jr_status j
      else if jr_job_type j = RUN_FLOW then
        (if jr_status j = job_queued \<and> jr_attempt j = 0 then job_queued else job_failed)
      else if jr_status j = job_running \<and> jr_attempt j \<ge> jr_max_attempts j then job_failed
      else job_queued)"

definition requeuedRow :: "JobRow \<Rightarrow> bool" where
  "requeuedRow j = (jr_status j = job_running \<and> jr_job_type j \<noteq> RUN_FLOW \<and> jr_attempt j < jr_max_attempts j)"

definition orphanRow :: "int \<Rightarrow> JobRow \<Rightarrow> JobRow" where
  "orphanRow ts j = (if jr_status j = job_running \<and> jr_attempt j \<ge> jr_max_attempts j
     then j\<lparr>jr_status := job_failed, jr_last_error := Some orphanMessage, jr_locked_until := None, jr_updated := ts\<rparr>
     else j)"

definition requeueRow :: "int \<Rightarrow> JobRow \<Rightarrow> JobRow" where
  "requeueRow ts j = (if jr_status j = job_running \<and> jr_attempt j < jr_max_attempts j
     then j\<lparr>jr_status := job_queued, jr_locked_until := None, jr_scheduled_at := ts, jr_updated := ts\<rparr> else j)"

lemma recover_jobs:
  assumes "distinct (map jr_id (wd_jobs db))"
  shows "wd_jobs (snd (recoverOrphanedJobs ts db)) =
      map (\<lambda>j. requeueRow ts (orphanRow ts (retireRow ts True j))) (wd_jobs (recoverCanceledRuns ts db))"
    and "fst (recoverOrphanedJobs ts db) = length (filter requeuedRow (wd_jobs (recoverCanceledRuns ts db)))"
proof -
  let ?c = "recoverCanceledRuns ts db"
  have ids: "distinct (map jr_id (wd_jobs ?c))"
    using job_moves_distinct [OF recoverCanceled_moves] assms by simp
  show "wd_jobs (snd (recoverOrphanedJobs ts db)) =
      map (\<lambda>j. requeueRow ts (orphanRow ts (retireRow ts True j))) (wd_jobs ?c)"
    unfolding recoverOrphanedJobs_def Let_def snd_conv mapRuns_simps sql_update_def fst_conv
    by (simp add: retire_jobs [OF ids] requeueRow_def orphanRow_def)
  have "(jr_status (orphanRow ts (retireRow ts True j)) = job_running \<and>
      jr_attempt (orphanRow ts (retireRow ts True j)) < jr_max_attempts (orphanRow ts (retireRow ts True j))) = requeuedRow j" for j
    by (auto simp: orphanRow_def retireRow_def failedRow_def mustRetire_def cappedRow_def requeuedRow_def)
  then show "fst (recoverOrphanedJobs ts db) = length (filter requeuedRow (wd_jobs ?c))"
    unfolding recoverOrphanedJobs_def Let_def fst_conv sql_update_def snd_conv setJobs_jobs retire_jobs [OF ids]
    by (simp add: orphanRow_def [symmetric] filter_map comp_def del: split_paired_All)
qed

lemma recoverCanceled_idle:
  assumes "\<forall>j \<in> set (wd_jobs db). jr_status j \<noteq> job_running"
  shows "\<forall>j \<in> set (wd_jobs (recoverCanceledRuns ts db)). jr_status j \<noteq> job_running"
proof -
  have "\<forall>j \<in> set (wd_jobs (fold (\<lambda>r d. snd (cancelFlowRun ts (fr_id r) d)) rs d)). jr_status j \<noteq> job_running"
    if "\<forall>j \<in> set (wd_jobs d). jr_status j \<noteq> job_running" for rs d
    using that
  proof (induction rs arbitrary: d)
    case (Cons r rs)
    have "\<forall>j \<in> set (wd_jobs (snd (cancelFlowRun ts (fr_id r) d))). jr_status j \<noteq> job_running"
      using Cons.prems
      by (cases "cancelable d (fr_id r)") (auto simp: cancel_effect(1) cancel_refused cancelRow_def)
    from Cons.IH [OF this] show ?case by simp
  qed simp
  with assms show ?thesis by (simp add: recoverCanceledRuns_def)
qed

lemma recovered_row:
  "jr_status (requeueRow ts (orphanRow ts (retireRow ts True j))) = recoveredStatus j"
  by (cases "jr_status j") (auto simp: requeueRow_def orphanRow_def retireRow_def failedRow_def mustRetire_def
      cappedRow_def recoveredStatus_def job_active_def)

text \<open>C29: what a restart leaves of the queue.  After the stops of canceled runs are settled, every job has the
  status \<open>recoveredStatus\<close> says: settled jobs as they were, a workflow job only if it was never attempted,
  any other interrupted job back in the queue if attempts are left and failed if not.  No job is left running,
  the count returned is the number of jobs put back, and a second recovery puts none back.\<close>

theorem recover_exact:
  assumes "wf_ok db"
  shows "map jr_status (wd_jobs (snd (recoverOrphanedJobs ts db))) =
      map recoveredStatus (wd_jobs (recoverCanceledRuns ts db)) \<and>
    map jr_id (wd_jobs (snd (recoverOrphanedJobs ts db))) = map jr_id (wd_jobs db) \<and>
    fst (recoverOrphanedJobs ts db) = length (filter requeuedRow (wd_jobs (recoverCanceledRuns ts db))) \<and>
    countStatus job_running (snd (recoverOrphanedJobs ts db)) = 0 \<and>
    fst (recoverOrphanedJobs ts' (snd (recoverOrphanedJobs ts db))) = 0"
proof -
  let ?d = "snd (recoverOrphanedJobs ts db)"
  have ids: "distinct (map jr_id (wd_jobs db))" using assms by (simp add: wf_ok_def)
  have statuses: "map jr_status (wd_jobs ?d) = map recoveredStatus (wd_jobs (recoverCanceledRuns ts db))"
    by (simp add: recover_jobs(1) [OF ids] recovered_row)
  have "recoveredStatus j \<noteq> job_running" for j
    by (auto simp: recoveredStatus_def job_active_def)
  then have idle: "jr_status j \<noteq> job_running" if "j \<in> set (wd_jobs ?d)" for j
    using arg_cong [OF statuses, of set] that by (metis (no_types, lifting) image_iff list.set_map)
  have dist: "distinct (map jr_id (wd_jobs ?d))" using job_moves_distinct [OF recover_moves [OF ids]] ids by simp
  have "\<not> requeuedRow j" if "j \<in> set (wd_jobs (recoverCanceledRuns ts' ?d))" for j
    using recoverCanceled_idle [of ?d ts'] idle that by (simp add: requeuedRow_def)
  then show ?thesis
    using statuses idle job_moves_ids [OF recover_moves [OF ids]]
    by (simp add: recover_jobs(2) [OF ids] recover_jobs(2) [OF dist] countStatus_def filter_empty_conv)
qed

definition interrupted :: "WfOp list" where
  "interrupted = [OpEnqueue ''a'' 0 (plain_job 1 None 2), OpEnqueue ''b'' 0 (plain_job 1 None 1),
     OpEnqueue ''w'' 0 resend_job, OpClaim 5 None, OpClaim 6 None, OpClaim 7 None]"

lemma interrupted_ok: "wf_ok (wfRun interrupted emptyDb)"
  by (rule wf_ok_wfRun) (simp_all add: interrupted_def validOp_def plain_job_def resend_job_def)

lemma interrupted_rows:
  "map recoveredStatus (wd_jobs (recoverCanceledRuns 9 (wfRun interrupted emptyDb))) = [job_queued, job_failed, job_failed]"
  by code_simp

theorem recover_exact_witness:
  "map jr_status (wd_jobs (snd (recoverOrphanedJobs 9 (wfRun interrupted emptyDb)))) = [job_queued, job_failed, job_failed] \<and>
   fst (recoverOrphanedJobs 10 (snd (recoverOrphanedJobs 9 (wfRun interrupted emptyDb)))) = 0"
  using recover_exact [OF interrupted_ok, of 9 10] interrupted_rows by simp


section \<open>Takeover\<close>

text \<open>a claim does not look at the attempt budget.  When the lease of a running job that is not a workflow job
  has lapsed and nothing else is due, the next claim hands the job out again with one attempt more, however many
  attempts it was allowed: the budget bounds the failures of a job, not the times it is run.\<close>

theorem takeover_ignores_budget:
  assumes "wf_ok db" "jobRow db i = Some j" "jr_status j = job_running" "jr_job_type j \<noteq> RUN_FLOW"
    and "jr_locked_until j = Some t" "t \<le> now"
    and "\<forall>x \<in> set (wd_jobs db). claimableJob now x \<longrightarrow> x = j"
  shows "\<exists>job. fst (claimNextJob now lease db) = Inr (Some job) \<and> jb_id job = i \<and> jb_attempt job = Suc (jr_attempt j)"
proof -
  from jobRow_mem [OF assms(2)] have j: "j \<in> set (wd_jobs db)" "jr_id j = i" by simp_all
  have "claimableJob now j" using assms(3-6) by (simp add: claimableJob_def jobReady_def mustRetire_def)
  with j(1) have due: "\<exists>j \<in> set (wd_jobs db). claimableJob now j" by blast
  from claim_result [OF assms(1), of now lease, unfolded if_P [OF due]] show ?thesis
  proof (elim bexE exE conjE)
    fix x job assume "x \<in> set (wd_jobs db)" "claimableJob now x" and job: "fst (claimNextJob now lease db) = Inr (Some job)"
      "jb_id job = jr_id x" "jb_attempt job = Suc (jr_attempt x)"
    with assms(7) have "x = j" by simp
    with job j(2) show ?thesis by simp
  qed
qed

definition lapsed :: "WfOp list" where
  "lapsed = [OpEnqueue ''a'' 0 (plain_job 1 None 1), OpClaim 5 (Some 10)]"

lemma lapsed_ok: "wf_ok (wfRun lapsed emptyDb)"
  by (rule wf_ok_wfRun) (simp_all add: lapsed_def validOp_def plain_job_def)

lemma lapsed_rows:
  "map (\<lambda>j. (jr_id j, jr_status j, jr_job_type j, jr_locked_until j, jr_attempt j, jr_max_attempts j)) (wd_jobs (wfRun lapsed emptyDb)) =
     [(''a'', job_running, ''RENEW'', Some 15, 1, 1)]"
  by code_simp

theorem takeover_ignores_budget_witness:
  "\<exists>j job. jobRow (wfRun lapsed emptyDb) ''a'' = Some j \<and> jr_max_attempts j = 1 \<and>
     fst (claimNextJob 15 None (wfRun lapsed emptyDb)) = Inr (Some job) \<and> jb_id job = ''a'' \<and> jb_attempt job = 2"
proof -
  from lapsed_rows obtain j where j: "wd_jobs (wfRun lapsed emptyDb) = [j]" "jr_id j = ''a''" "jr_status j = job_running"
    "jr_job_type j = ''RENEW''" "jr_locked_until j = Some 15" "jr_attempt j = 1" "jr_max_attempts j = 1"
    by (auto simp: map_eq_Cons_conv)
  then have row: "jobRow (wfRun lapsed emptyDb) ''a'' = Some j" by (simp add: jobRow_def sql_get_def)
  have "jr_job_type j \<noteq> RUN_FLOW" "\<forall>x \<in> set (wd_jobs (wfRun lapsed emptyDb)). claimableJob 15 x \<longrightarrow> x = j"
    using j(1,4) by (simp_all add: RUN_FLOW_def)
  from takeover_ignores_budget [OF lapsed_ok row j(3) this(1) j(5) order_refl this(2), of None] obtain job where
    "fst (claimNextJob 15 None (wfRun lapsed emptyDb)) = Inr (Some job)" "jb_id job = ''a''"
    "jb_attempt job = Suc (jr_attempt j)" by (elim exE conjE)
  then show ?thesis using row j(6,7) by (intro exI [of _ j] exI [of _ job]) simp
qed

end
