(* ===== verification/Workflow_Worker.thy ===== *)
theory Workflow_Worker
  imports Queue_Laws
begin

text \<open>
  The queue worker (\<^verbatim>\<open>src/workflows/queue/worker.ts\<close>) and the handler of workflow jobs
  (\<^verbatim>\<open>src/workflows/runner/handler.ts\<close>).  The engine that runs a flow is code of other components: an execution
  is a parameter that names the table writes made while it was awaited (its own and those of everybody else)
  and how it ended.  Whether a flow version exists is a parameter too, since the version table is not
  modelled.  A handler returns what it threw, if anything.  The synchronous prefix of the
  handler, up to the call of the engine, is one atomic step (\<open>startRun\<close>), and what follows the call is another
  (\<open>settleFlow\<close>), since JavaScript runs them without yielding.
\<close>


section \<open>The workflow handler\<close>

datatype Thrown = ThrownError string string | ThrownValue string

definition thrownMessage :: "Thrown \<Rightarrow> string" where
  "thrownMessage e = (case e of ThrownError _ msg \<Rightarrow> msg | ThrownValue s \<Rightarrow> s)"

definition thrownText :: "Thrown \<Rightarrow> string" where
  "thrownText e = (case e of ThrownError name msg \<Rightarrow> name @ '': '' @ msg | ThrownValue s \<Rightarrow> s)"

text \<open>How \<^verbatim>\<open>execute\<close> ended: a result, a \<^verbatim>\<open>FlowExecutionError\<close> with its step and outputs, any other throw.\<close>

datatype RunEnd =
    ExecDone "FlowRunStatus option" json_object nat
  | ExecFailed string string string json_object
  | ExecThrew Thrown

datatype StartOutcome = StartThrew Thrown | StartSkipped | StartedRun string

definition payloadText :: "Job \<Rightarrow> string \<Rightarrow> string option" where
  "payloadText job k = (case json_get (jb_payload job) k of Some (JStr s) \<Rightarrow> Some s | _ \<Rightarrow> None)"

definition isResume :: "Job \<Rightarrow> bool" where
  "isResume job = (payloadText job ''executionType'' = Some ''RESUME'')"

definition refusalMessage :: "Job \<Rightarrow> string \<Rightarrow> FlowRunRow \<Rightarrow> string" where
  "refusalMessage job runId run = workflowFailureMessage (''RUN_FLOW refused '' @
     js_or (payloadText job ''executionType'') ''BEGIN'' @ '' for run '' @ runId @ '' in '' @
     run_status_name (fr_status run) @ '' (attempt '' @ show_nat (jb_attempt job) @ '').'')"

definition engineStep :: "string option \<Rightarrow> FailedStep" where
  "engineStep msg = \<lparr> fs_name = ''<engine>'', fs_displayName = ''engine'', fs_errorMessage = msg \<rparr>"

definition startRun :: "(string \<Rightarrow> bool) \<Rightarrow> int \<Rightarrow> Job \<Rightarrow> WorkflowDb \<Rightarrow> StartOutcome \<times> WorkflowDb" where
  "startRun hasVersion now job db =
     (case payloadText job ''runId'' of
        None \<Rightarrow> (StartThrew (ThrownError ''Error'' (''RUN_FLOW job '' @ jb_id job @ '' missing runId in payload'')), db)
      | Some runId \<Rightarrow>
          if runId = [] then (StartThrew (ThrownError ''Error'' (''RUN_FLOW job '' @ jb_id job @ '' missing runId in payload'')), db)
          else (case getFlowRun db runId of
            None \<Rightarrow> (StartSkipped, db)
          | Some run \<Rightarrow>
              if getRunCancellation db runId \<noteq> None then (StartSkipped, db)
              else if jb_attempt job \<noteq> 1 \<or> fr_status run \<noteq> (if isResume job then run_paused else run_queued) then
                (StartThrew (ThrownError ''Error'' (refusalMessage job runId run)), db)
              else if \<not> hasVersion (fr_flow_version_id run) then
                (StartThrew (ThrownError ''Error'' (''RUN_FLOW: flow_version '' @ fr_flow_version_id run @ '' not found for run '' @ runId)),
                 snd (updateRun now runId (noPatch\<lparr>up_status := Some run_internal_error,
                   up_failedStep := Some (Some (engineStep None)), up_finishTime := Some (Some now)\<rparr>) db))
              else
                (StartedRun runId,
                 snd (updateRun now runId (noPatch\<lparr>up_status := Some run_running,
                   up_startTime := Some (js_or (fr_start_time run) now), up_finishTime := Some None,
                   up_failedStep := Some None\<rparr>) db))))"

text \<open>The run row after the engine returned or threw; the error that leaves the handler.\<close>

definition settleFailure :: "int \<Rightarrow> string \<Rightarrow> RunEnd \<Rightarrow> WorkflowDb \<Rightarrow> Thrown option \<times> WorkflowDb" where
  "settleFailure now runId e db =
     (if getFlowRun db runId = None then (None, db)
      else if getRunCancellation db runId \<noteq> None then
        (case e of
           ExecFailed _ _ _ steps \<Rightarrow> (None, snd (updateRun now runId (noPatch\<lparr>up_steps := Some (Some steps)\<rparr>) db))
         | _ \<Rightarrow> (None, db))
      else (case e of
          ExecFailed msg name display steps \<Rightarrow>
            (Some (ThrownError ''FlowExecutionError'' msg), snd (updateRun now runId (noPatch\<lparr>up_status := Some run_failed, up_steps := Some (Some steps),
               up_stepsCount := Some (length steps),
               up_failedStep := Some (Some \<lparr> fs_name = name, fs_displayName = display,
                 fs_errorMessage = Some (workflowFailureMessage msg) \<rparr>),
               up_finishTime := Some (Some now)\<rparr>) db))
        | ExecThrew t \<Rightarrow>
            (Some t, snd (updateRun now runId (noPatch\<lparr>up_status := Some run_failed,
               up_failedStep := Some (Some (engineStep (Some (workflowFailureMessage (thrownMessage t))))),
               up_finishTime := Some (Some now)\<rparr>) db))
        | ExecDone _ _ _ \<Rightarrow> (None, db)))"

definition settleFlow :: "int \<Rightarrow> string \<Rightarrow> RunEnd \<Rightarrow> WorkflowDb \<Rightarrow> Thrown option \<times> WorkflowDb" where
  "settleFlow now runId e db =
     (case e of
        ExecDone status steps stepsCount \<Rightarrow>
          (case updateRun now runId (noPatch\<lparr>up_status := Some (js_or status run_succeeded),
               up_steps := Some (Some steps), up_stepsCount := Some stepsCount,
               up_finishTime := Some (if status = Some run_paused then None else Some now)\<rparr>) db of
             (Inr row, db') \<Rightarrow> (None, db')
           | (Inl (WfThrew msg), db') \<Rightarrow> settleFailure now runId (ExecThrew (ThrownError ''Error'' msg)) db'
           | (Inl (UniqueFailed msg), db') \<Rightarrow> settleFailure now runId (ExecThrew (ThrownError ''SQLiteError'' msg)) db')
      | _ \<Rightarrow> settleFailure now runId e db)"

definition runFlowHandler :: "(string \<Rightarrow> bool) \<Rightarrow> (string \<Rightarrow> Job \<Rightarrow> WorkflowDb \<Rightarrow> WfOp list \<times> RunEnd) \<Rightarrow> int \<Rightarrow> int \<Rightarrow>
    Job \<Rightarrow> WorkflowDb \<Rightarrow> Thrown option \<times> WorkflowDb" where
  "runFlowHandler hasVersion exec startAt endAt job db =
     (case startRun hasVersion startAt job db of
        (StartThrew msg, db1) \<Rightarrow> (Some msg, db1)
      | (StartSkipped, db1) \<Rightarrow> (None, db1)
      | (StartedRun runId, db1) \<Rightarrow>
          (case exec runId job db1 of (ops, e) \<Rightarrow> settleFlow endAt runId e (wfRun ops db1)))"


section \<open>The worker\<close>

type_synonym JobHandlers = "string \<Rightarrow> (Job \<Rightarrow> WorkflowDb \<Rightarrow> Thrown option \<times> WorkflowDb) option"

definition defaultFail :: FailJobOptions where
  "defaultFail = \<lparr> fo_backoffMs = None, fo_maxBackoffMs = None \<rparr>"

definition jobStatusNow :: "WorkflowDb \<Rightarrow> string \<Rightarrow> WfError + JobStatus option" where
  "jobStatusNow db jobId = (case getJob db jobId of Inl e \<Rightarrow> Inl e | Inr j \<Rightarrow> Inr (map_option jb_status j))"

text \<open>\<^verbatim>\<open>catch (e)\<close>; the flag says that an error left \<^verbatim>\<open>handle\<close>.\<close>

definition handleFailure :: "int \<Rightarrow> Job \<Rightarrow> Thrown \<Rightarrow> WorkflowDb \<Rightarrow> bool \<times> WorkflowDb" where
  "handleFailure now job t db =
     (case jobStatusNow db (jb_id job) of
        Inl e \<Rightarrow> (True, db)
      | Inr s \<Rightarrow> if s = Some job_canceled then (False, db) else (False, snd (failJob now (jb_id job) (thrownText t) defaultFail db)))"

definition handleJob :: "JobHandlers \<Rightarrow> int \<Rightarrow> Job \<Rightarrow> WorkflowDb \<Rightarrow> bool \<times> WorkflowDb" where
  "handleJob handlers now job db =
     (case handlers (jb_jobType job) of
        None \<Rightarrow> (False, snd (failJob now (jb_id job) (''no handler registered for jobType='' @ jb_jobType job) defaultFail db))
      | Some handler \<Rightarrow>
          (case handler job db of
             (Some t, db1) \<Rightarrow> handleFailure now job t db1
           | (None, db1) \<Rightarrow>
               (case jobStatusNow db1 (jb_id job) of
                  Inl e \<Rightarrow> handleFailure now job (ThrownError ''SyntaxError'' ''JSON Parse error'') db1
                | Inr s \<Rightarrow> if s = Some job_running then
                     (case completeJob now (jb_id job) db1 of
                        (None, db2) \<Rightarrow> (False, db2)
                      | (Some (WfThrew msg), db2) \<Rightarrow> handleFailure now job (ThrownError ''Error'' msg) db2
                      | (Some (UniqueFailed msg), db2) \<Rightarrow> handleFailure now job (ThrownError ''SQLiteError'' msg) db2)
                   else (False, db1))))"

text \<open>
  One-shot processing: every ready job once, until none is ready.  A turn is the clock at its claim and at
  its end; \<open>None\<close> when the turns are used up, \<open>Inl\<close> when an error leaves the call.
\<close>

fun drainJobs :: "JobHandlers \<Rightarrow> int option \<Rightarrow> (int \<times> int) list \<Rightarrow> nat \<Rightarrow> WorkflowDb \<Rightarrow>
    (WfError + nat) option \<times> WorkflowDb" where
  "drainJobs handlers lease [] processed db = (None, db)"
| "drainJobs handlers lease ((claimAt, doneAt) # turns) processed db =
     (case claimNextJob claimAt lease db of
        (Inl e, db1) \<Rightarrow> (Some (Inl e), db1)
      | (Inr None, db1) \<Rightarrow> (Some (Inr processed), db1)
      | (Inr (Some job), db1) \<Rightarrow>
          (case handleJob handlers doneAt job db1 of
             (True, db2) \<Rightarrow> (Some (Inl (WfThrew ''SyntaxError'')), db2)
           | (False, db2) \<Rightarrow> drainJobs handlers lease turns (Suc processed) db2))"

text \<open>One claim loop: \<open>running\<close> is read before each turn; an idle or failed claim sleeps.\<close>

fun runLoop :: "JobHandlers \<Rightarrow> int option \<Rightarrow> (bool \<times> int \<times> int) list \<Rightarrow> WorkflowDb \<Rightarrow> WorkflowDb" where
  "runLoop handlers lease [] db = db"
| "runLoop handlers lease ((running, claimAt, doneAt) # turns) db =
     (if \<not> running then db
      else (case claimNextJob claimAt lease db of
        (Inr (Some job), db1) \<Rightarrow>
          (case handleJob handlers doneAt job db1 of
             (True, db2) \<Rightarrow> db2
           | (False, db2) \<Rightarrow> runLoop handlers lease turns db2)
      | (_, db1) \<Rightarrow> runLoop handlers lease turns db1))"


section \<open>A run begins once\<close>

text \<open>
  Any interleaving of the atomic steps of any number of workers with any other table writes.
\<close>

datatype WorkerStep =
    StepOp WfOp
  | StepStart int Job
  | StepSettle int string RunEnd

definition workerStep :: "(string \<Rightarrow> bool) \<Rightarrow> WorkerStep \<Rightarrow> WorkflowDb \<Rightarrow> WorkflowDb" where
  "workerStep hasVersion x db = (case x of
     StepOp op \<Rightarrow> wfOp op db
   | StepStart now job \<Rightarrow> snd (startRun hasVersion now job db)
   | StepSettle now runId e \<Rightarrow> snd (settleFlow now runId e db))"

definition beginsRun :: "(string \<Rightarrow> bool) \<Rightarrow> string \<Rightarrow> WorkerStep \<Rightarrow> WorkflowDb \<Rightarrow> bool" where
  "beginsRun hasVersion i x db = (case x of
     StepStart now job \<Rightarrow> \<not> isResume job \<and> fst (startRun hasVersion now job db) = StartedRun i
   | _ \<Rightarrow> False)"

text \<open>No step of the program writes \<^verbatim>\<open>QUEUED\<close> on a run that exists, and run ids are not reused.\<close>

definition leavesBegun :: "string \<Rightarrow> WorkerStep \<Rightarrow> bool" where
  "leavesBegun i x = (case x of
     StepOp (OpCreateRun k _ _) \<Rightarrow> k \<noteq> i
   | StepOp (OpUpdateRun _ k patch) \<Rightarrow> up_status patch \<noteq> Some run_queued
   | StepSettle _ _ (ExecDone s _ _) \<Rightarrow> s \<noteq> Some run_queued
   | _ \<Rightarrow> True)"

definition begun :: "string \<Rightarrow> WorkflowDb \<Rightarrow> bool" where
  "begun i db = (\<forall>r. getFlowRun db i = Some r \<longrightarrow> fr_status r \<noteq> run_queued)"

definition begun_kept :: "WorkflowDb \<Rightarrow> WorkflowDb \<Rightarrow> bool" where
  "begun_kept db db' = (\<forall>k. begun k db \<longrightarrow> begun k db')"

lemma begun_kept_refl [simp]: "begun_kept db db"
  by (simp add: begun_kept_def)

lemma begun_kept_trans: "begun_kept a b \<Longrightarrow> begun_kept b c \<Longrightarrow> begun_kept a c"
  by (simp add: begun_kept_def)

lemma begun_kept_runs: "wd_runs db' = wd_runs db \<Longrightarrow> begun_kept db db'"
  by (simp add: begun_kept_def begun_def getFlowRun_def)

lemma begun_kept_mapRuns:
  assumes "\<And>r. fr_id (f r) = fr_id r" "\<And>r. fr_status (f r) = run_queued \<Longrightarrow> fr_status r = run_queued"
  shows "begun_kept db (mapRuns f db)"
  using assms(2) by (auto simp: begun_kept_def begun_def getFlowRun_mapRuns [OF assms(1)])

lemma begun_kept_fold: "(\<And>x d. begun_kept d (f x d)) \<Longrightarrow> begun_kept db (fold f xs db)"
proof (induction xs arbitrary: db)
  case (Cons x xs)
  from begun_kept_trans [OF Cons.prems Cons.IH [OF Cons.prems]] show ?case by simp
qed simp

lemma begun_kept_setJobs [simp]: "begun_kept db (setJobs p f db)"
  by (rule begun_kept_runs) simp

lemma begun_kept_retire: "begun_kept db (retireWorkflowRetries ts b db)"
proof -
  have run: "begun_kept d (retireRun ts i s d)" for i s d
    unfolding retireRun_def by (rule begun_kept_mapRuns) (simp_all split: if_splits)
  then have "begun_kept d (retireJob ts job d)" for job d
    unfolding retireJob_def Let_def by (auto intro!: begun_kept_trans [OF begun_kept_setJobs run])
  then have "begun_kept d (fold (retireJob ts) L d)" for L d by (rule begun_kept_fold)
  then show ?thesis unfolding retireWorkflowRetries_def Let_def
    using begun_kept_trans [OF begun_kept_setJobs] by blast
qed

lemma begun_kept_cancel: "begun_kept db (snd (cancelFlowRun ts i db))"
proof (cases "cancelable db i")
  case True
  show ?thesis by (auto simp: begun_kept_def begun_def getFlowRun_cancel [OF True] stopRow_def)
qed (simp add: cancel_refused)

lemma begun_kept_recover: "begun_kept db (snd (recoverOrphanedJobs ts db))"
proof -
  let ?c = "recoverCanceledRuns ts db"
  let ?r = "retireWorkflowRetries ts True ?c"
  have "begun_kept db ?c"
    unfolding recoverCanceledRuns_def by (rule begun_kept_fold) (rule begun_kept_cancel)
  moreover have "begun_kept ?r (snd (recoverOrphanedJobs ts db))"
    unfolding recoverOrphanedJobs_def Let_def snd_conv
    by (rule begun_kept_trans [OF begun_kept_runs begun_kept_mapRuns]) (simp_all split: if_splits)
  ultimately show ?thesis using begun_kept_trans begun_kept_retire by blast
qed

lemma begun_kept_update:
  assumes "up_status patch \<noteq> Some run_queued"
  shows "begun_kept db (snd (updateRun now i patch db))"
proof (cases "getFlowRun db i")
  case (Some r)
  let ?p = "case getRunCancellation db i of None \<Rightarrow> patch | Some c \<Rightarrow> fencePatch c r patch"
  have "fr_status (applyPatch now ?p r) = run_queued \<Longrightarrow> fr_status r = run_queued"
    using assms by (simp add: applyPatch_def fencePatch_def Let_def js_or_def split: option.splits)
  then have "begun k (snd (updateRun now i patch db))" if "begun k db" for k
    using that Some by (cases "k = i") (auto simp: begun_def getFlowRun_update [OF Some])
  then show ?thesis by (simp add: begun_kept_def)
qed (simp add: updateRun_missing)

lemma begun_kept_ensure: "begun_kept db (snd (ensureRunExecutionConfig i initial db))"
proof -
  have "begun_kept db (mapRuns (\<lambda>r. if fr_id r = i then r\<lparr>fr_execution_config := c, fr_step_name_to_test := s\<rparr> else r) db)"
    for c s by (rule begun_kept_mapRuns) (simp_all split: if_splits)
  then show ?thesis by (auto simp: ensureRunExecutionConfig_def Let_def split: option.splits)
qed

lemma begun_kept_claim: "begun_kept db (snd (claimNextJob now lease db))"
  using begun_kept_retire begun_kept_trans [OF begun_kept_retire begun_kept_setJobs]
  by (auto simp: claimNextJob_def Let_def split: option.split)

lemma begun_wfOp:
  assumes "begun i db" "leavesBegun i (StepOp op)"
  shows "begun i (wfOp op db)"
proof (cases op)
  case (OpCreateRun k ts input)
  with assms show ?thesis
    by (auto simp: begun_def leavesBegun_def createFlowRun_def Let_def getFlowRun_def sql_get_append split: option.splits)
next
  case (OpUpdateRun now k patch)
  with assms begun_kept_update [of patch db now k] show ?thesis by (simp add: begun_kept_def leavesBegun_def)
next
  case (OpDeleteFlow f)
  with assms(1) show ?thesis by (simp add: begun_def delete_lookups)
next
  case (OpCancelJob ts k)
  have "begun_kept db (snd (cancelJob ts k db))"
    using begun_kept_cancel by (auto simp: cancelJob_def Let_def split: sum.split)
  with assms(1) OpCancelJob show ?thesis by (simp add: begun_kept_def)
next
  case (OpEnqueue k ts input)
  have "begun_kept db (snd (enqueueJob k ts input db))"
    by (rule begun_kept_runs) (simp add: enqueueJob_def Let_def)
  with assms(1) OpEnqueue show ?thesis by (simp add: begun_kept_def)
next
  case (OpComplete ts k)
  have "begun_kept db (snd (completeJob ts k db))" by (rule begun_kept_runs) (simp add: completeJob_def Let_def)
  with assms(1) OpComplete show ?thesis by (simp add: begun_kept_def)
next
  case (OpFail ts k err opts)
  have "begun_kept db (snd (failJob ts k err opts db))" by (auto simp: failJob_def split: sum.split option.split)
  with assms(1) OpFail show ?thesis by (simp add: begun_kept_def)
next
  case (OpCreateWaitpoint k now input)
  have "begun_kept db (snd (createWaitpoint k now input db))"
    by (rule begun_kept_runs) (simp add: createWaitpoint_def Let_def)
  with assms(1) OpCreateWaitpoint show ?thesis by (simp add: begun_kept_def)
next
  case (OpResumeWaitpoint now k)
  have "begun_kept db (snd (markWaitpointResumed now k db))"
    by (rule begun_kept_runs) (simp add: markWaitpointResumed_def Let_def)
  with assms(1) OpResumeWaitpoint show ?thesis by (simp add: begun_kept_def)
qed (use assms(1) begun_kept_cancel begun_kept_claim begun_kept_recover begun_kept_ensure in
    \<open>simp_all add: begun_kept_def\<close>)

lemma begun_kept_start: "begun_kept db (snd (startRun hasVersion now job db))"
  by (auto simp: startRun_def noPatch_def intro!: begun_kept_update split: option.split)

lemma begun_kept_failure: "begun_kept db (snd (settleFailure now k e db))"
  by (auto simp: settleFailure_def noPatch_def intro!: begun_kept_update split: RunEnd.split)

lemma begun_kept_settle:
  assumes "leavesBegun i (StepSettle now k e)"
  shows "begun_kept db (snd (settleFlow now k e db))"
proof (cases e)
  case (ExecDone s steps n)
  let ?p = "noPatch\<lparr>up_status := Some (js_or s run_succeeded), up_steps := Some (Some steps), up_stepsCount := Some n,
    up_finishTime := Some (if s = Some run_paused then None else Some now)\<rparr>"
  have "up_status ?p \<noteq> Some run_queued" using assms ExecDone by (auto simp: leavesBegun_def js_or_def split: option.splits)
  from begun_kept_update [OF this, of db now k]
  have "begun_kept db d \<and> begun_kept db (snd (settleFailure now k e' d))" if "updateRun now k ?p db = (x, d)" for x d e'
    using that begun_kept_trans begun_kept_failure by (metis snd_conv)
  then show ?thesis by (auto simp: settleFlow_def ExecDone split: prod.split sum.split WfError.split)
qed (simp_all add: settleFlow_def begun_kept_failure)

lemma startRun_begins:
  assumes "fst (startRun hasVersion now job db) = StartedRun i"
  obtains r where "payloadText job ''runId'' = Some i" "getFlowRun db i = Some r" "getRunCancellation db i = None"
    "jb_attempt job = 1" "fr_status r = (if isResume job then run_paused else run_queued)"
    "getFlowRun (snd (startRun hasVersion now job db)) i = Some (applyPatch now (noPatch\<lparr>up_status := Some run_running,
       up_startTime := Some (js_or (fr_start_time r) now), up_finishTime := Some None, up_failedStep := Some None\<rparr>) r)"
proof -
  from assms obtain r where r: "payloadText job ''runId'' = Some i" "getFlowRun db i = Some r" "getRunCancellation db i = None"
    "jb_attempt job = 1" "fr_status r = (if isResume job then run_paused else run_queued)"
    "i \<noteq> []" "hasVersion (fr_flow_version_id r)"
    by (auto simp: startRun_def Let_def split: option.splits if_splits)
  then have "snd (startRun hasVersion now job db) = snd (updateRun now i (noPatch\<lparr>up_status := Some run_running,
       up_startTime := Some (js_or (fr_start_time r) now), up_finishTime := Some None, up_failedStep := Some None\<rparr>) db)"
    by (simp add: startRun_def)
  with r(2,3) show thesis by (intro that [OF r(1-5)]) (simp add: getFlowRun_update)
qed

interpretation runBegin: guarded_one_shot "workerStep hasVersion" "beginsRun hasVersion i" "begun i" "\<lambda>_. True" "leavesBegun i"
  for hasVersion i
proof unfold_locales
  fix db :: WorkflowDb and x :: WorkerStep
  assume legal: "leavesBegun i x"
  show "begun i (workerStep hasVersion x db)" if "begun i db"
  proof (cases x)
    case (StepOp op)
    with legal that show ?thesis by (simp add: workerStep_def begun_wfOp)
  next
    case (StepStart now job)
    with that begun_kept_start show ?thesis by (simp add: workerStep_def begun_kept_def)
  next
    case (StepSettle now k e)
    with legal that begun_kept_settle show ?thesis by (simp add: workerStep_def begun_kept_def)
  qed
  show "begun i (workerStep hasVersion x db)" if "beginsRun hasVersion i x db"
  proof -
    from that obtain now job where x: "x = StepStart now job" "fst (startRun hasVersion now job db) = StartedRun i"
      by (cases x) (auto simp: beginsRun_def)
    from x(2) show ?thesis
      by (rule startRun_begins) (simp add: x(1) workerStep_def begun_def applyPatch_def js_or_def)
  qed
  show "\<not> beginsRun hasVersion i x db" if "begun i db"
  proof
    assume "beginsRun hasVersion i x db"
    then obtain now job where x: "x = StepStart now job" "\<not> isResume job" "fst (startRun hasVersion now job db) = StartedRun i"
      by (cases x) (auto simp: beginsRun_def)
    from x(3) show False by (rule startRun_begins) (use that x(2) in \<open>simp add: begun_def\<close>)
  qed
qed simp_all

text \<open>C7: the engine begins a run at most once.  Over any interleaving of the atomic steps of any number of
  workers with claims, failures, restarts, cancellations and engine reports, at most one call of the engine begins a
  given run, whatever number of jobs name it; a run that has left \<^verbatim>\<open>QUEUED\<close> is never begun again.  The steps
  leave the beginning of the run to the engine (\<open>leavesBegun\<close>): none patches the run's status to \<^verbatim>\<open>QUEUED\<close>, no report of
  the engine does, and none creates a run with the id (the run is there, or is another); the program has no such
  write, since new runs have fresh ids and a status is patched only to the ones that follow \<^verbatim>\<open>QUEUED\<close>.\<close>

theorem run_begins_once:
  assumes "list_all (leavesBegun i) steps"
  shows "win_count (workerStep hasVersion) (beginsRun hasVersion i) steps db \<le> 1 \<and>
    (begun i db \<longrightarrow> win_count (workerStep hasVersion) (beginsRun hasVersion i) steps db = 0)"
  using runBegin.count_le_1 runBegin.spent_count assms by blast

definition begin_job :: "string \<Rightarrow> Job" where
  "begin_job i = \<lparr> jb_id = i, jb_jobType = RUN_FLOW, jb_flowRunId = Some ''r'', jb_flowId = None, jb_flowVersionId = None,
     jb_payload = JObj [(''runId'', JStr ''r'')], jb_priority = 0, jb_status = job_running, jb_attempt = 1,
     jb_maxAttempts = 1, jb_lockedUntil = Some 9, jb_scheduledAt = 0, jb_lastError = None, jb_created = 0, jb_updated = 0 \<rparr>"

theorem run_begins_once_witness:
  "win_count (workerStep (\<lambda>_. True)) (beginsRun (\<lambda>_. True) ''r'')
     [StepOp (OpCreateRun ''q'' 0 plain_run), StepStart 1 (begin_job ''j''), StepStart 2 (begin_job ''k''),
      StepOp (OpRecover 3), StepSettle 4 ''r'' (ExecThrew (ThrownError ''Error'' ''lost'')), StepStart 5 (begin_job ''j'')]
     (wfOp (OpCreateRun ''r'' 0 plain_run) emptyDb) = 1"
proof -
  have "win_count (workerStep (\<lambda>_. True)) (beginsRun (\<lambda>_. True) ''r'')
     [StepOp (OpCreateRun ''q'' 0 plain_run), StepStart 1 (begin_job ''j''), StepStart 2 (begin_job ''k''),
      StepOp (OpRecover 3), StepSettle 4 ''r'' (ExecThrew (ThrownError ''Error'' ''lost'')), StepStart 5 (begin_job ''j'')]
     (wfOp (OpCreateRun ''r'' 0 plain_run) emptyDb) \<le> 1"
    using run_begins_once [of "''r''"] by (simp add: leavesBegun_def del: win_count.simps)
  moreover have "beginsRun (\<lambda>_. True) ''r'' (StepStart 1 (begin_job ''j''))
      (workerStep (\<lambda>_. True) (StepOp (OpCreateRun ''q'' 0 plain_run)) (wfOp (OpCreateRun ''r'' 0 plain_run) emptyDb))"
    by code_simp
  ultimately show ?thesis by simp
qed


section \<open>What a worker leaves of a workflow job\<close>

text \<open>An attempted workflow job is never put back in the queue.\<close>

definition attemptedRow :: "JobRow \<Rightarrow> bool" where
  "attemptedRow j = (jr_job_type j = RUN_FLOW \<and> jr_attempt j > 0 \<and> jr_status j \<noteq> job_queued)"

definition takenJob :: "WorkflowDb \<Rightarrow> string \<Rightarrow> bool" where
  "takenJob db i = (\<exists>j. jobRow db i = Some j \<and> attemptedRow j)"

lemma takenJob_rows:
  assumes "wd_jobs db' = map g (wd_jobs db)" "\<And>j. jr_id (g j) = jr_id j"
    and "\<And>j. attemptedRow j \<Longrightarrow> attemptedRow (g j)" "takenJob db i"
  shows "takenJob db' i"
  using assms(3,4) unfolding takenJob_def jobRow_def assms(1) sql_get_def
  by (auto simp: find_map_same [of "\<lambda>r. jr_id r = i" g, OF arg_cong [OF assms(2)]])

lemma takenJob_setJobs:
  assumes "\<And>j. jr_id (f j) = jr_id j" "\<And>j. p j \<Longrightarrow> attemptedRow j \<Longrightarrow> attemptedRow (f j)" "takenJob db i"
  shows "takenJob (setJobs p f db) i"
  by (rule takenJob_rows [OF setJobs_jobs]) (use assms in auto)

lemma takenJob_cancel:
  assumes "takenJob db i"
  shows "takenJob (snd (cancelFlowRun ts k db)) i"
proof (cases "cancelable db k")
  case True
  show ?thesis by (rule takenJob_rows [OF cancel_effect(1) [OF True]])
      (use assms in \<open>auto simp: cancelRow_def attemptedRow_def\<close>)
qed (simp add: cancel_refused assms)

lemma takenJob_claim:
  assumes ids: "distinct (map jr_id (wd_jobs db))" and taken: "takenJob db i"
  shows "takenJob (snd (claimNextJob now lease db)) i"
proof -
  let ?d = "retireWorkflowRetries now False db"
  have d: "takenJob ?d i"
    by (rule takenJob_rows [OF retire_jobs [OF ids] _ _ taken])
      (auto simp: attemptedRow_def retireRow_def failedRow_def)
  then have "takenJob (setJobs (\<lambda>x. jr_id x = k) (claimRow now l) ?d) i" for k l
    by (rule takenJob_setJobs [rotated 2]) (simp_all add: attemptedRow_def)
  with d taken show ?thesis by (auto simp: claimNextJob_def Let_def split: option.split)
qed

lemma takenJob_fail:
  assumes taken: "takenJob db i"
  shows "takenJob (snd (failJob ts k err opts db)) i"
proof (cases "k = i")
  case True
  from taken obtain j where j: "jobRow db i = Some j" "attemptedRow j" unfolding takenJob_def by blast
  have "takenJob (setJobs (\<lambda>x. jr_id x = i) (\<lambda>x. x\<lparr>jr_status := job_failed, jr_last_error := e,
      jr_locked_until := None, jr_updated := ts\<rparr>) db) i" for e
    by (rule takenJob_setJobs [OF _ _ taken]) (simp_all add: attemptedRow_def)
  moreover have "\<not> jb_attempt job < maxAttemptsForJob (jb_jobType job) (jb_maxAttempts job)"
    if "getJob db i = Inr (Some job)" for job
    using getJob_row [OF that] j rowToJob_simps [of j job]
    by (auto simp: attemptedRow_def maxAttemptsForJob_def WORKFLOW_RUN_MAX_ATTEMPTS_def)
  ultimately show ?thesis using taken True
    by (auto simp: failJob_def not_le split: sum.split option.split)
next
  case False
  have "takenJob (setJobs (\<lambda>x. jr_id x = k) f db) i" if "\<And>x. jr_id (f x) = jr_id x" for f
    using taken False that unfolding takenJob_def jobRow_def setJobs_def
    by (simp add: sql_get_key_update [of jr_id f, OF that])
  with taken show ?thesis by (auto simp: failJob_def split: sum.split option.split)
qed

lemma takenJob_recover:
  assumes ids: "distinct (map jr_id (wd_jobs db))" and taken: "takenJob db i"
  shows "takenJob (snd (recoverOrphanedJobs ts db)) i"
proof (rule takenJob_rows [OF recover_jobs(1) [OF ids]])
  have "takenJob d i \<Longrightarrow> takenJob (fold (\<lambda>r d. snd (cancelFlowRun ts (fr_id r) d)) rs d) i" for rs d
    by (induction rs arbitrary: d) (simp_all add: takenJob_cancel)
  with taken show "takenJob (recoverCanceledRuns ts db) i" by (simp add: recoverCanceledRuns_def)
  fix j
  show "jr_id (requeueRow ts (orphanRow ts (retireRow ts True j))) = jr_id j"
    by (simp add: requeueRow_def orphanRow_def)
  show "attemptedRow (requeueRow ts (orphanRow ts (retireRow ts True j)))" if "attemptedRow j"
    using that recovered_row [of ts j]
    by (auto simp: attemptedRow_def recoveredStatus_def requeueRow_def orphanRow_def job_active_def split: if_splits)
qed

lemma complete_setJobs:
  "snd (completeJob ts k db) = setJobs (\<lambda>j. jr_id j = k \<and> jr_status j = job_running)
     (\<lambda>j. j\<lparr>jr_status := job_succeeded, jr_last_error := None, jr_locked_until := None, jr_updated := ts\<rparr>) db"
  by (simp add: completeJob_def setJobs_def Let_def)

lemma takenJob_wfOp:
  assumes ids: "distinct (map jr_id (wd_jobs db))" and taken: "takenJob db i"
  shows "takenJob (wfOp op db) i"
proof (cases op)
  case (OpEnqueue k ts input)
  from enqueue_effect [of k ts input db] taken show ?thesis
    unfolding OpEnqueue by (auto simp: takenJob_def jobRow_def sql_get_append)
next
  case (OpComplete ts k)
  have "takenJob (setJobs (\<lambda>j. jr_id j = k \<and> jr_status j = job_running)
      (\<lambda>j. j\<lparr>jr_status := job_succeeded, jr_last_error := None, jr_locked_until := None, jr_updated := ts\<rparr>) db) i"
    by (rule takenJob_setJobs [OF _ _ taken]) (simp_all add: attemptedRow_def)
  then show ?thesis unfolding OpComplete by (simp add: complete_setJobs)
next
  case (OpCancelJob ts k)
  have "takenJob (setJobs (\<lambda>j. jr_id j = k \<and> job_active (jr_status j))
      (\<lambda>j. j\<lparr>jr_status := job_canceled, jr_locked_until := None, jr_updated := ts\<rparr>) db) i"
    by (rule takenJob_setJobs [OF _ _ taken]) (simp_all add: attemptedRow_def)
  with taken takenJob_cancel [OF taken] show ?thesis
    unfolding OpCancelJob by (auto simp: cancelJob_def Let_def split: sum.split)
qed (use taken ids takenJob_cancel takenJob_claim takenJob_fail takenJob_recover in
    \<open>simp_all add: takenJob_def jobRow_def\<close>)

lemma takenJob_wfRun:
  "distinct (map jr_id (wd_jobs db)) \<Longrightarrow> takenJob db i \<Longrightarrow> takenJob (wfRun ops db) i"
proof (induction ops arbitrary: db)
  case (Cons op ops)
  have "distinct (map jr_id (wd_jobs (wfOp op db)))"
    by (rule jobs_le_distinct [OF wfOp_jobs_le [OF Cons.prems(1)] Cons.prems(1)])
  with Cons.IH [OF this] Cons.prems takenJob_wfOp show ?case by simp
qed simp

lemma settled_start:
  "wd_jobs (snd (startRun hasVersion now job db)) = wd_jobs db"
  "wf_ok db \<Longrightarrow> wf_ok (snd (startRun hasVersion now job db))"
  by (auto simp: startRun_def wf_ok_update split: option.split)

lemma settled_failure:
  "wd_jobs (snd (settleFailure now i e db)) = wd_jobs db"
  "wf_ok db \<Longrightarrow> wf_ok (snd (settleFailure now i e db))"
  by (auto simp: settleFailure_def wf_ok_update split: RunEnd.split)

lemma settled_settle:
  "wd_jobs (snd (settleFlow now i e db)) = wd_jobs db"
  "wf_ok db \<Longrightarrow> wf_ok (snd (settleFlow now i e db))"
proof -
  have "wd_jobs (snd (settleFailure now i e' d)) = wd_jobs db \<and> (wf_ok db \<longrightarrow> wf_ok (snd (settleFailure now i e' d))) \<and>
      wd_jobs d = wd_jobs db \<and> (wf_ok db \<longrightarrow> wf_ok d)" if "updateRun now i p db = (x, d)" for x d p e'
    using that settled_failure wf_ok_update [of db now i p] other_jobs(2) [of now i p db] by simp
  then show "wd_jobs (snd (settleFlow now i e db)) = wd_jobs db"
    "wf_ok db \<Longrightarrow> wf_ok (snd (settleFlow now i e db))"
    by (auto simp: settleFlow_def settled_failure split: RunEnd.split prod.split sum.split WfError.split)
qed

lemma handler_keeps:
  assumes ok: "wf_ok db" and ops: "\<And>k job' d. list_all validOp (fst (exec k job' d))" and taken: "takenJob db i"
  shows "wf_ok (snd (runFlowHandler hasVersion exec s e job db)) \<and>
    takenJob (snd (runFlowHandler hasVersion exec s e job db)) i"
proof (cases "startRun hasVersion s job db")
  case (Pair out db1)
  have db1: "wf_ok db1" "takenJob db1 i" using settled_start [where hasVersion = hasVersion and now = s and job = job and db = db] ok taken Pair
    by (simp_all add: takenJob_def jobRow_def)
  show ?thesis
  proof (cases out)
    case (StartedRun k)
    obtain os en where x: "exec k job db1 = (os, en)" by force
    with ops [of k job db1] have os: "list_all validOp os" by simp
    have "takenJob (wfRun os db1) i" using takenJob_wfRun db1 by (simp add: wf_ok_def)
    with wf_ok_wfRun [OF db1(1) os] show ?thesis
      using settled_settle [where now = e and i = k and e = en and db = "wfRun os db1"] Pair StartedRun x
      by (simp add: runFlowHandler_def takenJob_def jobRow_def)
  qed (use Pair db1 in \<open>simp_all add: runFlowHandler_def\<close>)
qed

lemma status_now:
  assumes "wf_ok db" "jobRow db i = Some j"
  shows "jobStatusNow db i = Inr (Some (jr_status j))"
proof -
  from jobRow_mem [OF assms(2)] assms(1) have "JSON_parse (jr_payload j) \<noteq> None" by (auto simp: wf_ok_def)
  from rowToJob_Some [OF this] obtain job where job: "rowToJob j = Some job" ..
  with rowToJob_simps [OF job] assms(2) show ?thesis by (simp add: jobStatusNow_def getJob_def)
qed

lemma takenJob_row: "takenJob db i \<Longrightarrow> \<exists>j. jobRow db i = Some j \<and> attemptedRow j"
  by (simp add: takenJob_def)

lemma fail_taken:
  assumes ok: "wf_ok db" and taken: "takenJob db i"
  shows "\<exists>j. jobRow (snd (failJob ts i msg opts db)) i = Some j \<and> \<not> job_active (jr_status j)"
proof -
  from takenJob_row [OF taken] obtain j where j: "jobRow db i = Some j" "attemptedRow j" by blast
  have row: "jobRow (snd (failJob ts i msg opts db)) i = Some j" if "jr_status j \<noteq> job_running"
    using status_now [OF ok j(1)] j(1) that
    by (auto simp: failJob_def jobStatusNow_def split: sum.splits option.splits)
  show ?thesis
  proof (cases "jr_status j = job_running")
    case False
    with row j(2) show ?thesis by (auto simp: attemptedRow_def job_active_def)
  next
    case True
    from jobRow_mem [OF j(1)] ok have "JSON_parse (jr_payload j) \<noteq> None" by (auto simp: wf_ok_def)
    from rowToJob_Some [OF this] obtain job where job: "rowToJob j = Some job" ..
    have "snd (failJob ts i msg opts db) = setJobs (\<lambda>x. jr_id x = i) (\<lambda>x. x\<lparr>jr_status := job_failed,
        jr_last_error := Some (workflowFailureMessage msg), jr_locked_until := None, jr_updated := ts\<rparr>) db"
      using job rowToJob_simps [OF job] j True
      by (auto simp: failJob_def getJob_def attemptedRow_def maxAttemptsForJob_def WORKFLOW_RUN_MAX_ATTEMPTS_def)
    with j(1) show ?thesis
      by (simp add: jobRow_def setJobs_def sql_get_key_update [of jr_id] job_active_def)
  qed
qed

lemma handle_failure_settles:
  assumes "wf_ok db" "takenJob db (jb_id job)"
  shows "fst (handleFailure now job t db) = False \<and>
    (\<exists>j. jobRow (snd (handleFailure now job t db)) (jb_id job) = Some j \<and> \<not> job_active (jr_status j))"
proof -
  from takenJob_row [OF assms(2)] obtain j where j: "jobRow db (jb_id job) = Some j" "attemptedRow j" by blast
  with status_now [OF assms(1) j(1)] fail_taken [OF assms] show ?thesis
    by (auto simp: handleFailure_def job_active_def)
qed

lemma complete_running:
  assumes "jobRow db i = Some j" "jr_status j = job_running"
  shows "fst (completeJob ts i db) = None \<and>
    (\<exists>j. jobRow (snd (completeJob ts i db)) i = Some j \<and> jr_status j = job_succeeded)"
proof -
  from jobRow_mem [OF assms(1)] have j: "jr_id j = i" "j \<in> set (wd_jobs db)" by simp_all
  with assms(2) have "\<exists>x \<in> set (wd_jobs db). jr_id x = i \<and> jr_status x = job_running" by blast
  then have "0 < snd (sql_update (\<lambda>x. jr_id x = i \<and> jr_status x = job_running)
      (\<lambda>x. x\<lparr>jr_status := job_succeeded, jr_last_error := None, jr_locked_until := None, jr_updated := ts\<rparr>) (wd_jobs db))"
    by (simp add: sql_update_changes)
  then show ?thesis using assms j
    by (simp add: completeJob_def Let_def jobRow_def sql_get_update [of jr_id])
qed

text \<open>C18: a worker settles what it takes.  Whatever the engine and everybody else write while a claimed workflow
  job runs, and however the engine ends, no error leaves the worker's loop and the job is then neither queued
  nor running; so a workflow job is never left to be run again.\<close>

theorem worker_settles:
  assumes "wf_ok db" "claimNextJob now lease db = (Inr (Some job), db1)" "jb_jobType job = RUN_FLOW"
    and "handlers RUN_FLOW = Some (runFlowHandler hasVersion exec startAt endAt)"
    and "\<And>k job' d. list_all validOp (fst (exec k job' d))"
  shows "fst (handleJob handlers doneAt job db1) = False \<and>
    (\<exists>j. jobRow (snd (handleJob handlers doneAt job db1)) (jb_id job) = Some j \<and> \<not> job_active (jr_status j))"
proof -
  have ids: "distinct (map jr_id (wd_jobs db))" using assms(1) by (simp add: wf_ok_def)
  have db1: "wf_ok db1" using wf_ok_wfOp [OF assms(1), of "OpClaim now lease"] assms(2) by (simp add: validOp_def)
  obtain j j' where j: "jobRow db (jb_id job) = Some j" "claimableJob now j" "jb_attempt job = Suc (jr_attempt j)"
    "jb_jobType job = jr_job_type j" "jobRow db1 (jb_id job) = Some j'" "rowToJob j' = Some job"
    by (rule job_claim_row [OF ids assms(2)])
  have "jb_status job = job_running"
    using ids
  proof (cases rule: claim_cases [where now = now and lease = lease])
    case none
    with assms(2) show ?thesis by simp
  next
    case (some x)
    with assms(2) have "rowToJob (claimRow now (now + js_or lease DEFAULT_LEASE_MS) (cappedRow now x)) = Some job"
      by (auto split: option.splits)
    from rowToJob_simps [OF this] show ?thesis by simp
  qed
  with j rowToJob_simps [OF j(6)] assms(3) have taken: "takenJob db1 (jb_id job)"
    by (auto simp: takenJob_def attemptedRow_def)
  obtain thrown db2 where h: "runFlowHandler hasVersion exec startAt endAt job db1 = (thrown, db2)" by force
  have "wf_ok (snd (runFlowHandler hasVersion exec startAt endAt job db1)) \<and>
      takenJob (snd (runFlowHandler hasVersion exec startAt endAt job db1)) (jb_id job)"
    by (rule handler_keeps [OF db1 _ taken]) (rule assms(5))
  with h have db2: "wf_ok db2" "takenJob db2 (jb_id job)" by simp_all
  from takenJob_row [OF db2(2)] obtain k where k: "jobRow db2 (jb_id job) = Some k" "attemptedRow k" by blast
  note fails = handle_failure_settles [OF db2]
  show ?thesis
  proof (cases thrown)
    case (Some t)
    with fails h assms(3,4) show ?thesis by (simp add: handleJob_def)
  next
    case None
    show ?thesis
    proof (cases "jr_status k = job_running")
      case True
      from complete_running [OF k(1) True, of doneAt] obtain db3 where "completeJob doneAt (jb_id job) db2 = (None, db3)"
        "\<exists>j. jobRow db3 (jb_id job) = Some j \<and> jr_status j = job_succeeded" by (metis prod.collapse)
      with None h assms(3,4) status_now [OF db2(1) k(1)] True show ?thesis
        by (auto simp: handleJob_def job_active_def)
    next
      case False
      with None h assms(3,4) status_now [OF db2(1) k(1)] k show ?thesis
        by (auto simp: handleJob_def job_active_def attemptedRow_def)
    qed
  qed
qed

text \<open>An engine during whose run the job is canceled, and one that is lost to a restart.\<close>

definition worker_db :: WorkflowDb where
  "worker_db = wfRun [OpCreateRun ''r'' 0 plain_run, OpEnqueue ''j'' 1 run_job] emptyDb"

definition canceling :: "string \<Rightarrow> Job \<Rightarrow> WorkflowDb \<Rightarrow> WfOp list \<times> RunEnd" where
  "canceling k job db = ([OpCancelRun 3 k, OpRecover 4], ExecThrew (ThrownError ''Error'' ''aborted''))"

lemma canceling_valid: "list_all validOp (fst (canceling k job db))"
  by (simp add: canceling_def validOp_def)

definition workerHandlers :: JobHandlers where
  "workerHandlers = (\<lambda>k. if k = RUN_FLOW then Some (runFlowHandler (\<lambda>_. True) canceling 2 5) else None)"

theorem worker_settles_witness:
  "(case claimNextJob 2 None worker_db of
      (Inr (Some job), db1) \<Rightarrow> fst (handleJob workerHandlers 6 job db1) = False \<and>
        (\<exists>j. jobRow (snd (handleJob workerHandlers 6 job db1)) (jb_id job) = Some j \<and> \<not> job_active (jr_status j))
    | _ \<Rightarrow> False)"
proof -
  have "(case fst (claimNextJob 2 None worker_db) of Inr (Some job) \<Rightarrow> jb_jobType job = RUN_FLOW | _ \<Rightarrow> False)"
    by code_simp
  then obtain job db1 where c: "claimNextJob 2 None worker_db = (Inr (Some job), db1)" "jb_jobType job = RUN_FLOW"
    by (cases "claimNextJob 2 None worker_db") (auto split: sum.splits option.splits)
  have ok: "wf_ok worker_db"
    unfolding worker_db_def by (rule wf_ok_wfRun [OF wf_ok_emptyDb]) (simp add: validOp_def run_job_def)
  from worker_settles [OF ok c, where handlers = workerHandlers and exec = canceling, OF _ canceling_valid] c
  show ?thesis by (simp add: workerHandlers_def)
qed

end
