(* ===== verification/Worker_Drain.thy ===== *)
theory Worker_Drain
  imports Workflow_Worker
begin

text \<open>
  The one-shot mode of the worker returns.  \<open>turnsLeft\<close> bounds the claims a job table still has in it: a
  workflow job is claimed once, any other active job at most once for every attempt it has left and once
  when it has none, since a takeover of an expired lease does not look at the attempts.
\<close>

definition jobTurns :: "JobRow \<Rightarrow> nat" where
  "jobTurns j = (if job_active (jr_status j)
     then max 1 (maxAttemptsForJob (jr_job_type j) (jr_max_attempts j) - jr_attempt j) else 0)"

definition turnsLeft :: "WorkflowDb \<Rightarrow> nat" where
  "turnsLeft db = (\<Sum>j\<leftarrow>wd_jobs db. jobTurns j)"

text \<open>A handler that adds no job and changes one only to settle it.\<close>

definition settlesOnly :: "JobRow \<Rightarrow> JobRow \<Rightarrow> bool" where
  "settlesOnly j j' = (jr_id j' = jr_id j \<and> jr_job_type j' = jr_job_type j \<and> jr_attempt j' = jr_attempt j \<and>
     jr_max_attempts j' = jr_max_attempts j \<and> (jr_status j' = jr_status j \<or> \<not> job_active (jr_status j')))"

definition calmHandler :: "(Job \<Rightarrow> WorkflowDb \<Rightarrow> Thrown option \<times> WorkflowDb) \<Rightarrow> bool" where
  "calmHandler h = (\<forall>job db. wf_ok db \<longrightarrow> wf_ok (snd (h job db)) \<and>
     list_all2 settlesOnly (wd_jobs db) (wd_jobs (snd (h job db))))"

text \<open>What each stage of a turn does to the rows; \<open>i\<close> is the job of the turn.\<close>

definition claimedBy :: "string \<Rightarrow> JobRow \<Rightarrow> JobRow \<Rightarrow> bool" where
  "claimedBy i j j' = (jr_id j' = jr_id j \<and> (if jr_id j = i
     then job_active (jr_status j) \<and> jr_status j' = job_running \<and> jr_attempt j' = Suc (jr_attempt j) \<and>
       maxAttemptsForJob (jr_job_type j') (jr_max_attempts j') = maxAttemptsForJob (jr_job_type j) (jr_max_attempts j)
     else jobTurns j' \<le> jobTurns j))"

definition settledBy :: "string \<Rightarrow> JobRow \<Rightarrow> JobRow \<Rightarrow> bool" where
  "settledBy i j j' = (jr_id j' = jr_id j \<and> (if jr_id j = i \<and> jr_status j = job_running
     then \<not> job_active (jr_status j') \<or> (jr_attempt j' = jr_attempt j \<and>
       jr_job_type j' = jr_job_type j \<and> jr_max_attempts j' = jr_max_attempts j \<and>
       jr_attempt j < maxAttemptsForJob (jr_job_type j) (jr_max_attempts j))
     else j' = j))"

definition turnOf :: "string \<Rightarrow> JobRow \<Rightarrow> JobRow \<Rightarrow> bool" where
  "turnOf i j j' = (jobTurns j' \<le> jobTurns j \<and> (jr_id j = i \<longrightarrow> jobTurns j' < jobTurns j))"

lemma one_turn: "claimedBy i a b \<Longrightarrow> settlesOnly b c \<Longrightarrow> settledBy i c d \<Longrightarrow> turnOf i a d"
  by (cases "jr_id a = i"; cases "jr_status c = job_running"; cases "job_active (jr_status d)")
     (auto simp: claimedBy_def settlesOnly_def settledBy_def turnOf_def jobTurns_def job_active_def)

lemma turns_decrease:
  assumes "list_all2 (turnOf i) xs ys" "i \<in> jr_id ` set xs"
  shows "sum_list (map jobTurns ys) < sum_list (map jobTurns xs)"
proof -
  have le: "sum_list (map jobTurns ys) \<le> sum_list (map jobTurns xs)" if "list_all2 (turnOf i) xs ys" for xs ys
    using that by (induction rule: list_all2_induct) (auto simp: turnOf_def)
  from assms show ?thesis
  proof (induction rule: list_all2_induct)
    case (Cons x xs y ys)
    then show ?case using le [OF Cons(2)] by (cases "jr_id x = i") (auto simp: turnOf_def)
  qed simp
qed

lemma capped_turns: "maxAttemptsForJob (jr_job_type j) (jr_max_attempts (cappedRow ts j)) =
    maxAttemptsForJob (jr_job_type j) (jr_max_attempts j)"
  by (simp add: cappedRow_def maxAttemptsForJob_def)

lemma retire_turns: "jobTurns (retireRow ts b j) \<le> jobTurns j"
  using capped_turns [of j ts] by (simp add: jobTurns_def retireRow_def failedRow_def job_active_def)

lemma claim_turn:
  assumes "wf_ok db" "claimNextJob now lease db = (Inr (Some job), db1)"
  shows "list_all2 (claimedBy (jb_id job)) (wd_jobs db) (wd_jobs db1)" "jb_id job \<in> jr_id ` set (wd_jobs db)"
proof -
  have ids: "distinct (map jr_id (wd_jobs db))" using assms(1) by (simp add: wf_ok_def)
  then have "list_all2 (claimedBy (jb_id job)) (wd_jobs db) (wd_jobs db1) \<and> jb_id job \<in> jr_id ` set (wd_jobs db)"
  proof (cases rule: claim_cases [where now = now and lease = lease])
    case none
    with assms(2) show ?thesis by simp
  next
    case (some j)
    let ?l = "now + js_or lease DEFAULT_LEASE_MS"
    from some(4) assms(2) have job: "rowToJob (claimRow now ?l (cappedRow now j)) = Some job"
      and db1: "db1 = setJobs (\<lambda>x. jr_id x = jr_id j) (claimRow now ?l) (retireWorkflowRetries now False db)"
      by (auto split: option.splits)
    from rowToJob_simps [OF job] have i: "jb_id job = jr_id j" by simp
    have "claimedBy (jr_id j) x (if jr_id x = jr_id j then claimRow now ?l (retireRow now False x) else retireRow now False x)"
      if "x \<in> set (wd_jobs db)" for x
    proof (cases "jr_id x = jr_id j")
      case True
      with same_row [OF ids that some(1)] have "x = j" by simp
      moreover have "job_active (jr_status j)" using some(2) by (auto simp: claimableJob_def jobReady_def job_active_def)
      ultimately show ?thesis using capped_turns [of j now] some(2)
        by (simp add: claimedBy_def retireRow_claimable claimRow_def)
    next
      case False
      then show ?thesis by (simp add: claimedBy_def retire_turns)
    qed
    then have "list_all2 (claimedBy (jr_id j)) (wd_jobs db) (wd_jobs db1)"
      by (simp add: db1 retire_jobs [OF ids] list_all2_map2 list_all2_same)
    with i some(1) show ?thesis by simp
  qed
  then show "list_all2 (claimedBy (jb_id job)) (wd_jobs db) (wd_jobs db1)" "jb_id job \<in> jr_id ` set (wd_jobs db)"
    by simp_all
qed
lemma settledBy_refl: "list_all2 (settledBy i) js js" if "\<And>j. j \<in> set js \<Longrightarrow> jr_id j = i \<Longrightarrow> jr_status j \<noteq> job_running"
  using that by (auto simp: list_all2_same settledBy_def)

lemma not_running:
  assumes "wf_ok db" "\<And>j. jobRow db i = Some j \<Longrightarrow> jr_status j \<noteq> job_running"
  shows "list_all2 (settledBy i) (wd_jobs db) (wd_jobs db)"
proof (rule settledBy_refl)
  fix j assume j: "j \<in> set (wd_jobs db)" "jr_id j = i"
  then obtain k where k: "jobRow db i = Some k" using jobRow_None [of db i] by (cases "jobRow db i") auto
  with jobRow_mem [OF k] same_row [of "wd_jobs db" j k] assms j show "jr_status j \<noteq> job_running"
    by (simp add: wf_ok_def)
qed

lemma complete_turn: "list_all2 (settledBy i) (wd_jobs db) (wd_jobs (snd (completeJob ts i db)))"
  by (auto simp: complete_setJobs list_all2_map2 list_all2_same settledBy_def job_active_def)

lemma fail_turn:
  assumes ok: "wf_ok db"
  shows "list_all2 (settledBy i) (wd_jobs db) (wd_jobs (snd (failJob ts i err opts db)))"
proof (cases "\<exists>j. jobRow db i = Some j \<and> jr_status j = job_running")
  case False
  then have row: "jr_status j \<noteq> job_running" if "jobRow db i = Some j" for j using that by blast
  then have "snd (failJob ts i err opts db) = db"
    using getJob_row rowToJob_simps by (fastforce simp: failJob_def split: sum.split option.split)
  with not_running [OF ok row] show ?thesis by simp
next
  case True
  then obtain j where j: "jobRow db i = Some j" "jr_status j = job_running" by blast
  from jobRow_mem [OF j(1)] ok have mem: "j \<in> set (wd_jobs db)" "jr_id j = i" and "JSON_parse (jr_payload j) \<noteq> None"
    by (auto simp: wf_ok_def)
  from rowToJob_Some [OF this(3)] obtain job where job: "rowToJob j = Some job" ..
  have same: "x = j" if "x \<in> set (wd_jobs db)" "jr_id x = i" for x
    using same_row [OF _ that(1) mem(1)] that(2) mem(2) ok by (simp add: wf_ok_def)
  from j job rowToJob_simps [OF job] show ?thesis
    by (auto simp: failJob_def getJob_def list_all2_map2 list_all2_same settledBy_def job_active_def dest: same)
qed

lemma failure_turn:
  assumes "wf_ok db"
  shows "fst (handleFailure ts job t db) = False \<and>
    list_all2 (settledBy (jb_id job)) (wd_jobs db) (wd_jobs (snd (handleFailure ts job t db)))"
proof (cases "jobRow db (jb_id job)")
  case None
  then show ?thesis using fail_turn [OF assms]
    by (simp add: handleFailure_def jobStatusNow_def getJob_def)
next
  case (Some j)
  from status_now [OF assms Some] fail_turn [OF assms] not_running [OF assms, of "jb_id job"] Some show ?thesis
    by (auto simp: handleFailure_def)
qed

lemma wf_ok_settle:
  assumes "wf_ok db"
  shows "wf_ok (snd (failJob ts i err opts db))" "wf_ok (snd (completeJob ts i db))" "wf_ok (snd (handleFailure ts job t db))"
proof -
  show fail: "wf_ok (snd (failJob ts i err opts db))" for i err opts
    using wf_ok_wfOp [OF assms, of "OpFail ts i err opts"] by (simp add: validOp_def)
  show "wf_ok (snd (completeJob ts i db))" using wf_ok_wfOp [OF assms, of "OpComplete ts i"] by (simp add: validOp_def)
  show "wf_ok (snd (handleFailure ts job t db))" using fail assms by (simp add: handleFailure_def split: sum.split)
qed

lemma handle_turn:
  assumes ok: "wf_ok db" and calm: "\<And>h. handlers (jb_jobType job) = Some h \<Longrightarrow> calmHandler h"
  shows "fst (handleJob handlers ts job db) = False \<and> wf_ok (snd (handleJob handlers ts job db)) \<and>
    (\<exists>mid. list_all2 settlesOnly (wd_jobs db) mid \<and>
      list_all2 (settledBy (jb_id job)) mid (wd_jobs (snd (handleJob handlers ts job db))))"
proof (cases "handlers (jb_jobType job)")
  case None
  moreover have "list_all2 settlesOnly (wd_jobs db) (wd_jobs db)" by (simp add: list_all2_same settlesOnly_def)
  ultimately show ?thesis using fail_turn [OF ok] wf_ok_settle [OF ok] by (auto simp: handleJob_def)
next
  case (Some h)
  obtain t db1 where h: "h job db = (t, db1)" by force
  with calm [OF Some] ok have ok1: "wf_ok db1" and mid: "list_all2 settlesOnly (wd_jobs db) (wd_jobs db1)"
    unfolding calmHandler_def by (metis snd_conv)+
  show ?thesis
  proof (cases t)
    case (Some e)
    with h \<open>handlers (jb_jobType job) = Some h\<close> failure_turn [OF ok1] wf_ok_settle [OF ok1] mid show ?thesis
      by (auto simp: handleJob_def)
  next
    case None
    show ?thesis
    proof (cases "\<exists>j. jobRow db1 (jb_id job) = Some j \<and> jr_status j = job_running")
      case True
      then obtain j where j: "jobRow db1 (jb_id job) = Some j" "jr_status j = job_running" by blast
      from complete_running [OF j, of ts] obtain db2 where "completeJob ts (jb_id job) db1 = (None, db2)"
        by (metis prod.collapse)
      with complete_turn [of "jb_id job" db1 ts] wf_ok_settle(2) [OF ok1, of ts "jb_id job"] mid status_now [OF ok1 j(1)] j(2)
        None h \<open>handlers (jb_jobType job) = Some h\<close>
      show ?thesis by (auto simp: handleJob_def)
    next
      case False
      then have "jr_status j \<noteq> job_running" if "jobRow db1 (jb_id job) = Some j" for j using that by blast
      from not_running [OF ok1 this] have rest: "list_all2 (settledBy (jb_id job)) (wd_jobs db1) (wd_jobs db1)" .
      have "\<exists>s. jobStatusNow db1 (jb_id job) = Inr s \<and> s \<noteq> Some job_running"
        using status_now [OF ok1] False
        by (cases "jobRow db1 (jb_id job)") (auto simp: jobStatusNow_def getJob_def)
      with rest ok1 mid None h \<open>handlers (jb_jobType job) = Some h\<close> show ?thesis by (auto simp: handleJob_def)
    qed
  qed
qed

lemma turn_decreases:
  assumes ok: "wf_ok db" and claim: "claimNextJob now lease db = (Inr (Some job), db1)"
    and calm: "\<And>h. handlers (jb_jobType job) = Some h \<Longrightarrow> calmHandler h"
  shows "fst (handleJob handlers ts job db1) = False \<and> wf_ok (snd (handleJob handlers ts job db1)) \<and>
    turnsLeft (snd (handleJob handlers ts job db1)) < turnsLeft db"
proof -
  have ok1: "wf_ok db1" using wf_ok_wfOp [OF ok, of "OpClaim now lease"] claim by (simp add: validOp_def)
  from handle_turn [OF ok1 calm] obtain mid where t: "fst (handleJob handlers ts job db1) = False"
      "wf_ok (snd (handleJob handlers ts job db1))" and mid: "list_all2 settlesOnly (wd_jobs db1) mid"
      "list_all2 (settledBy (jb_id job)) mid (wd_jobs (snd (handleJob handlers ts job db1)))" by blast
  have "list_all2 (\<lambda>a c. \<exists>b. claimedBy (jb_id job) a b \<and> settlesOnly b c) (wd_jobs db) mid"
    by (rule list_all2_trans [OF _ claim_turn(1) [OF ok claim] mid(1)]) blast
  from list_all2_trans [OF _ this mid(2), of "turnOf (jb_id job)"] one_turn
  have "list_all2 (turnOf (jb_id job)) (wd_jobs db) (wd_jobs (snd (handleJob handlers ts job db1)))" by blast
  from turns_decrease [OF this claim_turn(2) [OF ok claim]] t show ?thesis by (simp add: turnsLeft_def)
qed

lemma claim_result_cases:
  assumes "wf_ok db"
  obtains db1 where "claimNextJob now lease db = (Inr None, db1)"
  | job db1 where "claimNextJob now lease db = (Inr (Some job), db1)"
  using claim_result [OF assms, of now lease]
  by (cases "claimNextJob now lease db") (auto split: if_splits)

text \<open>C19: the one-shot mode returns.  If every handler adds no job and changes one only to settle it, whatever the
  clock does, the loop ends without an error within \<open>turnsLeft\<close> turns, and counts no more jobs than that.\<close>

theorem drain_returns:
  assumes "wf_ok db" "\<And>k h. handlers k = Some h \<Longrightarrow> calmHandler h" "turnsLeft db < length turns"
  shows "\<exists>m. fst (drainJobs handlers lease turns n db) = Some (Inr m) \<and> n \<le> m \<and> m \<le> n + turnsLeft db"
  using assms(1,3)
proof (induction turns arbitrary: n db)
  case (Cons t turns)
  obtain claimAt doneAt where t: "t = (claimAt, doneAt)" by force
  from Cons.prems(1) show ?case
  proof (cases rule: claim_result_cases [where now = claimAt and lease = lease])
    case (1 db1)
    then show ?thesis by (simp add: t)
  next
    case (2 job db1)
    obtain b db2 where h: "handleJob handlers doneAt job db1 = (b, db2)" by force
    from turn_decreases [where handlers = handlers and ts = doneAt, OF Cons.prems(1) 2 assms(2)] h
    have "b = False" "wf_ok db2" "turnsLeft db2 < turnsLeft db" by simp_all
    with Cons.IH [of db2 "Suc n"] Cons.prems(2) 2 h t show ?thesis by fastforce
  qed
qed simp

text \<open>A queue with a workflow job and a job of a type nobody handles.\<close>

definition mixed_queue :: WorkflowDb where
  "mixed_queue = wfRun [OpCreateRun ''r'' 0 plain_run, OpEnqueue ''j'' 1 run_job, OpEnqueue ''a'' 1 (plain_job 0 None 2)] emptyDb"

definition noopExecute :: "string \<Rightarrow> Job \<Rightarrow> WorkflowDb \<Rightarrow> WfOp list \<times> RunEnd" where
  "noopExecute runId job db = ([], ExecDone None [] 0)"

lemma noop_calm: "calmHandler (runFlowHandler hasVersion noopExecute s e)"
proof -
  have "wd_jobs (snd (runFlowHandler hasVersion noopExecute s e job db)) = wd_jobs db \<and>
      (wf_ok db \<longrightarrow> wf_ok (snd (runFlowHandler hasVersion noopExecute s e job db)))" for job db
  proof (cases "startRun hasVersion s job db")
    case (Pair out d)
    with settled_start [where hasVersion = hasVersion and now = s and job = job and db = db]
      settled_settle [where now = e and db = d] show ?thesis
      by (cases out) (simp_all add: runFlowHandler_def noopExecute_def)
  qed
  then show ?thesis by (simp add: calmHandler_def list_all2_same settlesOnly_def)
qed

definition noopHandlers :: JobHandlers where
  "noopHandlers = (\<lambda>k. if k = RUN_FLOW then Some (runFlowHandler (\<lambda>_. True) noopExecute 3 4) else None)"

theorem drain_returns_witness:
  "\<exists>m. fst (drainJobs noopHandlers None [(2, 3), (4, 5), (6, 7), (8, 9)] 0 mixed_queue) = Some (Inr m) \<and> m \<le> 3"
proof -
  have ok: "wf_ok mixed_queue"
    unfolding mixed_queue_def by (rule wf_ok_wfRun [OF wf_ok_emptyDb]) (simp add: validOp_def run_job_def plain_job_def)
  have left: "turnsLeft mixed_queue = 3" by code_simp
  have calm: "\<And>k h. noopHandlers k = Some h \<Longrightarrow> calmHandler h"
    by (auto simp: noopHandlers_def noop_calm split: if_splits)
  from drain_returns [OF ok calm, where turns = "[(2, 3), (4, 5), (6, 7), (8, 9)]" and lease = None and n = 0] left show ?thesis by auto
qed

end
