(* ===== verification/Canonical_Json.thy ===== *)
theory Canonical_Json
  imports Json "HOL-Library.Char_ord" "HOL-Library.List_Lexorder" "HOL-Library.Multiset"
begin

text \<open>
  The identity of a JSON value that the effect boundary uses (\<^verbatim>\<open>src/workflows/runtime/effect-context.ts\<close>,
  \<^verbatim>\<open>canonicalJson\<close> and \<^verbatim>\<open>digest\<close>): objects are printed with their keys sorted.  The keys are sorted by code
  units and entered in a fresh object, which lists the keys that spell an array index before the others
  and in numeric order.  The hash is SHA-256, a parameter.
\<close>

definition index_value :: "string \<Rightarrow> int option" where
  "index_value s =
     (if s = [] \<or> \<not> list_all (\<lambda>c. CHR ''0'' \<le> c \<and> c \<le> CHR ''9'') s \<or> (hd s = CHR ''0'' \<and> length s > 1) then None
      else let n = foldl (\<lambda>n c. 10 * n + (of_char c - 48)) 0 s
           in if n < 4294967295 then Some n else None)"

definition keyOrder :: "(string \<times> 'v) list \<Rightarrow> (string \<times> 'v) list" where
  "keyOrder kvs =
     (let sorted_kvs = sort_key fst kvs
      in sort_key (\<lambda>kv. the (index_value (fst kv))) (filter (\<lambda>kv. index_value (fst kv) \<noteq> None) sorted_kvs) @
         filter (\<lambda>kv. index_value (fst kv) = None) sorted_kvs)"

fun canonical :: "json \<Rightarrow> json" where
  "canonical (JArr xs) = JArr (map canonical xs)"
| "canonical (JObj kvs) = JObj (keyOrder (map (\<lambda>kv. (fst kv, canonical (snd kv))) kvs))"
| "canonical v = v"

definition canonicalJson :: "json \<Rightarrow> string" where
  "canonicalJson v = JSON_stringify (canonical v)"

definition digest :: "(string \<Rightarrow> string) \<Rightarrow> json \<Rightarrow> string" where
  "digest sha v = sha (canonicalJson v)"

text \<open>Equality of JSON values up to the order of the keys of objects.\<close>

fun same_json :: "json \<Rightarrow> json \<Rightarrow> bool" where
  "same_json (JArr xs) (JArr ys) = list_all2 same_json xs ys"
| "same_json (JObj a) (JObj b) = (length a = length b \<and>
     (\<forall>kv \<in> set a. case map_of b (fst kv) of None \<Rightarrow> False | Some w \<Rightarrow> same_json (snd kv) w))"
| "same_json v w = (v = w)"

lemma keyOrder_mset [simp]: "mset (keyOrder kvs) = mset kvs"
  unfolding keyOrder_def Let_def by (simp add: mset_sort)

lemma keyOrder_set [simp]: "set (keyOrder kvs) = set kvs"
  by (rule mset_eq_setD) simp

lemma keyOrder_keys: "mset (map fst (keyOrder kvs)) = mset (map fst kvs)"
  by simp

lemma keyOrder_distinct [simp]: "distinct (map fst (keyOrder kvs)) = distinct (map fst kvs)"
  by (rule mset_eq_imp_distinct_iff) (rule keyOrder_keys)

lemma keyOrder_unique:
  assumes "distinct (map fst a)" "mset a = mset b"
  shows "keyOrder a = keyOrder b"
proof -
  have "inj_on fst (set a)" using assms(1) by (simp add: distinct_map)
  with assms(2) have "sort_key fst a = sort_key fst b"
    by (intro sort_key_inj_key_eq) simp_all
  then show ?thesis by (simp add: keyOrder_def)
qed

lemma canonical_ok: "json_ok v \<Longrightarrow> json_ok (canonical v)"
proof (induction v rule: canonical.induct)
  case (1 xs)
  then show ?case by (auto simp: list_all_iff)
next
  case (2 kvs)
  then have "distinct (map fst (map (\<lambda>kv. (fst kv, canonical (snd kv))) kvs))" by (simp add: comp_def)
  with 2 show ?case by (auto simp: list_all_iff)
qed simp_all

abbreviation canonEntries :: "(string \<times> json) list \<Rightarrow> (string \<times> json) list" where
  "canonEntries \<equiv> map (\<lambda>kv. (fst kv, canonical (snd kv)))"

lemma canonEntries_keys [simp]: "map fst (canonEntries kvs) = map fst kvs"
  by simp

lemma entries_mset_eq:
  assumes "distinct (map fst (a :: (string \<times> json) list))" "distinct (map fst b)" "length a = length b" "set a \<subseteq> set b"
  shows "mset a = mset b"
proof -
  have d: "distinct a" "distinct b" using assms(1,2) by (simp_all add: distinct_map)
  then have "card (set a) = card (set b)" using assms(3) distinct_card by metis
  with assms(4) have "set a = set b" by (intro card_subset_eq) simp_all
  with d show ?thesis by (simp add: set_eq_iff_mset_eq_distinct)
qed

lemma json_ok_entry: "json_ok (JObj kvs) \<Longrightarrow> (k, v) \<in> set kvs \<Longrightarrow> json_ok v"
  by (auto simp: list_all_iff)

lemma canonical_leaf:
  "canonical v = JNull \<longleftrightarrow> v = JNull" "canonical v = JBool b \<longleftrightarrow> v = JBool b" "canonical v = JNum n \<longleftrightarrow> v = JNum n"
  "canonical v = JStr s \<longleftrightarrow> v = JStr s" "JNull = canonical v \<longleftrightarrow> v = JNull" "JBool b = canonical v \<longleftrightarrow> v = JBool b"
  "JNum n = canonical v \<longleftrightarrow> v = JNum n" "JStr s = canonical v \<longleftrightarrow> v = JStr s"
  by (cases v; auto)+

lemma same_json_canonical:
  "same_json v w \<Longrightarrow> json_ok v \<Longrightarrow> json_ok w \<Longrightarrow> canonical v = canonical w"
proof (induction v w rule: same_json.induct)
  case (1 xs ys)
  have "list_all2 (\<lambda>x y. canonical x = canonical y) xs ys"
  proof (rule list.rel_mono_strong)
    show "list_all2 same_json xs ys" using 1(2) by simp
    show "canonical x = canonical y" if "x \<in> set xs" "y \<in> set ys" "same_json x y" for x y
      using 1(1) [OF that] 1(3,4) that by (simp add: list_all_iff)
  qed
  then show ?case by (simp add: list_all2_conv_all_nth list_eq_iff_nth_eq)
next
  case (2 a b)
  note ok = 2(3,4)
  have d: "distinct (map fst a)" "distinct (map fst b)" using ok by simp_all
  have "set (canonEntries a) \<subseteq> set (canonEntries b)"
  proof
    fix e assume "e \<in> set (canonEntries a)"
    then obtain kv where kv: "kv \<in> set a" "e = (fst kv, canonical (snd kv))" by auto
    with 2(2) obtain w where w: "map_of b (fst kv) = Some w" "same_json (snd kv) w" by (auto split: option.splits)
    from w(1) have b: "(fst kv, w) \<in> set b" by (rule map_of_SomeD)
    have "json_ok (snd kv)" using json_ok_entry [OF ok(1), of "fst kv" "snd kv"] kv(1) by simp
    from 2(1) [OF kv(1) w this json_ok_entry [OF ok(2) b]] kv(2) b show "e \<in> set (canonEntries b)"
      by (auto intro!: image_eqI [of _ _ "(fst kv, w)"])
  qed
  with d have "mset (canonEntries a) = mset (canonEntries b)"
    using 2(2) by (intro entries_mset_eq) (simp_all add: comp_def)
  then have "keyOrder (canonEntries a) = keyOrder (canonEntries b)"
    using d by (intro keyOrder_unique) (simp_all add: comp_def)
  then show ?case by simp
qed simp_all

lemma canonical_same_json:
  "canonical v = canonical w \<Longrightarrow> json_ok v \<Longrightarrow> json_ok w \<Longrightarrow> same_json v w"
proof (induction v w rule: same_json.induct)
  case (1 xs ys)
  from 1(2) have map: "map canonical xs = map canonical ys" by simp
  then have len: "length xs = length ys" by (rule map_eq_imp_length_eq)
  have "same_json (xs ! i) (ys ! i)" if i: "i < length xs" for i
  proof (rule 1(1))
    show "canonical (xs ! i) = canonical (ys ! i)" using arg_cong [OF map, of "\<lambda>l. l ! i"] i len by simp
  qed (use 1(3,4) i len in \<open>simp_all add: list_all_length\<close>)
  with len show ?case by (simp add: list_all2_conv_all_nth)
next
  case (2 a b)
  note ok = 2(3,4)
  have db: "distinct (map fst b)" using ok by simp
  from 2(2) have "keyOrder (canonEntries a) = keyOrder (canonEntries b)" by simp
  then have ms: "mset (canonEntries a) = mset (canonEntries b)" by (metis keyOrder_mset)
  from mset_eq_length [OF ms] have len: "length a = length b" by simp
  have "\<exists>w. map_of b (fst kv) = Some w \<and> same_json (snd kv) w" if kv: "kv \<in> set a" for kv
  proof -
    have "(fst kv, canonical (snd kv)) \<in> set (canonEntries a)" using kv by auto
    then have "(fst kv, canonical (snd kv)) \<in> set (canonEntries b)" unfolding mset_eq_setD [OF ms] .
    then obtain w where w: "(fst kv, w) \<in> set b" "canonical (snd kv) = canonical w" by auto
    from db w(1) have m: "map_of b (fst kv) = Some w" by simp
    have "json_ok (snd kv)" using json_ok_entry [OF ok(1), of "fst kv" "snd kv"] kv by simp
    from 2(1) [OF kv m w(2) this json_ok_entry [OF ok(2) w(1)]] m show ?thesis by blast
  qed
  then have "\<forall>kv \<in> set a. case map_of b (fst kv) of None \<Rightarrow> False | Some w \<Rightarrow> same_json (snd kv) w"
    by fastforce
  with len show ?case by simp
qed (auto simp: canonical_leaf)

lemma canonical_idem: "json_ok v \<Longrightarrow> canonical (canonical v) = canonical v"
proof (induction v rule: canonical.induct)
  case (1 xs)
  then show ?case by (auto simp: list_all_iff)
next
  case (2 kvs)
  have "canonical (canonical (snd kv)) = canonical (snd kv)" if "kv \<in> set kvs" for kv
    using 2(1) [OF that] json_ok_entry [OF 2(2), of "fst kv" "snd kv"] that by simp
  then have same: "map (\<lambda>kv. (fst kv, canonical (snd kv))) (canonEntries kvs) = canonEntries kvs" by simp
  have "mset (canonEntries (keyOrder (canonEntries kvs))) = mset (canonEntries (canonEntries kvs))"
    by (simp only: mset_map keyOrder_mset)
  then have "mset (canonEntries (keyOrder (canonEntries kvs))) = mset (canonEntries kvs)" unfolding same .
  moreover have "distinct (map fst (canonEntries (keyOrder (canonEntries kvs))))"
    using 2(2) by (simp add: comp_def del: map_map)
  ultimately have "keyOrder (canonEntries (keyOrder (canonEntries kvs))) = keyOrder (canonEntries kvs)"
    by (intro keyOrder_unique)
  then show ?case by simp
qed simp_all

text \<open>C36: the identity the boundary compares.  Two well-formed values print to the same canonical text exactly when
  they are equal up to the order in which the keys of their objects were written, and the canonical text reads
  back as such a value; so a call is recognised however its arguments were spelled, and never taken for another.\<close>

theorem canonical_exact:
  assumes "json_ok v" "json_ok w"
  shows "(canonicalJson v = canonicalJson w \<longleftrightarrow> same_json v w) \<and>
    (\<exists>u. JSON_parse (canonicalJson v) = Some u \<and> same_json v u)"
proof -
  have reads: "JSON_parse (canonicalJson u) = Some (canonical u)" if "json_ok u" for u
    unfolding canonicalJson_def by (rule JSON_parse_printed [OF canonical_ok [OF that]])
  have "canonicalJson v = canonicalJson w \<longleftrightarrow> canonical v = canonical w"
  proof
    assume "canonicalJson v = canonicalJson w"
    with reads [OF assms(1)] reads [OF assms(2)] have "Some (canonical v) = Some (canonical w)" by (simp only:)
    then show "canonical v = canonical w" by (simp only: option.inject)
  qed (simp only: canonicalJson_def)
  also have "\<dots> \<longleftrightarrow> same_json v w"
    using same_json_canonical canonical_same_json assms by blast
  finally have "canonicalJson v = canonicalJson w \<longleftrightarrow> same_json v w" .
  moreover have "same_json v (canonical v)"
    using canonical_same_json [OF _ assms(1) canonical_ok [OF assms(1)]] canonical_idem [OF assms(1)] by simp
  ultimately show ?thesis using reads [OF assms(1)] by blast
qed

theorem canonical_exact_witness:
  "canonicalJson (JObj [(''b'', JNull), (''10'', JStr ''x''), (''9'', JArr [JObj [(''z'', JNull), (''a'', JBool True)]])]) =
   canonicalJson (JObj [(''9'', JArr [JObj [(''a'', JBool True), (''z'', JNull)]]), (''b'', JNull), (''10'', JStr ''x'')])"
  using canonical_exact [of "JObj [(''b'', JNull), (''10'', JStr ''x''), (''9'', JArr [JObj [(''z'', JNull), (''a'', JBool True)]])]"
    "JObj [(''9'', JArr [JObj [(''a'', JBool True), (''z'', JNull)]]), (''b'', JNull), (''10'', JStr ''x'')]"]
  by (simp add: list_all2_Cons1 del: JSON_parse_def)

end
