(* ===== verification/Effect_Store.thy ===== *)
theory Effect_Store
  imports Canonical_Json Workflow_Db Roles_Authority
begin

text \<open>
  What an effect of a workflow is recorded as: the flow graph its step is looked up in
  (\<^verbatim>\<open>src/workflows/db/flow-graph.ts\<close>), the context that identifies it (\<^verbatim>\<open>runtime/effect-context.ts\<close>), the
  failures an action reports (\<^verbatim>\<open>src/actions/action-outcome.ts\<close>) and the table of effects
  (\<^verbatim>\<open>db/repos/workflow-effect.ts\<close>).  A flow graph is the JSON value of its column; parsed values share no
  objects, so the set of visited objects of the walk never holds a node that comes up again.  The record column is
  kept as the value it holds.
\<close>


section \<open>The flow graph\<close>

definition json_object_like :: "json \<Rightarrow> bool" where
  "json_object_like j = (case j of JObj _ \<Rightarrow> True | JArr _ \<Rightarrow> True | _ \<Rightarrow> False)"

definition json_members :: "json option \<Rightarrow> json list" where
  "json_members j = (case j of Some (JArr xs) \<Rightarrow> xs | _ \<Rightarrow> [])"

definition json_member :: "json option \<Rightarrow> json list" where
  "json_member j = (case j of Some v \<Rightarrow> [v] | None \<Rightarrow> [])"

text \<open>The loop body, the branches and the rest of the chain: what a visit pushes, topmost first.\<close>

definition nodeEdges :: "json \<Rightarrow> json list" where
  "nodeEdges node = json_member (json_get node ''firstLoopAction'') @
     json_members (json_get node ''children'') @ json_member (json_get node ''nextAction'')"

fun json_weight :: "json \<Rightarrow> nat" where
  "json_weight (JArr xs) = Suc (\<Sum>x\<leftarrow>xs. json_weight x)"
| "json_weight (JObj kvs) = Suc (\<Sum>kv\<leftarrow>kvs. json_weight (snd kv))"
| "json_weight v = 1"

lemma three_fields:
  assumes "a \<noteq> b" "a \<noteq> c" "b \<noteq> c"
  shows "(case map_of kvs a of None \<Rightarrow> 0 | Some v \<Rightarrow> w v) + (case map_of kvs b of None \<Rightarrow> 0 | Some v \<Rightarrow> w v) +
    (case map_of kvs c of None \<Rightarrow> 0 | Some v \<Rightarrow> w v) \<le> (\<Sum>kv\<leftarrow>kvs. w (snd kv) :: nat)"
  using assms by (induction kvs) auto

lemma member_weight: "(\<Sum>x\<leftarrow>json_member j. json_weight x) = (case j of None \<Rightarrow> 0 | Some v \<Rightarrow> json_weight v)"
  "(\<Sum>x\<leftarrow>json_members j. json_weight x) \<le> (case j of None \<Rightarrow> 0 | Some v \<Rightarrow> json_weight v)"
  by (auto simp: json_member_def json_members_def split: option.split json.split)

lemma nodeEdges_weight: "(\<Sum>x\<leftarrow>nodeEdges node. json_weight x) < json_weight node"
proof (cases node)
  case (JObj kvs)
  let ?w = "\<lambda>k. case map_of kvs k of None \<Rightarrow> 0 | Some v \<Rightarrow> json_weight v"
  have "(\<Sum>x\<leftarrow>nodeEdges node. json_weight x) \<le> ?w ''firstLoopAction'' + ?w ''children'' + ?w ''nextAction''"
    using member_weight(2) [of "map_of kvs ''children''"]
    by (simp add: nodeEdges_def json_get_def JObj member_weight(1))
  also have "\<dots> \<le> (\<Sum>kv\<leftarrow>kvs. json_weight (snd kv))" by (rule three_fields) simp_all
  finally show ?thesis by (simp add: JObj)
qed (simp_all add: nodeEdges_def json_get_def json_member_def json_members_def)

function walkLoop :: "json list \<Rightarrow> json list" where
  "walkLoop [] = []"
| "walkLoop (node # pending) =
     (if json_object_like node then node # walkLoop (nodeEdges node @ pending) else walkLoop pending)"
  by pat_completeness auto
termination
proof (relation "measure (\<lambda>pending. \<Sum>x\<leftarrow>pending. json_weight x)")
  have "json_weight node \<noteq> 0" for node by (cases node) simp_all
  then show "(pending, node # pending) \<in> measure (\<lambda>pending. \<Sum>x\<leftarrow>pending. json_weight x)" for node pending by simp
qed (simp_all add: nodeEdges_weight)

definition walkFlowNodes :: "json \<Rightarrow> json list" where
  "walkFlowNodes flow = (if json_object_like flow then walkLoop [flow] else [])"

definition nodeText :: "json \<Rightarrow> string \<Rightarrow> string option" where
  "nodeText node k = (case json_get node k of Some (JStr s) \<Rightarrow> Some s | _ \<Rightarrow> None)"

definition findCodeStepNames :: "json \<Rightarrow> string list" where
  "findCodeStepNames flow =
     map (\<lambda>node. case nodeText node ''name'' of Some s \<Rightarrow> if s \<noteq> [] then s else ''<unnamed>'' | None \<Rightarrow> ''<unnamed>'')
       (filter (\<lambda>node. nodeText node ''type'' = Some ''CODE'') (walkFlowNodes flow))"

definition hasCodeStep :: "json \<Rightarrow> bool" where
  "hasCodeStep flow = (length (findCodeStepNames flow) > 0)"


section \<open>Outcomes\<close>

datatype FailureStatus = outcome_blocked | outcome_error | outcome_unknown
datatype EffectExtent = not_started_effect | may_have_occurred

record ActionFailure =
  acf_status :: FailureStatus
  acf_code :: string
  acf_message :: string
  acf_effect :: EffectExtent

fun failure_status_name :: "FailureStatus \<Rightarrow> string" where
  "failure_status_name outcome_blocked = ''blocked''"
| "failure_status_name outcome_error = ''error''"
| "failure_status_name outcome_unknown = ''unknown''"

text \<open>The message of an \<^verbatim>\<open>ActionOutcomeError\<close>.\<close>

definition outcomeMessage :: "ActionFailure \<Rightarrow> string" where
  "outcomeMessage f = (if acf_message f \<noteq> [] then acf_message f else failure_status_name (acf_status f) @ '': '' @ acf_code f)"

definition isActionOutcome :: "json \<Rightarrow> bool" where
  "isActionOutcome value =
     (json_object_like value \<and>
      (nodeText value ''status'' = Some ''succeeded'' \<or>
       (nodeText value ''status'' \<in> {Some ''blocked'', Some ''error'', Some ''unknown''} \<and>
        (case nodeText value ''code'' of Some c \<Rightarrow> c \<noteq> [] | None \<Rightarrow> False) \<and>
        nodeText value ''message'' \<noteq> None \<and>
        nodeText value ''effect'' \<in> {Some ''not_started'', Some ''may_have_occurred''})))"


section \<open>The context of an effect\<close>

text \<open>
  The path through the enclosing loops as the runtime sends it; \<open>None\<close> when it is not a list of
  pairs of a name and an integer.
\<close>

record EffectContext =
  ec_runId :: string
  ec_projectId :: string
  ec_sandboxId :: "string option"
  ec_stepName :: "string option"
  ec_executionPath :: "(string \<times> int) list option"

record FlowVersion =
  fv_id :: string
  fv_flowId :: string
  fv_displayName :: string
  fv_trigger :: json

record ResolvedEffect =
  re_run :: FlowRunRow
  re_version :: FlowVersion
  re_stepName :: string
  re_executionPath :: "(string \<times> int) list"
  re_versionDigest :: string

definition MAX_SAFE_INTEGER :: int where
  "MAX_SAFE_INTEGER = 9007199254740991"

definition validPathPart :: "json list \<Rightarrow> string \<times> int \<Rightarrow> bool" where
  "validPathPart nodes part = (0 \<le> snd part \<and> snd part \<le> MAX_SAFE_INTEGER \<and>
     (\<exists>n \<in> set nodes. nodeText n ''name'' = Some (fst part) \<and> nodeText n ''type'' = Some ''LOOP_ON_ITEMS''))"

definition stepMatches :: "string \<Rightarrow> string \<Rightarrow> json \<Rightarrow> bool" where
  "stepMatches piece action node = (case json_get node ''settings'' of
     None \<Rightarrow> False
   | Some settings \<Rightarrow> nodeText settings ''pieceName'' = Some piece \<and> nodeText settings ''actionName'' = Some action)"

definition resolveEffectContext :: "(string \<Rightarrow> string) \<Rightarrow> (string \<Rightarrow> FlowVersion option) \<Rightarrow> EffectContext \<Rightarrow> string \<Rightarrow> string \<Rightarrow>
    WorkflowDb \<Rightarrow> string + ResolvedEffect" where
  "resolveEffectContext sha versions ctx piece action db =
     (case getFlowRun db (ec_runId ctx) of
        None \<Rightarrow> Inl ''Workflow effect identity does not match the run''
      | Some run \<Rightarrow>
        if fr_project_id run \<noteq> ec_projectId ctx then Inl ''Workflow effect identity does not match the run''
        else if fr_status run \<noteq> run_running then Inl (''Workflow effect blocked: run is '' @ run_status_name (fr_status run))
        else (case versions (fr_flow_version_id run) of
          None \<Rightarrow> Inl ''Workflow version is unavailable''
        | Some version \<Rightarrow>
          if fv_flowId version \<noteq> fr_flow_id run then Inl ''Workflow version is unavailable''
          else (let nodes = walkFlowNodes (fv_trigger version);
                    matches = filter (\<lambda>n. nodeText n ''name'' = ec_stepName ctx \<and> ec_stepName ctx \<noteq> None) nodes
                in case (ec_stepName ctx, matches) of
                     (Some step, [node]) \<Rightarrow>
                       if step = [] \<or> \<not> stepMatches piece action node then
                         Inl ''Workflow effect step does not match the pinned version''
                       else (case ec_executionPath ctx of
                         None \<Rightarrow> Inl ''Workflow effect requires a valid runtime execution path''
                       | Some path \<Rightarrow>
                           if length path > 32 \<or> \<not> list_all (validPathPart nodes) path then
                             Inl ''Workflow effect requires a valid runtime execution path''
                           else Inr \<lparr> re_run = run, re_version = version, re_stepName = step, re_executionPath = path,
                             re_versionDigest = digest sha (fv_trigger version) \<rparr>)
                   | _ \<Rightarrow> Inl ''Workflow effect step does not match the pinned version'')))"


section \<open>The table of effects\<close>

datatype EffectStatus =
    effect_pending | effect_dispatching | effect_succeeded | effect_failed | effect_blocked | effect_unknown

fun effect_status_name :: "EffectStatus \<Rightarrow> string" where
  "effect_status_name effect_pending = ''pending''"
| "effect_status_name effect_dispatching = ''dispatching''"
| "effect_status_name effect_succeeded = ''succeeded''"
| "effect_status_name effect_failed = ''failed''"
| "effect_status_name effect_blocked = ''blocked''"
| "effect_status_name effect_unknown = ''unknown''"

datatype EffectDecision = decision_unresolved | decision_allowed | decision_denied | decision_approval_required

record WorkflowEffect =
  we_id :: string
  we_runId :: string
  we_projectId :: string
  we_flowId :: string
  we_versionId :: string
  we_versionDigest :: string
  we_stepName :: string
  we_executionPath :: "(string \<times> int) list"
  we_route :: string
  we_toolName :: string
  we_actionCategory :: ActionCategory
  we_requestDigest :: string
  we_arguments :: json
  we_target :: json
  we_provenance :: json
  we_decision :: EffectDecision
  we_reason :: string
  we_status :: EffectStatus
  we_approvalId :: "string option"
  we_waitpointId :: "string option"
  we_result :: "json option"
  we_error :: "string option"
  we_createdAt :: int
  we_finishedAt :: "int option"
  we_outcome :: "ActionFailure option"

record EffectRow =
  er_id :: string
  er_run_id :: string
  er_status :: EffectStatus
  er_approval_id :: "string option"
  er_waitpoint_id :: "string option"
  er_record :: WorkflowEffect

definition effectRow :: "WorkflowEffect \<Rightarrow> EffectRow" where
  "effectRow e = \<lparr> er_id = we_id e, er_run_id = we_runId e, er_status = we_status e, er_approval_id = we_approvalId e,
     er_waitpoint_id = we_waitpointId e, er_record = e \<rparr>"

definition getWorkflowEffect :: "string \<Rightarrow> EffectRow list \<Rightarrow> WorkflowEffect option" where
  "getWorkflowEffect i rows = map_option er_record (sql_get er_id i rows)"

text \<open>\<open>None\<close>: the run the new row would refer to is gone, and the insertion raises.\<close>

definition saveWorkflowEffect :: "WorkflowDb \<Rightarrow> WorkflowEffect \<Rightarrow> EffectRow list \<Rightarrow> EffectRow list option" where
  "saveWorkflowEffect db e rows =
     (if sql_get er_id (we_id e) rows = None then
        (if getFlowRun db (we_runId e) = None then None else Some (rows @ [effectRow e]))
      else Some (fst (sql_update (\<lambda>r. er_id r = we_id e)
        (\<lambda>r. r\<lparr>er_status := we_status e, er_approval_id := we_approvalId e, er_waitpoint_id := we_waitpointId e,
               er_record := e\<rparr>) rows)))"

definition claimWorkflowEffect :: "WorkflowEffect \<Rightarrow> EffectRow list \<Rightarrow> bool \<times> EffectRow list" where
  "claimWorkflowEffect e rows =
     (let r = sql_update (\<lambda>r. er_id r = we_id e \<and> er_status r = effect_pending)
            (\<lambda>r. r\<lparr>er_status := effect_dispatching, er_record := e\<lparr>we_status := effect_dispatching\<rparr>\<rparr>) rows
      in (snd r = 1, fst r))"

definition listWorkflowEffects :: "string \<Rightarrow> EffectRow list \<Rightarrow> WorkflowEffect list" where
  "listWorkflowEffects runId rows = map er_record (filter (\<lambda>r. er_run_id r = runId) rows)"


section \<open>The walk visits every node in the order of the editor\<close>

text \<open>The order as the editor draws it: a node, its loop body, its branches, the rest of its chain.\<close>

lemma edge_weight: "x \<in> set (nodeEdges node) \<Longrightarrow> json_weight x < json_weight node"
proof -
  assume "x \<in> set (nodeEdges node)"
  then have "json_weight x \<le> (\<Sum>x\<leftarrow>nodeEdges node. json_weight x)" by (intro member_le_sum_list) simp_all
  with nodeEdges_weight [of node] show ?thesis by simp
qed

function preorder :: "json \<Rightarrow> json list" where
  "preorder node =
     (if json_object_like node then
        [node] @
        (case json_get node ''firstLoopAction'' of Some body \<Rightarrow> preorder body | None \<Rightarrow> []) @
        (case json_get node ''children'' of
           Some (JArr branches) \<Rightarrow> concat (map preorder branches) | _ \<Rightarrow> []) @
        (case json_get node ''nextAction'' of Some chain \<Rightarrow> preorder chain | None \<Rightarrow> [])
      else [])"
  by pat_completeness auto
termination
  by (relation "measure json_weight")
    (auto intro!: edge_weight simp: nodeEdges_def json_member_def json_members_def)

declare preorder.simps [simp del]

lemma preorder_edges:
  "preorder node = (if json_object_like node then node # concat (map preorder (nodeEdges node)) else [])"
  by (subst preorder.simps)
    (simp add: nodeEdges_def json_member_def json_members_def split: option.split json.split)

lemma walkLoop_preorder: "walkLoop pending = concat (map preorder pending)"
proof (induction pending rule: walkLoop.induct)
  case (2 node pending)
  then show ?case by (simp add: preorder_edges [of node])
qed simp

lemma map_filter_concat: "map f (filter P xs) = concat (map (\<lambda>x. if P x then [f x] else []) xs)"
  by (induction xs) auto

text \<open>C37: the walk of a flow graph.  The loop over a stack visits exactly the nodes of the tree in its pre-order (a
  node, its loop body, its branches from left to right, the rest of its chain); the names reported are those of
  all \<^verbatim>\<open>CODE\<close> nodes, each as often as it occurs and in that order, at any depth and behind any branch, a node
  without a usable name being listed as unnamed; and a flow has a code step exactly when it has such a node.\<close>

theorem walk_is_preorder:
  "walkFlowNodes flow = preorder flow \<and>
   findCodeStepNames flow =
     concat (map (\<lambda>node. if json_get node ''type'' = Some (JStr ''CODE'')
       then [case json_get node ''name'' of Some (JStr (c # cs)) \<Rightarrow> c # cs | _ \<Rightarrow> ''<unnamed>'']
       else []) (preorder flow)) \<and>
   (hasCodeStep flow \<longleftrightarrow> (\<exists>node \<in> set (preorder flow). json_get node ''type'' = Some (JStr ''CODE'')))"
proof -
  have walk: "walkFlowNodes flow = preorder flow"
    by (simp add: walkFlowNodes_def walkLoop_preorder preorder_edges [of flow])
  have type: "nodeText node k = Some s \<longleftrightarrow> json_get node k = Some (JStr s)" for node k s
    by (auto simp: nodeText_def split: option.split json.split)
  have label: "(case nodeText node ''name'' of Some s \<Rightarrow> if s \<noteq> [] then s else ''<unnamed>''
        | None \<Rightarrow> ''<unnamed>'') =
      (case json_get node ''name'' of Some (JStr (c # cs)) \<Rightarrow> c # cs | _ \<Rightarrow> ''<unnamed>'')" for node
    by (simp add: nodeText_def split: option.split json.split list.split)
  show ?thesis
    by (simp add: hasCodeStep_def findCodeStepNames_def filter_empty_conv walk type label map_filter_concat)
      (auto split: if_splits)
qed

text \<open>Two code steps, one of them behind a branch inside a loop body, and a third without a name.\<close>

definition code_node :: "(string \<times> json) list \<Rightarrow> json" where
  "code_node kvs = JObj ((''type'', JStr ''CODE'') # kvs)"

lemma three_code_steps:
  "findCodeStepNames (JObj [(''type'', JStr ''LOOP_ON_ITEMS''),
      (''nextAction'', code_node [(''name'', JStr ''post_process'')]),
      (''firstLoopAction'', JObj [(''type'', JStr ''ROUTER''),
        (''children'', JArr [JNull, code_node [(''name'', JStr ''compute_totals'')], code_node []])])]) =
    [''compute_totals'', ''<unnamed>'', ''post_process'']"
  by code_simp

end
