(* ===== verification/Effect_Boundary.thy ===== *)
theory Effect_Boundary
  imports Effect_Store Queue_Invariant Approval_Lifecycle Emergency Audit_Trail
begin

text \<open>
  The boundary every governed effect of a workflow passes (\<^verbatim>\<open>src/workflows/runtime/effect-boundary.ts\<close>).  It
  composes the tables of the workflow runtime, the authority engine, the emergency switch, the approval manager
  and the audit trail, which one record holds.  \<^verbatim>\<open>invoke\<close> gives up control twice, while a new approval is
  delivered and while the effect runs; it is three atomic steps, \<open>startEffect\<close>, \<open>resumeEffect\<close> and
  \<open>finishEffect\<close>, between which others write what they like.  The record a suspended call holds is its own
  snapshot, an argument of the later steps.  The three required services are present or not (\<open>bd_ready\<close>);
  what a failing delivery raises is caught and dropped.
\<close>


section \<open>State and inputs\<close>

record 'w EffectWorld =
  wx_db :: WorkflowDb
  wx_versions :: "string \<Rightarrow> FlowVersion option"
  wx_effects :: "EffectRow list"
  wx_approvals :: "'w ApprovalManager"
  wx_audit :: "AuditEntry list"
  wx_config :: AuthorityConfig
  wx_emergency :: EmergencyState
  wx_world :: 'w

datatype EffectThrow = OutcomeThrow ActionFailure | ErrorThrow string

definition throwMessage :: "EffectThrow \<Rightarrow> string" where
  "throwMessage t = (case t of OutcomeThrow f \<Rightarrow> outcomeMessage f | ErrorThrow msg \<Rightarrow> msg)"

record BoundaryDeps =
  bd_ready :: bool
  bd_approvals :: bool

record EffectPrincipal =
  epr_agentId :: string
  epr_agentRoleId :: string
  epr_agentAuthorityLevel :: int
  epr_profile :: "AuthorityProfile option"

text \<open>\<open>iv_confirmation\<close> is the intent of a mandatory review; its \<^verbatim>\<open>confirm\<close> can only be \<^verbatim>\<open>always\<close>.\<close>

record 'w EffectInvocation =
  iv_context :: EffectContext
  iv_piece :: string
  iv_action :: string
  iv_route :: string
  iv_toolName :: string
  iv_category :: ActionCategory
  iv_toolCategory :: string
  iv_categories :: "ActionCategory list option"
  iv_request :: json
  iv_confirmation :: "string option"
  iv_prepare :: "'w \<Rightarrow> EffectThrow + json \<times> json"
  iv_validateTarget :: "('w \<Rightarrow> json \<Rightarrow> json \<Rightarrow> EffectThrow option) option"
  iv_principal :: "EffectPrincipal option"
  iv_approvalRequired :: bool

text \<open>What one step reads: the hour, the clock and fresh ids.\<close>

record EffectTurn =
  ft_hour :: int
  ft_now :: int
  ft_auditId :: string
  ft_requestId :: string
  ft_waitpointId :: string

text \<open>How a step leaves the call; a suspended call keeps its record and the name of the version.\<close>

datatype EffectReply =
    Replied json
  | Parked string string string
  | Raised EffectThrow
  | Delivering WorkflowEffect string
  | Dispatching WorkflowEffect string

definition pathJson :: "(string \<times> int) list \<Rightarrow> json" where
  "pathJson path = JArr (map (\<lambda>p. JArr [JStr (fst p), JNum (show_int (snd p))]) path)"

definition workflowEffectId :: "(string \<Rightarrow> string) \<Rightarrow> string \<Rightarrow> string \<Rightarrow> (string \<times> int) list \<Rightarrow> string \<Rightarrow> string" where
  "workflowEffectId sha runId stepName path route =
     ''wfe_'' @ digest sha (JArr [JStr runId, JStr stepName, pathJson path, JStr route])"


section \<open>Audit rows\<close>

definition judgedAs :: "'w EffectInvocation \<Rightarrow> string" where
  "judgedAs input = (case iv_principal input of None \<Rightarrow> []
     | Some p \<Rightarrow> '' / as '' @ epr_agentRoleId p @ '' (level '' @ show_int (epr_agentAuthorityLevel p) @ '')'')"

definition effectEntry :: "'w EffectInvocation \<Rightarrow> string \<Rightarrow> WorkflowEffect \<Rightarrow> bool \<Rightarrow> LogEntry" where
  "effectEntry input name e done = \<lparr> le_agent_id = ''workflow:'' @ we_runId e,
     le_agent_name = ''Workflow '' @ name @ '' / '' @ we_stepName e @ '' / '' @ we_id e @ judgedAs input,
     le_tool_name = we_toolName e, le_action_category = iv_category input,
     le_authority_decision = (if we_decision e = decision_denied then d_denied
       else if we_approvalId e \<noteq> None then d_approval_required else d_allowed),
     le_approval_id = we_approvalId e, le_executed = done, le_execution_time_ms = None, le_channel = None \<rparr>"

definition logEffect :: "EffectTurn \<Rightarrow> 'w EffectInvocation \<Rightarrow> string \<Rightarrow> WorkflowEffect \<Rightarrow> bool \<Rightarrow> 'w EffectWorld \<Rightarrow> 'w EffectWorld" where
  "logEffect turn input name e done st =
     st\<lparr>wx_audit := snd (audit_log (ft_auditId turn) (ft_now turn) (effectEntry input name e done) (wx_audit st))\<rparr>"

text \<open>A capability refused before an effect record could exist.\<close>

definition auditRefusal :: "EffectTurn \<Rightarrow> EffectContext \<Rightarrow> string \<Rightarrow> ActionCategory \<Rightarrow> AuditEntry list \<Rightarrow> AuditEntry list" where
  "auditRefusal turn ctx toolName category trail =
     snd (audit_log (ft_auditId turn) (ft_now turn)
       \<lparr> le_agent_id = ''workflow:'' @ ec_runId ctx,
         le_agent_name = ''Workflow '' @ ec_runId ctx @ '' / '' @ take 120 (js_or (ec_stepName ctx) ''unknown step''),
         le_tool_name = toolName, le_action_category = category, le_authority_decision = d_denied,
         le_approval_id = None, le_executed = False, le_execution_time_ms = None, le_channel = None \<rparr> trail)"


section \<open>Policy\<close>

definition effectPrincipal :: "'w EffectInvocation \<Rightarrow> WorkflowEffect \<Rightarrow> EffectPrincipal" where
  "effectPrincipal input e = js_or (iv_principal input) \<lparr> epr_agentId = ''workflow:'' @ we_runId e,
     epr_agentRoleId = ''workflow-default'', epr_agentAuthorityLevel = 0, epr_profile = None \<rparr>"

definition effectCategories :: "'w EffectInvocation \<Rightarrow> ActionCategory list" where
  "effectCategories input = (case iv_categories input of None \<Rightarrow> [iv_category input]
     | Some cs \<Rightarrow> if cs = [] then [iv_category input] else cs)"

definition effectCheck :: "int \<Rightarrow> 'w EffectInvocation \<Rightarrow> WorkflowEffect \<Rightarrow> 'w EffectWorld \<Rightarrow> ActionCategory \<Rightarrow> AuthorityDecision" where
  "effectCheck hour input e st category =
     (let who = effectPrincipal input e
      in checkAuthority (wx_config st) hour \<lparr> cp_agentId = epr_agentId who,
           cp_agentAuthorityLevel = epr_agentAuthorityLevel who, cp_agentRoleId = epr_agentRoleId who,
           cp_toolName = iv_toolName input, cp_toolCategory = iv_toolCategory input,
           cp_actionCategory = category, cp_temporaryGrants = [], cp_profile = epr_profile who \<rparr>)"

definition effectPolicy :: "int \<Rightarrow> 'w EffectInvocation \<Rightarrow> WorkflowEffect \<Rightarrow> 'w EffectWorld \<Rightarrow> EffectThrow + AuthorityDecision" where
  "effectPolicy hour input e st =
     (let state = wx_emergency st; configured = cfg_emergency_state (wx_config st)
      in if state \<noteq> normal \<or> configured \<noteq> normal then
           Inl (ErrorThrow (''Workflow effect blocked: system '' @
             emergency_name (if state \<noteq> normal then state else configured)))
         else (case getFlowRun (wx_db st) (we_runId e) of
             None \<Rightarrow> Inl (ErrorThrow ''Workflow effect blocked: run is missing'')
           | Some run \<Rightarrow>
             if fr_status run \<noteq> run_running then
               Inl (ErrorThrow (''Workflow effect blocked: run is '' @ run_status_name (fr_status run)))
             else if runDead (wx_db st) (we_runId e) then Inl (ErrorThrow (canceledMessage (we_runId e)))
             else (case combineDecisions (map (effectCheck hour input e st) (effectCategories input)) of
                 Inl _ \<Rightarrow> Inl (ErrorThrow ''combineDecisions: no decisions'')
               | Inr d \<Rightarrow>
                 if \<not> allowed d then
                   Inl (ErrorThrow (''Authority denied '' @ iv_toolName input @ '': '' @ reason d))
                 else if iv_confirmation input \<noteq> None then
                   Inr (d\<lparr>requiresApproval := True, reason := reason d @ ''; '' @ iv_toolName input @
                     '' requires user review of uncertain UI effects''\<rparr>)
                 else if iv_approvalRequired input \<and> \<not> requiresApproval d then
                   Inr (d\<lparr>requiresApproval := True, reason := reason d @ ''; approval required by the calling gate''\<rparr>)
                 else Inr d)))"


section \<open>The dispatch claim\<close>

definition foreignKeyError :: EffectThrow where
  "foreignKeyError = ErrorThrow ''FOREIGN KEY constraint failed''"

text \<open>Save the record, then go on; a save that raises leaves the state.\<close>

definition savingEffect :: "WorkflowEffect \<Rightarrow> 'w EffectWorld \<Rightarrow> ('w EffectWorld \<Rightarrow> EffectReply \<times> 'w EffectWorld) \<Rightarrow>
    EffectReply \<times> 'w EffectWorld" where
  "savingEffect e st k = (case saveWorkflowEffect (wx_db st) e (wx_effects st) of
     None \<Rightarrow> (Raised foreignKeyError, st)
   | Some rows \<Rightarrow> k (st\<lparr>wx_effects := rows\<rparr>))"

definition effectCheckpoint :: "(string \<Rightarrow> string) \<Rightarrow> EffectTurn \<Rightarrow> 'w EffectInvocation \<Rightarrow> WorkflowEffect \<Rightarrow> 'w EffectWorld \<Rightarrow>
    EffectThrow option" where
  "effectCheckpoint sha turn input e st =
     (case (case iv_validateTarget input of None \<Rightarrow> None
              | Some check \<Rightarrow> check (wx_world st) (we_arguments e) (we_target e)) of
        Some t \<Rightarrow> Some t
      | None \<Rightarrow>
        (case resolveEffectContext sha (wx_versions st) (iv_context input) (iv_piece input) (iv_action input) (wx_db st) of
           Inl msg \<Rightarrow> Some (ErrorThrow msg)
         | Inr latest \<Rightarrow>
           if re_versionDigest latest \<noteq> we_versionDigest e then
             Some (ErrorThrow ''Workflow version changed before dispatch'')
           else (case effectPolicy (ft_hour turn) input e st of
               Inl t \<Rightarrow> Some t
             | Inr current \<Rightarrow>
               if (case we_approvalId e of None \<Rightarrow> False
                     | Some a \<Rightarrow> map_option ar_status (getRequest (wx_approvals st) a) \<noteq> Some approved) then
                 Some (ErrorThrow ''Workflow approval is no longer approved; dispatch blocked'')
               else if requiresApproval current \<and> we_approvalId e = None then
                 Some (ErrorThrow ''Workflow Authority now requires approval; effect was not dispatched'')
               else None)))"

definition gateDispatch :: "(string \<Rightarrow> string) \<Rightarrow> EffectTurn \<Rightarrow> 'w EffectInvocation \<Rightarrow> string \<Rightarrow> WorkflowEffect \<Rightarrow> 'w EffectWorld \<Rightarrow>
    EffectReply \<times> 'w EffectWorld" where
  "gateDispatch sha turn input name e st =
     (case effectCheckpoint sha turn input e st of
        Some (OutcomeThrow f) \<Rightarrow>
          (let e' = e\<lparr>we_outcome := Some f, we_status := effect_blocked, we_error := Some (outcomeMessage f),
                      we_finishedAt := Some (ft_now turn)\<rparr>
           in savingEffect e' st (\<lambda>st1. (Raised (OutcomeThrow f), logEffect turn input name e' False st1)))
      | Some t \<Rightarrow> (Raised t, st)
      | None \<Rightarrow>
          (case claimWorkflowEffect e (wx_effects st) of
             (False, rows) \<Rightarrow> (Raised (ErrorThrow ''Workflow effect was already claimed; replay blocked''), st\<lparr>wx_effects := rows\<rparr>)
           | (True, rows) \<Rightarrow> (Dispatching e name, st\<lparr>wx_effects := rows\<rparr>)))"


section \<open>Approval\<close>

definition argumentsMatch :: "(string \<Rightarrow> string) \<Rightarrow> ApprovalRequest \<Rightarrow> WorkflowEffect \<Rightarrow> bool" where
  "argumentsMatch sha a e = (case JSON_parse (ar_tool_arguments a) of None \<Rightarrow> False
     | Some args \<Rightarrow> digest sha args = digest sha (we_arguments e))"

definition approval_status_name :: "ApprovalStatus \<Rightarrow> string" where
  "approval_status_name s = (case s of pending \<Rightarrow> ''pending'' | approved \<Rightarrow> ''approved'' | denied \<Rightarrow> ''denied''
     | expired \<Rightarrow> ''expired'' | executed \<Rightarrow> ''executed'')"

definition approvedOrWait :: "(string \<Rightarrow> string) \<Rightarrow> EffectTurn \<Rightarrow> 'w EffectInvocation \<Rightarrow> string \<Rightarrow> WorkflowEffect \<Rightarrow> 'w EffectWorld \<Rightarrow>
    EffectReply \<times> 'w EffectWorld" where
  "approvedOrWait sha turn input name e st =
     (case getRequest (wx_approvals st) (js_or (we_approvalId e) []) of
        None \<Rightarrow> (Raised (ErrorThrow ''Workflow approval does not match the recorded effect''), st)
      | Some a \<Rightarrow>
        if ar_execution_mode a \<noteq> workflow then
          (Raised (ErrorThrow ''Workflow approval does not match the recorded effect''), st)
        else if JSON_parse (ar_tool_arguments a) = None then (Raised (ErrorThrow ''JSON Parse error''), st)
        else if \<not> argumentsMatch sha a e then
          (Raised (ErrorThrow ''Workflow approval does not match the recorded effect''), st)
        else if iv_confirmation input \<noteq> None \<and> \<not> approvalNeedsClick (ar_context a) then
          (Raised (ErrorThrow ''Workflow approval predates required UI review; start a new reviewed run''), st)
        else if ar_status a = pending then
          (Parked (we_id e) (ar_id a) (js_or (we_waitpointId e) []), st)
        else if ar_status a \<noteq> approved then
          (let msg = ''Workflow approval '' @ approval_status_name (ar_status a) @ ''; effect was not executed'';
               e' = e\<lparr>we_decision := decision_denied, we_status := effect_blocked, we_error := Some msg,
                      we_finishedAt := Some (ft_now turn)\<rparr>
           in savingEffect e' st (\<lambda>st1. (Raised (ErrorThrow msg), logEffect turn input name e' False st1)))
        else gateDispatch sha turn input name e st)"

definition approvalContext :: "'w EffectInvocation \<Rightarrow> WorkflowEffect \<Rightarrow> string" where
  "approvalContext input e =
     (let intent = (case json_get (we_target e) ''intent'' of Some (JStr s) \<Rightarrow> Some s | _ \<Rightarrow> iv_confirmation input)
      in canonicalJson (JObj ([(''effectId'', JStr (we_id e)), (''runId'', JStr (we_runId e)),
           (''versionId'', JStr (we_versionId e)), (''stepName'', JStr (we_stepName e)),
           (''executionPath'', pathJson (we_executionPath e)), (''target'', we_target e)] @
           (if iv_confirmation input \<noteq> None then [(''confirm'', JStr ''always'')] else []) @
           (case intent of Some s \<Rightarrow> if s \<noteq> [] then [(''intent'', JStr s)] else [] | None \<Rightarrow> []))))"

text \<open>The transaction that opens an approval and its waitpoint.\<close>

definition askEffectApproval :: "EffectTurn \<Rightarrow> 'w EffectInvocation \<Rightarrow> string \<Rightarrow> AuthorityDecision \<Rightarrow> WorkflowEffect \<Rightarrow> 'w EffectWorld \<Rightarrow>
    EffectReply \<times> 'w EffectWorld" where
  "askEffectApproval turn input name d e st =
     (case createRequest (\<lambda>_. []) (wx_world st) (ft_requestId turn) (ft_now turn)
         \<lparr> crp_agentId = ''workflow:'' @ we_runId e,
           crp_agentName = ''Workflow: '' @ name @ (case iv_principal input of None \<Rightarrow> [] | Some p \<Rightarrow> '' as '' @ epr_agentRoleId p),
           crp_toolName = iv_toolName input, crp_toolArguments = we_arguments e,
           crp_actionCategory = actionCategory d,
           crp_urgency = (if actionCategory d = make_payment then urgent else normal_urgency),
           crp_reason = reason d, crp_context = approvalContext input e,
           crp_executionMode = Some workflow, crp_toolRegistry = None \<rparr> (wx_approvals st) of
        Inl _ \<Rightarrow> (Raised (ErrorThrow ''UNIQUE constraint failed: approval_requests.id''), st)
      | Inr (request, manager) \<Rightarrow>
        (case createWaitpoint (ft_waitpointId turn) (ft_now turn)
            \<lparr> cwi_flowRunId = we_runId e, cwi_projectId = we_projectId e, cwi_stepName = we_stepName e,
              cwi_type = wp_manual, cwi_version = None, cwi_resumeDateTime = None, cwi_responseToSend = None,
              cwi_workerHandlerId = None, cwi_httpRequestId = None \<rparr> (wx_db st) of
           (Inl (WfThrew msg), _) \<Rightarrow> (Raised (ErrorThrow msg), st)
         | (Inl (UniqueFailed msg), _) \<Rightarrow> (Raised (ErrorThrow msg), st)
         | (Inr w, db) \<Rightarrow>
           (let e' = e\<lparr>we_approvalId := Some (ar_id request), we_waitpointId := Some (wp_id w),
                       we_decision := decision_approval_required\<rparr>
            in case saveWorkflowEffect db e' (wx_effects st) of
                 None \<Rightarrow> (Raised foreignKeyError, st)
               | Some rows \<Rightarrow> (Delivering e' name, logEffect turn input name e' False
                   (st\<lparr>wx_db := db, wx_approvals := manager, wx_effects := rows\<rparr>)))))"


section \<open>The three steps of a call\<close>

definition judgeEffect :: "(string \<Rightarrow> string) \<Rightarrow> BoundaryDeps \<Rightarrow> EffectTurn \<Rightarrow> 'w EffectInvocation \<Rightarrow> string \<Rightarrow> WorkflowEffect \<Rightarrow>
    'w EffectWorld \<Rightarrow> EffectReply \<times> 'w EffectWorld" where
  "judgeEffect sha deps turn input name e st =
     (case effectPolicy (ft_hour turn) input e st of
        Inl t \<Rightarrow>
          (let e' = e\<lparr>we_status := effect_blocked, we_decision := decision_denied, we_error := Some (throwMessage t),
                      we_reason := throwMessage t, we_finishedAt := Some (ft_now turn)\<rparr>
           in savingEffect e' st (\<lambda>st1. (Raised t, logEffect turn input name e' False st1)))
      | Inr d \<Rightarrow>
          (let e1 = e\<lparr>we_reason := reason d\<rparr>
           in if we_approvalId e1 \<noteq> None \<or> requiresApproval d then
                (if \<not> bd_approvals deps then
                   (Raised (ErrorThrow ''Workflow approval service unavailable; execution denied''), st)
                 else if we_approvalId e1 = None then askEffectApproval turn input name d e1 st
                 else approvedOrWait sha turn input name e1 st)
              else gateDispatch sha turn input name (e1\<lparr>we_decision := decision_allowed\<rparr>) st))"

definition newEffect :: "(string \<Rightarrow> string) \<Rightarrow> EffectTurn \<Rightarrow> 'w EffectInvocation \<Rightarrow> ResolvedEffect \<Rightarrow> string \<Rightarrow> json \<Rightarrow> json \<Rightarrow> WorkflowEffect" where
  "newEffect sha turn input resolved i args target =
     \<lparr> we_id = i, we_runId = fr_id (re_run resolved), we_projectId = fr_project_id (re_run resolved),
       we_flowId = fr_flow_id (re_run resolved), we_versionId = fv_id (re_version resolved),
       we_versionDigest = re_versionDigest resolved, we_stepName = re_stepName resolved,
       we_executionPath = re_executionPath resolved, we_route = iv_route input, we_toolName = iv_toolName input,
       we_actionCategory = iv_category input, we_requestDigest = digest sha (iv_request input),
       we_arguments = args, we_target = target,
       we_provenance = JObj [(''source'', JStr ''workflow-runtime''),
         (''sandboxId'', case ec_sandboxId (iv_context input) of Some s \<Rightarrow> JStr s | None \<Rightarrow> JNull),
         (''machineBindingVersion'', JNum ''1''),
         (''triggeredBy'', case fr_triggered_by (re_run resolved) of Some s \<Rightarrow> JStr s | None \<Rightarrow> JNull),
         (''environment'', JStr (case fr_environment (re_run resolved) of env_production \<Rightarrow> ''PRODUCTION'' | env_testing \<Rightarrow> ''TESTING'')),
         (''piece'', JStr (iv_piece input)), (''action'', JStr (iv_action input))],
       we_decision = decision_unresolved, we_reason = [], we_status = effect_pending, we_approvalId = None,
       we_waitpointId = None, we_result = None, we_error = None, we_createdAt = ft_now turn, we_finishedAt = None,
       we_outcome = None \<rparr>"

text \<open>What a recorded effect that is not pending answers.\<close>

definition settledReply :: "string \<Rightarrow> WorkflowEffect \<Rightarrow> EffectReply" where
  "settledReply otherwise e =
     (if we_status e = effect_succeeded then Replied (js_or (we_result e) JNull)
      else case we_outcome e of
          Some f \<Rightarrow> Raised (OutcomeThrow f)
        | None \<Rightarrow>
          if we_status e = effect_dispatching then
            Raised (ErrorThrow ''Workflow effect outcome is uncertain or still in flight; automatic replay is blocked'')
          else Raised (ErrorThrow (js_or (we_error e) otherwise)))"

definition settledEffect :: "WorkflowEffect \<Rightarrow> bool" where
  "settledEffect e = (we_status e \<noteq> effect_pending \<or> we_outcome e \<noteq> None)"

definition startEffect :: "(string \<Rightarrow> string) \<Rightarrow> BoundaryDeps \<Rightarrow> EffectTurn \<Rightarrow> 'w EffectInvocation \<Rightarrow> 'w EffectWorld \<Rightarrow>
    EffectReply \<times> 'w EffectWorld" where
  "startEffect sha deps turn input st =
     (if \<not> bd_ready deps then (Raised (ErrorThrow ''Workflow Authority is unavailable; execution denied''), st)
      else case resolveEffectContext sha (wx_versions st) (iv_context input) (iv_piece input) (iv_action input) (wx_db st) of
        Inl msg \<Rightarrow> (Raised (ErrorThrow msg), st)
      | Inr resolved \<Rightarrow>
        (let i = workflowEffectId sha (fr_id (re_run resolved)) (re_stepName resolved) (re_executionPath resolved) (iv_route input);
             name = fv_displayName (re_version resolved)
         in case getWorkflowEffect i (wx_effects st) of
              Some e \<Rightarrow>
                if we_requestDigest e \<noteq> digest sha (iv_request input) \<or> we_versionDigest e \<noteq> re_versionDigest resolved \<or>
                   we_toolName e \<noteq> iv_toolName input \<or> we_actionCategory e \<noteq> iv_category input then
                  (Raised (ErrorThrow ''Workflow effect changed since it was recorded; start a new run for new arguments or version''), st)
                else if settledEffect e then (settledReply (''Workflow effect is '' @ effect_status_name (we_status e)) e, st)
                else judgeEffect sha deps turn input name e st
            | None \<Rightarrow>
                (case iv_prepare input (wx_world st) of
                   Inl t \<Rightarrow> (Raised t, st)
                 | Inr (args, target) \<Rightarrow>
                   (case (JSON_parse (canonicalJson args), JSON_parse (canonicalJson target)) of
                      (Some args', Some target') \<Rightarrow>
                        (let e = newEffect sha turn input resolved i args' target'
                         in savingEffect e st (judgeEffect sha deps turn input name e))
                    | _ \<Rightarrow> (Raised (ErrorThrow ''JSON Parse error''), st)))))"

text \<open>After the delivery of a new approval: the row may have moved on meanwhile.\<close>

definition resumeEffect :: "(string \<Rightarrow> string) \<Rightarrow> EffectTurn \<Rightarrow> 'w EffectInvocation \<Rightarrow> string \<Rightarrow> WorkflowEffect \<Rightarrow> 'w EffectWorld \<Rightarrow>
    EffectReply \<times> 'w EffectWorld" where
  "resumeEffect sha turn input name e st =
     (case getWorkflowEffect (we_id e) (wx_effects st) of
        None \<Rightarrow> (Raised (ErrorThrow ''Workflow effect is no longer pending''), st)
      | Some latest \<Rightarrow>
        if settledEffect latest then (settledReply ''Workflow effect is no longer pending'' latest, st)
        else approvedOrWait sha turn input name e st)"

definition failEffect :: "EffectTurn \<Rightarrow> 'w EffectInvocation \<Rightarrow> string \<Rightarrow> WorkflowEffect \<Rightarrow> EffectThrow \<Rightarrow> 'w EffectWorld \<Rightarrow>
    EffectReply \<times> 'w EffectWorld" where
  "failEffect turn input name e t st =
     (let e1 = (case t of
            OutcomeThrow f \<Rightarrow> e\<lparr>we_outcome := Some f,
              we_status := (case acf_status f of outcome_error \<Rightarrow> effect_failed | outcome_blocked \<Rightarrow> effect_blocked
                              | outcome_unknown \<Rightarrow> effect_unknown),
              we_error := Some (outcomeMessage f)\<rparr>
          | ErrorThrow msg \<Rightarrow> e\<lparr>we_status := effect_failed,
              we_error := Some (''Effect dispatch failed; partial effects may have occurred: '' @ msg)\<rparr>);
          e2 = e1\<lparr>we_finishedAt := Some (ft_now turn)\<rparr>
      in savingEffect e2 st (\<lambda>st1. (Raised t, logEffect turn input name e2 False st1)))"

definition receiptText :: "WorkflowEffect \<Rightarrow> json \<Rightarrow> string" where
  "receiptText e result = take 2000 (canonicalJson (JObj [(''effectId'', JStr (we_id e)), (''result'', result)]))"

definition finishEffect :: "EffectTurn \<Rightarrow> 'w EffectInvocation \<Rightarrow> string \<Rightarrow> WorkflowEffect \<Rightarrow> EffectThrow + json option \<Rightarrow> 'w EffectWorld \<Rightarrow>
    EffectReply \<times> 'w EffectWorld" where
  "finishEffect turn input name e outcome st =
     (case outcome of
        Inl t \<Rightarrow> failEffect turn input name e t st
      | Inr r \<Rightarrow>
        (let result = js_or r JNull;
             e' = e\<lparr>we_result := Some result, we_status := effect_succeeded, we_finishedAt := Some (ft_now turn)\<rparr>
         in case saveWorkflowEffect (wx_db st) e' (wx_effects st) of
              None \<Rightarrow> failEffect turn input name e' foreignKeyError st
            | Some rows \<Rightarrow>
              (let st1 = st\<lparr>wx_effects := rows, wx_approvals := (case we_approvalId e of
                       None \<Rightarrow> wx_approvals st
                     | Some a \<Rightarrow> snd (markExecuted a (receiptText e result) committed (ft_now turn) (wx_approvals st)))\<rparr>
               in (Replied result, logEffect turn input name e' True st1))))"

end
