(* ===== verification/Effect_Laws.thy ===== *)
theory Effect_Laws
  imports Effect_Boundary Run_Fence
begin

text \<open>
  The laws of the operations of the effect boundary.  \<open>effectStatus\<close> is the abstract view of the table of effects,
  and \<open>effectMove\<close> the moves of it; each gate of a call, each write of an effect and each write of somebody else is
  shown to keep the table well formed and to move the view only so.  What holds when an effect is dispatched is
  collected in its licence.
\<close>


section \<open>The abstract view of the table\<close>

definition effectStatus :: "string \<Rightarrow> EffectRow list \<Rightarrow> EffectStatus option" where
  "effectStatus i rows = map_option er_status (sql_get er_id i rows)"

definition rows_ok :: "EffectRow list \<Rightarrow> bool" where
  "rows_ok rows = (distinct (map er_id rows) \<and>
     (\<forall>r \<in> set rows. er_id r = we_id (er_record r) \<and> er_status r = we_status (er_record r)))"

lemma rows_ok_get:
  "rows_ok rows \<Longrightarrow> getWorkflowEffect i rows = Some e \<Longrightarrow> we_id e = i \<and> effectStatus i rows = Some (we_status e)"
  unfolding getWorkflowEffect_def effectStatus_def rows_ok_def
  using sql_get_key [of er_id i rows] by (cases "sql_get er_id i rows") auto

lemma effectStatus_none: "getWorkflowEffect i rows = None \<longleftrightarrow> effectStatus i rows = None"
  by (simp add: getWorkflowEffect_def effectStatus_def)

text \<open>What a save makes of the row.\<close>

definition savedRow :: "WorkflowEffect \<Rightarrow> EffectRow option \<Rightarrow> EffectRow" where
  "savedRow e before = (case before of None \<Rightarrow> effectRow e
     | Some r \<Rightarrow> r\<lparr>er_status := we_status e, er_approval_id := we_approvalId e, er_waitpoint_id := we_waitpointId e,
                  er_record := e\<rparr>)"

lemma savedRow_simps [simp]:
  "er_id (savedRow e None) = we_id e" "er_run_id (savedRow e None) = we_runId e" "er_run_id (savedRow e (Some r)) = er_run_id r"
  "er_status (savedRow e q) = we_status e" "er_record (savedRow e q) = e"
  by (simp_all add: savedRow_def effectRow_def split: option.split)

lemma save_rows:
  assumes ok: "rows_ok rows" and saved: "saveWorkflowEffect db e rows = Some rows'"
  shows "rows_ok rows'"
    "sql_get er_id k rows' = (if k = we_id e then Some (savedRow e (sql_get er_id k rows)) else sql_get er_id k rows)"
proof -
  have "rows_ok rows' \<and> sql_get er_id k rows' =
      (if k = we_id e then Some (savedRow e (sql_get er_id k rows)) else sql_get er_id k rows)"
  proof (cases "sql_get er_id (we_id e) rows")
    case None
    with saved have rows': "rows' = rows @ [effectRow e]" by (simp add: saveWorkflowEffect_def split: if_splits)
    have "we_id e \<notin> er_id ` set rows" using None by (simp add: sql_get_none)
    with ok None show ?thesis unfolding rows'
      by (auto simp: rows_ok_def effectRow_def savedRow_def sql_get_append split: option.split)
  next
    case (Some r)
    let ?f = "\<lambda>r. r\<lparr>er_status := we_status e, er_approval_id := we_approvalId e, er_waitpoint_id := we_waitpointId e, er_record := e\<rparr>"
    from Some saved have rows': "rows' = fst (sql_update (\<lambda>r. er_id r = we_id e) ?f rows)" by (simp add: saveWorkflowEffect_def)
    have "map er_id rows' = map er_id rows" unfolding rows' by simp
    moreover have "\<forall>r \<in> set rows'. er_id r = we_id (er_record r) \<and> er_status r = we_status (er_record r)"
      using ok unfolding rows' by (auto simp: rows_ok_def sql_update_def)
    ultimately have "rows_ok rows'" using ok by (simp add: rows_ok_def)
    with Some show ?thesis unfolding rows' by (auto simp: sql_get_key_update savedRow_def)
  qed
  then show "rows_ok rows'"
    "sql_get er_id k rows' = (if k = we_id e then Some (savedRow e (sql_get er_id k rows)) else sql_get er_id k rows)" by blast+
qed

lemma save_status:
  assumes "rows_ok rows" "saveWorkflowEffect db e rows = Some rows'"
  shows "effectStatus k rows' = (if k = we_id e then Some (we_status e) else effectStatus k rows)"
    "getWorkflowEffect k rows' = (if k = we_id e then Some e else getWorkflowEffect k rows)"
  using save_rows(2) [OF assms, of k] by (auto simp: effectStatus_def getWorkflowEffect_def)

lemma save_present: "effectStatus (we_id e) rows \<noteq> None \<Longrightarrow> \<exists>rows'. saveWorkflowEffect db e rows = Some rows'"
  by (auto simp: effectStatus_def saveWorkflowEffect_def)

lemma save_absent: "effectStatus (we_id e) rows = None \<Longrightarrow> getFlowRun db (we_runId e) = None \<Longrightarrow> saveWorkflowEffect db e rows = None"
  by (simp add: effectStatus_def saveWorkflowEffect_def)

lemma save_new_run:
  "saveWorkflowEffect db e rows = Some rows' \<Longrightarrow> effectStatus (we_id e) rows = None \<Longrightarrow> getFlowRun db (we_runId e) \<noteq> None"
  by (auto simp: effectStatus_def saveWorkflowEffect_def split: if_splits)

lemma claim_rows:
  assumes ok: "rows_ok rows" and claim: "claimWorkflowEffect e rows = (b, rows')"
  shows "rows_ok rows'" "b \<longleftrightarrow> effectStatus (we_id e) rows = Some effect_pending"
    "sql_get er_id k rows' = (if k = we_id e \<and> b
       then map_option (\<lambda>r. r\<lparr>er_status := effect_dispatching, er_record := e\<lparr>we_status := effect_dispatching\<rparr>\<rparr>) (sql_get er_id k rows)
       else sql_get er_id k rows)"
proof -
  let ?p = "\<lambda>r. er_id r = we_id e \<and> er_status r = effect_pending"
  let ?f = "\<lambda>r. r\<lparr>er_status := effect_dispatching, er_record := e\<lparr>we_status := effect_dispatching\<rparr>\<rparr>"
  have d: "distinct (map er_id rows)" using ok by (simp add: rows_ok_def)
  have rows': "rows' = fst (sql_update ?p ?f rows)" and b: "b = (snd (sql_update ?p ?f rows) = 1)"
    using claim by (simp_all add: claimWorkflowEffect_def Let_def)
  have "snd (sql_update ?p ?f rows) \<le> 1"
  proof -
    have "length (filter ?p rows) \<le> length (filter (\<lambda>r. er_id r = we_id e) rows)"
      by (induction rows) auto
    also have "\<dots> \<le> 1" using d by (induction rows) (auto simp: filter_empty_conv image_iff)
    finally show ?thesis by (simp add: sql_update_def)
  qed
  then have "b \<longleftrightarrow> 0 < snd (sql_update ?p ?f rows)" using b by linarith
  then show bb: "b \<longleftrightarrow> effectStatus (we_id e) rows = Some effect_pending"
    using sql_update_keyed [OF d, of "we_id e" "\<lambda>r. er_status r = effect_pending" ?f] by (auto simp: effectStatus_def)
  have "map er_id rows' = map er_id rows" unfolding rows' by simp
  moreover have "\<forall>r \<in> set rows'. er_id r = we_id (er_record r) \<and> er_status r = we_status (er_record r)"
    using ok unfolding rows' by (auto simp: rows_ok_def sql_update_def)
  ultimately show "rows_ok rows'" using ok by (simp add: rows_ok_def)
  show "sql_get er_id k rows' = (if k = we_id e \<and> b then map_option ?f (sql_get er_id k rows) else sql_get er_id k rows)"
    using bb sql_get_key [of er_id k rows] unfolding rows'
    by (cases "sql_get er_id k rows") (auto simp: effectStatus_def sql_get_update)
qed


section \<open>What one step does to the table\<close>

text \<open>
  A step with the record \<open>e\<close> of a pending effect: every other row is as it was, the row of \<open>e\<close> stays with its run and
  is dispatching afterwards exactly when the step ends in the dispatch of the effect, and no run comes back.
\<close>

definition sameEffect :: "WorkflowEffect \<Rightarrow> WorkflowEffect \<Rightarrow> bool" where
  "sameEffect e e' = (we_id e' = we_id e \<and> we_runId e' = we_runId e \<and> we_outcome e' = we_outcome e)"

definition effectRowStep :: "WorkflowEffect \<Rightarrow> EffectReply \<Rightarrow> EffectRow \<Rightarrow> EffectRow \<Rightarrow> bool" where
  "effectRowStep e reply row row' =
     (er_run_id row' = er_run_id row \<and> (er_record row' = er_record row \<or> we_runId (er_record row') = we_runId e) \<and>
      (case reply of
         Dispatching e' n \<Rightarrow> sameEffect e e' \<and> er_status row' = effect_dispatching
       | Delivering e' n \<Rightarrow> sameEffect e e' \<and> er_status row' = effect_pending
       | _ \<Rightarrow> er_status row' \<in> {effect_pending, effect_blocked}))"

definition gateSpec :: "WorkflowEffect \<Rightarrow> 'w EffectWorld \<Rightarrow> EffectReply \<times> 'w EffectWorld \<Rightarrow> bool" where
  "gateSpec e st out = (rows_ok (wx_effects (snd out)) \<and> stops_kept (wx_db st) (wx_db (snd out)) \<and>
     (\<forall>k. k \<noteq> we_id e \<longrightarrow> sql_get er_id k (wx_effects (snd out)) = sql_get er_id k (wx_effects st)) \<and>
     (\<exists>row row'. sql_get er_id (we_id e) (wx_effects st) = Some row \<and>
        sql_get er_id (we_id e) (wx_effects (snd out)) = Some row' \<and> effectRowStep e (fst out) row row'))"

definition pendingAt :: "string \<Rightarrow> 'w EffectWorld \<Rightarrow> bool" where
  "pendingAt i st = (rows_ok (wx_effects st) \<and> effectStatus i (wx_effects st) = Some effect_pending)"

lemma pendingAt_row:
  assumes "pendingAt i st"
  obtains row where "sql_get er_id i (wx_effects st) = Some row" "er_status row = effect_pending" "rows_ok (wx_effects st)"
  using assms by (auto simp: pendingAt_def effectStatus_def)

text \<open>A reply that leaves no call behind.\<close>

definition ends :: "EffectReply \<Rightarrow> bool" where
  "ends reply = (case reply of Delivering _ _ \<Rightarrow> False | Dispatching _ _ \<Rightarrow> False | _ \<Rightarrow> True)"

lemma ends_simps [simp]:
  "ends (Replied v)" "ends (Parked x y z)" "ends (Raised t)" "\<not> ends (Delivering e n)" "\<not> ends (Dispatching e n)"
  by (simp_all add: ends_def)

lemma ends_settled [simp]: "ends (settledReply t e)"
  by (simp add: settledReply_def split: option.split)

lemma effectRowStep_ends: "ends reply \<Longrightarrow> effectRowStep e reply row row' \<longleftrightarrow> er_run_id row' = er_run_id row \<and>
    (er_record row' = er_record row \<or> we_runId (er_record row') = we_runId e) \<and> er_status row' \<in> {effect_pending, effect_blocked}"
  by (cases reply) (simp_all add: effectRowStep_def ends_def)

lemma gateSpec_same: "pendingAt (we_id e) st \<Longrightarrow> ends reply \<Longrightarrow> gateSpec e st (reply, st)"
  by (erule pendingAt_row) (simp add: gateSpec_def effectRowStep_ends)

lemma logEffect_tables [simp]:
  "wx_effects (logEffect turn input name e b st) = wx_effects st" "wx_db (logEffect turn input name e b st) = wx_db st"
  by (simp_all add: logEffect_def)

lemma gateSpec_saved:
  assumes "pendingAt (we_id e) st" "we_id e' = we_id e" "we_runId e' = we_runId e"
    and "saveWorkflowEffect db e' (wx_effects st) = Some rows" "wx_effects st' = rows" "stops_kept (wx_db st) (wx_db st')"
    and "ends reply \<and> we_status e' = effect_blocked \<or> (\<exists>d n. reply = Delivering d n \<and> sameEffect e d \<and> we_status e' = effect_pending)"
  shows "gateSpec e st (reply, st')"
proof -
  obtain row where row: "sql_get er_id (we_id e) (wx_effects st) = Some row" and ok: "rows_ok (wx_effects st)"
    using assms(1) by (rule pendingAt_row)
  have "effectRowStep e reply row (savedRow e' (Some row))"
    using assms(3,7) by (auto simp: effectRowStep_ends) (simp add: effectRowStep_def)
  with save_rows [OF ok assms(4)] assms(2,5,6) row show ?thesis by (simp add: gateSpec_def)
qed

lemma gateSpec_blocking:
  assumes "pendingAt (we_id e) st" "we_status e' = effect_blocked" "we_id e' = we_id e" "we_runId e' = we_runId e"
  shows "gateSpec e st (savingEffect e' st (\<lambda>st1. (Raised t, logEffect turn input name d b st1)))"
proof -
  obtain rows where rows: "saveWorkflowEffect (wx_db st) e' (wx_effects st) = Some rows"
    using save_present [of e' "wx_effects st" "wx_db st"] assms(1,3) by (auto simp: pendingAt_def)
  have "gateSpec e st (Raised t, logEffect turn input name d b (st\<lparr>wx_effects := rows\<rparr>))"
    by (rule gateSpec_saved [OF assms(1,3,4) rows]) (simp_all add: assms(2))
  with rows show ?thesis by (simp add: savingEffect_def)
qed

lemma gateSpec_cong: "sameEffect e d \<Longrightarrow> gateSpec d st out \<longleftrightarrow> gateSpec e st out"
proof -
  assume same: "sameEffect e d"
  then have "sameEffect d = sameEffect e" by (simp add: sameEffect_def fun_eq_iff)
  then have "effectRowStep d = effectRowStep e" using same by (simp add: effectRowStep_def fun_eq_iff sameEffect_def split: EffectReply.split)
  with same show ?thesis by (simp add: gateSpec_def sameEffect_def)
qed

lemma gateSpec_dispatch:
  assumes "pendingAt (we_id e) st"
  shows "gateSpec e st (gateDispatch sha turn input name e st)"
proof (cases "effectCheckpoint sha turn input e st")
  case None
  obtain b rows where c: "claimWorkflowEffect e (wx_effects st) = (b, rows)" by force
  obtain row where row: "sql_get er_id (we_id e) (wx_effects st) = Some row" and ok: "rows_ok (wx_effects st)"
    using assms by (rule pendingAt_row)
  from claim_rows(2) [OF ok c] assms have b: b by (simp add: pendingAt_def)
  with claim_rows(1,3) [OF ok c] row None c show ?thesis
    by (simp add: gateDispatch_def gateSpec_def effectRowStep_def sameEffect_def)
next
  case (Some t)
  with assms show ?thesis
    by (cases t) (simp_all add: gateDispatch_def Let_def gateSpec_same gateSpec_blocking)
qed

lemma gateSpec_wait:
  assumes "pendingAt (we_id e) st"
  shows "gateSpec e st (approvedOrWait sha turn input name e st)"
proof (cases "getRequest (wx_approvals st) (js_or (we_approvalId e) [])")
  case None
  with gateSpec_same [OF assms] show ?thesis by (simp add: approvedOrWait_def)
next
  case (Some a)
  with assms show ?thesis
    by (simp add: approvedOrWait_def Let_def gateSpec_same gateSpec_blocking gateSpec_dispatch)
qed

lemma gateSpec_ask:
  assumes "pendingAt (we_id e) st" "we_status e = effect_pending"
  shows "gateSpec e st (askEffectApproval turn input name d e st)"
proof -
  have raised: "gateSpec e st (Raised t, st)" for t using gateSpec_same [OF assms(1)] by simp
  have saved: "gateSpec e st (case saveWorkflowEffect db e' (wx_effects st) of
      None \<Rightarrow> (Raised foreignKeyError, st)
    | Some rows \<Rightarrow> (Delivering e' name, logEffect turn input name e' False (st\<lparr>wx_db := db, wx_approvals := m, wx_effects := rows\<rparr>)))"
    if "sameEffect e e'" "we_status e' = effect_pending" "stops_kept (wx_db st) db" for e' db m
  proof (cases "saveWorkflowEffect db e' (wx_effects st)")
    case None
    with raised show ?thesis by simp
  next
    case (Some rows)
    have "gateSpec e st (Delivering e' name, logEffect turn input name e' False (st\<lparr>wx_db := db, wx_approvals := m, wx_effects := rows\<rparr>))"
      by (rule gateSpec_saved [OF assms(1) _ _ Some]) (use that in \<open>simp_all add: sameEffect_def\<close>)
    with Some show ?thesis by simp
  qed
  have kept: "createWaitpoint i now w (wx_db st) = (Inr q, db) \<Longrightarrow> stops_kept (wx_db st) db" for i now w q db
    using stops_kept_closed [OF closed_kept_waitpoint(1), of "wx_db st" i now w] by simp
  show ?thesis unfolding askEffectApproval_def Let_def
    by (auto intro!: raised saved simp: assms(2) sameEffect_def kept split: sum.split prod.split WfError.split)
qed

lemma gateSpec_judge:
  assumes "pendingAt (we_id e) st" "we_status e = effect_pending"
  shows "gateSpec e st (judgeEffect sha deps turn input name e st)"
proof (cases "effectPolicy (ft_hour turn) input e st")
  case (Inl t)
  with assms show ?thesis by (simp add: judgeEffect_def Let_def gateSpec_blocking)
next
  case (Inr d)
  let ?e = "e\<lparr>we_reason := reason d\<rparr>" and ?a = "e\<lparr>we_reason := reason d, we_decision := decision_allowed\<rparr>"
  have "sameEffect e ?e" "sameEffect e ?a" by (simp_all add: sameEffect_def)
  note cong = this [THEN gateSpec_cong]
  from Inr assms gateSpec_same [OF assms(1)] gateSpec_ask [of ?e st turn input name d]
    gateSpec_wait [of ?e st sha turn input name] gateSpec_dispatch [of ?a st sha turn input name]
  show ?thesis by (simp add: judgeEffect_def Let_def cong)
qed


section \<open>What a dispatch presupposes\<close>

lemma policy_effects [simp]:
  "effectCheck hour input e (st\<lparr>wx_effects := rows\<rparr>) = effectCheck hour input e st"
  "effectPolicy hour input e (st\<lparr>wx_effects := rows\<rparr>) = effectPolicy hour input e st"
  "effectCheckpoint sha turn input e (st\<lparr>wx_effects := rows\<rparr>) = effectCheckpoint sha turn input e st"
proof -
  have sel: "wx_db (st\<lparr>wx_effects := rows\<rparr>) = wx_db st" "wx_config (st\<lparr>wx_effects := rows\<rparr>) = wx_config st"
    "wx_emergency (st\<lparr>wx_effects := rows\<rparr>) = wx_emergency st" "wx_world (st\<lparr>wx_effects := rows\<rparr>) = wx_world st"
    "wx_versions (st\<lparr>wx_effects := rows\<rparr>) = wx_versions st" "wx_approvals (st\<lparr>wx_effects := rows\<rparr>) = wx_approvals st"
    by simp_all
  show check: "effectCheck hour input e (st\<lparr>wx_effects := rows\<rparr>) = effectCheck hour input e st" for hour
    by (rule ext) (simp add: effectCheck_def)
  show policy: "effectPolicy hour input e (st\<lparr>wx_effects := rows\<rparr>) = effectPolicy hour input e st" for hour
    unfolding effectPolicy_def check sel ..
  show "effectCheckpoint sha turn input e (st\<lparr>wx_effects := rows\<rparr>) = effectCheckpoint sha turn input e st"
    unfolding effectCheckpoint_def policy sel ..
qed

definition mustAsk :: "int \<Rightarrow> 'w EffectInvocation \<Rightarrow> WorkflowEffect \<Rightarrow> 'w EffectWorld \<Rightarrow> bool" where
  "mustAsk hour input e st = (iv_confirmation input \<noteq> None \<or> iv_approvalRequired input \<or>
     (\<exists>c \<in> set (effectCategories input). requiresApproval (effectCheck hour input e st c)))"

lemma policy_passed:
  assumes "effectPolicy hour input e st = Inr d"
  shows "wx_emergency st = normal" "cfg_emergency_state (wx_config st) = normal"
    "\<exists>run. getFlowRun (wx_db st) (we_runId e) = Some run \<and> fr_status run = run_running"
    "getRunCancellation (wx_db st) (we_runId e) = None"
    "\<forall>c \<in> set (effectCategories input). allowed (effectCheck hour input e st c)"
    "requiresApproval d \<longleftrightarrow> mustAsk hour input e st"
proof -
  obtain run d0 where facts: "wx_emergency st = normal" "cfg_emergency_state (wx_config st) = normal"
    "getFlowRun (wx_db st) (we_runId e) = Some run" "fr_status run = run_running" "\<not> runDead (wx_db st) (we_runId e)"
    and comb: "combineDecisions (map (effectCheck hour input e st) (effectCategories input)) = Inr d0"
    and d0: "allowed d0" "requiresApproval d \<longleftrightarrow> iv_confirmation input \<noteq> None \<or> iv_approvalRequired input \<or> requiresApproval d0"
    using assms by (auto simp: effectPolicy_def Let_def split: if_splits option.splits sum.splits)
  show "wx_emergency st = normal" "cfg_emergency_state (wx_config st) = normal"
    "\<exists>run. getFlowRun (wx_db st) (we_runId e) = Some run \<and> fr_status run = run_running"
    "getRunCancellation (wx_db st) (we_runId e) = None" using facts by (auto simp: runDead_def)
  show all: "\<forall>c \<in> set (effectCategories input). allowed (effectCheck hour input e st c)"
    using combine_allowed [OF comb] d0(1) by simp
  have "requiresApproval d0 \<longleftrightarrow> (\<exists>c \<in> set (effectCategories input). requiresApproval (effectCheck hour input e st c))"
    using combine_rank0 [OF comb] d0(1) all by (auto simp: decision_rank_def split: if_splits)
  with d0(2) show "requiresApproval d \<longleftrightarrow> mustAsk hour input e st" by (simp add: mustAsk_def)
qed

text \<open>The review that covers an effect.\<close>

definition reviewed :: "(string \<Rightarrow> string) \<Rightarrow> 'w EffectInvocation \<Rightarrow> WorkflowEffect \<Rightarrow> 'w EffectWorld \<Rightarrow> bool" where
  "reviewed sha input e st = (\<exists>a r. we_approvalId e = Some a \<and> getRequest (wx_approvals st) a = Some r \<and>
     ar_status r = approved \<and> ar_execution_mode r = workflow \<and> argumentsMatch sha r e \<and>
     (iv_confirmation input \<noteq> None \<longrightarrow> approvalNeedsClick (ar_context r)))"

definition licensed :: "(string \<Rightarrow> string) \<Rightarrow> int \<Rightarrow> 'w EffectInvocation \<Rightarrow> WorkflowEffect \<Rightarrow> 'w EffectWorld \<Rightarrow> bool" where
  "licensed sha hour input e st =
     (wx_emergency st = normal \<and> cfg_emergency_state (wx_config st) = normal \<and>
      (\<exists>run. getFlowRun (wx_db st) (we_runId e) = Some run \<and> fr_status run = run_running) \<and>
      getRunCancellation (wx_db st) (we_runId e) = None \<and>
      (\<forall>c \<in> set (effectCategories input). allowed (effectCheck hour input e st c)) \<and>
      (mustAsk hour input e st \<longrightarrow> reviewed sha input e st))"

lemma gate_licensed:
  assumes "gateDispatch sha turn input name e0 st = (Dispatching e n, st')"
    and rev: "we_approvalId e0 \<noteq> None \<Longrightarrow> reviewed sha input e0 st"
  shows "licensed sha (ft_hour turn) input e st'"
proof -
  from assms(1) obtain rows where g: "effectCheckpoint sha turn input e0 st = None" "e = e0" "st' = st\<lparr>wx_effects := rows\<rparr>"
    by (auto simp: gateDispatch_def Let_def savingEffect_def split: option.splits EffectThrow.splits prod.splits bool.splits)
  from g(1) obtain d where d: "effectPolicy (ft_hour turn) input e0 st = Inr d"
    "\<not> (requiresApproval d \<and> we_approvalId e0 = None)"
    by (auto simp: effectCheckpoint_def split: option.splits sum.splits if_splits)
  from policy_passed [OF d(1)] d(2) rev show ?thesis
    unfolding g(2,3) by (auto simp: licensed_def mustAsk_def reviewed_def)
qed

lemma wait_licensed:
  assumes "approvedOrWait sha turn input name e0 st = (Dispatching e n, st')"
  shows "licensed sha (ft_hour turn) input e st'"
proof -
  from assms obtain r where r: "getRequest (wx_approvals st) (js_or (we_approvalId e0) []) = Some r"
    "ar_execution_mode r = workflow" "argumentsMatch sha r e0" "iv_confirmation input \<noteq> None \<longrightarrow> approvalNeedsClick (ar_context r)"
    "ar_status r = approved" "gateDispatch sha turn input name e0 st = (Dispatching e n, st')"
    by (auto simp: approvedOrWait_def Let_def savingEffect_def split: option.splits if_splits)
  have "reviewed sha input e0 st" if "we_approvalId e0 \<noteq> None"
    using r that by (auto simp: reviewed_def js_or_def)
  from gate_licensed [OF r(6) this] show ?thesis .
qed

lemma judge_licensed:
  assumes "judgeEffect sha deps turn input name e0 st = (Dispatching e n, st')"
  shows "licensed sha (ft_hour turn) input e st'"
proof -
  from assms obtain d where d: "effectPolicy (ft_hour turn) input e0 st = Inr d"
    by (auto simp: judgeEffect_def Let_def savingEffect_def split: sum.splits option.splits)
  let ?e = "e0\<lparr>we_reason := reason d\<rparr>"
  have no_ask: "askEffectApproval turn input name d e1 st \<noteq> (Dispatching e n, st')" for e1
    by (auto simp: askEffectApproval_def Let_def split: sum.split prod.split option.split WfError.split)
  show ?thesis
  proof (cases "we_approvalId e0 \<noteq> None \<or> requiresApproval d")
    case True
    with assms d no_ask have "approvedOrWait sha turn input name ?e st = (Dispatching e n, st')"
      by (auto simp: judgeEffect_def Let_def split: if_splits)
    then show ?thesis by (rule wait_licensed)
  next
    case False
    with assms d have g: "gateDispatch sha turn input name (?e\<lparr>we_decision := decision_allowed\<rparr>) st = (Dispatching e n, st')"
      by (simp add: judgeEffect_def Let_def)
    show ?thesis by (rule gate_licensed [OF g]) (use False in simp)
  qed
qed

lemma settledReply_no_dispatch: "settledReply t e \<noteq> Dispatching e' n" "settledReply t e \<noteq> Delivering e' n"
  by (simp_all add: settledReply_def split: option.split)

lemma start_licensed:
  assumes "startEffect sha deps turn input st = (Dispatching e n, st')"
  shows "licensed sha (ft_hour turn) input e st'"
proof -
  have "\<exists>e0 st0 name. judgeEffect sha deps turn input name e0 st0 = (Dispatching e n, st')"
    using assms settledReply_no_dispatch
    by (auto simp: startEffect_def Let_def savingEffect_def split: if_splits sum.splits option.splits prod.splits)
  with judge_licensed show ?thesis by blast
qed

lemma resume_licensed:
  assumes "resumeEffect sha turn input name e0 st = (Dispatching e n, st')"
  shows "licensed sha (ft_hour turn) input e st'"
proof -
  from assms settledReply_no_dispatch have "approvedOrWait sha turn input name e0 st = (Dispatching e n, st')"
    by (auto simp: resumeEffect_def split: option.splits if_splits)
  then show ?thesis by (rule wait_licensed)
qed

lemma licensed_run: "licensed sha hour input e st \<Longrightarrow> getFlowRun (wx_db st) (we_runId e) \<noteq> None"
  by (auto simp: licensed_def)

end
