(* ===== verification/Effect_Process.thy ===== *)
theory Effect_Process
  imports Effect_Laws
begin

text \<open>
  The process of the effect boundary.  A process runs any number of calls at once: \<open>Boundary\<close> holds the calls
  that wait for a delivery and those whose effect is running, and a step starts a call, goes on with one, ends
  one, loses them all to a crash, or is a write of somebody else, the deletion of a flow with everything its runs
  own included.  The invariant \<open>boundary_ok\<close> follows one effect \<open>i\<close> of one run \<open>r\<close>; the concrete steps move its
  status only along \<open>effectMove\<close>, or remove it together with its run.
\<close>


section \<open>The process\<close>

record 'w Suspended =
  su_input :: "'w EffectInvocation"
  su_name :: string
  su_effect :: WorkflowEffect

record 'w Boundary =
  bo_world :: "'w EffectWorld"
  bo_delivering :: "'w Suspended list"
  bo_running :: "'w Suspended list"

datatype 'w BoundaryEvent =
    BeTables WfOp
  | BeApproval "'w Registries" ApprovalOp
  | BeEmergency EmergencyOp
  | BeConfig AuthorityConfig
  | BeVersions "string \<Rightarrow> FlowVersion option"
  | BeWorld 'w
  | BeInvoke BoundaryDeps EffectTurn "'w EffectInvocation"
  | BeDelivered nat EffectTurn
  | BeFinished nat EffectTurn "EffectThrow + json option"
  | BeCrash

text \<open>The deletion of a flow cascades to the effects of its runs.\<close>

definition tablesStep :: "WfOp \<Rightarrow> 'w EffectWorld \<Rightarrow> 'w EffectWorld" where
  "tablesStep op st = st\<lparr>wx_db := wfOp op (wx_db st),
     wx_effects := (case op of
        OpDeleteFlow f \<Rightarrow> filter (\<lambda>r. er_run_id r \<notin> fr_id ` {x \<in> set (wd_runs (wx_db st)). fr_flow_id x = f}) (wx_effects st)
      | _ \<Rightarrow> wx_effects st)\<rparr>"

definition dropNth :: "nat \<Rightarrow> 'a list \<Rightarrow> 'a list" where
  "dropNth k xs = take k xs @ drop (Suc k) xs"

text \<open>A call that gives up control joins the calls that wait.\<close>

definition suspend :: "'w EffectInvocation \<Rightarrow> EffectReply \<times> 'w EffectWorld \<Rightarrow> 'w Boundary \<Rightarrow> 'w Boundary" where
  "suspend input out b = (case fst out of
     Delivering e n \<Rightarrow> b\<lparr>bo_world := snd out,
       bo_delivering := bo_delivering b @ [\<lparr> su_input = input, su_name = n, su_effect = e \<rparr>]\<rparr>
   | Dispatching e n \<Rightarrow> b\<lparr>bo_world := snd out,
       bo_running := bo_running b @ [\<lparr> su_input = input, su_name = n, su_effect = e \<rparr>]\<rparr>
   | _ \<Rightarrow> b\<lparr>bo_world := snd out\<rparr>)"

definition callOut :: "(string \<Rightarrow> string) \<Rightarrow> 'w BoundaryEvent \<Rightarrow> 'w Boundary \<Rightarrow> (EffectReply \<times> 'w EffectWorld) option" where
  "callOut sha ev b = (case ev of
     BeInvoke deps turn input \<Rightarrow> Some (startEffect sha deps turn input (bo_world b))
   | BeDelivered k turn \<Rightarrow> if k < length (bo_delivering b)
       then (let s = bo_delivering b ! k in Some (resumeEffect sha turn (su_input s) (su_name s) (su_effect s) (bo_world b)))
       else None
   | _ \<Rightarrow> None)"

fun boundaryStep :: "(string \<Rightarrow> string) \<Rightarrow> 'w BoundaryEvent \<Rightarrow> 'w Boundary \<Rightarrow> 'w Boundary" where
  "boundaryStep sha (BeTables op) b = b\<lparr>bo_world := tablesStep op (bo_world b)\<rparr>"
| "boundaryStep sha (BeApproval regs op) b = b\<lparr>bo_world := (bo_world b)\<lparr>wx_approvals :=
     applyOp regs (wx_world (bo_world b)) op (wx_approvals (bo_world b))\<rparr>\<rparr>"
| "boundaryStep sha (BeEmergency op) b = b\<lparr>bo_world := (bo_world b)\<lparr>wx_emergency := snd (emergencyStep op (wx_emergency (bo_world b)))\<rparr>\<rparr>"
| "boundaryStep sha (BeConfig cfg) b = b\<lparr>bo_world := (bo_world b)\<lparr>wx_config := cfg\<rparr>\<rparr>"
| "boundaryStep sha (BeVersions vs) b = b\<lparr>bo_world := (bo_world b)\<lparr>wx_versions := vs\<rparr>\<rparr>"
| "boundaryStep sha (BeWorld w) b = b\<lparr>bo_world := (bo_world b)\<lparr>wx_world := w\<rparr>\<rparr>"
| "boundaryStep sha (BeInvoke deps turn input) b = suspend input (startEffect sha deps turn input (bo_world b)) b"
| "boundaryStep sha (BeDelivered k turn) b =
     (if k < length (bo_delivering b)
      then (let s = bo_delivering b ! k
            in suspend (su_input s) (resumeEffect sha turn (su_input s) (su_name s) (su_effect s) (bo_world b))
                 (b\<lparr>bo_delivering := dropNth k (bo_delivering b)\<rparr>))
      else b)"
| "boundaryStep sha (BeFinished k turn outcome) b =
     (if k < length (bo_running b)
      then (let s = bo_running b ! k
            in b\<lparr>bo_world := snd (finishEffect turn (su_input s) (su_name s) (su_effect s) outcome (bo_world b)),
                 bo_running := dropNth k (bo_running b)\<rparr>)
      else b)"
| "boundaryStep sha BeCrash b = b\<lparr>bo_delivering := [], bo_running := []\<rparr>"

definition dispatches :: "(string \<Rightarrow> string) \<Rightarrow> string \<Rightarrow> 'w BoundaryEvent \<Rightarrow> 'w Boundary \<Rightarrow> bool" where
  "dispatches sha i ev b = (case callOut sha ev b of
     Some (Dispatching e n, st) \<Rightarrow> we_id e = i
   | _ \<Rightarrow> False)"

text \<open>
  What the environment of one run grants: the id of the run, a random UUID, is not given to a second run, and the
  effect of a call of another run has another id, a hash of run, step, path and route.  The second is asked only of
  the calls that are really made.
\<close>

definition callId :: "(string \<Rightarrow> string) \<Rightarrow> 'w EffectInvocation \<Rightarrow> string option" where
  "callId sha input = (case (ec_stepName (iv_context input), ec_executionPath (iv_context input)) of
     (Some step, Some path) \<Rightarrow> Some (workflowEffectId sha (ec_runId (iv_context input)) step path (iv_route input))
   | _ \<Rightarrow> None)"

definition apart :: "(string \<Rightarrow> string) \<Rightarrow> string \<Rightarrow> string \<Rightarrow> 'w BoundaryEvent \<Rightarrow> bool" where
  "apart sha r i ev = (case ev of
     BeTables op \<Rightarrow> \<not> createsRun r op
   | BeInvoke deps turn input \<Rightarrow> ec_runId (iv_context input) = r \<or> callId sha input \<noteq> Some i
   | _ \<Rightarrow> True)"

abbreviation statusIn :: "'w Boundary \<Rightarrow> string \<Rightarrow> EffectStatus option" where
  "statusIn b i \<equiv> effectStatus i (wx_effects (bo_world b))"

abbreviation runningIds :: "'w Boundary \<Rightarrow> string list" where
  "runningIds b \<equiv> map (\<lambda>s. we_id (su_effect s)) (bo_running b)"

definition runGone :: "string \<Rightarrow> 'w EffectWorld \<Rightarrow> bool" where
  "runGone r st \<longleftrightarrow> getFlowRun (wx_db st) r = None"

text \<open>The row of the effect belongs to its run, and so does every record a suspended call holds.\<close>

definition owned :: "string \<Rightarrow> string \<Rightarrow> EffectRow list \<Rightarrow> bool" where
  "owned r i rows = (\<forall>row. sql_get er_id i rows = Some row \<longrightarrow> er_run_id row = r \<and> we_runId (er_record row) = r)"

definition snapOk :: "string \<Rightarrow> string \<Rightarrow> WorkflowEffect \<Rightarrow> bool" where
  "snapOk r i e = (we_outcome e = None \<and> (we_id e = i \<longrightarrow> we_runId e = r))"

text \<open>
  At most one call runs the effect; while it does, the row is dispatching, or it was deleted together with the run.
\<close>

definition boundary_ok :: "string \<Rightarrow> string \<Rightarrow> 'w Boundary \<Rightarrow> bool" where
  "boundary_ok r i b = (rows_ok (wx_effects (bo_world b)) \<and> owned r i (wx_effects (bo_world b)) \<and>
     (\<forall>s \<in> set (bo_delivering b) \<union> set (bo_running b). snapOk r i (su_effect s)) \<and>
     count_list (runningIds b) i \<le> 1 \<and>
     (i \<in> set (runningIds b) \<longrightarrow>
        statusIn b i = Some effect_dispatching \<or> (statusIn b i = None \<and> runGone r (bo_world b))))"

text \<open>The moves of one effect.\<close>

definition effectMove :: "EffectStatus option \<Rightarrow> EffectStatus option \<Rightarrow> bool" where
  "effectMove s s' = (s' = s \<or>
     (s \<in> {None, Some effect_pending} \<and> s' \<in> {Some effect_pending, Some effect_blocked, Some effect_dispatching}) \<or>
     (s = Some effect_dispatching \<and> s' \<in> {Some effect_succeeded, Some effect_failed, Some effect_blocked, Some effect_unknown}))"

lemma boundary_okD:
  assumes "boundary_ok r i b"
  shows "rows_ok (wx_effects (bo_world b))" "owned r i (wx_effects (bo_world b))"
    "s \<in> set (bo_delivering b) \<Longrightarrow> snapOk r i (su_effect s)" "s \<in> set (bo_running b) \<Longrightarrow> snapOk r i (su_effect s)"
    "count_list (runningIds b) i \<le> 1"
    "i \<in> set (runningIds b) \<Longrightarrow> statusIn b i = Some effect_dispatching \<or> (statusIn b i = None \<and> runGone r (bo_world b))"
  using assms unfolding boundary_ok_def by blast+

lemma boundary_okI:
  assumes "rows_ok (wx_effects (bo_world b))" "owned r i (wx_effects (bo_world b))"
    "\<And>s. s \<in> set (bo_delivering b) \<Longrightarrow> snapOk r i (su_effect s)" "\<And>s. s \<in> set (bo_running b) \<Longrightarrow> snapOk r i (su_effect s)"
    "count_list (runningIds b) i \<le> 1"
    "i \<in> set (runningIds b) \<Longrightarrow> statusIn b i = Some effect_dispatching \<or> (statusIn b i = None \<and> runGone r (bo_world b))"
  shows "boundary_ok r i b"
  using assms unfolding boundary_ok_def by blast

lemma boundary_ok_empty:
  "bo_delivering b = [] \<Longrightarrow> bo_running b = [] \<Longrightarrow> wx_effects (bo_world b) = [] \<Longrightarrow> boundary_ok r i b"
  by (simp add: boundary_ok_def rows_ok_def owned_def sql_get_def)

lemma suspend_world [simp]: "bo_world (suspend input out b) = snd out"
  by (simp add: suspend_def split: EffectReply.split)

lemma suspend_running:
  "runningIds (suspend input out b) = runningIds b @ (case fst out of Dispatching e n \<Rightarrow> [we_id e] | _ \<Rightarrow> [])"
  by (simp add: suspend_def split: EffectReply.split)

lemma dropNth_mem: "set (dropNth k xs) \<subseteq> set xs"
  by (auto simp: dropNth_def dest: in_set_takeD in_set_dropD)

lemma dropNth_map: "map f (dropNth k xs) = dropNth k (map f xs)"
  by (simp add: dropNth_def take_map drop_map)

lemma dropNth_distinct:
  assumes "distinct xs" "k < length xs"
  shows "distinct (dropNth k xs)" "xs ! k \<notin> set (dropNth k xs)"
proof -
  have split: "xs = take k xs @ xs ! k # drop (Suc k) xs" using assms(2) by (rule id_take_nth_drop)
  have "distinct (take k xs @ xs ! k # drop (Suc k) xs)" using assms(1) unfolding split [symmetric] .
  then show "distinct (dropNth k xs)" "xs ! k \<notin> set (dropNth k xs)" by (auto simp: dropNth_def)
qed


lemma dropNth_count:
  assumes "n < length xs"
  shows "count_list xs y = count_list (dropNth n xs) y + (if xs ! n = y then 1 else 0)"
proof -
  have split: "xs = take n xs @ xs ! n # drop (Suc n) xs" using assms by (rule id_take_nth_drop)
  show ?thesis by (subst split) (simp add: dropNth_def)
qed

lemma kept_gone: "stops_kept (wx_db st) (wx_db st') \<Longrightarrow> runGone r st \<Longrightarrow> runGone r st'"
  by (simp add: stops_kept_def runGone_def)

lemma gone_forever:
  assumes "getFlowRun db r = None" "\<not> createsRun r op"
  shows "getFlowRun (wfOp op db) r = None"
proof (cases op)
  case (OpDeleteFlow f)
  with assms show ?thesis by (simp add: delete_lookups)
next
  case (OpCreateRun k ts input)
  with assms show ?thesis
    by (auto simp: createFlowRun_def Let_def getFlowRun_def sql_get_append)
qed (use wfOp_stops_kept [of op db] assms in \<open>simp_all add: stops_kept_def\<close>)



section \<open>One call\<close>

text \<open>
  What a step that starts or goes on with a call does: nothing to the table, or one move of one effect that was
  unrecorded or pending; no other row changes, no run comes back, and what is recorded of \<open>i\<close> stays with its run.
\<close>

definition movesRow :: "string \<Rightarrow> string \<Rightarrow> 'w EffectWorld \<Rightarrow> EffectReply \<times> 'w EffectWorld \<Rightarrow> string \<Rightarrow> bool" where
  "movesRow r i st out k =
     (effectStatus k (wx_effects st) \<in> {None, Some effect_pending} \<and>
      (k = i \<and> effectStatus k (wx_effects st) = None \<longrightarrow> \<not> runGone r st) \<and>
      (\<forall>l. l \<noteq> k \<longrightarrow> sql_get er_id l (wx_effects (snd out)) = sql_get er_id l (wx_effects st)) \<and>
      (case fst out of
         Dispatching e n \<Rightarrow> we_id e = k \<and> effectStatus k (wx_effects (snd out)) = Some effect_dispatching
       | _ \<Rightarrow> effectStatus k (wx_effects (snd out)) \<in> {Some effect_pending, Some effect_blocked}))"

definition carries :: "string \<Rightarrow> string \<Rightarrow> EffectReply \<times> 'w EffectWorld \<Rightarrow> bool" where
  "carries r i out = (case fst out of
     Delivering e n \<Rightarrow> snapOk r i e
   | Dispatching e n \<Rightarrow> snapOk r i e \<and> \<not> runGone (we_runId e) (snd out)
   | _ \<Rightarrow> True)"

definition callSpec :: "string \<Rightarrow> string \<Rightarrow> 'w EffectWorld \<Rightarrow> EffectReply \<times> 'w EffectWorld \<Rightarrow> bool" where
  "callSpec r i st out = (rows_ok (wx_effects (snd out)) \<and> owned r i (wx_effects (snd out)) \<and>
     stops_kept (wx_db st) (wx_db (snd out)) \<and> carries r i out \<and>
     (wx_effects (snd out) = wx_effects st \<and> ends (fst out) \<or> (\<exists>k. movesRow r i st out k)))"

lemma callSpec_same: "rows_ok (wx_effects st) \<Longrightarrow> owned r i (wx_effects st) \<Longrightarrow> ends reply \<Longrightarrow> callSpec r i st (reply, st)"
  by (cases reply) (simp_all add: callSpec_def carries_def)

lemma snapOk_same: "snapOk r i e \<Longrightarrow> sameEffect e d \<Longrightarrow> snapOk r i d"
  by (simp add: snapOk_def sameEffect_def)

text \<open>A step with the record of a pending effect, from the table as the call found it or had just added to.\<close>

lemma callSpec_gate:
  assumes gate: "gateSpec e st1 out" and pend: "pendingAt (we_id e) st1" and own: "owned r i (wx_effects st1)" and snap: "snapOk r i e"
    and lic: "\<And>d n. fst out = Dispatching d n \<Longrightarrow> \<not> runGone (we_runId d) (snd out)"
    and st: "wx_db st1 = wx_db st" "effectStatus (we_id e) (wx_effects st) \<in> {None, Some effect_pending}"
      "effectStatus (we_id e) (wx_effects st) = None \<Longrightarrow> \<not> runGone (we_runId e) st"
      "\<And>l. l \<noteq> we_id e \<Longrightarrow> sql_get er_id l (wx_effects st1) = sql_get er_id l (wx_effects st)"
  shows "callSpec r i st out"
proof -
  from gate obtain row row' where g: "rows_ok (wx_effects (snd out))" "stops_kept (wx_db st1) (wx_db (snd out))"
    "\<And>k. k \<noteq> we_id e \<Longrightarrow> sql_get er_id k (wx_effects (snd out)) = sql_get er_id k (wx_effects st1)"
    "sql_get er_id (we_id e) (wx_effects st1) = Some row" "sql_get er_id (we_id e) (wx_effects (snd out)) = Some row'"
    "effectRowStep e (fst out) row row'"
    unfolding gateSpec_def by blast
  have row': "er_run_id row' = er_run_id row" "er_record row' = er_record row \<or> we_runId (er_record row') = we_runId e"
    using g(6) by (simp_all add: effectRowStep_def)
  have "owned r i (wx_effects (snd out))"
  proof (cases "i = we_id e")
    case True
    with own snap g(4,5) row' show ?thesis by (auto simp: owned_def snapOk_def)
  next
    case False
    with own g(3) [of i] show ?thesis by (simp add: owned_def)
  qed
  moreover have "carries r i out"
    using g(6) lic snapOk_same [OF snap] by (auto simp: carries_def effectRowStep_def split: EffectReply.split)
  moreover have "movesRow r i st out (we_id e)"
  proof -
    have "runGone r st = runGone (we_runId e) st" if "we_id e = i" using snap that by (simp add: snapOk_def)
    moreover have "case fst out of
         Dispatching d n \<Rightarrow> we_id d = we_id e \<and> effectStatus (we_id e) (wx_effects (snd out)) = Some effect_dispatching
       | _ \<Rightarrow> effectStatus (we_id e) (wx_effects (snd out)) \<in> {Some effect_pending, Some effect_blocked}"
      using g(5,6) by (auto simp: effectStatus_def effectRowStep_def sameEffect_def split: EffectReply.split)
    ultimately show ?thesis using st(2-4) g(3) by (auto simp: movesRow_def)
  qed
  ultimately show ?thesis using g(1,2) st(1) unfolding callSpec_def by auto
qed

lemma callSpec_resume:
  assumes ok: "rows_ok (wx_effects st)" and own: "owned r i (wx_effects st)" and snap: "snapOk r i e"
  shows "callSpec r i st (resumeEffect sha turn input name e st)"
proof (cases "getWorkflowEffect (we_id e) (wx_effects st)")
  case None
  with callSpec_same [OF ok own] show ?thesis by (simp add: resumeEffect_def)
next
  case (Some latest)
  show ?thesis
  proof (cases "settledEffect latest")
    case True
    with Some callSpec_same [OF ok own] show ?thesis by (simp add: resumeEffect_def)
  next
    case False
    let ?out = "approvedOrWait sha turn input name e st"
    from False rows_ok_get [OF ok Some] ok have pend: "pendingAt (we_id e) st" by (simp add: pendingAt_def settledEffect_def)
    have "\<not> runGone (we_runId d) (snd ?out)" if "fst ?out = Dispatching d n" for d n
      using wait_licensed [of sha turn input name e st d n "snd ?out"] that licensed_run by (metis prod.collapse runGone_def)
    from callSpec_gate [where st = st, OF gateSpec_wait [OF pend] pend own snap this] pend Some False show ?thesis
      by (simp add: resumeEffect_def pendingAt_def)
  qed
qed

text \<open>What the context of a call resolves to.\<close>

lemma resolve_context:
  assumes "resolveEffectContext sha versions ctx piece action db = Inr res"
  shows "getFlowRun db (ec_runId ctx) = Some (re_run res)" "fr_id (re_run res) = ec_runId ctx"
    "ec_stepName ctx = Some (re_stepName res)" "ec_executionPath ctx = Some (re_executionPath res)"
proof -
  show run: "getFlowRun db (ec_runId ctx) = Some (re_run res)"
    and "ec_stepName ctx = Some (re_stepName res)" "ec_executionPath ctx = Some (re_executionPath res)"
    using assms by (auto simp: resolveEffectContext_def Let_def split: option.splits if_splits list.splits)
  from run show "fr_id (re_run res) = ec_runId ctx" unfolding getFlowRun_def by (blast dest: sql_get_key)
qed

lemma resolve_callId:
  assumes "resolveEffectContext sha versions (iv_context input) piece action db = Inr res"
  shows "callId sha input =
    Some (workflowEffectId sha (fr_id (re_run res)) (re_stepName res) (re_executionPath res) (iv_route input))"
  using resolve_context [OF assms] by (simp add: callId_def)

lemma owned_new:
  assumes "rows_ok rows" "owned r i rows" "saveWorkflowEffect db e rows = Some rows'" "we_id e = i \<longrightarrow> we_runId e = r"
    "getWorkflowEffect (we_id e) rows = None"
  shows "owned r i rows'"
proof -
  have "sql_get er_id (we_id e) rows = None" using assms(5) by (simp add: getWorkflowEffect_def)
  with save_rows(2) [OF assms(1,3), of i] assms(2,4) show ?thesis by (auto simp: owned_def)
qed

lemma callSpec_start:
  assumes ok: "rows_ok (wx_effects st)" and own: "owned r i (wx_effects st)"
    and apart: "ec_runId (iv_context input) = r \<or> callId sha input \<noteq> Some i"
  shows "callSpec r i st (startEffect sha deps turn input st)"
proof -
  note same = callSpec_same [OF ok own]
  have lic: "\<not> runGone (we_runId d) (snd out)"
    if "judgeEffect sha deps turn input name e st1 = out" "fst out = Dispatching d n" for name e st1 out d n
    using judge_licensed [of sha deps turn input name e st1 d n "snd out"] that licensed_run by (metis prod.collapse runGone_def)
  have known: "callSpec r i st (judgeEffect sha deps turn input name e st)"
    if e: "getWorkflowEffect k (wx_effects st) = Some e" "\<not> settledEffect e" for k e name
  proof -
    from rows_ok_get [OF ok e(1)] e(2) ok have pend: "pendingAt (we_id e) st" "we_status e = effect_pending"
      by (auto simp: pendingAt_def settledEffect_def)
    have "snapOk r i e" using own e rows_ok_get [OF ok e(1)]
      by (auto simp: snapOk_def settledEffect_def owned_def getWorkflowEffect_def)
    from callSpec_gate [where st = st, OF gateSpec_judge [OF pend] pend(1) own this lic [OF refl]] pend(1) show ?thesis
      by (simp add: pendingAt_def)
  qed
  have fresh: "callSpec r i st (savingEffect e st (judgeEffect sha deps turn input name e))"
    if new: "getWorkflowEffect (we_id e) (wx_effects st) = None" and pend: "we_status e = effect_pending"
      and snap: "snapOk r i e" for e name
  proof (cases "saveWorkflowEffect (wx_db st) e (wx_effects st)")
    case None
    with same show ?thesis by (simp add: savingEffect_def)
  next
    case (Some rows)
    let ?st = "st\<lparr>wx_effects := rows\<rparr>"
    have absent: "effectStatus (we_id e) (wx_effects st) = None" using new by (simp add: effectStatus_none)
    have p: "pendingAt (we_id e) ?st" using save_rows(1) [OF ok Some] save_status [OF ok Some] pend by (simp add: pendingAt_def)
    have "owned r i (wx_effects ?st)" using owned_new [OF ok own Some _ new] snap by (simp add: snapOk_def)
    from callSpec_gate [where st = st, OF gateSpec_judge [OF p pend] p this snap lic [OF refl]]
      absent save_new_run [OF Some absent, folded runGone_def] save_rows(2) [OF ok Some] Some show ?thesis
      by (simp add: savingEffect_def)
  qed
  show ?thesis
  proof (cases "resolveEffectContext sha (wx_versions st) (iv_context input) (iv_piece input) (iv_action input) (wx_db st)")
    case (Inl msg)
    with same show ?thesis by (simp add: startEffect_def)
  next
    case (Inr res)
    let ?k = "workflowEffectId sha (fr_id (re_run res)) (re_stepName res) (re_executionPath res) (iv_route input)"
    show ?thesis
    proof (cases "getWorkflowEffect ?k (wx_effects st)")
      case None
      have "callSpec r i st (savingEffect (newEffect sha turn input res ?k args target) st
          (judgeEffect sha deps turn input name (newEffect sha turn input res ?k args target)))" for args target name
      proof (rule fresh)
        show "snapOk r i (newEffect sha turn input res ?k args target)"
          using apart resolve_callId [OF Inr] resolve_context(2) [OF Inr] by (auto simp: snapOk_def newEffect_def)
      qed (simp_all add: newEffect_def None)
      with Inr None same show ?thesis by (simp add: startEffect_def Let_def split: sum.split option.split)
    next
      case (Some e)
      with Inr same known [OF Some] show ?thesis by (simp add: startEffect_def Let_def)
    qed
  qed
qed



section \<open>The end of an effect\<close>

definition settledStatus :: "EffectStatus \<Rightarrow> bool" where
  "settledStatus s = (s \<in> {effect_succeeded, effect_failed, effect_blocked, effect_unknown})"

text \<open>The end of an effect saves one settled record, unless neither the row nor the run is there any more.\<close>

definition finishSpec :: "WorkflowEffect \<Rightarrow> 'w EffectWorld \<Rightarrow> 'w EffectWorld \<Rightarrow> bool" where
  "finishSpec e st st' = (wx_db st' = wx_db st \<and>
     ((wx_effects st' = wx_effects st \<and> effectStatus (we_id e) (wx_effects st) = None) \<or>
      (\<exists>e'. we_id e' = we_id e \<and> we_runId e' = we_runId e \<and> settledStatus (we_status e') \<and>
         saveWorkflowEffect (wx_db st) e' (wx_effects st) = Some (wx_effects st'))))"

lemma finishSpec_save:
  assumes e': "we_id e' = we_id e" "we_runId e' = we_runId e" "settledStatus (we_status e')"
  shows "finishSpec e st (snd (savingEffect e' st (\<lambda>st1. (reply, logEffect turn input name d b st1))))"
proof (cases "saveWorkflowEffect (wx_db st) e' (wx_effects st)")
  case None
  with save_present [of e' "wx_effects st" "wx_db st"] e'
  have "effectStatus (we_id e) (wx_effects st) = None" by fastforce
  with None show ?thesis by (simp add: savingEffect_def finishSpec_def)
next
  case (Some rows)
  then show ?thesis using e' by (auto simp: savingEffect_def finishSpec_def)
qed

lemma finish_fail: "finishSpec e st (snd (failEffect turn input name e t st))"
  unfolding failEffect_def Let_def
  by (rule finishSpec_save) (simp_all add: settledStatus_def split: EffectThrow.split FailureStatus.split)

lemma finish_spec: "finishSpec e st (snd (finishEffect turn input name e outcome st))"
proof (cases outcome)
  case (Inl t)
  with finish_fail show ?thesis by (simp add: finishEffect_def)
next
  case (Inr r)
  define e' where "e' = e\<lparr>we_result := Some (js_or r JNull), we_status := effect_succeeded, we_finishedAt := Some (ft_now turn)\<rparr>"
  have e': "we_id e' = we_id e" "we_runId e' = we_runId e" "settledStatus (we_status e')" by (simp_all add: e'_def settledStatus_def)
  show ?thesis
  proof (cases "saveWorkflowEffect (wx_db st) e' (wx_effects st)")
    case None
    have "finishSpec e st (snd (failEffect turn input name e' foreignKeyError st))"
      using finish_fail [of e' st turn input name foreignKeyError] e' by (simp add: finishSpec_def)
    with None Inr show ?thesis by (simp add: finishEffect_def Let_def e'_def)
  next
    case (Some rows)
    with Inr e' show ?thesis by (auto simp: finishEffect_def Let_def e'_def finishSpec_def)
  qed
qed

lemma finish_status:
  assumes ok: "rows_ok (wx_effects st)" and fin: "finishSpec e st st'"
  shows "rows_ok (wx_effects st')"
    "k \<noteq> we_id e \<Longrightarrow> sql_get er_id k (wx_effects st') = sql_get er_id k (wx_effects st)"
    "effectStatus (we_id e) (wx_effects st) \<noteq> None \<Longrightarrow>
       \<exists>s. effectStatus (we_id e) (wx_effects st') = Some s \<and> settledStatus s"
    "effectStatus (we_id e) (wx_effects st) = None \<Longrightarrow> runGone (we_runId e) st \<Longrightarrow> wx_effects st' = wx_effects st"
    "owned r i (wx_effects st) \<Longrightarrow> snapOk r i e \<Longrightarrow> owned r i (wx_effects st')"
proof -
  note cases = fin [unfolded finishSpec_def]
  show "rows_ok (wx_effects st')" using cases ok save_rows(1) [OF ok] by metis
  show "sql_get er_id k (wx_effects st') = sql_get er_id k (wx_effects st)" if "k \<noteq> we_id e"
    using cases that save_rows(2) [OF ok] by metis
  show "\<exists>s. effectStatus (we_id e) (wx_effects st') = Some s \<and> settledStatus s" if "effectStatus (we_id e) (wx_effects st) \<noteq> None"
    using cases that save_status(1) [OF ok] by metis
  show "wx_effects st' = wx_effects st" if "effectStatus (we_id e) (wx_effects st) = None" "runGone (we_runId e) st"
    using cases that save_absent [of _ "wx_effects st" "wx_db st"] unfolding runGone_def by (metis option.distinct(1))
  show "owned r i (wx_effects st')" if own: "owned r i (wx_effects st)" and snap: "snapOk r i e"
  proof -
    from cases consider "wx_effects st' = wx_effects st"
      | e' where "we_id e' = we_id e" "we_runId e' = we_runId e"
          "saveWorkflowEffect (wx_db st) e' (wx_effects st) = Some (wx_effects st')" by blast
    then show ?thesis
    proof cases
      case 2
      have "er_run_id (savedRow e' (sql_get er_id i (wx_effects st))) = r" if "we_id e' = i"
        using own snap 2 that
        by (cases "sql_get er_id i (wx_effects st)") (auto simp: owned_def snapOk_def)
      with save_rows(2) [OF ok 2(3), of i] own snap 2(1,2) show ?thesis by (auto simp: owned_def snapOk_def split: if_splits)
    qed (use own in simp)
  qed
qed


section \<open>One step of the process\<close>

lemma call_step:
  assumes ok: "boundary_ok r i b" and spec: "callSpec r i (bo_world b) out"
    and b': "bo_world b' = bo_world b" "bo_running b' = bo_running b" "set (bo_delivering b') \<subseteq> set (bo_delivering b)"
  shows "boundary_ok r i (suspend input out b')" "effectMove (statusIn b i) (statusIn (suspend input out b') i)"
    "fst out = Dispatching e n \<Longrightarrow> we_id e = i \<Longrightarrow> statusIn b i \<in> {None, Some effect_pending} \<and>
       statusIn (suspend input out b') i = Some effect_dispatching \<and> \<not> runGone r (bo_world b)"
    "statusIn b i \<notin> {None, Some effect_pending} \<Longrightarrow>
       sql_get er_id i (wx_effects (bo_world (suspend input out b'))) = sql_get er_id i (wx_effects (bo_world b))"
    "runGone r (bo_world b) \<Longrightarrow> runGone r (bo_world (suspend input out b'))"
    "runGone r (bo_world b) \<Longrightarrow> statusIn b i = None \<Longrightarrow> statusIn (suspend input out b') i = None"
proof -
  from spec have rows: "rows_ok (wx_effects (snd out))" and own: "owned r i (wx_effects (snd out))"
    and kept: "stops_kept (wx_db (bo_world b)) (wx_db (snd out))" and car: "carries r i out"
    and what: "wx_effects (snd out) = wx_effects (bo_world b) \<and> ends (fst out) \<or> (\<exists>k. movesRow r i (bo_world b) out k)"
    unfolding callSpec_def by blast+
  show gone: "runGone r (bo_world (suspend input out b'))" if "runGone r (bo_world b)"
    using kept_gone [OF kept that] by simp
  have status: "effectStatus i rows' = effectStatus i rows" if "sql_get er_id i rows' = sql_get er_id i rows" for rows rows'
    using that by (simp add: effectStatus_def)
  from what consider (still) "sql_get er_id i (wx_effects (snd out)) = sql_get er_id i (wx_effects (bo_world b))"
      "\<And>e n. fst out = Dispatching e n \<Longrightarrow> we_id e \<noteq> i"
    | (here) "movesRow r i (bo_world b) out i"
  proof
    assume "wx_effects (snd out) = wx_effects (bo_world b) \<and> ends (fst out)"
    then show ?thesis by (intro still) auto
  next
    assume "\<exists>k. movesRow r i (bo_world b) out k"
    then obtain k where k: "movesRow r i (bo_world b) out k" ..
    show ?thesis
    proof (cases "k = i")
      case False
      with k show ?thesis by (intro still) (auto simp: movesRow_def)
    qed (use k here in simp)
  qed
  then have moves: "boundary_ok r i (suspend input out b') \<and> effectMove (statusIn b i) (statusIn (suspend input out b') i) \<and>
      (\<forall>e n. fst out = Dispatching e n \<and> we_id e = i \<longrightarrow> statusIn b i \<in> {None, Some effect_pending} \<and>
         statusIn (suspend input out b') i = Some effect_dispatching \<and> \<not> runGone r (bo_world b)) \<and>
      (statusIn b i \<notin> {None, Some effect_pending} \<longrightarrow>
         sql_get er_id i (wx_effects (snd out)) = sql_get er_id i (wx_effects (bo_world b))) \<and>
      (runGone r (bo_world b) \<and> statusIn b i = None \<longrightarrow> statusIn (suspend input out b') i = None)"
  proof cases
    case still
    note same = status [OF still(1)]
    have ids: "count_list (runningIds (suspend input out b')) i = count_list (runningIds b) i"
      using still(2) b'(2) by (auto simp: suspend_running split: EffectReply.split)
    have "boundary_ok r i (suspend input out b')"
    proof (rule boundary_okI)
      show "statusIn (suspend input out b') i = Some effect_dispatching \<or>
          (statusIn (suspend input out b') i = None \<and> runGone r (bo_world (suspend input out b')))"
        if "i \<in> set (runningIds (suspend input out b'))"
      proof -
        have "i \<in> set (runningIds b)" using that ids by (metis count_list_0_iff)
        from boundary_okD(6) [OF ok this] same gone show ?thesis by auto
      qed
      show "snapOk r i (su_effect s)" if "s \<in> set (bo_delivering (suspend input out b'))" for s
        using that car boundary_okD(3) [OF ok, of s] b'(3)
        by (auto simp: suspend_def carries_def split: EffectReply.splits)
      show "snapOk r i (su_effect s)" if "s \<in> set (bo_running (suspend input out b'))" for s
        using that car boundary_okD(4) [OF ok, of s] b'(2)
        by (auto simp: suspend_def carries_def split: EffectReply.splits)
    qed (use rows own ids boundary_okD(5) [OF ok] in simp_all)
    moreover have "P" if "fst out = Dispatching e n \<and> we_id e = i" for e n P using still(2) that by blast
    ultimately show ?thesis using same still(1) by (intro conjI allI impI) (auto simp: effectMove_def)
  next
    case here
    then have before: "statusIn b i \<in> {None, Some effect_pending}"
      and there: "statusIn b i = None \<Longrightarrow> \<not> runGone r (bo_world b)"
      and after: "case fst out of Dispatching e n \<Rightarrow> we_id e = i \<and> effectStatus i (wx_effects (snd out)) = Some effect_dispatching
        | _ \<Rightarrow> effectStatus i (wx_effects (snd out)) \<in> {Some effect_pending, Some effect_blocked}"
      by (simp_all add: movesRow_def)
    have free: "i \<notin> set (runningIds b)" using before there boundary_okD(6) [OF ok] by auto
    have alive: "\<not> runGone r (bo_world b)" if "fst out = Dispatching e n" for e n
    proof -
      from that car have "snapOk r i e" "\<not> runGone (we_runId e) (snd out)" by (simp_all add: carries_def)
      moreover have "we_id e = i" using that after by simp
      ultimately have "\<not> runGone r (snd out)" by (simp add: snapOk_def)
      then show ?thesis using kept_gone [OF kept, of r] by blast
    qed
    have "boundary_ok r i (suspend input out b')"
    proof (rule boundary_okI)
      show "count_list (runningIds (suspend input out b')) i \<le> 1"
        using free b'(2) after by (simp add: suspend_running count_list_0_iff split: EffectReply.split)
      show "statusIn (suspend input out b') i = Some effect_dispatching \<or>
          (statusIn (suspend input out b') i = None \<and> runGone r (bo_world (suspend input out b')))"
        if "i \<in> set (runningIds (suspend input out b'))"
      proof -
        from that free b'(2) have "\<exists>e n. fst out = Dispatching e n"
          by (cases "fst out") (auto simp: suspend_running)
        with after show ?thesis by auto
      qed
      show "snapOk r i (su_effect s)" if "s \<in> set (bo_delivering (suspend input out b'))" for s
        using that car boundary_okD(3) [OF ok, of s] b'(3)
        by (auto simp: suspend_def carries_def split: EffectReply.splits)
      show "snapOk r i (su_effect s)" if "s \<in> set (bo_running (suspend input out b'))" for s
        using that car boundary_okD(4) [OF ok, of s] b'(2)
        by (auto simp: suspend_def carries_def split: EffectReply.splits)
    qed (use rows own in simp_all)
    moreover have "effectMove (statusIn b i) (statusIn (suspend input out b') i)"
      using before after by (auto simp: effectMove_def split: EffectReply.splits)
    ultimately show ?thesis using before there after alive by auto
  qed
  then show "boundary_ok r i (suspend input out b')" "effectMove (statusIn b i) (statusIn (suspend input out b') i)"
    "fst out = Dispatching e n \<Longrightarrow> we_id e = i \<Longrightarrow> statusIn b i \<in> {None, Some effect_pending} \<and>
       statusIn (suspend input out b') i = Some effect_dispatching \<and> \<not> runGone r (bo_world b)"
    "statusIn b i \<notin> {None, Some effect_pending} \<Longrightarrow>
       sql_get er_id i (wx_effects (bo_world (suspend input out b'))) = sql_get er_id i (wx_effects (bo_world b))"
    "runGone r (bo_world b) \<Longrightarrow> statusIn b i = None \<Longrightarrow> statusIn (suspend input out b') i = None"
    by (simp_all add: suspend_world)
qed

text \<open>What one step does to the effect, whatever the event.\<close>

definition stepSpec :: "string \<Rightarrow> string \<Rightarrow> 'w BoundaryEvent \<Rightarrow> 'w Boundary \<Rightarrow> 'w Boundary \<Rightarrow> bool" where
  "stepSpec r i ev b b' = (boundary_ok r i b' \<and>
     (effectMove (statusIn b i) (statusIn b' i) \<or>
      (statusIn b' i = None \<and> \<not> runGone r (bo_world b) \<and> runGone r (bo_world b') \<and> (\<exists>f. ev = BeTables (OpDeleteFlow f)))) \<and>
     (runGone r (bo_world b) \<longrightarrow> runGone r (bo_world b') \<and> (statusIn b i = None \<longrightarrow> statusIn b' i = None)) \<and>
     (\<forall>s. statusIn b i = Some s \<and> settledStatus s \<longrightarrow>
        sql_get er_id i (wx_effects (bo_world b')) = sql_get er_id i (wx_effects (bo_world b)) \<or> runGone r (bo_world b')))"

lemma stepSpecD:
  assumes "stepSpec r i ev b b'"
  shows "boundary_ok r i b'" "runGone r (bo_world b) \<Longrightarrow> runGone r (bo_world b')"
    "runGone r (bo_world b) \<Longrightarrow> statusIn b i = None \<Longrightarrow> statusIn b' i = None"
    "statusIn b i = Some s \<Longrightarrow> settledStatus s \<Longrightarrow> \<not> runGone r (bo_world b') \<Longrightarrow>
       sql_get er_id i (wx_effects (bo_world b')) = sql_get er_id i (wx_effects (bo_world b))"
proof -
  note parts = assms [unfolded stepSpec_def]
  show "boundary_ok r i b'" using parts by (rule conjunct1)
  from parts have gone: "runGone r (bo_world b) \<longrightarrow> runGone r (bo_world b') \<and> (statusIn b i = None \<longrightarrow> statusIn b' i = None)"
    and row: "\<forall>s. statusIn b i = Some s \<and> settledStatus s \<longrightarrow>
      sql_get er_id i (wx_effects (bo_world b')) = sql_get er_id i (wx_effects (bo_world b)) \<or> runGone r (bo_world b')"
    by - (drule conjunct2, drule conjunct2, erule conjunct1, drule conjunct2, drule conjunct2, erule conjunct2)
  show "runGone r (bo_world b')" if "runGone r (bo_world b)" using gone that by simp
  show "statusIn b' i = None" if "runGone r (bo_world b)" "statusIn b i = None" using gone that by simp
  show "sql_get er_id i (wx_effects (bo_world b')) = sql_get er_id i (wx_effects (bo_world b))"
    if "statusIn b i = Some s" "settledStatus s" "\<not> runGone r (bo_world b')"
    using row that by blast
qed

lemma stepSpec_quiet:
  assumes "boundary_ok r i b" "wx_effects (bo_world b') = wx_effects (bo_world b)" "runGone r (bo_world b) \<longrightarrow> runGone r (bo_world b')"
    "set (bo_delivering b') \<subseteq> set (bo_delivering b)" "bo_running b' = bo_running b \<or> bo_running b' = []"
  shows "stepSpec r i ev b b'"
proof -
  have "boundary_ok r i b'" using assms by (auto simp: boundary_ok_def)
  with assms(2,3) show ?thesis by (simp add: stepSpec_def effectMove_def)
qed

lemma stepSpec_call:
  assumes ok: "boundary_ok r i b" and spec: "callSpec r i (bo_world b) out"
    and b': "bo_world b' = bo_world b" "bo_running b' = bo_running b" "set (bo_delivering b') \<subseteq> set (bo_delivering b)"
  shows "stepSpec r i ev b (suspend input out b')"
proof -
  note step = call_step [OF ok spec b']
  have "s \<notin> {effect_pending}" if "settledStatus s" for s using that by (auto simp: settledStatus_def)
  with step(4) [of input] have settled: "\<forall>s. statusIn b i = Some s \<and> settledStatus s \<longrightarrow>
      sql_get er_id i (wx_effects (bo_world (suspend input out b'))) = sql_get er_id i (wx_effects (bo_world b))"
    by auto
  show ?thesis unfolding stepSpec_def using step(1,2,5,6) [of input] settled by blast
qed

lemma settled_not_running:
  assumes "boundary_ok r i b" "statusIn b i = Some s" "settledStatus s"
  shows "i \<notin> set (runningIds b)"
  using boundary_okD(6) [OF assms(1)] assms(2,3) by (auto simp: settledStatus_def)

lemma stepSpec_finish:
  assumes ok: "boundary_ok r i b" and n: "n < length (bo_running b)"
    and fin: "finishSpec (su_effect (bo_running b ! n)) (bo_world b) st'"
  shows "stepSpec r i ev b (b\<lparr>bo_world := st', bo_running := dropNth n (bo_running b)\<rparr>)"
proof -
  let ?e = "su_effect (bo_running b ! n)"
  let ?b = "b\<lparr>bo_world := st', bo_running := dropNth n (bo_running b)\<rparr>"
  have rows: "rows_ok (wx_effects (bo_world b))" by (rule boundary_okD(1) [OF ok])
  have own: "owned r i (wx_effects (bo_world b))" by (rule boundary_okD(2) [OF ok])
  have snap: "snapOk r i ?e" using boundary_okD(4) [OF ok] n by simp
  note fs = finish_status [OF rows fin]
  have db: "wx_db st' = wx_db (bo_world b)" using fin by (simp add: finishSpec_def)
  have ids: "runningIds ?b = dropNth n (runningIds b)" by (simp add: dropNth_map)
  have count: "count_list (runningIds b) i = count_list (runningIds ?b) i + (if we_id ?e = i then 1 else 0)"
    using dropNth_count [of n "runningIds b" i] n unfolding ids by simp
  have running: "we_id ?e = i \<Longrightarrow> i \<in> set (runningIds b)" using n by auto
  have gone: "runGone r (bo_world ?b) = runGone r (bo_world b)" using db by (simp add: runGone_def)
  have same: "effectStatus i (wx_effects st') = statusIn b i" if "we_id ?e \<noteq> i"
    using fs(2) [of i] that by (auto simp: effectStatus_def)
  have "boundary_ok r i ?b"
  proof (rule boundary_okI)
    show "snapOk r i (su_effect s)" if "s \<in> set (bo_running ?b)" for s
      using boundary_okD(4) [OF ok, of s] dropNth_mem [of n "bo_running b"] that by auto
    show "count_list (runningIds ?b) i \<le> 1" using count boundary_okD(5) [OF ok] by linarith
    show "statusIn ?b i = Some effect_dispatching \<or> (statusIn ?b i = None \<and> runGone r (bo_world ?b))"
      if "i \<in> set (runningIds ?b)"
    proof -
      from that have "count_list (runningIds ?b) i \<noteq> 0" by (simp only: count_list_0_iff) blast
      with count boundary_okD(5) [OF ok] have "we_id ?e \<noteq> i" by (auto split: if_splits)
      moreover have "i \<in> set (runningIds b)" using that dropNth_mem [of n "runningIds b"] unfolding ids by blast
      ultimately show ?thesis using boundary_okD(6) [OF ok] same gone by simp
    qed
  qed (use fs(1) fs(5) [OF own snap] boundary_okD(3) [OF ok] in simp_all)
  moreover have "effectMove (statusIn b i) (statusIn ?b i) \<and> (runGone r (bo_world b) \<and> statusIn b i = None \<longrightarrow> statusIn ?b i = None) \<and>
      (\<forall>s. statusIn b i = Some s \<and> settledStatus s \<longrightarrow> sql_get er_id i (wx_effects st') = sql_get er_id i (wx_effects (bo_world b)))"
  proof (cases "we_id ?e = i")
    case True
    with snap have r: "we_runId ?e = r" by (simp add: snapOk_def)
    from boundary_okD(6) [OF ok running [OF True]] show ?thesis
    proof
      assume d: "statusIn b i = Some effect_dispatching"
      with fs(3) True obtain s where "effectStatus i (wx_effects st') = Some s" "settledStatus s" by auto
      with d show ?thesis by (auto simp: effectMove_def settledStatus_def)
    next
      assume "statusIn b i = None \<and> runGone r (bo_world b)"
      with fs(4) True r show ?thesis by (simp add: effectMove_def)
    qed
  next
    case False
    with same fs(2) [of i] show ?thesis by (simp add: effectMove_def)
  qed
  ultimately show ?thesis unfolding stepSpec_def using gone by auto
qed

lemma stepSpec_tables:
  assumes ok: "boundary_ok r i b" and apart: "\<not> createsRun r op"
  shows "stepSpec r i (BeTables op) b (b\<lparr>bo_world := tablesStep op (bo_world b)\<rparr>)"
proof (cases "\<exists>f. op = OpDeleteFlow f")
  case False
  then have "wx_effects (tablesStep op (bo_world b)) = wx_effects (bo_world b)"
    by (cases op) (simp_all add: tablesStep_def)
  moreover have "wx_db (tablesStep op (bo_world b)) = wfOp op (wx_db (bo_world b))" by (simp add: tablesStep_def)
  ultimately show ?thesis using gone_forever [OF _ apart] by (intro stepSpec_quiet [OF ok]) (simp_all add: runGone_def)
next
  case True
  then obtain f where op: "op = OpDeleteFlow f" ..
  let ?st = "tablesStep op (bo_world b)" and ?b = "b\<lparr>bo_world := tablesStep op (bo_world b)\<rparr>"
  define dead where "dead = fr_id ` {x \<in> set (wd_runs (wx_db (bo_world b))). fr_flow_id x = f}"
  have rows: "wx_effects ?st = filter (\<lambda>q. er_run_id q \<notin> dead) (wx_effects (bo_world b))"
    and db: "getFlowRun (wx_db ?st) r = (if r \<in> dead then None else getFlowRun (wx_db (bo_world b)) r)"
    by (simp_all add: tablesStep_def op dead_def delete_lookups)
  have d: "distinct (map er_id (wx_effects (bo_world b)))" using boundary_okD(1) [OF ok] by (simp add: rows_ok_def)
  have ok': "rows_ok (wx_effects ?st)" using boundary_okD(1) [OF ok] unfolding rows rows_ok_def
    by (auto simp: distinct_map_filter)
  have sub: "sql_get er_id i (wx_effects ?st) =
      (case sql_get er_id i (wx_effects (bo_world b)) of Some q \<Rightarrow> if er_run_id q \<notin> dead then Some q else None | None \<Rightarrow> None)"
  proof (cases "sql_get er_id i (wx_effects (bo_world b))")
    case None
    then have "sql_get er_id i (wx_effects ?st) = None" unfolding rows by (auto simp: sql_get_none)
    with None show ?thesis by simp
  next
    case (Some q)
    from sql_get_key [OF Some] have q: "er_id q = i" "q \<in> set (wx_effects (bo_world b))" by simp_all
    show ?thesis
    proof (cases "er_run_id q \<in> dead")
      case True
      have "x = q" if "x \<in> set (wx_effects (bo_world b))" "er_id x = i" for x
        using that q d by (metis eq_key_imp_eq_value inj_on_eq_iff distinct_map)
      with True have "i \<notin> set (map er_id (wx_effects ?st))" unfolding rows by auto
      with Some True show ?thesis by (simp add: sql_get_none)
    next
      case False
      have "distinct (map er_id (wx_effects ?st))" using ok' by (simp add: rows_ok_def)
      from sql_get_mem [OF this, of q i] False q Some show ?thesis unfolding rows by simp
    qed
  qed
  have own: "owned r i (wx_effects (bo_world b))" by (rule boundary_okD(2) [OF ok])
  have row: "sql_get er_id i (wx_effects ?st) = (if r \<in> dead then None else sql_get er_id i (wx_effects (bo_world b)))"
    using own unfolding sub by (auto simp: owned_def split: option.split)
  have status: "statusIn ?b i = (if r \<in> dead then None else statusIn b i)"
    using row by (simp add: effectStatus_def)
  have gone: "runGone r (bo_world ?b) \<longleftrightarrow> r \<in> dead \<or> runGone r (bo_world b)" using db by (simp add: runGone_def)
  have "boundary_ok r i ?b"
  proof (rule boundary_okI)
    show "owned r i (wx_effects (bo_world ?b))" using own row by (auto simp: owned_def split: if_splits)
    show "statusIn ?b i = Some effect_dispatching \<or> (statusIn ?b i = None \<and> runGone r (bo_world ?b))" if "i \<in> set (runningIds ?b)"
      using boundary_okD(6) [OF ok] that status gone by auto
  qed (use ok' boundary_okD(3-5) [OF ok] in simp_all)
  moreover have "effectMove (statusIn b i) (statusIn ?b i) \<or>
      (statusIn ?b i = None \<and> \<not> runGone r (bo_world b) \<and> runGone r (bo_world ?b) \<and> (\<exists>f. BeTables op = BeTables (OpDeleteFlow f)))"
  proof (cases "r \<in> dead")
    case True
    then have "\<not> runGone r (bo_world b)"
      by (auto simp: runGone_def dead_def getFlowRun_def sql_get_none)
    with True status gone op show ?thesis by auto
  next
    case False
    then have "effectMove (statusIn b i) (statusIn ?b i)" unfolding status by (simp add: effectMove_def)
    then show ?thesis ..
  qed
  ultimately show ?thesis unfolding stepSpec_def using status gone row by (auto split: if_splits)
qed

lemma boundary_step:
  assumes ok: "boundary_ok r i b" and apart: "apart sha r i ev"
  shows "stepSpec r i ev b (boundaryStep sha ev b)"
proof -
  note rows = boundary_okD(1) [OF ok] and own = boundary_okD(2) [OF ok]
  show ?thesis
  proof (cases ev)
    case (BeTables op)
    with apart stepSpec_tables [OF ok] show ?thesis by (simp add: apart_def)
  next
    case (BeInvoke deps turn input)
    with apart have "ec_runId (iv_context input) = r \<or> callId sha input \<noteq> Some i" by (simp add: apart_def)
    from stepSpec_call [OF ok callSpec_start [OF rows own this]] BeInvoke show ?thesis by simp
  next
    case (BeDelivered n turn)
    show ?thesis
    proof (cases "n < length (bo_delivering b)")
      case True
      let ?b = "b\<lparr>bo_delivering := dropNth n (bo_delivering b)\<rparr>"
      have b': "bo_world ?b = bo_world b" "bo_running ?b = bo_running b" "set (bo_delivering ?b) \<subseteq> set (bo_delivering b)"
        by (simp_all add: dropNth_mem)
      have "snapOk r i (su_effect (bo_delivering b ! n))" using boundary_okD(3) [OF ok] True by simp
      from stepSpec_call [OF ok callSpec_resume [OF rows own this] b'] True BeDelivered show ?thesis by (simp add: Let_def)
    qed (use ok BeDelivered in \<open>simp add: stepSpec_quiet\<close>)
  next
    case (BeFinished n turn outcome)
    show ?thesis
    proof (cases "n < length (bo_running b)")
      case True
      from stepSpec_finish [OF ok True finish_spec] True BeFinished show ?thesis by (simp add: Let_def)
    qed (use ok BeFinished in \<open>simp add: stepSpec_quiet\<close>)
  qed (use ok in \<open>simp_all add: stepSpec_quiet runGone_def\<close>)
qed

lemma boundary_run:
  "boundary_ok r i b \<Longrightarrow> list_all (apart sha r i) evs \<Longrightarrow> boundary_ok r i (fold (boundaryStep sha) evs b)"
proof (induction evs arbitrary: b)
  case (Cons ev evs)
  then have legal: "apart sha r i ev" and rest: "list_all (apart sha r i) evs" by simp_all
  from Cons.IH [OF stepSpecD(1) [OF boundary_step [OF Cons.prems(1) legal]] rest] show ?case by simp
qed simp

lemma dispatch_step:
  assumes ok: "boundary_ok r i b" and apart: "apart sha r i ev" and win: "dispatches sha i ev b"
  shows "statusIn b i \<in> {None, Some effect_pending} \<and> \<not> runGone r (bo_world b) \<and>
    statusIn (boundaryStep sha ev b) i = Some effect_dispatching"
proof -
  note rows = boundary_okD(1) [OF ok] and own = boundary_okD(2) [OF ok]
  from win obtain out e n where out: "callOut sha ev b = Some out" "fst out = Dispatching e n" "we_id e = i"
    by (auto simp: dispatches_def split: option.splits EffectReply.splits)
  show ?thesis
  proof (cases ev)
    case (BeInvoke deps turn input)
    with out have o: "out = startEffect sha deps turn input (bo_world b)" by (simp add: callOut_def)
    from BeInvoke apart have "ec_runId (iv_context input) = r \<or> callId sha input \<noteq> Some i" by (simp add: apart_def)
    from call_step(3) [OF ok callSpec_start [OF rows own this] refl refl _ out(2) [unfolded o] out(3)] BeInvoke show ?thesis by simp
  next
    case (BeDelivered m turn)
    let ?s = "bo_delivering b ! m" and ?b = "b\<lparr>bo_delivering := dropNth m (bo_delivering b)\<rparr>"
    from BeDelivered out have m: "m < length (bo_delivering b)"
      and o: "out = resumeEffect sha turn (su_input ?s) (su_name ?s) (su_effect ?s) (bo_world b)"
      by (auto simp: callOut_def Let_def split: if_splits)
    have b': "bo_world ?b = bo_world b" "bo_running ?b = bo_running b" "set (bo_delivering ?b) \<subseteq> set (bo_delivering b)"
      by (simp_all add: dropNth_mem)
    have "snapOk r i (su_effect ?s)" using boundary_okD(3) [OF ok] m by simp
    from call_step(3) [OF ok callSpec_resume [OF rows own this] b' out(2) [unfolded o] out(3)] BeDelivered m show ?thesis
      by (simp add: Let_def)
  qed (use out(1) in \<open>simp_all add: callOut_def\<close>)
qed

definition spentEffect :: "string \<Rightarrow> string \<Rightarrow> 'w Boundary \<Rightarrow> bool" where
  "spentEffect r i b = (statusIn b i \<notin> {None, Some effect_pending} \<or> runGone r (bo_world b))"

interpretation effectDispatch: guarded_one_shot "boundaryStep sha" "dispatches sha i" "spentEffect r i" "boundary_ok r i"
  "apart sha r i" for sha r i
proof unfold_locales
  fix b :: "'w Boundary" and ev :: "'w BoundaryEvent"
  assume ok: "boundary_ok r i b" and legal: "apart sha r i ev"
  note step = boundary_step [OF ok legal, unfolded stepSpec_def]
  from step show "boundary_ok r i (boundaryStep sha ev b)" by blast
  show "spentEffect r i (boundaryStep sha ev b)" if "dispatches sha i ev b"
    using dispatch_step [OF ok legal that] by (simp add: spentEffect_def)
  show "spentEffect r i (boundaryStep sha ev b)" if "spentEffect r i b"
    using step that by (auto simp: spentEffect_def effectMove_def)
  show "\<not> dispatches sha i ev b" if "spentEffect r i b"
    using dispatch_step [OF ok legal] that by (auto simp: spentEffect_def)
qed

text \<open>A run that is gone stays gone, and a settled row stays as it is until its run is deleted.\<close>

lemma gone_run:
  assumes "boundary_ok r i b" "list_all (apart sha r i) evs" "runGone r (bo_world b)"
  shows "runGone r (bo_world (fold (boundaryStep sha) evs b)) \<and>
    (statusIn b i = None \<longrightarrow> statusIn (fold (boundaryStep sha) evs b) i = None)"
  using assms
proof (induction evs arbitrary: b)
  case (Cons ev evs)
  then have legal: "apart sha r i ev" and rest: "list_all (apart sha r i) evs" by simp_all
  note step = stepSpecD [OF boundary_step [OF Cons.prems(1) legal]]
  from Cons.IH [OF step(1) rest step(2) [OF Cons.prems(3)]] step(3) [OF Cons.prems(3)] show ?case by simp
qed simp

lemma settled_run:
  assumes "boundary_ok r i b" "list_all (apart sha r i) evs" "statusIn b i = Some s" "settledStatus s"
    and "\<not> runGone r (bo_world (fold (boundaryStep sha) evs b))"
  shows "sql_get er_id i (wx_effects (bo_world (fold (boundaryStep sha) evs b))) = sql_get er_id i (wx_effects (bo_world b))"
  using assms
proof (induction evs arbitrary: b)
  case (Cons ev evs)
  let ?b = "boundaryStep sha ev b"
  from Cons.prems(2) have legal: "apart sha r i ev" and rest: "list_all (apart sha r i) evs" by simp_all
  note step = stepSpecD [OF boundary_step [OF Cons.prems(1) legal]]
  have later: "\<not> runGone r (bo_world (fold (boundaryStep sha) evs ?b))" using Cons.prems(5) by simp
  with gone_run [OF step(1) rest] have alive: "\<not> runGone r (bo_world ?b)" by blast
  have row: "sql_get er_id i (wx_effects (bo_world ?b)) = sql_get er_id i (wx_effects (bo_world b))"
    by (rule step(4) [OF Cons.prems(3,4) alive])
  then have "statusIn ?b i = Some s" using Cons.prems(3) by (simp add: effectStatus_def)
  from Cons.IH [OF step(1) rest this Cons.prems(4) later] row
  show ?case by (simp only: fold_Cons comp_apply)
qed simp

end
