(* ===== verification/Effect_Properties.thy ===== *)
theory Effect_Properties
  imports Effect_Process
begin

text \<open>
  What the effect boundary promises: no effect without licence, at most one dispatch of each effect, the life
  cycle of an effect as an abstract automaton, and the record of its outcome that every later call is answered from.
\<close>


section \<open>An example\<close>

text \<open>A run with one step that sends a message, whose caller asks for a review.\<close>

definition mail_flow :: json where
  "mail_flow = JObj [(''name'', JStr ''trigger''), (''nextAction'', JObj [(''name'', JStr ''send''),
     (''settings'', JObj [(''pieceName'', JStr ''mail''), (''actionName'', JStr ''send'')])])]"

definition mail_version :: "string \<Rightarrow> FlowVersion option" where
  "mail_version i = (if i = ''v'' then Some \<lparr> fv_id = ''v'', fv_flowId = ''f'', fv_displayName = ''Mail'', fv_trigger = mail_flow \<rparr>
     else None)"

definition mail_db :: WorkflowDb where
  "mail_db = wfRun [OpCreateRun ''r'' 1 plain_run, OpUpdateRun 2 ''r'' (noPatch\<lparr>up_status := Some run_running\<rparr>)] emptyDb"

definition mail_world :: "unit EffectWorld" where
  "mail_world = \<lparr> wx_db = mail_db, wx_versions = mail_version, wx_effects = [],
     wx_approvals = \<lparr> am_bootId = ''b'', am_rows = [], am_uiExecutions = [] \<rparr>, wx_audit = [],
     wx_config = example_config, wx_emergency = normal, wx_world = () \<rparr>"

definition mail_call :: "unit EffectInvocation" where
  "mail_call = \<lparr> iv_context = \<lparr> ec_runId = ''r'', ec_projectId = DEFAULT_PROJECT, ec_sandboxId = None,
       ec_stepName = Some ''send'', ec_executionPath = Some [] \<rparr>,
     iv_piece = ''mail'', iv_action = ''send'', iv_route = ''tool'', iv_toolName = ''send_mail'', iv_category = send_message,
     iv_toolCategory = ''comms'', iv_categories = None, iv_request = JNull, iv_confirmation = None,
     iv_prepare = (\<lambda>_. Inr (JObj [(''to'', JStr ''bob'')], JObj [])), iv_validateTarget = None, iv_principal = None,
     iv_approvalRequired = True \<rparr>"

definition mail_turn :: "int \<Rightarrow> EffectTurn" where
  "mail_turn now = \<lparr> ft_hour = 9, ft_now = now, ft_auditId = ''u'', ft_requestId = ''q'', ft_waitpointId = ''w'' \<rparr>"

definition all_deps :: BoundaryDeps where
  "all_deps = \<lparr> bd_ready = True, bd_approvals = True \<rparr>"

definition mail_start :: "unit Boundary" where
  "mail_start = \<lparr> bo_world = mail_world, bo_delivering = [], bo_running = [] \<rparr>"

abbreviation mail_invoke :: "int \<Rightarrow> unit BoundaryEvent" where
  "mail_invoke now \<equiv> BeInvoke all_deps (mail_turn now) mail_call"

text \<open>The call asks, is delivered, waits, is approved, and dispatched by the next call of the resumed run.\<close>

definition mail_events :: "unit BoundaryEvent list" where
  "mail_events = [mail_invoke 3, BeDelivered 0 (mail_turn 4), BeApproval (\<lambda>_. []) (OpApprove ''q'' ''user'' 5)]"

lemma mail_ok: "boundary_ok r i mail_start"
  by (rule boundary_ok_empty) (simp_all add: mail_start_def mail_world_def)

definition mail_id :: string where
  "mail_id = workflowEffectId id ''r'' ''send'' [] ''tool''"

lemma mail_dispatches: "dispatches id mail_id (mail_invoke 6) (fold (boundaryStep id) mail_events mail_start)"
  by code_simp

lemma mail_apart: "list_all (apart id ''r'' mail_id) mail_events" "apart id ''r'' mail_id (mail_invoke now)"
  "apart id ''r'' mail_id BeCrash" "apart id ''r'' mail_id (BeTables (OpDeleteFlow f))" "apart id ''r'' mail_id (BeFinished n turn out)"
  by (simp_all add: mail_events_def apart_def mail_call_def)


section \<open>Licence\<close>

text \<open>C4: no workflow effect without licence.  When a call, fresh or resumed after the delivery of its approval,
  dispatches an effect, then in that very state the emergency switch and the configuration are normal, the run is
  running and not canceled, every category the effect reaches is allowed to the principal it runs as, and if any
  category, the calling gate or a mandatory review asks for a person, then the effect carries an approval that
  is approved, was made for workflows, shows these arguments, and is one only a click can give when the review is
  mandatory.\<close>

theorem effect_dispatch_licensed:
  assumes "startEffect sha deps turn input st = (Dispatching e n, st') \<or>
    resumeEffect sha turn input name e0 st = (Dispatching e n, st')"
  shows "wx_emergency st' = normal \<and> cfg_emergency_state (wx_config st') = normal \<and>
    (\<exists>run. getFlowRun (wx_db st') (we_runId e) = Some run \<and> fr_status run = run_running) \<and>
    getRunCancellation (wx_db st') (we_runId e) = None \<and>
    (\<forall>c \<in> set (effectCategories input). allowed (effectCheck (ft_hour turn) input e st' c)) \<and>
    (iv_confirmation input \<noteq> None \<or> iv_approvalRequired input \<or>
       (\<exists>c \<in> set (effectCategories input). requiresApproval (effectCheck (ft_hour turn) input e st' c)) \<longrightarrow>
     (\<exists>a r. we_approvalId e = Some a \<and> getRequest (wx_approvals st') a = Some r \<and> ar_status r = approved \<and>
        ar_execution_mode r = workflow \<and> argumentsMatch sha r e \<and>
        (iv_confirmation input \<noteq> None \<longrightarrow> approvalNeedsClick (ar_context r))))"
proof -
  from assms start_licensed resume_licensed have "licensed sha (ft_hour turn) input e st'" by blast
  then show ?thesis unfolding licensed_def mustAsk_def reviewed_def by blast
qed

definition mail_before :: "unit EffectWorld" where
  "mail_before = bo_world (fold (boundaryStep id) mail_events mail_start)"

lemma mail_goes: "case startEffect id all_deps (mail_turn 6) mail_call mail_before of (Dispatching e n, st) \<Rightarrow> True | _ \<Rightarrow> False"
  by code_simp

theorem effect_dispatch_licensed_witness:
  "\<exists>e n st a r. startEffect id all_deps (mail_turn 6) mail_call mail_before = (Dispatching e n, st) \<and>
     we_approvalId e = Some a \<and> getRequest (wx_approvals st) a = Some r \<and> ar_status r = approved"
proof -
  from mail_goes obtain e n st where s: "startEffect id all_deps (mail_turn 6) mail_call mail_before = (Dispatching e n, st)"
    by (auto split: prod.splits EffectReply.splits)
  have "iv_approvalRequired mail_call" by (simp add: mail_call_def)
  with effect_dispatch_licensed [OF disjI1 [OF s]] s show ?thesis by blast
qed


section \<open>At most one dispatch\<close>

text \<open>C5: an effect is dispatched at most once.  Let \<open>i\<close> be the id of an effect of run \<open>r\<close>.  Over any interleaving of
  any number of calls with deliveries, completions, crashes and the writes of everybody else, deletions of flows
  with their runs and effects included, at most one call dispatches \<open>i\<close>; an effect that is no longer pending is
  never dispatched again, also when a crash has left its outcome unknown, and neither is one whose run was
  deleted.  Assumed is what \<open>apart\<close> says: no second run gets the id of \<open>r\<close>, and the calls of other runs hash to
  other ids.\<close>

theorem effect_dispatched_once:
  assumes "boundary_ok r i b" "list_all (apart sha r i) evs"
  shows "win_count (boundaryStep sha) (dispatches sha i) evs b \<le> 1 \<and>
    (effectStatus i (wx_effects (bo_world b)) \<notin> {None, Some effect_pending} \<or> getFlowRun (wx_db (bo_world b)) r = None \<longrightarrow>
       win_count (boundaryStep sha) (dispatches sha i) evs b = 0)"
  using effectDispatch.count_le_1 [OF assms(2,1)] effectDispatch.spent_count [OF assms(2,1)]
  unfolding spentEffect_def runGone_def by blast

text \<open>The effect is dispatched, a crash loses the call, the flow is deleted, and further calls come.\<close>

theorem effect_dispatched_once_witness:
  "win_count (boundaryStep id) (dispatches id mail_id)
     (mail_events @ [mail_invoke 6, BeCrash, mail_invoke 7, BeTables (OpDeleteFlow ''f''), mail_invoke 8]) mail_start = 1"
proof -
  let ?evs = "mail_events @ [mail_invoke 6, BeCrash, mail_invoke 7, BeTables (OpDeleteFlow ''f''), mail_invoke 8]"
  have "list_all (apart id ''r'' mail_id) ?evs" by (simp add: mail_apart)
  from effect_dispatched_once [OF mail_ok this]
  have "win_count (boundaryStep id) (dispatches id mail_id) ?evs mail_start \<le> 1" by blast
  moreover have "win_count (boundaryStep id) (dispatches id mail_id) ?evs mail_start \<noteq> 0"
    by code_simp
  ultimately show ?thesis by linarith
qed

text \<open>The deletion of the flow takes the row away.\<close>

lemma mail_deleted:
  "statusIn (fold (boundaryStep id) (mail_events @ [mail_invoke 6]) mail_start) mail_id = Some effect_dispatching"
  "statusIn (fold (boundaryStep id) (mail_events @ [mail_invoke 6, BeTables (OpDeleteFlow ''f'')]) mail_start) mail_id = None"
  by code_simp+


section \<open>The life cycle\<close>

text \<open>C9: the table of effects implements one automaton for each effect.  From any state the process reaches, every
  step, whatever it is, moves the effect \<open>i\<close> of run \<open>r\<close> at most from unrecorded or pending to pending, blocked or
  dispatching, and from dispatching to one of the four outcomes, which is never left; or it is the deletion of the
  flow of the run, which removes row and run together, and neither comes back.  At most one call runs
  the effect, and while one does the row says dispatching, unless row and run were deleted meanwhile.  Assumed is what
  \<open>apart\<close> says of the id of the run and of the calls of other runs.\<close>

theorem effect_automaton:
  assumes "boundary_ok r i b" "list_all (apart sha r i) evs" "apart sha r i ev"
    and "fold (boundaryStep sha) evs b = b0" "boundaryStep sha ev b0 = b1"
  shows "(effectMove (effectStatus i (wx_effects (bo_world b0))) (effectStatus i (wx_effects (bo_world b1))) \<or>
      (effectStatus i (wx_effects (bo_world b1)) = None \<and> (\<exists>f. ev = BeTables (OpDeleteFlow f)) \<and>
       getFlowRun (wx_db (bo_world b0)) r \<noteq> None \<and> getFlowRun (wx_db (bo_world b1)) r = None)) \<and>
    (getFlowRun (wx_db (bo_world b0)) r = None \<longrightarrow> getFlowRun (wx_db (bo_world b1)) r = None \<and>
      (effectStatus i (wx_effects (bo_world b0)) = None \<longrightarrow> effectStatus i (wx_effects (bo_world b1)) = None)) \<and>
    length (filter (\<lambda>s. we_id (su_effect s) = i) (bo_running b0)) \<le> 1 \<and>
    (\<forall>s \<in> set (bo_running b0). we_id (su_effect s) = i \<longrightarrow>
       effectStatus i (wx_effects (bo_world b0)) = Some effect_dispatching \<or>
       (effectStatus i (wx_effects (bo_world b0)) = None \<and> getFlowRun (wx_db (bo_world b0)) r = None))"
proof -
  have ok: "boundary_ok r i b0" using boundary_run [OF assms(1,2)] unfolding assms(4) .
  have step: "stepSpec r i ev b0 b1" using boundary_step [OF ok assms(3)] unfolding assms(5) .
  have "length (filter (\<lambda>s. we_id (su_effect s) = i) (bo_running b0)) = count_list (runningIds b0) i"
    by (simp add: count_list_eq_length_filter filter_map comp_def eq_commute)
  moreover have "i \<in> set (runningIds b0)" if "s \<in> set (bo_running b0)" "we_id (su_effect s) = i" for s
    using that by auto
  ultimately show ?thesis
    using step boundary_okD(5,6) [OF ok] unfolding stepSpec_def runGone_def by auto
qed

theorem effect_automaton_witness:
  "effectMove (Some effect_pending) (effectStatus mail_id (wx_effects (bo_world
     (boundaryStep id (mail_invoke 6) (fold (boundaryStep id) mail_events mail_start)))))"
proof -
  have "effectStatus mail_id (wx_effects (bo_world (fold (boundaryStep id) mail_events mail_start))) = Some effect_pending"
    by code_simp
  with effect_automaton [OF mail_ok mail_apart(1,2) refl refl, of 6] show ?thesis by simp
qed


section \<open>The outcome\<close>

text \<open>What a later call of the same effect answers, by how the dispatch ended.\<close>

definition replayOf :: "EffectThrow + json option \<Rightarrow> EffectReply" where
  "replayOf outcome = (case outcome of
     Inr r \<Rightarrow> Replied (js_or r JNull)
   | Inl (OutcomeThrow f) \<Rightarrow> Raised (OutcomeThrow f)
   | Inl (ErrorThrow msg) \<Rightarrow> Raised (ErrorThrow (''Effect dispatch failed; partial effects may have occurred: '' @ msg)))"

lemma finish_record:
  assumes ok: "rows_ok (wx_effects st)" and here: "effectStatus (we_id e) (wx_effects st) \<noteq> None"
    and none: "we_outcome e = None"
  shows "\<exists>e'. getWorkflowEffect (we_id e) (wx_effects (snd (finishEffect turn input name e outcome st))) = Some e' \<and>
    settledEffect e' \<and> (\<forall>t. settledReply t e' = replayOf outcome) \<and> we_requestDigest e' = we_requestDigest e \<and>
    we_versionDigest e' = we_versionDigest e \<and> we_toolName e' = we_toolName e \<and> we_actionCategory e' = we_actionCategory e \<and>
    we_approvalId e' = we_approvalId e \<and>
    wx_audit (snd (finishEffect turn input name e outcome st)) = wx_audit st @
      [auditRow (ft_auditId turn) (ft_now turn) (effectEntry input name e' (\<exists>r. outcome = Inr r))]"
proof -
  have saved: "\<exists>rows. saveWorkflowEffect (wx_db st) e' (wx_effects st) = Some rows" if "we_id e' = we_id e" for e'
    using save_present [of e' "wx_effects st" "wx_db st"] here that by simp
  show ?thesis
  proof (cases outcome)
    case (Inr r)
    define e' where "e' = e\<lparr>we_result := Some (js_or r JNull), we_status := effect_succeeded, we_finishedAt := Some (ft_now turn)\<rparr>"
    obtain rows where rows: "saveWorkflowEffect (wx_db st) e' (wx_effects st) = Some rows"
      using saved [of e'] by (auto simp: e'_def)
    from save_status(2) [OF ok rows] have "getWorkflowEffect (we_id e) rows = Some e'" by (simp add: e'_def)
    with rows Inr show ?thesis
      by (intro exI [of _ e'])
         (simp add: finishEffect_def Let_def e'_def [symmetric], simp add: e'_def settledEffect_def settledReply_def replayOf_def
            js_or_def logEffect_def audit_log_def effectEntry_def)
  next
    case (Inl t)
    define e' where "e' = (case t of
            OutcomeThrow f \<Rightarrow> e\<lparr>we_outcome := Some f,
              we_status := (case acf_status f of outcome_error \<Rightarrow> effect_failed | outcome_blocked \<Rightarrow> effect_blocked
                              | outcome_unknown \<Rightarrow> effect_unknown),
              we_error := Some (outcomeMessage f)\<rparr>
          | ErrorThrow msg \<Rightarrow> e\<lparr>we_status := effect_failed,
              we_error := Some (''Effect dispatch failed; partial effects may have occurred: '' @ msg)\<rparr>)
        \<lparr>we_finishedAt := Some (ft_now turn)\<rparr>"
    have id: "we_id e' = we_id e" by (simp add: e'_def split: EffectThrow.split)
    obtain rows where rows: "saveWorkflowEffect (wx_db st) e' (wx_effects st) = Some rows" using saved [OF id] ..
    from save_status(2) [OF ok rows] id have "getWorkflowEffect (we_id e) rows = Some e'" by simp
    with rows Inl show ?thesis
      by (intro exI [of _ e'])
         (simp add: finishEffect_def failEffect_def Let_def savingEffect_def e'_def [symmetric],
          simp add: e'_def none settledEffect_def settledReply_def replayOf_def js_or_def logEffect_def audit_log_def
            split: EffectThrow.split FailureStatus.split)
  qed
qed

text \<open>The receipt of an approval: what a committed execution makes of its row, and of no other.\<close>

definition receipted :: "string option \<Rightarrow> int \<Rightarrow> string \<Rightarrow> json option \<Rightarrow> ApprovalRequest \<Rightarrow> ApprovalRequest" where
  "receipted approval now i v q =
     (if approval = Some (ar_id q) \<and> ar_status q = approved then
        q\<lparr>ar_status := executed, ar_executed_at := Some now, ar_outcome := Some (Receipt committed),
          ar_execution_result := Some (take 2000 (canonicalJson (JObj [(''effectId'', JStr i),
            (''result'', case v of None \<Rightarrow> JNull | Some x \<Rightarrow> x)])))\<rparr>
      else q)"

lemma finish_receipt:
  assumes "effectStatus (we_id e) (wx_effects st) \<noteq> None"
  shows "am_rows (wx_approvals (snd (finishEffect turn input name e outcome st))) =
    map (\<lambda>q. case outcome of Inr v \<Rightarrow> receipted (we_approvalId e) (ft_now turn) (we_id e) v q | Inl t \<Rightarrow> q)
      (am_rows (wx_approvals st))"
proof (cases outcome)
  case (Inl t)
  then show ?thesis
    by (simp add: finishEffect_def failEffect_def savingEffect_def Let_def logEffect_def split: option.split)
next
  case (Inr v)
  define e' where "e' = e\<lparr>we_result := Some (js_or v JNull), we_status := effect_succeeded, we_finishedAt := Some (ft_now turn)\<rparr>"
  obtain rows where rows: "saveWorkflowEffect (wx_db st) e' (wx_effects st) = Some rows"
    using save_present [of e' "wx_effects st" "wx_db st"] assms by (auto simp: e'_def)
  have id: "map (receipted None now i v) qs = qs" for now i qs by (simp add: receipted_def cong: map_cong)
  have some: "am_rows (snd (markExecuted a (receiptText e (js_or v JNull)) committed now am)) =
      map (receipted (Some a) now (we_id e) v) (am_rows am)" for a now and am :: "'a ApprovalManager"
    by (auto simp: markExecuted_def Let_def withRows_def dropUi_def sql_update_def receipted_def receiptText_def js_or_def
        split: option.split)
  show ?thesis using Inr rows
    by (simp add: finishEffect_def Let_def e'_def [symmetric] logEffect_def id some split: option.split)
qed

text \<open>C10: the outcome of a dispatch is recorded once and answers every later call.  When the callback of the effect \<open>i\<close> of
  run \<open>r\<close> ends while the run exists, one audit row says whether it was executed and under which approval; on success
  the approved request of the effect, if it has one, becomes executed with the receipt of effect and result, and no
  other request changes, and on failure none does.  And however long the process goes on afterwards, a call of the same
  effect with the same request changes nothing and answers the recorded result, the reported failure or the
  uncertainty about partial effects.  Assumed is what \<open>apart\<close> says of the id of the run and of the calls of other
  runs.\<close>

theorem effect_outcome_kept:
  assumes "boundary_ok r i b" "n < length (bo_running b)" "su_effect (bo_running b ! n) = e" "we_id e = i"
    and "getFlowRun (wx_db (bo_world b)) r \<noteq> None" "boundaryStep sha (BeFinished n turn outcome) b = b1"
  shows "(\<exists>row. wx_audit (bo_world b1) = wx_audit (bo_world b) @ [row] \<and>
      ae_executed row = (if \<exists>v. outcome = Inr v then 1 else 0) \<and> ae_approval_id row = we_approvalId e) \<and>
    am_rows (wx_approvals (bo_world b1)) =
      map (\<lambda>q. case outcome of Inr v \<Rightarrow> receipted (we_approvalId e) (ft_now turn) i v q | Inl t \<Rightarrow> q)
        (am_rows (wx_approvals (bo_world b))) \<and>
    (\<forall>evs b2 deps later call resolved.
       list_all (apart sha r i) evs \<and> fold (boundaryStep sha) evs b1 = b2 \<and> bd_ready deps \<and>
       apart sha r i (BeInvoke deps later call) \<and>
       resolveEffectContext sha (wx_versions (bo_world b2)) (iv_context call) (iv_piece call) (iv_action call)
         (wx_db (bo_world b2)) = Inr resolved \<and>
       workflowEffectId sha (fr_id (re_run resolved)) (re_stepName resolved) (re_executionPath resolved) (iv_route call) = i \<and>
       we_requestDigest e = digest sha (iv_request call) \<and> we_versionDigest e = re_versionDigest resolved \<and>
       we_toolName e = iv_toolName call \<and> we_actionCategory e = iv_category call \<longrightarrow>
       startEffect sha deps later call (bo_world b2) = (replayOf outcome, bo_world b2))"
proof -
  let ?s = "bo_running b ! n" and ?st = "bo_world b"
  have ok: "rows_ok (wx_effects ?st)" by (rule boundary_okD(1) [OF assms(1)])
  have running: "i \<in> set (runningIds b)" using assms(2-4) by auto
  with boundary_okD(6) [OF assms(1)] assms(5) have disp: "statusIn b i = Some effect_dispatching"
    by (simp add: runGone_def)
  then have here: "effectStatus (we_id e) (wx_effects ?st) \<noteq> None" using assms(4) by simp
  have fresh: "we_outcome e = None" using boundary_okD(4) [OF assms(1), of ?s] assms(2,3) by (auto simp: snapOk_def)
  have b1: "bo_world b1 = snd (finishEffect turn (su_input ?s) (su_name ?s) e outcome ?st)"
    using assms(2,3,6) by (auto simp: Let_def)
  from finish_record [OF ok here fresh, of turn "su_input ?s" "su_name ?s" outcome] obtain e' where e':
    "getWorkflowEffect i (wx_effects (bo_world b1)) = Some e'" "settledEffect e'" "\<And>t. settledReply t e' = replayOf outcome"
    "we_requestDigest e' = we_requestDigest e" "we_versionDigest e' = we_versionDigest e" "we_toolName e' = we_toolName e"
    "we_actionCategory e' = we_actionCategory e" "we_approvalId e' = we_approvalId e"
    "wx_audit (bo_world b1) = wx_audit ?st @ [auditRow (ft_auditId turn) (ft_now turn) (effectEntry (su_input ?s) (su_name ?s) e' (\<exists>v. outcome = Inr v))]"
    unfolding b1 assms(4) by blast
  have ok1: "boundary_ok r i b1"
    using stepSpecD(1) [OF boundary_step [OF assms(1), of sha "BeFinished n turn outcome"]] unfolding assms(6)
    by (simp add: apart_def)
  obtain s where s: "statusIn b1 i = Some s" "settledStatus s"
    using finish_status(3) [OF ok finish_spec here] unfolding b1 assms(4) by blast
  have later: "startEffect sha deps later call (bo_world b2) = (replayOf outcome, bo_world b2)"
    if run: "list_all (apart sha r i) evs" "fold (boundaryStep sha) evs b1 = b2" and ready: "bd_ready deps"
      and apart: "apart sha r i (BeInvoke deps later call)"
      and res: "resolveEffectContext sha (wx_versions (bo_world b2)) (iv_context call) (iv_piece call) (iv_action call)
         (wx_db (bo_world b2)) = Inr resolved"
      and id: "workflowEffectId sha (fr_id (re_run resolved)) (re_stepName resolved) (re_executionPath resolved) (iv_route call) = i"
      and same: "we_requestDigest e = digest sha (iv_request call)" "we_versionDigest e = re_versionDigest resolved"
        "we_toolName e = iv_toolName call" "we_actionCategory e = iv_category call"
    for evs b2 deps later call resolved
  proof -
    from apart resolve_callId [OF res] id have "ec_runId (iv_context call) = r" by (simp add: apart_def)
    with resolve_context(1) [OF res] have "\<not> runGone r (bo_world b2)" by (simp add: runGone_def)
    with settled_run [OF ok1 run(1) s] run(2) e'(1) have "getWorkflowEffect i (wx_effects (bo_world b2)) = Some e'"
      by (simp add: getWorkflowEffect_def)
    with ready res id same e'(2-7) show ?thesis by (simp add: startEffect_def Let_def)
  qed
  have rows: "am_rows (wx_approvals (bo_world b1)) =
      map (\<lambda>q. case outcome of Inr v \<Rightarrow> receipted (we_approvalId e) (ft_now turn) i v q | Inl t \<Rightarrow> q) (am_rows (wx_approvals ?st))"
    using finish_receipt [OF here] unfolding b1 assms(4) .
  have audit: "\<exists>row. wx_audit (bo_world b1) = wx_audit ?st @ [row] \<and>
      ae_executed row = (if \<exists>v. outcome = Inr v then 1 else 0) \<and> ae_approval_id row = we_approvalId e"
    using e'(8,9) by (auto simp: auditRow_def effectEntry_def)
  show ?thesis using audit rows later by blast
qed

definition mail_running :: "unit Boundary" where
  "mail_running = fold (boundaryStep id) (mail_events @ [mail_invoke 6]) mail_start"

definition mail_effect :: WorkflowEffect where
  "mail_effect = su_effect (hd (bo_running mail_running))"

definition mail_done :: "unit Boundary" where
  "mail_done = boundaryStep id (BeFinished 0 (mail_turn 7) (Inr (Some (JStr ''ok'')))) mail_running"

text \<open>A crash and the deletion of another flow come between the end of the effect and the next call.\<close>

definition mail_later :: "unit BoundaryEvent list" where
  "mail_later = [BeCrash, BeTables (OpDeleteFlow ''g''), BeTables (OpRecover 8)]"

definition resolved_like :: "(string + ResolvedEffect) \<Rightarrow> WorkflowEffect \<Rightarrow> 'w EffectInvocation \<Rightarrow> bool" where
  "resolved_like res e call = (case res of Inl _ \<Rightarrow> False
     | Inr resolved \<Rightarrow>
         workflowEffectId id (fr_id (re_run resolved)) (re_stepName resolved) (re_executionPath resolved) (iv_route call) = mail_id \<and>
         we_requestDigest e = digest id (iv_request call) \<and> we_versionDigest e = re_versionDigest resolved \<and>
         we_toolName e = iv_toolName call \<and> we_actionCategory e = iv_category call)"

lemma mail_resolves: "case fold (boundaryStep id) mail_later mail_done of b2 \<Rightarrow>
    resolved_like (resolveEffectContext id (wx_versions (bo_world b2)) (iv_context mail_call) (iv_piece mail_call)
      (iv_action mail_call) (wx_db (bo_world b2))) mail_effect mail_call"
  by code_simp

lemma mail_recorded: "bo_running mail_running \<noteq> []" "we_id mail_effect = mail_id" "we_approvalId mail_effect = Some ''q''"
  "getFlowRun (wx_db (bo_world mail_running)) ''r'' \<noteq> None"
  "map (\<lambda>q. (ar_id q, ar_status q)) (am_rows (wx_approvals (bo_world mail_running))) = [(''q'', approved)]"
  by code_simp+

theorem effect_outcome_kept_witness:
  "startEffect id all_deps (mail_turn 9) mail_call (bo_world (fold (boundaryStep id) mail_later mail_done)) =
     (Replied (JStr ''ok''), bo_world (fold (boundaryStep id) mail_later mail_done)) \<and>
   map (\<lambda>q. (ar_id q, ar_status q, ar_outcome q)) (am_rows (wx_approvals (bo_world mail_done))) =
     [(''q'', executed, Some (Receipt committed))]"
proof -
  let ?b2 = "fold (boundaryStep id) mail_later mail_done"
  have "list_all (apart id ''r'' mail_id) (mail_events @ [mail_invoke 6])" by (simp add: mail_apart)
  from boundary_run [OF mail_ok this] have ok: "boundary_ok ''r'' mail_id mail_running" by (simp only: mail_running_def)
  have first: "su_effect (bo_running mail_running ! 0) = mail_effect" "0 < length (bo_running mail_running)"
    using mail_recorded(1) by (simp_all add: mail_effect_def hd_conv_nth)
  note kept = effect_outcome_kept [OF ok first(2,1) mail_recorded(2,4) mail_done_def [symmetric]]
  obtain res where r:
    "resolveEffectContext id (wx_versions (bo_world ?b2)) (iv_context mail_call) (iv_piece mail_call) (iv_action mail_call)
       (wx_db (bo_world ?b2)) = Inr res"
    "workflowEffectId id (fr_id (re_run res)) (re_stepName res) (re_executionPath res) (iv_route mail_call) = mail_id"
    "we_requestDigest mail_effect = digest id (iv_request mail_call)" "we_versionDigest mail_effect = re_versionDigest res"
    "we_toolName mail_effect = iv_toolName mail_call" "we_actionCategory mail_effect = iv_category mail_call"
    using mail_resolves by (auto simp: resolved_like_def split: sum.splits)
  have legal: "list_all (apart id ''r'' mail_id) mail_later" "apart id ''r'' mail_id (BeInvoke all_deps (mail_turn 9) mail_call)"
    by (simp_all add: mail_later_def apart_def mail_call_def)
  have "startEffect id all_deps (mail_turn 9) mail_call (bo_world ?b2) = (replayOf (Inr (Some (JStr ''ok''))), bo_world ?b2)"
    by (rule kept [THEN conjunct2, THEN conjunct2, rule_format, of mail_later ?b2 all_deps "mail_turn 9" mail_call res])
      (simp only: legal r refl, simp add: all_deps_def)
  moreover obtain q where q: "am_rows (wx_approvals (bo_world mail_running)) = [q]" "ar_id q = ''q''" "ar_status q = approved"
    using mail_recorded(5) by (auto simp: map_eq_Cons_conv)
  ultimately show ?thesis
    using kept [THEN conjunct2, THEN conjunct1] by (simp add: replayOf_def js_or_def receipted_def mail_recorded(3))
qed

end
