(* ===== verification/Workflow_Timers.thy ===== *)
theory Workflow_Timers
  imports Effect_Properties Queue_Laws
begin

text \<open>
  What wakes a paused run: the scheduler of timers (\<^verbatim>\<open>src/workflows/timer-scheduler.ts\<close>), whose tick first
  resumes the runs whose effect approval has been decided (\<^verbatim>\<open>runtime/effect-approval-scheduler.ts\<close>).  A job
  gets the id \<open>fresh w\<close> when the waitpoint \<open>w\<close> is resumed.  What the catch clauses log is dropped; a database
  that cannot be read at all is not modelled.  The interval timer that calls \<open>tick\<close> is glue.
\<close>


section \<open>Resuming\<close>

definition resumeJob :: "string \<Rightarrow> json \<Rightarrow> EnqueueInput" where
  "resumeJob runId payload = \<lparr> ei_jobType = RUN_FLOW,
     ei_payload = JObj [(''runId'', JStr runId), (''executionType'', JStr ''RESUME''), (''resumePayload'', payload)],
     ei_flowRunId = Some runId, ei_flowId = None, ei_flowVersionId = None, ei_priority = None, ei_scheduledAt = None,
     ei_maxAttempts = Some 1 \<rparr>"

text \<open>The transaction both schedulers share: mark the waitpoint, then enqueue the job; an error undoes both.\<close>

definition resumeTx :: "string \<Rightarrow> int \<Rightarrow> int \<Rightarrow> string \<Rightarrow> string \<Rightarrow> json \<Rightarrow> WorkflowDb \<Rightarrow> (WfError + bool) \<times> WorkflowDb" where
  "resumeTx jobId now ts wpId runId payload db =
     (case markWaitpointResumed now wpId db of
        (False, _) \<Rightarrow> (Inr False, db)
      | (True, db1) \<Rightarrow>
          (case enqueueJob jobId ts (resumeJob runId payload) db1 of
             (Inl e, _) \<Rightarrow> (Inl e, db)
           | (Inr _, db2) \<Rightarrow> (Inr True, db2)))"

definition decidedEffect :: "'w EffectWorld \<Rightarrow> EffectRow \<Rightarrow> bool" where
  "decidedEffect st e = (er_status e = effect_pending \<and>
     (case er_approval_id e of None \<Rightarrow> False
      | Some a \<Rightarrow> (case getRequest (wx_approvals st) a of None \<Rightarrow> False
          | Some r \<Rightarrow> ar_execution_mode r = workflow \<and> ar_status r \<in> {approved, denied, expired})) \<and>
     (case er_waitpoint_id e of None \<Rightarrow> False
      | Some w \<Rightarrow> (case getWaitpoint (wx_db st) w of None \<Rightarrow> False | Some wp \<Rightarrow> wp_resumed_at wp = None)))"

definition jobBlocks :: "string \<Rightarrow> JobRow \<Rightarrow> bool" where
  "jobBlocks runId j = (jr_flow_run_id j = Some runId \<and> jr_status j \<in> {job_queued, job_running, job_canceled})"

text \<open>The loop over the decided effects; an error leaves it, and the count is lost.\<close>

fun resumeEffects :: "(string \<Rightarrow> string) \<Rightarrow> int \<Rightarrow> EffectRow list \<Rightarrow> nat \<Rightarrow> WorkflowDb \<Rightarrow> (WfError + nat) \<times> WorkflowDb" where
  "resumeEffects fresh ts [] n db = (Inr n, db)"
| "resumeEffects fresh ts (e # es) n db =
     (let w = js_or (er_waitpoint_id e) [] in
      if map_option fr_status (getFlowRun db (er_run_id e)) \<noteq> Some run_paused then resumeEffects fresh ts es n db
      else if \<exists>j \<in> set (wd_jobs db). jobBlocks (er_run_id e) j then resumeEffects fresh ts es n db
      else (case resumeTx (fresh w) ts ts w (er_run_id e) (JObj [(''workflowEffectId'', JStr (er_id e))]) db of
          (Inl err, db1) \<Rightarrow> (Inl err, db1)
        | (Inr b, db1) \<Rightarrow> resumeEffects fresh ts es (if b then Suc n else n) db1))"

definition resumeResolvedWorkflowEffects :: "(string \<Rightarrow> string) \<Rightarrow> int \<Rightarrow> 'w EffectWorld \<Rightarrow> (WfError + nat) \<times> WorkflowDb" where
  "resumeResolvedWorkflowEffects fresh ts st =
     resumeEffects fresh ts (filter (decidedEffect st) (wx_effects st)) 0 (wx_db st)"

definition timerStep :: "(string \<Rightarrow> string) \<Rightarrow> int \<Rightarrow> int \<Rightarrow> Waitpoint \<Rightarrow> nat \<times> WorkflowDb \<Rightarrow> nat \<times> WorkflowDb" where
  "timerStep fresh now ts wp acc = (case acc of (n, db) \<Rightarrow>
     (let status = map_option fr_status (getFlowRun db (wp_flow_run_id wp))
      in if status \<in> {Some run_running, Some run_queued} then (n, db)
         else if status \<noteq> Some run_paused then (n, snd (markWaitpointResumed now (wp_id wp) db))
         else (case resumeTx (fresh (wp_id wp)) now ts (wp_id wp) (wp_flow_run_id wp) (JObj []) db of
             (Inr True, db1) \<Rightarrow> (Suc n, db1)
           | (_, db1) \<Rightarrow> (n, db1))))"

definition TIMER_BATCH :: nat where
  "TIMER_BATCH = 100"

definition tick :: "(string \<Rightarrow> string) \<Rightarrow> (int \<Rightarrow> string) \<Rightarrow> int \<Rightarrow> int \<Rightarrow> 'w EffectWorld \<Rightarrow> nat \<times> WorkflowDb" where
  "tick fresh toISO now ts st =
     (case resumeResolvedWorkflowEffects fresh ts st of (r, db) \<Rightarrow>
        fold (timerStep fresh now ts) (listDueTimerWaitpoints (toISO now) TIMER_BATCH db)
          (case r of Inl _ \<Rightarrow> 0 | Inr n \<Rightarrow> n, db))"


section \<open>What a tick changes\<close>

definition isResumeRow :: "WorkflowDb \<Rightarrow> JobRow \<Rightarrow> bool" where
  "isResumeRow db j = (\<exists>i r. jr_flow_run_id j = Some i \<and> getFlowRun db i = Some r \<and> fr_status r = run_paused \<and>
     jr_job_type j = RUN_FLOW \<and> jr_status j = job_queued \<and> jr_attempt j = 0 \<and> jr_max_attempts j = 1 \<and>
     payload_text ''executionType'' (jr_payload j) = Some ''RESUME'')"

definition openPaused :: "WorkflowDb \<Rightarrow> nat" where
  "openPaused db = length (filter (\<lambda>w. wp_resumed_at w = None \<and>
     map_option fr_status (getFlowRun db (wp_flow_run_id w)) = Some run_paused) (wd_waitpoints db))"

definition resumedRow :: "Waitpoint \<Rightarrow> Waitpoint \<Rightarrow> bool" where
  "resumedRow w w' = (w' = w \<or> (wp_resumed_at w = None \<and> (\<exists>t. w' = w\<lparr>wp_resumed_at := Some t\<rparr>)))"

text \<open>
  Relative to the database \<open>db0\<close> the tick began with, \<open>n\<close> runs have been resumed and the waitpoints with an id
  in \<open>D\<close> are settled.
\<close>

definition ticked :: "(string \<Rightarrow> string) \<Rightarrow> WorkflowDb \<Rightarrow> string set \<Rightarrow> nat \<Rightarrow> WorkflowDb \<Rightarrow> bool" where
  "ticked fresh db0 D n db = (wf_ok db \<and> (\<exists>new. wd_jobs db = wd_jobs db0 @ new \<and> length new = n \<and> list_all (isResumeRow db0) new \<and>
     jr_id ` set new \<subseteq> fresh ` D \<and> (\<forall>w \<in> set (wd_waitpoints db). wp_id w \<in> D \<longrightarrow> wp_resumed_at w \<noteq> None) \<and>
     wd_runs db = wd_runs db0 \<and> wd_cancellations db = wd_cancellations db0 \<and>
     list_all2 resumedRow (wd_waitpoints db0) (wd_waitpoints db) \<and> openPaused db + n = openPaused db0))"

text \<open>What a tick relies on: fresh job ids, unique waitpoints, and an effect that waits on a waitpoint of its run.\<close>

definition timer_frame :: "(string \<Rightarrow> string) \<Rightarrow> WorkflowDb \<Rightarrow> bool" where
  "timer_frame fresh db = (wf_ok db \<and> distinct (map wp_id (wd_waitpoints db)) \<and>
     inj_on fresh (wp_id ` set (wd_waitpoints db)) \<and>
     fresh ` wp_id ` set (wd_waitpoints db) \<inter> jr_id ` set (wd_jobs db) = {})"

definition timer_ok :: "(string \<Rightarrow> string) \<Rightarrow> 'w EffectWorld \<Rightarrow> bool" where
  "timer_ok fresh st = (timer_frame fresh (wx_db st) \<and>
     (\<forall>e \<in> set (wx_effects st). \<forall>w \<in> set (wd_waitpoints (wx_db st)).
        er_waitpoint_id e = Some (wp_id w) \<longrightarrow> wp_flow_run_id w = er_run_id e))"

lemma ticked_refl: "wf_ok db \<Longrightarrow> ticked fresh db {} 0 db"
  by (simp add: ticked_def list_all2_same resumedRow_def)

lemma resumedRow_trans: "resumedRow a b \<Longrightarrow> resumedRow b c \<Longrightarrow> resumedRow a c"
  by (auto simp: resumedRow_def)

lemma resumed_ids: "list_all2 resumedRow ws ws' \<Longrightarrow> map wp_id ws' = map wp_id ws"
  by (induction rule: list_all2_induct) (auto simp: resumedRow_def)

lemma resumed_mem: "list_all2 resumedRow ws ws' \<Longrightarrow> w' \<in> set ws' \<Longrightarrow> \<exists>w \<in> set ws. resumedRow w w'"
  by (induction rule: list_all2_induct) auto

definition markRow :: "int \<Rightarrow> string \<Rightarrow> Waitpoint \<Rightarrow> Waitpoint" where
  "markRow now i w = (if wp_id w = i \<and> wp_resumed_at w = None then w\<lparr>wp_resumed_at := Some now\<rparr> else w)"

lemma markRow_simps [simp]:
  "wp_id (markRow now i w) = wp_id w" "wp_flow_run_id (markRow now i w) = wp_flow_run_id w"
  "wp_resumed_at (markRow now i w) = None \<longleftrightarrow> wp_resumed_at w = None \<and> wp_id w \<noteq> i"
  "(\<exists>t. wp_resumed_at (markRow now i w) = Some t) \<longleftrightarrow> wp_id w = i \<or> (\<exists>t. wp_resumed_at w = Some t)"
  by (auto simp: markRow_def)

lemma mark_resumed: "markWaitpointResumed now i db =
    (\<exists>w \<in> set (wd_waitpoints db). wp_id w = i \<and> wp_resumed_at w = None,
     db\<lparr>wd_waitpoints := map (markRow now i) (wd_waitpoints db)\<rparr>)"
  unfolding markWaitpointResumed_def Let_def sql_update_changes by (simp add: sql_update_def markRow_def [abs_def])

lemma mark_moves: "list_all2 resumedRow ws (map (markRow now i) ws)"
  by (auto simp: list_all2_map2 list_all2_same resumedRow_def markRow_def)

lemma mark_count:
  assumes "distinct (map wp_id ws)"
  shows "length (filter (\<lambda>w. wp_resumed_at w = None \<and> Q (wp_flow_run_id w)) (map (markRow now i) ws)) +
      of_bool (\<exists>w \<in> set ws. wp_id w = i \<and> wp_resumed_at w = None \<and> Q (wp_flow_run_id w)) =
    length (filter (\<lambda>w. wp_resumed_at w = None \<and> Q (wp_flow_run_id w)) ws)"
  using assms
proof (induction ws)
  case (Cons w ws)
  show ?case
  proof (cases "wp_id w = i")
    case True
    then have no: "\<not> (\<exists>w \<in> set ws. wp_id w = i \<and> wp_resumed_at w = None \<and> Q (wp_flow_run_id w))"
      using Cons.prems by (auto simp: image_iff)
    show ?thesis using Cons True no by simp
  qed (use Cons in simp)
qed simp

definition pausedWait :: "WorkflowDb \<Rightarrow> Waitpoint \<Rightarrow> bool" where
  "pausedWait db w = (map_option fr_status (getFlowRun db (wp_flow_run_id w)) = Some run_paused)"

lemma marked_db:
  "wd_waitpoints (db\<lparr>wd_waitpoints := ws\<rparr>) = ws" "getFlowRun (db\<lparr>wd_waitpoints := ws\<rparr>) k = getFlowRun db k"
  by (simp_all add: getFlowRun_def)

lemma openPaused_mark:
  assumes "distinct (map wp_id (wd_waitpoints db))"
  shows "openPaused (snd (markWaitpointResumed now i db)) +
      (if \<exists>w \<in> set (wd_waitpoints db). wp_id w = i \<and> wp_resumed_at w = None \<and> pausedWait db w then 1 else 0) = openPaused db"
  using mark_count [OF assms, of "\<lambda>r. map_option fr_status (getFlowRun db r) = Some run_paused" now i]
  unfolding openPaused_def mark_resumed pausedWait_def of_bool_def by (simp only: snd_conv marked_db)


section \<open>One waitpoint\<close>

lemma mark_ticked:
  assumes "ticked fresh db0 D n db" "distinct (map wp_id (wd_waitpoints db0))"
    and "\<And>w. w \<in> set (wd_waitpoints db) \<Longrightarrow> wp_id w = i \<Longrightarrow> wp_resumed_at w = None \<Longrightarrow>
      map_option fr_status (getFlowRun db (wp_flow_run_id w)) \<noteq> Some run_paused"
  shows "ticked fresh db0 (insert i D) n (snd (markWaitpointResumed now i db))"
proof -
  have ok: "wf_ok db" using assms(1) by (simp add: ticked_def)
  from assms(1) obtain new where t: "wd_jobs db = wd_jobs db0 @ new" "length new = n" "list_all (isResumeRow db0) new"
    "jr_id ` set new \<subseteq> fresh ` D" "\<forall>w \<in> set (wd_waitpoints db). wp_id w \<in> D \<longrightarrow> wp_resumed_at w \<noteq> None"
    "wd_runs db = wd_runs db0" "wd_cancellations db = wd_cancellations db0"
    "list_all2 resumedRow (wd_waitpoints db0) (wd_waitpoints db)" "openPaused db + n = openPaused db0"
    unfolding ticked_def by blast
  let ?db = "snd (markWaitpointResumed now i db)"
  have d: "distinct (map wp_id (wd_waitpoints db))" using assms(2) resumed_ids [OF t(8)] by simp
  have "\<not> (\<exists>w \<in> set (wd_waitpoints db). wp_id w = i \<and> wp_resumed_at w = None \<and> pausedWait db w)"
    unfolding pausedWait_def using assms(3) by blast
  with openPaused_mark [OF d, of now i] have "openPaused ?db = openPaused db" by (simp only: if_False add_0_right)
  moreover have "list_all2 resumedRow (wd_waitpoints db0) (wd_waitpoints ?db)"
    using list_all2_trans [OF resumedRow_trans t(8) mark_moves] by (simp add: mark_resumed)
  moreover have "wf_ok ?db" using wf_ok_wfOp [OF ok, of "OpResumeWaitpoint now i"] by (simp add: validOp_def)
  ultimately show ?thesis unfolding ticked_def using t
    by (intro conjI exI [of _ new]) (auto simp: mark_resumed)
qed

lemma resume_input [simp]:
  "json_ok payload \<Longrightarrow> json_ok (ei_payload (resumeJob i payload))"
  "enqueueRunId (resumeJob i payload) = Some i" "ei_jobType (resumeJob i payload) = RUN_FLOW"
  by (simp_all add: resumeJob_def enqueueRunId_def)

lemma resume_row:
  assumes "json_ok payload" "getFlowRun db0 i = Some r" "fr_status r = run_paused"
  shows "isResumeRow db0 (newJobRow k ts (resumeJob i payload))"
proof -
  have "JSON_parse (JSON_stringify (ei_payload (resumeJob i payload))) = Some (ei_payload (resumeJob i payload))"
    using assms(1) by (intro JSON_parse_printed) simp
  then show ?thesis unfolding isResumeRow_def using assms(2,3)
    by (simp add: newJobRow_def payload_text_def resumeJob_def maxAttemptsForJob_def WORKFLOW_RUN_MAX_ATTEMPTS_def js_or_def json_get_def)
qed

lemma resume_ticked:
  assumes "timer_frame fresh db0" "ticked fresh db0 D n db" "json_ok payload"
    and mem: "D \<subseteq> wp_id ` set (wd_waitpoints db0)" "i \<in> wp_id ` set (wd_waitpoints db0)"
    and run: "map_option fr_status (getFlowRun db k) = Some run_paused"
    and own: "\<And>w. w \<in> set (wd_waitpoints db) \<Longrightarrow> wp_id w = i \<Longrightarrow> wp_flow_run_id w = k"
  shows "\<exists>b db'. resumeTx (fresh i) now ts i k payload db = (Inr b, db') \<and>
    ticked fresh db0 (insert i D) (if b then Suc n else n) db'"
proof -
  from assms(1) have frame: "wf_ok db0" "distinct (map wp_id (wd_waitpoints db0))"
    "inj_on fresh (wp_id ` set (wd_waitpoints db0))"
    "fresh ` wp_id ` set (wd_waitpoints db0) \<inter> jr_id ` set (wd_jobs db0) = {}"
    unfolding timer_frame_def by blast+
  have ok: "wf_ok db" using assms(2) by (simp add: ticked_def)
  from assms(2) obtain new where t: "wd_jobs db = wd_jobs db0 @ new" "length new = n" "list_all (isResumeRow db0) new"
    "jr_id ` set new \<subseteq> fresh ` D" "\<forall>w \<in> set (wd_waitpoints db). wp_id w \<in> D \<longrightarrow> wp_resumed_at w \<noteq> None"
    "wd_runs db = wd_runs db0" "wd_cancellations db = wd_cancellations db0"
    "list_all2 resumedRow (wd_waitpoints db0) (wd_waitpoints db)" "openPaused db + n = openPaused db0"
    unfolding ticked_def by blast
  have d: "distinct (map wp_id (wd_waitpoints db))" using frame(2) resumed_ids [OF t(8)] by simp
  from run t(6) obtain r where r: "getFlowRun db0 k = Some r" "fr_status r = run_paused"
    by (auto simp: getFlowRun_def)
  show ?thesis
  proof (cases "\<exists>w \<in> set (wd_waitpoints db). wp_id w = i \<and> wp_resumed_at w = None")
    case False
    then have "resumeTx (fresh i) now ts i k payload db = (Inr False, db)"
      unfolding resumeTx_def mark_resumed by (simp only: prod.case bool.case if_False)
    moreover have "ticked fresh db0 (insert i D) n db" unfolding ticked_def
      using t False ok by (intro conjI exI [of _ new]) auto
    ultimately show ?thesis by auto
  next
    case True
    then obtain w where w: "w \<in> set (wd_waitpoints db)" "wp_id w = i" "wp_resumed_at w = None" by blast
    let ?db = "db\<lparr>wd_waitpoints := map (markRow now i) (wd_waitpoints db)\<rparr>"
    let ?row = "newJobRow (fresh i) ts (resumeJob k payload)"
    have nc: "getRunCancellation ?db k = None"
    proof (rule ccontr)
      assume "getRunCancellation ?db k \<noteq> None"
      then obtain c where "getRunCancellation db0 k = Some c" using t(7) by (auto simp: getRunCancellation_def)
      from wf_ok_canceled [OF frame(1) this] r show False by auto
    qed
    have "i \<notin> D" using t(5) w by blast
    then have "fresh i \<notin> fresh ` D" using frame(3) mem by (auto dest: inj_onD)
    moreover have "fresh i \<notin> jr_id ` set (wd_jobs db0)" using frame(4) mem(2) by blast
    ultimately have free: "jobRow ?db (fresh i) = None" using t(1,4) unfolding jobRow_def sql_get_none by auto
    have "rowToJob ?row \<noteq> None" using JSON_parse_printed [OF resume_input(1) [OF assms(3)]]
      by (simp add: rowToJob_def newJobRow_def)
    then have e: "resumeTx (fresh i) now ts i k payload db = (Inr True, ?db\<lparr>wd_jobs := wd_jobs ?db @ [?row]\<rparr>)"
      using True nc free unfolding resumeTx_def mark_resumed enqueueJob_def
      by (auto simp: Let_def split: option.splits)
    have "\<exists>w \<in> set (wd_waitpoints db). wp_id w = i \<and> wp_resumed_at w = None \<and> pausedWait db w"
      unfolding pausedWait_def using w own [OF w(1,2)] run by blast
    with openPaused_mark [OF d, of now i] have open_: "Suc (openPaused ?db) = openPaused db"
      by (simp only: if_True mark_resumed snd_conv Suc_eq_plus1)
    have le: "list_all2 resumedRow (wd_waitpoints db0) (wd_waitpoints ?db)"
      using list_all2_trans [OF resumedRow_trans t(8) mark_moves] by simp
    have "openPaused (?db\<lparr>wd_jobs := wd_jobs ?db @ [?row]\<rparr>) = openPaused ?db"
      by (simp add: openPaused_def getFlowRun_def)
    with open_ t(9) have n: "openPaused (?db\<lparr>wd_jobs := wd_jobs ?db @ [?row]\<rparr>) + Suc n = openPaused db0" by simp
    have row: "isResumeRow db0 ?row" by (rule resume_row [OF assms(3) r])
    have "wf_ok (wfOp (OpEnqueue (fresh i) ts (resumeJob k payload)) (wfOp (OpResumeWaitpoint now i) db))"
      by (intro wf_ok_wfOp ok) (simp_all add: validOp_def assms(3))
    moreover have "wfOp (OpEnqueue (fresh i) ts (resumeJob k payload)) (wfOp (OpResumeWaitpoint now i) db) =
        ?db\<lparr>wd_jobs := wd_jobs ?db @ [?row]\<rparr>"
      using nc free by (simp add: mark_resumed enqueueJob_def Let_def)
    ultimately have ok': "wf_ok (?db\<lparr>wd_jobs := wd_jobs ?db @ [?row]\<rparr>)" by simp
    have "ticked fresh db0 (insert i D) (Suc n) (?db\<lparr>wd_jobs := wd_jobs ?db @ [?row]\<rparr>)"
      unfolding ticked_def
    proof (intro exI [of _ "new @ [?row]"] conjI n ok')
      show "\<forall>w \<in> set (wd_waitpoints (?db\<lparr>wd_jobs := wd_jobs ?db @ [?row]\<rparr>)). wp_id w \<in> insert i D \<longrightarrow> wp_resumed_at w \<noteq> None"
        using t(5) by auto
      show "jr_id ` set (new @ [?row]) \<subseteq> fresh ` insert i D" using t(4) by (auto simp: newJobRow_def)
    qed (use t le row in simp_all)
    with e show ?thesis by auto
  qed
qed

lemma ticked_own:
  assumes "ticked fresh db0 D n db" "w \<in> set (wd_waitpoints db)"
  shows "\<exists>w0 \<in> set (wd_waitpoints db0). wp_id w = wp_id w0 \<and> wp_flow_run_id w = wp_flow_run_id w0"
proof -
  from assms(1) have "list_all2 resumedRow (wd_waitpoints db0) (wd_waitpoints db)" unfolding ticked_def by blast
  from resumed_mem [OF this assms(2)] show ?thesis by (auto simp: resumedRow_def)
qed

lemma ticked_run: "ticked fresh db0 D n db \<Longrightarrow> getFlowRun db k = getFlowRun db0 k"
  by (auto simp: ticked_def getFlowRun_def)


section \<open>The two loops\<close>

definition waits_for :: "WorkflowDb \<Rightarrow> string \<Rightarrow> string \<Rightarrow> bool" where
  "waits_for db i k = (i \<in> wp_id ` set (wd_waitpoints db) \<and>
     (\<forall>w \<in> set (wd_waitpoints db). wp_id w = i \<longrightarrow> wp_flow_run_id w = k))"

lemma resume_ticked_for:
  assumes "timer_frame fresh db0" "ticked fresh db0 D n db" "json_ok payload" "D \<subseteq> wp_id ` set (wd_waitpoints db0)"
    "map_option fr_status (getFlowRun db k) = Some run_paused" "waits_for db0 i k"
  shows "\<exists>b db'. resumeTx (fresh i) now ts i k payload db = (Inr b, db') \<and>
    ticked fresh db0 (insert i D) (if b then Suc n else n) db'"
proof (rule resume_ticked [OF assms(1-4) _ assms(5)])
  show "i \<in> wp_id ` set (wd_waitpoints db0)" using assms(6) by (simp add: waits_for_def)
  fix w assume "w \<in> set (wd_waitpoints db)" "wp_id w = i"
  with ticked_own [OF assms(2) this(1)] assms(6) show "wp_flow_run_id w = k" unfolding waits_for_def by metis
qed

lemma resumeEffects_ticked:
  assumes "timer_frame fresh db0" "\<And>e. e \<in> set es \<Longrightarrow> waits_for db0 (js_or (er_waitpoint_id e) []) (er_run_id e)"
    "ticked fresh db0 D n db" "D \<subseteq> wp_id ` set (wd_waitpoints db0)"
  shows "\<exists>D' n' db'. resumeEffects fresh ts es n db = (Inr n', db') \<and> ticked fresh db0 D' n' db' \<and>
    D' \<subseteq> wp_id ` set (wd_waitpoints db0)"
  using assms(2-4)
proof (induction es arbitrary: D n db)
  case (Cons e es)
  let ?w = "js_or (er_waitpoint_id e) []"
  note IH = Cons.IH [OF Cons.prems(1)]
  show ?case
  proof (cases "map_option fr_status (getFlowRun db (er_run_id e)) \<noteq> Some run_paused \<or>
      (\<exists>j \<in> set (wd_jobs db). jobBlocks (er_run_id e) j)")
    case True
    then have "resumeEffects fresh ts (e # es) n db = resumeEffects fresh ts es n db" by (auto simp: Let_def)
    with IH [OF _ Cons.prems(2,3)] show ?thesis by simp
  next
    case False
    have ok: "json_ok (JObj [(''workflowEffectId'', JStr (er_id e))])" by simp
    have wait: "waits_for db0 ?w (er_run_id e)" using Cons.prems(1) by simp
    from False resume_ticked_for [OF assms(1) Cons.prems(2) ok Cons.prems(3) _ wait, of ts ts] obtain b db1 where
      r: "resumeTx (fresh ?w) ts ts ?w (er_run_id e) (JObj [(''workflowEffectId'', JStr (er_id e))]) db = (Inr b, db1)"
      and t: "ticked fresh db0 (insert ?w D) (if b then Suc n else n) db1" by blast
    have "resumeEffects fresh ts (e # es) n db = resumeEffects fresh ts es (if b then Suc n else n) db1"
      using False r by (simp add: Let_def)
    with IH [OF _ t] wait Cons.prems(3) show ?thesis by (simp add: waits_for_def)
  qed
qed auto

lemma timerStep_ticked:
  assumes "timer_frame fresh db0" "ticked fresh db0 D n db" "D \<subseteq> wp_id ` set (wd_waitpoints db0)"
    "waits_for db0 (wp_id wp) (wp_flow_run_id wp)"
    "map_option fr_status (getFlowRun db0 (wp_flow_run_id wp)) \<notin> {Some run_running, Some run_queued}"
  shows "\<exists>n' db'. timerStep fresh now ts wp (n, db) = (n', db') \<and> ticked fresh db0 (insert (wp_id wp) D) n' db'"
proof (cases "map_option fr_status (getFlowRun db (wp_flow_run_id wp)) = Some run_paused")
  case True
  have ok: "json_ok (JObj [])" by simp
  from resume_ticked_for [OF assms(1,2) ok assms(3) True assms(4), of now ts] obtain b db1 where
    r: "resumeTx (fresh (wp_id wp)) now ts (wp_id wp) (wp_flow_run_id wp) (JObj []) db = (Inr b, db1)"
    and t: "ticked fresh db0 (insert (wp_id wp) D) (if b then Suc n else n) db1" by blast
  have "timerStep fresh now ts wp (n, db) = (if b then Suc n else n, db1)"
    using True r unfolding timerStep_def by (cases b) (auto simp: Let_def)
  with t show ?thesis by simp
next
  case False
  have "map_option fr_status (getFlowRun db (wp_flow_run_id wp)) \<notin> {Some run_running, Some run_queued}"
    using assms(5) ticked_run [OF assms(2)] by simp
  then have "timerStep fresh now ts wp (n, db) = (n, snd (markWaitpointResumed now (wp_id wp) db))"
    using False by (auto simp: timerStep_def Let_def)
  moreover have "ticked fresh db0 (insert (wp_id wp) D) n (snd (markWaitpointResumed now (wp_id wp) db))"
  proof (rule mark_ticked [OF assms(2)])
    show "distinct (map wp_id (wd_waitpoints db0))" using assms(1) by (simp add: timer_frame_def)
    fix w assume "w \<in> set (wd_waitpoints db)" "wp_id w = wp_id wp"
    with ticked_own [OF assms(2) this(1)] assms(4) have "wp_flow_run_id w = wp_flow_run_id wp"
      unfolding waits_for_def by metis
    with False show "map_option fr_status (getFlowRun db (wp_flow_run_id w)) \<noteq> Some run_paused" by simp
  qed
  ultimately show ?thesis by auto
qed

lemma timers_ticked:
  assumes "timer_frame fresh db0"
    "\<And>wp. wp \<in> set ws \<Longrightarrow> waits_for db0 (wp_id wp) (wp_flow_run_id wp) \<and>
       map_option fr_status (getFlowRun db0 (wp_flow_run_id wp)) \<notin> {Some run_running, Some run_queued}"
    "ticked fresh db0 D n db" "D \<subseteq> wp_id ` set (wd_waitpoints db0)"
  shows "\<exists>n' db'. fold (timerStep fresh now ts) ws (n, db) = (n', db') \<and>
    ticked fresh db0 (wp_id ` set ws \<union> D) n' db'"
  using assms(2-4)
proof (induction ws arbitrary: D n db)
  case (Cons w ws)
  have wait: "waits_for db0 (wp_id w) (wp_flow_run_id w)"
    "map_option fr_status (getFlowRun db0 (wp_flow_run_id w)) \<notin> {Some run_running, Some run_queued}"
    using Cons.prems(1) [of w] by simp_all
  from timerStep_ticked [OF assms(1) Cons.prems(2,3) wait, of now ts] obtain n1 db1 where s: "timerStep fresh now ts w (n, db) = (n1, db1)" "ticked fresh db0 (insert (wp_id w) D) n1 db1"
    by blast
  have "insert (wp_id w) D \<subseteq> wp_id ` set (wd_waitpoints db0)"
    using wait(1) Cons.prems(3) by (simp add: waits_for_def)
  then have "\<exists>n' db'. fold (timerStep fresh now ts) ws (n1, db1) = (n', db') \<and>
      ticked fresh db0 (wp_id ` set ws \<union> insert (wp_id w) D) n' db'"
    by (intro Cons.IH [OF _ s(2)]) (rule Cons.prems(1), simp)
  with s(1) show ?case by simp
qed auto


section \<open>The tick\<close>

lemma due_mem: "w \<in> set (listDueTimerWaitpoints toI k db) \<Longrightarrow>
    w \<in> set (wd_waitpoints db) \<and> \<not> runBusy db (wp_flow_run_id w)"
  unfolding listDueTimerWaitpoints_def by (drule in_set_takeD) simp

lemma not_busy: "\<not> runBusy db k \<Longrightarrow> map_option fr_status (getFlowRun db k) \<notin> {Some run_running, Some run_queued}"
  using sql_get_key [of fr_id k "wd_runs db"] by (auto simp: runBusy_def getFlowRun_def)

lemma waits_for_row:
  assumes "distinct (map wp_id (wd_waitpoints db0))" "w0 \<in> set (wd_waitpoints db0)"
  shows "waits_for db0 (wp_id w0) (wp_flow_run_id w0)"
  using assms unfolding waits_for_def by (auto simp: distinct_map dest: inj_onD)

lemma decided_waits:
  assumes "timer_ok fresh st" "decidedEffect st e" "e \<in> set (wx_effects st)"
  shows "waits_for (wx_db st) (js_or (er_waitpoint_id e) []) (er_run_id e)"
proof -
  from assms(2) obtain i w where e: "er_waitpoint_id e = Some i" and w: "getWaitpoint (wx_db st) i = Some w"
    unfolding decidedEffect_def by (auto split: option.splits)
  from sql_get_key [OF w [unfolded getWaitpoint_def]]
  have k: "wp_id w = i" "w \<in> set (wd_waitpoints (wx_db st))" by simp_all
  moreover have "wp_flow_run_id w = er_run_id e" using assms(1,3) k e unfolding timer_ok_def by blast
  ultimately show ?thesis using waits_for_row [of "wx_db st" w] assms(1) e
    by (simp add: timer_ok_def timer_frame_def js_or_def)
qed

lemma resumedRow_refl [simp]: "list_all2 resumedRow ws ws"
  by (simp add: list_all2_same resumedRow_def)

lemma enqueue_waitpoints [simp]: "wd_waitpoints (snd (enqueueJob k ts input db)) = wd_waitpoints db"
  by (simp add: enqueueJob_def Let_def)

lemma resumeTx_moves: "list_all2 resumedRow (wd_waitpoints db) (wd_waitpoints (snd (resumeTx k now ts i r payload db)))"
  using enqueue_waitpoints [of k ts "resumeJob r payload" "snd (markWaitpointResumed now i db)"]
    mark_moves [of "wd_waitpoints db" now i]
  unfolding resumeTx_def mark_resumed case_prod_beta by (simp split: sum.split bool.split)

lemma timerStep_moves:
  "list_all2 resumedRow (wd_waitpoints (snd a)) (wd_waitpoints (snd (timerStep fresh now ts w a)))"
  using resumeTx_moves [of "snd a" "fresh (wp_id w)" now ts "wp_id w" "wp_flow_run_id w" "JObj []"]
  unfolding timerStep_def by (auto simp: Let_def mark_resumed mark_moves split: prod.splits sum.splits bool.splits)

lemma timers_move:
  "list_all2 resumedRow (wd_waitpoints (snd a)) (wd_waitpoints (snd (fold (timerStep fresh now ts) ws a)))"
proof (induction ws arbitrary: a)
  case (Cons w ws)
  show ?case using list_all2_trans [OF resumedRow_trans timerStep_moves Cons.IH] by simp
qed simp

lemma moved_due:
  assumes "list_all2 resumedRow ws ws'" "w' \<in> set ws'" "timerDue toI w'"
  shows "w' \<in> set ws"
proof -
  from resumed_mem [OF assms(1,2)] obtain w where "w \<in> set ws" "resumedRow w w'" by blast
  with assms(3) show ?thesis by (auto simp: resumedRow_def timerDue_def)
qed

definition dueRow :: "string \<Rightarrow> WorkflowDb \<Rightarrow> Waitpoint \<Rightarrow> bool" where
  "dueRow toI db w = (timerDue toI w \<and> \<not> runBusy db (wp_flow_run_id w))"

lemma due_all:
  assumes "length (filter (dueRow toI db) (wd_waitpoints db)) \<le> k"
  shows "set (listDueTimerWaitpoints toI k db) = {w \<in> set (wd_waitpoints db). dueRow toI db w}"
  using assms unfolding listDueTimerWaitpoints_def dueRow_def [abs_def] by simp

lemma resumed_due:
  assumes "list_all2 resumedRow ws ws'"
  shows "length (filter (\<lambda>w. timerDue toI w \<and> Q (wp_flow_run_id w)) ws')
    \<le> length (filter (\<lambda>w. timerDue toI w \<and> Q (wp_flow_run_id w)) ws)"
  using assms by (induction rule: list_all2_induct) (auto simp: resumedRow_def timerDue_def)

lemma tick_result:
  assumes "timer_ok fresh st"
  shows "\<exists>n db' D. tick fresh toISO now ts st = (n, db') \<and> ticked fresh (wx_db st) D n db' \<and>
    (length (filter (dueRow (toISO now) (wx_db st)) (wd_waitpoints (wx_db st))) \<le> TIMER_BATCH \<longrightarrow>
     listDueTimerWaitpoints (toISO now) TIMER_BATCH db' = [])"
proof -
  let ?db = "wx_db st" and ?t = "toISO now"
  have frame: "timer_frame fresh ?db" and ids: "distinct (map wp_id (wd_waitpoints ?db))" and ok: "wf_ok ?db"
    using assms unfolding timer_ok_def timer_frame_def by blast+
  have "\<exists>D n db1. resumeResolvedWorkflowEffects fresh ts st = (Inr n, db1) \<and> ticked fresh ?db D n db1 \<and>
      D \<subseteq> wp_id ` set (wd_waitpoints ?db)"
    unfolding resumeResolvedWorkflowEffects_def
    by (intro resumeEffects_ticked [OF frame _ ticked_refl [OF ok]]) (auto intro: decided_waits [OF assms])
  then obtain D n db1 where r: "resumeResolvedWorkflowEffects fresh ts st = (Inr n, db1)"
    and t1: "ticked fresh ?db D n db1" and D: "D \<subseteq> wp_id ` set (wd_waitpoints ?db)" by blast
  let ?ws = "listDueTimerWaitpoints ?t TIMER_BATCH db1"
  have "\<exists>n' db'. fold (timerStep fresh now ts) ?ws (n, db1) = (n', db') \<and>
      ticked fresh ?db (wp_id ` set ?ws \<union> D) n' db'"
  proof (rule timers_ticked [OF frame _ t1 D])
    fix wp assume "wp \<in> set ?ws"
    from due_mem [OF this] have wp: "wp \<in> set (wd_waitpoints db1)" "\<not> runBusy db1 (wp_flow_run_id wp)" by blast+
    from ticked_own [OF t1 wp(1)] obtain w0 where
      "w0 \<in> set (wd_waitpoints ?db)" "wp_id wp = wp_id w0" "wp_flow_run_id wp = wp_flow_run_id w0" by blast
    with waits_for_row [OF ids] not_busy [OF wp(2)] ticked_run [OF t1]
    show "waits_for ?db (wp_id wp) (wp_flow_run_id wp) \<and>
      map_option fr_status (getFlowRun ?db (wp_flow_run_id wp)) \<notin> {Some run_running, Some run_queued}" by simp
  qed
  then obtain n' db' where f: "fold (timerStep fresh now ts) ?ws (n, db1) = (n', db')"
    and t2: "ticked fresh ?db (wp_id ` set ?ws \<union> D) n' db'" by blast
  have e: "tick fresh toISO now ts st = (n', db')" using r f by (simp add: tick_def)
  have runs: "wd_runs db1 = wd_runs ?db" "wd_runs db' = wd_runs ?db" "list_all2 resumedRow (wd_waitpoints ?db) (wd_waitpoints db1)"
    "list_all2 resumedRow (wd_waitpoints ?db) (wd_waitpoints db')"
    "\<forall>w \<in> set (wd_waitpoints db'). wp_id w \<in> wp_id ` set ?ws \<longrightarrow> wp_resumed_at w \<noteq> None"
    using t1 t2 unfolding ticked_def by auto
  have busy: "dueRow ?t db1 = dueRow ?t ?db" "dueRow ?t db' = dueRow ?t ?db"
    by (simp_all add: dueRow_def [abs_def] runBusy_def runs)
  have "listDueTimerWaitpoints ?t TIMER_BATCH db' = []"
    if few: "length (filter (dueRow ?t ?db) (wd_waitpoints ?db)) \<le> TIMER_BATCH"
  proof (rule ccontr)
    assume "listDueTimerWaitpoints ?t TIMER_BATCH db' \<noteq> []"
    then obtain w where w: "w \<in> set (listDueTimerWaitpoints ?t TIMER_BATCH db')" by (cases "listDueTimerWaitpoints ?t TIMER_BATCH db'") auto
    then have w: "w \<in> set (wd_waitpoints db')" "dueRow ?t db' w"
      unfolding listDueTimerWaitpoints_def dueRow_def by (auto dest: in_set_takeD)
    have m: "list_all2 resumedRow (wd_waitpoints db1) (wd_waitpoints db')"
      using timers_move [of "(n, db1)" fresh now ts ?ws] f by simp
    have "length (filter (dueRow ?t db1) (wd_waitpoints db1)) \<le> TIMER_BATCH"
      using resumed_due [OF runs(3), of ?t "\<lambda>k. \<not> runBusy ?db k"] few
      unfolding busy unfolding dueRow_def [abs_def] by linarith
    moreover have "w \<in> set (wd_waitpoints db1)" using moved_due [OF m w(1)] w(2) unfolding dueRow_def by blast
    moreover have "dueRow ?t db1 w" using w(2) by (simp only: busy)
    ultimately have "w \<in> set ?ws" using due_all by blast
    with runs(5) w show False by (auto simp: dueRow_def timerDue_def)
  qed
  with e t2 show ?thesis by blast
qed

text \<open>C20: what a tick does to a database the workflow runtime keeps.  It queues as many \<^verbatim>\<open>RESUME\<close> jobs as it reports,
  each of a paused run; every one takes exactly one open waitpoint of a paused run, so no paused run is resumed twice for
  one wait and none is retired without its job; runs and cancellations stay, a waitpoint changes only by being
  settled, the invariant holds again, and if a batch takes all timers that are due, none stays due.\<close>

theorem tick_exact:
  assumes "timer_ok fresh st"
  shows "\<exists>n db' new. tick fresh toISO now ts st = (n, db') \<and> wf_ok db' \<and>
    wd_jobs db' = wd_jobs (wx_db st) @ new \<and> length new = n \<and> list_all (isResumeRow (wx_db st)) new \<and>
    wd_runs db' = wd_runs (wx_db st) \<and> wd_cancellations db' = wd_cancellations (wx_db st) \<and>
    list_all2 resumedRow (wd_waitpoints (wx_db st)) (wd_waitpoints db') \<and>
    openPaused db' + n = openPaused (wx_db st) \<and>
    (length (filter (dueRow (toISO now) (wx_db st)) (wd_waitpoints (wx_db st))) \<le> TIMER_BATCH \<longrightarrow>
     listDueTimerWaitpoints (toISO now) TIMER_BATCH db' = [])"
  using tick_result [OF assms, of toISO now ts] unfolding ticked_def by blast

text \<open>A run that waits for a decision that has come, and one whose timer has elapsed.\<close>

definition wait_input :: CreateWaitpointInput where
  "wait_input = \<lparr> cwi_flowRunId = ''r2'', cwi_projectId = DEFAULT_PROJECT, cwi_stepName = ''delay'', cwi_type = wp_timer,
     cwi_version = None, cwi_resumeDateTime = Some ''2026-01-01'', cwi_responseToSend = None, cwi_workerHandlerId = None,
     cwi_httpRequestId = None \<rparr>"

definition two_waits :: "unit EffectWorld" where
  "two_waits = (mail_before\<lparr>wx_db := wfRun
     [OpUpdateRun 6 ''r'' (noPatch\<lparr>up_status := Some run_paused\<rparr>),
      OpCreateRun ''r2'' 7 (plain_run\<lparr>cri_status := Some run_paused\<rparr>), OpCreateWaitpoint ''t'' 8 wait_input] (wx_db mail_before)\<rparr>)"

lemma two_waits_db: "wx_db two_waits = wfRun
     [OpCreateRun ''r'' 1 plain_run, OpUpdateRun 2 ''r'' (noPatch\<lparr>up_status := Some run_running\<rparr>),
      OpCreateWaitpoint ''w'' 3 (\<lparr> cwi_flowRunId = ''r'', cwi_projectId = DEFAULT_PROJECT, cwi_stepName = ''send'',
        cwi_type = wp_manual, cwi_version = Some ''V1'', cwi_resumeDateTime = None, cwi_responseToSend = None,
        cwi_workerHandlerId = None, cwi_httpRequestId = None \<rparr>),
      OpUpdateRun 6 ''r'' (noPatch\<lparr>up_status := Some run_paused\<rparr>),
      OpCreateRun ''r2'' 7 (plain_run\<lparr>cri_status := Some run_paused\<rparr>), OpCreateWaitpoint ''t'' 8 wait_input] emptyDb"
  by code_simp

lemma two_waits_ok: "timer_ok (\<lambda>w. ''job-'' @ w) two_waits"
proof -
  have "wf_ok (wx_db two_waits)" unfolding two_waits_db by (rule wf_ok_wfRun) (simp_all add: validOp_def)
  moreover have "map wp_id (wd_waitpoints (wx_db two_waits)) = [''w'', ''t''] \<and> wd_jobs (wx_db two_waits) = []"
    by code_simp
  moreover have "map (\<lambda>w. (wp_id w, wp_flow_run_id w)) (wd_waitpoints (wx_db two_waits)) = [(''w'', ''r''), (''t'', ''r2'')] \<and>
      map (\<lambda>e. (er_waitpoint_id e, er_run_id e)) (wx_effects two_waits) = [(Some ''w'', ''r'')]" by code_simp
  ultimately show ?thesis
    unfolding timer_ok_def timer_frame_def inj_on_def by (auto simp: map_eq_Cons_conv)
qed

theorem tick_exact_witness:
  "\<exists>db'. tick (\<lambda>w. ''job-'' @ w) (\<lambda>_. ''2026-02-01'') 9 9 two_waits = (2, db') \<and> wf_ok db' \<and>
     list_all (isResumeRow (wx_db two_waits)) (wd_jobs db') \<and> length (wd_jobs db') = 2 \<and> openPaused db' = 0 \<and>
     listDueTimerWaitpoints ''2026-02-01'' TIMER_BATCH db' = []"
proof -
  have e: "fst (tick (\<lambda>w. ''job-'' @ w) (\<lambda>_. ''2026-02-01'') 9 9 two_waits) = 2 \<and> openPaused (wx_db two_waits) = 2 \<and>
      wd_jobs (wx_db two_waits) = [] \<and> length (wd_waitpoints (wx_db two_waits)) \<le> TIMER_BATCH" by code_simp
  have "length (filter (dueRow ''2026-02-01'' (wx_db two_waits)) (wd_waitpoints (wx_db two_waits))) \<le> TIMER_BATCH"
    using e length_filter_le order_trans by blast
  with tick_exact [OF two_waits_ok, of "\<lambda>_. ''2026-02-01''" 9 9] e show ?thesis by fastforce
qed

end
