(* ===== verification/Js_Number.thy ===== *)
theory Js_Number
  imports Json
begin

text \<open>
  The numbers of the run-time where their values matter (schemas of replies, workflow expressions): IEEE doubles
  as \<^typ>\<open>jsnum\<close>, a finite one being the rational it stands for.  Zero has one sign here: the modelled code
  never divides by a zero and keeps the result, which is the only way it could tell the two apart.  Rounding is to
  nearest, ties to even; \<open>js_of_text\<close> is \<^verbatim>\<open>Number(text)\<close> and \<open>js_show\<close> is \<^verbatim>\<open>String(number)\<close>.
\<close>


section \<open>Rounding\<close>

definition rat_pow :: "int \<Rightarrow> int \<Rightarrow> rat" where
  "rat_pow b e = (if 0 \<le> e then of_int (b ^ nat e) else 1 / of_int (b ^ nat (- e)))"

text \<open>The exponent of the leading binary digit of a positive rational.\<close>

function bit_length :: "int \<Rightarrow> int" where
  "bit_length n = (if n \<le> 0 then 0 else 1 + bit_length (n div 2))"
  by auto
termination by (relation "measure nat") auto

declare bit_length.simps [simp del]

definition log2_floor :: "rat \<Rightarrow> int" where
  "log2_floor q = (let k = bit_length (fst (quotient_of q)) - bit_length (snd (quotient_of q))
     in if rat_pow 2 k \<le> q then k else k - 1)"

definition round_even :: "rat \<Rightarrow> int" where
  "round_even q = (let f = \<lfloor>q\<rfloor>; r = q - of_int f
     in if r < 1 / 2 then f else if r > 1 / 2 then f + 1 else if even f then f else f + 1)"

text \<open>The double nearest to a rational: 53 bits, the last one not below \<^verbatim>\<open>2^-1074\<close>; from \<^verbatim>\<open>2^1024\<close> on an infinity.\<close>

definition round_abs :: "rat \<Rightarrow> rat" where
  "round_abs q = (let u = max (log2_floor q - 52) (- 1074) in of_int (round_even (q * rat_pow 2 (- u))) * rat_pow 2 u)"

definition round64 :: "rat \<Rightarrow> jsnum" where
  "round64 q =
     (if q = 0 then JFin 0
      else let r = round_abs \<bar>q\<bar>
           in if 1024 \<le> log2_floor r then (if q < 0 then JNegInf else JPosInf)
              else JFin (if q < 0 then - r else r))"


section \<open>Arithmetic\<close>

fun js_neg :: "jsnum \<Rightarrow> jsnum" where
  "js_neg (JFin a) = JFin (- a)"
| "js_neg JPosInf = JNegInf"
| "js_neg JNegInf = JPosInf"
| "js_neg JNaN = JNaN"

fun js_add :: "jsnum \<Rightarrow> jsnum \<Rightarrow> jsnum" where
  "js_add (JFin a) (JFin b) = round64 (a + b)"
| "js_add JPosInf JNegInf = JNaN"
| "js_add JNegInf JPosInf = JNaN"
| "js_add JNaN _ = JNaN"
| "js_add _ JNaN = JNaN"
| "js_add (JFin _) y = y"
| "js_add x _ = x"

definition js_sub :: "jsnum \<Rightarrow> jsnum \<Rightarrow> jsnum" where
  "js_sub x y = js_add x (js_neg y)"

definition js_inf :: "bool \<Rightarrow> jsnum" where
  "js_inf negative = (if negative then JNegInf else JPosInf)"

fun js_negative :: "jsnum \<Rightarrow> bool" where
  "js_negative (JFin a) = (a < 0)"
| "js_negative x = (x = JNegInf)"

fun js_mul :: "jsnum \<Rightarrow> jsnum \<Rightarrow> jsnum" where
  "js_mul (JFin a) (JFin b) = round64 (a * b)"
| "js_mul x y = (if x = JNaN \<or> y = JNaN \<or> x = JFin 0 \<or> y = JFin 0 then JNaN
     else js_inf (js_negative x \<noteq> js_negative y))"

text \<open>The quotient by a zero is an infinity whose sign the model does not fix; the modelled code rejects both.\<close>

fun js_div :: "jsnum \<Rightarrow> jsnum \<Rightarrow> jsnum" where
  "js_div (JFin a) (JFin b) =
     (if b = 0 then (if a = 0 then JNaN else js_inf (a < 0)) else round64 (a / b))"
| "js_div (JFin _) y = (if y = JNaN then JNaN else JFin 0)"
| "js_div x (JFin b) = (if x = JNaN then JNaN else js_inf (js_negative x \<noteq> (b < 0)))"
| "js_div _ _ = JNaN"

definition rat_trunc :: "rat \<Rightarrow> int" where
  "rat_trunc q = (if q < 0 then - \<lfloor>- q\<rfloor> else \<lfloor>q\<rfloor>)"

fun js_rem :: "jsnum \<Rightarrow> jsnum \<Rightarrow> jsnum" where
  "js_rem (JFin a) (JFin b) = (if b = 0 then JNaN else JFin (a - b * of_int (rat_trunc (a / b))))"
| "js_rem (JFin a) y = (if y = JNaN then JNaN else JFin a)"
| "js_rem _ _ = JNaN"

definition js_le :: "jsnum \<Rightarrow> jsnum \<Rightarrow> bool" where
  "js_le x y = (js_lt x y \<or> (x = y \<and> x \<noteq> JNaN))"

definition js_num_eq :: "jsnum \<Rightarrow> jsnum \<Rightarrow> bool" where
  "js_num_eq x y = (x = y \<and> x \<noteq> JNaN)"

text \<open>\<^verbatim>\<open>Number.isInteger\<close>.\<close>

fun js_is_integer :: "jsnum \<Rightarrow> bool" where
  "js_is_integer (JFin a) = (of_int \<lfloor>a\<rfloor> = a)"
| "js_is_integer _ = False"


section \<open>Text to number\<close>

definition digits_value :: "string \<Rightarrow> int" where
  "digits_value s = foldl (\<lambda>n c. 10 * n + (of_char c - 48)) 0 s"

text \<open>The exponent part, when there is one: its value and the rest.\<close>

definition scan_exp :: "string \<Rightarrow> int \<times> string" where
  "scan_exp s =
     (case s of [] \<Rightarrow> (0, s)
      | e # r \<Rightarrow>
          if e = CHR ''e'' \<or> e = CHR ''E'' then
            (let neg = (r \<noteq> [] \<and> hd r = CHR ''-'');
                 r' = (if r \<noteq> [] \<and> (hd r = CHR ''-'' \<or> hd r = CHR ''+'') then tl r else r);
                 ds = takeWhile is_dig r'
             in if ds = [] then (0, s)
                else (if neg then - digits_value ds else digits_value ds, dropWhile is_dig r'))
          else (0, s))"

text \<open>\<^verbatim>\<open>(\d+(\.\d*)?|\.\d+)([eE][+-]?\d+)?\<close> at the head of a text: the exact value and the rest.\<close>

definition scan_decimal :: "string \<Rightarrow> (rat \<times> string) option" where
  "scan_decimal s =
     (let ip = takeWhile is_dig s; r = dropWhile is_dig s;
          dot = (r \<noteq> [] \<and> hd r = CHR ''.'');
          fp = (if dot then takeWhile is_dig (tl r) else []);
          r1 = (if ip \<noteq> [] \<and> dot \<or> fp \<noteq> [] then dropWhile is_dig (tl r) else r)
      in if ip = [] \<and> fp = [] then None
         else (case scan_exp r1 of (e, r2) \<Rightarrow>
           Some (of_int (digits_value (ip @ fp)) * rat_pow 10 (e - int (length fp)), r2)))"

definition signed_decimal :: "string \<Rightarrow> (rat \<times> string) option" where
  "signed_decimal s =
     (case s of
        [] \<Rightarrow> None
      | c # r \<Rightarrow>
          if c = CHR ''-'' then map_option (map_prod uminus id) (scan_decimal r)
          else if c = CHR ''+'' then scan_decimal r
          else scan_decimal s)"

definition digit_in :: "nat \<Rightarrow> char \<Rightarrow> nat option" where
  "digit_in b c = (case hex_value c of None \<Rightarrow> None | Some n \<Rightarrow> if n < b then Some n else None)"

definition radix_value :: "nat \<Rightarrow> string \<Rightarrow> int option" where
  "radix_value b s =
     (if s = [] then None
      else foldl (\<lambda>a c. case (a, digit_in b c) of (Some n, Some d) \<Rightarrow> Some (int b * n + int d) | _ \<Rightarrow> None) (Some 0) s)"

definition radix_prefix :: "string \<Rightarrow> (nat \<times> string) option" where
  "radix_prefix s =
     (case s of
        z # x # r \<Rightarrow>
          if z \<noteq> CHR ''0'' then None
          else if x = CHR ''x'' \<or> x = CHR ''X'' then Some (16, r)
          else if x = CHR ''o'' \<or> x = CHR ''O'' then Some (8, r)
          else if x = CHR ''b'' \<or> x = CHR ''B'' then Some (2, r)
          else None
      | _ \<Rightarrow> None)"

definition js_of_text :: "string \<Rightarrow> jsnum" where
  "js_of_text text =
     (let s = js_trim text
      in if s = [] then JFin 0
         else if s = ''Infinity'' \<or> s = ''+Infinity'' then JPosInf
         else if s = ''-Infinity'' then JNegInf
         else (case radix_prefix s of
                 Some (b, r) \<Rightarrow> (case radix_value b r of None \<Rightarrow> JNaN | Some n \<Rightarrow> round64 (of_int n))
               | None \<Rightarrow> (case signed_decimal s of Some (q, []) \<Rightarrow> round64 q | _ \<Rightarrow> JNaN)))"

text \<open>The value \<^verbatim>\<open>JSON.parse\<close> gives to the lexeme of a number.\<close>

definition js_of_lexeme :: "string \<Rightarrow> jsnum" where
  "js_of_lexeme n = (case signed_decimal n of Some (q, _) \<Rightarrow> round64 q | None \<Rightarrow> JNaN)"



section \<open>Number to text\<close>

text \<open>How many decimal digits stand before the point; for a value below one, minus the zeros behind it.\<close>

function dec_digits :: "int \<Rightarrow> string" where
  "dec_digits n = (if n < 10 then [digit_char (nat n)] else dec_digits (n div 10) @ [digit_char (nat (n mod 10))])"
  by auto
termination by (relation "measure nat") auto

declare dec_digits.simps [simp del]

fun leading_zeros :: "nat \<Rightarrow> rat \<Rightarrow> nat" where
  "leading_zeros 0 v = 0"
| "leading_zeros (Suc f) v = (if 1 \<le> 10 * v then 0 else Suc (leading_zeros f (10 * v)))"

definition dec_point :: "rat \<Rightarrow> int" where
  "dec_point v = (if 1 \<le> v then int (length (dec_digits \<lfloor>v\<rfloor>)) else - int (leading_zeros 400 v))"

text \<open>The fewest digits that read back as the same double, the nearest ones among equally many.\<close>

fun shortest :: "nat \<Rightarrow> nat \<Rightarrow> rat \<Rightarrow> int \<times> int" where
  "shortest 0 k v = (round_even (v * rat_pow 10 (int k - dec_point v)), dec_point v)"
| "shortest (Suc f) k v =
     (let n = dec_point v; s = round_even (v * rat_pow 10 (int k - n))
      in if round64 (of_int s * rat_pow 10 (n - int k)) = JFin v
         then (if s = 10 ^ k then (1, n + 1) else (s, n))
         else shortest f (Suc k) v)"

definition show_digits :: "string \<Rightarrow> int \<Rightarrow> string" where
  "show_digits ds n =
     (let k = int (length ds)
      in if k \<le> n \<and> n \<le> 21 then ds @ replicate (nat (n - k)) (CHR ''0'')
         else if 0 < n \<and> n \<le> 21 then take (nat n) ds @ ''.'' @ drop (nat n) ds
         else if - 6 < n \<and> n \<le> 0 then ''0.'' @ replicate (nat (- n)) (CHR ''0'') @ ds
         else (take 1 ds @ (if k = 1 then [] else ''.'' @ drop 1 ds)) @ ''e'' @
              (if n - 1 < 0 then ''-'' else ''+'') @ dec_digits \<bar>n - 1\<bar>)"

definition show_pos :: "rat \<Rightarrow> string" where
  "show_pos v = (case shortest 16 1 v of (s, n) \<Rightarrow> show_digits (dec_digits s) n)"

fun js_show :: "jsnum \<Rightarrow> string" where
  "js_show JNaN = ''NaN''"
| "js_show JPosInf = ''Infinity''"
| "js_show JNegInf = ''-Infinity''"
| "js_show (JFin a) = (if a = 0 then ''0'' else if a < 0 then CHR ''-'' # show_pos (- a) else show_pos a)"


section \<open>Integers of 53 bits are exact\<close>

lemma bit_length_le: "n < 2 ^ k \<Longrightarrow> bit_length n \<le> int k"
proof (induction k arbitrary: n)
  case 0
  then show ?case by (subst bit_length.simps) simp
next
  case (Suc k)
  then have "n div 2 < 2 ^ k" by simp
  from Suc.IH [OF this] show ?case by (subst bit_length.simps) simp
qed

lemma round_even_int [simp]: "round_even (of_int n) = n"
  by (simp add: round_even_def)

lemma rat_pow_minus: "b \<noteq> 0 \<Longrightarrow> rat_pow b (- e) * rat_pow b e = 1"
  by (cases "e = 0") (auto simp: rat_pow_def)

lemma log2_floor_int: "0 < n \<Longrightarrow> n < 2 ^ 53 \<Longrightarrow> log2_floor (of_int n) \<le> 52"
  using bit_length_le [of n 53] by (simp add: log2_floor_def Let_def bit_length.simps [of 1] bit_length.simps [of 0])

lemma round_abs_int:
  assumes "0 < n" "n < 2 ^ 53"
  shows "round_abs (of_int n) = of_int n"
proof -
  obtain u where u: "u = max (log2_floor (of_int n) - 52) (- 1074)" "u \<le> 0"
    using log2_floor_int [OF assms] by simp
  have "of_int n * rat_pow 2 (- u) = of_int (n * 2 ^ nat (- u))" using u(2) by (simp add: rat_pow_def)
  then have "round_abs (of_int n) = of_int (n * 2 ^ nat (- u)) * rat_pow 2 u"
    unfolding round_abs_def Let_def u(1) [symmetric] by (simp only: round_even_int)
  also have "\<dots> = of_int n * (rat_pow 2 (- u) * rat_pow 2 u)" using u(2) by (simp add: rat_pow_def)
  finally show ?thesis by (simp add: rat_pow_minus)
qed

lemma round64_int [simp]:
  assumes "\<bar>n\<bar> < 2 ^ 53"
  shows "round64 (of_int n) = JFin (of_int n)"
proof (cases "n = 0")
  case False
  then have n: "0 < \<bar>n\<bar>" by simp
  from round_abs_int [OF n assms] log2_floor_int [OF n assms] False show ?thesis
    by (simp add: round64_def Let_def)
qed (simp add: round64_def)

end
