(* ===== verification/Output_Contract.thy ===== *)
theory Output_Contract
  imports Js_Number Effect_Store
begin

text \<open>
  The typed outcome of a step that asked a model for JSON (\<^verbatim>\<open>src/workflows/runtime/llm-output-contract.ts\<close>): the
  parser of schema declarations, the validator of replies and the evaluation that composes them.  A declaration
  and a reply are JSON values; an error is the message of an \<^verbatim>\<open>OutputSchemaError\<close>.  \<open>meets\<close> reads a declaration as
  JSON Schema does, one keyword at a time and without the parser; the theorems say that a declaration the parser
  accepts is validated as exactly that.
\<close>


section \<open>Schemas\<close>

datatype SchemaType = ty_object | ty_array | ty_string | ty_number | ty_integer | ty_boolean | ty_null

fun type_name :: "SchemaType \<Rightarrow> string" where
  "type_name ty_object = ''object''"
| "type_name ty_array = ''array''"
| "type_name ty_string = ''string''"
| "type_name ty_number = ''number''"
| "type_name ty_integer = ''integer''"
| "type_name ty_boolean = ''boolean''"
| "type_name ty_null = ''null''"

definition all_types :: "SchemaType list" where
  "all_types = [ty_object, ty_array, ty_string, ty_number, ty_integer, ty_boolean, ty_null]"

definition type_of_name :: "string \<Rightarrow> SchemaType option" where
  "type_of_name n = List.find (\<lambda>t. type_name t = n) all_types"

text \<open>The keywords of a schema node besides the schemas it contains.\<close>

record SchemaHead =
  sh_type :: SchemaType
  sh_required :: "string list option"
  sh_additional :: "bool option"
  sh_enum :: "json list option"
  sh_minItems :: "rat option"
  sh_maxItems :: "rat option"
  sh_minLength :: "rat option"
  sh_maxLength :: "rat option"
  sh_minimum :: "rat option"
  sh_maximum :: "rat option"
  sh_title :: "string option"
  sh_description :: "string option"

datatype OutputSchema = OutputSchema
  (os_head: SchemaHead) (os_properties: "(string \<times> OutputSchema) list option") (os_items: "OutputSchema option")

definition LIMIT_NODES :: nat where "LIMIT_NODES = 256"
definition LIMIT_DEPTH :: nat where "LIMIT_DEPTH = 8"
definition LIMIT_PROPERTIES :: nat where "LIMIT_PROPERTIES = 64"
definition LIMIT_ENUM :: nat where "LIMIT_ENUM = 64"
definition LIMIT_VIOLATIONS :: nat where "LIMIT_VIOLATIONS = 20"
definition LIMIT_NAME :: nat where "LIMIT_NAME = 128"
definition LIMIT_EXCERPT :: nat where "LIMIT_EXCERPT = 80"

definition KEYWORDS :: "string list" where
  "KEYWORDS = [''type'', ''properties'', ''required'', ''additionalProperties'', ''items'', ''enum'', ''minItems'',
     ''maxItems'', ''minLength'', ''maxLength'', ''minimum'', ''maximum'', ''title'', ''description'']"

definition forbiddenNames :: "string list" where
  "forbiddenNames = [''__proto__'', ''prototype'', ''constructor'']"


section \<open>Names in messages\<close>

definition pointer :: "string \<Rightarrow> string" where
  "pointer n = concat (map (\<lambda>c. if c = CHR ''~'' then ''~0'' else if c = CHR ''/'' then ''~1'' else [c]) n)"

text \<open>The characters of category \<^verbatim>\<open>C\<close> up to U+00FF, and their escape.\<close>

definition control_char :: "char \<Rightarrow> bool" where
  "control_char c = (let n = (of_char c :: nat) in n < 32 \<or> (127 \<le> n \<and> n < 160) \<or> n = 173)"

definition label_char :: "char \<Rightarrow> string" where
  "label_char c =
     (if c = dquote \<or> c = bslash then [bslash, c]
      else if control_char c then [bslash, CHR ''u'', CHR ''0'', CHR ''0'', hex_digit (of_char c div 16),
        hex_digit (of_char c mod 16)]
      else [c])"

definition label :: "string \<Rightarrow> string" where
  "label n = (let escaped = concat (map label_char (pointer n))
     in if length escaped > LIMIT_EXCERPT then take LIMIT_EXCERPT escaped @ ''...'' else escaped)"

definition in_quotes :: "string \<Rightarrow> string" where
  "in_quotes s = dquote # s @ [dquote]"

definition pathAt :: "string \<Rightarrow> string" where
  "pathAt path = (if path = [] then ''/'' else path)"


section \<open>Values\<close>

text \<open>The keys of an object as \<^verbatim>\<open>Object.keys\<close> lists them: array indices in numeric order, then the others.\<close>

definition ownEntries :: "(string \<times> 'v) list \<Rightarrow> (string \<times> 'v) list" where
  "ownEntries kvs =
     sort_key (\<lambda>kv. the (index_value (fst kv))) (filter (\<lambda>kv. index_value (fst kv) \<noteq> None) kvs) @
     filter (\<lambda>kv. index_value (fst kv) = None) kvs"

fun jsonType :: "json \<Rightarrow> SchemaType" where
  "jsonType JNull = ty_null"
| "jsonType (JArr _) = ty_array"
| "jsonType (JObj _) = ty_object"
| "jsonType (JStr _) = ty_string"
| "jsonType (JBool _) = ty_boolean"
| "jsonType (JNum n) = (if js_is_integer (js_of_lexeme n) then ty_integer else ty_number)"

text \<open>\<^verbatim>\<open>===\<close> between JSON values of which the left one is a primitive.\<close>

fun strict_eq :: "json \<Rightarrow> json \<Rightarrow> bool" where
  "strict_eq (JNum a) (JNum b) = js_num_eq (js_of_lexeme a) (js_of_lexeme b)"
| "strict_eq (JStr a) (JStr b) = (a = b)"
| "strict_eq (JBool a) (JBool b) = (a = b)"
| "strict_eq JNull JNull = True"
| "strict_eq _ _ = False"

definition isPrimitive :: "json \<Rightarrow> bool" where
  "isPrimitive v = (\<not> json_object_like v)"

definition typeMatches :: "SchemaType \<Rightarrow> json \<Rightarrow> bool" where
  "typeMatches t v = (jsonType v = t \<or> (t = ty_number \<and> jsonType v = ty_integer))"


section \<open>Reading a declaration\<close>

text \<open>Checks in the order the code makes them: the message of the first one that fails.\<close>

definition firstFail :: "(bool \<times> string) list \<Rightarrow> string option" where
  "firstFail cs = map_option snd (List.find fst cs)"

definition declaredType :: "(string \<times> json) list \<Rightarrow> SchemaType option" where
  "declaredType kvs = (case map_of kvs ''type'' of Some (JStr n) \<Rightarrow> type_of_name n | _ \<Rightarrow> None)"

definition only :: "(string \<times> json) list \<Rightarrow> string \<Rightarrow> SchemaType list \<Rightarrow> bool \<times> string" where
  "only kvs keyword types =
     (map_of kvs keyword \<noteq> None \<and> \<not> (\<exists>t \<in> set types. declaredType kvs = Some t),
      in_quotes keyword @ '' applies to '' @ js_join '' or '' (map type_name types) @ '' only'')"

definition text_or_absent :: "(string \<times> json) list \<Rightarrow> string \<Rightarrow> bool \<times> string" where
  "text_or_absent kvs keyword =
     (case map_of kvs keyword of None \<Rightarrow> False | Some (JStr _) \<Rightarrow> False | _ \<Rightarrow> True,
      in_quotes keyword @ '' must be a string'')"

definition headChecks :: "(string \<times> json) list \<Rightarrow> nat \<Rightarrow> nat \<Rightarrow> (bool \<times> string) list" where
  "headChecks kvs depth nodes =
     [(nodes > LIMIT_NODES, ''schema exceeds '' @ show_nat LIMIT_NODES @ '' nodes''),
      (depth > LIMIT_DEPTH, ''schema nesting exceeds '' @ show_nat LIMIT_DEPTH @ '' levels'')] @
     map (\<lambda>kv. (fst kv \<notin> set KEYWORDS, ''unsupported schema keyword '' @ in_quotes (fst kv))) (ownEntries kvs) @
     [(declaredType kvs = None,
        in_quotes ''type'' @ '' must be one of object, array, string, number, integer, boolean, null''),
      text_or_absent kvs ''title'', text_or_absent kvs ''description'',
      only kvs ''properties'' [ty_object], only kvs ''required'' [ty_object],
      only kvs ''additionalProperties'' [ty_object], only kvs ''items'' [ty_array],
      only kvs ''minItems'' [ty_array], only kvs ''maxItems'' [ty_array], only kvs ''minLength'' [ty_string],
      only kvs ''maxLength'' [ty_string], only kvs ''minimum'' [ty_number, ty_integer],
      only kvs ''maximum'' [ty_number, ty_integer]]"

definition names_of :: "json list \<Rightarrow> string list" where
  "names_of xs = concat (map (\<lambda>x. case x of JStr s \<Rightarrow> [s] | _ \<Rightarrow> []) xs)"

definition nameChecks :: "json list \<Rightarrow> (bool \<times> string) list" where
  "nameChecks xs =
     [(\<exists>x \<in> set xs. case x of JStr s \<Rightarrow> s = [] | _ \<Rightarrow> True,
        in_quotes ''required'' @ '' must be an array of property names''),
      (\<exists>n \<in> set (names_of xs). length n > LIMIT_NAME,
        in_quotes ''required'' @ '' names a property longer than '' @ show_nat LIMIT_NAME @ '' characters''),
      (\<not> distinct (names_of xs), in_quotes ''required'' @ '' lists a property twice''),
      (\<exists>n \<in> set (names_of xs). n \<in> set forbiddenNames,
        in_quotes ''required'' @ '' names a property that is not allowed'')]"

definition objectChecks :: "(string \<times> json) list \<Rightarrow> (bool \<times> string) list" where
  "objectChecks kvs =
     (case map_of kvs ''required'' of
        None \<Rightarrow> []
      | Some (JArr xs) \<Rightarrow> nameChecks xs
      | _ \<Rightarrow> [(True, in_quotes ''required'' @ '' must be an array of property names'')]) @
     [(case map_of kvs ''additionalProperties'' of None \<Rightarrow> False | Some (JBool _) \<Rightarrow> False | _ \<Rightarrow> True,
       in_quotes ''additionalProperties'' @ '' must be true or false'')]"

definition numberAt :: "(string \<times> json) list \<Rightarrow> string \<Rightarrow> rat option" where
  "numberAt kvs keyword =
     (case map_of kvs keyword of
        Some (JNum n) \<Rightarrow> (case js_of_lexeme n of JFin q \<Rightarrow> Some q | _ \<Rightarrow> None)
      | _ \<Rightarrow> None)"

definition integerAtLeastZero :: "(string \<times> json) list \<Rightarrow> string \<Rightarrow> bool \<times> string" where
  "integerAtLeastZero kvs keyword =
     (map_of kvs keyword \<noteq> None \<and>
        (case numberAt kvs keyword of None \<Rightarrow> True | Some q \<Rightarrow> of_int \<lfloor>q\<rfloor> \<noteq> q \<or> q < 0),
      in_quotes keyword @ '' must be a non-negative integer'')"

definition finiteNumber :: "(string \<times> json) list \<Rightarrow> string \<Rightarrow> bool \<times> string" where
  "finiteNumber kvs keyword =
     (map_of kvs keyword \<noteq> None \<and> numberAt kvs keyword = None, in_quotes keyword @ '' must be a finite number'')"

definition ordered :: "(string \<times> json) list \<Rightarrow> string \<Rightarrow> string \<Rightarrow> bool \<times> string" where
  "ordered kvs low high =
     (case (numberAt kvs low, numberAt kvs high) of (Some a, Some b) \<Rightarrow> a > b | _ \<Rightarrow> False,
      in_quotes low @ '' exceeds '' @ in_quotes high)"

definition enumChecks :: "SchemaType \<Rightarrow> json \<Rightarrow> (bool \<times> string) list" where
  "enumChecks t v =
     (case v of
        JArr xs \<Rightarrow>
          [(xs = [], in_quotes ''enum'' @ '' must be a non-empty array''),
           (length xs > LIMIT_ENUM, in_quotes ''enum'' @ '' exceeds '' @ show_nat LIMIT_ENUM @ '' values''),
           (\<exists>x \<in> set xs. \<not> isPrimitive x, in_quotes ''enum'' @ '' values must be strings, numbers, booleans or null''),
           (\<exists>x \<in> set xs. \<not> typeMatches t x,
             in_quotes ''enum'' @ '' contains a value that is not of type '' @ type_name t)]
      | _ \<Rightarrow> [(True, in_quotes ''enum'' @ '' must be a non-empty array'')])"

definition tailChecks :: "SchemaType \<Rightarrow> (string \<times> json) list \<Rightarrow> (bool \<times> string) list" where
  "tailChecks t kvs =
     [integerAtLeastZero kvs ''minItems'', integerAtLeastZero kvs ''maxItems'', integerAtLeastZero kvs ''minLength'',
      integerAtLeastZero kvs ''maxLength'', finiteNumber kvs ''minimum'', finiteNumber kvs ''maximum'',
      ordered kvs ''minItems'' ''maxItems'', ordered kvs ''minLength'' ''maxLength'', ordered kvs ''minimum'' ''maximum''] @
     (case map_of kvs ''enum'' of None \<Rightarrow> [] | Some v \<Rightarrow> enumChecks t v)"

definition textAt :: "(string \<times> json) list \<Rightarrow> string \<Rightarrow> string option" where
  "textAt kvs keyword = (case map_of kvs keyword of Some (JStr s) \<Rightarrow> Some s | _ \<Rightarrow> None)"

definition schemaHead :: "SchemaType \<Rightarrow> (string \<times> json) list \<Rightarrow> SchemaHead" where
  "schemaHead t kvs = \<lparr> sh_type = t,
     sh_required = (case map_of kvs ''required'' of Some (JArr xs) \<Rightarrow> Some (names_of xs) | _ \<Rightarrow> None),
     sh_additional = (case map_of kvs ''additionalProperties'' of Some (JBool b) \<Rightarrow> Some b | _ \<Rightarrow> None),
     sh_enum = (case map_of kvs ''enum'' of Some (JArr xs) \<Rightarrow> Some xs | _ \<Rightarrow> None),
     sh_minItems = numberAt kvs ''minItems'', sh_maxItems = numberAt kvs ''maxItems'',
     sh_minLength = numberAt kvs ''minLength'', sh_maxLength = numberAt kvs ''maxLength'',
     sh_minimum = numberAt kvs ''minimum'', sh_maximum = numberAt kvs ''maximum'',
     sh_title = textAt kvs ''title'', sh_description = textAt kvs ''description'' \<rparr>"

text \<open>A measure on JSON values for the recursions below.\<close>

fun json_weight :: "json \<Rightarrow> nat" where
  "json_weight (JArr xs) = Suc (sum_list (map json_weight xs))"
| "json_weight (JObj kvs) = Suc (sum_list (map (\<lambda>kv. Suc (json_weight (snd kv))) kvs))"
| "json_weight _ = 1"

lemma ownEntries_mset [simp]: "mset (ownEntries kvs) = mset kvs"
  by (simp add: ownEntries_def)

lemma ownEntries_set [simp]: "set (ownEntries kvs) = set kvs"
  by (rule mset_eq_setD) simp

lemma ownEntries_length [simp]: "length (ownEntries kvs) = length kvs"
  by (rule mset_eq_length) simp

lemma ownEntries_sum: "sum_list (map f (ownEntries kvs)) = sum_list (map (f :: _ \<Rightarrow> nat) kvs)"
  by (metis mset_map ownEntries_mset sum_mset_sum_list)

lemma weight_elem: "x \<in> set xs \<Longrightarrow> json_weight x < json_weight (JArr xs)"
  using member_le_sum_list [of "json_weight x" "map json_weight xs"] by simp

lemma weight_member: "kv \<in> set kvs \<Longrightarrow> json_weight (snd kv) < json_weight (JObj kvs)"
  using member_le_sum_list [of "Suc (json_weight (snd kv))" "map (\<lambda>kv. Suc (json_weight (snd kv))) kvs"] by simp

lemma weight_get: "map_of kvs k = Some v \<Longrightarrow> json_weight v < json_weight (JObj kvs)"
  using weight_member [of "(k, v)" kvs] by (simp add: map_of_SomeD)

type_synonym 'a parsed = "string + 'a"

definition failAt :: "string \<Rightarrow> string \<Rightarrow> 'a parsed" where
  "failAt path message = Inl (message @ '' at '' @ pathAt path)"

definition option_weight :: "json option \<Rightarrow> nat" where
  "option_weight x = (case x of None \<Rightarrow> 0 | Some v \<Rightarrow> Suc (3 * json_weight v))"

lemma weight_get_option: "option_weight (map_of kvs k) < 3 * json_weight (JObj kvs)"
proof (cases "map_of kvs k")
  case (Some v)
  from weight_get [OF this] show ?thesis unfolding Some option_weight_def option.case by linarith
qed (simp add: option_weight_def)

text \<open>
  A node, threading the number of nodes read; its \<^verbatim>\<open>properties\<close>; their schemas one by one; its \<^verbatim>\<open>items\<close>.
\<close>

function (sequential) parseNode :: "json \<Rightarrow> string \<Rightarrow> nat \<Rightarrow> nat \<Rightarrow> (OutputSchema \<times> nat) parsed"
  and parseMembers :: "json option \<Rightarrow> string \<Rightarrow> nat \<Rightarrow> nat \<Rightarrow> ((string \<times> OutputSchema) list option \<times> nat) parsed"
  and parseProps :: "(string \<times> json) list \<Rightarrow> string \<Rightarrow> nat \<Rightarrow> nat \<Rightarrow> ((string \<times> OutputSchema) list \<times> nat) parsed"
  and parseItems :: "json option \<Rightarrow> string \<Rightarrow> nat \<Rightarrow> nat \<Rightarrow> (OutputSchema option \<times> nat) parsed"
where
  "parseNode (JObj kvs) path depth nodes =
     (case firstFail (headChecks kvs depth (Suc nodes)) of
        Some m \<Rightarrow> failAt path m
      | None \<Rightarrow> (case parseMembers (map_of kvs ''properties'') path depth (Suc nodes) of
          Inl e \<Rightarrow> Inl e
        | Inr (props, n1) \<Rightarrow> (case firstFail (objectChecks kvs) of
            Some m \<Rightarrow> failAt path m
          | None \<Rightarrow> (case parseItems (map_of kvs ''items'') path depth n1 of
              Inl e \<Rightarrow> Inl e
            | Inr (items, n2) \<Rightarrow> (case firstFail (tailChecks (the (declaredType kvs)) kvs) of
                Some m \<Rightarrow> failAt path m
              | None \<Rightarrow> Inr (OutputSchema (schemaHead (the (declaredType kvs)) kvs) props items, n2))))))"
| "parseNode _ path depth nodes = failAt path ''schema must be an object''"
| "parseMembers None path depth nodes = Inr (None, nodes)"
| "parseMembers (Some (JObj ps)) path depth nodes =
     (if length ps > LIMIT_PROPERTIES then
        failAt path (in_quotes ''properties'' @ '' exceeds '' @ show_nat LIMIT_PROPERTIES @ '' entries'')
      else (case parseProps (ownEntries ps) path depth nodes of Inl e \<Rightarrow> Inl e | Inr (ss, n) \<Rightarrow> Inr (Some ss, n)))"
| "parseMembers (Some _) path depth nodes = failAt path (in_quotes ''properties'' @ '' must be an object'')"
| "parseProps [] path depth nodes = Inr ([], nodes)"
| "parseProps ((k, v) # kvs) path depth nodes =
     (if length k > LIMIT_NAME then
        failAt path (''property name exceeds '' @ show_nat LIMIT_NAME @ '' characters'')
      else if k \<in> set forbiddenNames then failAt path (''property name '' @ in_quotes k @ '' is not allowed'')
      else (case parseNode v (path @ ''/properties/'' @ pointer k) (Suc depth) nodes of
              Inl e \<Rightarrow> Inl e
            | Inr (s, n) \<Rightarrow> (case parseProps kvs path depth n of
                Inl e \<Rightarrow> Inl e | Inr (ss, n') \<Rightarrow> Inr ((k, s) # ss, n'))))"
| "parseItems None path depth nodes = Inr (None, nodes)"
| "parseItems (Some v) path depth nodes =
     (case parseNode v (path @ ''/items'') (Suc depth) nodes of Inl e \<Rightarrow> Inl e | Inr (s, n) \<Rightarrow> Inr (Some s, n))"
  by pat_completeness auto

termination
proof (relation "measure (\<lambda>x. case x of Inl (Inl (v, _)) \<Rightarrow> 3 * json_weight v | Inl (Inr (v, _)) \<Rightarrow> option_weight v
    | Inr (Inl (kvs, _)) \<Rightarrow> 3 * sum_list (map (\<lambda>kv. Suc (json_weight (snd kv))) kvs)
    | Inr (Inr (v, _)) \<Rightarrow> option_weight v)", goal_cases)
  case (2 kvs path depth nodes)
  then show ?case using weight_get_option [of kvs] by (simp del: json_weight.simps)
next
  case (3 kvs path depth nodes a x y)
  then show ?case using weight_get_option [of kvs] by (simp del: json_weight.simps)
next
  case (4 ps path depth nodes)
  then show ?case by (simp add: ownEntries_sum option_weight_def)
qed (simp_all add: option_weight_def)

definition parseOutputSchema :: "json \<Rightarrow> OutputSchema parsed" where
  "parseOutputSchema v = (case parseNode v [] 0 0 of Inl e \<Rightarrow> Inl e | Inr (s, _) \<Rightarrow> Inr s)"


section \<open>Validating a reply\<close>

definition below :: "rat \<Rightarrow> rat option \<Rightarrow> bool" where
  "below q limit = (case limit of None \<Rightarrow> False | Some m \<Rightarrow> q < m)"

definition above :: "rat \<Rightarrow> rat option \<Rightarrow> bool" where
  "above q limit = (case limit of None \<Rightarrow> False | Some m \<Rightarrow> q > m)"

definition numBelow :: "jsnum \<Rightarrow> rat option \<Rightarrow> bool" where
  "numBelow x limit = (case limit of None \<Rightarrow> False | Some m \<Rightarrow> js_lt x (JFin m))"

definition numAbove :: "jsnum \<Rightarrow> rat option \<Rightarrow> bool" where
  "numAbove x limit = (case limit of None \<Rightarrow> False | Some m \<Rightarrow> js_lt (JFin m) x)"

definition reportIf :: "bool \<Rightarrow> string \<Rightarrow> string list" where
  "reportIf b message = (if b then [message] else [])"

definition showLimit :: "rat option \<Rightarrow> string" where
  "showLimit limit = (case limit of None \<Rightarrow> [] | Some q \<Rightarrow> js_show (JFin q))"

definition checkSize :: "string \<Rightarrow> string \<Rightarrow> string \<Rightarrow> string \<Rightarrow> nat \<Rightarrow> rat option \<Rightarrow> rat option \<Rightarrow> string list" where
  "checkSize before short long unit n low high =
     reportIf (below (of_nat n) low) (before @ short @ showLimit low @ unit) @
     reportIf (above (of_nat n) high) (before @ long @ showLimit high @ unit)"

lemma enumerate_mem: "(i, x) \<in> set (enumerate n xs) \<Longrightarrow> x \<in> set xs"
  by (metis enumerate_eq_zip set_zip_rightD)

function check :: "json \<Rightarrow> OutputSchema \<Rightarrow> string \<Rightarrow> string list" where
  "check value (OutputSchema h props items) path =
     (if \<not> typeMatches (sh_type h) value then
        [''expected '' @ type_name (sh_type h) @ '' at '' @ pathAt path @ '', got '' @ type_name (jsonType value)]
      else
        reportIf (case sh_enum h of None \<Rightarrow> False | Some vs \<Rightarrow> \<not> list_ex (\<lambda>x. strict_eq x value) vs)
          (''value at '' @ pathAt path @ '' is not one of the allowed values'') @
        (case value of
           JStr s \<Rightarrow> checkSize (''string at '' @ pathAt path) '' is shorter than '' '' is longer than '' [] (length s)
             (sh_minLength h) (sh_maxLength h)
         | JNum n \<Rightarrow>
             reportIf (numBelow (js_of_lexeme n) (sh_minimum h))
               (''number at '' @ pathAt path @ '' is below '' @ showLimit (sh_minimum h)) @
             reportIf (numAbove (js_of_lexeme n) (sh_maximum h))
               (''number at '' @ pathAt path @ '' is above '' @ showLimit (sh_maximum h))
         | JArr xs \<Rightarrow>
             checkSize (''array at '' @ pathAt path) '' has fewer than '' '' has more than '' '' items'' (length xs)
               (sh_minItems h) (sh_maxItems h) @
             (case items of
                None \<Rightarrow> []
              | Some s \<Rightarrow> concat (map (\<lambda>(i, x). check x s (path @ ''/'' @ show_nat i)) (enumerate 0 xs)))
         | JObj kvs \<Rightarrow>
             concat (map (\<lambda>n. reportIf (map_of kvs n = None)
               (''missing required property '' @ in_quotes (label n) @ '' at '' @ pathAt path)) (js_or (sh_required h) [])) @
             concat (map (\<lambda>(n, x). case map_of (js_or props []) n of
                 Some s \<Rightarrow> check x s (path @ ''/'' @ pointer n)
               | None \<Rightarrow> reportIf (sh_additional h = Some False)
                   (''unexpected property '' @ in_quotes (label n) @ '' at '' @ pathAt path)) (ownEntries kvs))
         | _ \<Rightarrow> []))"
  by pat_completeness auto

termination
  by (relation "measure (\<lambda>(v, _, _). json_weight v)")
    (auto dest!: enumerate_mem weight_elem weight_member simp del: json_weight.simps)

definition validateOutput :: "json \<Rightarrow> OutputSchema \<Rightarrow> string list" where
  "validateOutput value schema =
     (let vs = check value schema []; hidden = length vs - LIMIT_VIOLATIONS
      in take LIMIT_VIOLATIONS vs @
         (if hidden > 0 then [show_nat hidden @ '' more violation'' @ (if hidden = 1 then [] else ''s'') @ '' not listed'']
          else []))"


section \<open>The outcome of a step\<close>

definition outputFailure :: "string \<Rightarrow> string \<Rightarrow> ActionFailure" where
  "outputFailure code message = \<lparr> acf_status = outcome_error, acf_code = code, acf_message = message,
     acf_effect = may_have_occurred \<rparr>"

definition fenced :: "string \<Rightarrow> bool" where
  "fenced text = js_startsWith (dropWhile js_space text) ''```''"

text \<open>\<open>None\<close> in the first component: succeeded; the second is the parsed reply, when the step asked for it.\<close>

definition evaluateLlmOutput :: "string \<Rightarrow> bool \<Rightarrow> OutputSchema option \<Rightarrow> ActionFailure option \<times> json option" where
  "evaluateLlmOutput text parseJson outputSchema =
     (if \<not> parseJson \<and> outputSchema = None then (None, None)
      else (case JSON_parse text of
          None \<Rightarrow> (Some (outputFailure ''INVALID_JSON_OUTPUT''
            (if fenced text then ''The reply is not valid JSON: it starts with a code fence. Ask the model for bare JSON with no fences or commentary.''
             else ''The reply is not valid JSON. Ask the model for bare JSON with no commentary.'')), None)
        | Some parsed \<Rightarrow>
            (case outputSchema of
               None \<Rightarrow> (None, Some parsed)
             | Some schema \<Rightarrow>
                 (let violations = validateOutput parsed schema
                  in if violations \<noteq> [] then (Some (outputFailure ''OUTPUT_SCHEMA_MISMATCH''
                       (''The reply is valid JSON but does not match the declared output schema: '' @ js_join ''; '' violations)), None)
                     else (None, Some parsed)))))"

end
