(* ===== verification/Output_Laws.thy ===== *)
theory Output_Laws
  imports Output_Contract
begin

text \<open>
  What the output contract promises: a declaration the parser accepts is validated exactly as JSON Schema reads
  it, keyword by keyword, so that none is ignored; and what a parsed schema is bounded by.
\<close>


section \<open>A declaration read as JSON Schema\<close>

definition declaredNames :: "(string \<times> json) list \<Rightarrow> string set" where
  "declaredNames kvs = (case map_of kvs ''properties'' of Some (JObj ps) \<Rightarrow> fst ` set ps | _ \<Rightarrow> {})"

definition limitOf :: "json \<Rightarrow> rat option" where
  "limitOf c = (case c of JNum n \<Rightarrow> (case js_of_lexeme n of JFin q \<Rightarrow> Some q | _ \<Rightarrow> None) | _ \<Rightarrow> None)"

text \<open>The keywords that contain no schema (an unknown one is not met by anything); one that JSON Schema does not apply to a value holds of it.\<close>

definition plainKeyword :: "(string \<times> json) list \<Rightarrow> string \<Rightarrow> json \<Rightarrow> json \<Rightarrow> bool" where
  "plainKeyword kvs k c v =
     (if k = ''type'' then (case c of JStr n \<Rightarrow> (\<exists>t \<in> set all_types. type_name t = n \<and> typeMatches t v) | _ \<Rightarrow> False)
      else if k = ''enum'' then (case c of JArr xs \<Rightarrow> (\<exists>x \<in> set xs. strict_eq x v) | _ \<Rightarrow> False)
      else (case v of
          JStr s \<Rightarrow> (k = ''minLength'' \<longrightarrow> \<not> below (of_nat (length s)) (limitOf c)) \<and>
            (k = ''maxLength'' \<longrightarrow> \<not> above (of_nat (length s)) (limitOf c))
        | JNum n \<Rightarrow> (k = ''minimum'' \<longrightarrow> \<not> numBelow (js_of_lexeme n) (limitOf c)) \<and>
            (k = ''maximum'' \<longrightarrow> \<not> numAbove (js_of_lexeme n) (limitOf c))
        | JArr xs \<Rightarrow> (k = ''minItems'' \<longrightarrow> \<not> below (of_nat (length xs)) (limitOf c)) \<and>
            (k = ''maxItems'' \<longrightarrow> \<not> above (of_nat (length xs)) (limitOf c))
        | JObj m \<Rightarrow> (k = ''required'' \<longrightarrow> (case c of JArr ns \<Rightarrow> set (names_of ns) \<subseteq> fst ` set m | _ \<Rightarrow> False)) \<and>
            (k = ''additionalProperties'' \<longrightarrow> c = JBool False \<longrightarrow> fst ` set m \<subseteq> declaredNames kvs)
        | _ \<Rightarrow> True))"

function (sequential) meets :: "json \<Rightarrow> json \<Rightarrow> bool"
  and meetsKeyword :: "(string \<times> json) list \<Rightarrow> string \<Rightarrow> json \<Rightarrow> json \<Rightarrow> bool"
  and meetsMembers :: "json \<Rightarrow> json \<Rightarrow> bool"
where
  "meets (JObj kvs) v = (fst ` set kvs \<subseteq> set KEYWORDS \<and> (\<forall>kv \<in> set kvs. meetsKeyword kvs (fst kv) (snd kv) v))"
| "meets _ v = False"
| "meetsKeyword kvs k c v =
     (if k = ''items'' then (case v of JArr xs \<Rightarrow> (\<forall>x \<in> set xs. meets c x) | _ \<Rightarrow> True)
      else if k = ''properties'' then meetsMembers c v
      else plainKeyword kvs k c v)"
| "meetsMembers (JObj ps) v =
     (case v of JObj m \<Rightarrow> (\<forall>p \<in> set ps. case map_of m (fst p) of None \<Rightarrow> True | Some x \<Rightarrow> meets (snd p) x) | _ \<Rightarrow> True)"
| "meetsMembers _ v = False"
  by pat_completeness auto
termination
  by (relation "measure (\<lambda>x. case x of Inl (d, _) \<Rightarrow> 3 * json_weight d | Inr (Inl (_, _, c, _)) \<Rightarrow> 3 * json_weight c + 2
      | Inr (Inr (c, _)) \<Rightarrow> 3 * json_weight c + 1)")
    (auto dest!: weight_member simp del: json_weight.simps)

fun keys_ok :: "json \<Rightarrow> bool" where
  "keys_ok (JArr xs) = list_all keys_ok xs"
| "keys_ok (JObj kvs) = (distinct (map fst kvs) \<and> list_all (\<lambda>kv. keys_ok (snd kv)) kvs)"
| "keys_ok _ = True"

text \<open>What a parsed schema has to do with its declaration.\<close>

definition honours :: "json \<Rightarrow> OutputSchema \<Rightarrow> bool" where
  "honours d s = (\<forall>v path. keys_ok v \<longrightarrow> (check v s path = [] \<longleftrightarrow> meets d v))"

lemma firstFail_None [simp]: "firstFail cs = None \<longleftrightarrow> (\<forall>c \<in> set cs. \<not> fst c)"
  by (auto simp: firstFail_def find_None_iff)

lemma ball_keywords:
  assumes "distinct (map fst kvs)" "fst ` set kvs \<subseteq> set ks"
  shows "(\<forall>kv \<in> set kvs. P (fst kv) (snd kv)) \<longleftrightarrow> (\<forall>k \<in> set ks. case map_of kvs k of None \<Rightarrow> True | Some c \<Rightarrow> P k c)"
proof
  assume l: "\<forall>kv \<in> set kvs. P (fst kv) (snd kv)"
  show "\<forall>k \<in> set ks. case map_of kvs k of None \<Rightarrow> True | Some c \<Rightarrow> P k c"
    using l by (fastforce split: option.split dest: map_of_SomeD)
next
  assume r: "\<forall>k \<in> set ks. case map_of kvs k of None \<Rightarrow> True | Some c \<Rightarrow> P k c"
  show "\<forall>kv \<in> set kvs. P (fst kv) (snd kv)"
  proof
    fix kv assume kv: "kv \<in> set kvs"
    then have "map_of kvs (fst kv) = Some (snd kv)" using assms(1) by simp
    moreover have "fst kv \<in> set ks" using kv assms(2) by auto
    ultimately show "P (fst kv) (snd kv)" using r by (metis option.simps(5))
  qed
qed

lemma type_of_name_Some: "type_of_name n = Some t \<longleftrightarrow> type_name t = n"
  by (cases t) (auto simp: type_of_name_def all_types_def)

lemma all_types [simp]: "t \<in> set all_types"
  by (cases t) (simp_all add: all_types_def)

lemma type_name_inj: "type_name a = type_name b \<Longrightarrow> a = b"
  by (metis type_of_name_Some option.inject)


section \<open>One node\<close>

lemma reportIf_Nil [simp]: "reportIf b m = [] \<longleftrightarrow> \<not> b"
  by (simp add: reportIf_def)

lemma checkSize_Nil [simp]: "checkSize a b c d n low high = [] \<longleftrightarrow> \<not> below (of_nat n) low \<and> \<not> above (of_nat n) high"
  by (simp add: checkSize_def)

lemma numberAt_limit: "numberAt kvs k = (case map_of kvs k of None \<Rightarrow> None | Some c \<Rightarrow> limitOf c)"
  by (simp add: numberAt_def limitOf_def split: option.split json.split)

lemma enum_ex: "list_ex (\<lambda>x. strict_eq x v) xs \<longleftrightarrow> (\<exists>x \<in> set xs. strict_eq x v)"
  by (simp add: list_ex_iff)

text \<open>The items of an array, and the members of an object against the properties of a declaration.\<close>

lemma ball_enumerate: "(\<forall>(i, x) \<in> set (enumerate n xs). P x) \<longleftrightarrow> (\<forall>x \<in> set xs. P x)"
  by (induction xs arbitrary: n) simp_all

lemma items_honoured:
  assumes "honours d s" "\<forall>x \<in> set xs. keys_ok x"
  shows "concat (map (\<lambda>(i, x). check x s (f i)) (enumerate n xs)) = [] \<longleftrightarrow> (\<forall>x \<in> set xs. meets d x)"
proof -
  have "concat (map (\<lambda>(i, x). check x s (f i)) (enumerate n xs)) = [] \<longleftrightarrow>
      (\<forall>(i, x) \<in> set (enumerate n xs). check x s (f i) = [])" by (auto simp: concat_eq_Nil_conv)
  also have "\<dots> \<longleftrightarrow> (\<forall>(i, x) \<in> set (enumerate n xs). meets d x)"
    using assms enumerate_mem [of _ _ n xs] unfolding honours_def by fast
  also have "\<dots> \<longleftrightarrow> (\<forall>x \<in> set xs. meets d x)"
    by (rule ball_enumerate)
  finally show ?thesis .
qed

definition honoured_props :: "(string \<times> json) list \<Rightarrow> (string \<times> OutputSchema) list \<Rightarrow> bool" where
  "honoured_props ps ss = list_all2 (\<lambda>p s. fst s = fst p \<and> honours (snd p) (snd s)) ps ss"

lemma honoured_get:
  "honoured_props ps ss \<Longrightarrow>
    (case map_of ss n of None \<Rightarrow> map_of ps n = None | Some s \<Rightarrow> \<exists>d. map_of ps n = Some d \<and> honours d s)"
  unfolding honoured_props_def by (induction rule: list_all2_induct) (auto split: option.splits)

lemma members_honoured:
  assumes "honoured_props ps ss" "distinct (map fst ps)" "distinct (map fst m)" "\<forall>kv \<in> set m. keys_ok (snd kv)"
  shows "(\<forall>(n, x) \<in> set m. case map_of ss n of Some s \<Rightarrow> check x s (f n) = [] | None \<Rightarrow> \<not> strict) \<longleftrightarrow>
    (\<forall>p \<in> set ps. case map_of m (fst p) of None \<Rightarrow> True | Some x \<Rightarrow> meets (snd p) x) \<and>
    (strict \<longrightarrow> fst ` set m \<subseteq> fst ` set ps)"
proof -
  have eq: "check x s q = [] \<longleftrightarrow> meets d x" if "honours d s" "(n, x) \<in> set m" for d s n x q
    using that assms(4) unfolding honours_def by auto
  have "(\<forall>(n, x) \<in> set m. case map_of ss n of Some s \<Rightarrow> check x s (f n) = [] | None \<Rightarrow> \<not> strict) \<longleftrightarrow>
      (\<forall>(n, x) \<in> set m. case map_of ps n of Some d \<Rightarrow> meets d x | None \<Rightarrow> \<not> strict)"
  proof (rule ball_cong [OF refl], clarify)
    fix n x assume "(n, x) \<in> set m"
    then show "(case map_of ss n of Some s \<Rightarrow> check x s (f n) = [] | None \<Rightarrow> \<not> strict) =
        (case map_of ps n of Some d \<Rightarrow> meets d x | None \<Rightarrow> \<not> strict)"
      using honoured_get [OF assms(1), of n] eq by (auto split: option.splits)
  qed
  also have "\<dots> \<longleftrightarrow> (\<forall>p \<in> set ps. case map_of m (fst p) of None \<Rightarrow> True | Some x \<Rightarrow> meets (snd p) x) \<and>
      (strict \<longrightarrow> fst ` set m \<subseteq> fst ` set ps)" (is "?l \<longleftrightarrow> ?r1 \<and> ?r2")
  proof
    assume l: ?l
    have ?r1
    proof
      fix p assume "p \<in> set ps"
      then have d: "map_of ps (fst p) = Some (snd p)" using assms(2) by simp
      show "case map_of m (fst p) of None \<Rightarrow> True | Some x \<Rightarrow> meets (snd p) x"
      proof (cases "map_of m (fst p)")
        case (Some x)
        then have "(fst p, x) \<in> set m" by (rule map_of_SomeD)
        with l d Some show ?thesis by fastforce
      qed simp
    qed
    moreover have ?r2
    proof (intro impI subsetI)
      fix n assume "strict" "n \<in> fst ` set m"
      then obtain x where "(n, x) \<in> set m" by auto
      with l \<open>strict\<close> show "n \<in> fst ` set ps"
        by (cases "map_of ps n") (auto dest!: map_of_SomeD intro: rev_image_eqI)
    qed
    ultimately show "?r1 \<and> ?r2" by blast
  next
    assume r: "?r1 \<and> ?r2"
    show ?l
    proof clarify
      fix n x assume nx: "(n, x) \<in> set m"
      then have "map_of m n = Some x" using assms(3) by simp
      have "fst ` set m \<subseteq> fst ` set ps" if strict using r that by blast
      with nx have miss: "map_of ps n = None \<Longrightarrow> \<not> strict" by (force simp: map_of_eq_None_iff)
      have hit: "meets d x" if "map_of ps n = Some d" for d
      proof -
        from r have "case map_of m (fst (n, d)) of None \<Rightarrow> True | Some x \<Rightarrow> meets (snd (n, d)) x"
          using map_of_SomeD [OF that] by blast
        with \<open>map_of m n = Some x\<close> show ?thesis by simp
      qed
      show "case map_of ps n of Some d \<Rightarrow> meets d x | None \<Rightarrow> \<not> strict"
      proof (cases "map_of ps n")
        case None
        from miss [OF this] show ?thesis unfolding None by simp
      next
        case (Some d)
        from hit [OF this] show ?thesis unfolding Some by simp
      qed
    qed
  qed
  finally show ?thesis .
qed

text \<open>What the checks of a node establish.\<close>

lemma checked_node:
  assumes "firstFail (headChecks kvs depth nodes) = None" "firstFail (objectChecks kvs) = None"
    "firstFail (tailChecks (the (declaredType kvs)) kvs) = None"
  obtains t where "declaredType kvs = Some t" "map_of kvs ''type'' = Some (JStr (type_name t))"
    "fst ` set kvs \<subseteq> set KEYWORDS" "nodes \<le> LIMIT_NODES" "depth \<le> LIMIT_DEPTH"
    "map_of kvs ''required'' = None \<or> (\<exists>xs. map_of kvs ''required'' = Some (JArr xs))"
    "map_of kvs ''additionalProperties'' = None \<or> (\<exists>b. map_of kvs ''additionalProperties'' = Some (JBool b))"
    "map_of kvs ''enum'' = None \<or> (\<exists>xs. map_of kvs ''enum'' = Some (JArr xs))"
proof -
  have h: "\<forall>c \<in> set (headChecks kvs depth nodes). \<not> fst c" using assms(1) by simp
  then have "declaredType kvs \<noteq> None" by (simp add: headChecks_def)
  then obtain t where t: "declaredType kvs = Some t" by blast
  moreover from t have "map_of kvs ''type'' = Some (JStr (type_name t))"
    by (auto simp: declaredType_def type_of_name_Some split: option.splits json.splits)
  moreover have "fst ` set kvs \<subseteq> set KEYWORDS" "nodes \<le> LIMIT_NODES" "depth \<le> LIMIT_DEPTH"
    using h by (auto simp: headChecks_def)
  moreover have o: "\<forall>c \<in> set (objectChecks kvs). \<not> fst c" and e: "\<forall>c \<in> set (tailChecks t kvs). \<not> fst c"
    using assms(2,3) t by simp_all
  have "map_of kvs ''required'' = None \<or> (\<exists>xs. map_of kvs ''required'' = Some (JArr xs))"
  proof (cases "map_of kvs ''required''")
    case (Some c)
    with o show ?thesis by (cases c) (simp_all add: objectChecks_def)
  qed simp
  moreover have "map_of kvs ''additionalProperties'' = None \<or> (\<exists>b. map_of kvs ''additionalProperties'' = Some (JBool b))"
  proof (cases "map_of kvs ''additionalProperties''")
    case (Some c)
    with o show ?thesis by (cases c) (simp_all add: objectChecks_def)
  qed simp
  moreover have "map_of kvs ''enum'' = None \<or> (\<exists>xs. map_of kvs ''enum'' = Some (JArr xs))"
  proof (cases "map_of kvs ''enum''")
    case (Some c)
    with e show ?thesis by (cases c) (simp_all add: tailChecks_def enumChecks_def)
  qed simp
  ultimately show ?thesis using that by blast
qed

definition membersHonoured :: "json option \<Rightarrow> (string \<times> OutputSchema) list option \<Rightarrow> bool" where
  "membersHonoured d r = (case d of None \<Rightarrow> r = None
     | Some (JObj ps) \<Rightarrow> distinct (map fst ps) \<and> (\<exists>ss. r = Some ss \<and> honoured_props (ownEntries ps) ss)
     | _ \<Rightarrow> False)"

definition itemsHonoured :: "json option \<Rightarrow> OutputSchema option \<Rightarrow> bool" where
  "itemsHonoured d r = (case d of None \<Rightarrow> r = None | Some v \<Rightarrow> (\<exists>s. r = Some s \<and> honours v s))"

lemma meets_keywords:
  assumes "distinct (map fst kvs)" "fst ` set kvs \<subseteq> set KEYWORDS"
  shows "meets (JObj kvs) v \<longleftrightarrow>
    (\<forall>k \<in> set KEYWORDS. case map_of kvs k of None \<Rightarrow> True | Some c \<Rightarrow> meetsKeyword kvs k c v)"
  using ball_keywords [OF assms, of "\<lambda>k c. meetsKeyword kvs k c v"] assms(2) by simp

lemma typed_value:
  "typeMatches t (JStr x) \<longleftrightarrow> t = ty_string" "typeMatches t (JArr xs) \<longleftrightarrow> t = ty_array"
  "typeMatches t (JObj m) \<longleftrightarrow> t = ty_object" "typeMatches t JNull \<longleftrightarrow> t = ty_null"
  "typeMatches t (JBool b) \<longleftrightarrow> t = ty_boolean"
  "typeMatches t (JNum n) \<Longrightarrow> t = ty_number \<or> t = ty_integer"
  by (auto simp: typeMatches_def split: if_splits)

definition plainMet :: "(string \<times> json) list \<Rightarrow> string \<Rightarrow> json \<Rightarrow> bool" where
  "plainMet kvs k v = (case map_of kvs k of None \<Rightarrow> True | Some c \<Rightarrow> plainKeyword kvs k c v)"

definition itemsMet :: "json option \<Rightarrow> json \<Rightarrow> bool" where
  "itemsMet d v = (case v of JArr xs \<Rightarrow> (case d of None \<Rightarrow> True | Some c \<Rightarrow> \<forall>x \<in> set xs. meets c x) | _ \<Rightarrow> True)"

lemma meets_split:
  assumes "distinct (map fst kvs)" "fst ` set kvs \<subseteq> set KEYWORDS" "declaredType kvs = Some t"
    "map_of kvs ''type'' = Some (JStr (type_name t))"
  shows "meets (JObj kvs) v \<longleftrightarrow> typeMatches t v \<and> plainMet kvs ''enum'' v \<and>
    (case map_of kvs ''properties'' of None \<Rightarrow> True | Some c \<Rightarrow> meetsMembers c v) \<and>
    itemsMet (map_of kvs ''items'') v \<and>
    (\<forall>k \<in> {''required'', ''additionalProperties'', ''minItems'', ''maxItems'', ''minLength'', ''maxLength'',
       ''minimum'', ''maximum''}. plainMet kvs k v)"
proof -
  let ?Q = "\<lambda>k. case map_of kvs k of None \<Rightarrow> True | Some c \<Rightarrow> meetsKeyword kvs k c v"
  have ty: "?Q ''type'' = typeMatches t v"
    using assms(4) by (auto simp: plainKeyword_def dest: type_name_inj)
  have doc: "?Q ''title'' = True" "?Q ''description'' = True"
    by (simp_all add: plainKeyword_def split: json.split option.split)
  have plain: "?Q k = plainMet kvs k v" if "k \<noteq> ''items''" "k \<noteq> ''properties''" for k
    using that by (simp add: plainMet_def split: option.split)
  have nested: "?Q ''properties'' = (case map_of kvs ''properties'' of None \<Rightarrow> True | Some c \<Rightarrow> meetsMembers c v)"
    "?Q ''items'' = itemsMet (map_of kvs ''items'') v"
    by (simp_all add: itemsMet_def split: option.split json.split)
  have plains: "?Q ''required'' = plainMet kvs ''required'' v" "?Q ''enum'' = plainMet kvs ''enum'' v"
    "?Q ''additionalProperties'' = plainMet kvs ''additionalProperties'' v"
    "?Q ''minItems'' = plainMet kvs ''minItems'' v" "?Q ''maxItems'' = plainMet kvs ''maxItems'' v"
    "?Q ''minLength'' = plainMet kvs ''minLength'' v" "?Q ''maxLength'' = plainMet kvs ''maxLength'' v"
    "?Q ''minimum'' = plainMet kvs ''minimum'' v" "?Q ''maximum'' = plainMet kvs ''maximum'' v"
    by (rule plain; simp)+
  have "(\<forall>k \<in> set KEYWORDS. ?Q k) \<longleftrightarrow> ?Q ''type'' \<and> ?Q ''properties'' \<and> ?Q ''required'' \<and> ?Q ''additionalProperties'' \<and>
      ?Q ''items'' \<and> ?Q ''enum'' \<and> ?Q ''minItems'' \<and> ?Q ''maxItems'' \<and> ?Q ''minLength'' \<and> ?Q ''maxLength'' \<and>
      ?Q ''minimum'' \<and> ?Q ''maximum'' \<and> ?Q ''title'' \<and> ?Q ''description''"
    unfolding KEYWORDS_def by (simp only: list.set ball_simps simp_thms)
  also have "\<dots> \<longleftrightarrow> typeMatches t v \<and> plainMet kvs ''enum'' v \<and>
    (case map_of kvs ''properties'' of None \<Rightarrow> True | Some c \<Rightarrow> meetsMembers c v) \<and>
    itemsMet (map_of kvs ''items'') v \<and>
    (\<forall>k \<in> {''required'', ''additionalProperties'', ''minItems'', ''maxItems'', ''minLength'', ''maxLength'',
       ''minimum'', ''maximum''}. plainMet kvs k v)"
    unfolding ty doc nested plains
    by (simp only: ball_simps simp_thms) (rule iffI; elim conjE; intro conjI; assumption)
  finally show ?thesis using meets_keywords [OF assms(1,2)] by simp
qed

lemma plain_limits:
  "plainMet kvs ''minLength'' (JStr x) \<longleftrightarrow> \<not> below (of_nat (length x)) (numberAt kvs ''minLength'')"
  "plainMet kvs ''maxLength'' (JStr x) \<longleftrightarrow> \<not> above (of_nat (length x)) (numberAt kvs ''maxLength'')"
  "plainMet kvs ''minimum'' (JNum n) \<longleftrightarrow> \<not> numBelow (js_of_lexeme n) (numberAt kvs ''minimum'')"
  "plainMet kvs ''maximum'' (JNum n) \<longleftrightarrow> \<not> numAbove (js_of_lexeme n) (numberAt kvs ''maximum'')"
  "plainMet kvs ''minItems'' (JArr xs) \<longleftrightarrow> \<not> below (of_nat (length xs)) (numberAt kvs ''minItems'')"
  "plainMet kvs ''maxItems'' (JArr xs) \<longleftrightarrow> \<not> above (of_nat (length xs)) (numberAt kvs ''maxItems'')"
  unfolding plainMet_def numberAt_limit
  by (simp_all add: plainKeyword_def below_def above_def numBelow_def numAbove_def split: option.split)

lemma plain_elsewhere:
  "k \<notin> {''type'', ''enum''} \<Longrightarrow> v \<in> {JNull, JBool b} \<Longrightarrow> plainMet kvs k v"
  "k \<notin> {''type'', ''enum'', ''minLength'', ''maxLength''} \<Longrightarrow> plainMet kvs k (JStr x)"
  "k \<notin> {''type'', ''enum'', ''minimum'', ''maximum''} \<Longrightarrow> plainMet kvs k (JNum n)"
  "k \<notin> {''type'', ''enum'', ''minItems'', ''maxItems''} \<Longrightarrow> plainMet kvs k (JArr xs)"
  "k \<notin> {''type'', ''enum'', ''required'', ''additionalProperties''} \<Longrightarrow> plainMet kvs k (JObj m)"
  unfolding plainMet_def by (auto simp: plainKeyword_def split: option.split)

lemma plain_object:
  assumes "map_of kvs ''required'' = None \<or> (\<exists>xs. map_of kvs ''required'' = Some (JArr xs))"
    "map_of kvs ''additionalProperties'' = None \<or> (\<exists>b. map_of kvs ''additionalProperties'' = Some (JBool b))"
  shows "plainMet kvs ''required'' (JObj m) \<longleftrightarrow>
      (\<forall>n \<in> set (js_or (sh_required (schemaHead t kvs)) []). map_of m n \<noteq> None)"
    "plainMet kvs ''additionalProperties'' (JObj m) \<longleftrightarrow>
      (sh_additional (schemaHead t kvs) = Some False \<longrightarrow> fst ` set m \<subseteq> declaredNames kvs)"
proof -
  have "map_of m n \<noteq> None \<longleftrightarrow> n \<in> fst ` set m" for n by (simp add: map_of_eq_None_iff)
  with assms(1) show "plainMet kvs ''required'' (JObj m) \<longleftrightarrow>
      (\<forall>n \<in> set (js_or (sh_required (schemaHead t kvs)) []). map_of m n \<noteq> None)"
    by (elim disjE exE) (auto simp: plainMet_def plainKeyword_def schemaHead_def js_or_def)
  from assms(2) show "plainMet kvs ''additionalProperties'' (JObj m) \<longleftrightarrow>
      (sh_additional (schemaHead t kvs) = Some False \<longrightarrow> fst ` set m \<subseteq> declaredNames kvs)"
    by (elim disjE exE) (auto simp: plainMet_def plainKeyword_def schemaHead_def)
qed

lemma plain_enum:
  assumes "map_of kvs ''enum'' = None \<or> (\<exists>xs. map_of kvs ''enum'' = Some (JArr xs))"
  shows "plainMet kvs ''enum'' v \<longleftrightarrow>
    \<not> (case sh_enum (schemaHead t kvs) of None \<Rightarrow> False | Some vs \<Rightarrow> \<not> list_ex (\<lambda>x. strict_eq x v) vs)"
  using assms by (elim disjE exE) (auto simp: plainMet_def plainKeyword_def schemaHead_def list_ex_iff)

lemma schemaHead_sel [simp]:
  "sh_type (schemaHead t kvs) = t" "sh_minItems (schemaHead t kvs) = numberAt kvs ''minItems''"
  "sh_maxItems (schemaHead t kvs) = numberAt kvs ''maxItems''" "sh_minLength (schemaHead t kvs) = numberAt kvs ''minLength''"
  "sh_maxLength (schemaHead t kvs) = numberAt kvs ''maxLength''" "sh_minimum (schemaHead t kvs) = numberAt kvs ''minimum''"
  "sh_maximum (schemaHead t kvs) = numberAt kvs ''maximum''"
  by (simp_all add: schemaHead_def)

lemma node_honours:
  assumes "firstFail (headChecks kvs depth nodes) = None" "firstFail (objectChecks kvs) = None"
    "firstFail (tailChecks (the (declaredType kvs)) kvs) = None" "distinct (map fst kvs)"
    and props: "membersHonoured (map_of kvs ''properties'') props" and items: "itemsHonoured (map_of kvs ''items'') items"
  shows "honours (JObj kvs) (OutputSchema (schemaHead (the (declaredType kvs)) kvs) props items)"
  unfolding honours_def
proof (intro allI impI)
  fix v path assume v: "keys_ok v"
  from checked_node [OF assms(1-3)] obtain t where t: "declaredType kvs = Some t"
    "map_of kvs ''type'' = Some (JStr (type_name t))" "fst ` set kvs \<subseteq> set KEYWORDS"
    and req: "map_of kvs ''required'' = None \<or> (\<exists>xs. map_of kvs ''required'' = Some (JArr xs))"
    and add: "map_of kvs ''additionalProperties'' = None \<or> (\<exists>b. map_of kvs ''additionalProperties'' = Some (JBool b))"
    and enum: "map_of kvs ''enum'' = None \<or> (\<exists>xs. map_of kvs ''enum'' = Some (JArr xs))" by metis
  note split_ = meets_split [OF assms(4) t(3,1,2)]
  have the_t: "the (declaredType kvs) = t" using t(1) by simp
  have members: "meetsMembers c v" if "map_of kvs ''properties'' = Some c" "\<And>m. v \<noteq> JObj m" for c
    using props that unfolding membersHonoured_def by (cases c; cases v) auto
  show "(check v (OutputSchema (schemaHead (the (declaredType kvs)) kvs) props items) path = []) = meets (JObj kvs) v"
  proof (cases "typeMatches t v")
    case False
    then show ?thesis unfolding split_ the_t by simp
  next
    case typed: True
    show ?thesis
    proof (cases v)
      case (JArr xs)
      have "(case items of None \<Rightarrow> []
            | Some s \<Rightarrow> concat (map (\<lambda>(i, x). check x s (path @ ''/'' @ show_nat i)) (enumerate 0 xs))) = [] \<longleftrightarrow>
          itemsMet (map_of kvs ''items'') (JArr xs)"
      proof (cases "map_of kvs ''items''")
        case (Some d)
        with items obtain s where "items = Some s" "honours d s" by (auto simp: itemsHonoured_def)
        moreover have "\<forall>x \<in> set xs. keys_ok x" using v JArr by (simp add: list_all_iff)
        ultimately show ?thesis using items_honoured [of d s xs] unfolding Some itemsMet_def
          by (simp only: option.case json.case)
      qed (use items in \<open>simp add: itemsHonoured_def itemsMet_def\<close>)
      moreover have "case map_of kvs ''properties'' of None \<Rightarrow> True | Some c \<Rightarrow> meetsMembers c (JArr xs)"
        using members JArr by (simp split: option.split)
      ultimately show ?thesis using typed
        by (simp add: JArr split_ the_t plain_enum [OF enum, of _ t] plain_limits plain_elsewhere
            del: meets.simps meetsMembers.simps) blast
    next
      case (JObj m)
      let ?additional = "sh_additional (schemaHead t kvs) = Some False"
      have m: "distinct (map fst m)" "\<forall>kv \<in> set m. keys_ok (snd kv)" using v JObj by (auto simp: list_all_iff)
      have mem: "(\<forall>(n, x) \<in> set m. case map_of (js_or props []) n of Some s \<Rightarrow> check x s (path @ ''/'' @ pointer n) = []
            | None \<Rightarrow> \<not> ?additional) \<longleftrightarrow>
          (case map_of kvs ''properties'' of None \<Rightarrow> True | Some c \<Rightarrow> meetsMembers c (JObj m)) \<and>
          (?additional \<longrightarrow> fst ` set m \<subseteq> declaredNames kvs)"
      proof (cases "map_of kvs ''properties''")
        case None
        with props have "props = None" by (simp add: membersHonoured_def)
        then show ?thesis unfolding None by (cases m) (auto simp: js_or_def declaredNames_def None)
      next
        case (Some d)
        with props obtain ps ss where d: "d = JObj ps" "distinct (map fst ps)" "props = Some ss"
          "honoured_props (ownEntries ps) ss" by (auto simp: membersHonoured_def split: json.splits)
        have "distinct (map fst (ownEntries ps))" using d(2)
          by (metis mset_map mset_eq_imp_distinct_iff ownEntries_mset)
        from members_honoured [OF d(4) this m] show ?thesis unfolding Some
          by (simp add: d(1,3) js_or_def declaredNames_def Some)
      qed
      have flat: "concat (map (\<lambda>(n, x). case map_of (js_or props []) n of
                 Some s \<Rightarrow> check x s (path @ ''/'' @ pointer n)
               | None \<Rightarrow> reportIf ?additional
                   (''unexpected property '' @ in_quotes (label n) @ '' at '' @ pathAt path)) (ownEntries m)) = [] \<longleftrightarrow>
          (\<forall>(n, x) \<in> set m. case map_of (js_or props []) n of Some s \<Rightarrow> check x s (path @ ''/'' @ pointer n) = []
            | None \<Rightarrow> \<not> ?additional)"
        by (auto simp: concat_eq_Nil_conv split: option.splits)
      have req_flat: "concat (map (\<lambda>n. reportIf (map_of m n = None) (f n)) ns) = [] \<longleftrightarrow> (\<forall>n \<in> set ns. map_of m n \<noteq> None)"
        for f ns by (simp add: concat_eq_Nil_conv)
      have "check v (OutputSchema (schemaHead t kvs) props items) path = [] \<longleftrightarrow> plainMet kvs ''enum'' (JObj m) \<and>
          plainMet kvs ''required'' (JObj m) \<and>
          (case map_of kvs ''properties'' of None \<Rightarrow> True | Some c \<Rightarrow> meetsMembers c (JObj m)) \<and>
          plainMet kvs ''additionalProperties'' (JObj m)"
        using typed unfolding JObj check.simps schemaHead_sel not_not if_not_P [of "\<not> typeMatches t (JObj m)"] json.case
          append_is_Nil_conv reportIf_Nil flat mem req_flat plain_object [OF req add, of m t] plain_enum [OF enum, of _ t]
        by (simp only: simp_thms if_True if_False append_is_Nil_conv reportIf_Nil flat mem req_flat conj_assoc)
      moreover have "meets (JObj kvs) v \<longleftrightarrow> plainMet kvs ''enum'' (JObj m) \<and>
          (case map_of kvs ''properties'' of None \<Rightarrow> True | Some c \<Rightarrow> meetsMembers c (JObj m)) \<and>
          plainMet kvs ''required'' (JObj m) \<and> plainMet kvs ''additionalProperties'' (JObj m)"
        using typed unfolding JObj split_ by (simp add: itemsMet_def plain_elsewhere del: meetsMembers.simps)
      ultimately show ?thesis unfolding the_t by blast
    qed (use typed members in \<open>auto simp: split_ the_t itemsMet_def plain_enum [OF enum, of _ t] plain_limits plain_elsewhere simp del: meets.simps split: option.split\<close>)
  qed
qed


section \<open>The parser\<close>

lemma parse_honours:
  "parseNode d path depth nodes = Inr (s, n') \<Longrightarrow> keys_ok d \<Longrightarrow> honours d s"
  "parseMembers ms path depth nodes = Inr (r, n') \<Longrightarrow> (\<forall>d. ms = Some d \<longrightarrow> keys_ok d) \<Longrightarrow> membersHonoured ms r"
  "parseProps ps path depth nodes = Inr (ss, n') \<Longrightarrow> (\<forall>p \<in> set ps. keys_ok (snd p)) \<Longrightarrow> honoured_props ps ss"
  "parseItems i path depth nodes = Inr (it, n') \<Longrightarrow> (\<forall>d. i = Some d \<longrightarrow> keys_ok d) \<Longrightarrow> itemsHonoured i it"
proof (induction d path depth nodes and ms path depth nodes and ps path depth nodes and i path depth nodes
    arbitrary: s n' and r n' and ss n' and it n' rule: parseNode_parseMembers_parseProps_parseItems.induct)
  case (1 kvs path depth nodes)
  have sub: "keys_ok d" if "map_of kvs k = Some d" for k d
    using 1(4) map_of_SomeD [OF that] by (auto simp: list_all_iff)
  from 1(3) obtain props n1 items n2 where p: "firstFail (headChecks kvs depth (Suc nodes)) = None"
    "parseMembers (map_of kvs ''properties'') path depth (Suc nodes) = Inr (props, n1)"
    "firstFail (objectChecks kvs) = None" "parseItems (map_of kvs ''items'') path depth n1 = Inr (items, n2)"
    "firstFail (tailChecks (the (declaredType kvs)) kvs) = None"
    "s = OutputSchema (schemaHead (the (declaredType kvs)) kvs) props items"
    by (auto simp del: firstFail_None simp: failAt_def split: option.splits sum.splits prod.splits)
  have "membersHonoured (map_of kvs ''properties'') props"
    using sub by (intro 1(1) [OF p(1,2)]) blast
  moreover have "itemsHonoured (map_of kvs ''items'') items"
    using sub by (intro 1(2) [OF p(1,2) refl p(3,4)]) blast
  ultimately show ?case unfolding p(6) using 1(4) by (intro node_honours [OF p(1,3,5)]) simp_all
qed (auto simp: failAt_def membersHonoured_def honoured_props_def itemsHonoured_def list_all_iff
    split: if_splits sum.splits prod.splits)


section \<open>Parsed values have one entry per key\<close>

lemma js_obj_of_keys:
  assumes "\<forall>kv \<in> set kvs. keys_ok (snd kv)"
  shows "keys_ok (JObj (js_obj_of kvs))"
proof -
  have "distinct (map fst m) \<Longrightarrow> (\<forall>kv \<in> set m. keys_ok (snd kv)) \<Longrightarrow>
      distinct (map fst (fold (\<lambda>(k, v) m. js_set k v m) kvs m)) \<and>
      (\<forall>kv \<in> set (fold (\<lambda>(k, v) m. js_set k v m) kvs m). keys_ok (snd kv))" for m
    using assms
  proof (induction kvs arbitrary: m)
    case (Cons kv kvs)
    obtain k v where kv: "kv = (k, v)" by fastforce
    have "\<forall>x \<in> set (js_set k v m). keys_ok (snd x)"
      using Cons.prems js_values_update [of _ k v m] kv by fastforce
    moreover have "distinct (map fst (js_set k v m))" using Cons.prems(1) by (rule distinct_update)
    ultimately show ?case using Cons.IH [of "js_set k v m"] Cons.prems(3) kv by simp
  qed simp
  from this [of "[]"] show ?thesis by (simp add: js_obj_of_def list_all_iff)
qed

lemma parse_keys_all:
  "\<forall>s. (\<forall>j r. parse_value n s = Some (j, r) \<longrightarrow> keys_ok j) \<and>
       (\<forall>js r. parse_elems n s = Some (js, r) \<longrightarrow> (\<forall>x \<in> set js. keys_ok x)) \<and>
       (\<forall>kvs r. parse_members n s = Some (kvs, r) \<longrightarrow> (\<forall>kv \<in> set kvs. keys_ok (snd kv)))"
proof (induction n)
  case (Suc n)
  then have V: "\<And>s j r. parse_value n s = Some (j, r) \<Longrightarrow> keys_ok j"
    and E: "\<And>s js r x. parse_elems n s = Some (js, r) \<Longrightarrow> x \<in> set js \<Longrightarrow> keys_ok x"
    and M: "\<And>s kvs r kv. parse_members n s = Some (kvs, r) \<Longrightarrow> kv \<in> set kvs \<Longrightarrow> keys_ok (snd kv)" by blast+
  have L: "parse_lit s = Some (j, r) \<Longrightarrow> keys_ok j" for s j r
    by (auto simp: parse_lit_def split: if_splits)
  show ?case
  proof (intro allI conjI impI)
    fix s j r
    assume "parse_value (Suc n) s = Some (j, r)"
    then show "keys_ok j"
      using js_obj_of_keys [of "[]"]
      by (auto simp del: keys_ok.simps(2) simp: list_all_iff js_obj_of_def [of "[]"] intro: js_obj_of_keys E M L
          split: list.splits if_splits)
  next
    fix s js r
    assume "parse_elems (Suc n) s = Some (js, r)"
    then show "\<forall>x \<in> set js. keys_ok x"
      using V E by (fastforce split: option.splits list.splits if_splits)
  next
    fix s kvs r
    assume "parse_members (Suc n) s = Some (kvs, r)"
    then show "\<forall>kv \<in> set kvs. keys_ok (snd kv)"
      using V M by (fastforce split: option.splits list.splits if_splits)
  qed
qed simp

lemma JSON_parse_keys: "JSON_parse s = Some j \<Longrightarrow> keys_ok j"
proof -
  assume "JSON_parse s = Some j"
  then obtain n r where "parse_value n s = Some (j, r)"
    by (auto simp only: JSON_parse_def split: option.splits if_splits prod.splits)
  with parse_keys_all [of n] show "keys_ok j" by blast
qed


section \<open>The contract\<close>

lemma validateOutput_Nil: "validateOutput v s = [] \<longleftrightarrow> check v s [] = []"
  by (auto simp: validateOutput_def Let_def LIMIT_VIOLATIONS_def)

text \<open>C21: a step that declared a schema the parser accepts succeeds exactly with the replies that are JSON and satisfy
  every keyword of the declaration, and then hands on the value read; any other reply is a failure that says the call may
  have had its effect, \<^verbatim>\<open>INVALID_JSON_OUTPUT\<close> when it is not JSON and \<^verbatim>\<open>OUTPUT_SCHEMA_MISMATCH\<close> otherwise.\<close>

theorem output_contract_exact:
  assumes "parseOutputSchema d = Inr s" "keys_ok d"
  shows "case JSON_parse text of
      None \<Rightarrow> \<exists>m. evaluateLlmOutput text parseJson (Some s) = (Some (outputFailure ''INVALID_JSON_OUTPUT'' m), None)
    | Some v \<Rightarrow> if meets d v then evaluateLlmOutput text parseJson (Some s) = (None, Some v)
        else (\<exists>m. evaluateLlmOutput text parseJson (Some s) = (Some (outputFailure ''OUTPUT_SCHEMA_MISMATCH'' m), None))"
proof (cases "JSON_parse text")
  case (Some v)
  have "honours d s" using assms parse_honours(1) by (auto simp: parseOutputSchema_def split: sum.splits prod.splits)
  with JSON_parse_keys [OF Some] have "validateOutput v s = [] \<longleftrightarrow> meets d v"
    by (simp add: honours_def validateOutput_Nil)
  then show ?thesis using Some by (cases "meets d v") (auto simp: evaluateLlmOutput_def Let_def)
qed (auto simp: evaluateLlmOutput_def)

definition ticket_decl :: json where
  "ticket_decl = JObj [(''type'', JStr ''object''), (''required'', JArr [JStr ''kind'']), (''additionalProperties'', JBool False),
     (''properties'', JObj [(''kind'', JObj [(''type'', JStr ''string''), (''enum'', JArr [JStr ''bug'', JStr ''ask''])]),
        (''tags'', JObj [(''type'', JStr ''array''), (''maxItems'', JNum ''2''), (''items'', JObj [(''type'', JStr ''integer'')])])])]"

definition ticket_schema :: OutputSchema where
  "ticket_schema = (case parseOutputSchema ticket_decl of Inr s \<Rightarrow> s | Inl _ \<Rightarrow> undefined)"

definition ticket_text :: string where
  "ticket_text = JSON_stringify (JObj [(''kind'', JStr ''bug''), (''tags'', JArr [JNum ''1''])])"

theorem output_contract_exact_witness:
  "evaluateLlmOutput ticket_text True (Some ticket_schema) =
     (None, Some (JObj [(''kind'', JStr ''bug''), (''tags'', JArr [JNum ''1''])])) \<and>
   (\<exists>m. evaluateLlmOutput ''{}'' True (Some ticket_schema) = (Some (outputFailure ''OUTPUT_SCHEMA_MISMATCH'' m), None))"
proof -
  have "\<not> isl (parseOutputSchema ticket_decl)" "keys_ok ticket_decl" by code_simp+
  then have s: "parseOutputSchema ticket_decl = Inr ticket_schema"
    by (auto simp: ticket_schema_def split: sum.splits)
  have p: "JSON_parse ticket_text = Some (JObj [(''kind'', JStr ''bug''), (''tags'', JArr [JNum ''1''])])"
    "JSON_parse ''{}'' = Some (JObj [])"
    "meets ticket_decl (JObj [(''kind'', JStr ''bug''), (''tags'', JArr [JNum ''1''])])" "\<not> meets ticket_decl (JObj [])"
    by code_simp+
  show ?thesis using output_contract_exact [OF s \<open>keys_ok ticket_decl\<close>, of ticket_text True]
      output_contract_exact [OF s \<open>keys_ok ticket_decl\<close>, of "''{}''" True] p by simp
qed


section \<open>What an accepted schema is bounded by\<close>

primrec schemaNodes :: "OutputSchema \<Rightarrow> nat" where
  "schemaNodes (OutputSchema h ps it) =
     Suc ((case map_option (map (map_prod id schemaNodes)) ps of None \<Rightarrow> 0 | Some ns \<Rightarrow> sum_list (map snd ns)) +
          (case map_option schemaNodes it of None \<Rightarrow> 0 | Some n \<Rightarrow> n))"

text \<open>A schema within the limits, \<open>d\<close> levels of nesting being left.\<close>

definition head_ok :: "SchemaHead \<Rightarrow> bool" where
  "head_ok h = ((case sh_required h of None \<Rightarrow> True | Some ns \<Rightarrow> distinct ns \<and>
       (\<forall>n \<in> set ns. 0 < length n \<and> length n \<le> LIMIT_NAME \<and> n \<notin> set forbiddenNames)) \<and>
     (case sh_enum h of None \<Rightarrow> True | Some vs \<Rightarrow> vs \<noteq> [] \<and> length vs \<le> LIMIT_ENUM \<and>
       (\<forall>v \<in> set vs. isPrimitive v \<and> typeMatches (sh_type h) v)) \<and>
     (case (sh_minItems h, sh_maxItems h) of (Some a, Some b) \<Rightarrow> a \<le> b | _ \<Rightarrow> True) \<and>
     (case (sh_minLength h, sh_maxLength h) of (Some a, Some b) \<Rightarrow> a \<le> b | _ \<Rightarrow> True) \<and>
     (case (sh_minimum h, sh_maximum h) of (Some a, Some b) \<Rightarrow> a \<le> b | _ \<Rightarrow> True))"

inductive bounded_schema :: "nat \<Rightarrow> OutputSchema \<Rightarrow> bool" where
  bounded_node: "head_ok h \<Longrightarrow>
    (\<And>ss. ps = Some ss \<Longrightarrow> length ss \<le> LIMIT_PROPERTIES) \<Longrightarrow>
    (\<And>ss n s. ps = Some ss \<Longrightarrow> (n, s) \<in> set ss \<Longrightarrow> length n \<le> LIMIT_NAME \<and> n \<notin> set forbiddenNames) \<Longrightarrow>
    (\<And>ss n s. ps = Some ss \<Longrightarrow> (n, s) \<in> set ss \<Longrightarrow> Suc d \<le> LIMIT_DEPTH \<and> bounded_schema (Suc d) s) \<Longrightarrow>
    (\<And>s. it = Some s \<Longrightarrow> Suc d \<le> LIMIT_DEPTH \<and> bounded_schema (Suc d) s) \<Longrightarrow>
    bounded_schema d (OutputSchema h ps it)"

lemma names_of_all: "\<forall>x \<in> set xs. \<exists>s. x = JStr s \<and> s \<noteq> [] \<Longrightarrow> \<forall>n \<in> set (names_of xs). 0 < length n"
  by (auto simp: names_of_def)

lemma checked_head:
  assumes "firstFail (objectChecks kvs) = None" "firstFail (tailChecks t kvs) = None"
  shows "head_ok (schemaHead t kvs)"
proof -
  have o: "\<forall>c \<in> set (objectChecks kvs). \<not> fst c" and e: "\<forall>c \<in> set (tailChecks t kvs). \<not> fst c" using assms by simp_all
  have names: "distinct (names_of xs) \<and> (\<forall>n \<in> set (names_of xs). 0 < length n \<and> length n \<le> LIMIT_NAME \<and> n \<notin> set forbiddenNames)"
    if "map_of kvs ''required'' = Some (JArr xs)" for xs
  proof -
    have "\<forall>c \<in> set (nameChecks xs). \<not> fst c" using o that by (simp add: objectChecks_def)
    then have c: "\<not> (\<exists>x \<in> set xs. case x of JStr s \<Rightarrow> s = [] | _ \<Rightarrow> True)" "distinct (names_of xs)"
      "\<forall>n \<in> set (names_of xs). length n \<le> LIMIT_NAME \<and> n \<notin> set forbiddenNames"
      by (auto simp: nameChecks_def)
    have "\<forall>x \<in> set xs. \<exists>s. x = JStr s \<and> s \<noteq> []"
    proof
      fix x assume "x \<in> set xs"
      with c(1) have "\<not> (case x of JStr s \<Rightarrow> s = [] | _ \<Rightarrow> True)" by blast
      then show "\<exists>s. x = JStr s \<and> s \<noteq> []" by (cases x) auto
    qed
    from names_of_all [OF this] c(2,3) show ?thesis by blast
  qed
  have enum: "vs \<noteq> [] \<and> length vs \<le> LIMIT_ENUM \<and> (\<forall>v \<in> set vs. isPrimitive v \<and> typeMatches t v)"
    if "map_of kvs ''enum'' = Some (JArr vs)" for vs
    using e that by (auto simp: tailChecks_def enumChecks_def)
  have ord: "case (numberAt kvs k1, numberAt kvs k2) of (Some a, Some b) \<Rightarrow> a \<le> b | _ \<Rightarrow> True" if "(k1, k2) \<in> {(''minItems'', ''maxItems''), (''minLength'', ''maxLength''), (''minimum'', ''maximum'')}" for k1 k2
  proof -
    have "ordered kvs k1 k2 \<in> set (tailChecks t kvs)" using that by (auto simp: tailChecks_def)
    with e have "\<not> fst (ordered kvs k1 k2)" by blast
    then show ?thesis by (auto simp: ordered_def split: option.splits)
  qed
  show ?thesis unfolding head_ok_def schemaHead_sel
  proof (intro conjI)
    show "case sh_required (schemaHead t kvs) of None \<Rightarrow> True | Some ns \<Rightarrow> distinct ns \<and>
       (\<forall>n \<in> set ns. 0 < length n \<and> length n \<le> LIMIT_NAME \<and> n \<notin> set forbiddenNames)"
      unfolding schemaHead_def using names by (cases "map_of kvs ''required''") (simp_all split: json.split)
    show "case sh_enum (schemaHead t kvs) of None \<Rightarrow> True | Some vs \<Rightarrow> vs \<noteq> [] \<and> length vs \<le> LIMIT_ENUM \<and>
       (\<forall>v \<in> set vs. isPrimitive v \<and> typeMatches t v)"
      unfolding schemaHead_def using enum by (cases "map_of kvs ''enum''") (simp_all split: json.split)
  qed (rule ord; simp)+
qed

lemma parse_bounded:
  "parseNode d path depth nodes = Inr (s, n') \<Longrightarrow>
     bounded_schema depth s \<and> depth \<le> LIMIT_DEPTH \<and> n' = nodes + schemaNodes s \<and> n' \<le> LIMIT_NODES"
  "parseMembers ms path depth nodes = Inr (r, n') \<Longrightarrow> nodes \<le> LIMIT_NODES \<Longrightarrow> n' \<le> LIMIT_NODES \<and>
     (case r of None \<Rightarrow> n' = nodes | Some ss \<Rightarrow> n' = nodes + sum_list (map (schemaNodes \<circ> snd) ss) \<and>
        length ss \<le> LIMIT_PROPERTIES \<and> (\<forall>(n, s) \<in> set ss. length n \<le> LIMIT_NAME \<and> n \<notin> set forbiddenNames \<and>
          Suc depth \<le> LIMIT_DEPTH \<and> bounded_schema (Suc depth) s))"
  "parseProps ps path depth nodes = Inr (ss, n') \<Longrightarrow> nodes \<le> LIMIT_NODES \<Longrightarrow> n' \<le> LIMIT_NODES \<and>
     n' = nodes + sum_list (map (schemaNodes \<circ> snd) ss) \<and> length ss = length ps \<and>
     (\<forall>(n, s) \<in> set ss. length n \<le> LIMIT_NAME \<and> n \<notin> set forbiddenNames \<and>
        Suc depth \<le> LIMIT_DEPTH \<and> bounded_schema (Suc depth) s)"
  "parseItems i path depth nodes = Inr (it, n') \<Longrightarrow> nodes \<le> LIMIT_NODES \<Longrightarrow> n' \<le> LIMIT_NODES \<and>
     (case it of None \<Rightarrow> n' = nodes | Some s \<Rightarrow> n' = nodes + schemaNodes s \<and> Suc depth \<le> LIMIT_DEPTH \<and>
        bounded_schema (Suc depth) s)"
proof (induction d path depth nodes and ms path depth nodes and ps path depth nodes and i path depth nodes
    arbitrary: s n' and r n' and ss n' and it n' rule: parseNode_parseMembers_parseProps_parseItems.induct)
  case (1 kvs path depth nodes)
  from 1(3) obtain props n1 items n2 where p: "firstFail (headChecks kvs depth (Suc nodes)) = None"
    "parseMembers (map_of kvs ''properties'') path depth (Suc nodes) = Inr (props, n1)"
    "firstFail (objectChecks kvs) = None" "parseItems (map_of kvs ''items'') path depth n1 = Inr (items, n2)"
    "firstFail (tailChecks (the (declaredType kvs)) kvs) = None"
    "s = OutputSchema (schemaHead (the (declaredType kvs)) kvs) props items" "n' = n2"
    by (auto simp del: firstFail_None simp: failAt_def split: option.splits sum.splits prod.splits)
  from checked_node [OF p(1,3,5)] have l: "Suc nodes \<le> LIMIT_NODES" "depth \<le> LIMIT_DEPTH" by metis+
  note m = 1(1) [OF p(1,2) l(1)]
  then have "n1 \<le> LIMIT_NODES" by blast
  note i = 1(2) [OF p(1,2) refl p(3,4) this]
  have "bounded_schema depth s" unfolding p(6)
  proof (rule bounded_node)
    show "head_ok (schemaHead (the (declaredType kvs)) kvs)" by (rule checked_head [OF p(3,5)])
  qed (use m i in \<open>auto split: option.splits\<close>)
  moreover have "n' = nodes + schemaNodes s" unfolding p(6,7) using m i
    by (auto simp: comp_def map_prod_def case_prod_beta split: option.splits)
  moreover have "n' \<le> LIMIT_NODES" using conjunct1 [OF i] p(7) by simp
  ultimately show ?case using l(2) by (intro conjI)
next
  case (7 k v kvs path depth nodes)
  from 7(3) obtain s n1 rest where p: "\<not> LIMIT_NAME < length k" "k \<notin> set forbiddenNames"
    "parseNode v (path @ ''/properties/'' @ pointer k) (Suc depth) nodes = Inr (s, n1)"
    "parseProps kvs path depth n1 = Inr (rest, n')" "ss = (k, s) # rest"
    by (auto simp: failAt_def split: if_splits sum.splits prod.splits)
  note s = 7(1) [OF p(1-3)]
  then have "n1 \<le> LIMIT_NODES" by blast
  note rest = 7(2) [OF p(1-3) refl p(4) this]
  show ?case unfolding p(5) using s rest p(1,2) by (simp add: not_less)
qed (auto simp: failAt_def split: if_splits sum.splits prod.splits)

text \<open>an accepted schema is small and consistent: at most 256 nodes, nested at most eight deep, at most 64 properties
  per node with names of at most 128 characters that are none of the prototype's, enumerations of at most 64 primitive
  values of the declared type, distinct required names, and no lower bound above its upper bound.\<close>

theorem schema_within_limits:
  assumes "parseOutputSchema d = Inr s"
  shows "schemaNodes s \<le> LIMIT_NODES \<and> bounded_schema 0 s"
proof -
  from assms obtain n where "parseNode d [] 0 0 = Inr (s, n)"
    by (auto simp: parseOutputSchema_def split: sum.splits prod.splits)
  from parse_bounded(1) [OF this] show ?thesis by simp
qed

theorem schema_within_limits_witness: "schemaNodes ticket_schema = 4 \<and> bounded_schema 0 ticket_schema"
proof -
  have "\<not> isl (parseOutputSchema ticket_decl)" by code_simp
  then have "parseOutputSchema ticket_decl = Inr ticket_schema"
    by (auto simp: ticket_schema_def split: sum.splits)
  from schema_within_limits [OF this] have "bounded_schema 0 ticket_schema" by simp
  moreover have "schemaNodes ticket_schema = 4" by code_simp
  ultimately show ?thesis by simp
qed

end
