(* ===== verification/Event_Buffer.thy ===== *)
theory Event_Buffer
  imports Output_Contract
begin

text \<open>
  The buffer of recent events behind the polling trigger of workflows (\<^verbatim>\<open>src/workflows/runtime/event-buffer.ts\<close>).  A
  payload is the list of the entries of its object; a filter comes from a request, so that none of its objects is one
  of a payload and \<open>strict_eq\<close> decides \<^verbatim>\<open>===\<close>.  One operation reads the clock once.  The trigger of the last section
  keeps the cursor of its last poll, as the pieces that use the route do.
\<close>


section \<open>The buffer\<close>

record BufferedEvent =
  be_id :: nat
  be_eventType :: string
  be_payload :: "(string \<times> json) list"
  be_timestamp :: int

record EventBuffer =
  eb_capacity :: int
  eb_maxAgeMs :: int
  eb_events :: "BufferedEvent list"
  eb_nextId :: nat
  eb_droppedCount :: int
  eb_droppedLastAt :: int
  eb_droppedLastHeadId :: nat

definition newEventBuffer :: "int option \<Rightarrow> int option \<Rightarrow> EventBuffer" where
  "newEventBuffer capacity maxAgeMs = \<lparr> eb_capacity = js_or capacity 10000, eb_maxAgeMs = js_or maxAgeMs (60 * 60000),
     eb_events = [], eb_nextId = 0, eb_droppedCount = 0, eb_droppedLastAt = 0, eb_droppedLastHeadId = 0 \<rparr>"

definition recordDropped :: "int \<Rightarrow> int \<Rightarrow> EventBuffer \<Rightarrow> EventBuffer" where
  "recordDropped now n b =
     (if n \<le> 0 then b
      else b\<lparr>eb_droppedCount := eb_droppedCount b + n, eb_droppedLastAt := now, eb_droppedLastHeadId := eb_nextId b\<rparr>)"

definition pruneEvents :: "int \<Rightarrow> EventBuffer \<Rightarrow> EventBuffer" where
  "pruneEvents now b =
     (if eb_maxAgeMs b \<le> 0 then b
      else let cutoff = now - eb_maxAgeMs b;
               n = length (takeWhile (\<lambda>e. be_timestamp e < cutoff) (eb_events b))
           in if n > 0 then recordDropped now (int n) (b\<lparr>eb_events := drop n (eb_events b)\<rparr>) else b)"

definition publishEvent :: "int \<Rightarrow> string \<Rightarrow> (string \<times> json) list \<Rightarrow> EventBuffer \<Rightarrow> nat \<times> EventBuffer" where
  "publishEvent now eventType payload b0 =
     (let b1 = pruneEvents now b0;
          newId = Suc (eb_nextId b1);
          e = \<lparr> be_id = newId, be_eventType = eventType, be_payload = payload, be_timestamp = now \<rparr>;
          b2 = b1\<lparr>eb_nextId := newId, eb_events := eb_events b1 @ [e]\<rparr>;
          excess = int (length (eb_events b2)) - eb_capacity b2
      in (newId, if int (length (eb_events b2)) > eb_capacity b2
                 then recordDropped now excess (b2\<lparr>eb_events := drop (nat excess) (eb_events b2)\<rparr>) else b2))"

definition shallowEq :: "(string \<times> json) list option \<Rightarrow> (string \<times> json) list \<Rightarrow> bool" where
  "shallowEq wanted payload =
     (case wanted of
        None \<Rightarrow> True
      | Some entries \<Rightarrow> list_all (\<lambda>(k, v). case map_of payload k of None \<Rightarrow> False | Some x \<Rightarrow> strict_eq x v) entries)"

record PollRequest =
  pq_eventType :: string
  pq_filter :: "(string \<times> json) list option"
  pq_since :: "jsnum option"
  pq_headOnly :: bool

definition sinceOf :: "PollRequest \<Rightarrow> jsnum" where
  "sinceOf req = (case pq_since req of Some s \<Rightarrow> if js_is_finite s then s else JFin 0 | None \<Rightarrow> JFin 0)"

definition pollEvents :: "int \<Rightarrow> PollRequest \<Rightarrow> EventBuffer \<Rightarrow> (BufferedEvent list \<times> nat) \<times> EventBuffer" where
  "pollEvents now req b0 =
     (let b = pruneEvents now b0
      in if pq_headOnly req then (([], eb_nextId b), b)
         else ((filter (\<lambda>e. \<not> js_le (JFin (of_nat (be_id e))) (sinceOf req) \<and> be_eventType e = pq_eventType req \<and>
                  shallowEq (pq_filter req) (be_payload e)) (eb_events b), eb_nextId b), b))"

definition bufferSize :: "EventBuffer \<Rightarrow> nat" where
  "bufferSize b = length (eb_events b)"

definition droppedSignal :: "EventBuffer \<Rightarrow> int \<times> int \<times> nat" where
  "droppedSignal b = (eb_droppedCount b, eb_droppedLastAt b, eb_droppedLastHeadId b)"


section \<open>Against the log of everything published\<close>

text \<open>The buffer holds what is left of a log when the counted number of its oldest events is dropped.\<close>

definition remains :: "BufferedEvent list \<Rightarrow> EventBuffer \<Rightarrow> bool" where
  "remains lg b = (0 \<le> eb_capacity b \<and> eb_nextId b = length lg \<and> map be_id lg = [1..<Suc (length lg)] \<and>
     0 \<le> eb_droppedCount b \<and> nat (eb_droppedCount b) \<le> length lg \<and> eb_events b = drop (nat (eb_droppedCount b)) lg \<and>
     eb_droppedLastHeadId b \<le> eb_nextId b)"

definition buffers :: "BufferedEvent list \<Rightarrow> EventBuffer \<Rightarrow> bool" where
  "buffers lg b = (remains lg b \<and> int (length (eb_events b)) \<le> eb_capacity b)"

lemma remains_drop:
  assumes "remains lg b" "n \<le> length (eb_events b)"
  shows "remains lg (recordDropped now (int n) (b\<lparr>eb_events := drop n (eb_events b)\<rparr>))"
proof (cases "n = 0")
  case False
  have "nat (eb_droppedCount b + int n) = nat (eb_droppedCount b) + n" using assms(1) by (simp add: remains_def nat_add_distrib)
  with False assms show ?thesis by (auto simp: remains_def recordDropped_def add.commute)
qed (use assms(1) in \<open>simp add: recordDropped_def remains_def\<close>)

lemma recordDropped_simps [simp]:
  "eb_events (recordDropped now n b) = eb_events b" "eb_capacity (recordDropped now n b) = eb_capacity b"
  "eb_nextId (recordDropped now n b) = eb_nextId b" "eb_droppedCount b \<le> eb_droppedCount (recordDropped now n b)"
  by (simp_all add: recordDropped_def)

lemma prune_simps [simp]:
  "eb_nextId (pruneEvents now b) = eb_nextId b" "eb_capacity (pruneEvents now b) = eb_capacity b"
  by (simp_all add: pruneEvents_def recordDropped_def Let_def)

lemma prune_dropped: "eb_droppedCount b \<le> eb_droppedCount (pruneEvents now b)"
  by (simp add: pruneEvents_def recordDropped_def Let_def)

lemma buffers_prune: "buffers lg b \<Longrightarrow> buffers lg (pruneEvents now b)"
  unfolding pruneEvents_def Let_def buffers_def by (auto simp: remains_drop length_takeWhile_le)

definition publishedEvent :: "int \<Rightarrow> string \<Rightarrow> (string \<times> json) list \<Rightarrow> BufferedEvent list \<Rightarrow> BufferedEvent" where
  "publishedEvent now t p lg = \<lparr> be_id = Suc (length lg), be_eventType = t, be_payload = p, be_timestamp = now \<rparr>"

lemma buffers_publish:
  assumes "buffers lg b"
  shows "buffers (lg @ [publishedEvent now t p lg]) (snd (publishEvent now t p b))"
    and "eb_droppedCount b \<le> eb_droppedCount (snd (publishEvent now t p b))"
proof -
  let ?b1 = "pruneEvents now b" and ?e = "publishedEvent now t p lg"
  let ?b2 = "?b1\<lparr>eb_nextId := Suc (eb_nextId ?b1), eb_events := eb_events ?b1 @ [?e]\<rparr>"
  let ?n = "nat (int (length (eb_events ?b2)) - eb_capacity ?b2)"
  from buffers_prune [OF assms] have b1: "remains lg ?b1" "int (length (eb_events ?b1)) \<le> eb_capacity ?b1"
    by (simp_all add: buffers_def)
  then have b2: "remains (lg @ [?e]) ?b2" by (simp add: remains_def publishedEvent_def)
  have next_id: "eb_nextId b = length lg" using assms by (simp add: buffers_def remains_def)
  have pub: "snd (publishEvent now t p b) = (if int (length (eb_events ?b2)) > eb_capacity ?b2
      then recordDropped now (int ?n) (?b2\<lparr>eb_events := drop ?n (eb_events ?b2)\<rparr>) else ?b2)"
    by (simp add: publishEvent_def Let_def publishedEvent_def next_id)
  have "0 \<le> eb_capacity ?b2" using b1(1) by (simp add: remains_def)
  then have n: "?n \<le> length (eb_events ?b2)" by simp
  from remains_drop [OF b2 n] b2 show "buffers (lg @ [?e]) (snd (publishEvent now t p b))"
    unfolding pub buffers_def using b1(2) by auto
  have "eb_droppedCount b \<le> eb_droppedCount ?b1" by (rule prune_dropped)
  then show "eb_droppedCount b \<le> eb_droppedCount (snd (publishEvent now t p b))"
    unfolding pub recordDropped_def by simp
qed


section \<open>A polling trigger\<close>

datatype BufferStep = StPublish int string "(string \<times> json) list" | StPoll int | StOther int PollRequest

record Trigger =
  tg_buffer :: EventBuffer
  tg_cursor :: nat
  tg_delivered :: "BufferedEvent list"
  tg_log :: "BufferedEvent list"

definition pollOf :: "string \<Rightarrow> (string \<times> json) list option \<Rightarrow> nat \<Rightarrow> PollRequest" where
  "pollOf t f since = \<lparr> pq_eventType = t, pq_filter = f, pq_since = Some (JFin (of_nat since)), pq_headOnly = False \<rparr>"

text \<open>The trigger polls for \<open>t\<close> and \<open>f\<close> from its cursor and keeps the head it is given; others publish and poll.\<close>

fun triggerStep :: "string \<Rightarrow> (string \<times> json) list option \<Rightarrow> BufferStep \<Rightarrow> Trigger \<Rightarrow> Trigger" where
  "triggerStep t f (StPublish now ty p) s =
     s\<lparr>tg_buffer := snd (publishEvent now ty p (tg_buffer s)), tg_log := tg_log s @ [publishedEvent now ty p (tg_log s)]\<rparr>"
| "triggerStep t f (StPoll now) s =
     (case pollEvents now (pollOf t f (tg_cursor s)) (tg_buffer s) of ((es, head), b) \<Rightarrow>
        s\<lparr>tg_buffer := b, tg_cursor := head, tg_delivered := tg_delivered s @ es\<rparr>)"
| "triggerStep t f (StOther now req) s = s\<lparr>tg_buffer := snd (pollEvents now req (tg_buffer s))\<rparr>"

definition wantedEvent :: "string \<Rightarrow> (string \<times> json) list option \<Rightarrow> BufferedEvent \<Rightarrow> bool" where
  "wantedEvent t f e = (be_eventType e = t \<and> shallowEq f (be_payload e))"

definition trigger_ok :: "string \<Rightarrow> (string \<times> json) list option \<Rightarrow> Trigger \<Rightarrow> bool" where
  "trigger_ok t f s = (buffers (tg_log s) (tg_buffer s) \<and> tg_cursor s \<le> length (tg_log s) \<and>
     sorted_wrt (<) (map be_id (tg_delivered s)) \<and>
     (\<forall>e \<in> set (tg_delivered s). e \<in> set (tg_log s) \<and> wantedEvent t f e \<and> be_id e \<le> tg_cursor s) \<and>
     (\<forall>e \<in> set (tg_log s). wantedEvent t f e \<and> be_id e \<le> tg_cursor s \<longrightarrow>
        e \<in> set (tg_delivered s) \<or> int (be_id e) \<le> eb_droppedCount (tg_buffer s)))"

lemma log_ids: "buffers lg b \<Longrightarrow> e \<in> set lg \<Longrightarrow> 1 \<le> be_id e \<and> be_id e \<le> length lg"
  unfolding buffers_def remains_def by (metis atLeastLessThanSuc_atLeastAtMost atLeastAtMost_iff image_eqI set_map set_upt)

text \<open>An event of the log is in the buffer exactly when it is not among the dropped ones.\<close>

lemma buffered_iff:
  assumes "buffers lg b" "e \<in> set lg"
  shows "e \<in> set (eb_events b) \<longleftrightarrow> eb_droppedCount b < int (be_id e)"
proof -
  let ?d = "nat (eb_droppedCount b)"
  from assms(2) obtain i where i: "i < length lg" "lg ! i = e" by (auto simp: in_set_conv_nth)
  have ids: "\<And>j. j < length lg \<Longrightarrow> be_id (lg ! j) = Suc j"
    using assms(1) unfolding buffers_def remains_def by (metis nth_map nth_upt plus_1_eq_Suc less_Suc_eq_le Suc_leI)
  have "e \<in> set (drop ?d lg) \<longleftrightarrow> ?d \<le> i"
  proof
    assume "e \<in> set (drop ?d lg)"
    then obtain j where j: "j < length lg - ?d" "lg ! (?d + j) = e" by (auto simp: in_set_conv_nth)
    then have "Suc (?d + j) = Suc i" using ids [of "?d + j"] ids [OF i(1)] i(2) by simp
    then show "?d \<le> i" by simp
  next
    assume "?d \<le> i"
    then show "e \<in> set (drop ?d lg)" using i by (auto simp: in_set_conv_nth intro!: exI [of _ "i - ?d"])
  qed
  then show ?thesis using assms(1) ids [OF i(1)] i(2) by (auto simp: buffers_def remains_def)
qed

lemma poll_result:
  "pollEvents now (pollOf t f c) b = ((filter (\<lambda>e. c < be_id e \<and> wantedEvent t f e) (eb_events (pruneEvents now b)),
     eb_nextId b), pruneEvents now b)"
  by (auto simp: pollEvents_def pollOf_def sinceOf_def Let_def wantedEvent_def js_le_def not_le intro!: filter_cong)

lemma poll_prunes: "snd (pollEvents now req b) = pruneEvents now b"
  by (simp add: pollEvents_def Let_def)

lemma sorted_events: "buffers lg b \<Longrightarrow> sorted_wrt (<) (map be_id (eb_events b))"
  unfolding buffers_def remains_def by (metis drop_map sorted_wrt_drop sorted_wrt_upt)

lemma trigger_ok_buffer:
  assumes "trigger_ok t f s" "buffers (tg_log s) b" "eb_droppedCount (tg_buffer s) \<le> eb_droppedCount b"
  shows "trigger_ok t f (s\<lparr>tg_buffer := b\<rparr>)"
proof -
  have "e \<in> set (tg_delivered s) \<or> int (be_id e) \<le> eb_droppedCount b"
    if "e \<in> set (tg_log s)" "wantedEvent t f e \<and> be_id e \<le> tg_cursor s" for e
  proof -
    have "e \<in> set (tg_delivered s) \<or> int (be_id e) \<le> eb_droppedCount (tg_buffer s)"
      using assms(1) that unfolding trigger_ok_def by blast
    with assms(3) show ?thesis by linarith
  qed
  with assms(1,2) show ?thesis by (simp add: trigger_ok_def)
qed

lemma trigger_ok_step: "trigger_ok t f s \<Longrightarrow> trigger_ok t f (triggerStep t f x s)"
proof (cases x)
  case (StPublish now ty p)
  assume ok: "trigger_ok t f s"
  let ?e = "publishedEvent now ty p (tg_log s)"
  from ok have b: "buffers (tg_log s) (tg_buffer s)" by (simp add: trigger_ok_def)
  note p = buffers_publish [OF b, of now ty p]
  have "be_id ?e = Suc (length (tg_log s))" by (simp add: publishedEvent_def)
  with ok p show ?thesis unfolding StPublish trigger_ok_def by (fastforce simp: trigger_ok_def)
next
  case (StPoll now)
  assume ok: "trigger_ok t f s"
  let ?b = "pruneEvents now (tg_buffer s)"
  let ?es = "filter (\<lambda>e. tg_cursor s < be_id e \<and> wantedEvent t f e) (eb_events ?b)"
  from ok have b0: "buffers (tg_log s) (tg_buffer s)" by (simp add: trigger_ok_def)
  from buffers_prune [OF b0] have b: "buffers (tg_log s) ?b" .
  have next_id: "eb_nextId (tg_buffer s) = length (tg_log s)" using b0 by (simp add: buffers_def remains_def)
  have sub: "set (eb_events ?b) \<subseteq> set (tg_log s)"
    using b by (auto simp: buffers_def remains_def dest: in_set_dropD)
  have srt: "sorted_wrt (<) (map be_id (tg_delivered s @ ?es))"
    unfolding map_append sorted_wrt_append
  proof (intro conjI)
    show "sorted_wrt (<) (map be_id ?es)" using sorted_events [OF b] by (simp add: sorted_wrt_map sorted_wrt_filter)
  qed (use ok in \<open>fastforce simp: trigger_ok_def\<close>)+
  have full: "e \<in> set (tg_delivered s @ ?es) \<or> int (be_id e) \<le> eb_droppedCount ?b"
    if e: "e \<in> set (tg_log s)" "wantedEvent t f e" for e
  proof (cases "be_id e \<le> tg_cursor s")
    case True
    have "eb_droppedCount (tg_buffer s) \<le> eb_droppedCount ?b" by (rule prune_dropped)
    moreover have "e \<in> set (tg_delivered s) \<or> int (be_id e) \<le> eb_droppedCount (tg_buffer s)"
      using ok True e unfolding trigger_ok_def by blast
    ultimately show ?thesis by auto
  next
    case False
    with buffered_iff [OF b e(1)] e(2) show ?thesis by auto
  qed
  have only: "\<forall>e \<in> set (tg_delivered s @ ?es). e \<in> set (tg_log s) \<and> wantedEvent t f e \<and> be_id e \<le> length (tg_log s)"
    using ok sub log_ids [OF b] by (auto simp: trigger_ok_def)
  have step: "triggerStep t f x s = s\<lparr>tg_buffer := ?b, tg_cursor := length (tg_log s), tg_delivered := tg_delivered s @ ?es\<rparr>"
    by (simp add: StPoll poll_result next_id)
  have sel: "tg_buffer (triggerStep t f x s) = ?b" "tg_cursor (triggerStep t f x s) = length (tg_log s)"
    "tg_delivered (triggerStep t f x s) = tg_delivered s @ ?es" "tg_log (triggerStep t f x s) = tg_log s"
    unfolding step by simp_all
  show ?thesis unfolding trigger_ok_def sel by (intro conjI b srt only order_refl ballI impI full) simp_all
next
  case (StOther now req)
  assume ok: "trigger_ok t f s"
  then have "buffers (tg_log s) (tg_buffer s)" by (simp only: trigger_ok_def)
  then have "buffers (tg_log s) (pruneEvents now (tg_buffer s))" by (rule buffers_prune)
  from trigger_ok_buffer [OF ok this prune_dropped] show ?thesis by (simp add: StOther poll_prunes)
qed

definition newTrigger :: "EventBuffer \<Rightarrow> Trigger" where
  "newTrigger b = \<lparr> tg_buffer = b, tg_cursor = eb_nextId b, tg_delivered = [], tg_log = [] \<rparr>"

lemma trigger_run:
  assumes "trigger_ok t f s"
  shows "trigger_ok t f (fold (triggerStep t f) xs s)"
  using assms by (induction xs arbitrary: s) (simp_all add: trigger_ok_step)

text \<open>C26: what a polling trigger is given, over any interleaving of publications, its own polls and those of others.  The
  buffer holds exactly the events published and not counted as dropped, never more than its capacity; the trigger
  gets only events it asked for, each once and in the order of publication; and it misses an event it has polled
  past only when that one is among the counted oldest events that were dropped.\<close>

theorem trigger_exactly_once:
  assumes "0 \<le> js_or capacity 10000"
    and "s = fold (triggerStep t f) steps (newTrigger (newEventBuffer capacity maxAge))"
  shows "eb_events (tg_buffer s) = drop (nat (eb_droppedCount (tg_buffer s))) (tg_log s) \<and>
    int (bufferSize (tg_buffer s)) \<le> js_or capacity 10000 \<and>
    sorted_wrt (<) (map be_id (tg_delivered s)) \<and>
    (\<forall>e \<in> set (tg_delivered s). e \<in> set (tg_log s) \<and> wantedEvent t f e) \<and>
    (\<forall>e \<in> set (tg_log s). wantedEvent t f e \<and> be_id e \<le> tg_cursor s \<and> e \<notin> set (tg_delivered s) \<longrightarrow>
       int (be_id e) \<le> eb_droppedCount (tg_buffer s))"
proof -
  have "trigger_ok t f (newTrigger (newEventBuffer capacity maxAge))" using assms(1)
    by (simp add: trigger_ok_def newTrigger_def newEventBuffer_def buffers_def remains_def)
  then have ok: "trigger_ok t f s" unfolding assms(2) by (rule trigger_run)
  have "eb_capacity (tg_buffer (fold (triggerStep t f) xs q)) = eb_capacity (tg_buffer q)" for xs q
  proof (induction xs arbitrary: q)
    case (Cons x xs)
    have "eb_capacity (tg_buffer (triggerStep t f x q)) = eb_capacity (tg_buffer q)"
      by (cases x) (simp_all add: publishEvent_def Let_def pollEvents_def split: if_splits)
    with Cons.IH show ?case by simp
  qed simp
  then have "eb_capacity (tg_buffer s) = js_or capacity 10000"
    by (simp add: assms(2) newTrigger_def newEventBuffer_def)
  with ok show ?thesis unfolding trigger_ok_def buffers_def remains_def bufferSize_def by auto
qed

definition buffer_story :: "BufferStep list" where
  "buffer_story = [StPublish 1 ''mail'' [], StPublish 2 ''chat'' [], StPoll 3, StPublish 4 ''mail'' [], StPublish 5 ''mail'' [],
     StPublish 6 ''mail'' [], StPoll 7]"

theorem trigger_exactly_once_witness:
  "let s = fold (triggerStep ''mail'' None) buffer_story (newTrigger (newEventBuffer (Some 2) None))
   in map be_id (tg_delivered s) = [1, 4, 5] \<and> eb_droppedCount (tg_buffer s) = 3 \<and> eb_events (tg_buffer s) = drop 3 (tg_log s)"
proof -
  let ?s = "fold (triggerStep ''mail'' None) buffer_story (newTrigger (newEventBuffer (Some 2) None))"
  have "map be_id (tg_delivered ?s) = [1, 4, 5] \<and> eb_droppedCount (tg_buffer ?s) = 3" by code_simp
  moreover have "0 \<le> js_or (Some 2) (10000 :: int)" by (simp add: js_or_def)
  ultimately show ?thesis using trigger_exactly_once [OF _ refl, of "Some 2" "''mail''" None buffer_story None]
    by (simp add: Let_def)
qed

end
