(* ===== verification/Safe_Expression.thy ===== *)
theory Safe_Expression
  imports Output_Contract
begin

text \<open>
  The interpreter of workflow expressions (\<^verbatim>\<open>src/workflows/runtime/safe-expression.ts\<close>): tokens, parser, static
  references and evaluation under a budget.  Values are trees, so that shared and cyclic objects are not modelled;
  an object lists its own enumerable properties in the order of \<^verbatim>\<open>Object.keys\<close>, and says whether its prototype is one
  of JSON's; arrays have no holes.  A failure is the message of a \<^verbatim>\<open>WorkflowExpressionError\<close>.
\<close>


section \<open>Values\<close>

datatype jsval =
    VUndef
  | VNull
  | VBool bool
  | VNum jsnum
  | VStr string
  | VArr "jsval list"
  | VObj bool "(string \<times> jsprop) list"
  | VFun
  | VBig int
and jsprop = PData jsval | PGetter

definition exprError :: "string \<Rightarrow> string" where
  "exprError message = ''Unsupported workflow expression: '' @ message"

type_synonym 'a ex = "string + 'a"

definition exFail :: "string \<Rightarrow> 'a ex" where
  "exFail message = Inl (exprError message)"

definition checkKey :: "string \<Rightarrow> string ex" where
  "checkKey k = (if k \<in> set forbiddenNames then exFail ''prototype access'' else Inr k)"

definition MAX_TEXT :: int where "MAX_TEXT = 1048576"
definition MAX_VISITS :: int where "MAX_VISITS = 10000"
definition MAX_DEPTH :: nat where "MAX_DEPTH = 64"

fun primitive :: "jsval \<Rightarrow> jsval ex" where
  "primitive (VStr s) = (if int (length s) > MAX_TEXT then exFail ''value size limit'' else Inr (VStr s))"
| "primitive (VNum n) = (if js_is_finite n then Inr (VNum n) else exFail ''operators require finite primitive values'')"
| "primitive VNull = Inr VNull"
| "primitive VUndef = Inr VUndef"
| "primitive (VBool b) = Inr (VBool b)"
| "primitive _ = exFail ''operators require finite primitive values''"

text \<open>The own property \<open>k\<close> of a text or an array.\<close>

definition indexed :: "'a list \<Rightarrow> ('a \<Rightarrow> jsval) \<Rightarrow> string \<Rightarrow> jsval" where
  "indexed xs f k =
     (if k = ''length'' then VNum (JFin (of_nat (length xs)))
      else (case index_value k of Some i \<Rightarrow> if i < int (length xs) then f (xs ! nat i) else VUndef | None \<Rightarrow> VUndef))"

definition propertyKey :: "jsval \<Rightarrow> string ex" where
  "propertyKey key =
     (case key of
        VStr s \<Rightarrow> checkKey s
      | VNum n \<Rightarrow> if js_is_finite n then checkKey (js_show n) else exFail ''invalid property key''
      | _ \<Rightarrow> exFail ''invalid property key'')"

definition ownOf :: "jsval \<Rightarrow> string \<Rightarrow> jsval ex" where
  "ownOf object k =
     (case object of
        VFun \<Rightarrow> exFail ''non-data value''
      | VStr s \<Rightarrow> Inr (indexed s (\<lambda>c. VStr [c]) k)
      | VArr xs \<Rightarrow> Inr (indexed xs id k)
      | VObj _ kvs \<Rightarrow> (case map_of kvs k of
          None \<Rightarrow> Inr VUndef | Some PGetter \<Rightarrow> exFail ''accessor property'' | Some (PData v) \<Rightarrow> Inr v)
      | _ \<Rightarrow> Inr VUndef)"

definition ownData :: "jsval \<Rightarrow> jsval \<Rightarrow> jsval ex" where
  "ownData object key = (case propertyKey key of Inl e \<Rightarrow> Inl e | Inr k \<Rightarrow> ownOf object k)"


section \<open>Tokens\<close>

datatype Token = TLit jsval | TIdent string | TSym string

definition escape_of :: "char \<Rightarrow> char option" where
  "escape_of e = (if e = CHR 0x27 then Some e else simple_escape e)"

text \<open>The rest of a string literal.  An escape beyond U+00FF stays in its escaped spelling.\<close>

fun readString :: "char \<Rightarrow> string \<Rightarrow> (string \<times> string) ex" where
  "readString q [] = exFail ''unterminated string''"
| "readString q (c # s) =
     (if c = q then Inr ([], s)
      else if c \<noteq> bslash then (case readString q s of Inl e \<Rightarrow> Inl e | Inr (t, r) \<Rightarrow> Inr (c # t, r))
      else (case s of
          [] \<Rightarrow> exFail ''invalid string escape''
        | e # s' \<Rightarrow>
            if e = CHR ''u'' then
              (case s' of
                 w # x # y # z # r \<Rightarrow>
                   (case hex4 w x y z of
                      None \<Rightarrow> exFail ''invalid Unicode escape''
                    | Some n \<Rightarrow> (case readString q r of
                        Inl e \<Rightarrow> Inl e
                      | Inr (t, r') \<Rightarrow> Inr ((if n < 256 then [char_of n] else [bslash, CHR ''u'', w, x, y, z]) @ t, r')))
               | _ \<Rightarrow> exFail ''invalid Unicode escape'')
            else (case escape_of e of
                None \<Rightarrow> exFail ''invalid string escape''
              | Some d \<Rightarrow> (case readString q s' of Inl e \<Rightarrow> Inl e | Inr (t, r) \<Rightarrow> Inr (d # t, r)))))"

definition letter :: "char \<Rightarrow> bool" where
  "letter c = (let n = (of_char c :: nat)
     in (65 \<le> n \<and> n \<le> 90) \<or> (97 \<le> n \<and> n \<le> 122) \<or> n = 170 \<or> n = 181 \<or> n = 186 \<or> (192 \<le> n \<and> n \<noteq> 215 \<and> n \<noteq> 247))"

definition numeric_char :: "char \<Rightarrow> bool" where
  "numeric_char c = (let n = (of_char c :: nat)
     in is_dig c \<or> n = 178 \<or> n = 179 \<or> n = 185 \<or> (188 \<le> n \<and> n \<le> 190))"

definition ident_start :: "char \<Rightarrow> bool" where
  "ident_start c = (c = CHR ''$'' \<or> c = CHR ''_'' \<or> letter c)"

definition ident_part :: "char \<Rightarrow> bool" where
  "ident_part c = (ident_start c \<or> numeric_char c)"

definition SYMBOLS :: "string list" where
  "SYMBOLS = [''==='', ''!=='', ''=='', ''!='', ''<='', ''>='', ''&&'', ''||'', ''??'', ''?.'', ''.'', ''['', '']'',
     ''('', '')'', ''{'', ''}'', '','', ''?'', '':'', ''+'', ''*'', ''/'', ''%'', ''!'', ''<'', ''>'', ''-'']"

text \<open>One token at the head of a text that is neither empty nor white space.\<close>

definition nextToken :: "string \<Rightarrow> (Token \<times> string) ex" where
  "nextToken s =
     (case s of
        [] \<Rightarrow> exFail ''unsupported syntax''
      | c # r \<Rightarrow>
          if c = dquote \<or> c = CHR 0x27 then
            (case readString c r of Inl e \<Rightarrow> Inl e | Inr (t, r') \<Rightarrow> Inr (TLit (VStr t), r'))
          else (case scan_decimal s of
              Some (q, r') \<Rightarrow> Inr (TLit (VNum (round64 q)), r')
            | None \<Rightarrow>
                if ident_start c then Inr (TIdent (takeWhile ident_part s), dropWhile ident_part s)
                else (case List.find (js_startsWith s) SYMBOLS of
                    Some y \<Rightarrow> Inr (TSym y, drop (length y) s)
                  | None \<Rightarrow> exFail ''unsupported syntax'')))"

lemma readString_length: "readString q s = Inr (t, r) \<Longrightarrow> length r < length s"
proof (induction q s arbitrary: t r rule: readString.induct)
  case (2 q c s)
  show ?case
  proof (cases "c = q")
    case True
    with 2(4) show ?thesis by simp
  next
    case q: False
    show ?thesis
    proof (cases "c = bslash")
      case False
      with q 2(4) 2(1) [OF q False] show ?thesis by (auto split: sum.splits intro: less_SucI)
    next
      case c: True
      then obtain e s' where s: "s = e # s'" using 2(4) q by (cases s) (simp_all add: exFail_def)
      show ?thesis
      proof (cases "e = CHR ''u''")
        case u: True
        then obtain w x y z u where s': "s' = w # x # y # z # u"
          using 2(4) q c by (auto simp: s exFail_def split: list.splits)
        from 2(4) q c u obtain n p v where "readString q u = Inr (p, v)" "r = v"
          by (auto simp: s s' exFail_def split: option.splits sum.splits)
        moreover have "hex4 w x y z \<noteq> None" using 2(4) q c u by (cases "hex4 w x y z") (simp_all add: s s' exFail_def)
        ultimately have "length r < length u" using 2(2) q c u s s' by blast
        then show ?thesis by (simp add: s s')
      next
        case u: False
        from 2(4) q c u obtain d p where d: "escape_of e = Some d" "readString q s' = Inr (p, r)"
          by (auto simp: s exFail_def split: option.splits sum.splits)
        then have "length r < length s'" using 2(3) q c u s by blast
        then show ?thesis by (simp add: s)
      qed
    qed
  qed
qed (simp add: exFail_def)

lemma scan_exp_length: "length (snd (scan_exp s)) \<le> length s"
  by (auto simp: scan_exp_def Let_def split: list.split)
    (metis le_SucI length_dropWhile_le length_tl diff_le_self order_trans)+

lemma scan_decimal_length:
  assumes "scan_decimal s = Some (q, r)"
  shows "length r < length s"
proof -
  let ?ip = "takeWhile is_dig s" and ?r = "dropWhile is_dig s"
  let ?dot = "?r \<noteq> [] \<and> hd ?r = CHR ''.''"
  let ?fp = "if ?dot then takeWhile is_dig (tl ?r) else []"
  let ?r1 = "if ?ip \<noteq> [] \<and> ?dot \<or> ?fp \<noteq> [] then dropWhile is_dig (tl ?r) else ?r"
  from assms have some: "\<not> (?ip = [] \<and> ?fp = [])" "r = snd (scan_exp ?r1)"
    by (auto simp: scan_decimal_def Let_def split: if_splits prod.splits)
  have tl: "length (dropWhile is_dig (tl ?r)) \<le> length ?r - 1" using length_dropWhile_le [of is_dig "tl ?r"] by simp
  have split: "length ?ip + length ?r = length s" by (metis length_append takeWhile_dropWhile_id)
  have "length ?r1 < length s"
  proof (cases "?ip = []")
    case True
    with some(1) have "?fp \<noteq> []" by blast
    then have "?r \<noteq> []" "?r1 = dropWhile is_dig (tl ?r)" by (auto split: if_splits)
    with tl split show ?thesis by (cases ?r) auto
  next
    case False
    then have "0 < length ?ip" by simp
    moreover have "length ?r1 \<le> length ?r"
      using tl by (auto intro: order_trans)
    ultimately show ?thesis using split by linarith
  qed
  then have "length (snd (scan_exp ?r1)) < length s" by (rule le_less_trans [OF scan_exp_length])
  then show ?thesis by (simp only: some(2))
qed

lemma nextToken_length: "nextToken s = Inr (t, r) \<Longrightarrow> length r < length s"
proof (cases s)
  case (Cons c s')
  assume t: "nextToken s = Inr (t, r)"
  have sym: "length (drop (length y) s) < length s" if "List.find (js_startsWith s) SYMBOLS = Some y" for y
  proof -
    have "y \<in> set SYMBOLS" using that by (auto simp: find_Some_iff)
    then have "y \<noteq> []" by (auto simp: SYMBOLS_def)
    then show ?thesis using Cons by simp
  qed
  have ident: "length (dropWhile ident_part s) < length s" if "ident_start c"
    using that length_dropWhile_le [of ident_part s'] by (simp add: Cons ident_part_def le_imp_less_Suc)
  show ?thesis
  proof (cases "c = dquote \<or> c = CHR 0x27")
    case True
    then show ?thesis using t
      by (auto simp: nextToken_def Cons dest!: readString_length split: sum.splits)
  next
    case q: False
    show ?thesis
    proof (cases "scan_decimal s")
      case d: None
      show ?thesis
      proof (cases "ident_start c")
        case True
        with t q d show ?thesis using ident [OF True] by (simp add: nextToken_def Cons)
      next
        case False
        with t q d obtain y where "List.find (js_startsWith s) SYMBOLS = Some y" "r = drop (length y) s"
          by (auto simp: nextToken_def Cons exFail_def split: option.splits)
        then show ?thesis using sym by blast
      qed
    next
      case (Some p)
      then obtain n r' where p: "scan_decimal s = Some (n, r')" by (cases p) auto
      with t q have "r = r'" by (simp add: nextToken_def Cons)
      then show ?thesis using scan_decimal_length [OF p] by simp
    qed
  qed
qed (simp add: nextToken_def exFail_def)

function tokenizeFrom :: "int \<Rightarrow> string \<Rightarrow> Token list ex" where
  "tokenizeFrom n s =
     (case s of
        [] \<Rightarrow> Inr []
      | c # r \<Rightarrow>
          if js_space c then tokenizeFrom n r
          else if n \<ge> 2048 then exFail ''token limit''
          else (case nextToken s of
              Inl e \<Rightarrow> Inl e
            | Inr (t, r') \<Rightarrow> (case tokenizeFrom (n + 1) r' of Inl e \<Rightarrow> Inl e | Inr ts \<Rightarrow> Inr (t # ts))))"
  by pat_completeness auto
termination by (relation "measure (\<lambda>(_, s). length s)") (auto dest: nextToken_length)

declare tokenizeFrom.simps [simp del]

definition tokenize :: "string \<Rightarrow> Token list ex" where
  "tokenize script = (if int (length script) > 16384 then exFail ''source length limit'' else tokenizeFrom 0 script)"


section \<open>The parser\<close>

datatype Node =
    NLit jsval
  | NRef string
  | NArr "Node list"
  | NObj "(string \<times> Node) list"
  | NMember Node Node
  | NUnary string Node
  | NBinary string Node Node
  | NCond Node Node Node
  | NFlatten Node Node

definition precedence :: "string \<Rightarrow> nat option" where
  "precedence y =
     (if y = ''??'' then Some 1 else if y = ''||'' then Some 2 else if y = ''&&'' then Some 3
      else if y \<in> {''==='', ''!=='', ''=='', ''!=''} then Some 4 else if y \<in> {''<'', ''<='', ''>'', ''>=''} then Some 5
      else if y \<in> {''+'', ''-''} then Some 6 else if y \<in> {''*'', ''/'', ''%''} then Some 7 else None)"

text \<open>\<open>NoFuel\<close> is not a result of the code, and \<open>expression\<close> is shown never to have it.\<close>

datatype 'a parse = NoFuel | PFail string | POk 'a "Token list"

definition pBind :: "'a parse \<Rightarrow> ('a \<Rightarrow> Token list \<Rightarrow> 'b parse) \<Rightarrow> 'b parse" where
  "pBind m f = (case m of NoFuel \<Rightarrow> NoFuel | PFail e \<Rightarrow> PFail e | POk x ts \<Rightarrow> f x ts)"

definition pError :: "string \<Rightarrow> 'a parse" where
  "pError message = PFail (exprError message)"

definition isSym :: "string \<Rightarrow> Token list \<Rightarrow> bool" where
  "isSym y ts = (case ts of TSym z # _ \<Rightarrow> z = y | _ \<Rightarrow> False)"

definition require :: "string \<Rightarrow> Token list \<Rightarrow> (Token list \<Rightarrow> 'a parse) \<Rightarrow> 'a parse" where
  "require y ts f = (if isSym y ts then f (tl ts) else pError (''expected '' @ y))"

definition keyNode :: "Token list \<Rightarrow> (string \<Rightarrow> 'a parse) \<Rightarrow> 'a parse" where
  "keyNode ts f =
     (case ts of
        TIdent k # _ \<Rightarrow> (case checkKey k of Inl e \<Rightarrow> PFail e | Inr k' \<Rightarrow> f k')
      | _ \<Rightarrow> pError ''expected property name'')"

text \<open>The checked key of an object entry and its colon.\<close>

definition entryKey :: "Token list \<Rightarrow> (string \<Rightarrow> Token list \<Rightarrow> 'a parse) \<Rightarrow> 'a parse" where
  "entryKey ts f =
     (let next = (\<lambda>k. require '':'' (tl ts) (\<lambda>ts1. case checkKey k of Inl e \<Rightarrow> PFail e | Inr k' \<Rightarrow> f k' ts1))
      in case ts of
           TIdent k # _ \<Rightarrow> next k
         | TLit (VStr s) # _ \<Rightarrow> next s
         | TLit (VNum n) # _ \<Rightarrow> next (js_show n)
         | _ \<Rightarrow> pError ''object key must be a literal'')"

text \<open>The binary operator at the head of the tokens, with its precedence.\<close>

definition operatorAt :: "Token list \<Rightarrow> (string \<times> nat) option" where
  "operatorAt ts = (case ts of TSym y # _ \<Rightarrow> map_option (Pair y) (precedence y) | _ \<Rightarrow> None)"

definition constantOf :: "string \<Rightarrow> jsval option" where
  "constantOf k = (if k = ''true'' then Some (VBool True) else if k = ''false'' then Some (VBool False)
     else if k = ''null'' then Some VNull else if k = ''undefined'' then Some VUndef else None)"

text \<open>
  The functions below take the parser \<open>e\<close> of a nested expression, given its minimum precedence.  The loops over
  binary operators, property accesses, items and entries run under fuel; every turn consumes a token.
\<close>

type_synonym nested = "nat \<Rightarrow> Token list \<Rightarrow> Node parse"

primrec operators :: "nat \<Rightarrow> nested \<Rightarrow> nat \<Rightarrow> Node \<Rightarrow> Token list \<Rightarrow> Node parse" where
  "operators 0 e m left ts = NoFuel"
| "operators (Suc f) e m left ts =
     (case operatorAt ts of
        None \<Rightarrow> POk left ts
      | Some (y, rank) \<Rightarrow>
          if rank < m then POk left ts
          else pBind (e (rank + 1) (tl ts)) (\<lambda>right ts1. operators f e m (NBinary y left right) ts1))"

text \<open>The key of a computed access, up to its closing bracket.\<close>

definition computedKey :: "nested \<Rightarrow> Token list \<Rightarrow> Node parse" where
  "computedKey e ts = pBind (e 0 ts) (\<lambda>key ts1. require '']'' ts1 (POk key))"

primrec postfix :: "nat \<Rightarrow> nested \<Rightarrow> Node \<Rightarrow> Token list \<Rightarrow> Node parse" where
  "postfix 0 e object ts = NoFuel"
| "postfix (Suc f) e object ts =
     (if isSym ''['' ts then pBind (computedKey e (tl ts)) (\<lambda>key ts1. postfix f e (NMember object key) ts1)
      else if isSym ''.'' ts \<or> isSym ''?.'' ts then
        (if isSym ''['' (tl ts) then
           pBind (computedKey e (tl (tl ts))) (\<lambda>key ts1. postfix f e (NMember object key) ts1)
         else keyNode (tl ts) (\<lambda>k. postfix f e (NMember object (NLit (VStr k))) (tl (tl ts))))
      else POk object ts)"

primrec items :: "nat \<Rightarrow> nested \<Rightarrow> Token list \<Rightarrow> Node list parse" where
  "items 0 e ts = NoFuel"
| "items (Suc f) e ts =
     (if isSym '']'' ts then POk [] (tl ts)
      else pBind (e 0 ts) (\<lambda>x ts1.
        if isSym '']'' ts1 then POk [x] (tl ts1)
        else require '','' ts1 (\<lambda>ts2. pBind (items f e ts2) (\<lambda>xs ts3. POk (x # xs) ts3))))"

primrec entries :: "nat \<Rightarrow> nested \<Rightarrow> Token list \<Rightarrow> (string \<times> Node) list parse" where
  "entries 0 e ts = NoFuel"
| "entries (Suc f) e ts =
     (if isSym ''}'' ts then POk [] (tl ts)
      else entryKey ts (\<lambda>k ts1. pBind (e 0 ts1) (\<lambda>v ts2.
        if isSym ''}'' ts2 then POk [(k, v)] (tl ts2)
        else require '','' ts2 (\<lambda>ts3. pBind (entries f e ts3) (\<lambda>kvs ts4. POk ((k, v) # kvs) ts4)))))"

text \<open>A value before its property accesses.\<close>

definition operand :: "nested \<Rightarrow> Token list \<Rightarrow> Node parse" where
  "operand e ts =
     (case ts of
        [] \<Rightarrow> pError ''missing value''
      | TLit v # ts1 \<Rightarrow> POk (NLit v) ts1
      | TIdent k # ts1 \<Rightarrow>
          (case checkKey k of
             Inl msg \<Rightarrow> PFail msg
           | Inr n \<Rightarrow>
               (case constantOf n of
                  Some v \<Rightarrow> POk (NLit v) ts1
                | None \<Rightarrow>
                    if n = ''flattenNestedKeys'' \<and> isSym ''('' ts1 then
                      pBind (e 0 (tl ts1)) (\<lambda>data ts2. require '','' ts2 (\<lambda>ts3.
                        pBind (e 0 ts3) (\<lambda>path ts4. require '')'' ts4 (POk (NFlatten data path)))))
                    else POk (NRef n) ts1))
      | TSym y # ts1 \<Rightarrow>
          if y \<in> {''!'', ''-'', ''+''} then pBind (e 8 ts1) (\<lambda>v ts2. POk (NUnary y v) ts2)
          else if y = ''('' then pBind (e 0 ts1) (\<lambda>v ts2. require '')'' ts2 (POk v))
          else if y = ''['' then pBind (items (Suc (length ts1)) e ts1) (\<lambda>xs ts2. POk (NArr xs) ts2)
          else if y = ''{'' then pBind (entries (Suc (length ts1)) e ts1) (\<lambda>xs ts2. POk (NObj xs) ts2)
          else pError ''unsupported value'')"

definition primary :: "nested \<Rightarrow> Token list \<Rightarrow> Node parse" where
  "primary e ts = pBind (operand e ts) (\<lambda>node ts1. postfix (Suc (length ts1)) e node ts1)"

text \<open>An expression whose nested ones are parsed by \<open>e\<close>; \<open>expression d\<close> has \<open>d\<close> levels of nesting left.\<close>

definition expressionAt :: "nested \<Rightarrow> nested" where
  "expressionAt e m ts =
     pBind (primary e ts) (\<lambda>value ts1. pBind (operators (Suc (length ts1)) e m value ts1) (\<lambda>left ts2.
       if m = 0 \<and> isSym ''?'' ts2 then
         pBind (e 0 (tl ts2)) (\<lambda>yes ts3. require '':'' ts3 (\<lambda>ts4.
           pBind (e 0 ts4) (\<lambda>no ts5. POk (NCond left yes no) ts5)))
       else POk left ts2))"

primrec expression :: "nat \<Rightarrow> nested" where
  "expression 0 = (\<lambda>_ _. pError ''nesting limit'')"
| "expression (Suc d) = expressionAt (expression d)"

definition parseTokens :: "Token list \<Rightarrow> Node ex" where
  "parseTokens ts =
     (case expression MAX_DEPTH 0 ts of
        NoFuel \<Rightarrow> exFail ''out of fuel''
      | PFail e \<Rightarrow> Inl e
      | POk node [] \<Rightarrow> Inr node
      | POk node _ \<Rightarrow> exFail ''function calls or other executable syntax'')"

definition parseExpression :: "string \<Rightarrow> Node ex" where
  "parseExpression script = (case tokenize script of Inl e \<Rightarrow> Inl e | Inr ts \<Rightarrow> parseTokens ts)"


section \<open>Static references\<close>

fun node_weight :: "Node \<Rightarrow> nat" where
  "node_weight (NLit v) = 1"
| "node_weight (NRef n) = 1"
| "node_weight (NArr xs) = Suc (sum_list (map node_weight xs))"
| "node_weight (NObj kvs) = Suc (sum_list (map (\<lambda>kv. node_weight (snd kv)) kvs))"
| "node_weight (NMember a b) = Suc (node_weight a + node_weight b)"
| "node_weight (NUnary y a) = Suc (node_weight a)"
| "node_weight (NBinary y a b) = Suc (node_weight a + node_weight b)"
| "node_weight (NCond a b c) = Suc (node_weight a + node_weight b + node_weight c)"
| "node_weight (NFlatten a b) = Suc (node_weight a + node_weight b)"

text \<open>The children of a node in the order they are pushed; the stack is kept with its top first.\<close>

fun nodeChildren :: "Node \<Rightarrow> Node list" where
  "nodeChildren (NLit v) = []"
| "nodeChildren (NRef n) = []"
| "nodeChildren (NArr xs) = xs"
| "nodeChildren (NObj kvs) = map snd kvs"
| "nodeChildren (NMember a b) = [a, b]"
| "nodeChildren (NUnary y a) = [a]"
| "nodeChildren (NBinary y a b) = [a, b]"
| "nodeChildren (NCond a b c) = [a, b, c]"
| "nodeChildren (NFlatten a b) = [a, b]"

lemma nodeChildren_weight: "sum_list (map node_weight (nodeChildren n)) < node_weight n"
  by (cases n) (simp_all add: comp_def)

function referenceLoop :: "Node list \<Rightarrow> string list \<Rightarrow> string list" where
  "referenceLoop [] seen = seen"
| "referenceLoop (n # pending) seen =
     referenceLoop (rev (nodeChildren n) @ pending)
       (case n of NRef k \<Rightarrow> if k \<in> set seen then seen else seen @ [k] | _ \<Rightarrow> seen)"
  by pat_completeness auto
termination
  by (relation "measure (\<lambda>(ns, _). sum_list (map node_weight ns))")
    (auto simp: rev_map [symmetric] sum_list_rev nodeChildren_weight)

definition workflowExpressionReferences :: "string \<Rightarrow> string list ex" where
  "workflowExpressionReferences script =
     (case parseExpression script of Inl e \<Rightarrow> Inl e | Inr node \<Rightarrow> Inr (referenceLoop [node] []))"


section \<open>The budget\<close>

record Budget =
  bg_visits :: int
  bg_characters :: int

type_synonym 'a ev = "Budget \<Rightarrow> string + ('a \<times> Budget)"

definition evRet :: "'a \<Rightarrow> 'a ev" where
  "evRet x b = Inr (x, b)"

definition evFail :: "string \<Rightarrow> 'a ev" where
  "evFail message b = exFail message"

definition evBind :: "'a ev \<Rightarrow> ('a \<Rightarrow> 'c ev) \<Rightarrow> 'c ev" where
  "evBind m f b = (case m b of Inl e \<Rightarrow> Inl e | Inr (x, b') \<Rightarrow> f x b')"

definition evLift :: "'a ex \<Rightarrow> 'a ev" where
  "evLift r b = (case r of Inl e \<Rightarrow> Inl e | Inr x \<Rightarrow> Inr (x, b))"

definition visit :: "nat \<Rightarrow> unit ev" where
  "visit depth b =
     (if bg_visits b + 1 > MAX_VISITS \<or> depth > MAX_DEPTH then exFail ''value or nesting limit''
      else Inr ((), b\<lparr>bg_visits := bg_visits b + 1\<rparr>))"

definition budgetString :: "string \<Rightarrow> string ev" where
  "budgetString s b =
     (let n = bg_characters b + int (length s)
      in if n > MAX_TEXT then exFail ''output size limit'' else Inr (s, b\<lparr>bg_characters := n\<rparr>))"

fun copyData :: "jsval \<Rightarrow> nat \<Rightarrow> jsval ev"
  and copyAll :: "jsval list \<Rightarrow> nat \<Rightarrow> jsval list ev"
  and copyEntries :: "(string \<times> jsprop) list \<Rightarrow> nat \<Rightarrow> (string \<times> jsprop) list ev"
where
  "copyData v d = evBind (visit d) (\<lambda>_.
     case v of
       VStr s \<Rightarrow> evBind (budgetString s) (\<lambda>t. evRet (VStr t))
     | VArr xs \<Rightarrow>
         if int (length xs) > 10000 then evFail ''array size limit''
         else evBind (copyAll xs (Suc d)) (\<lambda>ys. evRet (VArr ys))
     | VObj json kvs \<Rightarrow>
         if \<not> json then evFail ''non-JSON object''
         else evBind (copyEntries kvs (Suc d)) (\<lambda>ys. evRet (VObj True ys))
     | _ \<Rightarrow> evLift (primitive v))"
| "copyAll [] d = evRet []"
| "copyAll (x # xs) d = evBind (copyData x d) (\<lambda>y. evBind (copyAll xs d) (\<lambda>ys. evRet (y # ys)))"
| "copyEntries [] d = evRet []"
| "copyEntries ((k, p) # kvs) d =
     evBind (budgetString k) (\<lambda>_. evBind (evLift (checkKey k)) (\<lambda>k'.
       case p of
         PGetter \<Rightarrow> evFail ''accessor property''
       | PData v \<Rightarrow> evBind (copyData v d) (\<lambda>y. evBind (copyEntries kvs d) (\<lambda>ys. evRet ((k', PData y) # ys)))))"


section \<open>Operators\<close>

fun to_number :: "jsval \<Rightarrow> jsnum" where
  "to_number (VStr s) = js_of_text s"
| "to_number (VNum n) = n"
| "to_number (VBool b) = JFin (if b then 1 else 0)"
| "to_number VNull = JFin 0"
| "to_number _ = JNaN"

fun to_text :: "jsval \<Rightarrow> string" where
  "to_text (VStr s) = s"
| "to_text (VNum n) = js_show n"
| "to_text (VBool b) = (if b then ''true'' else ''false'')"
| "to_text VNull = ''null''"
| "to_text _ = ''undefined''"

text \<open>\<^verbatim>\<open>===\<close> and \<^verbatim>\<open>==\<close> between primitives.\<close>

fun same_value :: "jsval \<Rightarrow> jsval \<Rightarrow> bool" where
  "same_value (VNum a) (VNum b) = js_num_eq a b"
| "same_value a b = (a = b)"

fun loose_same :: "jsval \<Rightarrow> jsval \<Rightarrow> bool" where
  "loose_same VNull b = (b \<in> {VNull, VUndef})"
| "loose_same VUndef b = (b \<in> {VNull, VUndef})"
| "loose_same a VNull = False"
| "loose_same a VUndef = False"
| "loose_same (VStr s) (VStr t) = (s = t)"
| "loose_same a b = js_num_eq (to_number a) (to_number b)"

definition is_text :: "jsval \<Rightarrow> bool" where
  "is_text v = (case v of VStr _ \<Rightarrow> True | _ \<Rightarrow> False)"

definition before :: "jsval \<Rightarrow> jsval \<Rightarrow> bool" where
  "before a b = (if is_text a \<and> is_text b then to_text a < to_text b else js_lt (to_number a) (to_number b))"

definition not_after :: "jsval \<Rightarrow> jsval \<Rightarrow> bool" where
  "not_after a b = (if is_text a \<and> is_text b then to_text a \<le> to_text b else js_le (to_number a) (to_number b))"

definition binaryOp :: "string \<Rightarrow> jsval \<Rightarrow> jsval \<Rightarrow> jsval ex" where
  "binaryOp y left right =
     (if y = ''==='' then Inr (VBool (same_value left right))
      else if y = ''!=='' then Inr (VBool (\<not> same_value left right))
      else if y = ''=='' then Inr (VBool (loose_same left right))
      else if y = ''!='' then Inr (VBool (\<not> loose_same left right))
      else if y = ''<'' then Inr (VBool (before left right))
      else if y = ''<='' then Inr (VBool (not_after left right))
      else if y = ''>'' then Inr (VBool (before right left))
      else if y = ''>='' then Inr (VBool (not_after right left))
      else if y = ''+'' then Inr (if is_text left \<or> is_text right then VStr (to_text left @ to_text right)
                                  else VNum (js_add (to_number left) (to_number right)))
      else if y = ''-'' then Inr (VNum (js_sub (to_number left) (to_number right)))
      else if y = ''*'' then Inr (VNum (js_mul (to_number left) (to_number right)))
      else if y = ''/'' then Inr (VNum (js_div (to_number left) (to_number right)))
      else if y = ''%'' then Inr (VNum (js_rem (to_number left) (to_number right)))
      else exFail ''unknown operator'')"

definition binaryValue :: "string \<Rightarrow> jsval \<Rightarrow> jsval \<Rightarrow> jsval ex" where
  "binaryValue y l r =
     (case primitive l of Inl e \<Rightarrow> Inl e | Inr left \<Rightarrow> (case primitive r of Inl e \<Rightarrow> Inl e | Inr right \<Rightarrow>
        (case binaryOp y left right of Inl e \<Rightarrow> Inl e | Inr v \<Rightarrow> primitive v)))"

fun truthy :: "jsval \<Rightarrow> bool" where
  "truthy VUndef = False"
| "truthy VNull = False"
| "truthy (VBool b) = b"
| "truthy (VNum n) = (n \<noteq> JNaN \<and> n \<noteq> JFin 0)"
| "truthy (VStr s) = (s \<noteq> [])"
| "truthy (VBig i) = (i \<noteq> 0)"
| "truthy _ = True"

definition unaryValue :: "string \<Rightarrow> jsval \<Rightarrow> jsval ex" where
  "unaryValue y v =
     (case primitive v of
        Inl e \<Rightarrow> Inl e
      | Inr p \<Rightarrow> if y = ''!'' then Inr (VBool (\<not> truthy p))
                 else primitive (VNum (if y = ''-'' then js_neg (to_number p) else to_number p)))"


section \<open>Evaluation\<close>

fun flattenWalk :: "string list \<Rightarrow> jsval \<Rightarrow> nat \<Rightarrow> nat \<Rightarrow> jsval list ev"
  and flattenAll :: "string list \<Rightarrow> jsval list \<Rightarrow> nat \<Rightarrow> nat \<Rightarrow> jsval list ev"
  and flattenOwn :: "string list \<Rightarrow> (string \<times> jsprop) list \<Rightarrow> nat \<Rightarrow> nat \<Rightarrow> jsval list ev"
where
  "flattenWalk path v position level = evBind (visit level) (\<lambda>_.
     case v of
       VArr xs \<Rightarrow> flattenAll path xs position (Suc level)
     | VObj _ kvs \<Rightarrow> if position < length path then flattenOwn path kvs position (Suc level) else evRet []
     | _ \<Rightarrow> evRet (if position = length path then [v] else []))"
| "flattenAll path [] position level = evRet []"
| "flattenAll path (x # xs) position level =
     evBind (flattenWalk path x position level) (\<lambda>a. evBind (flattenAll path xs position level) (\<lambda>b. evRet (a @ b)))"
| "flattenOwn path [] position level = evRet []"
| "flattenOwn path ((k, p) # kvs) position level =
     (if k = path ! position then
        (case p of PGetter \<Rightarrow> evFail ''accessor property'' | PData v \<Rightarrow> flattenWalk path v (Suc position) level)
      else flattenOwn path kvs position level)"

definition pathOf :: "jsval \<Rightarrow> string list ex" where
  "pathOf v =
     (case v of
        VArr xs \<Rightarrow>
          if list_all is_text xs then
            (if \<exists>x \<in> set xs. to_text x \<in> set forbiddenNames then exFail ''prototype access'' else Inr (map to_text xs))
          else exFail ''flatten path must be a string array''
      | _ \<Rightarrow> exFail ''flatten path must be a string array'')"

definition fromEntries :: "(string \<times> jsval) list \<Rightarrow> jsval" where
  "fromEntries kvs = VObj True (ownEntries (map (\<lambda>(k, v). (k, PData v)) (fold (\<lambda>(k, v) m. js_set k v m) kvs [])))"

fun evaluate :: "jsval \<Rightarrow> Node \<Rightarrow> nat \<Rightarrow> jsval ev"
  and evaluateAll :: "jsval \<Rightarrow> Node list \<Rightarrow> nat \<Rightarrow> jsval list ev"
  and evaluateEntries :: "jsval \<Rightarrow> (string \<times> Node) list \<Rightarrow> nat \<Rightarrow> (string \<times> jsval) list ev"
where
  "evaluate context node d = evBind (visit d) (\<lambda>_.
     case node of
       NLit v \<Rightarrow> evLift (primitive v)
     | NRef n \<Rightarrow> evLift (ownData context (VStr n))
     | NArr xs \<Rightarrow> evBind (evaluateAll context xs (Suc d)) (\<lambda>vs. evRet (VArr vs))
     | NObj kvs \<Rightarrow> evBind (evaluateEntries context kvs (Suc d)) (\<lambda>es. evRet (fromEntries es))
     | NMember object key \<Rightarrow> evBind (evaluate context object (Suc d)) (\<lambda>x.
         evBind (evaluate context key (Suc d)) (\<lambda>k. evLift (ownData x k)))
     | NUnary y value \<Rightarrow> evBind (evaluate context value (Suc d)) (\<lambda>v. evLift (unaryValue y v))
     | NBinary y left right \<Rightarrow> evBind (evaluate context left (Suc d)) (\<lambda>l.
         if y = ''&&'' then (if truthy l then evaluate context right (Suc d) else evRet l)
         else if y = ''||'' then (if truthy l then evRet l else evaluate context right (Suc d))
         else if y = ''??'' then (if l \<in> {VNull, VUndef} then evaluate context right (Suc d) else evRet l)
         else evBind (evaluate context right (Suc d)) (\<lambda>r. evBind (evLift (binaryValue y l r)) (\<lambda>v.
           case v of VStr s \<Rightarrow> evBind (budgetString s) (\<lambda>t. evRet (VStr t)) | _ \<Rightarrow> evRet v)))
     | NCond c yes no \<Rightarrow> evBind (evaluate context c (Suc d)) (\<lambda>b.
         if truthy b then evaluate context yes (Suc d) else evaluate context no (Suc d))
     | NFlatten data path \<Rightarrow> evBind (evaluate context data (Suc d)) (\<lambda>x. evBind (copyData x 0) (\<lambda>x'.
         evBind (evaluate context path (Suc d)) (\<lambda>p. evBind (copyData p 0) (\<lambda>p'.
           evBind (evLift (pathOf p')) (\<lambda>ks. evBind (flattenWalk ks x' 0 0) (\<lambda>vs. evRet (VArr vs))))))))"
| "evaluateAll context [] d = evRet []"
| "evaluateAll context (n # ns) d =
     evBind (evaluate context n d) (\<lambda>v. evBind (evaluateAll context ns d) (\<lambda>vs. evRet (v # vs)))"
| "evaluateEntries context [] d = evRet []"
| "evaluateEntries context ((k, n) # kvs) d =
     evBind (evaluate context n d) (\<lambda>v. evBind (evaluateEntries context kvs d) (\<lambda>vs. evRet ((k, v) # vs)))"

definition newBudget :: Budget where
  "newBudget = \<lparr> bg_visits = 0, bg_characters = 0 \<rparr>"

definition evaluateParsed :: "string \<Rightarrow> jsval \<Rightarrow> jsval ex" where
  "evaluateParsed script context =
     (case parseExpression script of
        Inl e \<Rightarrow> Inl e
      | Inr tree \<Rightarrow> map_sum id fst (evBind (evaluate context tree 0) (\<lambda>v. copyData v 0) newBudget))"

definition GUIDANCE :: string where
  "GUIDANCE = ''Workflow expressions are data only: property paths, literals, '' @
     ''arithmetic, comparisons, logical and nullish operators, ternaries, arrays/objects '' @
     ''and flattenNestedKeys(data, path). JavaScript methods, function calls, assignment '' @
     ''and prototype access are no longer evaluated. Rewrite the expression as a data '' @
     ''reference, or move the logic into a step whose effects Authority can govern.''"

fun squeeze :: "string \<Rightarrow> string" where
  "squeeze [] = []"
| "squeeze (c # s) =
     (if js_space c then (case s of e # _ \<Rightarrow> if js_space e then squeeze s else CHR '' '' # squeeze s | [] \<Rightarrow> '' '')
      else c # squeeze s)"

definition excerpt :: "string \<Rightarrow> string" where
  "excerpt script = (let flat = js_trim (squeeze script) in if length flat > 120 then take 120 flat @ ''...'' else flat)"

definition evaluateWorkflowExpression :: "string \<Rightarrow> jsval \<Rightarrow> jsval ex" where
  "evaluateWorkflowExpression script context =
     (case evaluateParsed script context of
        Inl e \<Rightarrow> Inl (e @ '' in {{ '' @ excerpt script @ '' }}. '' @ GUIDANCE)
      | Inr v \<Rightarrow> Inr v)"

end
