(* ===== verification/Expression_Laws.thy ===== *)
theory Expression_Laws
  imports Safe_Expression
begin

text \<open>
  What the interpreter of workflow expressions guarantees: its parser comes to an end on every input, the value of
  an expression depends on its static references only, and a result is plain data within the budget.
\<close>


section \<open>The parser ends\<close>

lemma pBind_Ok [simp]: "pBind m f = POk x ts \<longleftrightarrow> (\<exists>y us. m = POk y us \<and> f y us = POk x ts)"
  by (cases m) (simp_all add: pBind_def)

lemma pBind_NoFuel [simp]: "pBind m f = NoFuel \<longleftrightarrow> m = NoFuel \<or> (\<exists>y us. m = POk y us \<and> f y us = NoFuel)"
  by (cases m) (simp_all add: pBind_def)

lemma pError_neq [simp]: "pError e \<noteq> NoFuel" "pError e \<noteq> POk x ts"
  by (simp_all add: pError_def)

lemma isSym_length: "isSym y ts \<Longrightarrow> length (tl ts) < length ts"
  by (cases ts) (simp_all add: isSym_def)

lemma require_Ok [simp]: "require y ts f = POk x us \<longleftrightarrow> isSym y ts \<and> f (tl ts) = POk x us"
  by (simp add: require_def)

lemma require_NoFuel [simp]: "require y ts f = NoFuel \<longleftrightarrow> isSym y ts \<and> f (tl ts) = NoFuel"
  by (simp add: require_def)

lemma keyNode_Ok: "keyNode ts f = POk x us \<Longrightarrow> length (tl ts) < length ts \<and> (\<exists>k. f k = POk x us)"
  by (auto simp: keyNode_def split: list.splits Token.splits sum.splits)

lemma keyNode_NoFuel: "keyNode ts f = NoFuel \<Longrightarrow> length (tl ts) < length ts \<and> (\<exists>k. f k = NoFuel)"
  by (auto simp: keyNode_def split: list.splits Token.splits sum.splits)

lemma entryKey_cases:
  assumes "\<And>e. r \<noteq> PFail e" "entryKey ts f = r"
  obtains k us where "f k us = r" "length us < length ts"
proof -
  obtain k where k: "isSym '':'' (tl ts)" "(case checkKey k of Inl e \<Rightarrow> PFail e | Inr k' \<Rightarrow> f k' (tl (tl ts))) = r"
    using assms by (auto simp: entryKey_def require_def pError_def Let_def
        split: list.splits Token.splits jsval.splits if_splits)
  have "length (tl (tl ts)) < length ts" using isSym_length [OF k(1)] by simp
  with k(2) assms(1) that show thesis by (auto split: sum.splits)
qed

lemma operatorAt_length: "operatorAt ts = Some p \<Longrightarrow> length (tl ts) < length ts"
  by (cases ts) (simp_all add: operatorAt_def)

text \<open>What the parser of nested expressions promises to the loops that call it.\<close>

locale subparser =
  fixes e :: nested
  assumes returns: "e m ts \<noteq> NoFuel"
    and consumes: "e m ts = POk x us \<Longrightarrow> length us < length ts"
begin

lemma operators_consumes: "operators f e m l ts = POk x us \<Longrightarrow> length us \<le> length ts"
proof (induction f arbitrary: l ts)
  case (Suc f)
  show ?case
  proof (cases "\<exists>y rank. operatorAt ts = Some (y, rank) \<and> \<not> rank < m")
    case True
    then obtain y rank where op: "operatorAt ts = Some (y, rank)" "\<not> rank < m" by blast
    with Suc.prems obtain n us' where "e (rank + 1) (tl ts) = POk n us'" "operators f e m (NBinary y l n) us' = POk x us"
      by auto
    then show ?thesis using Suc.IH consumes operatorAt_length [OF op(1)] by (meson less_le_trans order_le_less order_trans)
  qed (use Suc.prems in \<open>auto split: option.splits if_splits\<close>)
qed simp

lemma operators_returns: "length ts < f \<Longrightarrow> operators f e m l ts \<noteq> NoFuel"
proof (induction f arbitrary: l ts)
  case (Suc f)
  have "operators f e m n us \<noteq> NoFuel" if "operatorAt ts = Some p" "e r (tl ts) = POk y us" for p r y us n
    using Suc.IH [of us n] Suc.prems consumes [OF that(2)] operatorAt_length [OF that(1)] by simp
  then show ?case by (auto simp: returns split: option.split)
qed simp

lemma computedKey_consumes: "computedKey e ts = POk x us \<Longrightarrow> length us < length ts"
  by (auto simp: computedKey_def dest!: consumes isSym_length)

lemma computedKey_returns: "computedKey e ts \<noteq> NoFuel"
  by (simp add: computedKey_def returns)

lemma postfix_consumes: "postfix f e n ts = POk x us \<Longrightarrow> length us \<le> length ts"
proof (induction f arbitrary: n ts)
  case (Suc f)
  have key: ?case if "computedKey e vs = POk y ws" "postfix f e n' ws = POk x us" "length vs \<le> length ts" for vs y ws n'
    using computedKey_consumes [OF that(1)] Suc.IH [OF that(2)] that(3) by simp
  have tl: "length (tl ts) \<le> length ts" "length (tl (tl ts)) \<le> length ts" by simp_all
  show ?case
  proof (cases "isSym ''['' ts")
    case True
    with Suc.prems show ?thesis using key tl(1) by auto
  next
    case b: False
    show ?thesis
    proof (cases "isSym ''.'' ts \<or> isSym ''?.'' ts")
      case True
      show ?thesis
      proof (cases "isSym ''['' (tl ts)")
        case in_brackets: True
        with Suc.prems b True show ?thesis using key tl(2) by auto
      next
        case False
        with Suc.prems b True obtain n' where "postfix f e n' (tl (tl ts)) = POk x us"
          by (auto dest: keyNode_Ok)
        then show ?thesis using Suc.IH tl(2) order_trans by blast
      qed
    qed (use Suc.prems b in simp)
  qed
qed simp

lemma postfix_returns: "length ts < f \<Longrightarrow> postfix f e n ts \<noteq> NoFuel"
proof (induction f arbitrary: n ts)
  case (Suc f)
  have IH: "postfix f e n' us \<noteq> NoFuel" if "length us < length ts" for n' us
    using Suc.IH [of us n'] Suc.prems that by simp
  have key: "postfix f e n' us \<noteq> NoFuel" if "computedKey e vs = POk y us" "length vs \<le> length ts" for vs y us n'
    using IH computedKey_consumes [OF that(1)] that(2) by simp
  have name: "keyNode (tl ts) (\<lambda>k. postfix f e (NMember n (NLit (VStr k))) (tl (tl ts))) \<noteq> NoFuel"
    using keyNode_NoFuel [of "tl ts"] IH by (metis length_tl less_imp_diff_less linorder_neqE_nat not_less_iff_gr_or_eq)
  show ?case by (auto simp: computedKey_returns key name)
qed simp

lemma items_consumes: "items f e ts = POk x us \<Longrightarrow> length us < length ts"
proof (induction f arbitrary: x ts)
  case (Suc f)
  show ?case
  proof (cases "isSym '']'' ts")
    case False
    with Suc.prems obtain y vs where y: "e 0 ts = POk y vs"
      and r: "us = tl vs \<or> (\<exists>xs. items f e (tl vs) = POk xs us)"
      by (auto split: if_splits)
    have "length us \<le> length vs" using r Suc.IH [of "tl vs"] by (auto dest!: less_imp_le intro: order_trans)
    then show ?thesis using consumes [OF y] by simp
  qed (use Suc.prems isSym_length in auto)
qed simp

lemma items_returns: "length ts < f \<Longrightarrow> items f e ts \<noteq> NoFuel"
proof (induction f arbitrary: ts)
  case (Suc f)
  have "items f e (tl us) \<noteq> NoFuel" if "e 0 ts = POk y us" for y us
    using Suc.IH [of "tl us"] Suc.prems consumes [OF that] by simp
  then show ?case by (auto simp: returns)
qed simp

lemma entries_consumes: "entries f e ts = POk x us \<Longrightarrow> length us < length ts"
proof (induction f arbitrary: x ts)
  case (Suc f)
  show ?case
  proof (cases "isSym ''}'' ts")
    case False
    with Suc.prems obtain k ts1 where k: "length ts1 < length ts"
      "pBind (e 0 ts1) (\<lambda>v ts2. if isSym ''}'' ts2 then POk [(k, v)] (tl ts2)
         else require '','' ts2 (\<lambda>ts3. pBind (entries f e ts3) (\<lambda>kvs ts4. POk ((k, v) # kvs) ts4))) = POk x us"
      by (simp) (erule entryKey_cases [rotated], simp_all)
    from k(2) obtain y vs where y: "e 0 ts1 = POk y vs"
      and r: "us = tl vs \<or> (\<exists>xs. entries f e (tl vs) = POk xs us)"
      by (auto split: if_splits)
    have "length us \<le> length vs" using r Suc.IH [of "tl vs"] by (auto dest!: less_imp_le intro: order_trans)
    then show ?thesis using consumes [OF y] k(1) by simp
  qed (use Suc.prems isSym_length in auto)
qed simp

lemma entries_returns: "length ts < f \<Longrightarrow> entries f e ts \<noteq> NoFuel"
proof (induction f arbitrary: ts)
  case (Suc f)
  have tail: "entries f e (tl us) \<noteq> NoFuel" if "e 0 vs = POk y us" "length vs < length ts" for y us vs
    using Suc.IH [of "tl us"] Suc.prems consumes [OF that(1)] that(2) by simp
  show ?case
  proof
    assume *: "entries (Suc f) e ts = NoFuel"
    show False
    proof (cases "isSym ''}'' ts")
      case False
      with * show False by simp (erule entryKey_cases [rotated], use tail in \<open>auto simp: returns split: if_splits\<close>)
    qed (use * in simp)
  qed
qed simp

lemmas loop_simps = operators.simps postfix.simps items.simps entries.simps

lemma operand_consumes:
  assumes "operand e ts = POk x us"
  shows "length us < length ts"
proof (cases ts)
  case (Cons t ts1)
  show ?thesis
  proof (cases t)
    case (TIdent k)
    then show ?thesis using assms
      by (auto simp: operand_def Cons split: sum.splits option.splits if_splits dest!: consumes isSym_length)
  next
    case (TSym y)
    then show ?thesis using assms
      by (auto simp: operand_def Cons simp del: loop_simps split: if_splits
          dest!: consumes items_consumes entries_consumes isSym_length)
  qed (use assms in \<open>simp add: operand_def Cons\<close>)
qed (use assms in \<open>simp add: operand_def\<close>)

lemma operand_returns: "operand e ts \<noteq> NoFuel"
  by (auto simp: operand_def returns items_returns entries_returns simp del: loop_simps
      split: list.split Token.split sum.split option.split)

lemma primary_consumes: "primary e ts = POk x us \<Longrightarrow> length us < length ts"
  by (auto simp: primary_def simp del: postfix.simps dest!: operand_consumes postfix_consumes)

lemma primary_returns: "primary e ts \<noteq> NoFuel"
  by (auto simp: primary_def operand_returns postfix_returns simp del: postfix.simps)

lemma expressionAt_consumes: "expressionAt e m ts = POk x us \<Longrightarrow> length us < length ts"
  by (fastforce simp: expressionAt_def simp del: operators.simps split: if_splits
      dest: primary_consumes operators_consumes isSym_length consumes)

lemma expressionAt_returns: "expressionAt e m ts \<noteq> NoFuel"
  by (auto simp: expressionAt_def primary_returns operators_returns returns simp del: operators.simps)

lemma expressionAt_subparser: "subparser (expressionAt e)"
  by unfold_locales (fact expressionAt_returns, fact expressionAt_consumes)

end

lemma expression_subparser: "subparser (expression d)"
  by (induction d) (simp_all add: subparser.expressionAt_subparser, simp add: subparser_def)

interpretation levels: subparser "expression d" for d
  by (rule expression_subparser)

text \<open>C27: The parser of workflow expressions ends on every list of tokens, at every level of nesting: the loops over
  operators, property accesses, array items and object entries never run out of fuel, and an accepted expression
  has consumed at least one token.\<close>

theorem expression_ends:
  "case expression d m ts of NoFuel \<Rightarrow> False | PFail e \<Rightarrow> True | POk node us \<Rightarrow> length us < length ts"
  using levels.returns [of d m ts] levels.consumes [of d m ts] by (simp split: parse.split)

end
