(* ===== verification/Expression_Values.thy ===== *)
theory Expression_Values
  imports Expression_Laws
begin

text \<open>
  What a workflow expression reads and what it can return.
\<close>


section \<open>Static references\<close>

fun nodeRefs :: "Node \<Rightarrow> string set" where
  "nodeRefs (NLit v) = {}"
| "nodeRefs (NRef n) = {n}"
| "nodeRefs (NArr xs) = (\<Union>x \<in> set xs. nodeRefs x)"
| "nodeRefs (NObj kvs) = (\<Union>kv \<in> set kvs. nodeRefs (snd kv))"
| "nodeRefs (NMember a b) = nodeRefs a \<union> nodeRefs b"
| "nodeRefs (NUnary y a) = nodeRefs a"
| "nodeRefs (NBinary y a b) = nodeRefs a \<union> nodeRefs b"
| "nodeRefs (NCond a b c) = nodeRefs a \<union> nodeRefs b \<union> nodeRefs c"
| "nodeRefs (NFlatten a b) = nodeRefs a \<union> nodeRefs b"

lemma nodeRefs_children:
  "nodeRefs n = (case n of NRef k \<Rightarrow> {k} | _ \<Rightarrow> {}) \<union> (\<Union>x \<in> set (nodeChildren n). nodeRefs x)"
  by (cases n) auto

lemma referenceLoop_set: "set (referenceLoop ns seen) = set seen \<union> (\<Union>n \<in> set ns. nodeRefs n)"
proof (induction ns seen rule: referenceLoop.induct)
  case (2 n pending seen)
  show ?case
    by (simp add: 2 nodeRefs_children [of n]) (auto split: Node.split)
qed simp

declare evaluate.simps [simp del]

lemma evaluateAll_cong:
  "(\<And>x d. x \<in> set xs \<Longrightarrow> evaluate c x d = evaluate c' x d) \<Longrightarrow> evaluateAll c xs d = evaluateAll c' xs d"
proof (induction xs)
  case (Cons x xs)
  then have "evaluate c x d = evaluate c' x d" "evaluateAll c xs d = evaluateAll c' xs d" by auto
  then show ?case by (simp only: evaluateAll.simps)
qed simp

lemma evaluateEntries_cong:
  "(\<And>kv d. kv \<in> set kvs \<Longrightarrow> evaluate c (snd kv) d = evaluate c' (snd kv) d) \<Longrightarrow>
    evaluateEntries c kvs d = evaluateEntries c' kvs d"
proof (induction kvs)
  case (Cons kv kvs)
  obtain k n where kv: "kv = (k, n)" by force
  have "evaluate c n d = evaluate c' n d" using Cons.prems [of kv d] by (simp add: kv)
  moreover have "evaluateEntries c kvs d = evaluateEntries c' kvs d" using Cons by auto
  ultimately show ?case by (simp only: kv evaluateEntries.simps)
qed simp

lemma ownData_name: "ownOf c n = ownOf c' n \<Longrightarrow> ownData c (VStr n) = ownData c' (VStr n)"
  by (simp add: ownData_def propertyKey_def checkKey_def exFail_def)

lemma evaluate_cong:
  "(\<And>n. n \<in> nodeRefs node \<Longrightarrow> ownOf c n = ownOf c' n) \<Longrightarrow> evaluate c node d = evaluate c' node d"
proof (induction node arbitrary: d)
  case (NRef n)
  then have "ownData c (VStr n) = ownData c' (VStr n)" by (intro ownData_name) simp
  then show ?case by (simp add: evaluate.simps [of _ "NRef n"] cong: if_cong)
next
  case (NArr xs)
  then have "evaluateAll c xs e = evaluateAll c' xs e" for e by (intro evaluateAll_cong) auto
  then show ?case by (simp add: evaluate.simps [of _ "NArr xs"] cong: if_cong)
next
  case (NObj kvs)
  then have "evaluateEntries c kvs e = evaluateEntries c' kvs e" for e
    by (intro evaluateEntries_cong) (metis UN_I nodeRefs.simps(4) prod.collapse snds.intros)
  then show ?case by (simp add: evaluate.simps [of _ "NObj kvs"] cong: if_cong)
next
  case (NMember a b)
  then have "evaluate c a e = evaluate c' a e" "evaluate c b e = evaluate c' b e" for e by simp_all
  then show ?case by (simp add: evaluate.simps [of _ "NMember a b"] cong: if_cong)
next
  case (NUnary y a)
  then have "evaluate c a e = evaluate c' a e" for e by simp
  then show ?case by (simp add: evaluate.simps [of _ "NUnary y a"] cong: if_cong)
next
  case (NBinary y a b)
  then have "evaluate c a e = evaluate c' a e" "evaluate c b e = evaluate c' b e" for e by simp_all
  then show ?case by (simp add: evaluate.simps [of _ "NBinary y a b"] cong: if_cong)
next
  case (NCond a b n)
  then have "evaluate c a e = evaluate c' a e" "evaluate c b e = evaluate c' b e" "evaluate c n e = evaluate c' n e" for e
    by simp_all
  then show ?case by (simp add: evaluate.simps [of _ "NCond a b n"] cong: if_cong)
next
  case (NFlatten a b)
  then have "evaluate c a e = evaluate c' a e" "evaluate c b e = evaluate c' b e" for e by simp_all
  then show ?case by (simp add: evaluate.simps [of _ "NFlatten a b"] cong: if_cong)
qed (simp add: evaluate.simps [of _ "NLit _"])

text \<open>C23: An expression reads nothing of its context beyond its static references: two contexts whose own properties
  agree on the names that \<open>workflowExpressionReferences\<close> lists give the same value or the same failure, whichever
  branches are taken.\<close>

theorem expression_noninterference:
  assumes "workflowExpressionReferences script = Inr names"
    and "\<forall>n \<in> set names. ownOf context1 n = ownOf context2 n"
  shows "evaluateWorkflowExpression script context1 = evaluateWorkflowExpression script context2"
proof -
  from assms(1) obtain tree where tree: "parseExpression script = Inr tree" "names = referenceLoop [tree] []"
    by (auto simp: workflowExpressionReferences_def split: sum.splits)
  then have "evaluate context1 tree 0 = evaluate context2 tree 0"
    using assms(2) by (intro evaluate_cong) (simp add: referenceLoop_set del: referenceLoop.simps)
  then show ?thesis by (simp add: evaluateWorkflowExpression_def evaluateParsed_def tree(1))
qed

theorem expression_noninterference_witness:
  "evaluateWorkflowExpression ''a'' (VObj True [(''a'', PData VNull)]) =
   evaluateWorkflowExpression ''a'' (VObj True [(''b'', PGetter), (''a'', PData VNull)])"
proof (rule expression_noninterference)
  show "workflowExpressionReferences ''a'' = Inr [''a'']" by code_simp
  show "\<forall>n \<in> set [''a'']. ownOf (VObj True [(''a'', PData VNull)]) n =
      ownOf (VObj True [(''b'', PGetter), (''a'', PData VNull)]) n" by code_simp
qed


section \<open>Plain data\<close>

fun plain :: "jsval \<Rightarrow> bool" and plainProp :: "jsprop \<Rightarrow> bool" where
  "plain (VNum n) = js_is_finite n"
| "plain (VArr xs) = (\<forall>x \<in> set xs. plain x)"
| "plain (VObj json kvs) = (json \<and> (\<forall>kv \<in> set kvs. fst kv \<notin> set forbiddenNames \<and> plainProp (snd kv)))"
| "plain VFun = False"
| "plain (VBig i) = False"
| "plain _ = True"
| "plainProp (PData v) = plain v"
| "plainProp PGetter = False"

text \<open>The values a value consists of, its characters (keys included) and its nesting.\<close>

fun valueCount :: "jsval \<Rightarrow> int" and propCount :: "jsprop \<Rightarrow> int" where
  "valueCount (VArr xs) = 1 + sum_list (map valueCount xs)"
| "valueCount (VObj json kvs) = 1 + sum_list (map (\<lambda>kv. propCount (snd kv)) kvs)"
| "valueCount _ = 1"
| "propCount (PData v) = valueCount v"
| "propCount PGetter = 1"

fun textCount :: "jsval \<Rightarrow> int" and propText :: "jsprop \<Rightarrow> int" where
  "textCount (VStr s) = int (length s)"
| "textCount (VArr xs) = sum_list (map textCount xs)"
| "textCount (VObj json kvs) = sum_list (map (\<lambda>kv. int (length (fst kv)) + propText (snd kv)) kvs)"
| "textCount _ = 0"
| "propText (PData v) = textCount v"
| "propText PGetter = 0"

fun nestedWithin :: "nat \<Rightarrow> jsval \<Rightarrow> bool" and propWithin :: "nat \<Rightarrow> jsprop \<Rightarrow> bool" where
  "nestedWithin d (VArr xs) = (\<forall>x \<in> set xs. 0 < d \<and> nestedWithin (d - 1) x)"
| "nestedWithin d (VObj json kvs) = (\<forall>kv \<in> set kvs. 0 < d \<and> propWithin (d - 1) (snd kv))"
| "nestedWithin d _ = True"
| "propWithin d (PData v) = nestedWithin d v"
| "propWithin d PGetter = True"

lemma evBind_Inr: "evBind m f b = Inr r \<longleftrightarrow> (\<exists>x b'. m b = Inr (x, b') \<and> f x b' = Inr r)"
  by (auto simp: evBind_def split: sum.splits)

lemma evRet_Inr: "evRet x b = Inr r \<longleftrightarrow> r = (x, b)"
  by (auto simp: evRet_def)

lemma evFail_Inr: "evFail e b \<noteq> Inr r"
  by (simp add: evFail_def exFail_def)

lemma evLift_Inr: "evLift q b = Inr r \<longleftrightarrow> (\<exists>x. q = Inr x \<and> r = (x, b))"
  by (auto simp: evLift_def split: sum.splits)

lemma visit_Inr: "visit d b = Inr r \<longleftrightarrow>
    bg_visits b + 1 \<le> MAX_VISITS \<and> d \<le> MAX_DEPTH \<and> r = ((), b\<lparr>bg_visits := bg_visits b + 1\<rparr>)"
  by (auto simp: visit_def exFail_def)

lemma budgetString_Inr: "budgetString s b = Inr r \<longleftrightarrow>
    bg_characters b + int (length s) \<le> MAX_TEXT \<and>
    r = (s, b\<lparr>bg_characters := bg_characters b + int (length s)\<rparr>)"
  by (auto simp: budgetString_def Let_def exFail_def)

lemmas ev_Inr = evBind_Inr evRet_Inr evFail_Inr evLift_Inr visit_Inr budgetString_Inr

text \<open>The budget after a copy: what was copied has been paid for.\<close>

definition paid :: "int \<Rightarrow> int \<Rightarrow> Budget \<Rightarrow> Budget \<Rightarrow> bool" where
  "paid n t b b' = (bg_visits b' = bg_visits b + n \<and> bg_characters b' = bg_characters b + t \<and>
     (bg_visits b \<le> MAX_VISITS \<longrightarrow> bg_visits b' \<le> MAX_VISITS) \<and>
     (bg_characters b \<le> MAX_TEXT \<longrightarrow> bg_characters b' \<le> MAX_TEXT))"

lemma paid_trans: "paid n t b b1 \<Longrightarrow> paid n' t' b1 b2 \<Longrightarrow> paid (n + n') (t + t') b b2"
  by (auto simp: paid_def)

lemma paid_refl: "paid 0 0 b b"
  by (simp add: paid_def)

lemma primitive_plain:
  "primitive v = Inr w \<Longrightarrow>
    w = v \<and> plain v \<and> nestedWithin d v \<and> (is_text v \<or> valueCount v = 1 \<and> textCount v = 0)"
  by (cases v) (auto simp: exFail_def is_text_def split: if_splits)

text \<open>A copy is the value itself, which is plain data.\<close>

definition copied :: "jsval \<Rightarrow> nat \<Rightarrow> bool" where
  "copied v d = (\<forall>b w b'. copyData v d b = Inr (w, b') \<longrightarrow>
     w = v \<and> plain v \<and> d \<le> MAX_DEPTH \<and> nestedWithin (MAX_DEPTH - d) v \<and> paid (valueCount v) (textCount v) b b')"

lemma copiedI:
  assumes "\<And>b w b'. copyData v d b = Inr (w, b') \<Longrightarrow>
     w = v \<and> plain v \<and> d \<le> MAX_DEPTH \<and> nestedWithin (MAX_DEPTH - d) v \<and> paid (valueCount v) (textCount v) b b'"
  shows "copied v d"
  using assms by (simp add: copied_def)

lemma copyAll_copied:
  assumes "\<And>x. x \<in> set xs \<Longrightarrow> copied x d" "copyAll xs d b = Inr (ys, b')"
  shows "ys = xs \<and> (\<forall>x \<in> set xs. plain x \<and> d \<le> MAX_DEPTH \<and> nestedWithin (MAX_DEPTH - d) x) \<and>
    paid (sum_list (map valueCount xs)) (sum_list (map textCount xs)) b b'"
  using assms
proof (induction xs arbitrary: b ys)
  case (Cons x xs)
  from Cons.prems(2) obtain y b1 zs where y: "copyData x d b = Inr (y, b1)"
    and zs: "copyAll xs d b1 = Inr (zs, b')" "ys = y # zs"
    by (auto simp: ev_Inr)
  have x: "y = x \<and> plain x \<and> d \<le> MAX_DEPTH \<and> nestedWithin (MAX_DEPTH - d) x \<and> paid (valueCount x) (textCount x) b b1"
    using Cons.prems(1) [of x] y by (simp add: copied_def)
  have "zs = xs \<and> (\<forall>x \<in> set xs. plain x \<and> d \<le> MAX_DEPTH \<and> nestedWithin (MAX_DEPTH - d) x) \<and>
    paid (sum_list (map valueCount xs)) (sum_list (map textCount xs)) b1 b'"
    using Cons.prems(1) zs(1) by (intro Cons.IH) simp_all
  with x zs(2) show ?case using paid_trans [of "valueCount x" "textCount x" b b1] by simp
qed (simp add: evRet_Inr paid_refl)

lemma copyEntries_copied:
  assumes "\<And>k v. (k, PData v) \<in> set kvs \<Longrightarrow> copied v d" "copyEntries kvs d b = Inr (ys, b')"
  shows "ys = kvs \<and> (\<forall>kv \<in> set kvs. fst kv \<notin> set forbiddenNames \<and> plainProp (snd kv) \<and> d \<le> MAX_DEPTH \<and>
      propWithin (MAX_DEPTH - d) (snd kv)) \<and>
    paid (sum_list (map (\<lambda>kv. propCount (snd kv)) kvs))
      (sum_list (map (\<lambda>kv. int (length (fst kv)) + propText (snd kv)) kvs)) b b'"
  using assms
proof (induction kvs arbitrary: b ys)
  case (Cons kv kvs)
  obtain k p where kv: "kv = (k, p)" by force
  from Cons.prems(2) obtain v where p: "p = PData v" by (cases p) (auto simp: kv ev_Inr)
  from Cons.prems(2) obtain y b0 b1 zs where k: "budgetString k b = Inr (k, b0)" "checkKey k = Inr k"
    and y: "copyData v d b0 = Inr (y, b1)" and zs: "copyEntries kvs d b1 = Inr (zs, b')" "ys = (k, PData y) # zs"
    by (auto simp: kv p ev_Inr checkKey_def exFail_def split: if_splits)
  from k have b0: "paid 0 (int (length k)) b b0" "k \<notin> set forbiddenNames"
    by (auto simp: paid_def budgetString_Inr checkKey_def exFail_def split: if_splits)
  have v: "y = v \<and> plain v \<and> d \<le> MAX_DEPTH \<and> nestedWithin (MAX_DEPTH - d) v \<and> paid (valueCount v) (textCount v) b0 b1"
    using Cons.prems(1) [of k v] y by (simp add: copied_def kv p)
  have "zs = kvs \<and> (\<forall>kv \<in> set kvs. fst kv \<notin> set forbiddenNames \<and> plainProp (snd kv) \<and> d \<le> MAX_DEPTH \<and>
      propWithin (MAX_DEPTH - d) (snd kv)) \<and>
    paid (sum_list (map (\<lambda>kv. propCount (snd kv)) kvs))
      (sum_list (map (\<lambda>kv. int (length (fst kv)) + propText (snd kv)) kvs)) b1 b'"
    using Cons.prems(1) zs(1) by (intro Cons.IH) auto
  moreover have "paid (valueCount v) (int (length k) + textCount v) b b1"
    using paid_trans [OF b0(1)] v by force
  ultimately show ?case using v zs(2) b0(2) paid_trans [of _ _ b b1] by (simp add: kv p)
qed (simp add: evRet_Inr paid_refl)

lemma copyData_copied: "copied v d" "p = PData u \<Longrightarrow> copied u d"
proof (induction v and p arbitrary: d and u d rule: jsval.induct jsprop.induct)
  case (VStr s d)
  show ?case by (rule copiedI) (auto simp: ev_Inr paid_def)
next
  case (VArr xs d)
  show ?case
  proof (rule copiedI)
    fix b w b'
    assume "copyData (VArr xs) d b = Inr (w, b')"
    then obtain b1 ys where b1: "visit d b = Inr ((), b1)" and ys: "copyAll xs (Suc d) b1 = Inr (ys, b')" "w = VArr ys"
      by (auto simp: ev_Inr split: if_splits)
    from b1 have v: "paid 1 0 b b1" "d \<le> MAX_DEPTH" by (auto simp: visit_Inr paid_def)
    have c: "ys = xs \<and> (\<forall>x \<in> set xs. plain x \<and> Suc d \<le> MAX_DEPTH \<and> nestedWithin (MAX_DEPTH - Suc d) x) \<and>
      paid (sum_list (map valueCount xs)) (sum_list (map textCount xs)) b1 b'"
      by (rule copyAll_copied [OF VArr.IH ys(1)])
    have "paid (valueCount (VArr xs)) (textCount (VArr xs)) b b'"
      using paid_trans [OF v(1) conjunct2 [OF conjunct2 [OF c]]] by simp
    with c v(2) ys(2) show "w = VArr xs \<and> plain (VArr xs) \<and> d \<le> MAX_DEPTH \<and>
        nestedWithin (MAX_DEPTH - d) (VArr xs) \<and> paid (valueCount (VArr xs)) (textCount (VArr xs)) b b'"
      by auto
  qed
next
  case (VObj json kvs d)
  show ?case
  proof (rule copiedI)
    fix b w b'
    assume "copyData (VObj json kvs) d b = Inr (w, b')"
    then obtain b1 ys where b1: "visit d b = Inr ((), b1)" "json"
      and ys: "copyEntries kvs (Suc d) b1 = Inr (ys, b')" "w = VObj True ys"
      by (auto simp: ev_Inr split: if_splits)
    from b1 have v: "paid 1 0 b b1" "d \<le> MAX_DEPTH" by (auto simp: visit_Inr paid_def)
    have IH: "copied x (Suc d)" if "(k, PData x) \<in> set kvs" for k x
      using VObj.IH [OF that snds.intros, of x] by simp
    have c: "ys = kvs \<and> (\<forall>kv \<in> set kvs. fst kv \<notin> set forbiddenNames \<and> plainProp (snd kv) \<and> Suc d \<le> MAX_DEPTH \<and>
        propWithin (MAX_DEPTH - Suc d) (snd kv)) \<and>
      paid (sum_list (map (\<lambda>kv. propCount (snd kv)) kvs))
        (sum_list (map (\<lambda>kv. int (length (fst kv)) + propText (snd kv)) kvs)) b1 b'"
      by (rule copyEntries_copied [OF IH ys(1)])
    have "paid (valueCount (VObj json kvs)) (textCount (VObj json kvs)) b b'"
      using paid_trans [OF v(1) conjunct2 [OF conjunct2 [OF c]]] by simp
    with c v(2) ys(2) b1(2) show "w = VObj json kvs \<and> plain (VObj json kvs) \<and> d \<le> MAX_DEPTH \<and>
        nestedWithin (MAX_DEPTH - d) (VObj json kvs) \<and>
        paid (valueCount (VObj json kvs)) (textCount (VObj json kvs)) b b'"
      by auto
  qed
next
  case (PData v u d)
  then show ?case by simp
next
  case (PGetter u d)
  then show ?case by simp
qed (rule copiedI, force simp: ev_Inr paid_def exFail_def split: if_splits)+

text \<open>Every operation of the evaluator only ever spends, and stays within the limits.\<close>

named_theorems spends

definition within_limits :: "Budget \<Rightarrow> bool" where
  "within_limits b = (0 \<le> bg_visits b \<and> bg_visits b \<le> MAX_VISITS \<and> 0 \<le> bg_characters b \<and> bg_characters b \<le> MAX_TEXT)"

definition spending :: "'a ev \<Rightarrow> bool" where
  "spending m = (\<forall>b x b'. m b = Inr (x, b') \<longrightarrow> within_limits b \<longrightarrow> within_limits b')"

lemma spendingD: "spending m \<Longrightarrow> m b = Inr (x, b') \<Longrightarrow> within_limits b \<Longrightarrow> within_limits b'"
  unfolding spending_def by blast

lemma spending_evBind [spends]: "spending m \<Longrightarrow> (\<And>x. spending (f x)) \<Longrightarrow> spending (evBind m f)"
  unfolding spending_def evBind_Inr by blast

lemma spending_basic [spends]:
  "spending (evRet x)" "spending (evFail e)" "spending (evLift q)" "spending (visit d)" "spending (budgetString s)"
  by (auto simp: spending_def ev_Inr within_limits_def)

declare copyData.simps [simp del] flattenWalk.simps [simp del]

lemma spending_copy [spends]:
  "spending (copyData v d)" "spending (copyAll xs d)" "spending (copyEntries kvs d)"
proof (induction v d and xs d and kvs d rule: copyData_copyAll_copyEntries.induct)
  case (1 v d)
  then show ?case by (subst copyData.simps) (auto intro!: spends split: jsval.split)
next
  case (5 k p kvs d)
  then show ?case by (cases p) (auto intro!: spends)
qed (auto intro!: spends)

lemma spending_flatten [spends]:
  "spending (flattenWalk path v i d)" "spending (flattenAll path xs i d)" "spending (flattenOwn path kvs i d)"
proof (induction path v i d and path xs i d and path kvs i d rule: flattenWalk_flattenAll_flattenOwn.induct)
  case (1 path v i d)
  then show ?case by (subst flattenWalk.simps) (auto intro!: spends split: jsval.split)
next
  case (5 path k p kvs i d)
  then show ?case by (cases p) (auto intro!: spends)
qed (auto intro!: spends)

lemma spending_evaluate [spends]:
  "spending (evaluate c n d)" "spending (evaluateAll c ns d)" "spending (evaluateEntries c kvs d)"
proof (induction c n d and c ns d and c kvs d rule: evaluate_evaluateAll_evaluateEntries.induct)
  case (1 c n d)
  then show ?case
    by (subst evaluate.simps) (auto intro!: spends split: jsval.split Node.split)
qed (auto intro!: spends)

text \<open>C22: Whatever the context holds (functions, accessors, huge or deep values), a value that an expression returns is plain
  data: finite numbers, texts, arrays and objects without accessors, functions, big integers or the three forbidden keys.
  It consists of at most 10,000 values, nested at most 64 deep, with at most 1,048,576 characters of text and keys.\<close>

theorem expression_result_plain:
  assumes "evaluateWorkflowExpression script context = Inr v"
  shows "plain v \<and> nestedWithin 64 v \<and> valueCount v \<le> 10000 \<and> textCount v \<le> 1048576"
proof -
  from assms have "evaluateParsed script context = Inr v"
    by (simp add: evaluateWorkflowExpression_def split: sum.splits)
  then obtain tree r where tree: "parseExpression script = Inr tree"
    and r: "evBind (evaluate context tree 0) (\<lambda>v. copyData v 0) newBudget = Inr r" "fst r = v"
    by (auto simp: evaluateParsed_def map_sum_def split: sum.splits)
  then obtain w b1 where w: "evaluate context tree 0 newBudget = Inr (w, b1)" "copyData w 0 b1 = Inr (v, snd r)"
    by (auto simp: evBind_Inr)
  have new: "within_limits newBudget" by (simp add: within_limits_def newBudget_def MAX_VISITS_def MAX_TEXT_def)
  have b1: "within_limits b1" by (rule spendingD [OF spending_evaluate(1) w(1) new])
  have "within_limits (snd r)" by (rule spendingD [OF spending_copy(1) w(2) b1])
  moreover have "v = w \<and> plain w \<and> nestedWithin MAX_DEPTH w \<and> paid (valueCount w) (textCount w) b1 (snd r)"
    using copyData_copied(1) [of w 0] w(2) by (simp add: copied_def)
  ultimately show ?thesis using b1
    by (auto simp: paid_def within_limits_def MAX_VISITS_def MAX_TEXT_def MAX_DEPTH_def)
qed

theorem expression_result_plain_witness:
  "plain (VStr ''ab'') \<and> nestedWithin 64 (VStr ''ab'') \<and> valueCount (VStr ''ab'') \<le> 10000 \<and>
    textCount (VStr ''ab'') \<le> 1048576"
proof (rule expression_result_plain)
  show "evaluateWorkflowExpression (''a + '' @ [dquote, CHR ''b'', dquote]) (VObj True [(''a'', PData (VStr ''a''))]) =
      Inr (VStr ''ab'')" by code_simp
qed

lemma ternary_decimal_rejected:
  "evaluateWorkflowExpression ''a ? .5 : 1'' (VObj True [(''a'', PData (VBool True))]) = Inr (VNum (JFin (1 / 2)))"
  "\<exists>e. evaluateWorkflowExpression ''a?.5:1'' (VObj True [(''a'', PData (VBool True))]) = Inl e"
proof -
  show "evaluateWorkflowExpression ''a ? .5 : 1'' (VObj True [(''a'', PData (VBool True))]) = Inr (VNum (JFin (1 / 2)))"
    by code_simp
  have "parseExpression ''a?.5:1'' = exFail ''expected property name''" by code_simp
  then show "\<exists>e. evaluateWorkflowExpression ''a?.5:1'' (VObj True [(''a'', PData (VBool True))]) = Inl e"
    by (simp add: evaluateWorkflowExpression_def evaluateParsed_def exFail_def)
qed

end
