(* ===== verification/Realtime_Gate.thy ===== *)
theory Realtime_Gate
  imports Json
begin

text \<open>
  The plan gate of hosted voice sessions (\<^verbatim>\<open>src/daemon/realtime-gate.ts\<close>): a cache of the catalog's verdicts with
  asymmetric decay, and the requests that fill it.  A request is started by a reader, lands when the catalog
  replies, and leaves the table of requests in flight one turn later; these are separate steps.  One step reads the
  clock once.
\<close>


section \<open>The cache and its requests\<close>

record ResolvedRealtime =
  rr_modelsUrl :: "string option"
  rr_model :: string
  rr_apiKey :: "string option"

record GateEntry =
  ge_verdict :: bool
  ge_at :: int
  ge_advisory :: bool

record GateFetch =
  gf_id :: nat
  gf_key :: string
  gf_model :: string
  gf_result :: "bool option"

record RealtimeGate =
  rg_cache :: "(string, GateEntry) jsmap"
  rg_inFlight :: "(string, nat) jsmap"
  rg_fetches :: "GateFetch list"
  rg_next :: nat

definition newGate :: RealtimeGate where
  "newGate = \<lparr> rg_cache = [], rg_inFlight = [], rg_fetches = [], rg_next = 0 \<rparr>"

definition CACHE_TTL_MS :: int where "CACHE_TTL_MS = 10 * 60000"
definition ADVISORY_TTL_MS :: int where "ADVISORY_TTL_MS = 30000"

definition gated :: "ResolvedRealtime \<Rightarrow> bool" where
  "gated r = (case rr_modelsUrl r of None \<Rightarrow> False | Some url \<Rightarrow> url \<noteq> [])"

definition cacheKey :: "ResolvedRealtime \<Rightarrow> string" where
  "cacheKey r = (case rr_modelsUrl r of None \<Rightarrow> ''undefined'' | Some url \<Rightarrow> url) @ ''|'' @ rr_model r @ ''|'' @
     (case rr_apiKey r of None \<Rightarrow> [] | Some k \<Rightarrow> k)"

definition isFresh :: "int \<Rightarrow> GateEntry \<Rightarrow> bool" where
  "isFresh now entry = (now - ge_at entry < (if ge_advisory entry then ADVISORY_TTL_MS else CACHE_TTL_MS))"

definition excluded :: "GateEntry option \<Rightarrow> bool" where
  "excluded hit = (case hit of None \<Rightarrow> False | Some entry \<Rightarrow> \<not> ge_advisory entry \<and> \<not> ge_verdict entry)"

definition fetchVerdict :: "ResolvedRealtime \<Rightarrow> RealtimeGate \<Rightarrow> nat \<times> RealtimeGate" where
  "fetchVerdict r g =
     (let k = cacheKey r in
      case js_get (rg_inFlight g) k of
        Some n \<Rightarrow> (n, g)
      | None \<Rightarrow> (rg_next g,
          g\<lparr>rg_inFlight := js_set k (rg_next g) (rg_inFlight g), rg_next := Suc (rg_next g),
            rg_fetches := rg_fetches g @
              [\<lparr> gf_id = rg_next g, gf_key = k, gf_model = rr_model r, gf_result = None \<rparr>]\<rparr>))"


section \<open>The readers\<close>

datatype GateAnswer = Verdict bool | Await nat

definition hostedRealtimeIncluded :: "int \<Rightarrow> ResolvedRealtime \<Rightarrow> RealtimeGate \<Rightarrow> GateAnswer \<times> RealtimeGate" where
  "hostedRealtimeIncluded now r g =
     (if \<not> gated r then (Verdict True, g)
      else let hit = js_get (rg_cache g) (cacheKey r); f = fetchVerdict r g in
        case hit of
          Some entry \<Rightarrow>
            if isFresh now entry then (Verdict (ge_verdict entry), g)
            else if excluded hit then (Verdict False, snd f)
            else (Await (fst f), snd f)
        | None \<Rightarrow> (Await (fst f), snd f))"

definition cachedRealtimeVerdict :: "int \<Rightarrow> ResolvedRealtime \<Rightarrow> RealtimeGate \<Rightarrow> bool option \<times> RealtimeGate" where
  "cachedRealtimeVerdict now r g =
     (if \<not> gated r then (Some True, g)
      else let hit = js_get (rg_cache g) (cacheKey r); g' = snd (fetchVerdict r g) in
        case hit of
          Some entry \<Rightarrow>
            if isFresh now entry then (Some (ge_verdict entry), g)
            else if excluded hit then (Some False, g')
            else (None, g')
        | None \<Rightarrow> (None, g'))"

definition warmRealtimeGate :: "int \<Rightarrow> ResolvedRealtime \<Rightarrow> RealtimeGate \<Rightarrow> RealtimeGate" where
  "warmRealtimeGate now r g =
     (if \<not> gated r then g
      else case js_get (rg_cache g) (cacheKey r) of
        Some entry \<Rightarrow> if isFresh now entry \<and> \<not> ge_advisory entry then g else snd (fetchVerdict r g)
      | None \<Rightarrow> snd (fetchVerdict r g))"

text \<open>\<open>None\<close>: the configuration could not be resolved, by a reason or by a throw.\<close>

definition warmRealtimeGateFor :: "int \<Rightarrow> ResolvedRealtime option \<Rightarrow> RealtimeGate \<Rightarrow> RealtimeGate" where
  "warmRealtimeGateFor now resolved g = (case resolved of None \<Rightarrow> g | Some r \<Rightarrow> warmRealtimeGate now r g)"

definition clearRealtimeGateCache :: "RealtimeGate \<Rightarrow> RealtimeGate" where
  "clearRealtimeGateCache g = g\<lparr>rg_cache := [], rg_inFlight := []\<rparr>"


section \<open>The reply of the catalog\<close>

text \<open>A reply has a status and a body, \<open>None\<close> when it is not JSON; a request that throws or times out has none.\<close>

datatype CatalogReply = FetchFailed | Replied int "json option"

definition catalogIds :: "json \<Rightarrow> string list option" where
  "catalogIds payload =
     (if payload = JNull then None
      else case json_get payload ''data'' of
        Some (JArr ms) \<Rightarrow>
          if JNull \<in> set ms then None
          else Some (concat (map (\<lambda>m. case json_get m ''id'' of Some (JStr s) \<Rightarrow> [s] | _ \<Rightarrow> []) ms))
      | _ \<Rightarrow> Some [])"

text \<open>The verdict of a reply, \<open>None\<close> when it is not definitive.\<close>

definition catalogVerdict :: "string \<Rightarrow> CatalogReply \<Rightarrow> bool option" where
  "catalogVerdict model reply =
     (case reply of
        FetchFailed \<Rightarrow> None
      | Replied status body \<Rightarrow>
          if status = 401 \<or> status = 403 then Some False
          else if status < 200 \<or> 299 < status then None
          else (case body of
              None \<Rightarrow> None
            | Some payload \<Rightarrow> map_option (\<lambda>ids. model \<in> set ids) (catalogIds payload)))"

definition advisoryAllow :: "int \<Rightarrow> string \<Rightarrow> RealtimeGate \<Rightarrow> bool \<times> RealtimeGate" where
  "advisoryAllow now k g =
     (if excluded (js_get (rg_cache g) k) then (False, g)
      else (True, g\<lparr>rg_cache := js_set k \<lparr> ge_verdict = True, ge_at = now, ge_advisory = True \<rparr> (rg_cache g)\<rparr>))"

text \<open>The body of a request after the catalog replied, and its \<^verbatim>\<open>finally\<close>.\<close>

definition settleVerdict :: "int \<Rightarrow> GateFetch \<Rightarrow> CatalogReply \<Rightarrow> RealtimeGate \<Rightarrow> bool \<times> RealtimeGate" where
  "settleVerdict now f reply g =
     (case catalogVerdict (gf_model f) reply of
        Some v \<Rightarrow> (v, g\<lparr>rg_cache := js_set (gf_key f) \<lparr> ge_verdict = v, ge_at = now, ge_advisory = False \<rparr> (rg_cache g)\<rparr>)
      | None \<Rightarrow> advisoryAllow now (gf_key f) g)"

definition pendingFetch :: "nat \<Rightarrow> RealtimeGate \<Rightarrow> GateFetch option" where
  "pendingFetch n g = List.find (\<lambda>f. gf_id f = n \<and> gf_result f = None) (rg_fetches g)"

definition landFetch :: "int \<Rightarrow> nat \<Rightarrow> CatalogReply \<Rightarrow> RealtimeGate \<Rightarrow> RealtimeGate" where
  "landFetch now n reply g =
     (case pendingFetch n g of
        None \<Rightarrow> g
      | Some f \<Rightarrow> (case settleVerdict now f reply g of (v, g') \<Rightarrow>
          g'\<lparr>rg_fetches := map (\<lambda>h. if gf_id h = n then h\<lparr>gf_result := Some v\<rparr> else h) (rg_fetches g')\<rparr>))"

definition finishFetch :: "nat \<Rightarrow> RealtimeGate \<Rightarrow> RealtimeGate" where
  "finishFetch n g =
     (case List.find (\<lambda>f. gf_id f = n \<and> gf_result f \<noteq> None) (rg_fetches g) of
        None \<Rightarrow> g
      | Some f \<Rightarrow> g\<lparr>rg_inFlight := js_delete (gf_key f) (rg_inFlight g),
                    rg_fetches := filter (\<lambda>h. gf_id h \<noteq> n) (rg_fetches g)\<rparr>)"


section \<open>Runs\<close>

datatype GateStep =
    GsStart int ResolvedRealtime
  | GsRead int ResolvedRealtime
  | GsWarm int "ResolvedRealtime option"
  | GsLand int nat CatalogReply
  | GsFinish nat
  | GsClear

fun gateStep :: "GateStep \<Rightarrow> RealtimeGate \<Rightarrow> RealtimeGate" where
  "gateStep (GsStart now r) g = snd (hostedRealtimeIncluded now r g)"
| "gateStep (GsRead now r) g = snd (cachedRealtimeVerdict now r g)"
| "gateStep (GsWarm now r) g = warmRealtimeGateFor now r g"
| "gateStep (GsLand now n reply) g = landFetch now n reply g"
| "gateStep (GsFinish n) g = finishFetch n g"
| "gateStep GsClear g = clearRealtimeGateCache g"

definition gateRun :: "GateStep list \<Rightarrow> RealtimeGate \<Rightarrow> RealtimeGate" where
  "gateRun steps g = fold gateStep steps g"

text \<open>
  The specification of a key: excluded from a definitive exclusion until a definitive inclusion or a clearing of
  the cache.  Time, readers and failed requests do not occur in it.
\<close>

definition exclusionAfter :: "string \<Rightarrow> RealtimeGate \<Rightarrow> GateStep \<Rightarrow> bool \<Rightarrow> bool" where
  "exclusionAfter k g step was =
     (case step of
        GsClear \<Rightarrow> False
      | GsLand now n reply \<Rightarrow> (case pendingFetch n g of
          None \<Rightarrow> was
        | Some f \<Rightarrow> if gf_key f \<noteq> k then was
            else (case catalogVerdict (gf_model f) reply of None \<Rightarrow> was | Some v \<Rightarrow> \<not> v))
      | _ \<Rightarrow> was)"

fun exclusionOf :: "string \<Rightarrow> RealtimeGate \<Rightarrow> GateStep list \<Rightarrow> bool \<Rightarrow> bool" where
  "exclusionOf k g [] was = was"
| "exclusionOf k g (s # ss) was = exclusionOf k (gateStep s g) ss (exclusionAfter k g s was)"


section \<open>The asymmetry of the decay\<close>

text \<open>An advisory verdict is never an exclusion.\<close>

definition advisory_open :: "RealtimeGate \<Rightarrow> bool" where
  "advisory_open g = (\<forall>k entry. js_get (rg_cache g) k = Some entry \<longrightarrow> ge_advisory entry \<longrightarrow> ge_verdict entry)"

lemma fetchVerdict_cache [simp]: "rg_cache (snd (fetchVerdict r g)) = rg_cache g"
  by (simp add: fetchVerdict_def Let_def split: option.split)

lemma readers_cache [simp]:
  "rg_cache (snd (hostedRealtimeIncluded now r g)) = rg_cache g"
  "rg_cache (snd (cachedRealtimeVerdict now r g)) = rg_cache g"
  "rg_cache (warmRealtimeGateFor now ro g) = rg_cache g"
  by (simp_all add: hostedRealtimeIncluded_def cachedRealtimeVerdict_def warmRealtimeGateFor_def
      warmRealtimeGate_def Let_def split: option.split)

lemma finishFetch_cache [simp]: "rg_cache (finishFetch n g) = rg_cache g"
  by (simp add: finishFetch_def split: option.split)

lemma landFetch_cache:
  "rg_cache (landFetch now n reply g) =
    (case pendingFetch n g of None \<Rightarrow> rg_cache g | Some f \<Rightarrow> rg_cache (snd (settleVerdict now f reply g)))"
  by (simp add: landFetch_def split: option.split prod.split)

lemma settleVerdict_advisory_open: "advisory_open g \<Longrightarrow> advisory_open (snd (settleVerdict now f reply g))"
  by (auto simp: settleVerdict_def advisoryAllow_def advisory_open_def jsmap_simps split: option.splits if_splits)

lemma advisory_open_cache: "rg_cache g' = rg_cache g \<Longrightarrow> advisory_open g' = advisory_open g"
  by (simp add: advisory_open_def)

lemma gateStep_advisory_open: "advisory_open g \<Longrightarrow> advisory_open (gateStep s g)"
proof (cases s)
  case (GsLand now n reply)
  assume g: "advisory_open g"
  show ?thesis
  proof (cases "pendingFetch n g")
    case (Some f)
    then have "advisory_open (landFetch now n reply g) = advisory_open (snd (settleVerdict now f reply g))"
      by (intro advisory_open_cache) (simp add: landFetch_cache)
    then show ?thesis using settleVerdict_advisory_open [OF g] by (simp add: GsLand)
  qed (use g in \<open>simp add: GsLand landFetch_def\<close>)
qed (simp_all add: advisory_open_def clearRealtimeGateCache_def)

lemma settleVerdict_excluded:
  "excluded (js_get (rg_cache (snd (settleVerdict now f reply g))) k) =
    (if gf_key f \<noteq> k then excluded (js_get (rg_cache g) k)
     else (case catalogVerdict (gf_model f) reply of None \<Rightarrow> excluded (js_get (rg_cache g) k) | Some v \<Rightarrow> \<not> v))"
  by (auto simp: settleVerdict_def advisoryAllow_def excluded_def jsmap_simps split: option.splits)

lemma gateStep_excluded:
  "excluded (js_get (rg_cache (gateStep s g)) k) = exclusionAfter k g s (excluded (js_get (rg_cache g) k))"
  by (cases s) (simp_all add: exclusionAfter_def landFetch_cache settleVerdict_excluded clearRealtimeGateCache_def
      excluded_def [of None] split: option.split)

lemma gateRun_excluded:
  "excluded (js_get (rg_cache (gateRun steps g)) k) = exclusionOf k g steps (excluded (js_get (rg_cache g) k))"
  by (induction steps arbitrary: g) (simp_all add: gateRun_def gateStep_excluded)

lemma gateRun_advisory_open: "advisory_open g \<Longrightarrow> advisory_open (gateRun steps g)"
  by (induction steps arbitrary: g) (simp_all add: gateRun_def gateStep_advisory_open)

lemma readers_excluded:
  assumes "advisory_open g"
  shows "fst (cachedRealtimeVerdict now r g) = Some False \<longleftrightarrow> gated r \<and> excluded (js_get (rg_cache g) (cacheKey r))"
    and "fst (hostedRealtimeIncluded now r g) = Verdict False \<longleftrightarrow> gated r \<and> excluded (js_get (rg_cache g) (cacheKey r))"
  using assms
  by (auto simp: cachedRealtimeVerdict_def hostedRealtimeIncluded_def advisory_open_def excluded_def Let_def
      split: option.splits)

text \<open>C24: Along any run of readers, warmings, replies and clearings from the empty cache, and at any time, a reader is
  told at once that the plan excludes voice exactly when the last definitive reply for its key since the last clearing
  said so: expiry and failed requests neither lift an exclusion nor make one, and a session on the user's own key is
  never refused.\<close>

theorem exclusion_exact:
  "(fst (cachedRealtimeVerdict now r (gateRun steps newGate)) = Some False) =
     (gated r \<and> exclusionOf (cacheKey r) newGate steps False) \<and>
   (fst (hostedRealtimeIncluded now r (gateRun steps newGate)) = Verdict False) =
     (gated r \<and> exclusionOf (cacheKey r) newGate steps False)"
proof -
  have "advisory_open (gateRun steps newGate)"
    by (rule gateRun_advisory_open) (simp add: advisory_open_def newGate_def)
  moreover have "excluded (js_get (rg_cache (gateRun steps newGate)) (cacheKey r)) =
      exclusionOf (cacheKey r) newGate steps False"
    by (simp add: gateRun_excluded) (simp add: newGate_def excluded_def)
  ultimately show ?thesis by (simp add: readers_excluded)
qed

text \<open>
  After a clearing, a request of before it takes the entry of its successor out of the table when it ends, and the
  next warming starts a second request for a key that has one in flight.
\<close>

definition exampleRealtime :: ResolvedRealtime where
  "exampleRealtime = \<lparr> rr_modelsUrl = Some ''u'', rr_model = ''m'', rr_apiKey = Some ''k'' \<rparr>"

lemma clear_breaks_dedup:
  "map (\<lambda>f. (gf_id f, gf_key f)) (rg_fetches (gateRun [GsRead 0 exampleRealtime, GsClear, GsRead 1 exampleRealtime,
      GsLand 2 0 FetchFailed, GsFinish 0, GsWarm 3 (Some exampleRealtime)] newGate)) =
    [(1, ''u|m|k''), (2, ''u|m|k'')]"
  by code_simp

end
