(* ===== verification/Cron_Expression.thy ===== *)
theory Cron_Expression
  imports Json
begin

text \<open>
  Cron expressions (\<^verbatim>\<open>src/lib/cron-scheduler.ts\<close>): the \<^verbatim>\<open>@every\<close> syntax, the five fields, and the search for the next run
  in the configured time zone.  The database of time zones is a parameter, the function from a time to its wall
  clock.  Times are milliseconds since the epoch; the integers of an expression are unbounded.
\<close>


section \<open>Texts\<close>

fun js_split :: "char \<Rightarrow> string \<Rightarrow> string list" where
  "js_split c [] = [[]]"
| "js_split c (x # s) = (if x = c then [] # js_split c s
     else (case js_split c s of w # ws \<Rightarrow> (x # w) # ws | [] \<Rightarrow> [[x]]))"

text \<open>The split of a trimmed text at runs of white space.\<close>

function js_words :: "string \<Rightarrow> string list" where
  "js_words s =
     (case dropWhile (\<lambda>c. \<not> js_space c) s of
        [] \<Rightarrow> [s]
      | c # r \<Rightarrow> takeWhile (\<lambda>c. \<not> js_space c) s # js_words (dropWhile js_space r))"
  by pat_completeness auto
termination
proof (relation "measure length")
  fix s c r
  assume "dropWhile (\<lambda>c. \<not> js_space c) s = c # r"
  then have "length r < length s" using length_dropWhile_le [of "\<lambda>c. \<not> js_space c" s] by simp
  then show "(dropWhile js_space r, s) \<in> measure length"
    using length_dropWhile_le [of js_space r] by simp
qed simp

declare js_words.simps [simp del]

definition decimal :: "string \<Rightarrow> int" where
  "decimal ds = foldl (\<lambda>n c. 10 * n + (of_char c - 48)) 0 ds"

text \<open>\<^verbatim>\<open>parseInt(s, 10)\<close>, \<open>None\<close> for \<^verbatim>\<open>NaN\<close>.\<close>

definition js_parseInt :: "string \<Rightarrow> int option" where
  "js_parseInt s =
     (let t = dropWhile js_space s;
          signed = t \<noteq> [] \<and> (hd t = CHR ''-'' \<or> hd t = CHR ''+'');
          ds = takeWhile is_dig (if signed then tl t else t)
      in if ds = [] then None else Some (if signed \<and> hd t = CHR ''-'' then - decimal ds else decimal ds))"

definition to_lower :: "char \<Rightarrow> char" where
  "to_lower c = (let n = (of_char c :: nat) in if 65 \<le> n \<and> n \<le> 90 then char_of (n + 32) else c)"

definition quoted :: "string \<Rightarrow> string" where
  "quoted s = [dquote] @ s @ [dquote]"


section \<open>The interval syntax\<close>

definition MIN_INTERVAL_MS :: int where "MIN_INTERVAL_MS = 1000"
definition MAX_INTERVAL_MS :: int where "MAX_INTERVAL_MS = 24 * 60 * 60000"

text \<open>The groups of \<^verbatim>\<open>EVERY_RE\<close>: the digits and the unit.\<close>

definition every_groups :: "string \<Rightarrow> (string \<times> char) option" where
  "every_groups s =
     (let rest = drop 6 s;
          body = dropWhile js_space rest;
          ds = takeWhile is_dig body;
          suffix = dropWhile is_dig body
      in if map to_lower (take 6 s) = ''@every'' \<and> rest \<noteq> [] \<and> js_space (hd rest) \<and> ds \<noteq> []
            \<and> length suffix = 1 \<and> to_lower (hd suffix) \<in> {CHR ''s'', CHR ''m'', CHR ''h''}
         then Some (ds, to_lower (hd suffix)) else None)"

definition every_unit :: "char \<Rightarrow> int" where
  "every_unit u = (if u = CHR ''s'' then 1000 else if u = CHR ''m'' then 60000 else 60 * 60000)"

datatype EveryResult = NotEvery | EveryError string | EveryMs int

definition parseEveryExpression :: "string \<Rightarrow> EveryResult" where
  "parseEveryExpression expression =
     (case every_groups (js_trim expression) of
        None \<Rightarrow> NotEvery
      | Some (ds, u) \<Rightarrow>
          let n = decimal ds; ms = n * every_unit u in
          if n \<le> 0 then
            EveryError (''Invalid @every duration in '' @ quoted expression @ '': amount must be a positive integer'')
          else if ms < MIN_INTERVAL_MS then
            EveryError (''@every duration '' @ quoted expression @ '' is below the 1s minimum (got '' @ show_int ms @ ''ms)'')
          else if ms > MAX_INTERVAL_MS then
            EveryError (''@every duration '' @ quoted expression @ '' exceeds the 24h maximum (got '' @ show_int ms @ ''ms)'')
          else EveryMs ms)"


section \<open>The fields\<close>

function stepRange :: "int \<Rightarrow> int \<Rightarrow> int \<Rightarrow> int list" where
  "stepRange lo hi step = (if step \<le> 0 \<or> hi < lo then [] else lo # stepRange (lo + step) hi step)"
  by pat_completeness auto
termination by (relation "measure (\<lambda>(lo, hi, step). nat (hi + 1 - lo))") auto

declare stepRange.simps [simp del]

text \<open>A loop between bounds of which one may be \<^verbatim>\<open>NaN\<close>.\<close>

definition boundedRange :: "int option \<Rightarrow> int option \<Rightarrow> int \<Rightarrow> int list" where
  "boundedRange lo hi step = (case (lo, hi) of (Some a, Some b) \<Rightarrow> stepRange a b step | _ \<Rightarrow> [])"

definition parsePart :: "int \<Rightarrow> int \<Rightarrow> string \<Rightarrow> string + int list" where
  "parsePart lo hi part =
     (let trimmed = js_trim part in
      if trimmed = ''*'' then Inr (stepRange lo hi 1)
      else if CHR ''/'' \<in> set trimmed then
        (let ps = js_split (CHR ''/'') trimmed; rangeStr = hd ps in
         case js_parseInt (ps ! 1) of
           None \<Rightarrow> Inl (''Invalid step in cron field: '' @ quoted trimmed)
         | Some step \<Rightarrow>
             if step \<le> 0 then Inl (''Invalid step in cron field: '' @ quoted trimmed)
             else if rangeStr = ''*'' then Inr (stepRange lo hi step)
             else if CHR ''-'' \<in> set rangeStr then
               (let qs = js_split (CHR ''-'') rangeStr
                in Inr (boundedRange (js_parseInt (qs ! 0)) (js_parseInt (qs ! 1)) step))
             else Inr (boundedRange (js_parseInt rangeStr) (Some hi) step))
      else if CHR ''-'' \<in> set trimmed then
        (let qs = js_split (CHR ''-'') trimmed in
         case (js_parseInt (qs ! 0), js_parseInt (qs ! 1)) of
           (Some a, Some b) \<Rightarrow> Inr (stepRange a b 1)
         | _ \<Rightarrow> Inl (''Invalid range in cron field: '' @ quoted trimmed))
      else (case js_parseInt trimmed of
          None \<Rightarrow> Inl (''Invalid value in cron field: '' @ quoted trimmed)
        | Some v \<Rightarrow> Inr [v]))"

fun parseParts :: "int \<Rightarrow> int \<Rightarrow> string list \<Rightarrow> string + int list" where
  "parseParts lo hi [] = Inr []"
| "parseParts lo hi (p # ps) =
     (case parsePart lo hi p of Inl e \<Rightarrow> Inl e | Inr xs \<Rightarrow> map_sum id (append xs) (parseParts lo hi ps))"

definition parseField :: "int \<Rightarrow> int \<Rightarrow> string \<Rightarrow> string + int list" where
  "parseField lo hi field = map_sum id (\<lambda>xs. sort (remdups xs)) (parseParts lo hi (js_split (CHR '','') field))"

record CronFields =
  cf_minutes :: "int list"
  cf_hours :: "int list"
  cf_daysOfMonth :: "int list"
  cf_months :: "int list"
  cf_daysOfWeek :: "int list"

definition parseCron :: "string \<Rightarrow> string + CronFields" where
  "parseCron expression =
     (case js_words (js_trim expression) of
        [mi, ho, dm, mo, dw] \<Rightarrow>
          (case parseField 0 59 mi of Inl e \<Rightarrow> Inl e | Inr minutes \<Rightarrow>
           case parseField 0 23 ho of Inl e \<Rightarrow> Inl e | Inr hours \<Rightarrow>
           case parseField 1 31 dm of Inl e \<Rightarrow> Inl e | Inr doms \<Rightarrow>
           case parseField 1 12 mo of Inl e \<Rightarrow> Inl e | Inr months \<Rightarrow>
           case parseField 0 6 dw of Inl e \<Rightarrow> Inl e | Inr dows \<Rightarrow>
             Inr \<lparr> cf_minutes = minutes, cf_hours = hours, cf_daysOfMonth = doms, cf_months = months, cf_daysOfWeek = dows \<rparr>)
      | ps \<Rightarrow> Inl (''Invalid cron expression '' @ quoted expression @ '': expected 5 fields, got '' @ show_nat (length ps)))"


section \<open>The wall clock\<close>

record WallClock =
  wk_minute :: int
  wk_hour :: int
  wk_dom :: int
  wk_month :: int
  wk_dow :: int
  wk_year :: int

type_synonym clock = "int \<Rightarrow> WallClock"

definition dayMatches :: "CronFields \<Rightarrow> WallClock \<Rightarrow> bool" where
  "dayMatches f w = (wk_month w \<in> set (cf_months f) \<and> wk_dom w \<in> set (cf_daysOfMonth f) \<and> wk_dow w \<in> set (cf_daysOfWeek f))"

definition fieldsMatch :: "CronFields \<Rightarrow> WallClock \<Rightarrow> bool" where
  "fieldsMatch f w = (wk_minute w \<in> set (cf_minutes f) \<and> wk_hour w \<in> set (cf_hours f) \<and> dayMatches f w)"

definition cronMatches :: "clock \<Rightarrow> string \<Rightarrow> int \<Rightarrow> bool" where
  "cronMatches wall expression date = (case parseCron expression of Inl e \<Rightarrow> False | Inr f \<Rightarrow> fieldsMatch f (wall date))"

definition localDateKey :: "WallClock \<Rightarrow> int" where
  "localDateKey w = wk_year w * 10000 + wk_month w * 100 + wk_dom w"

definition minutesToMidnight :: "WallClock \<Rightarrow> int" where
  "minutesToMidnight w = 24 * 60 - (wk_hour w * 60 + wk_minute w)"

text \<open>The three bounded hops, and the walk back under its guard.\<close>

fun hopToNextDay :: "nat \<Rightarrow> clock \<Rightarrow> int \<Rightarrow> int \<Rightarrow> int" where
  "hopToNextDay 0 wall startKey candidate = candidate"
| "hopToNextDay (Suc n) wall startKey candidate =
     (if localDateKey (wall candidate) \<le> startKey
      then hopToNextDay n wall startKey (candidate + minutesToMidnight (wall candidate) * 60000)
      else candidate)"

fun walkBack :: "nat \<Rightarrow> clock \<Rightarrow> int \<Rightarrow> int \<Rightarrow> int" where
  "walkBack 0 wall startKey candidate = candidate"
| "walkBack (Suc n) wall startKey candidate =
     (if localDateKey (wall (candidate - 60000)) \<le> startKey then candidate
      else walkBack n wall startKey (candidate - 60000))"

definition startOfNextLocalDay :: "clock \<Rightarrow> int \<Rightarrow> int" where
  "startOfNextLocalDay wall ts =
     (let startKey = localDateKey (wall ts)
      in walkBack 180 wall startKey
           (hopToNextDay 3 wall startKey (ts + minutesToMidnight (wall ts) * 60000)))"

text \<open>Where the search goes from a time that does not match, and the search under its guard.\<close>

definition searchStep :: "clock \<Rightarrow> CronFields \<Rightarrow> int \<Rightarrow> int" where
  "searchStep wall f ts =
     (let w = wall ts in
      if \<not> dayMatches f w then startOfNextLocalDay wall ts
      else if wk_hour w \<notin> set (cf_hours f) then ts + (60 - wk_minute w) * 60000
      else (case List.find (\<lambda>m. m > wk_minute w) (cf_minutes f) of
          Some m \<Rightarrow> ts + (m - wk_minute w) * 60000
        | None \<Rightarrow> ts + (60 - wk_minute w) * 60000))"

function searchFrom :: "clock \<Rightarrow> CronFields \<Rightarrow> int \<Rightarrow> int \<Rightarrow> int \<Rightarrow> int option" where
  "searchFrom wall f limit guard ts =
     (if \<not> (ts < limit \<and> guard + 1 < 600000) then None
      else if fieldsMatch f (wall ts) then Some ts
      else searchFrom wall f limit (guard + 1) (searchStep wall f ts))"
  by pat_completeness auto
termination by (relation "measure (\<lambda>(_, _, _, guard, _). nat (600000 - guard))") auto

declare searchFrom.simps [simp del]

definition nextRunInTimezone :: "clock \<Rightarrow> string \<Rightarrow> int \<Rightarrow> int option" where
  "nextRunInTimezone wall expression date =
     (case parseCron expression of
        Inl e \<Rightarrow> None
      | Inr f \<Rightarrow> searchFrom wall f (date + 366 * 24 * 60 * 60000) 0 (date div 60000 * 60000 + 60000))"

end
