(* ===== verification/Js_Date.thy ===== *)
theory Js_Date
  imports Prelude
begin

text \<open>
  The calendar of the run-time, as the language defines it: days are counted from 1 January 1970, months from year
  0, so that month \<open>k\<close> is month \<open>k mod 12\<close> of year \<open>k div 12\<close> and an overflow of a setter is plain arithmetic.  A local
  time is the reading of a clock, in milliseconds since the epoch on a clock that shows UTC; how the readings of a
  zone's clock correspond to instants is in \<open>Js_Zone\<close>.
\<close>


section \<open>Days, months and years\<close>

definition leapYear :: "int \<Rightarrow> bool" where
  "leapYear y = (y mod 4 = 0 \<and> (y mod 100 \<noteq> 0 \<or> y mod 400 = 0))"

definition dayFromYear :: "int \<Rightarrow> int" where
  "dayFromYear y = 365 * (y - 1970) + (y - 1969) div 4 - (y - 1901) div 100 + (y - 1601) div 400"

definition monthStart :: "bool \<Rightarrow> int \<Rightarrow> int" where
  "monthStart leap m =
     (if m \<le> 0 then 0 else if m = 1 then 31
      else (if leap then 1 else 0) + (if m = 2 then 59 else if m = 3 then 90 else if m = 4 then 120 else if m = 5 then 151
        else if m = 6 then 181 else if m = 7 then 212 else if m = 8 then 243 else if m = 9 then 273
        else if m = 10 then 304 else 334))"

text \<open>The day that month \<open>k\<close> begins with.\<close>

definition firstOf :: "int \<Rightarrow> int" where
  "firstOf k = dayFromYear (k div 12) + monthStart (leapYear (k div 12)) (k mod 12)"

lemma div_mod_succ:
  assumes n: "0 < (n :: int)"
  shows "(a + 1) div n = a div n + (if a mod n = n - 1 then 1 else 0)"
    and "(a + 1) mod n = (if a mod n = n - 1 then 0 else a mod n + 1)"
proof -
  have r: "0 \<le> a mod n" "a mod n < n" using n by simp_all
  have a: "a = n * (a div n) + a mod n" by simp
  have "(a + 1) div n = a div n + (if a mod n = n - 1 then 1 else 0) \<and>
    (a + 1) mod n = (if a mod n = n - 1 then 0 else a mod n + 1)"
  proof (cases "a mod n = n - 1")
    case True
    then have e: "a + 1 = n * (a div n + 1) + 0" using a by (simp add: distrib_left)
    show ?thesis using int_div_pos_eq [OF e] int_mod_pos_eq [OF e] n True by simp
  next
    case False
    have e: "a + 1 = n * (a div n) + (a mod n + 1)" using a by simp
    show ?thesis using int_div_pos_eq [OF e] int_mod_pos_eq [OF e] r False by simp
  qed
  then show "(a + 1) div n = a div n + (if a mod n = n - 1 then 1 else 0)"
    and "(a + 1) mod n = (if a mod n = n - 1 then 0 else a mod n + 1)" by simp_all
qed

lemma div_succ: "0 < n \<Longrightarrow> (a + 1) div n = a div n + (if (a + 1) mod n = 0 then 1 else (0 :: int))"
proof -
  assume n: "0 < n"
  then have "0 \<le> a mod n" by simp
  then show ?thesis by (auto simp: div_mod_succ [OF n])
qed

lemma mod_shift: "(y - n * c) mod n = y mod (n :: int)"
  using mod_mult_self2 [of y n "- c"] by simp

lemma carry_sum: "n + 365 + (p + x) - (q + z) + (r + w) = n + p - q + r + 365 + x - z + (w :: int)"
  by simp

lemma leap_sum: "(b \<longrightarrow> a) \<Longrightarrow> (c \<longrightarrow> b) \<Longrightarrow>
    x + 365 + (if a then 1 else 0) - (if b then 1 else 0) + (if c then 1 else 0) =
    x + (if a \<and> (\<not> b \<or> c) then 366 else (365 :: int))"
  by (cases a; cases b; cases c) simp_all

lemma dayFromYear_succ: "dayFromYear (y + 1) = dayFromYear y + (if leapYear y then 366 else 365)"
proof -
  have 4: "(y - 1968) div 4 = (y - 1969) div 4 + (if y mod 4 = 0 then 1 else 0)"
    using div_succ [of 4 "y - 1969"] mod_shift [of y 4 492] by simp
  have 100: "(y - 1900) div 100 = (y - 1901) div 100 + (if y mod 100 = 0 then 1 else 0)"
    using div_succ [of 100 "y - 1901"] mod_shift [of y 100 19] by simp
  have 400: "(y - 1600) div 400 = (y - 1601) div 400 + (if y mod 400 = 0 then 1 else 0)"
    using div_succ [of 400 "y - 1601"] mod_shift [of y 400 4] by simp
  have i: "y mod 100 = 0 \<longrightarrow> y mod 4 = 0" "y mod 400 = 0 \<longrightarrow> y mod 100 = 0"
    using dvd_trans [of 4 100 y] dvd_trans [of 100 400 y] by (simp_all add: mod_eq_0_iff_dvd)
  have e: "dayFromYear (y + 1) =
      365 * (y - 1970) + 365 + (y - 1968) div 4 - (y - 1900) div 100 + (y - 1600) div 400"
    by (simp add: dayFromYear_def)
  have "dayFromYear (y + 1) = dayFromYear y + 365 + (if y mod 4 = 0 then 1 else 0) -
      (if y mod 100 = 0 then 1 else 0) + (if y mod 400 = 0 then 1 else 0)"
    unfolding e dayFromYear_def [of y] 4 100 400 by (simp only: carry_sum)
  then show ?thesis unfolding leapYear_def by (simp only: leap_sum [OF i])
qed

lemma monthStart_length:
  assumes "0 \<le> m" "m < 11"
  shows "28 \<le> monthStart leap (m + 1) - monthStart leap m \<and> monthStart leap (m + 1) - monthStart leap m \<le> 31"
proof -
  have "m = 0 \<or> m = 1 \<or> m = 2 \<or> m = 3 \<or> m = 4 \<or> m = 5 \<or> m = 6 \<or> m = 7 \<or> m = 8 \<or> m = 9 \<or> m = 10"
    using assms by presburger
  then show ?thesis by (elim disjE) (simp_all add: monthStart_def)
qed

lemma month_length: "28 \<le> firstOf (k + 1) - firstOf k \<and> firstOf (k + 1) - firstOf k \<le> 31"
proof (cases "k mod 12 = 11")
  case True
  then have m: "(k + 1) mod 12 = 0" by (simp add: div_mod_succ)
  then have d: "(k + 1) div 12 = k div 12 + 1" using div_succ [of 12 k] by simp
  have "firstOf (k + 1) - firstOf k = 31"
    by (simp only: firstOf_def m d True dayFromYear_succ) (simp add: monthStart_def)
  then show ?thesis by simp
next
  case False
  then have "(k + 1) mod 12 = k mod 12 + 1" by (simp add: div_mod_succ)
  moreover have "0 \<le> k mod 12" "k mod 12 < 11" using False pos_mod_bound [of 12 k] by simp_all
  ultimately have m: "(k + 1) mod 12 = k mod 12 + 1" "0 \<le> k mod 12" "k mod 12 < 11" by blast+
  then have "(k + 1) mod 12 \<noteq> 0" by linarith
  then have d: "(k + 1) div 12 = k div 12" using div_succ [of 12 k] by simp
  have "firstOf (k + 1) - firstOf k = monthStart (leapYear (k div 12)) (k mod 12 + 1) - monthStart (leapYear (k div 12)) (k mod 12)"
    by (simp only: firstOf_def m(1) d)
  then show ?thesis using monthStart_length [OF m(2,3)] by simp
qed

lemma firstOf_add: "28 * int n \<le> firstOf (k + int n) - firstOf k \<and> firstOf (k + int n) - firstOf k \<le> 31 * int n"
proof (induction n)
  case (Suc n)
  have e: "firstOf (k + int (Suc n)) = firstOf (k + int n + 1)" by (simp add: ac_simps)
  have "28 * int (Suc n) \<le> firstOf (k + int n + 1) - firstOf k" "firstOf (k + int n + 1) - firstOf k \<le> 31 * int (Suc n)"
    using conjunct1 [OF Suc] conjunct2 [OF Suc] conjunct1 [OF month_length [of "k + int n"]]
      conjunct2 [OF month_length [of "k + int n"]] by simp_all
  then show ?case by (simp only: e)
qed simp

lemma firstOf_less: "j < k \<Longrightarrow> firstOf j + 28 \<le> firstOf k"
proof -
  assume "j < k"
  then have n: "j + int (nat (k - j)) = k" "1 \<le> int (nat (k - j))" by simp_all
  have "28 * int (nat (k - j)) \<le> firstOf k - firstOf j" using firstOf_add [of "nat (k - j)" j] by (simp only: n(1))
  with n(2) show ?thesis by linarith
qed

lemma firstOf_mono: "j \<le> k \<Longrightarrow> firstOf j \<le> firstOf k"
  using firstOf_less [of j k] by (cases "j = k") simp_all

text \<open>The month of a day: a lower bound from the shortest and longest months, and a search upwards.\<close>

function monthFrom :: "int \<Rightarrow> int \<Rightarrow> int" where
  "monthFrom k day = (if firstOf (k + 1) \<le> day then monthFrom (k + 1) day else k)"
  by pat_completeness auto
termination
proof (relation "measure (\<lambda>(k, day). nat (day - firstOf k))")
  fix k day
  assume "firstOf (k + 1) \<le> day"
  then show "((k + 1, day), (k, day)) \<in> measure (\<lambda>(k, day). nat (day - firstOf k))"
    using month_length [of k] by simp
qed simp

declare monthFrom.simps [simp del]

definition monthOf :: "int \<Rightarrow> int" where
  "monthOf day = monthFrom (23640 + (if 0 \<le> day then day div 31 else day div 28)) day"

lemma monthFrom_bounds: "firstOf k \<le> day \<Longrightarrow> firstOf (monthFrom k day) \<le> day \<and> day < firstOf (monthFrom k day + 1)"
  by (induction k day rule: monthFrom.induct) (subst (1 2) monthFrom.simps, simp)

lemma firstOf_epoch: "firstOf 23640 = 0"
  by code_simp

lemma monthOf_bounds: "firstOf (monthOf day) \<le> day \<and> day < firstOf (monthOf day + 1)"
proof -
  have "firstOf (23640 + (if 0 \<le> day then day div 31 else day div 28)) \<le> day"
  proof (cases "0 \<le> day")
    case True
    then have "0 \<le> day div 31" by (simp add: pos_imp_zdiv_nonneg_iff)
    then have "firstOf (23640 + day div 31) \<le> 31 * (day div 31)"
      using firstOf_add [of "nat (day div 31)" 23640] by (simp add: firstOf_epoch)
    also have "\<dots> \<le> day" by simp
    finally show ?thesis using True by simp
  next
    case False
    then have "day div 28 < 0" by simp
    then have "firstOf (23640 + day div 28) \<le> 28 * (day div 28)"
      using firstOf_add [of "nat (- (day div 28))" "23640 + day div 28"] by (simp add: firstOf_epoch)
    also have "\<dots> \<le> day" by simp
    finally show ?thesis using False by simp
  qed
  then show ?thesis unfolding monthOf_def by (rule monthFrom_bounds)
qed

lemma monthOf_unique: "firstOf k \<le> day \<Longrightarrow> day < firstOf (k + 1) \<Longrightarrow> monthOf day = k"
  using monthOf_bounds [of day] firstOf_mono [of "k + 1" "monthOf day"] firstOf_mono [of "monthOf day + 1" k]
  by linarith

lemma monthOf_mono: "d \<le> e \<Longrightarrow> monthOf d \<le> monthOf e"
  using monthOf_bounds [of d] monthOf_bounds [of e] firstOf_mono [of "monthOf e + 1" "monthOf d"] by linarith


section \<open>Local times\<close>

definition MS_DAY :: int where "MS_DAY = 86400000"

definition dayOf :: "int \<Rightarrow> int" where "dayOf t = t div MS_DAY"
definition monthIndex :: "int \<Rightarrow> int" where "monthIndex t = monthOf (dayOf t)"

definition getFullYear :: "int \<Rightarrow> int" where "getFullYear t = monthIndex t div 12"
definition getMonth :: "int \<Rightarrow> int" where "getMonth t = monthIndex t mod 12"
definition getDate :: "int \<Rightarrow> int" where "getDate t = dayOf t - firstOf (monthIndex t) + 1"
definition getDay :: "int \<Rightarrow> int" where "getDay t = (dayOf t + 4) mod 7"
definition getHours :: "int \<Rightarrow> int" where "getHours t = t div 3600000 mod 24"
definition getMinutes :: "int \<Rightarrow> int" where "getMinutes t = t div 60000 mod 60"

definition setFullYear :: "int \<Rightarrow> int \<Rightarrow> int" where
  "setFullYear t y = (firstOf (12 * y + getMonth t) + getDate t - 1) * MS_DAY + t mod MS_DAY"

definition setMonth :: "int \<Rightarrow> int \<Rightarrow> int" where
  "setMonth t m = (firstOf (12 * getFullYear t + m) + getDate t - 1) * MS_DAY + t mod MS_DAY"

definition setDate :: "int \<Rightarrow> int \<Rightarrow> int" where
  "setDate t d = (firstOf (monthIndex t) + d - 1) * MS_DAY + t mod MS_DAY"

text \<open>The setters of hours and minutes, with the smaller units set to zero.\<close>

definition setHours :: "int \<Rightarrow> int \<Rightarrow> int" where
  "setHours t h = dayOf t * MS_DAY + h * 3600000"

definition setMinutes :: "int \<Rightarrow> int \<Rightarrow> int" where
  "setMinutes t m = t div 3600000 * 3600000 + m * 60000"

lemma getDate_bounds: "1 \<le> getDate t \<and> getDate t \<le> 31"
  using monthOf_bounds [of "dayOf t"] month_length [of "monthOf (dayOf t)"] by (simp add: getDate_def monthIndex_def)

lemma getMonth_bounds: "0 \<le> getMonth t \<and> getMonth t < 12"
  by (simp add: getMonth_def)

lemma getHours_bounds: "0 \<le> getHours t \<and> getHours t < 24"
  by (simp add: getHours_def)

lemma getMinutes_bounds: "0 \<le> getMinutes t \<and> getMinutes t < 60"
  by (simp add: getMinutes_def)

lemma year_month: "12 * getFullYear t + getMonth t = monthIndex t"
  by (simp add: getFullYear_def getMonth_def)

end
