(* ===== verification/Js_Zone.thy ===== *)
theory Js_Zone
  imports Js_Date
begin

text \<open>
  The local time of the machine, as the language defines it on a time zone of the database.  A date holds an instant,
  in milliseconds since the epoch in UTC; a getter reads the local time of the instant, and a setter computes a local
  time by the plain arithmetic of \<open>Js_Date\<close> and goes back to the instant of it.  The zone is a table of offsets: the
  one it begins with, and the instants at which the offset changes, in their order.
\<close>


section \<open>Instants and local times\<close>

record Zone =
  zn_first :: int
  zn_changes :: "(int \<times> int) list"

fun offsetFrom :: "int \<Rightarrow> (int \<times> int) list \<Rightarrow> int \<Rightarrow> int" where
  "offsetFrom d [] u = d"
| "offsetFrom d ((c, d') # cs) u = (if u < c then d else offsetFrom d' cs u)"

definition offsetAt :: "Zone \<Rightarrow> int \<Rightarrow> int" where
  "offsetAt z u = offsetFrom (zn_first z) (zn_changes z) u"

definition zoneOffsets :: "Zone \<Rightarrow> int list" where
  "zoneOffsets z = zn_first z # map snd (zn_changes z)"

definition localTime :: "Zone \<Rightarrow> int \<Rightarrow> int" where
  "localTime z u = u + offsetAt z u"

text \<open>The offset before the change that skips a local time.\<close>

fun gapBefore :: "int \<Rightarrow> (int \<times> int) list \<Rightarrow> int \<Rightarrow> int" where
  "gapBefore d [] t = d"
| "gapBefore d ((c, d') # cs) t = (if c + d \<le> t \<and> t < c + d' then d else gapBefore d' cs t)"

text \<open>
  The instant of a local time: of a time that comes twice the earlier instant, of a time that is skipped the one that
  the offset before the change gives.  (The last line is for tables that describe no zone, whose changes are closer
  together than their offsets differ.)
\<close>

definition utcOf :: "Zone \<Rightarrow> int \<Rightarrow> int" where
  "utcOf z t =
     (case filter (\<lambda>d. offsetAt z (t - d) = d) (zoneOffsets z) of
        d # ds \<Rightarrow> t - fold max ds d
      | [] \<Rightarrow>
          (let u = t - gapBefore (zn_first z) (zn_changes z) t
           in if t \<le> localTime z u then u else t - fold min (zoneOffsets z) (zn_first z)))"


section \<open>The setters of a date\<close>

definition date_setFullYear :: "Zone \<Rightarrow> int \<Rightarrow> int \<Rightarrow> int" where
  "date_setFullYear z u y = utcOf z (setFullYear (localTime z u) y)"

definition date_setMonth :: "Zone \<Rightarrow> int \<Rightarrow> int \<Rightarrow> int" where
  "date_setMonth z u m = utcOf z (setMonth (localTime z u) m)"

definition date_setDate :: "Zone \<Rightarrow> int \<Rightarrow> int \<Rightarrow> int" where
  "date_setDate z u d = utcOf z (setDate (localTime z u) d)"

text \<open>\<^verbatim>\<open>setHours(h, 0, 0, 0)\<close>, \<^verbatim>\<open>setMinutes(m, 0, 0)\<close>, \<^verbatim>\<open>setMinutes(m)\<close> and \<^verbatim>\<open>setSeconds(0, 0)\<close>.\<close>

definition date_setHours :: "Zone \<Rightarrow> int \<Rightarrow> int \<Rightarrow> int" where
  "date_setHours z u h = utcOf z (setHours (localTime z u) h)"

definition date_setMinutes :: "Zone \<Rightarrow> int \<Rightarrow> int \<Rightarrow> int" where
  "date_setMinutes z u m = utcOf z (setMinutes (localTime z u) m)"

definition date_keepSeconds :: "Zone \<Rightarrow> int \<Rightarrow> int \<Rightarrow> int" where
  "date_keepSeconds z u m = utcOf z (setMinutes (localTime z u) m + localTime z u mod 60000)"

definition date_clearSeconds :: "Zone \<Rightarrow> int \<Rightarrow> int" where
  "date_clearSeconds z u = utcOf z (localTime z u div 60000 * 60000)"


section \<open>Laws\<close>

lemma offsetFrom_mem: "offsetFrom d cs u \<in> insert d (set (map snd cs))"
  by (induction d cs u rule: offsetFrom.induct) auto

lemma offsetAt_mem: "offsetAt z u \<in> set (zoneOffsets z)"
  using offsetFrom_mem [of "zn_first z" "zn_changes z" u] by (simp add: offsetAt_def zoneOffsets_def)

lemma fold_max: "fold max ds d \<in> insert d (set ds) \<and> (\<forall>e \<in> insert d (set ds). e \<le> fold max ds (d :: int))"
proof -
  have m: "fold max ds d = Max (set (d # ds))" by (rule Max.set_eq_fold [symmetric])
  show ?thesis unfolding m using Max_in [of "set (d # ds)"] by simp
qed

lemma fold_min_le:
  assumes "e \<in> insert d (set ds)"
  shows "fold min ds d \<le> (e :: int)"
proof -
  have m: "fold min ds d = Min (set (d # ds))" by (rule Min.set_eq_fold [symmetric])
  show ?thesis unfolding m using assms by (intro Min_le) auto
qed

text \<open>A local time that is not skipped is shown by its instant, which is the first one that shows it.\<close>

lemma utcOf_shown:
  assumes "localTime z u = t"
  shows "localTime z (utcOf z t) = t" "utcOf z t \<le> u"
proof -
  let ?ds = "filter (\<lambda>d. offsetAt z (t - d) = d) (zoneOffsets z)"
  have "offsetAt z u \<in> set ?ds" using assms offsetAt_mem [of z u] by (auto simp: localTime_def)
  then obtain d ds where l: "?ds = d # ds" and u: "offsetAt z u \<in> insert d (set ds)"
    by (cases ?ds) auto
  have e: "utcOf z t = t - fold max ds d" by (simp add: utcOf_def l)
  have "fold max ds d \<in> set ?ds" using fold_max [of ds d] by (simp only: l) simp
  then show "localTime z (utcOf z t) = t" by (simp add: e localTime_def)
  have "offsetAt z u \<le> fold max ds d" using fold_max [of ds d] u by blast
  then show "utcOf z t \<le> u" using assms by (simp add: e localTime_def)
qed

text \<open>A skipped local time is shown as a later one.\<close>

lemma utcOf_later: "t \<le> localTime z (utcOf z t)"
proof (cases "\<exists>u. localTime z u = t")
  case True
  then show ?thesis using utcOf_shown(1) by fastforce
next
  case False
  have "offsetAt z (t - d) \<noteq> d" for d
  proof
    assume "offsetAt z (t - d) = d"
    then have "localTime z (t - d) = t" by (simp add: localTime_def)
    with False show False by blast
  qed
  then have l: "filter (\<lambda>d. offsetAt z (t - d) = d) (zoneOffsets z) = []" by (simp add: filter_empty_conv)
  let ?m = "fold min (zoneOffsets z) (zn_first z)"
  have "?m \<le> offsetAt z (t - ?m)" using offsetAt_mem [of z "t - ?m"] by (intro fold_min_le) simp
  then have "t \<le> localTime z (t - ?m)" by (simp add: localTime_def)
  then show ?thesis by (simp add: utcOf_def l Let_def)
qed

text \<open>Where the offset is the same all around, an instant and its local time differ by it.\<close>

definition calm :: "Zone \<Rightarrow> int \<Rightarrow> int \<Rightarrow> int \<Rightarrow> bool" where
  "calm z d a b = (\<forall>v. a \<le> v \<longrightarrow> v \<le> b \<longrightarrow> offsetAt z v = d)"

lemma calm_sub: "calm z d a b \<Longrightarrow> a \<le> a' \<Longrightarrow> b' \<le> b \<Longrightarrow> calm z d a' b'"
  by (auto simp: calm_def)

lemma localTime_calm: "calm z d a b \<Longrightarrow> a \<le> u \<Longrightarrow> u \<le> b \<Longrightarrow> localTime z u = u + d"
  by (simp add: calm_def localTime_def)

lemma utcOf_calm:
  assumes "\<forall>e \<in> set (zoneOffsets z). \<bar>e - d\<bar> \<le> S" "calm z d (t - d - S) (t - d + S)" "0 \<le> S"
  shows "utcOf z t = t - d"
proof -
  let ?ds = "filter (\<lambda>e. offsetAt z (t - e) = e) (zoneOffsets z)"
  have at: "offsetAt z (t - e) = d" if "\<bar>e - d\<bar> \<le> S" for e
  proof -
    have "e - d \<le> S" "d - e \<le> S" using that by (simp_all add: abs_le_iff)
    then have "t - d - S \<le> t - e" "t - e \<le> t - d + S" by linarith+
    then show ?thesis using assms(2) by (simp add: calm_def)
  qed
  have all: "e = d" if "e \<in> set ?ds" for e using that at assms(1) by auto
  have "localTime z (t - d) = t" using at [of d] assms(3) by (simp add: localTime_def)
  then have "d \<in> set ?ds" using offsetAt_mem [of z "t - d"] by (auto simp: localTime_def)
  then obtain x xs where l: "?ds = x # xs" by (cases ?ds) auto
  have "fold max xs x \<in> set ?ds" using fold_max [of xs x] unfolding l by simp
  then have "fold max xs x = d" by (rule all)
  then show ?thesis by (simp add: utcOf_def l)
qed

text \<open>New York in 2026: half past two on 8 March is skipped, and half past one on 1 November comes twice.\<close>

definition new_york :: Zone where
  "new_york = \<lparr> zn_first = -5 * 3600000,
     zn_changes = [(1772953200000, -4 * 3600000), (1793512800000, -5 * 3600000)] \<rparr>"

lemma new_york_times:
  "localTime new_york (utcOf new_york (1772953200000 - 5 * 3600000 + 1800000)) = 1772953200000 - 4 * 3600000 + 1800000"
  "localTime new_york (1793512800000 - 1800000) = localTime new_york (1793512800000 + 1800000)"
  "utcOf new_york (localTime new_york (1793512800000 + 1800000)) = 1793512800000 - 1800000"
  by code_simp+

end
