(* ===== verification/Cron_Scheduler.thy ===== *)
theory Cron_Scheduler
  imports Cron_Expression Js_Zone
begin

text \<open>
  The scheduler of \<^verbatim>\<open>src/lib/cron-scheduler.ts\<close>: the search for the next run on the clock of the machine, and the jobs
  with their timers.  The zone of the machine is a table of offsets with its changes (\<open>Js_Zone\<close>), the configured
  time zone a wall clock.  A timer fires when its event is delivered; a callback that throws is caught and changes no
  job.
\<close>


section \<open>The clock of the machine\<close>

text \<open>The fields of a local time; of an instant in UTC they are the fields of the wall clock of UTC.\<close>

definition clockOf :: clock where
  "clockOf t = \<lparr> wk_minute = getMinutes t, wk_hour = getHours t, wk_dom = getDate t, wk_month = getMonth t + 1,
     wk_dow = getDay t, wk_year = getFullYear t \<rparr>"

definition localClock :: "Zone \<Rightarrow> clock" where
  "localClock z t = clockOf (localTime z t)"

text \<open>The wall clock in use: that of the configured zone, or of the machine.\<close>

definition wallClock :: "clock option \<Rightarrow> Zone \<Rightarrow> clock" where
  "wallClock configured machine = (case configured of None \<Rightarrow> localClock machine | Some wall \<Rightarrow> wall)"


section \<open>The search on the machine's clock\<close>

definition nextMidnight :: "Zone \<Rightarrow> int \<Rightarrow> int" where
  "nextMidnight z t = date_setHours z (date_setDate z t (getDate (localTime z t) + 1)) 0"

definition nextMonth :: "Zone \<Rightarrow> int \<Rightarrow> int" where
  "nextMonth z t = date_setHours z (date_setDate z (date_setMonth z t (getMonth (localTime z t) + 1)) 1) 0"

definition localStep :: "Zone \<Rightarrow> CronFields \<Rightarrow> int \<Rightarrow> int" where
  "localStep z f t =
     (let w = localClock z t in
      if wk_month w \<notin> set (cf_months f) then nextMonth z t
      else if wk_dom w \<notin> set (cf_daysOfMonth f) \<or> wk_dow w \<notin> set (cf_daysOfWeek f) then nextMidnight z t
      else if wk_hour w \<notin> set (cf_hours f) then
        (case List.find (\<lambda>h. h > wk_hour w) (cf_hours f) of Some h \<Rightarrow> date_setHours z t h | None \<Rightarrow> nextMidnight z t)
      else (case List.find (\<lambda>m. m > wk_minute w) (cf_minutes f) of
          Some m \<Rightarrow> date_setMinutes z t m
        | None \<Rightarrow> (case List.find (\<lambda>h. h > wk_hour w) (cf_hours f) of
            Some h \<Rightarrow> date_setHours z t h | None \<Rightarrow> nextMidnight z t)))"

lemma below_next: "0 < n \<Longrightarrow> t < (t div n + 1) * (n :: int)"
proof -
  assume "0 < n"
  then have "t div n * n + t mod n < t div n * n + n" by (intro add_strict_left_mono pos_mod_bound)
  then show ?thesis by (simp only: div_mult_mod_eq distrib_right mult_1)
qed

lemma setHours_less: "getHours t < h \<Longrightarrow> t < setHours t h"
proof -
  assume "getHours t < h"
  then have "t div 3600000 mod 24 + 1 \<le> h" by (simp add: getHours_def)
  moreover have "t div 3600000 = 24 * (dayOf t) + t div 3600000 mod 24"
    using div_mult_mod_eq [of "t div 3600000" 24] by (simp add: dayOf_def MS_DAY_def zdiv_zmult2_eq [symmetric])
  moreover have "t < (t div 3600000 + 1) * 3600000"
    by (rule below_next) simp
  ultimately show ?thesis by (simp add: setHours_def MS_DAY_def)
qed

lemma setMinutes_less: "getMinutes t < m \<Longrightarrow> t < setMinutes t m"
proof -
  assume "getMinutes t < m"
  then have "t div 60000 mod 60 + 1 \<le> m" by (simp add: getMinutes_def)
  moreover have "t div 60000 = 60 * (t div 3600000) + t div 60000 mod 60"
    using div_mult_mod_eq [of "t div 60000" 60] by (simp add: zdiv_zmult2_eq [symmetric])
  moreover have "t < (t div 60000 + 1) * 60000"
    by (rule below_next) simp
  ultimately show ?thesis by (simp add: setMinutes_def)
qed

lemma day_end: "t < (dayOf t + 1) * MS_DAY"
  unfolding dayOf_def by (rule below_next) (simp add: MS_DAY_def)

lemma dayOf_date: "dayOf (d * MS_DAY + t mod MS_DAY) = d"
  by (simp add: dayOf_def MS_DAY_def)

text \<open>Each step shows a later local time, so the search ends on any zone.\<close>

lemma setDate_next: "setDate t (getDate t + 1) = t + MS_DAY"
proof -
  have "setDate t (getDate t + 1) = (dayOf t + 1) * MS_DAY + t mod MS_DAY" by (simp add: setDate_def getDate_def)
  also have "\<dots> = dayOf t * MS_DAY + t mod MS_DAY + MS_DAY" by (simp add: distrib_right)
  finally show ?thesis by (simp add: dayOf_def)
qed

lemma setHours_zero: "setHours t 0 = dayOf t * MS_DAY"
  by (simp add: setHours_def)

lemma day_le: "t \<le> u \<Longrightarrow> dayOf t \<le> dayOf u"
  unfolding dayOf_def by (rule zdiv_mono1) (simp_all add: MS_DAY_def)

lemma month_le: "t \<le> u \<Longrightarrow> monthIndex t \<le> monthIndex u"
  unfolding monthIndex_def by (intro monthOf_mono day_le)

lemma dayOf_plus: "dayOf (t + MS_DAY) = dayOf t + 1"
  by (simp add: dayOf_def MS_DAY_def)

lemma dayOf_firstOf: "dayOf (firstOf k * MS_DAY + t mod MS_DAY) = firstOf k"
  by (rule dayOf_date)

lemma nextMidnight_less: "localTime z t < localTime z (nextMidnight z t)"
proof -
  let ?l = "localTime z t" and ?n = "localTime z (date_setDate z t (getDate (localTime z t) + 1))"
  have "?l + MS_DAY \<le> ?n" using utcOf_later [of "?l + MS_DAY" z] by (simp add: date_setDate_def setDate_next)
  from day_le [OF this] have "dayOf ?l + 1 \<le> dayOf ?n" by (simp add: dayOf_plus)
  then have "(dayOf ?l + 1) * MS_DAY \<le> setHours ?n 0" by (simp add: setHours_zero MS_DAY_def)
  with day_end [of ?l] utcOf_later [of "setHours ?n 0" z] show ?thesis
    by (simp add: nextMidnight_def date_setHours_def)
qed

lemma setMonth_next: "monthIndex t + 1 \<le> monthIndex (setMonth t (getMonth t + 1))"
proof -
  let ?x = "firstOf (monthIndex t + 1) + getDate t - 1"
  have "setMonth t (getMonth t + 1) = ?x * MS_DAY + t mod MS_DAY"
    using year_month [of t] by (simp add: setMonth_def add.assoc [symmetric])
  then have e: "monthIndex (setMonth t (getMonth t + 1)) = monthOf ?x" by (simp add: monthIndex_def dayOf_date)
  have "firstOf (monthIndex t + 1) \<le> ?x" using getDate_bounds [of t] by simp
  then show ?thesis unfolding e
    using monthOf_bounds [of ?x] firstOf_mono [of "monthOf ?x + 1" "monthIndex t + 1"] by linarith
qed

lemma nextMonth_less: "localTime z t < localTime z (nextMonth z t)"
proof -
  let ?l = "localTime z t"
  let ?m = "localTime z (date_setMonth z t (getMonth (localTime z t) + 1))"
  let ?n = "localTime z (date_setDate z (date_setMonth z t (getMonth (localTime z t) + 1)) 1)"
  have "monthIndex ?l + 1 \<le> monthIndex ?m"
    using setMonth_next [of ?l] month_le [OF utcOf_later [of "setMonth ?l (getMonth ?l + 1)" z]]
    by (simp add: date_setMonth_def)
  then have "firstOf (monthIndex ?l + 1) \<le> firstOf (monthIndex ?m)" by (rule firstOf_mono)
  also have "\<dots> = dayOf (setDate ?m 1)" by (simp add: setDate_def dayOf_date)
  also have "\<dots> \<le> dayOf ?n" using day_le [OF utcOf_later [of "setDate ?m 1" z]] by (simp add: date_setDate_def)
  finally have "firstOf (monthIndex ?l + 1) \<le> dayOf ?n" .
  moreover have "dayOf ?l + 1 \<le> firstOf (monthIndex ?l + 1)" using monthOf_bounds [of "dayOf ?l"] by (simp add: monthIndex_def)
  ultimately have "(dayOf ?l + 1) * MS_DAY \<le> setHours ?n 0" by (simp add: setHours_zero MS_DAY_def)
  with day_end [of ?l] utcOf_later [of "setHours ?n 0" z] show ?thesis
    by (simp add: nextMonth_def date_setHours_def)
qed

lemma localStep_less: "localTime z t < localTime z (localStep z f t)"
proof -
  let ?l = "localTime z t"
  have h: "?l < localTime z (date_setHours z t h)" if "List.find (\<lambda>h. h > getHours ?l) hs = Some h" for h hs
  proof -
    have "?l < setHours ?l h" using that by (intro setHours_less) (auto simp: find_Some_iff)
    with utcOf_later [of "setHours ?l h" z] show ?thesis by (simp add: date_setHours_def)
  qed
  have n: "?l < localTime z (date_setMinutes z t k)" if "List.find (\<lambda>m. m > getMinutes ?l) ms = Some k" for k ms
  proof -
    have "?l < setMinutes ?l k" using that by (intro setMinutes_less) (auto simp: find_Some_iff)
    with utcOf_later [of "setMinutes ?l k" z] show ?thesis by (simp add: date_setMinutes_def)
  qed
  show ?thesis using h n nextMonth_less nextMidnight_less
    by (simp add: localStep_def localClock_def clockOf_def Let_def split: option.split)
qed

definition latestOffset :: "Zone \<Rightarrow> int" where
  "latestOffset z = fold max (map snd (zn_changes z)) (zn_first z)"

lemma offsetAt_le: "offsetAt z u \<le> latestOffset z"
  using fold_max [of "map snd (zn_changes z)" "zn_first z"] offsetAt_mem [of z u]
  by (auto simp: latestOffset_def zoneOffsets_def)

function searchLocal :: "Zone \<Rightarrow> CronFields \<Rightarrow> int \<Rightarrow> int \<Rightarrow> int option" where
  "searchLocal z f limit t =
     (if \<not> t < limit then None
      else if fieldsMatch f (localClock z t) then Some t
      else searchLocal z f limit (localStep z f t))"
  by pat_completeness auto
termination
proof (relation "measure (\<lambda>(z, f, limit, t). nat (limit + latestOffset z - localTime z t))")
  fix z f and limit t :: int
  assume "\<not> \<not> t < limit"
  then have "localTime z t < limit + latestOffset z" using offsetAt_le [of z t] by (simp add: localTime_def)
  then show "((z, f, limit, localStep z f t), (z, f, limit, t)) \<in>
      measure (\<lambda>(z, f, limit, t). nat (limit + latestOffset z - localTime z t))"
    using localStep_less [of z t f] by simp
qed simp

declare searchLocal.simps [simp del]

text \<open>The minute after the one of the date, and a year from the date.\<close>

definition startLocal :: "Zone \<Rightarrow> int \<Rightarrow> int" where
  "startLocal z date =
     (let start = date_clearSeconds z date in date_keepSeconds z start (getMinutes (localTime z start) + 1))"

definition limitLocal :: "Zone \<Rightarrow> int \<Rightarrow> int" where
  "limitLocal z date = date_setFullYear z date (getFullYear (localTime z date) + 1)"

definition nextRunLocal :: "Zone \<Rightarrow> string \<Rightarrow> int \<Rightarrow> int option" where
  "nextRunLocal z expression date =
     (case parseCron expression of
        Inl e \<Rightarrow> None
      | Inr f \<Rightarrow> searchLocal z f (limitLocal z date) (startLocal z date))"

definition nextRun :: "clock option \<Rightarrow> Zone \<Rightarrow> string \<Rightarrow> int \<Rightarrow> int option" where
  "nextRun configured machine expression date =
     (case configured of
        Some wall \<Rightarrow> nextRunInTimezone wall expression date
      | None \<Rightarrow> nextRunLocal machine expression date)"


section \<open>Jobs\<close>

text \<open>A timer that fires at an interval, or one that looks every half minute and remembers the minute it last saw.\<close>

datatype CronTimer = EveryTimer int | MinuteTimer int

record CronJob =
  cj_expression :: string
  cj_lastRun :: "int option"
  cj_nextRun :: int
  cj_timer :: CronTimer

type_synonym CronJobs = "(string, CronJob) jsmap"

definition cancelCron :: "string \<Rightarrow> CronJobs \<Rightarrow> CronJobs" where
  "cancelCron n jobs = js_delete n jobs"

definition cancelAllCron :: "CronJobs \<Rightarrow> CronJobs" where
  "cancelAllCron jobs = []"

definition getCronJobs :: "CronJobs \<Rightarrow> (string \<times> string \<times> int option \<times> int) list" where
  "getCronJobs jobs = map (\<lambda>(n, j). (n, cj_expression j, cj_lastRun j, cj_nextRun j)) jobs"

text \<open>\<open>Some\<close> message: the call throws.  A job of the same name is gone in either case.\<close>

definition scheduleCron :: "clock option \<Rightarrow> Zone \<Rightarrow> int \<Rightarrow> string \<Rightarrow> string \<Rightarrow> CronJobs \<Rightarrow> string option \<times> CronJobs" where
  "scheduleCron configured machine now n expression jobs0 =
     (let jobs = (if js_has jobs0 n then cancelCron n jobs0 else jobs0);
          add = (\<lambda>start timer. js_set n \<lparr> cj_expression = expression, cj_lastRun = None, cj_nextRun = start, cj_timer = timer \<rparr> jobs)
      in case parseEveryExpression expression of
           EveryError e \<Rightarrow> (Some e, jobs)
         | EveryMs ms \<Rightarrow> (None, add (now + ms) (EveryTimer ms))
         | NotEvery \<Rightarrow> (case parseCron expression of
             Inl e \<Rightarrow> (Some e, jobs)
           | Inr f \<Rightarrow> (case nextRun configured machine expression now of
               None \<Rightarrow> (Some (''Cron expression '' @ quoted expression @ '' has no upcoming execution times''), jobs)
             | Some t \<Rightarrow> (None, add t (MinuteTimer (-1))))))"

text \<open>The event of a job's timer: whether the callback runs, and the jobs after it.\<close>

definition fireCron :: "clock option \<Rightarrow> Zone \<Rightarrow> int \<Rightarrow> string \<Rightarrow> CronJobs \<Rightarrow> bool \<times> CronJobs" where
  "fireCron configured machine now n jobs =
     (case js_get jobs n of
        None \<Rightarrow> (False, jobs)
      | Some job \<Rightarrow> (case cj_timer job of
          EveryTimer ms \<Rightarrow> (True, js_set n (job\<lparr>cj_lastRun := Some now, cj_nextRun := now + ms\<rparr>) jobs)
        | MinuteTimer seen \<Rightarrow>
            let minute = now div 60000; job1 = job\<lparr>cj_timer := MinuteTimer minute\<rparr> in
            if minute = seen then (False, jobs)
            else if cronMatches (wallClock configured machine) (cj_expression job) now then
              (True, js_set n (job1\<lparr>cj_lastRun := Some now,
                 cj_nextRun := (case nextRun configured machine (cj_expression job) now of Some t \<Rightarrow> t | None \<Rightarrow> now)\<rparr>) jobs)
            else (False, js_set n job1 jobs)))"

end
