(* ===== verification/Cron_Laws.thy ===== *)
theory Cron_Laws
  imports Cron_Scheduler
begin

text \<open>
  The searches for the next run against a scan of every minute.  The locale \<open>regular_clock\<close> states what the search
  in a time zone relies on; the wall clock of UTC is an instance.  The search on the clock of the machine is compared
  with the same search on plain local times, which is exact, wherever no change of the clock is near.
\<close>


section \<open>The reference: look at every minute\<close>

function scanMinutes :: "clock \<Rightarrow> CronFields \<Rightarrow> int \<Rightarrow> int \<Rightarrow> int option" where
  "scanMinutes wall f limit t =
     (if \<not> t < limit then None
      else if fieldsMatch f (wall t) then Some t
      else scanMinutes wall f limit (t + 60000))"
  by pat_completeness auto
termination by (relation "measure (\<lambda>(wall, f, limit, t). nat (limit - t))") auto

declare scanMinutes.simps [simp del]

abbreviation aligned :: "int \<Rightarrow> bool" where "aligned t \<equiv> t mod 60000 = 0"

lemma find_least:
  assumes "sorted xs" "List.find (\<lambda>x. x > a) xs = Some (m :: int)"
  shows "m \<in> set xs" "a < m" "\<And>x. x \<in> set xs \<Longrightarrow> a < x \<Longrightarrow> m \<le> x"
proof -
  show "m \<in> set xs" "a < m" using assms(2) by (auto simp: find_Some_iff)
  fix x
  assume "x \<in> set xs" "a < x"
  with assms show "m \<le> x" by (auto simp: find_Some_iff in_set_conv_nth sorted_iff_nth_mono) (metis leI not_le_imp_less)
qed

text \<open>The step from \<open>t\<close> to \<open>u\<close> passes over no match.\<close>

definition skips :: "clock \<Rightarrow> CronFields \<Rightarrow> int \<Rightarrow> int \<Rightarrow> bool" where
  "skips wall f t u = (aligned u \<and> t < u \<and> (\<forall>v. aligned v \<longrightarrow> t \<le> v \<longrightarrow> v < u \<longrightarrow> \<not> fieldsMatch f (wall v)))"

lemma aligned_minutes: "aligned t \<Longrightarrow> aligned (t + k * 60000)" "aligned t \<Longrightarrow> aligned (t - k * 60000)"
  using mod_mult_self1 [of t k 60000] mod_mult_self1 [of t "- k" 60000] by simp_all

lemma aligned_gap:
  assumes "aligned t" "aligned u" "t < u"
  shows "t + 60000 \<le> u"
proof -
  obtain a b where "t = 60000 * a" "u = 60000 * b" using assms(1,2) by (auto simp: mod_eq_0_iff_dvd dvd_def)
  with assms(3) show ?thesis by simp
qed

lemma scan_skip:
  assumes "aligned t" "aligned u" "t \<le> u" "\<And>v. aligned v \<Longrightarrow> t \<le> v \<Longrightarrow> v < u \<Longrightarrow> \<not> fieldsMatch f (wall v)"
  shows "scanMinutes wall f limit t = scanMinutes wall f limit u"
  using assms
proof (induction "nat (u - t)" arbitrary: t rule: less_induct)
  case less
  show ?case
  proof (cases "t = u")
    case False
    with less.prems have lt: "t < u" by simp
    with less.prems have step: "t + 60000 \<le> u" by (intro aligned_gap)
    have "scanMinutes wall f limit t = scanMinutes wall f limit (t + 60000)"
    proof (cases "t < limit")
      case True
      then show ?thesis using less.prems(4) [OF less.prems(1)] lt by (subst scanMinutes.simps) simp
    next
      case False
      then show ?thesis by (subst (1 2) scanMinutes.simps) simp
    qed
    also have "\<dots> = scanMinutes wall f limit u"
      using less.prems step aligned_minutes(1) [of t 1] by (intro less.hyps) auto
    finally show ?thesis .
  qed simp
qed

lemma scan_skips: "aligned t \<Longrightarrow> skips wall f t u \<Longrightarrow> scanMinutes wall f limit t = scanMinutes wall f limit u"
  by (rule scan_skip) (auto simp: skips_def)

text \<open>What a scan finds is the first match, and it finds one if there is any.\<close>

lemma scan_first:
  assumes "scanMinutes wall f limit t = Some u" "aligned t"
  shows "aligned u \<and> t \<le> u \<and> u < limit \<and> fieldsMatch f (wall u) \<and>
    (\<forall>v. aligned v \<longrightarrow> t \<le> v \<longrightarrow> v < u \<longrightarrow> \<not> fieldsMatch f (wall v))"
  using assms
proof (induction wall f limit t rule: scanMinutes.induct)
  case (1 wall f limit t)
  show ?case
  proof (cases "fieldsMatch f (wall t)")
    case True
    then show ?thesis using 1(2,3) by (subst (asm) (1) scanMinutes.simps) (auto split: if_splits)
  next
    case False
    then have s: "scanMinutes wall f limit (t + 60000) = Some u" "t < limit"
      using 1(2) by (subst (asm) (1) scanMinutes.simps, auto split: if_splits)+
    have IH: "aligned u \<and> t + 60000 \<le> u \<and> u < limit \<and> fieldsMatch f (wall u) \<and>
      (\<forall>v. aligned v \<longrightarrow> t + 60000 \<le> v \<longrightarrow> v < u \<longrightarrow> \<not> fieldsMatch f (wall v))"
      using 1(1) [OF _ False s(1)] s(2) aligned_minutes(1) [OF 1(3), of 1] by simp
    have "\<not> fieldsMatch f (wall v)" if "aligned v" "t \<le> v" "v < u" for v
    proof (cases "v = t")
      case False
      then have "t + 60000 \<le> v" using that 1(3) by (intro aligned_gap) auto
      then show ?thesis using IH that by simp
    qed (use False in simp)
    then show ?thesis using IH by simp
  qed
qed


section \<open>Clocks\<close>

text \<open>
  A wall clock runs minute by minute within an hour, never goes back to an earlier date, and the midnight it
  promises comes no more than three hours after the date changes.
\<close>

locale regular_clock =
  fixes wall :: clock
  assumes minute_range: "0 \<le> wk_minute (wall t) \<and> wk_minute (wall t) < 60"
    and hour_range: "0 \<le> wk_hour (wall t) \<and> wk_hour (wall t) < 24"
    and minute_runs: "aligned t \<Longrightarrow> wk_minute (wall t) < 59 \<Longrightarrow>
      wall (t + 60000) = (wall t)\<lparr>wk_minute := wk_minute (wall t) + 1\<rparr>"
    and date_runs: "t \<le> u \<Longrightarrow> localDateKey (wall t) \<le> localDateKey (wall u)"
    and date_key: "localDateKey (wall t) = localDateKey (wall u) \<Longrightarrow>
      wk_dom (wall t) = wk_dom (wall u) \<and> wk_month (wall t) = wk_month (wall u) \<and> wk_dow (wall t) = wk_dow (wall u)"
    and midnight: "aligned t \<Longrightarrow> aligned u \<Longrightarrow> u + 180 * 60000 < t + minutesToMidnight (wall t) * 60000 \<Longrightarrow>
      t \<le> u \<Longrightarrow> localDateKey (wall u) \<le> localDateKey (wall t)"
begin

lemma within_hour:
  assumes "aligned t" "wk_minute (wall t) + int k < 60"
  shows "wall (t + int k * 60000) = (wall t)\<lparr>wk_minute := wk_minute (wall t) + int k\<rparr>"
  using assms(2)
proof (induction k)
  case (Suc k)
  then have w: "wall (t + int k * 60000) = (wall t)\<lparr>wk_minute := wk_minute (wall t) + int k\<rparr>" by simp
  have "wall (t + int k * 60000 + 60000) = (wall t)\<lparr>wk_minute := wk_minute (wall t) + int k + 1\<rparr>"
    using minute_runs [of "t + int k * 60000"] aligned_minutes(1) [OF assms(1)] Suc.prems by (simp add: w)
  then show ?case by (simp add: algebra_simps)
qed simp

lemma hour_part:
  assumes "aligned t" "aligned v" "t \<le> v" "v < t + j * 60000" "wk_minute (wall t) + j \<le> 60"
  obtains i where "0 \<le> i" "i < j" "wall v = (wall t)\<lparr>wk_minute := wk_minute (wall t) + i\<rparr>"
proof -
  obtain a b where ab: "t = 60000 * a" "v = 60000 * b" using assms(1,2) by (auto simp: mod_eq_0_iff_dvd dvd_def)
  with assms(3,4) have i: "0 \<le> b - a" "b - a < j" by simp_all
  have "wall (t + int (nat (b - a)) * 60000) = (wall t)\<lparr>wk_minute := wk_minute (wall t) + int (nat (b - a))\<rparr>"
    using i assms(5) by (intro within_hour [OF assms(1)]) simp
  then have "wall v = (wall t)\<lparr>wk_minute := wk_minute (wall t) + (b - a)\<rparr>" using i by (simp add: ab algebra_simps)
  with i that show thesis by blast
qed

lemma hours_positive: "1 \<le> minutesToMidnight (wall t)"
  using minute_range [of t] hour_range [of t] by (simp add: minutesToMidnight_def)

text \<open>The hops end after \<open>t\<close>; what lies more than three hours before their end is still the date of \<open>t\<close>.\<close>

lemma hop_bounds:
  assumes "aligned t" "t < c" "aligned c"
    and "\<forall>v. aligned v \<longrightarrow> t \<le> v \<longrightarrow> v + 180 * 60000 < c \<longrightarrow> localDateKey (wall v) = localDateKey (wall t)"
  shows "t < hopToNextDay n wall (localDateKey (wall t)) c \<and> aligned (hopToNextDay n wall (localDateKey (wall t)) c) \<and>
    (\<forall>v. aligned v \<longrightarrow> t \<le> v \<longrightarrow> v + 180 * 60000 < hopToNextDay n wall (localDateKey (wall t)) c \<longrightarrow>
      localDateKey (wall v) = localDateKey (wall t))"
  using assms(2-4)
proof (induction n arbitrary: c)
  case (Suc n)
  let ?k = "localDateKey (wall t)" and ?c = "c + minutesToMidnight (wall c) * 60000"
  show ?case
  proof (cases "localDateKey (wall c) \<le> ?k")
    case True
    then have k: "localDateKey (wall c) = ?k" using date_runs [of t c] Suc.prems(1) by simp
    have "localDateKey (wall v) = ?k" if v: "aligned v" "t \<le> v" "v + 180 * 60000 < ?c" for v
    proof (cases "v \<le> c")
      case True
      then show ?thesis using date_runs [OF v(2)] date_runs [OF True] k by simp
    next
      case False
      then show ?thesis using midnight [OF Suc.prems(2) v(1,3)] date_runs [OF v(2)] k by simp
    qed
    moreover have "t < ?c" using Suc.prems(1) hours_positive [of c] by simp
    ultimately show ?thesis using Suc.IH [of ?c] aligned_minutes(1) [OF Suc.prems(2)] True by simp
  qed (use Suc.prems in simp)
qed simp

lemma walk_bounds:
  assumes "aligned t" "t < c" "aligned c"
    and "\<forall>v. aligned v \<longrightarrow> t \<le> v \<longrightarrow> v + int n * 60000 < c \<longrightarrow> localDateKey (wall v) = localDateKey (wall t)"
  shows "t < walkBack n wall (localDateKey (wall t)) c \<and> aligned (walkBack n wall (localDateKey (wall t)) c) \<and>
    (\<forall>v. aligned v \<longrightarrow> t \<le> v \<longrightarrow> v < walkBack n wall (localDateKey (wall t)) c \<longrightarrow>
      localDateKey (wall v) = localDateKey (wall t))"
  using assms(2-4)
proof (induction n arbitrary: c)
  case (Suc n)
  let ?k = "localDateKey (wall t)"
  show ?case
  proof (cases "localDateKey (wall (c - 60000)) \<le> ?k")
    case True
    have "localDateKey (wall v) = ?k" if v: "aligned v" "t \<le> v" "v < c" for v
    proof -
      have "v \<le> c - 60000" using aligned_gap [OF v(1) Suc.prems(2) v(3)] by simp
      then show ?thesis using date_runs [OF v(2)] date_runs [of v "c - 60000"] True by simp
    qed
    then show ?thesis using Suc.prems True by simp
  next
    case False
    have "t < c - 60000" using date_runs [of "c - 60000" t] False by (meson not_le)
    moreover have "aligned (c - 60000)" using aligned_minutes(2) [OF Suc.prems(2), of 1] by simp
    moreover have "\<forall>v. aligned v \<longrightarrow> t \<le> v \<longrightarrow> v + int n * 60000 < c - 60000 \<longrightarrow> localDateKey (wall v) = ?k"
      using Suc.prems(3) by (simp add: algebra_simps)
    ultimately have "t < walkBack n wall ?k (c - 60000) \<and> aligned (walkBack n wall ?k (c - 60000)) \<and>
      (\<forall>v. aligned v \<longrightarrow> t \<le> v \<longrightarrow> v < walkBack n wall ?k (c - 60000) \<longrightarrow> localDateKey (wall v) = ?k)"
      by (rule Suc.IH)
    moreover have e: "walkBack (Suc n) wall ?k c = walkBack n wall ?k (c - 60000)" using False by simp
    ultimately show ?thesis unfolding e by blast
  qed
qed simp

lemma next_day:
  assumes "aligned t"
  shows "t < startOfNextLocalDay wall t \<and> aligned (startOfNextLocalDay wall t) \<and>
    (\<forall>v. aligned v \<longrightarrow> t \<le> v \<longrightarrow> v < startOfNextLocalDay wall t \<longrightarrow> localDateKey (wall v) = localDateKey (wall t))"
proof -
  let ?c = "t + minutesToMidnight (wall t) * 60000"
  have "localDateKey (wall v) = localDateKey (wall t)" if "aligned v" "t \<le> v" "v + 180 * 60000 < ?c" for v
    using midnight [OF assms that(1,3,2)] date_runs [OF that(2)] by simp
  moreover have "t < ?c" using hours_positive [of t] by simp
  ultimately have h: "t < hopToNextDay 3 wall (localDateKey (wall t)) ?c \<and>
      aligned (hopToNextDay 3 wall (localDateKey (wall t)) ?c) \<and>
      (\<forall>v. aligned v \<longrightarrow> t \<le> v \<longrightarrow> v + 180 * 60000 < hopToNextDay 3 wall (localDateKey (wall t)) ?c \<longrightarrow>
        localDateKey (wall v) = localDateKey (wall t))"
    using assms aligned_minutes(1) [OF assms] by (intro hop_bounds) blast+
  then show ?thesis unfolding startOfNextLocalDay_def Let_def by (intro walk_bounds [OF assms]) simp_all
qed

lemma searchStep_skips:
  assumes "aligned t" "\<not> fieldsMatch f (wall t)" "sorted (cf_minutes f)" "\<forall>m \<in> set (cf_minutes f). m < 60"
  shows "skips wall f t (searchStep wall f t)"
proof (cases "dayMatches f (wall t)")
  case False
  have "\<not> fieldsMatch f (wall v)" if "localDateKey (wall v) = localDateKey (wall t)" for v
    using date_key [OF that] False by (simp add: fieldsMatch_def dayMatches_def)
  then show ?thesis using next_day [OF assms(1)] False by (simp add: skips_def searchStep_def Let_def)
next
  case day: True
  let ?w = "wall t"
  have to_hour: "skips wall f t (t + j * 60000)"
    if j: "0 < j" "wk_minute ?w + j \<le> 60"
      and none: "\<And>i. 0 \<le> i \<Longrightarrow> i < j \<Longrightarrow> wk_hour ?w \<notin> set (cf_hours f) \<or> wk_minute ?w + i \<notin> set (cf_minutes f)" for j
    unfolding skips_def
  proof (intro conjI allI impI)
    show "aligned (t + j * 60000)" by (rule aligned_minutes(1) [OF assms(1)])
    show "t < t + j * 60000" using j(1) by simp
    fix v
    assume "aligned v" "t \<le> v" "v < t + j * 60000"
    then obtain i where "0 \<le> i" "i < j" "wall v = ?w\<lparr>wk_minute := wk_minute ?w + i\<rparr>"
      using hour_part [OF assms(1)] j(2) by metis
    then show "\<not> fieldsMatch f (wall v)" using none [of i] by (auto simp: fieldsMatch_def)
  qed
  show ?thesis
  proof (cases "wk_hour ?w \<in> set (cf_hours f)")
    case False
    then show ?thesis using day to_hour [of "60 - wk_minute ?w"] minute_range [of t] by (simp add: searchStep_def Let_def)
  next
    case True
    then have now: "wk_minute ?w \<notin> set (cf_minutes f)" using assms(2) day by (simp add: fieldsMatch_def)
    show ?thesis
    proof (cases "List.find (\<lambda>m. m > wk_minute ?w) (cf_minutes f)")
      case None
      then have "wk_minute ?w + i \<notin> set (cf_minutes f)" if "0 \<le> i" for i
        using now that by (cases "i = 0") (auto simp: find_None_iff)
      then show ?thesis using day True None to_hour [of "60 - wk_minute ?w"] minute_range [of t]
        by (simp add: searchStep_def Let_def)
    next
      case (Some m)
      note m = find_least(1,2) [OF assms(3) Some] and least = find_least(3) [OF assms(3) Some]
      have "wk_minute ?w + i \<notin> set (cf_minutes f)" if "0 \<le> i" "i < m - wk_minute ?w" for i
        using now least [of "wk_minute ?w + i"] that by (cases "i = 0") auto
      moreover have "m < 60" using assms(4) m(1) by simp
      ultimately show ?thesis using day True Some m to_hour [of "m - wk_minute ?w"]
        by (simp add: searchStep_def Let_def)
    qed
  qed
qed

lemma searchFrom_scan:
  assumes "sorted (cf_minutes f)" "\<forall>m \<in> set (cf_minutes f). m < 60"
    and "aligned t" "limit - t + guard * 60000 < 599999 * 60000"
  shows "searchFrom wall f limit guard t = scanMinutes wall f limit t"
  using assms(3,4)
proof (induction "nat (limit - t)" arbitrary: guard t rule: less_induct)
  case less
  show ?case
  proof (cases "t < limit \<and> \<not> fieldsMatch f (wall t)")
    case True
    let ?u = "searchStep wall f t"
    have s: "skips wall f t ?u" using searchStep_skips [OF less.prems(1) _ assms(1,2)] True by simp
    then have u: "aligned ?u" "t < ?u" by (simp_all add: skips_def)
    then have g: "t + 60000 \<le> ?u" by (intro aligned_gap less.prems(1))
    have "guard + 1 < 600000" using less.prems(2) True by linarith
    then have "searchFrom wall f limit guard t = searchFrom wall f limit (guard + 1) ?u"
      using True by (subst searchFrom.simps) simp
    also have "\<dots> = scanMinutes wall f limit ?u"
      using less.prems(2) u g True by (intro less.hyps) simp_all
    also have "\<dots> = scanMinutes wall f limit t" by (rule scan_skips [OF less.prems(1) s, symmetric])
    finally show ?thesis .
  next
    case False
    then show ?thesis using less.prems(2) by (subst searchFrom.simps, subst scanMinutes.simps) auto
  qed
qed

end


section \<open>The wall clock of UTC is regular\<close>

lemma localDateKey_local: "localDateKey (clockOf t) = getFullYear t * 10000 + (getMonth t + 1) * 100 + getDate t"
  by (simp add: localDateKey_def clockOf_def)

lemma date_parts:
  assumes "dayOf t \<le> dayOf u"
  shows "localDateKey (clockOf t) \<le> localDateKey (clockOf u)"
proof -
  have k: "monthIndex t \<le> monthIndex u" unfolding monthIndex_def by (rule monthOf_mono [OF assms])
  show ?thesis
  proof (cases "monthIndex t = monthIndex u")
    case True
    then show ?thesis using assms by (simp add: localDateKey_local getFullYear_def getMonth_def getDate_def)
  next
    case False
    then have lt: "12 * getFullYear t + getMonth t < 12 * getFullYear u + getMonth u" using k by (simp only: year_month)
    have "getFullYear t * 10000 + getMonth t * 100 + 100 \<le> getFullYear u * 10000 + getMonth u * 100"
    proof (cases "getFullYear t = getFullYear u")
      case True
      then show ?thesis using lt by simp
    next
      case False
      then have "getFullYear t + 1 \<le> getFullYear u" using lt getMonth_bounds [of t] getMonth_bounds [of u] by linarith
      then show ?thesis using getMonth_bounds [of t] getMonth_bounds [of u] by linarith
    qed
    then show ?thesis using getDate_bounds [of t] getDate_bounds [of u] by (simp add: localDateKey_local)
  qed
qed

lemma key_parts:
  "localDateKey (clockOf t) mod 100 = getDate t"
  "localDateKey (clockOf t) div 100 = 100 * getFullYear t + (getMonth t + 1)"
proof -
  have e: "localDateKey (clockOf t) = 100 * (100 * getFullYear t + (getMonth t + 1)) + getDate t"
    by (simp add: localDateKey_local)
  show "localDateKey (clockOf t) mod 100 = getDate t"
    by (rule int_mod_pos_eq [OF e]) (use getDate_bounds [of t] in simp_all)
  show "localDateKey (clockOf t) div 100 = 100 * getFullYear t + (getMonth t + 1)"
    by (rule int_div_pos_eq [OF e]) (use getDate_bounds [of t] in simp_all)
qed

lemma key_day:
  assumes "localDateKey (clockOf t) = localDateKey (clockOf u)"
  shows "dayOf t = dayOf u"
proof -
  have d: "getDate t = getDate u" using key_parts(1) [of t] key_parts(1) [of u] assms by simp
  have ym: "100 * getFullYear t + (getMonth t + 1) = 100 * getFullYear u + (getMonth u + 1)"
    using key_parts(2) [of t] key_parts(2) [of u] assms by simp
  have "getFullYear t = getFullYear u" using ym getMonth_bounds [of t] getMonth_bounds [of u] by linarith
  with ym have "monthIndex t = monthIndex u" using year_month [of t] year_month [of u] by linarith
  with d show ?thesis by (simp add: getDate_def)
qed

lemma same_day:
  assumes "dayOf t = dayOf u"
  shows "getDate t = getDate u" "getMonth t = getMonth u" "getFullYear t = getFullYear u" "getDay t = getDay u"
  by (simp_all add: getDate_def getMonth_def getFullYear_def getDay_def monthIndex_def assms)

lemma minute_units: "getMinutes t = t div 60000 mod 60" "getHours t = t div 60000 div 60 mod 24"
  "dayOf t = t div 60000 div 60 div 24"
  by (simp_all add: getMinutes_def getHours_def dayOf_def MS_DAY_def zdiv_zmult2_eq [symmetric])

lemma local_minute_runs:
  assumes "getMinutes t < 59"
  shows "dayOf (t + 60000) = dayOf t" "getHours (t + 60000) = getHours t" "getMinutes (t + 60000) = getMinutes t + 1"
proof -
  have q: "(t + 60000) div 60000 = t div 60000 + 1" by simp
  have m: "t div 60000 mod 60 \<noteq> 60 - 1" using assms by (simp add: minute_units)
  then have h: "(t div 60000 + 1) div 60 = t div 60000 div 60" by (simp add: div_mod_succ del: div_mult_self1)
  show "dayOf (t + 60000) = dayOf t" "getHours (t + 60000) = getHours t"
    by (simp_all only: minute_units q h)
  show "getMinutes (t + 60000) = getMinutes t + 1" using m by (simp add: minute_units q div_mod_succ)
qed

lemma to_midnight: "aligned t \<Longrightarrow> t + minutesToMidnight (clockOf t) * 60000 = (dayOf t + 1) * MS_DAY"
proof -
  assume "aligned t"
  then have t: "t = 60000 * (t div 60000)" by (simp add: minus_mod_eq_mult_div [symmetric])
  have "t div 60000 = 60 * (t div 60000 div 60) + t div 60000 mod 60" by simp
  moreover have "t div 60000 div 60 = 24 * (t div 60000 div 60 div 24) + t div 60000 div 60 mod 24" by simp
  ultimately have q: "t div 60000 = 60 * (24 * dayOf t + getHours t) + getMinutes t" by (simp only: minute_units)
  have "t = 60000 * (60 * (24 * dayOf t + getHours t) + getMinutes t)" using t by (simp only: q)
  then show ?thesis by (simp add: minutesToMidnight_def clockOf_def MS_DAY_def)
qed

lemma dayOf_mono: "t \<le> u \<Longrightarrow> dayOf t \<le> dayOf u"
  unfolding dayOf_def by (rule zdiv_mono1) (simp_all add: MS_DAY_def)

lemma dayOf_le: "u < (d + 1) * MS_DAY \<Longrightarrow> dayOf u \<le> d"
proof -
  assume u: "u < (d + 1) * MS_DAY"
  have "dayOf u * 86400000 \<le> u" using div_mult_mod_eq [of u 86400000] pos_mod_sign [of 86400000 u]
    unfolding dayOf_def MS_DAY_def by linarith
  with u show ?thesis by (simp add: MS_DAY_def)
qed

lemma local_regular:
  assumes "aligned offset"
  shows "regular_clock (\<lambda>t. clockOf (t + offset))"
proof
  have al: "aligned t \<longleftrightarrow> aligned (t + offset)" for t
    using assms by (metis add.right_neutral mod_add_right_eq)
  fix t u
  let ?t = "t + offset" and ?u = "u + offset"
  show "0 \<le> wk_minute (clockOf ?t) \<and> wk_minute (clockOf ?t) < 60"
    using getMinutes_bounds by (simp add: clockOf_def)
  show "0 \<le> wk_hour (clockOf ?t) \<and> wk_hour (clockOf ?t) < 24"
    using getHours_bounds by (simp add: clockOf_def)
  show "clockOf (t + 60000 + offset) = (clockOf ?t)\<lparr>wk_minute := wk_minute (clockOf ?t) + 1\<rparr>"
    if "wk_minute (clockOf ?t) < 59"
  proof -
    have m: "getMinutes ?t < 59" using that by (simp add: clockOf_def)
    have "t + 60000 + offset = ?t + 60000" by simp
    then show ?thesis using local_minute_runs [OF m] same_day [OF local_minute_runs(1) [OF m]]
      by (simp only: clockOf_def WallClock.simps)
  qed
  show "localDateKey (clockOf ?t) \<le> localDateKey (clockOf ?u)" if "t \<le> u"
    using that by (intro date_parts dayOf_mono) simp
  show "wk_dom (clockOf ?t) = wk_dom (clockOf ?u) \<and> wk_month (clockOf ?t) = wk_month (clockOf ?u) \<and>
      wk_dow (clockOf ?t) = wk_dow (clockOf ?u)"
    if "localDateKey (clockOf ?t) = localDateKey (clockOf ?u)"
    using same_day [OF key_day [OF that]] by (simp add: clockOf_def)
  show "localDateKey (clockOf ?u) \<le> localDateKey (clockOf ?t)"
    if "aligned t" "u + 180 * 60000 < t + minutesToMidnight (clockOf ?t) * 60000"
  proof (rule date_parts)
    have "?t + minutesToMidnight (clockOf ?t) * 60000 = (dayOf ?t + 1) * MS_DAY"
      by (rule to_midnight [OF iffD1 [OF al that(1)]])
    then have "?u < (dayOf ?t + 1) * MS_DAY" using that(2) by linarith
    then show "dayOf ?u \<le> dayOf ?t" by (rule dayOf_le)
  qed
qed

interpretation utc: regular_clock clockOf
  using local_regular [of 0] by simp



section \<open>The next run\<close>

lemma parseParts_sorted: "parseField lo hi field = Inr xs \<Longrightarrow> sorted xs"
  by (cases "parseParts lo hi (js_split (CHR '','') field)") (auto simp: parseField_def)

lemma parseCron_sorted:
  assumes "parseCron expression = Inr f"
  shows "sorted (cf_minutes f)" "sorted (cf_hours f)"
proof -
  have "sorted (cf_minutes f) \<and> sorted (cf_hours f)" using assms parseParts_sorted
    by (auto simp: parseCron_def split: list.splits sum.splits)
  then show "sorted (cf_minutes f)" "sorted (cf_hours f)" by simp_all
qed

lemma start_aligned: "aligned (date div 60000 * 60000 + 60000)"
  using mod_mult_self1 [of 0 "date div 60000 + 1" 60000] by (simp add: distrib_right)

text \<open>C25: In any configured time zone whose wall clock is regular (minute by minute within an hour, dates never going
  back, midnight at most three hours late) the search for the next run gives what a scan of every minute of the next 366
  days gives, for an expression whose minutes are below 60: neither the jumps to the next day across changes of the
  clock, nor the jumps within an hour, nor the guard on the iterations lose a run.\<close>

theorem cron_search_exact:
  assumes "regular_clock wall" "parseCron expression = Inr f" "\<forall>m \<in> set (cf_minutes f). m < 60"
  shows "nextRun (Some wall) machine expression date =
    scanMinutes wall f (date + 366 * 24 * 60 * 60000) (date div 60000 * 60000 + 60000)"
proof -
  have "date < date div 60000 * 60000 + 60000" using below_next [of 60000 date] by (simp add: distrib_right)
  then have "date + 366 * 24 * 60 * 60000 - (date div 60000 * 60000 + 60000) + 0 * 60000 < 599999 * 60000" by simp
  then have "searchFrom wall f (date + 366 * 24 * 60 * 60000) 0 (date div 60000 * 60000 + 60000) =
      scanMinutes wall f (date + 366 * 24 * 60 * 60000) (date div 60000 * 60000 + 60000)"
    by (rule regular_clock.searchFrom_scan [OF assms(1) parseCron_sorted(1) [OF assms(2)] assms(3) start_aligned])
  then show ?thesis by (simp add: nextRun_def nextRunInTimezone_def assms(2))
qed

theorem cron_search_exact_witness:
  "nextRun (Some clockOf) new_york ''0 0 1 2,3 *'' 1769903950000 = Some 1769904000000"
proof -
  let ?f = "\<lparr>cf_minutes = [0], cf_hours = [0], cf_daysOfMonth = [1], cf_months = [2, 3], cf_daysOfWeek = [0, 1, 2, 3, 4, 5, 6]\<rparr>"
  have "parseCron ''0 0 1 2,3 *'' = Inr ?f" by code_simp
  then have "nextRun (Some clockOf) new_york ''0 0 1 2,3 *'' 1769903950000 =
      scanMinutes clockOf ?f (1769903950000 + 366 * 24 * 60 * 60000) (1769903950000 div 60000 * 60000 + 60000)"
    by (rule cron_search_exact [OF utc.regular_clock_axioms]) simp
  also have "\<dots> = Some 1769904000000" by code_simp
  finally show ?thesis .
qed


section \<open>The search on plain local times\<close>

text \<open>The steps of the search when local times are plain numbers.\<close>

definition plainStep :: "CronFields \<Rightarrow> int \<Rightarrow> int" where
  "plainStep f t =
     (if getMonth t + 1 \<notin> set (cf_months f) then setHours (setDate (setMonth t (getMonth t + 1)) 1) 0
      else if getDate t \<notin> set (cf_daysOfMonth f) \<or> getDay t \<notin> set (cf_daysOfWeek f) then setHours (t + MS_DAY) 0
      else if getHours t \<notin> set (cf_hours f) then
        (case List.find (\<lambda>h. h > getHours t) (cf_hours f) of Some h \<Rightarrow> setHours t h | None \<Rightarrow> setHours (t + MS_DAY) 0)
      else (case List.find (\<lambda>m. m > getMinutes t) (cf_minutes f) of
          Some m \<Rightarrow> setMinutes t m
        | None \<Rightarrow> (case List.find (\<lambda>h. h > getHours t) (cf_hours f) of
            Some h \<Rightarrow> setHours t h | None \<Rightarrow> setHours (t + MS_DAY) 0)))"

lemma plain_midnight: "setHours (t + MS_DAY) 0 = (dayOf t + 1) * MS_DAY"
  by (simp add: setHours_zero dayOf_plus)


lemma hour_of: "getHours t = t div 3600000 - 24 * dayOf t"
proof -
  have "t div 3600000 = 24 * (t div 3600000 div 24) + t div 3600000 mod 24" by simp
  moreover have "t div 3600000 div 24 = dayOf t" by (simp add: dayOf_def MS_DAY_def zdiv_zmult2_eq [symmetric])
  ultimately show ?thesis by (simp add: getHours_def)
qed

lemma minute_of: "getMinutes t = t div 60000 - 60 * (t div 3600000)"
proof -
  have "t div 60000 = 60 * (t div 60000 div 60) + t div 60000 mod 60" by simp
  moreover have "t div 60000 div 60 = t div 3600000" by (simp add: zdiv_zmult2_eq [symmetric])
  ultimately show ?thesis by (simp add: getMinutes_def)
qed

lemma div_below: "0 < n \<Longrightarrow> v < q * n \<Longrightarrow> v div n < (q :: int)"
proof (rule ccontr)
  assume n: "0 < n" "v < q * n" "\<not> v div n < q"
  then have "q * n \<le> v div n * n" by (intro mult_right_mono) simp_all
  also have "\<dots> \<le> v" using div_mult_mod_eq [of v n] pos_mod_sign [OF n(1), of v] by linarith
  finally show False using n(2) by simp
qed

text \<open>The part of the day from \<open>t\<close> to a later hour, and the part of the hour to a later minute.\<close>

lemma day_part:
  assumes "t \<le> v" "v < setHours t h" "h \<le> 24"
  shows "dayOf v = dayOf t" "getHours t \<le> getHours v" "getHours v < h"
proof -
  have "v < (24 * dayOf t + h) * 3600000" using assms(2) by (simp add: setHours_def MS_DAY_def algebra_simps)
  then have q: "v div 3600000 < 24 * dayOf t + h" by (intro div_below) simp_all
  have "v < (dayOf t + 1) * MS_DAY" using assms(2,3) by (simp add: setHours_def MS_DAY_def)
  then have "dayOf v \<le> dayOf t" by (rule dayOf_le)
  with dayOf_mono [OF assms(1)] show d: "dayOf v = dayOf t" by simp
  have "t div 3600000 \<le> v div 3600000" using assms(1) by (rule zdiv_mono1) simp
  then show "getHours t \<le> getHours v" by (simp add: hour_of d)
  show "getHours v < h" using q by (simp add: hour_of d)
qed

lemma minute_part:
  assumes "t \<le> v" "v < setMinutes t m" "m \<le> 60"
  shows "dayOf v = dayOf t" "getHours v = getHours t" "getMinutes t \<le> getMinutes v" "getMinutes v < m"
proof -
  have "v < (60 * (t div 3600000) + m) * 60000" using assms(2) by (simp add: setMinutes_def algebra_simps)
  then have q: "v div 60000 < 60 * (t div 3600000) + m" by (intro div_below) simp_all
  have "v < (t div 3600000 + 1) * 3600000" using assms(2,3) by (simp add: setMinutes_def)
  then have "v div 3600000 < t div 3600000 + 1" by (intro div_below) simp_all
  moreover have "t div 3600000 \<le> v div 3600000" using assms(1) by (rule zdiv_mono1) simp
  ultimately have h: "v div 3600000 = t div 3600000" by simp
  show d: "dayOf v = dayOf t" unfolding minute_units(3) using h by (simp add: zdiv_zmult2_eq [symmetric] dayOf_def MS_DAY_def)
  show "getHours v = getHours t" by (simp add: hour_of d h)
  have "t div 60000 \<le> v div 60000" using assms(1) by (rule zdiv_mono1) simp
  then show "getMinutes t \<le> getMinutes v" by (simp add: minute_of h)
  show "getMinutes v < m" using q by (simp add: minute_of h)
qed

lemma hour_minutes:
  assumes "t \<le> v" "dayOf v = dayOf t" "getHours v = getHours t"
  shows "getMinutes t \<le> getMinutes v"
proof -
  have "v div 3600000 = t div 3600000" using assms(2,3) by (simp add: hour_of)
  moreover have "t div 60000 \<le> v div 60000" using assms(1) by (rule zdiv_mono1) simp
  ultimately show ?thesis by (simp add: minute_of)
qed

lemma plainStep_skips:
  assumes "aligned t" "\<not> fieldsMatch f (clockOf t)" "sorted (cf_minutes f)" "sorted (cf_hours f)"
    and "\<forall>m \<in> set (cf_minutes f). m < 60" "\<forall>h \<in> set (cf_hours f). h < 24" "{1..12} \<subseteq> set (cf_months f)"
  shows "skips clockOf f t (plainStep f t)"
proof -
  let ?day = "\<lambda>v. getDate v \<in> set (cf_daysOfMonth f) \<and> getDay v \<in> set (cf_daysOfWeek f)"
  let ?hm = "\<lambda>v. getHours v \<in> set (cf_hours f) \<and> getMinutes v \<in> set (cf_minutes f)"
  have month: "getMonth v + 1 \<in> set (cf_months f)" for v using assms(7) getMonth_bounds [of v] by auto
  have match: "fieldsMatch f (clockOf v) \<longleftrightarrow> ?day v \<and> ?hm v" for v
    using month [of v] by (auto simp: fieldsMatch_def dayMatches_def clockOf_def)
  have skip: "skips clockOf f t u" if "aligned u" "t < u" "\<And>v. t \<le> v \<Longrightarrow> v < u \<Longrightarrow> \<not> (?day v \<and> ?hm v)" for u
    using that by (simp add: skips_def match)
  have align: "aligned (setHours t h)" "aligned (setMinutes t m)" for h m
    using mod_mult_self1 [of 0 "dayOf t * 1440 + h * 60" 60000] mod_mult_self1 [of 0 "t div 3600000 * 60 + m" 60000]
    by (simp_all add: setHours_def setMinutes_def MS_DAY_def algebra_simps)
  have end_of_day: "setHours (t + MS_DAY) 0 = setHours t 24"
    by (simp only: plain_midnight) (simp add: setHours_def MS_DAY_def)
  have to_hour: "skips clockOf f t (setHours t h)"
    if "getHours t < h" "h \<le> 24" "\<And>v. dayOf v = dayOf t \<Longrightarrow> getHours t \<le> getHours v \<Longrightarrow> getHours v < h \<Longrightarrow>
      t \<le> v \<Longrightarrow> \<not> (?day v \<and> ?hm v)" for h
    using that day_part [of t _ h] by (intro skip align setHours_less) blast+
  have to_minute: "skips clockOf f t (setMinutes t m)"
    if "getMinutes t < m" "m \<le> 60" "\<And>v. getHours v = getHours t \<Longrightarrow> getMinutes t \<le> getMinutes v \<Longrightarrow> getMinutes v < m \<Longrightarrow>
      \<not> (?day v \<and> ?hm v)" for m
    using that minute_part [of t _ m] by (intro skip align setMinutes_less) blast+
  text \<open>Where the day is left, or the hour, when nothing that is left of it matches.\<close>
  have leave: "skips clockOf f t
      (case List.find (\<lambda>h. h > getHours t) (cf_hours f) of Some h \<Rightarrow> setHours t h | None \<Rightarrow> setHours (t + MS_DAY) 0)"
    if rest: "\<And>v. dayOf v = dayOf t \<Longrightarrow> getHours v = getHours t \<Longrightarrow> t \<le> v \<Longrightarrow> \<not> ?hm v"
  proof (cases "List.find (\<lambda>h. h > getHours t) (cf_hours f)")
    case None
    have "\<not> (?day v \<and> ?hm v)" if v: "dayOf v = dayOf t" "getHours t \<le> getHours v" "t \<le> v" for v
    proof (cases "getHours v = getHours t")
      case True
      then show ?thesis using rest [OF v(1) True v(3)] by simp
    next
      case False
      then have "getHours t < getHours v" using v(2) by simp
      then show ?thesis using None by (auto simp: find_None_iff)
    qed
    then show ?thesis using None to_hour [of 24] getHours_bounds [of t] by (simp add: end_of_day)
  next
    case (Some h)
    note l = find_least [OF assms(4) Some]
    have "\<not> (?day v \<and> ?hm v)" if v: "dayOf v = dayOf t" "getHours t \<le> getHours v" "getHours v < h" "t \<le> v" for v
    proof (cases "getHours v = getHours t")
      case True
      then show ?thesis using rest [OF v(1) True v(4)] by simp
    next
      case False
      then show ?thesis using l(3) [of "getHours v"] v(2,3) by auto
    qed
    moreover have "h < 24" using assms(6) l(1) by simp
    ultimately show ?thesis using Some l(2) to_hour [of h] by simp
  qed
  consider (day) "\<not> ?day t" | (hour) "?day t" "getHours t \<notin> set (cf_hours f)"
    | (minute) "?day t" "getHours t \<in> set (cf_hours f)" "getMinutes t \<notin> set (cf_minutes f)"
    using assms(2) match [of t] by blast
  then show ?thesis
  proof cases
    case day
    have "\<not> ?day v" if "dayOf v = dayOf t" for v using day same_day(1,4) [OF that] by simp
    moreover have "getHours t < 24" using getHours_bounds [of t] by simp
    ultimately have "skips clockOf f t (setHours (t + MS_DAY) 0)" unfolding end_of_day
      by (intro to_hour) blast+
    then show ?thesis using day month [of t] by (simp add: plainStep_def)
  next
    case hour
    then have "skips clockOf f t
        (case List.find (\<lambda>h. h > getHours t) (cf_hours f) of Some h \<Rightarrow> setHours t h | None \<Rightarrow> setHours (t + MS_DAY) 0)"
      by (intro leave) simp
    then show ?thesis using hour month [of t] by (simp add: plainStep_def)
  next
    case minute
    show ?thesis
    proof (cases "List.find (\<lambda>m. m > getMinutes t) (cf_minutes f)")
      case None
      have "skips clockOf f t
          (case List.find (\<lambda>h. h > getHours t) (cf_hours f) of Some h \<Rightarrow> setHours t h | None \<Rightarrow> setHours (t + MS_DAY) 0)"
      proof (rule leave)
        fix v
        assume "dayOf v = dayOf t" "getHours v = getHours t" "t \<le> v"
        then have "getMinutes t \<le> getMinutes v" by (intro hour_minutes)
        then show "\<not> ?hm v" using None minute(3) by (auto simp: find_None_iff dest: order_le_imp_less_or_eq)
      qed
      then show ?thesis using minute None month [of t] by (simp add: plainStep_def)
    next
      case (Some m)
      note l = find_least [OF assms(3) Some]
      have "m < 60" using assms(5) l(1) by simp
      moreover have "\<not> (?day v \<and> ?hm v)" if "getMinutes t \<le> getMinutes v" "getMinutes v < m" for v
        using l(3) [of "getMinutes v"] that minute(3) by (auto dest: order_le_imp_less_or_eq)
      ultimately have "skips clockOf f t (setMinutes t m)" using l(2) by (intro to_minute) simp_all
      then show ?thesis using minute Some month [of t] by (simp add: plainStep_def)
    qed
  qed
qed

text \<open>A step that stays in the month leads at most a day ahead.\<close>

lemma plainStep_near:
  assumes "{1..12} \<subseteq> set (cf_months f)" "\<forall>m \<in> set (cf_minutes f). m < 60" "\<forall>h \<in> set (cf_hours f). h < 24"
  shows "plainStep f t \<le> t + MS_DAY"
proof -
  have day: "dayOf t * MS_DAY \<le> t" using div_mult_mod_eq [of t MS_DAY] pos_mod_sign [of MS_DAY t]
    by (simp only: dayOf_def) (simp add: MS_DAY_def)
  have month: "getMonth t + 1 \<in> set (cf_months f)" using assms(1) getMonth_bounds [of t] by auto
  have mid: "setHours (t + MS_DAY) 0 \<le> t + MS_DAY"
    using day by (simp only: plain_midnight) (simp add: distrib_right)
  have hour: "setHours t h \<le> t + MS_DAY" if "h < 24" for h
    using day that by (simp add: setHours_def MS_DAY_def)
  have minute: "setMinutes t m \<le> t + MS_DAY" if "m < 60" for m
    using div_mult_mod_eq [of t 3600000] pos_mod_sign [of 3600000 t] that by (simp add: setMinutes_def MS_DAY_def)
  have "List.find P (cf_hours f) = Some h \<Longrightarrow> setHours t h \<le> t + MS_DAY" for P h
    using assms(3) by (intro hour) (auto simp: find_Some_iff)
  moreover have "List.find P (cf_minutes f) = Some m \<Longrightarrow> setMinutes t m \<le> t + MS_DAY" for P m
    using assms(2) by (intro minute) (auto simp: find_Some_iff)
  ultimately show ?thesis using month mid by (simp add: plainStep_def split: option.split)
qed


section \<open>The search on the machine's clock\<close>

text \<open>
  A zone is quiet from \<open>a\<close> to \<open>b\<close> when its offset is \<open>d\<close> from two days before to three days after, and no offset it
  ever has differs from \<open>d\<close> by more than 26 hours, the widest difference there is between two zones.
\<close>

definition quiet :: "Zone \<Rightarrow> int \<Rightarrow> int \<Rightarrow> int \<Rightarrow> bool" where
  "quiet z d a b \<longleftrightarrow> calm z d (a - 2 * MS_DAY) (b + 3 * MS_DAY) \<and>
     (\<forall>e \<in> set (zoneOffsets z). \<bar>e - d\<bar> \<le> 26 * 3600000)"

lemma quiet_local: "quiet z d a b \<Longrightarrow> a \<le> t \<Longrightarrow> t \<le> b + MS_DAY \<Longrightarrow> localTime z t = t + d"
  unfolding quiet_def by (intro localTime_calm [of z d "a - 2 * MS_DAY" "b + 3 * MS_DAY"]) (simp_all add: MS_DAY_def)

lemma quiet_utc: "quiet z d a b \<Longrightarrow> a \<le> t \<Longrightarrow> t \<le> b + MS_DAY \<Longrightarrow> utcOf z (t + d) = t"
  unfolding quiet_def
  by (subst utcOf_calm [where d = d and S = "26 * 3600000"])
    (auto simp: MS_DAY_def elim: calm_sub)

lemma quiet_step:
  assumes q: "quiet z d a b" and t: "a \<le> t" "t \<le> b"
    and f: "{1..12} \<subseteq> set (cf_months f)" "\<forall>m \<in> set (cf_minutes f). m < 60" "\<forall>h \<in> set (cf_hours f). h < 24"
  shows "localStep z f t = plainStep f (t + d) - d"
proof -
  have l: "localTime z t = t + d" using t by (intro quiet_local [OF q]) (simp_all add: MS_DAY_def)
  have month: "getMonth (t + d) + 1 \<in> set (cf_months f)" using f(1) getMonth_bounds [of "t + d"] by auto
  have instant: "utcOf z u = u - d" if "a + d \<le> u" "u \<le> t + d + MS_DAY" for u
    using quiet_utc [OF q, of "u - d"] that t(2) by simp
  have hour: "date_setHours z t h = setHours (t + d) h - d" if "List.find (\<lambda>h. h > getHours (t + d)) (cf_hours f) = Some h" for h
  proof -
    have h: "getHours (t + d) < h" "h \<in> set (cf_hours f)" using that by (auto simp: find_Some_iff)
    have "dayOf (t + d) * MS_DAY \<le> t + d" using div_mult_mod_eq [of "t + d" MS_DAY] pos_mod_sign [of MS_DAY "t + d"]
      by (simp only: dayOf_def) (simp add: MS_DAY_def)
    moreover have "h < 24" using f(3) h(2) by simp
    ultimately have "setHours (t + d) h \<le> t + d + MS_DAY" by (simp add: setHours_def MS_DAY_def)
    with instant [of "setHours (t + d) h"] setHours_less [OF h(1)] t(1) show ?thesis by (simp add: date_setHours_def l)
  qed
  have minute: "date_setMinutes z t m = setMinutes (t + d) m - d"
    if "List.find (\<lambda>m. m > getMinutes (t + d)) (cf_minutes f) = Some m" for m
  proof -
    have m: "getMinutes (t + d) < m" "m \<in> set (cf_minutes f)" using that by (auto simp: find_Some_iff)
    have "m < 60" using f(2) m(2) by simp
    then have "setMinutes (t + d) m \<le> t + d + MS_DAY"
      using div_mult_mod_eq [of "t + d" 3600000] pos_mod_sign [of 3600000 "t + d"] by (simp add: setMinutes_def MS_DAY_def)
    with instant [of "setMinutes (t + d) m"] setMinutes_less [OF m(1)] t(1) show ?thesis by (simp add: date_setMinutes_def l)
  qed
  have midnight: "nextMidnight z t = setHours (t + d + MS_DAY) 0 - d"
  proof -
    have n: "date_setDate z t (getDate (t + d) + 1) = t + MS_DAY"
      using instant [of "t + d + MS_DAY"] t(1) by (simp add: date_setDate_def l setDate_next MS_DAY_def)
    have ln: "localTime z (t + MS_DAY) = t + d + MS_DAY"
      using t quiet_local [OF q, of "t + MS_DAY"] by (simp add: MS_DAY_def)
    have le: "setHours (t + d + MS_DAY) 0 \<le> t + d + MS_DAY" "t + d < setHours (t + d + MS_DAY) 0"
      using div_mult_mod_eq [of "t + d" MS_DAY] pos_mod_sign [of MS_DAY "t + d"] day_end [of "t + d"]
      by (simp_all only: plain_midnight) (simp_all add: dayOf_def MS_DAY_def)
    show ?thesis using instant [of "setHours (t + d + MS_DAY) 0"] le t(1)
      by (simp add: nextMidnight_def date_setHours_def l n ln)
  qed
  show ?thesis using month hour minute midnight
    by (simp add: localStep_def plainStep_def localClock_def clockOf_def l Let_def split: option.split)
qed

text \<open>A scan finds nothing before it begins, and depends only on the minutes it looks at.\<close>

lemma scan_from: "scanMinutes wall f limit t = Some u \<Longrightarrow> t \<le> u \<and> u < limit"
proof (induction wall f limit t rule: scanMinutes.induct)
  case (1 wall f limit t)
  show ?case
  proof (cases "t < limit \<and> \<not> fieldsMatch f (wall t)")
    case True
    with 1(2) have "scanMinutes wall f limit (t + 60000) = Some u" by (subst (asm) scanMinutes.simps) simp
    with 1(1) True show ?thesis by force
  next
    case False
    with 1(2) show ?thesis by (subst (asm) scanMinutes.simps) (auto split: if_splits)
  qed
qed

definition scanEnd :: "clock \<Rightarrow> CronFields \<Rightarrow> int \<Rightarrow> int \<Rightarrow> int" where
  "scanEnd wall f limit t = (case scanMinutes wall f limit t of Some u \<Rightarrow> u | None \<Rightarrow> limit)"

lemma scan_shift:
  "scanMinutes (\<lambda>v. wall (v + d)) f limit t = map_option (\<lambda>u. u - d) (scanMinutes wall f (limit + d) (t + d))"
proof (induction "nat (limit - t)" arbitrary: t rule: less_induct)
  case less
  show ?case
  proof (cases "t < limit \<and> \<not> fieldsMatch f (wall (t + d))")
    case True
    then have "scanMinutes (\<lambda>v. wall (v + d)) f limit (t + 60000) =
        map_option (\<lambda>u. u - d) (scanMinutes wall f (limit + d) (t + 60000 + d))" by (intro less.hyps) simp
    with True show ?thesis by (subst (1 2) scanMinutes.simps) (simp add: ac_simps)
  next
    case False
    then show ?thesis by (subst (1 2) scanMinutes.simps) auto
  qed
qed

lemma scan_shifted:
  assumes "aligned (t + d)" "skips wall f (t + d) (u + d)"
  shows "scanMinutes (\<lambda>v. wall (v + d)) f limit t = scanMinutes (\<lambda>v. wall (v + d)) f limit u"
  unfolding scan_shift using scan_skips [OF assms] by simp

text \<open>The search is the scan, as far as the scan looks.\<close>

lemma searchLocal_scan:
  assumes q: "quiet z d a b"
    and f: "sorted (cf_minutes f)" "sorted (cf_hours f)" "\<forall>m \<in> set (cf_minutes f). m < 60"
      "\<forall>h \<in> set (cf_hours f). h < 24" "{1..12} \<subseteq> set (cf_months f)"
    and t: "a \<le> t" "aligned (t + d)" and b: "scanEnd (\<lambda>v. clockOf (v + d)) f limit t \<le> b"
  shows "searchLocal z f limit t = scanMinutes (\<lambda>v. clockOf (v + d)) f limit t"
  using t b
proof (induction "nat (limit - t)" arbitrary: t rule: less_induct)
  case less
  let ?wall = "\<lambda>v. clockOf (v + d)"
  show ?case
  proof (cases "t < limit")
    case True
    have tb: "t \<le> b" using less.prems(3) True scan_from [of ?wall f limit t]
      by (auto simp: scanEnd_def split: option.splits)
    have clock: "localClock z t = ?wall t"
      using quiet_local [OF q less.prems(1)] tb by (simp add: localClock_def MS_DAY_def)
    show ?thesis
    proof (cases "fieldsMatch f (?wall t)")
      case True
      then show ?thesis using \<open>t < limit\<close> clock
        by (subst searchLocal.simps, subst scanMinutes.simps) simp
    next
      case False
      let ?u = "localStep z f t"
      have u: "?u = plainStep f (t + d) - d" by (rule quiet_step [OF q less.prems(1) tb f(5,3,4)])
      have s: "skips clockOf f (t + d) (?u + d)"
        using plainStep_skips [OF less.prems(2) False f] by (simp add: u)
      then have al: "aligned (?u + d)" and lt: "t < ?u" by (simp_all add: skips_def)
      have same: "scanMinutes ?wall f limit t = scanMinutes ?wall f limit ?u"
        using s less.prems(2) by (intro scan_shifted)
      have "searchLocal z f limit t = searchLocal z f limit ?u"
        using \<open>t < limit\<close> False clock by (subst searchLocal.simps) simp
      also have "\<dots> = scanMinutes ?wall f limit ?u"
        using lt less.prems(1,3) al \<open>t < limit\<close> by (intro less.hyps) (simp_all add: scanEnd_def same)
      finally show ?thesis by (simp only: same)
    qed
  next
    case False
    then show ?thesis by (subst searchLocal.simps, subst scanMinutes.simps) simp
  qed
qed

text \<open>How far the scan looks decides what it finds.\<close>

lemma scan_agree:
  assumes "\<And>v. t \<le> v \<Longrightarrow> v \<le> scanEnd wall f limit t \<Longrightarrow> wall' v = wall v"
  shows "scanMinutes wall' f limit t = scanMinutes wall f limit t"
  using assms
proof (induction "nat (limit - t)" arbitrary: t rule: less_induct)
  case less
  show ?case
  proof (cases "t < limit")
    case True
    then have reach: "t \<le> scanEnd wall f limit t" using scan_from [of wall f limit t]
      by (auto simp: scanEnd_def split: option.split)
    then have here: "wall' t = wall t" by (intro less.prems) simp_all
    show ?thesis
    proof (cases "fieldsMatch f (wall t)")
      case False
      have "scanMinutes wall f limit t = scanMinutes wall f limit (t + 60000)"
        using \<open>t < limit\<close> False by (subst scanMinutes.simps) simp
      then have rest: "scanEnd wall f limit (t + 60000) = scanEnd wall f limit t" by (simp add: scanEnd_def)
      have "scanMinutes wall' f limit (t + 60000) = scanMinutes wall f limit (t + 60000)"
        using \<open>t < limit\<close> less.prems unfolding rest [symmetric] by (intro less.hyps) simp_all
      with False here \<open>t < limit\<close> show ?thesis by (subst (1 2) scanMinutes.simps) simp
    qed (use here True in \<open>subst (1 2) scanMinutes.simps, simp\<close>)
  next
    case False
    then show ?thesis by (subst (1 2) scanMinutes.simps) simp
  qed
qed

lemma setMinutes_next:
  assumes "aligned m"
  shows "setMinutes m (getMinutes m + 1) = m + 60000"
proof -
  have "m = 60000 * (m div 60000)" using assms by (simp add: minus_mod_eq_mult_div [symmetric])
  moreover have "m div 60000 = 60 * (m div 3600000) + getMinutes m"
    using div_mult_mod_eq [of "m div 60000" 60] by (simp add: getMinutes_def zdiv_zmult2_eq [symmetric])
  ultimately have "m = 60000 * (60 * (m div 3600000) + getMinutes m)" by (simp only:)
  then show ?thesis by (simp add: setMinutes_def)
qed

lemma startLocal_quiet:
  assumes q: "quiet z d (date - MS_DAY) b" and b: "date \<le> b"
  shows "startLocal z date = (date + d) div 60000 * 60000 + 60000 - d"
proof -
  define m where "m = (date + d) div 60000 * 60000"
  have m: "m \<le> date + d" "date + d < m + 60000" "aligned m"
    using div_mult_mod_eq [of "date + d" 60000] pos_mod_sign [of 60000 "date + d"] pos_mod_bound [of 60000 "date + d"]
    unfolding m_def by (linarith, linarith, simp)
  have "localTime z date = date + d" using b by (intro quiet_local [OF q]) (simp_all add: MS_DAY_def)
  then have c: "date_clearSeconds z date = m - d"
    using quiet_utc [OF q, of "m - d"] m(1,2) b unfolding date_clearSeconds_def m_def [symmetric]
    by (simp add: MS_DAY_def m_def [symmetric])
  have lc: "localTime z (m - d) = m" using quiet_local [OF q, of "m - d"] m(1,2) b by (simp add: MS_DAY_def)
  have "date_keepSeconds z (m - d) (getMinutes m + 1) = utcOf z (m + 60000)"
    using m(3) by (simp add: date_keepSeconds_def lc setMinutes_next)
  also have "\<dots> = m + 60000 - d"
    using quiet_utc [OF q, of "m + 60000 - d"] m(1,2) b by (simp add: MS_DAY_def)
  finally have "startLocal z date = m + 60000 - d" by (simp add: startLocal_def c lc Let_def)
  then show ?thesis by (simp only: m_def)
qed

text \<open>C28: Without a configured time zone, on a machine with any zone of the database, the search of an expression that names every
  month, with hours and minutes in their ranges, gives the first matching minute of the coming year on the machine's
  clock, or none if there is none, provided that the offset of the clock is the same from three days before the date of
  the call to three days after the found minute (after the end of the year if there is none).  A machine whose
  clock is never changed fulfils this always.  Near a change of the clock it is false: the search loses runs
  (\<open>local_search_skips_repeated\<close>) and answers times in the past (\<open>local_search_in_past\<close>); and an expression that names
  some months only can lose a run on any machine (\<open>local_search_skips_month\<close>).\<close>

theorem local_search_exact:
  assumes "parseCron expression = Inr f" "\<forall>m \<in> set (cf_minutes f). m < 60" "\<forall>h \<in> set (cf_hours f). h < 24"
    and "{1..12} \<subseteq> set (cf_months f)"
    and "\<forall>v. date - 3 * MS_DAY \<le> v \<and> v \<le> b + 3 * MS_DAY \<longrightarrow> offsetAt z v = d"
    and "\<forall>e \<in> set (zoneOffsets z). \<bar>e - d\<bar> \<le> 26 * 3600000"
    and "start = (date + d) div 60000 * 60000 + 60000 - d"
    and "limit = utcOf z (setFullYear (date + d) (getFullYear (date + d) + 1))"
    and "date \<le> b" "case scanMinutes (localClock z) f limit start of Some u \<Rightarrow> u \<le> b | None \<Rightarrow> limit \<le> b"
  shows "nextRunLocal z expression date = scanMinutes (localClock z) f limit start"
proof -
  let ?wall = "\<lambda>v. clockOf (v + d)"
  have q: "quiet z d (date - MS_DAY) b" using assms(5,6) by (simp add: quiet_def calm_def)
  have s: "startLocal z date = start" using startLocal_quiet [OF q assms(9)] assms(7) by simp
  have l: "limitLocal z date = limit"
    using quiet_local [OF q, of date] assms(8,9) by (simp add: limitLocal_def date_setFullYear_def MS_DAY_def)
  have ends: "scanEnd (localClock z) f limit start \<le> b" using assms(10) by (simp add: scanEnd_def split: option.splits)
  have after: "date - MS_DAY \<le> start" "aligned (start + d)"
    using below_next [of 60000 "date + d"] start_aligned [of "date + d"]
    by (simp_all add: assms(7) MS_DAY_def distrib_right)
  have agree: "scanMinutes ?wall f limit start = scanMinutes (localClock z) f limit start"
    using after(1) ends
    by (intro scan_agree) (simp add: localClock_def quiet_local [OF q] MS_DAY_def)
  have "scanEnd ?wall f limit start \<le> b" using ends by (simp add: scanEnd_def agree)
  from searchLocal_scan [OF q parseCron_sorted [OF assms(1)] assms(2-4) after this] show ?thesis
    by (simp add: nextRunLocal_def assms(1) s l agree)
qed

text \<open>New York, 31 January 2026: the next run is in winter.\<close>

theorem local_search_exact_witness:
  "nextRunLocal new_york ''5 * * * *'' 1769904250000 = Some 1769904300000"
proof -
  let ?f = "\<lparr>cf_minutes = [5], cf_hours = [0, 1, 2, 3, 4, 5, 6, 7, 8, 9, 10, 11, 12, 13, 14, 15, 16, 17, 18, 19, 20, 21, 22, 23],
    cf_daysOfMonth = [1, 2, 3, 4, 5, 6, 7, 8, 9, 10, 11, 12, 13, 14, 15, 16, 17, 18, 19, 20, 21, 22, 23, 24, 25, 26, 27, 28, 29, 30, 31],
    cf_months = [1, 2, 3, 4, 5, 6, 7, 8, 9, 10, 11, 12], cf_daysOfWeek = [0, 1, 2, 3, 4, 5, 6]\<rparr>"
  let ?d = "- 18000000 :: int"
  let ?start = "(1769904250000 + ?d) div 60000 * 60000 + 60000 - ?d"
    and ?limit = "utcOf new_york (setFullYear (1769904250000 + ?d) (getFullYear (1769904250000 + ?d) + 1))"
  have parse: "parseCron ''5 * * * *'' = Inr ?f" by code_simp
  have ranges: "\<forall>m \<in> set (cf_minutes ?f). m < 60" "\<forall>h \<in> set (cf_hours ?f). h < 24" "{1..12} \<subseteq> set (cf_months ?f)"
    by code_simp+
  have scan: "scanMinutes (localClock new_york) ?f ?limit ?start = Some 1769904300000" by code_simp
  have calm: "\<forall>v. 1769904250000 - 3 * MS_DAY \<le> v \<and> v \<le> 1769904300000 + 3 * MS_DAY \<longrightarrow> offsetAt new_york v = ?d"
    by (simp add: offsetAt_def new_york_def MS_DAY_def)
  have spread: "\<forall>e \<in> set (zoneOffsets new_york). \<bar>e - ?d\<bar> \<le> 26 * 3600000" by code_simp
  have "nextRunLocal new_york ''5 * * * *'' 1769904250000 = scanMinutes (localClock new_york) ?f ?limit ?start"
    by (rule local_search_exact [OF parse ranges calm spread refl refl]) (simp_all only: scan, simp_all)
  with scan show ?thesis by simp
qed

text \<open>A machine whose clock is never changed is calm at all times.\<close>

lemma fixed_zone: "zn_changes z = [] \<Longrightarrow> offsetAt z v = zn_first z \<and> set (zoneOffsets z) = {zn_first z}"
  by (simp add: offsetAt_def zoneOffsets_def)

text \<open>
  The search, in UTC, from the last day of January: the run of 1 February is passed over for that of 1 March.
\<close>

definition utc_zone :: Zone where
  "utc_zone = \<lparr> zn_first = 0, zn_changes = [] \<rparr>"

lemma local_search_skips_month:
  "wk_month (localClock utc_zone 1769817600000) = 1 \<and> wk_dom (localClock utc_zone 1769817600000) = 31"
  "cronMatches (localClock utc_zone) ''0 0 1 2,3 *'' 1769904000000" "1769904000000 < (1772323200000 :: int)"
  "nextRun None utc_zone ''0 0 1 2,3 *'' 1769817600000 = Some 1772323200000"
proof -
  show "nextRun None utc_zone ''0 0 1 2,3 *'' 1769817600000 = Some 1772323200000" by code_simp
qed code_simp+

text \<open>
  New York, the end of summer time 2026.  At the first half past one the next one o'clock is half an hour away, when
  the hour begins again, but the search gives one o'clock of the next day; and at the second half past one the next
  quarter to two is a quarter of an hour away, but the search gives the first one, three quarters of an hour ago.
\<close>

lemma local_search_skips_repeated:
  "cronMatches (localClock new_york) ''0 1 * * *'' 1793512800000" "1793511000000 < (1793512800000 :: int)"
  "nextRun None new_york ''0 1 * * *'' 1793511000000 = Some 1793599200000" "1793512800000 < (1793599200000 :: int)"
proof -
  show "nextRun None new_york ''0 1 * * *'' 1793511000000 = Some 1793599200000" by code_simp
qed code_simp+

lemma local_search_in_past:
  "nextRun None new_york ''45 1 * * *'' 1793514600000 = Some 1793511900000" "1793511900000 < (1793514600000 :: int)"
  "cronMatches (localClock new_york) ''45 1 * * *'' 1793515500000" "1793514600000 < (1793515500000 :: int)"
proof -
  show "nextRun None new_york ''45 1 * * *'' 1793514600000 = Some 1793511900000" by code_simp
qed code_simp+


section \<open>Jobs\<close>

text \<open>A job with fields fires at most once in a minute, however often its timer looks.\<close>

lemma fireCron_once:
  assumes "js_get jobs n = Some job" "cj_timer job = MinuteTimer seen" "now div 60000 = later div 60000"
  shows "\<not> fst (fireCron configured machine later n (snd (fireCron configured machine now n jobs)))"
proof (cases "now div 60000 = seen")
  case True
  then show ?thesis using assms by (simp add: fireCron_def)
next
  case False
  then show ?thesis using assms by (simp add: fireCron_def Let_def jsmap_simps)
qed

text \<open>A failed schedule leaves no job of its name, whether there was one or not.\<close>

lemma scheduleCron_failed:
  assumes "scheduleCron configured machine now n expression jobs = (Some e, jobs')"
  shows "js_get jobs' n = None" "k \<noteq> n \<Longrightarrow> js_get jobs' k = js_get jobs k"
  using assms by (auto simp: scheduleCron_def cancelCron_def Let_def jsmap_simps
      split: EveryResult.splits sum.splits option.splits if_splits)

end
