(* ===== verification/Spec2Isabelle.thy ===== *)
theory Spec2Isabelle
  imports Orchestrator_Gate Agent_Hierarchy Task_Manager Sidecar_Scheduler Sidecar_Rpc Worker_Drain Workflow_Timers Output_Laws Event_Buffer Expression_Values
    Realtime_Gate Cron_Laws
begin

text \<open>
  \<^bold>\<open>JARVIS, the parts that decide and that remember.\<close>  The program is a daemon that runs a model with tools on the
  user's machines.  This development models what stands between the model and an effect on the world, and the
  queues and tables through which work survives a crash.  Paths are relative to \<^verbatim>\<open>src/src/\<close> of the repository.

  \<^bold>\<open>1. From a tool call to an effect.\<close>
  A tool call is first given its action categories: the static table of the tool, and what the tool's own gate
  declares for these arguments (\<^verbatim>\<open>authority/tool-action-map.ts\<close>, theory \<open>Tool_Gate\<close>; tools and their registry,
  \<^verbatim>\<open>actions/tools/registry.ts\<close>, theory \<open>Tool_Registry\<close>).  For each category the engine
  (\<^verbatim>\<open>authority/engine.ts\<close>, theory \<open>Authority_Engine\<close>) decides to allow, to ask or to deny, from levels, grants,
  overrides, context rules and governed categories; the categories, impacts and levels are those of
  \<^verbatim>\<open>roles/authority.ts\<close> (theory \<open>Roles_Authority\<close>).  Profiles for background work and for turns that read outside
  content tighten the decision, and a one-click override loosens it for a role (\<^verbatim>\<open>authority/taint-gating.ts\<close>,
  \<^verbatim>\<open>background-profile.ts\<close>, \<^verbatim>\<open>quick-override.ts\<close>, theory \<open>Authority_Profiles\<close>).  Content from outside is framed
  before the model reads it (\<^verbatim>\<open>roles/untrusted.ts\<close>, theory \<open>Untrusted\<close>).  The orchestrator folds the decisions
  of a call into one and acts on it: it runs the tool, refuses, or writes an approval request and waits
  (\<^verbatim>\<open>agents/orchestrator.ts\<close>, theory \<open>Orchestrator_Gate\<close>).  Requests live in a table
  (\<^verbatim>\<open>authority/approval.ts\<close>, theories \<open>Approval\<close> and \<open>Approval_Lifecycle\<close>); an approved one is claimed and
  executed later by the deferred executor (\<^verbatim>\<open>authority/deferred-executor.ts\<close>, theory \<open>Deferred_Executor\<close>).  Each
  decision goes to the audit trail (\<^verbatim>\<open>authority/audit.ts\<close>, theory \<open>Audit_Trail\<close>), to the learner of habits
  (\<^verbatim>\<open>authority/learning.ts\<close>, theory \<open>Learning\<close>), and everything stops behind the emergency switch
  (\<^verbatim>\<open>authority/emergency.ts\<close>, theory \<open>Emergency\<close>).  Contexts and arguments are JSON text (theory \<open>Json\<close>).

  \<^bold>\<open>2. Agents.\<close>
  An agent holds a role, a message history and a task (\<^verbatim>\<open>agents/agent.ts\<close>, \<^verbatim>\<open>messaging.ts\<close>, \<^verbatim>\<open>delegation.ts\<close>,
  theory \<open>Agents\<close>); histories are compacted in whole exchanges (\<^verbatim>\<open>llm/history.ts\<close>, theory \<open>LLM_History\<close>).  Agents
  form a tree (\<^verbatim>\<open>agents/hierarchy.ts\<close>, theory \<open>Agent_Hierarchy\<close>) and run background tasks under a cap
  (\<^verbatim>\<open>agents/task-manager.ts\<close>, theory \<open>Task_Manager\<close>).

  \<^bold>\<open>3. Sidecars.\<close>
  Machines of the user send events, which wait in bounded priority queues served in turn
  (\<^verbatim>\<open>sidecar/scheduler.ts\<close>, theory \<open>Sidecar_Scheduler\<close>), and answer calls, which have a fast and a long timeout
  (\<^verbatim>\<open>sidecar/rpc.ts\<close>, theory \<open>Sidecar_Rpc\<close>).

  \<^bold>\<open>4. Workflows.\<close>
  Runs, jobs, waitpoints and stop decisions are SQLite tables (\<^verbatim>\<open>workflows/db/repos/flow-run.ts\<close>,
  \<^verbatim>\<open>run-cancellation.ts\<close>, \<^verbatim>\<open>waitpoint.ts\<close>, \<^verbatim>\<open>workflows/runtime/cancellation.ts\<close>, theory \<open>Workflow_Db\<close>; the job queue
  with leases, retries and boot recovery, \<^verbatim>\<open>job-queue.ts\<close>, theory \<open>Job_Queue\<close>).  A worker claims jobs and hands them
  to the handler that drives the engine (\<^verbatim>\<open>workflows/queue/worker.ts\<close>, \<^verbatim>\<open>workflows/runner/handler.ts\<close>, theory
  \<open>Workflow_Worker\<close>); its invariants and laws are in \<open>Queue_Invariant\<close>, \<open>Run_Fence\<close>, \<open>Queue_Laws\<close>,
  \<open>Workflow_Queue\<close> and \<open>Worker_Drain\<close>.  Timers and the recovery of approvals wake paused runs
  (\<^verbatim>\<open>workflows/timer-scheduler.ts\<close>, \<^verbatim>\<open>workflows/runtime/effect-approval-scheduler.ts\<close>, theory \<open>Workflow_Timers\<close>).

  A step that acts on the world passes the effect boundary, which asks for approval, keeps one row for each effect
  and replays a recorded outcome instead of acting twice (\<^verbatim>\<open>workflows/runtime/effect-boundary.ts\<close>,
  \<^verbatim>\<open>effect-context.ts\<close>, \<^verbatim>\<open>workflows/db/repos/workflow-effect.ts\<close>, \<^verbatim>\<open>workflows/db/flow-graph.ts\<close>,
  \<^verbatim>\<open>actions/action-outcome.ts\<close>; theories \<open>Canonical_Json\<close> for the canonical text that is hashed, \<open>Effect_Store\<close> for the
  rows, \<open>Effect_Boundary\<close> for the operations, \<open>Effect_Laws\<close> for what holds of each, \<open>Effect_Process\<close> for a process of
  many calls, crashes and writes of others, the deletion of a flow included, and \<open>Effect_Properties\<close> for what is
  promised over such a process).  Of the calls the theorems assume what the program provides (\<open>apart\<close>): a run's id is
  not given to a second run, and the calls of another run have another effect id, which is a hash of the run's id.
  The replies of language model steps are held to the output schema a step declares
  (\<^verbatim>\<open>workflows/runtime/llm-output-contract.ts\<close>, theories \<open>Output_Contract\<close> and \<open>Output_Laws\<close>), expressions in the inputs of
  steps are interpreted (\<^verbatim>\<open>workflows/runtime/safe-expression.ts\<close>, theories \<open>Safe_Expression\<close>, \<open>Expression_Laws\<close> and
  \<open>Expression_Values\<close>), and polling triggers read their events from a buffer (\<^verbatim>\<open>workflows/runtime/event-buffer.ts\<close>,
  theory \<open>Event_Buffer\<close>).  The numbers of schemas and expressions are those of \<open>Js_Number\<close>.

  \<^bold>\<open>5. The daemon.\<close>
  Hosted voice sessions pass a gate that caches whether the plan includes them (\<^verbatim>\<open>daemon/realtime-gate.ts\<close>, theory
  \<open>Realtime_Gate\<close>).  Timed work is scheduled by cron expressions (\<^verbatim>\<open>lib/cron-scheduler.ts\<close>; theory \<open>Js_Date\<close> for the
  calendar, \<open>Js_Zone\<close> for the machine's local time, \<open>Cron_Expression\<close> for the syntax and the search in a time zone, \<open>Cron_Scheduler\<close> for the search on the
  machine's clock and the jobs, \<open>Cron_Laws\<close> for the comparison with a scan of every minute).  The machine's zone is a
  table of offsets with the instants at which they change, an argument like the clock; a getter of a date reads the
  local time, and a setter goes back to the instant of the one it computes, so skipped and repeated hours are there.

  \<^bold>\<open>How the state is modelled.\<close>
  A class is a record of its fields, a table is the list of its rows in insertion order, a \<^verbatim>\<open>Map\<close> or \<^verbatim>\<open>Set\<close> is an
  association list or list in insertion order, an object of JSON is an association list.  An operation takes the
  state and returns it updated; what it throws is the left of a sum or a constructor of its outcome.  SQL
  updates and selections are written out over the rows (\<open>Prelude\<close>); rows that tie in an \<^verbatim>\<open>ORDER BY\<close> keep the order
  of their row ids.  Clocks, fresh ids, the bodies of tools, the engine of workflows and the callbacks of other
  components are arguments.  Where JavaScript yields between two steps, the steps are separate
  operations and theorems range over their interleavings: \<open>ApprovalOp\<close>, \<open>WorldOp\<close>, \<open>WfOp\<close>, \<open>WorkerStep\<close>,
  \<open>BoundaryEvent\<close>, \<open>BufferStep\<close>, \<open>GateStep\<close> and the runs of the scheduler, the tracker and the task manager.  Numbers are
  unbounded where the sources only add, compare and scale counters, times and token counts that stay far below the 53
  bits of a double; where the value of a number matters, it is a double with its rounding (\<open>Js_Number\<close>), zero having
  one sign.  The hash of an effect (SHA-256), the table of flow versions and
  the wall clock of a time zone are parameters; of the last, \<open>regular_clock\<close> states what the search relies on.

  \<^bold>\<open>What is shown.\<close>
  \<^item> Consent: no governed effect without a person, on the inline, the deferred and the voice path, and exactly
    which calls run unasked; profiles only tighten and merge like sequential use.
  \<^item> Once: a request is executed by at most one claim, a workflow job is handed out once and a run begun once.
    All three are instances of one locale (\<open>guarded_one_shot\<close>, \<open>one_shot\<close>) interpreted on the model's operations.
    An effect of a workflow is dispatched at most once, another instance of \<open>guarded_one_shot\<close>, and only under its
    licence; its row follows the automaton of its states until its run is deleted, its outcome is written in the
    row, the receipt of its approval and the audit trail, and every later call returns it; a trigger sees each event once.
  \<^item> Life cycles: statuses of requests only move forward; a stop decision on a run is final under every
    operation, including late reports of the engine and restarts; restarts leave no job running.
  \<^item> Exact behaviour on every branch: claims, failures with backoff, recovery, reconciliation, dispatch,
    settlement of tasks, compaction of histories.
  \<^item> Accounting, fairness and bounds: events are served, queued or counted as dropped; a non-empty queue is
    served within one round; a call is answered once; histories, queues and running tasks stay within their caps.
  \<^item> Data: a step with an output schema succeeds exactly with the replies JSON Schema accepts, keyword by keyword; an
    expression depends on its static references only, and returns plain data within its budget.
  \<^item> Time: the search for the next run of a cron expression in a time zone equals a scan of every minute, across
    changes of the clock.  The search on the machine's clock does for expressions that name every month, where the
    clock does not change within three days of the search; examples show the month and the repeated hour it skips
    otherwise.
  \<^item> Asymmetry: the plan gate reads excluded exactly from a definitive exclusion to a definitive inclusion.
  \<^item> Termination: the parser of expressions, the poll for a decision, the walks over the agent tree, the one-shot mode of the worker.

  \<^bold>\<open>Bounds and fuel.\<close>
  The JSON reader takes fuel, which \<open>parse_fuel_enough\<close> shows never runs out; the loops of the expression parser take
  one more than the number of tokens left, which \<open>expression_ends\<close> shows enough.  The guard of the cron search is the code's own.
  The recursions over the agent tree take a call depth; the number of agents is enough, which is what
  \<open>remove_exact\<close> and \<open>tree_total\<close> show.  The wait for a decision is given its wake-ups as a list, which
  \<open>waitForResolution_returns\<close> shows is used up no later than the timeout; the one-shot worker is given its turns as
  a list, and \<open>drain_returns\<close> shows \<open>turnsLeft\<close> of them enough.

  \<^bold>\<open>Not modelled.\<close>
  The model and its providers, the vendored workflow engine and its pieces, HTTP and WebSocket routes, the user
  interface, processes and files, and the repositories that only store and list rows.  Text is a list of code units
  up to U+00FF; a JSON number that is only stored or compared as text is the text it was written as.  A malformed payload of a job makes
  SQLite's \<^verbatim>\<open>json_extract\<close> raise, and the model reads it as naming no run: \<open>enqueueJob\<close> writes none.  The abort
  signals that announce a stop to a running engine, and the capture of step outputs as sample data after a
  run, are left out; neither writes the tables modelled here.
\<close>

end
